(* ===== verification/CMM_Prelude.thy ===== *)
theory CMM_Prelude
  imports Main "HOL-Library.Word"
begin

unbundle bit_operations_syntax

text \<open>
  What the components share: the machine types of the LP64 Linux build, the outcomes that end a
  C++ function early (a failed \<^verbatim>\<open>ASSERT\<close>, an exception, an access outside a container), the
  narrowing of a \<^verbatim>\<open>long\<close> to an \<^verbatim>\<open>int\<close>, the operations of \<^verbatim>\<open>std::deque\<close>
  and \<^verbatim>\<open>std::set\<close> that the sources use, and the lemmas on lists and narrowing that several
  components need.
\<close>

section \<open>Collections of rewrite rules\<close>

named_theorems result_simps \<open>how results with an error combine\<close>
named_theorems wire_simps \<open>host and network representation of header fields\<close>

section \<open>Machine types\<close>

type_synonym u_long = "64 word"
type_synonym in_addr_t = "32 word"
type_synonym byte = "8 word"
type_synonym irob_id_t = int

section \<open>Early ends of a function\<close>

text \<open>
  \<open>AssertFailed\<close> is the trap of the macro \<^verbatim>\<open>ASSERT\<close> (debug.h), which is compiled in every build;
  \<open>OutOfBounds\<close> is an access to a container outside its size, which C++ leaves undefined;
  \<open>OutOfFuel\<close> is the end of the bound that the model puts on a loop which may run forever;
  the others are the exceptions the sources throw.
\<close>

datatype cmm_error =
    AssertFailed
  | OutOfBounds
  | ControlException
  | FatalError
  | CMMException
  | ThreadFinish
  | RuntimeError
  | OutOfFuel

type_synonym 'a result = "cmm_error + 'a"

definition bindE :: "'a result \<Rightarrow> ('a \<Rightarrow> 'b result) \<Rightarrow> 'b result" where
  "bindE m f = (case m of Inl e \<Rightarrow> Inl e | Inr x \<Rightarrow> f x)"

definition ASSERT :: "bool \<Rightarrow> 'a result \<Rightarrow> 'a result" where
  "ASSERT c m = (if c then m else Inl AssertFailed)"

fun foldE :: "('x \<Rightarrow> 's \<Rightarrow> 's result) \<Rightarrow> 'x list \<Rightarrow> 's \<Rightarrow> 's result" where
  "foldE f [] s = Inr s"
| "foldE f (x # xs) s = bindE (f x s) (foldE f xs)"

section \<open>Narrowing\<close>

text \<open>The conversion of a \<^verbatim>\<open>long\<close> or \<^verbatim>\<open>size_t\<close> to a 32-bit \<^verbatim>\<open>int\<close>: reduction modulo \<open>2 ^ 32\<close>
  into the signed range.\<close>

definition to_int :: "int \<Rightarrow> int" where
  "to_int x = (x + 2 ^ 31) mod 2 ^ 32 - 2 ^ 31"

section \<open>Containers\<close>

text \<open>\<^verbatim>\<open>deque::resize(n, v)\<close> and \<^verbatim>\<open>vector::resize\<close>: cut or filled up at the end.\<close>

definition resize :: "nat \<Rightarrow> 'a \<Rightarrow> 'a list \<Rightarrow> 'a list" where
  "resize n v xs = take n xs @ replicate (n - length xs) v"

text \<open>The iteration order of a \<^verbatim>\<open>std::set\<close> of integers.\<close>

abbreviation iter_set :: "int set \<Rightarrow> int list" where
  "iter_set \<equiv> sorted_list_of_set"

section \<open>Shared lemmas\<close>

lemma bindE_simps [simp, result_simps]:
  "bindE (Inl e) f = Inl e"
  "bindE (Inr x) f = f x"
  by (simp_all add: bindE_def)

lemma bindE_eq_Inr [result_simps]:
  "bindE m f = Inr y \<longleftrightarrow> (\<exists>x. m = Inr x \<and> f x = Inr y)"
  by (cases m) auto

lemma ASSERT_simps [simp, result_simps]:
  "ASSERT True m = m"
  "ASSERT False m = Inl AssertFailed"
  by (simp_all add: ASSERT_def)

lemma ASSERT_eq_Inr [result_simps]: "ASSERT c m = Inr y \<longleftrightarrow> c \<and> m = Inr y"
  by (simp add: ASSERT_def)

text \<open>A loop over a container keeps what each of its steps keeps, and fails only where a step fails.\<close>

lemma foldE_invariant:
  assumes "I s" and "\<And>x s. x \<in> set xs \<Longrightarrow> I s \<Longrightarrow> \<exists>s'. f x s = Inr s' \<and> I s'"
  shows "\<exists>s'. foldE f xs s = Inr s' \<and> I s'"
  using assms
proof (induction xs arbitrary: s)
  case (Cons x xs)
  then obtain s1 where "f x s = Inr s1" "I s1" by fastforce
  moreover have "\<exists>s'. foldE f xs s1 = Inr s' \<and> I s'"
    using Cons.prems(2) \<open>I s1\<close> by (intro Cons.IH) auto
  ultimately show ?case by simp
qed simp

lemma foldE_append: "foldE f (xs @ ys) s = bindE (foldE f xs s) (foldE f ys)"
proof (induction xs arbitrary: s)
  case (Cons x xs)
  then show ?case by (cases "f x s") simp_all
qed simp

text \<open>A map kept as a list in the order of its keys.\<close>

lemma distinct_keys_insort:
  "distinct (map fst xs) \<Longrightarrow> fst e \<notin> fst ` set xs \<Longrightarrow> distinct (map fst (insort_key fst e xs))"
  by (induction xs) (auto simp: set_insort_key)

lemma to_int_range: "- (2 ^ 31) \<le> to_int x" "to_int x < 2 ^ 31"
  using pos_mod_sign [of "2 ^ 32" "x + 2 ^ 31"] pos_mod_bound [of "2 ^ 32" "x + 2 ^ 31"]
  by (simp_all add: to_int_def)

lemma to_int_id [simp]:
  assumes "- (2 ^ 31) \<le> x" and "x < 2 ^ 31"
  shows "to_int x = x"
  using assms by (simp add: to_int_def mod_pos_pos_trivial)

text \<open>Below zero, counting up by one commutes with the narrowing: the loops that count an index up
  to zero need no more steps than its absolute value.\<close>

lemma to_int_Suc_neg:
  assumes "to_int x < 0"
  shows "to_int (x + 1) = to_int x + 1"
proof -
  let ?y = "(x + 2 ^ 31) mod 2 ^ 32"
  have "?y < 2 ^ 31" using assms by (simp add: to_int_def)
  moreover have "0 \<le> ?y" by simp
  ultimately have "(?y + 1) mod 2 ^ 32 = ?y + 1" by (simp add: mod_pos_pos_trivial)
  moreover have "(x + 1 + 2 ^ 31) mod 2 ^ 32 = (?y + 1) mod 2 ^ 32"
    using mod_add_left_eq [of "x + 2 ^ 31" "2 ^ 32" 1] by (simp add: algebra_simps)
  ultimately show ?thesis by (simp add: to_int_def)
qed

lemma length_resize [simp]: "length (resize n v xs) = n"
  by (simp add: resize_def)

lemma nth_resize: "i < n \<Longrightarrow> resize n v xs ! i = (if i < length xs then xs ! i else v)"
  by (auto simp: resize_def nth_append)

lemma resize_ge: "length xs \<le> n \<Longrightarrow> resize n v xs = xs @ replicate (n - length xs) v"
  by (simp add: resize_def)

lemma sum_list_take_mono: "i \<le> j \<Longrightarrow> sum_list (take i xs) \<le> sum_list (take j (xs :: nat list))"
  by (metis add_leD1 le_add_diff_inverse order_refl sum_list_append take_add)

lemma sum_list_take_Suc:
  "i < length xs \<Longrightarrow> sum_list (take (Suc i) xs) = sum_list (take i xs) + (xs ! i :: nat)"
  by (simp add: take_Suc_conv_app_nth)

lemma length_concat_sum: "length (concat xss) = sum_list (map length xss)"
  by (simp add: length_concat)

end
