(* ===== verification/Int_Set.thy ===== *)
theory Int_Set
  imports CMM_Prelude
begin

text \<open>
  The class \<^verbatim>\<open>IntSet\<close> of intset.h and intset.cpp: a set of \<^verbatim>\<open>long\<close>s kept as two bit vectors,
  one for the integers from zero up and one for the absolute values of the negative ones, with a
  count of its elements. The bit vectors (\<^verbatim>\<open>boost::dynamic_bitset\<close>) are boolean lists.
\<close>

record int_set =
  pos_vec :: "bool list"
  neg_vec :: "bool list"
  nums :: nat

definition IntSet :: int_set where
  "IntSet = \<lparr>pos_vec = [], neg_vec = [], nums = 0\<rparr>"

definition contains_vec :: "bool list \<Rightarrow> int \<Rightarrow> bool" where
  "contains_vec vec num = (if length vec \<le> nat num then False else vec ! nat num)"

definition contains :: "int_set \<Rightarrow> int \<Rightarrow> bool" where
  "contains s num =
     (if 0 \<le> num then contains_vec (pos_vec s) num else contains_vec (neg_vec s) (- num))"

definition insert_vec :: "bool list \<Rightarrow> int \<Rightarrow> bool list" where
  "insert_vec vec num =
     (if length vec \<le> nat num then resize (nat num) False vec @ [True] else vec[nat num := True])"

definition insert_num :: "int_set \<Rightarrow> int \<Rightarrow> int_set" where
  "insert_num s num =
     (if \<not> contains s num
      then (if 0 \<le> num
            then s\<lparr>nums := nums s + 1, pos_vec := insert_vec (pos_vec s) num\<rparr>
            else s\<lparr>nums := nums s + 1, neg_vec := insert_vec (neg_vec s) (- num)\<rparr>)
      else s)"

definition erase_num :: "int_set \<Rightarrow> int \<Rightarrow> int_set" where
  "erase_num s num =
     (if contains s num
      then (if 0 \<le> num
            then s\<lparr>pos_vec := (pos_vec s)[nat num := False], nums := nums s - 1\<rparr>
            else s\<lparr>neg_vec := (neg_vec s)[nat (- num) := False], nums := nums s - 1\<rparr>)
      else s)"

definition set_size :: "int_set \<Rightarrow> nat" where
  "set_size s = nums s"

definition set_empty :: "int_set \<Rightarrow> bool" where
  "set_empty s \<longleftrightarrow> set_size s = 0"

definition clear_nums :: "int_set \<Rightarrow> int_set" where
  "clear_nums s = s\<lparr>pos_vec := [], neg_vec := [], nums := 0\<rparr>"

section \<open>The set a value stands for\<close>

definition elems :: "int_set \<Rightarrow> int set" where
  "elems s = {n. contains s n}"

text \<open>The count agrees with the bits. The second vector never has its bit 0 set, since zero is
  kept in the first.\<close>

definition int_set_inv :: "int_set \<Rightarrow> bool" where
  "int_set_inv s \<longleftrightarrow> nums s = card (elems s)"

lemma contains_vec_range: "contains_vec vec n \<Longrightarrow> nat n < length vec"
  by (simp add: contains_vec_def split: if_splits)

lemma contains_vec_insert:
  "0 \<le> m \<Longrightarrow> 0 \<le> n \<Longrightarrow> contains_vec (insert_vec vec m) n \<longleftrightarrow> n = m \<or> contains_vec vec n"
  by (auto simp: contains_vec_def insert_vec_def resize_ge nth_append nth_list_update nat_eq_iff2)

lemma contains_vec_erase:
  "0 \<le> m \<Longrightarrow> 0 \<le> n \<Longrightarrow>
   contains_vec (vec[nat m := False]) n \<longleftrightarrow> n \<noteq> m \<and> contains_vec vec n"
  by (cases "nat m = nat n") (auto simp: contains_vec_def)

lemma contains_elems: "contains s n \<longleftrightarrow> n \<in> elems s"
  by (simp add: elems_def)

lemma finite_elems [simp]: "finite (elems s)"
proof (rule finite_subset)
  show "elems s \<subseteq> {- int (length (neg_vec s)) .. int (length (pos_vec s))}"
    by (auto simp: elems_def contains_def dest!: contains_vec_range split: if_splits)
qed simp

lemma elems_IntSet [simp]: "elems IntSet = {}"
  by (simp add: elems_def contains_def contains_vec_def IntSet_def)

lemma elems_insert_num [simp]: "elems (insert_num s n) = insert n (elems s)"
  by (auto simp: elems_def insert_num_def contains_def contains_vec_insert split: if_splits)

lemma elems_erase_num [simp]: "elems (erase_num s n) = elems s - {n}"
  by (auto simp: elems_def erase_num_def contains_def contains_vec_erase split: if_splits)

lemma elems_clear_nums [simp]: "elems (clear_nums s) = {}"
  by (simp add: elems_def clear_nums_def contains_def contains_vec_def)

lemma size_insert_num: "nums (insert_num s n) = (if n \<in> elems s then nums s else Suc (nums s))"
  by (simp add: insert_num_def elems_def)

lemma size_erase_num: "nums (erase_num s n) = (if n \<in> elems s then nums s - 1 else nums s)"
  by (simp add: erase_num_def elems_def)

section \<open>The contract of an integer set\<close>

text \<open>What the lattice and the network statistics rely on when they keep sets of IROB ids.\<close>

locale id_set =
  fixes new :: "'s"
    and ins :: "'s \<Rightarrow> int \<Rightarrow> 's"
    and del :: "'s \<Rightarrow> int \<Rightarrow> 's"
    and clr :: "'s \<Rightarrow> 's"
    and mem :: "'s \<Rightarrow> int \<Rightarrow> bool"
    and num :: "'s \<Rightarrow> nat"
    and abs :: "'s \<Rightarrow> int set"
    and invar :: "'s \<Rightarrow> bool"
  assumes abs_new: "abs new = {}"
    and abs_ins: "abs (ins s n) = insert n (abs s)"
    and abs_del: "abs (del s n) = abs s - {n}"
    and abs_clr: "abs (clr s) = {}"
    and mem_abs: "mem s n \<longleftrightarrow> n \<in> abs s"
    and num_abs: "invar s \<Longrightarrow> num s = card (abs s)"
    and invar_new: "invar new"
    and invar_ins: "invar s \<Longrightarrow> invar (ins s n)"
    and invar_del: "invar s \<Longrightarrow> invar (del s n)"
    and invar_clr: "invar s \<Longrightarrow> invar (clr s)"
begin

text \<open>A run of operations: \<open>Inl n\<close> inserts and \<open>Inr n\<close> erases.\<close>

definition run :: "(int + int) list \<Rightarrow> 's" where
  "run ops = fold (\<lambda>p s. case p of Inl n \<Rightarrow> ins s n | Inr n \<Rightarrow> del s n) ops new"

definition spec :: "(int + int) list \<Rightarrow> int set" where
  "spec ops = fold (\<lambda>p A. case p of Inl n \<Rightarrow> insert n A | Inr n \<Rightarrow> A - {n}) ops {}"

lemma run_abs: "abs (run ops) = spec ops \<and> invar (run ops)"
  by (induction ops rule: rev_induct)
    (auto simp: run_def spec_def abs_new abs_ins abs_del invar_new invar_ins invar_del
      split: sum.splits)

lemma run_correct: "mem (run ops) n \<longleftrightarrow> n \<in> spec ops" "num (run ops) = card (spec ops)"
  using run_abs [of ops] by (simp_all add: mem_abs num_abs)

end

interpretation ids: id_set IntSet insert_num erase_num clear_nums contains set_size elems int_set_inv
proof unfold_locales
  fix s n
  show "int_set_inv s \<Longrightarrow> int_set_inv (insert_num s n)"
    by (simp add: int_set_inv_def size_insert_num card_insert_if)
  show "int_set_inv s \<Longrightarrow> int_set_inv (erase_num s n)"
    by (simp add: int_set_inv_def size_erase_num)
qed (simp_all add: contains_elems int_set_inv_def set_size_def IntSet_def [symmetric],
     simp_all add: IntSet_def clear_nums_def)

section \<open>Properties\<close>

text \<open>The loops of the clients, written out over the model.\<close>

fun run_ops :: "(int + int) list \<Rightarrow> int_set \<Rightarrow> int_set" where
  "run_ops [] s = s"
| "run_ops (Inl n # ops) s = run_ops ops (insert_num s n)"
| "run_ops (Inr n # ops) s = run_ops ops (erase_num s n)"

fun spec_ops :: "(int + int) list \<Rightarrow> int set \<Rightarrow> int set" where
  "spec_ops [] A = A"
| "spec_ops (Inl n # ops) A = spec_ops ops (insert n A)"
| "spec_ops (Inr n # ops) A = spec_ops ops (A - {n})"

lemma run_ops_fold: "run_ops ops s = fold (\<lambda>p s. case p of Inl n \<Rightarrow> insert_num s n | Inr n \<Rightarrow> erase_num s n) ops s"
  by (induction ops s rule: run_ops.induct) simp_all

lemma spec_ops_fold: "spec_ops ops A = fold (\<lambda>p A. case p of Inl n \<Rightarrow> insert n A | Inr n \<Rightarrow> A - {n}) ops A"
  by (induction ops A rule: spec_ops.induct) simp_all

text \<open>
  C35. After any sequence of insertions and erasures, an \<^verbatim>\<open>IntSet\<close> contains exactly the integers
  (negative ones included) of the mathematical set run through the same sequence, \<^verbatim>\<open>size()\<close> is
  its cardinality and \<^verbatim>\<open>empty()\<close> says whether it has none.
\<close>

theorem int_set_refines:
  "(contains (run_ops ops IntSet) n \<longleftrightarrow> n \<in> spec_ops ops {}) \<and>
   set_size (run_ops ops IntSet) = card (spec_ops ops {}) \<and>
   (set_empty (run_ops ops IntSet) \<longleftrightarrow> card (spec_ops ops {}) = 0)"
  using ids.run_correct(1) [of ops n] ids.run_correct(2) [of ops]
  by (simp_all add: ids.run_def ids.spec_def run_ops_fold spec_ops_fold set_empty_def)

end
