(* ===== verification/Ordered_Set.thy ===== *)
theory Ordered_Set
  imports CMM_Prelude
begin

text \<open>
  The operations of \<^verbatim>\<open>std::set<T, lt>\<close> that the sources use, on the sequence of elements in iteration
  order: insertion that leaves the set alone when an equivalent element is there, lookup and
  removal by equivalence, and \<^verbatim>\<open>pop_item\<close> of common.h. The C++ standard defines them when \<open>lt\<close>
  is a strict weak ordering of the elements; the locale \<open>keyed_order\<close> below states that as an
  order by a key.
\<close>

section \<open>Operations\<close>

fun set_insert :: "('a \<Rightarrow> 'a \<Rightarrow> bool) \<Rightarrow> 'a \<Rightarrow> 'a list \<Rightarrow> 'a list" where
  "set_insert lt x [] = [x]"
| "set_insert lt x (y # ys) =
     (if lt x y then x # y # ys else if lt y x then y # set_insert lt x ys else y # ys)"

definition set_find :: "('a \<Rightarrow> 'a \<Rightarrow> bool) \<Rightarrow> 'a \<Rightarrow> 'a list \<Rightarrow> 'a option" where
  "set_find lt x ys = find (\<lambda>y. \<not> lt x y \<and> \<not> lt y x) ys"

definition set_erase :: "('a \<Rightarrow> 'a \<Rightarrow> bool) \<Rightarrow> 'a \<Rightarrow> 'a list \<Rightarrow> 'a list" where
  "set_erase lt x ys = filter (\<lambda>y. lt x y \<or> lt y x) ys"

definition pop_item :: "'a list \<Rightarrow> ('a \<times> 'a list) option" where
  "pop_item c = (case c of [] \<Rightarrow> None | item # rest \<Rightarrow> Some (item, rest))"

section \<open>The contract: an order by a key\<close>

text \<open>\<open>ok\<close> picks out the elements on which \<open>lt\<close> is the order of their keys.\<close>

locale keyed_order =
  fixes lt :: "'a \<Rightarrow> 'a \<Rightarrow> bool"
    and key :: "'a \<Rightarrow> 'k::linorder"
    and ok :: "'a \<Rightarrow> bool"
  assumes lt_key: "ok a \<Longrightarrow> ok b \<Longrightarrow> lt a b \<longleftrightarrow> key a < key b"
begin

definition ordered :: "'a list \<Rightarrow> bool" where
  "ordered xs \<longleftrightarrow> (\<forall>x\<in>set xs. ok x) \<and> sorted_wrt (\<lambda>a b. key a < key b) xs"

lemma ordered_Nil [simp]: "ordered []"
  by (simp add: ordered_def)

lemma ordered_Cons: "ordered (x # xs) \<longleftrightarrow> ok x \<and> (\<forall>y\<in>set xs. key x < key y) \<and> ordered xs"
  by (auto simp: ordered_def)

lemma set_set_insert:
  "ordered ys \<Longrightarrow> ok x \<Longrightarrow>
   set (set_insert lt x ys) = (if key x \<in> key ` set ys then set ys else insert x (set ys))"
  by (induction ys) (auto simp: ordered_Cons lt_key)

lemma set_insert_subset: "set (set_insert lt x ys) \<subseteq> insert x (set ys)"
  by (induction ys) auto

lemma set_insert_key:
  assumes "ok x" and "\<forall>y\<in>set ys. ok y"
  shows "key x \<in> key ` set (set_insert lt x ys)"
  using assms(2)
proof (induction ys)
  case (Cons y ys)
  have IH: "key x \<in> key ` set (set_insert lt x ys)" by (rule Cons.IH) (use Cons.prems in simp)
  have y: "ok y" using Cons.prems by simp
  consider "key x < key y" | "key y < key x" | "key x = key y" by fastforce
  then show ?case
  proof cases
    case 1
    then show ?thesis by (simp add: lt_key assms(1) y)
  next
    case 2
    then show ?thesis using IH by (simp add: lt_key assms(1) y)
  next
    case 3
    then show ?thesis by (simp add: lt_key assms(1) y)
  qed
qed simp

lemma set_insert_mono: "set ys \<subseteq> set (set_insert lt x ys)"
  by (induction ys) auto

lemma ordered_set_insert:
  assumes "ordered ys" and "ok x"
  shows "ordered (set_insert lt x ys)"
  using assms
proof (induction ys)
  case Nil
  then show ?case by (simp add: ordered_Cons)
next
  case (Cons y ys)
  have "\<And>z. z \<in> set (set_insert lt x ys) \<Longrightarrow> z = x \<or> z \<in> set ys"
    using set_insert_subset [of x ys] by blast
  then show ?case using Cons by (auto simp: ordered_Cons lt_key)
qed

lemma set_insert_present:
  "ordered ys \<Longrightarrow> ok x \<Longrightarrow> key x \<in> key ` set ys \<Longrightarrow> set_insert lt x ys = ys"
proof (induction ys)
  case (Cons y ys)
  then show ?case by (cases "key x = key y") (auto simp: ordered_Cons lt_key)
qed simp

lemma key_inj: "ordered ys \<Longrightarrow> a \<in> set ys \<Longrightarrow> b \<in> set ys \<Longrightarrow> key a = key b \<Longrightarrow> a = b"
proof (induction ys)
  case (Cons y ys)
  then have "\<forall>z\<in>set ys. key y \<noteq> key z" by (auto simp: ordered_Cons)
  with Cons show ?case by (metis ordered_Cons set_ConsD)
qed simp

lemma set_find_key:
  assumes "ordered ys" and "ok x"
  shows "set_find lt x ys = find (\<lambda>y. key y = key x) ys"
  unfolding set_find_def
  using assms by (intro find_cong) (auto simp: ordered_def lt_key)

lemma set_find_Some:
  assumes "ordered ys" and "ok x"
  shows "set_find lt x ys = Some y \<longleftrightarrow> y \<in> set ys \<and> key y = key x"
proof -
  have "find (\<lambda>y. key y = key x) ys = Some y \<longleftrightarrow> y \<in> set ys \<and> key y = key x"
    using assms(1) by (induction ys) (auto simp: ordered_Cons)
  then show ?thesis by (simp add: set_find_key assms)
qed

lemma set_find_None:
  "ordered ys \<Longrightarrow> ok x \<Longrightarrow> set_find lt x ys = None \<longleftrightarrow> key x \<notin> key ` set ys"
  by (fastforce simp: set_find_key find_None_iff image_iff)

lemma set_set_erase:
  "ordered ys \<Longrightarrow> ok x \<Longrightarrow> set (set_erase lt x ys) = {y \<in> set ys. key y \<noteq> key x}"
  by (auto simp: set_erase_def ordered_def lt_key)

lemma ordered_set_erase: "ordered ys \<Longrightarrow> ordered (set_erase lt x ys)"
  by (auto simp: set_erase_def ordered_def sorted_wrt_filter)

lemma pop_item_min:
  "ordered ys \<Longrightarrow> pop_item ys = Some (y, rest) \<Longrightarrow>
   y \<in> set ys \<and> set rest = set ys - {y} \<and> (\<forall>z\<in>set rest. key y < key z) \<and> ordered rest"
  by (cases ys) (auto simp: pop_item_def ordered_Cons)

lemma ordered_distinct: "ordered ys \<Longrightarrow> distinct ys"
  by (induction ys) (auto simp: ordered_Cons)

lemma ordered_take: "ordered ys \<Longrightarrow> ordered (take n ys) \<and> ordered (drop n ys)"
  using set_take_subset set_drop_subset
  by (fastforce simp: ordered_def intro: sorted_wrt_take sorted_wrt_drop)

lemma ordered_fold_insert:
  "ordered ys \<Longrightarrow> \<forall>x\<in>set xs. ok x \<Longrightarrow> ordered (fold (set_insert lt) xs ys)"
  by (induction xs arbitrary: ys) (auto simp: ordered_set_insert)

lemma keys_fold_insert:
  "ordered ys \<Longrightarrow> \<forall>x\<in>set xs. ok x \<Longrightarrow>
   key ` set (fold (set_insert lt) xs ys) = key ` set xs \<union> key ` set ys"
  by (induction xs arbitrary: ys) (auto simp: ordered_set_insert set_set_insert)

end

end
