(* ===== verification/Labels.thy ===== *)
theory Labels
  imports CMM_Prelude
begin

text \<open>
  The labels of libcmm.h, the network restrictions of libcmm_net_restriction.h and .cpp, the
  interface pairs of net_interface.h and .cpp, and the texts common.cpp makes of labels. Labels are
  64-bit words (\<^verbatim>\<open>u_long\<close>); the network type is a 32-bit word (\<^verbatim>\<open>int\<close>).
\<close>

section \<open>Labels\<close>

definition CMM_LABEL_ONDEMAND :: u_long where "CMM_LABEL_ONDEMAND = 0x4"
definition CMM_LABEL_BACKGROUND :: u_long where "CMM_LABEL_BACKGROUND = 0x8"
definition CMM_LABEL_SMALL :: u_long where "CMM_LABEL_SMALL = 0x10"
definition CMM_LABEL_LARGE :: u_long where "CMM_LABEL_LARGE = 0x20"

definition NET_TYPE_WIFI :: "32 word" where "NET_TYPE_WIFI = 0x1"
definition NET_TYPE_THREEG :: "32 word" where "NET_TYPE_THREEG = 0x2"
definition NET_RESTRICTION_LABEL_SHIFT :: nat where "NET_RESTRICTION_LABEL_SHIFT = 16"

definition CMM_LABEL_WIFI_ONLY :: u_long where "CMM_LABEL_WIFI_ONLY = 0x10000"
definition CMM_LABEL_THREEG_ONLY :: u_long where "CMM_LABEL_THREEG_ONLY = 0x20000"
definition CMM_LABEL_FALLBACK_ALLOWED :: u_long where "CMM_LABEL_FALLBACK_ALLOWED = 0x100000"
definition ALL_NETWORK_RESTRICTIONS :: u_long where
  "ALL_NETWORK_RESTRICTIONS = CMM_LABEL_WIFI_ONLY OR CMM_LABEL_THREEG_ONLY"

lemmas label_defs =
  CMM_LABEL_ONDEMAND_def CMM_LABEL_BACKGROUND_def CMM_LABEL_SMALL_def CMM_LABEL_LARGE_def
  NET_TYPE_WIFI_def NET_TYPE_THREEG_def NET_RESTRICTION_LABEL_SHIFT_def
  CMM_LABEL_WIFI_ONLY_def CMM_LABEL_THREEG_ONLY_def CMM_LABEL_FALLBACK_ALLOWED_def
  ALL_NETWORK_RESTRICTIONS_def

text \<open>The C test \<^verbatim>\<open>labels & mask\<close>.\<close>

definition has_label :: "u_long \<Rightarrow> u_long \<Rightarrow> bool" where
  "has_label labels bits \<longleftrightarrow> labels AND bits \<noteq> 0"

section \<open>Network restrictions\<close>

definition fallback_allowed :: "u_long \<Rightarrow> bool" where
  "fallback_allowed labels \<longleftrightarrow> has_label labels CMM_LABEL_FALLBACK_ALLOWED"

definition has_network_restriction :: "u_long \<Rightarrow> bool" where
  "has_network_restriction labels =
     (let restriction_labels = labels AND ALL_NETWORK_RESTRICTIONS
      in restriction_labels \<noteq> 0 \<and> restriction_labels \<noteq> ALL_NETWORK_RESTRICTIONS)"

definition network_fits_restriction :: "32 word \<Rightarrow> u_long \<Rightarrow> bool" where
  "network_fits_restriction type labels =
     (if fallback_allowed labels then True
      else let restriction_labels = (ucast (labels AND ALL_NETWORK_RESTRICTIONS) :: 32 word);
               restriction_mask = push_bit NET_RESTRICTION_LABEL_SHIFT type
           in restriction_labels = 0 \<or> restriction_mask AND restriction_labels \<noteq> 0)"

definition net_type_name :: "32 word \<Rightarrow> string" where
  "net_type_name type =
     (if type = NET_TYPE_WIFI then ''wifi'' else if type = NET_TYPE_THREEG then ''3G'' else ''unknown'')"

definition describe_network_restrictions :: "u_long \<Rightarrow> string" where
  "describe_network_restrictions labels =
     (if \<not> has_network_restriction labels then ''no restriction''
      else (let s1 = (if has_label labels CMM_LABEL_WIFI_ONLY then ''wifi'' else '''');
                s2 = (if has_label labels CMM_LABEL_THREEG_ONLY
                      then s1 @ (if length s1 > 0 then ''|'' else '''') @ ''3G'' else s1)
            in if has_label labels CMM_LABEL_FALLBACK_ALLOWED then s2 @ ''+fallback'' else s2))"

section \<open>Texts for labels\<close>

definition modify_bits_string :: "32 word \<Rightarrow> 32 word \<Rightarrow> string \<Rightarrow> string \<Rightarrow> 32 word \<times> string" where
  "modify_bits_string v bits str msg =
     (if v AND bits \<noteq> 0
      then let v' = v AND NOT bits
           in (v', msg @ str @ (if v' \<noteq> 0 then '','' else ''''))
      else (v, msg))"

fun describe_bits :: "(32 word \<times> string) list \<Rightarrow> 32 word \<times> string \<Rightarrow> 32 word \<times> string" where
  "describe_bits [] vm = vm"
| "describe_bits ((bits, str) # strs) (v, msg) = describe_bits strs (modify_bits_string v bits str msg)"

definition describe_labels :: "u_long \<Rightarrow> string" where
  "describe_labels send_labels =
     (let (v, msg) = describe_bits
            [(4, ''FG''), (8, ''BG''), (16, ''SMALL''), (32, ''LARGE''),
             (0x10000, ''WIFI_ONLY''), (0x20000, ''3G_ONLY'')] (ucast send_labels, '''')
      in if fallback_allowed (scast v) then msg @ ''FALLBACK_OK'' else msg)"

section \<open>Interfaces and interface pairs\<close>

record net_interface =
  ip_addr :: in_addr_t
  bandwidth_down :: u_long
  bandwidth_up :: u_long
  RTT :: u_long
  type :: "32 word"

text \<open>\<^verbatim>\<open>operator==\<close> and \<^verbatim>\<open>operator<\<close> of \<^verbatim>\<open>net_interface\<close> look at the address only.\<close>

definition iface_eq :: "net_interface \<Rightarrow> net_interface \<Rightarrow> bool" where
  "iface_eq a b \<longleftrightarrow> ip_addr a = ip_addr b"

definition iface_less :: "net_interface \<Rightarrow> net_interface \<Rightarrow> bool" where
  "iface_less a b \<longleftrightarrow> ip_addr a < ip_addr b"

definition iface_bandwidth :: "net_interface \<Rightarrow> net_interface \<Rightarrow> u_long" where
  "iface_bandwidth local_iface remote_iface =
     min (bandwidth_up local_iface) (bandwidth_down remote_iface)"

text \<open>The source computes \<^verbatim>\<open>2*((l/2.0)+(r/2.0))\<close> in \<^verbatim>\<open>double\<close>, which is exact for round-trip times
  below \<open>2 ^ 52\<close> milliseconds; the model takes the exact value.\<close>

definition iface_RTT :: "net_interface \<Rightarrow> net_interface \<Rightarrow> u_long" where
  "iface_RTT local_iface remote_iface = of_nat (unat (RTT local_iface) + unat (RTT remote_iface))"

definition matches_type :: "32 word \<Rightarrow> net_interface \<Rightarrow> net_interface \<Rightarrow> bool" where
  "matches_type t local_iface remote_iface \<longleftrightarrow>
     (type local_iface = t \<and> type remote_iface = t) \<or>
     (type local_iface = t \<and> type remote_iface = 0) \<or>
     (type local_iface = 0 \<and> type remote_iface = t) \<or>
     (type local_iface = 0 \<and> type remote_iface = 0)"

definition get_network_type :: "net_interface \<Rightarrow> net_interface \<Rightarrow> 32 word" where
  "get_network_type local_iface remote_iface =
     (case filter (\<lambda>t. matches_type t local_iface remote_iface) [NET_TYPE_WIFI, NET_TYPE_THREEG] of
        t # _ \<Rightarrow> t | [] \<Rightarrow> 0)"

text \<open>The overload for an interface pair: the loop over the two network types.\<close>

definition pair_fits_restriction :: "u_long \<Rightarrow> net_interface \<Rightarrow> net_interface \<Rightarrow> bool" where
  "pair_fits_restriction labels local_iface remote_iface =
     (if \<not> has_network_restriction labels \<or> fallback_allowed labels then True
      else list_ex (\<lambda>t. network_fits_restriction t labels \<and> matches_type t local_iface remote_iface)
             [NET_TYPE_WIFI, NET_TYPE_THREEG])"

definition bottleneck_iface :: "net_interface \<Rightarrow> net_interface \<Rightarrow> net_interface" where
  "bottleneck_iface local_iface remote_iface =
     (if bandwidth_up local_iface > bandwidth_down remote_iface then remote_iface else local_iface)"

text \<open>\<^verbatim>\<open>CSocket::network_type\<close>: wifi when the pair fits that restriction, otherwise the pair has to
  fit the other one.\<close>

definition csock_network_type :: "net_interface \<Rightarrow> net_interface \<Rightarrow> (32 word) result" where
  "csock_network_type local_iface remote_iface =
     (if pair_fits_restriction CMM_LABEL_WIFI_ONLY local_iface remote_iface then Inr NET_TYPE_WIFI
      else ASSERT (pair_fits_restriction CMM_LABEL_THREEG_ONLY local_iface remote_iface)
             (Inr NET_TYPE_THREEG))"

section \<open>Lemmas\<close>

lemma label_bits:
  "has_label labels CMM_LABEL_ONDEMAND \<longleftrightarrow> bit labels 2"
  "has_label labels CMM_LABEL_BACKGROUND \<longleftrightarrow> bit labels 3"
  "has_label labels CMM_LABEL_SMALL \<longleftrightarrow> bit labels 4"
  "has_label labels CMM_LABEL_LARGE \<longleftrightarrow> bit labels 5"
  "has_label labels CMM_LABEL_WIFI_ONLY \<longleftrightarrow> bit labels 16"
  "has_label labels CMM_LABEL_THREEG_ONLY \<longleftrightarrow> bit labels 17"
  "has_label labels CMM_LABEL_FALLBACK_ALLOWED \<longleftrightarrow> bit labels 20"
  using and_exp_eq_0_iff_not_bit [of labels 2] and_exp_eq_0_iff_not_bit [of labels 3]
    and_exp_eq_0_iff_not_bit [of labels 4] and_exp_eq_0_iff_not_bit [of labels 5]
    and_exp_eq_0_iff_not_bit [of labels 16] and_exp_eq_0_iff_not_bit [of labels 17]
    and_exp_eq_0_iff_not_bit [of labels 20]
  by (simp_all add: has_label_def label_defs)

lemma restriction_labels_split:
  "labels AND ALL_NETWORK_RESTRICTIONS =
     (if bit labels 16 then CMM_LABEL_WIFI_ONLY else 0) OR
     (if bit labels 17 then CMM_LABEL_THREEG_ONLY else 0)"
proof -
  have single: "labels AND 2 ^ k = (if bit labels k then 2 ^ k else 0)" for k
    by (rule bit_eqI) (auto simp: bit_simps)
  have "labels AND CMM_LABEL_WIFI_ONLY = (if bit labels 16 then CMM_LABEL_WIFI_ONLY else 0)"
    "labels AND CMM_LABEL_THREEG_ONLY = (if bit labels 17 then CMM_LABEL_THREEG_ONLY else 0)"
    using single [of 16] single [of 17] by (simp_all add: label_defs)
  then show ?thesis
    by (simp only: ALL_NETWORK_RESTRICTIONS_def bit.conj_disj_distrib)
qed

lemma has_network_restriction_bits:
  "has_network_restriction labels \<longleftrightarrow> bit labels 16 \<noteq> bit labels 17"
  by (simp add: has_network_restriction_def restriction_labels_split)
    (simp add: label_defs)

lemma network_fits_restriction_bits:
  "network_fits_restriction 0 labels \<longleftrightarrow> bit labels 20 \<or> \<not> bit labels 16 \<and> \<not> bit labels 17"
  "network_fits_restriction NET_TYPE_WIFI labels \<longleftrightarrow>
     bit labels 20 \<or> bit labels 16 \<or> \<not> bit labels 17"
  "network_fits_restriction NET_TYPE_THREEG labels \<longleftrightarrow>
     bit labels 20 \<or> bit labels 17 \<or> \<not> bit labels 16"
proof -
  have masks: "ucast CMM_LABEL_WIFI_ONLY = (0x10000 :: 32 word)"
    "ucast CMM_LABEL_THREEG_ONLY = (0x20000 :: 32 word)"
    "ucast (CMM_LABEL_WIFI_ONLY OR CMM_LABEL_THREEG_ONLY) = (0x30000 :: 32 word)"
    "push_bit NET_RESTRICTION_LABEL_SHIFT NET_TYPE_WIFI = 0x10000"
    "push_bit NET_RESTRICTION_LABEL_SHIFT NET_TYPE_THREEG = 0x20000"
    by (simp_all add: label_defs)
  show "network_fits_restriction 0 labels \<longleftrightarrow> bit labels 20 \<or> \<not> bit labels 16 \<and> \<not> bit labels 17"
    "network_fits_restriction NET_TYPE_WIFI labels \<longleftrightarrow>
       bit labels 20 \<or> bit labels 16 \<or> \<not> bit labels 17"
    "network_fits_restriction NET_TYPE_THREEG labels \<longleftrightarrow>
       bit labels 20 \<or> bit labels 17 \<or> \<not> bit labels 16"
    by (simp_all add: network_fits_restriction_def restriction_labels_split fallback_allowed_def
        label_bits Let_def masks)
qed

lemmas restriction_bits =
  has_network_restriction_bits network_fits_restriction_bits fallback_allowed_def label_bits

lemma get_network_type_cases:
  "get_network_type l r =
     (if matches_type NET_TYPE_WIFI l r then NET_TYPE_WIFI
      else if matches_type NET_TYPE_THREEG l r then NET_TYPE_THREEG else 0)"
  by (simp add: get_network_type_def)

lemma net_types_distinct [simp]:
  "NET_TYPE_WIFI \<noteq> NET_TYPE_THREEG" "NET_TYPE_THREEG \<noteq> NET_TYPE_WIFI"
  "NET_TYPE_WIFI \<noteq> 0" "NET_TYPE_THREEG \<noteq> 0"
  by (simp_all add: label_defs)

section \<open>Properties\<close>

text \<open>
  A send label with a network restriction is judged in two places: when an interface pair is
  considered for a new connection (by the pair's network type) and when an existing connection is
  asked whether it may carry the label (by its interfaces). Wherever the type of one of the two
  interfaces is known, the two judgements agree.
\<close>

theorem restriction_checks_agree:
  assumes "has_network_restriction labels" and "type l \<noteq> 0 \<or> type r \<noteq> 0"
  shows "network_fits_restriction (get_network_type l r) labels \<longleftrightarrow> pair_fits_restriction labels l r"
  using assms
  by (auto simp: pair_fits_restriction_def get_network_type_cases restriction_bits matches_type_def)

theorem restriction_checks_agree_witness:
  "has_network_restriction 0x10004 \<and>
   network_fits_restriction (get_network_type
     \<lparr>ip_addr = 1, bandwidth_down = 5, bandwidth_up = 5, RTT = 3, type = 2\<rparr>
     \<lparr>ip_addr = 2, bandwidth_down = 5, bandwidth_up = 5, RTT = 3, type = 0\<rparr>) 0x10004 =
   pair_fits_restriction 0x10004
     \<lparr>ip_addr = 1, bandwidth_down = 5, bandwidth_up = 5, RTT = 3, type = 2\<rparr>
     \<lparr>ip_addr = 2, bandwidth_down = 5, bandwidth_up = 5, RTT = 3, type = 0\<rparr>"
proof -
  have h: "has_network_restriction 0x10004"
    by (simp add: has_network_restriction_def label_defs)
  show ?thesis
    using h restriction_checks_agree [OF h] by simp
qed

text \<open>
  \<^verbatim>\<open>CSocket::network_type\<close> traps exactly on the pairs that join an interface of one network type
  to an interface of another; on every other pair it returns the type the pair matches, wifi first.
\<close>

theorem csock_network_type_total:
  "csock_network_type l r =
     (if get_network_type l r = 0 then Inl AssertFailed else Inr (get_network_type l r))"
  by (auto simp: csock_network_type_def pair_fits_restriction_def restriction_bits
      get_network_type_cases) (simp_all add: label_defs bit_simps)

end
