(* ===== verification/Timeops.thy ===== *)
theory Timeops
  imports CMM_Prelude
begin

text \<open>
  The time arithmetic of timeops.h and timeops.cpp: the macros \<^verbatim>\<open>TIMEDIFF\<close>, \<^verbatim>\<open>timercmp\<close>,
  \<^verbatim>\<open>timeradd\<close>, \<^verbatim>\<open>timersub\<close> for \<^verbatim>\<open>struct timeval\<close>, the conversions to and from
  microseconds and \<^verbatim>\<open>abs_time\<close> for \<^verbatim>\<open>struct timespec\<close>. The macros are generic in the unit of
  the second field; the model of the macros takes the number of units in a second as an argument,
  as \<^verbatim>\<open>MAX_SUBSECS\<close> gives it.
\<close>

record timeval =
  tv_sec :: int
  subsec :: int

abbreviation tv :: "int \<Rightarrow> int \<Rightarrow> timeval" where
  "tv s u \<equiv> \<lparr>tv_sec = s, subsec = u\<rparr>"

definition MAX_USECS :: int where "MAX_USECS = 1000000"
definition MAX_NSECS :: int where "MAX_NSECS = 1000000000"

definition TIMEDIFF :: "int \<Rightarrow> timeval \<Rightarrow> timeval \<Rightarrow> timeval result" where
  "TIMEDIFF M tvb tve =
     ASSERT (tv_sec tve > tv_sec tvb \<or> tv_sec tve = tv_sec tvb \<and> subsec tve \<ge> subsec tvb)
       (Inr (if subsec tve < subsec tvb
             then tv (tv_sec tve - tv_sec tvb - 1) (M + subsec tve - subsec tvb)
             else tv (tv_sec tve - tv_sec tvb) (subsec tve - subsec tvb)))"

definition timer_less :: "timeval \<Rightarrow> timeval \<Rightarrow> bool" where
  "timer_less a b = (if tv_sec a = tv_sec b then subsec a < subsec b else tv_sec a < tv_sec b)"

definition timer_le :: "timeval \<Rightarrow> timeval \<Rightarrow> bool" where
  "timer_le a b = (if tv_sec a = tv_sec b then subsec a \<le> subsec b else tv_sec a \<le> tv_sec b)"

definition timeradd :: "int \<Rightarrow> timeval \<Rightarrow> timeval \<Rightarrow> timeval" where
  "timeradd M a b =
     (let s = tv_sec a + tv_sec b; u = subsec a + subsec b
      in if u \<ge> M then tv (s + 1) (u - M) else tv s u)"

definition timersub :: "int \<Rightarrow> timeval \<Rightarrow> timeval \<Rightarrow> timeval" where
  "timersub M a b =
     (let s = tv_sec a - tv_sec b; u = subsec a - subsec b
      in if u < 0 then tv (s - 1) (u + M) else tv s u)"

text \<open>\<^verbatim>\<open>abs_time\<close> with the current time as an argument.\<close>

definition abs_time :: "timeval \<Rightarrow> timeval \<Rightarrow> timeval" where
  "abs_time now rel =
     (let s = tv_sec now + tv_sec rel; u = subsec now + subsec rel
      in if u \<ge> 1000000000 then tv (s + 1) (u - 1000000000) else tv s u)"

text \<open>A product of \<^verbatim>\<open>long\<close>s, reduced to 64 bits as the machine does.\<close>

definition to_long :: "int \<Rightarrow> int" where
  "to_long x = (x + 2 ^ 63) mod 2 ^ 64 - 2 ^ 63"

definition convert_to_useconds :: "timeval \<Rightarrow> int" where
  "convert_to_useconds t =
     (let useconds = to_long (tv_sec t * 1000000)
      in if useconds < tv_sec t then 0 else useconds + subsec t)"

definition convert_to_timeval :: "nat \<Rightarrow> timeval" where
  "convert_to_timeval useconds =
     (let s = int (useconds div 1000000) in tv s (int useconds - s * 1000000))"

section \<open>The instant a value stands for\<close>

text \<open>A value is normal when its second field is a fraction of a second.\<close>

definition normal :: "int \<Rightarrow> timeval \<Rightarrow> bool" where
  "normal M t \<longleftrightarrow> 0 \<le> subsec t \<and> subsec t < M"

definition units :: "int \<Rightarrow> timeval \<Rightarrow> int" where
  "units M t = tv_sec t * M + subsec t"

lemma timer_less_units:
  assumes "normal M a" "normal M b"
  shows "timer_less a b \<longleftrightarrow> units M a < units M b"
proof (cases "tv_sec a = tv_sec b")
  case True
  then show ?thesis by (simp add: timer_less_def units_def)
next
  case False
  have M: "0 < M" using assms by (simp add: normal_def)
  have *: "units M c < units M d" if "tv_sec c < tv_sec d" "normal M c" "normal M d" for c d
  proof -
    have "(tv_sec c + 1) * M \<le> tv_sec d * M" using that M by (intro mult_right_mono) auto
    then show ?thesis using that by (simp add: units_def normal_def algebra_simps)
  qed
  from False consider "tv_sec a < tv_sec b" | "tv_sec b < tv_sec a" by linarith
  then show ?thesis
    by cases (use * [of a b] * [of b a] assms False in \<open>auto simp: timer_less_def\<close>)
qed

lemma timer_le_units:
  assumes "normal M a" "normal M b"
  shows "timer_le a b \<longleftrightarrow> units M a \<le> units M b"
  using timer_less_units [OF assms(2,1)]
  by (auto simp: timer_le_def timer_less_def split: if_splits)

lemma timeradd_units:
  assumes "normal M a" "normal M b"
  shows "units M (timeradd M a b) = units M a + units M b" "normal M (timeradd M a b)"
  using assms by (auto simp: timeradd_def Let_def units_def normal_def algebra_simps)

lemma timersub_units:
  assumes "normal M a" "normal M b"
  shows "units M (timersub M a b) = units M a - units M b" "normal M (timersub M a b)"
  using assms by (auto simp: timersub_def Let_def units_def normal_def algebra_simps)

lemma TIMEDIFF_units:
  assumes "normal M b" "normal M e" "units M b \<le> units M e"
  shows "\<exists>d. TIMEDIFF M b e = Inr d \<and> normal M d \<and> units M d = units M e - units M b"
proof -
  have "timer_le b e" using assms by (simp add: timer_le_units)
  then have "tv_sec e > tv_sec b \<or> tv_sec e = tv_sec b \<and> subsec e \<ge> subsec b"
    by (auto simp: timer_le_def split: if_splits)
  then show ?thesis
    using assms by (auto simp: TIMEDIFF_def units_def normal_def algebra_simps)
qed

lemma units_nonneg: "normal M t \<Longrightarrow> 0 \<le> tv_sec t \<Longrightarrow> 0 \<le> units M t"
  by (simp add: units_def normal_def)

lemma timer_less_irrefl [simp]: "\<not> timer_less a a"
  by (simp add: timer_less_def)

lemma to_long_id [simp]: "- (2 ^ 63) \<le> x \<Longrightarrow> x < 2 ^ 63 \<Longrightarrow> to_long x = x"
  by (simp add: to_long_def mod_pos_pos_trivial)

section \<open>Properties\<close>

text \<open>
  On normalised values the macros compute exact sums and differences of instants and give
  normalised values again, \<^verbatim>\<open>timercmp\<close> orders by instant, and \<^verbatim>\<open>TIMEDIFF\<close> does not trap when
  its end is not before its begin.
\<close>

theorem timeval_arith_exact:
  assumes "normal MAX_USECS a" and "normal MAX_USECS b"
  shows "units MAX_USECS (timeradd MAX_USECS a b) = units MAX_USECS a + units MAX_USECS b \<and>
    units MAX_USECS (timersub MAX_USECS a b) = units MAX_USECS a - units MAX_USECS b \<and>
    normal MAX_USECS (timeradd MAX_USECS a b) \<and> normal MAX_USECS (timersub MAX_USECS a b) \<and>
    (timer_less a b \<longleftrightarrow> units MAX_USECS a < units MAX_USECS b) \<and>
    (units MAX_USECS a \<le> units MAX_USECS b \<longrightarrow> TIMEDIFF MAX_USECS a b = Inr (timersub MAX_USECS b a))"
proof -
  have "TIMEDIFF MAX_USECS a b = Inr (timersub MAX_USECS b a)"
    if "units MAX_USECS a \<le> units MAX_USECS b"
    using TIMEDIFF_units [OF assms that]
    by (auto simp: TIMEDIFF_def timersub_def Let_def result_simps algebra_simps)
  then show ?thesis
    using timeradd_units [OF assms] timersub_units [OF assms] timer_less_units [OF assms] by simp
qed

theorem timeval_arith_exact_witness:
  "normal MAX_USECS (tv 3 900000) \<and> normal MAX_USECS (tv 5 200000) \<and>
   timeradd MAX_USECS (tv 3 900000) (tv 5 200000) = tv 9 100000 \<and>
   TIMEDIFF MAX_USECS (tv 3 900000) (tv 5 200000) = Inr (tv 1 300000)"
proof -
  have h: "normal MAX_USECS (tv 3 900000)" "normal MAX_USECS (tv 5 200000)"
    by (simp_all add: normal_def MAX_USECS_def)
  show ?thesis
    using h timeval_arith_exact [OF h]
    by (simp add: units_def timeradd_def timersub_def MAX_USECS_def)
qed

text \<open>
  A number of microseconds that fits a \<^verbatim>\<open>long\<close> survives the conversion to a \<^verbatim>\<open>timeval\<close> and
  back, and the \<^verbatim>\<open>timeval\<close> between is normalised.
\<close>

theorem useconds_roundtrip:
  assumes "n < 2 ^ 63"
  shows "convert_to_useconds (convert_to_timeval n) = int n \<and> normal MAX_USECS (convert_to_timeval n)"
proof -
  let ?s = "int (n div 1000000)"
  have "?s * 1000000 \<le> int n" "int n < ?s * 1000000 + 1000000" "0 \<le> ?s" by (simp_all add: zdiv_int)
  moreover have "?s * 1000000 < 2 ^ 63" proof -
    have "int n < 2 ^ 63" using assms by simp
    then show ?thesis using calculation(1) by linarith
  qed
  ultimately show ?thesis
    by (simp add: convert_to_useconds_def convert_to_timeval_def Let_def normal_def MAX_USECS_def)
qed

theorem useconds_roundtrip_witness:
  "(1234567 :: nat) < 2 ^ 63 \<and> convert_to_timeval 1234567 = tv 1 234567 \<and>
   convert_to_useconds (tv 1 234567) = 1234567"
proof -
  have h: "(1234567 :: nat) < 2 ^ 63" by simp
  have "convert_to_timeval 1234567 = tv 1 234567" by (simp add: convert_to_timeval_def)
  then show ?thesis using h useconds_roundtrip [OF h] by simp
qed

end
