(* ===== verification/Control_Msg.thy ===== *)
theory Control_Msg
  imports Ordered_Set Labels Timeops
begin

text \<open>
  cmm_socket_control.h and cmm_socket_control.cpp: the control messages of a multisocket. A header is
  modelled as it lies on the wire: the sending functions put \<^verbatim>\<open>htonl\<close> of each field in it and the
  handlers at the receiving side read each field through \<^verbatim>\<open>ntohl\<close>. Fields are 64-bit or 32-bit
  integers in the source; both conversions go through 32 bits.
\<close>

section \<open>Byte order\<close>

text \<open>\<^verbatim>\<open>htonl\<close> and \<^verbatim>\<open>ntohl\<close> of a little-endian host: the argument is converted to
  \<^verbatim>\<open>uint32_t\<close>, its bytes are reversed, and the result is assigned to a wider field.\<close>

definition byte_swap :: "32 word \<Rightarrow> 32 word" where
  "byte_swap w = push_bit 24 (take_bit 8 w) OR push_bit 16 (take_bit 8 (drop_bit 8 w)) OR
     push_bit 8 (take_bit 8 (drop_bit 16 w)) OR take_bit 8 (drop_bit 24 w)"

definition htonl :: "int \<Rightarrow> int" where
  "htonl x = uint (byte_swap (word_of_int x))"

definition ntohl :: "int \<Rightarrow> int" where
  "ntohl x = uint (byte_swap (word_of_int x))"

definition byte_swap16 :: "16 word \<Rightarrow> 16 word" where
  "byte_swap16 w = push_bit 8 (take_bit 8 w) OR take_bit 8 (drop_bit 8 w)"

definition htons :: "int \<Rightarrow> int" where
  "htons x = uint (byte_swap16 (word_of_int x))"

definition ntohs :: "int \<Rightarrow> int" where
  "ntohs x = uint (byte_swap16 (word_of_int x))"

lemma bit_byte_swap:
  assumes "n < 32"
  shows "bit (byte_swap w) n \<longleftrightarrow> bit w (if n < 8 then n + 24 else if n < 16 then n + 8
    else if n < 24 then n - 8 else n - 24)"
proof -
  consider "n < 8" | "8 \<le> n" "n < 16" | "16 \<le> n" "n < 24" | "24 \<le> n" by linarith
  then show ?thesis
    using assms by cases (simp_all add: byte_swap_def bit_simps add.commute less_diff_conv2)
qed

lemma byte_swap_involution [simp]: "byte_swap (byte_swap w) = w"
  by (rule bit_word_eqI) (auto simp: bit_byte_swap less_diff_conv2)

lemma bit_byte_swap16:
  assumes "n < 16"
  shows "bit (byte_swap16 w) n \<longleftrightarrow> bit w (if n < 8 then n + 8 else n - 8)"
  using assms by (cases "n < 8") (simp_all add: byte_swap16_def bit_simps add.commute less_diff_conv2)

lemma byte_swap16_involution [simp]: "byte_swap16 (byte_swap16 w) = w"
  by (rule bit_word_eqI) (auto simp: bit_byte_swap16 less_diff_conv2)

lemma ntohl_htonl [wire_simps]: "ntohl (htonl x) = x mod 2 ^ 32"
  by (simp add: ntohl_def htonl_def uint_word_of_int)

lemma ntohs_htons [wire_simps]: "ntohs (htons x) = x mod 2 ^ 16"
  by (simp add: ntohs_def htons_def uint_word_of_int)

lemma ntohl_htonl_id [simp]: "0 \<le> x \<Longrightarrow> x < 2 ^ 32 \<Longrightarrow> ntohl (htonl x) = x"
  by (simp add: ntohl_htonl mod_pos_pos_trivial)

lemma ntohl_range: "0 \<le> ntohl x" "ntohl x < 2 ^ 32"
  using uint_lt2p [of "byte_swap (word_of_int x)"] by (simp_all add: ntohl_def)

text \<open>The layout of an integer of \<open>n\<close> bytes in memory.\<close>

fun le_bytes :: "nat \<Rightarrow> int \<Rightarrow> byte list" where
  "le_bytes 0 x = []"
| "le_bytes (Suc n) x = word_of_int x # le_bytes n (x div 256)"

lemma length_le_bytes [simp]: "length (le_bytes n x) = n"
  by (induction n arbitrary: x) auto

section \<open>Messages\<close>

text \<open>
  The union of the header, by message type; \<open>Unknown\<close> is a header whose type code names no
  message. The fields of a constructor are those of the struct in cmm_socket_control.h, in order:
  \<^verbatim>\<open>listen_port, num_ifaces, redundancy_strategy_type\<close>; \<^verbatim>\<open>id, numdeps\<close>;
  \<^verbatim>\<open>id, expected_bytes, expected_chunks\<close>; \<^verbatim>\<open>id, seqno, offset, datalen\<close>;
  \<^verbatim>\<open>ip_addr, bandwidth_down, bandwidth_up, RTT, type\<close>; \<^verbatim>\<open>ip_addr\<close>;
  \<^verbatim>\<open>num_acks, id, srv_time, qdelay\<close>; \<^verbatim>\<open>id, request, seqno, next_chunk\<close>; \<^verbatim>\<open>id\<close>.
  The two times of an ACK are \<^verbatim>\<open>timeval\<close>s whose fields are in network order.
\<close>

datatype control_op =
    Hello int int int
  | Begin_IROB int int
  | End_IROB int int int
  | IROB_chunk int int int int
  | New_Interface in_addr_t int int int int
  | Down_Interface in_addr_t
  | Ack int int timeval timeval
  | Goodbye
  | Resend_Request int int int int
  | Data_Check int
  | Unknown int

record control_hdr =
  hdr_labels :: int
  hdr_op :: control_op

fun type_code :: "control_op \<Rightarrow> int" where
  "type_code (Hello _ _ _) = 0"
| "type_code (Begin_IROB _ _) = 1"
| "type_code (End_IROB _ _ _) = 2"
| "type_code (IROB_chunk _ _ _ _) = 3"
| "type_code (New_Interface _ _ _ _ _) = 5"
| "type_code (Down_Interface _) = 6"
| "type_code (Ack _ _ _ _) = 7"
| "type_code Goodbye = 8"
| "type_code (Resend_Request _ _ _ _) = 9"
| "type_code (Data_Check _) = 10"
| "type_code (Unknown t) = t"

definition CMM_CONTROL_MSG_INVALID :: int where "CMM_CONTROL_MSG_INVALID = 11"

definition new_hdr :: control_hdr where
  "new_hdr = \<lparr>hdr_labels = 0, hdr_op = Unknown CMM_CONTROL_MSG_INVALID\<rparr>"

definition type_str :: "control_hdr \<Rightarrow> string" where
  "type_str hdr =
     (let strs = [''Hello'', ''Begin_IROB'', ''End_IROB'', ''IROB_chunk'', ''(unknown)'',
                  ''New_Interface'', ''Down_Interface'', ''Ack'', ''Goodbye'', ''Resend_Request'',
                  ''Data_Check'', ''(unknown)''];
          my_type = type_code (hdr_op hdr);
          my_type' = (if CMM_CONTROL_MSG_INVALID \<le> my_type \<or> my_type < 0
                      then CMM_CONTROL_MSG_INVALID else my_type)
      in strs ! nat my_type')"

definition labels_str :: "control_hdr \<Rightarrow> string" where
  "labels_str hdr = describe_labels (word_of_int (ntohl (hdr_labels hdr)))"

section \<open>Resend requests\<close>

definition CMM_RESEND_REQUEST_NONE :: "32 word" where "CMM_RESEND_REQUEST_NONE = 0x0"
definition CMM_RESEND_REQUEST_DEPS :: "32 word" where "CMM_RESEND_REQUEST_DEPS = 0x1"
definition CMM_RESEND_REQUEST_DATA :: "32 word" where "CMM_RESEND_REQUEST_DATA = 0x2"
definition CMM_RESEND_REQUEST_END :: "32 word" where "CMM_RESEND_REQUEST_END = 0x4"
definition CMM_RESEND_REQUEST_ALL :: "32 word" where "CMM_RESEND_REQUEST_ALL = 0x7"

lemmas resend_defs = CMM_RESEND_REQUEST_NONE_def CMM_RESEND_REQUEST_DEPS_def
  CMM_RESEND_REQUEST_DATA_def CMM_RESEND_REQUEST_END_def CMM_RESEND_REQUEST_ALL_def

definition resend_request_type_str :: "int \<Rightarrow> string" where
  "resend_request_type_str req =
     snd (describe_bits [(push_bit 0 1, ''deps''), (push_bit 1 1, ''data''), (push_bit 2 1, ''end'')]
            (word_of_int (ntohl req), ''''))"

section \<open>Chunks\<close>

text \<open>\<^verbatim>\<open>struct irob_chunk_data\<close>; the data is absent where the pointer is \<^verbatim>\<open>NULL\<close>.\<close>

record irob_chunk_data =
  ck_id :: irob_id_t
  seqno :: nat
  ck_offset :: nat
  datalen :: nat
  data :: "byte list option"

definition empty_chunk :: irob_chunk_data where
  "empty_chunk = \<lparr>ck_id = 0, seqno = 0, ck_offset = 0, datalen = 0, data = None\<rparr>"

definition chunk_less :: "irob_chunk_data \<Rightarrow> irob_chunk_data \<Rightarrow> bool" where
  "chunk_less a b \<longleftrightarrow> ck_id a < ck_id b \<or> (ck_id a = ck_id b \<and> seqno a < seqno b)"

definition sum_datalen :: "irob_chunk_data list \<Rightarrow> nat" where
  "sum_datalen cs = fold (\<lambda>c acc. acc + datalen c) cs 0"

lemma sum_datalen_eq: "sum_datalen cs = sum_list (map datalen cs)"
proof -
  have "fold (\<lambda>c acc. acc + datalen c) cs n = n + sum_list (map datalen cs)" for n
    by (induction cs arbitrary: n) simp_all
  then show ?thesis by (simp add: sum_datalen_def)
qed

text \<open>Within one IROB, chunks are ordered by their sequence numbers.\<close>

interpretation chunk_set: keyed_order chunk_less seqno "\<lambda>c. ck_id c = i" for i
  by unfold_locales (auto simp: chunk_less_def)

end
