(* ===== verification/Pending_IROB.thy ===== *)
theory Pending_IROB
  imports Int_Set Control_Msg
begin

text \<open>
  pending_irob.h and pending_irob.cpp: the IROBs a multisocket still has to send or deliver, and the
  lattice that holds them. The class \<^verbatim>\<open>PendingIROB\<close> is an extensible record, which the sending and
  the receiving side extend as the two subclasses do; what a subclass overrides
  (\<^verbatim>\<open>add_chunk\<close>, \<^verbatim>\<open>subsume\<close>, \<^verbatim>\<open>make_placeholder\<close>) is an argument of the operations here, and the
  locale \<open>irob_class\<close> states what the lattice needs of it. The lattice owns its IROBs by value:
  a change through a \<^verbatim>\<open>PendingIROBPtr\<close> is an update of the slot that the pointer was found in.
\<close>

section \<open>IROBs\<close>

record pending_irob =
  pi_id :: irob_id_t
  send_labels :: u_long
  deps :: "int set"
  dependents :: "int set"
  chunks :: "irob_chunk_data list"
  anonymous :: bool
  complete :: bool
  placeholder :: bool
  status :: int

text \<open>The two constructors: the placeholder (whose labels the source leaves unset), and the real one.\<close>

definition placeholder_irob :: "irob_id_t \<Rightarrow> pending_irob" where
  "placeholder_irob i = \<lparr>pi_id = i, send_labels = 0, deps = {}, dependents = {}, chunks = [],
     anonymous = False, complete = False, placeholder = True, status = 0\<rparr>"

definition new_irob ::
  "irob_id_t \<Rightarrow> nat \<Rightarrow> int list option \<Rightarrow> nat \<Rightarrow> byte list option \<Rightarrow> u_long \<Rightarrow> pending_irob result" where
  "new_irob i numdeps deps_array dlen dat labels =
     ASSERT (numdeps > 0 \<longrightarrow> deps_array \<noteq> None)
       (if numdeps > 0 \<and> length (the deps_array) < numdeps then Inl OutOfBounds
        else let ds = (if numdeps > 0 then set (take numdeps (the deps_array)) else {});
                 p = \<lparr>pi_id = i, send_labels = labels, deps = ds, dependents = {}, chunks = [],
                   anonymous = False, complete = False, placeholder = False, status = 0\<rparr>
             in if dlen > 0
                then ASSERT (dat \<noteq> None)
                  (Inr (p\<lparr>anonymous := True,
                     chunks := [\<lparr>ck_id = i, seqno = 0, ck_offset = 0, datalen = dlen, data = dat\<rparr>],
                     complete := True\<rparr>))
                else Inr p)"

definition base_add_chunk ::
  "irob_chunk_data \<Rightarrow> 'a pending_irob_scheme \<Rightarrow> bool \<times> 'a pending_irob_scheme" where
  "base_add_chunk c p = (if complete p then (False, p) else (True, p\<lparr>chunks := chunks p @ [c]\<rparr>))"

definition base_finish :: "'a pending_irob_scheme \<Rightarrow> bool \<times> 'a pending_irob_scheme" where
  "base_finish p = (if complete p then (False, p) else (True, p\<lparr>complete := True\<rparr>))"

definition set_status :: "int \<Rightarrow> 'a pending_irob_scheme \<Rightarrow> 'a pending_irob_scheme" where
  "set_status new_status p = p\<lparr>status := new_status\<rparr>"

definition add_dep :: "int \<Rightarrow> 'a pending_irob_scheme \<Rightarrow> 'a pending_irob_scheme" where
  "add_dep i p = p\<lparr>deps := insert i (deps p)\<rparr>"

definition dep_satisfied :: "int \<Rightarrow> 'a pending_irob_scheme \<Rightarrow> 'a pending_irob_scheme" where
  "dep_satisfied i p = p\<lparr>deps := deps p - {i}\<rparr>"

definition add_dependent :: "int \<Rightarrow> 'a pending_irob_scheme \<Rightarrow> 'a pending_irob_scheme" where
  "add_dependent i p = p\<lparr>dependents := insert i (dependents p)\<rparr>"

definition depends_on :: "'a pending_irob_scheme \<Rightarrow> int \<Rightarrow> bool" where
  "depends_on p that \<longleftrightarrow> that \<in> deps p"

text \<open>The loop of \<^verbatim>\<open>remove_deps_if\<close> visits each dependency once.\<close>

definition remove_deps_if :: "(int \<Rightarrow> bool) \<Rightarrow> 'a pending_irob_scheme \<Rightarrow> 'a pending_irob_scheme" where
  "remove_deps_if pred p = p\<lparr>deps := set (filter (\<lambda>i. \<not> pred i) (iter_set (deps p)))\<rparr>"

definition copy_deps_htonl :: "'a pending_irob_scheme \<Rightarrow> int list" where
  "copy_deps_htonl p = map htonl (iter_set (deps p))"

definition can_be_redundant :: "'a pending_irob_scheme \<Rightarrow> bool" where
  "can_be_redundant p \<longleftrightarrow>
     has_label (send_labels p) CMM_LABEL_ONDEMAND \<and> has_label (send_labels p) CMM_LABEL_SMALL \<and>
     send_labels p AND ALL_NETWORK_RESTRICTIONS = 0"

text \<open>\<^verbatim>\<open>PendingIROB::subsume\<close>; \<open>add\<close> is the virtual \<^verbatim>\<open>add_chunk\<close>, whose return value is ignored.\<close>

definition base_subsume ::
  "(irob_chunk_data \<Rightarrow> 'a pending_irob_scheme \<Rightarrow> (bool \<times> 'a pending_irob_scheme) result) \<Rightarrow>
   'a pending_irob_scheme \<Rightarrow> 'a pending_irob_scheme \<Rightarrow> 'a pending_irob_scheme result" where
  "base_subsume add p other =
     bindE (foldE (\<lambda>c p. bindE (add c p) (\<lambda>(_, p'). Inr p')) (chunks other)
              (p\<lparr>dependents := dependents p \<union> dependents other\<rparr>))
       (\<lambda>p'. Inr (p'\<lparr>complete := complete other\<rparr>))"

section \<open>The lattice\<close>

record 'p lattice =
  pending_irobs :: "'p option list"
  lat_offset :: int
  last_anon_irob_id :: irob_id_t
  lat_count :: u_long
  min_dominator_set :: "int set"
  past_irobs :: int_set
  dropped_irobs :: int_set

definition new_lattice :: "'p lattice" where
  "new_lattice = \<lparr>pending_irobs = [], lat_offset = 0, last_anon_irob_id = -1, lat_count = 0,
     min_dominator_set = {}, past_irobs = IntSet, dropped_irobs = IntSet\<rparr>"

text \<open>\<^verbatim>\<open>int index = id - offset\<close>: the difference is unsigned 64-bit and narrowed to an \<^verbatim>\<open>int\<close>.\<close>

definition lat_index :: "'p lattice \<Rightarrow> irob_id_t \<Rightarrow> int" where
  "lat_index L i = to_int (i - lat_offset L)"

definition find_locked :: "'p lattice \<Rightarrow> irob_id_t \<Rightarrow> 'p option" where
  "find_locked L i =
     (let index = lat_index L i
      in if index < 0 \<or> index \<ge> to_int (int (length (pending_irobs L))) then None
         else pending_irobs L ! nat index)"

text \<open>A change of the IROB with the given id through the pointer that \<^verbatim>\<open>find\<close> returned.\<close>

definition lat_update :: "irob_id_t \<Rightarrow> ('p \<Rightarrow> 'p) \<Rightarrow> 'p lattice \<Rightarrow> 'p lattice" where
  "lat_update i f L =
     (case find_locked L i of
        None \<Rightarrow> L
      | Some p \<Rightarrow> L\<lparr>pending_irobs := (pending_irobs L)[nat (lat_index L i) := Some (f p)]\<rparr>)"

function grow_front :: "irob_id_t \<Rightarrow> 'p option list \<Rightarrow> int \<Rightarrow> 'p option list \<times> int" where
  "grow_front i pend off =
     (if to_int (i - off) < 0 then grow_front i (None # pend) (off - 1) else (pend, off))"
  by pat_completeness auto
termination
proof (relation "measure (\<lambda>(i, pend, off). nat (- to_int (i - off)))")
  fix i off :: int
  assume "to_int (i - off) < 0"
  then have "to_int (i - (off - 1)) = to_int (i - off) + 1"
    using to_int_Suc_neg [of "i - off"] by (simp add: algebra_simps)
  then show "((i, None # pend, off - 1), (i, pend, off))
      \<in> measure (\<lambda>(i, pend, off). nat (- to_int (i - off)))" for pend :: "'p option list"
    using \<open>to_int (i - off) < 0\<close> by simp
qed simp

declare grow_front.simps [simp del]

text \<open>
  \<^verbatim>\<open>insert_locked\<close> up to its early return for a placeholder. The result is the inserted IROB,
  or \<open>None\<close> where the source returns \<^verbatim>\<open>false\<close>; \<open>sub\<close> is the virtual \<^verbatim>\<open>subsume\<close>.
\<close>

definition insert_slot ::
  "('a pending_irob_scheme \<Rightarrow> 'a pending_irob_scheme \<Rightarrow> 'a pending_irob_scheme result) \<Rightarrow>
   'a pending_irob_scheme \<Rightarrow> 'a pending_irob_scheme lattice \<Rightarrow>
   ('a pending_irob_scheme option \<times> 'a pending_irob_scheme lattice) result" where
  "insert_slot sub p L =
     (if contains (past_irobs L) (pi_id p) then Inr (None, L)
      else
        let L1 = (if pending_irobs L = [] then L\<lparr>lat_offset := pi_id p\<rparr> else L);
            index = lat_index L1 (pi_id p)
        in if 0 \<le> index \<and> index < to_int (int (length (pending_irobs L1))) \<and>
              (case pending_irobs L1 ! nat index of Some q \<Rightarrow> \<not> placeholder q | None \<Rightarrow> False)
           then Inr (None, L1)
           else
             let (pend, off) = grow_front (pi_id p) (pending_irobs L1) (lat_offset L1);
                 index' = to_int (pi_id p - off);
                 pend' = (if to_int (int (length pend)) \<le> index' then resize (nat (index' + 1)) None pend
                          else pend);
                 store = (\<lambda>p'. Inr (Some p', L1\<lparr>lat_offset := off,
                            pending_irobs := pend'[nat index' := Some p']\<rparr>))
             in case pend' ! nat index' of
                  Some q \<Rightarrow> ASSERT (\<not> placeholder p) (ASSERT (placeholder q)
                              (ASSERT (pi_id q = pi_id p) (bindE (sub p q) store)))
                | None \<Rightarrow> store p)"

definition correct_deps ::
  "bool \<Rightarrow> 'a pending_irob_scheme \<Rightarrow> 'a pending_irob_scheme lattice \<Rightarrow>
   'a pending_irob_scheme \<times> 'a pending_irob_scheme lattice" where
  "correct_deps infer_deps p L =
     (if \<not> infer_deps
      then (remove_deps_if (contains (past_irobs L)) (remove_deps_if (contains (past_irobs L)) p), L)
      else if anonymous p
      then (if last_anon_irob_id L \<ge> 0 \<and> min_dominator_set L = {}
            then (add_dep (last_anon_irob_id L) p, L\<lparr>last_anon_irob_id := pi_id p\<rparr>)
            else (p\<lparr>deps := deps p \<union> min_dominator_set L\<rparr>,
                  L\<lparr>min_dominator_set := {}, last_anon_irob_id := pi_id p\<rparr>))
      else let isect = deps p \<inter> min_dominator_set L
           in (if last_anon_irob_id L \<ge> 0 \<and> isect = {} then add_dep (last_anon_irob_id L) p else p,
               L\<lparr>min_dominator_set := insert (pi_id p) (min_dominator_set L - isect)\<rparr>))"

text \<open>
  One round of the loop over the dependencies: register with the dependency, or with a placeholder
  made for it. The recursive \<^verbatim>\<open>insert_locked\<close> is on a placeholder, where it returns after the slot
  is filled; \<open>mk\<close> is the virtual \<^verbatim>\<open>make_placeholder\<close>.
\<close>

definition link_dep ::
  "(irob_id_t \<Rightarrow> 'a pending_irob_scheme) \<Rightarrow>
   ('a pending_irob_scheme \<Rightarrow> 'a pending_irob_scheme \<Rightarrow> 'a pending_irob_scheme result) \<Rightarrow>
   irob_id_t \<Rightarrow> irob_id_t \<Rightarrow> 'a pending_irob_scheme lattice \<Rightarrow> 'a pending_irob_scheme lattice result" where
  "link_dep mk sub i dep L =
     (if contains (past_irobs L) dep then Inr L
      else case find_locked L dep of
             Some _ \<Rightarrow> Inr (lat_update dep (add_dependent i) L)
           | None \<Rightarrow> bindE (insert_slot sub (mk dep) L)
               (\<lambda>(ret, L'). ASSERT (ret \<noteq> None) (Inr (lat_update dep (add_dependent i) L'))))"

definition insert_locked ::
  "(irob_id_t \<Rightarrow> 'a pending_irob_scheme) \<Rightarrow>
   ('a pending_irob_scheme \<Rightarrow> 'a pending_irob_scheme \<Rightarrow> 'a pending_irob_scheme result) \<Rightarrow>
   bool \<Rightarrow> 'a pending_irob_scheme \<Rightarrow> 'a pending_irob_scheme lattice \<Rightarrow>
   (bool \<times> 'a pending_irob_scheme lattice) result" where
  "insert_locked mk sub infer_deps p L =
     bindE (insert_slot sub p L) (\<lambda>(ret, L1).
       case ret of
         None \<Rightarrow> Inr (False, L1)
       | Some p1 \<Rightarrow>
           if placeholder p1 then Inr (True, L1)
           else let (p2, L2) = correct_deps infer_deps p1 L1;
                    L3 = lat_update (pi_id p2) (\<lambda>_. p2) L2
                in bindE (foldE (link_dep mk sub (pi_id p2)) (iter_set (deps p2)) L3)
                     (\<lambda>L4. Inr (True, L4\<lparr>lat_count := lat_count L4 + 1\<rparr>)))"

fun drop_nulls :: "'p option list \<Rightarrow> int \<Rightarrow> 'p option list \<times> int" where
  "drop_nulls (None # pend) off = drop_nulls pend (off + 1)"
| "drop_nulls pend off = (pend, off)"

definition erase_locked ::
  "irob_id_t \<Rightarrow> bool \<Rightarrow> 'a pending_irob_scheme lattice \<Rightarrow> bool \<times> 'a pending_irob_scheme lattice" where
  "erase_locked i at_receiver L =
     (case find_locked L i of
        None \<Rightarrow> (False, L)
      | Some victim \<Rightarrow>
          let L1 = L\<lparr>past_irobs := insert_num (past_irobs L) i\<rparr>;
              L2 = (if at_receiver then L1\<lparr>min_dominator_set := min_dominator_set L1 - {i}\<rparr> else L1);
              (pend, off) = drop_nulls ((pending_irobs L2)[nat (lat_index L2 i) := None]) (lat_offset L2);
              L3 = L2\<lparr>pending_irobs := pend, lat_offset := off\<rparr>;
              L4 = (if at_receiver
                    then fold (\<lambda>d L. lat_update d (dep_satisfied i) L) (iter_set (dependents victim)) L3
                    else L3)
          in (True, L4\<lparr>lat_count := lat_count L4 - 1\<rparr>))"

definition lat_clear :: "'p lattice \<Rightarrow> 'p lattice" where
  "lat_clear L = L\<lparr>pending_irobs := [], lat_offset := 0, min_dominator_set := {},
     past_irobs := clear_nums (past_irobs L), last_anon_irob_id := -1, lat_count := 0\<rparr>"

definition past_irob_exists :: "'p lattice \<Rightarrow> irob_id_t \<Rightarrow> bool" where
  "past_irob_exists L i = contains (past_irobs L) i"

definition lat_empty :: "'p lattice \<Rightarrow> bool" where
  "lat_empty L \<longleftrightarrow> pending_irobs L = []"

definition lat_size :: "'p lattice \<Rightarrow> u_long" where
  "lat_size L = lat_count L"

definition lat_all :: "'p lattice \<Rightarrow> 'p list" where
  "lat_all L = map the (filter (\<lambda>x. x \<noteq> None) (pending_irobs L))"

definition get_all_ids :: "'a pending_irob_scheme lattice \<Rightarrow> irob_id_t list" where
  "get_all_ids L = map pi_id (lat_all L)"

definition irob_was_dropped :: "'p lattice \<Rightarrow> irob_id_t \<Rightarrow> bool" where
  "irob_was_dropped L i = contains (dropped_irobs L) i"

definition irob_is_undeliverable :: "'p lattice \<Rightarrow> 'a pending_irob_scheme \<Rightarrow> bool" where
  "irob_is_undeliverable L p = list_ex (irob_was_dropped L) (iter_set (deps p))"

definition get_oldest :: "'p lattice \<Rightarrow> 'p option result" where
  "get_oldest L =
     (case pending_irobs L of
        [] \<Rightarrow> Inr None
      | oldest # _ \<Rightarrow> ASSERT (oldest \<noteq> None) (Inr oldest))"

section \<open>The lattice as a finite map\<close>

text \<open>Ids are counted up from zero; the index arithmetic is exact below \<open>2 ^ 31 - 1\<close>.\<close>

definition id_ok :: "int \<Rightarrow> bool" where
  "id_ok i \<longleftrightarrow> 0 \<le> i \<and> i < 2 ^ 31 - 1"

definition lat_map :: "'p lattice \<Rightarrow> int \<Rightarrow> 'p option" where
  "lat_map L i =
     (if lat_offset L \<le> i \<and> i < lat_offset L + int (length (pending_irobs L))
      then pending_irobs L ! nat (i - lat_offset L) else None)"

text \<open>The invariant stated at \<^verbatim>\<open>pending_irobs\<close> in pending_irob.h, and that no pending IROB is past.\<close>

definition lattice_wf :: "'a pending_irob_scheme lattice \<Rightarrow> bool" where
  "lattice_wf L \<longleftrightarrow>
     0 \<le> lat_offset L \<and> lat_offset L + int (length (pending_irobs L)) \<le> 2 ^ 31 - 1 \<and>
     (pending_irobs L \<noteq> [] \<longrightarrow> hd (pending_irobs L) \<noteq> None) \<and>
     (\<forall>i p. lat_map L i = Some p \<longrightarrow> pi_id p = i \<and> i \<notin> elems (past_irobs L))"

definition lat_rest :: "'p lattice \<Rightarrow> int \<times> u_long \<times> int set \<times> int_set \<times> int_set" where
  "lat_rest L = (last_anon_irob_id L, lat_count L, min_dominator_set L, past_irobs L, dropped_irobs L)"

lemma lattice_wfD:
  assumes "lattice_wf L"
  shows "0 \<le> lat_offset L" "lat_offset L + int (length (pending_irobs L)) \<le> 2 ^ 31 - 1"
    "pending_irobs L \<noteq> [] \<Longrightarrow> hd (pending_irobs L) \<noteq> None"
    "lat_map L i = Some p \<Longrightarrow> pi_id p = i" "lat_map L i = Some p \<Longrightarrow> i \<notin> elems (past_irobs L)"
    "lat_map L i = Some p \<Longrightarrow> id_ok i"
  using assms by (auto simp: lattice_wf_def id_ok_def lat_map_def split: if_splits)

lemma new_lattice_wf [simp]: "lattice_wf new_lattice"
  by (simp add: lattice_wf_def new_lattice_def lat_map_def)

lemma lat_map_new [simp]: "lat_map new_lattice = Map.empty"
  by (rule ext) (auto simp: lat_map_def new_lattice_def)

lemma new_lattice_fields [simp]:
  "last_anon_irob_id new_lattice = -1" "min_dominator_set new_lattice = {}"
  "past_irobs new_lattice = IntSet" "dropped_irobs new_lattice = IntSet" "pending_irobs new_lattice = []"
  by (simp_all add: new_lattice_def)

lemma lat_index_exact:
  assumes "lattice_wf L" and "id_ok i"
  shows "lat_index L i = i - lat_offset L"
    and "to_int (int (length (pending_irobs L))) = int (length (pending_irobs L))"
  using lattice_wfD(1,2) [OF assms(1)] assms(2) by (simp_all add: lat_index_def id_ok_def)

lemma find_locked_map: "lattice_wf L \<Longrightarrow> id_ok i \<Longrightarrow> find_locked L i = lat_map L i"
  by (auto simp: find_locked_def lat_map_def lat_index_exact Let_def)

lemma lat_map_upd_slot:
  assumes "lat_offset L \<le> i" and "i < lat_offset L + int (length (pending_irobs L))"
  shows "lat_map (L\<lparr>pending_irobs := (pending_irobs L)[nat (i - lat_offset L) := v]\<rparr>) = (lat_map L)(i := v)"
  using assms by (auto simp: lat_map_def fun_eq_iff nth_list_update)

lemma lat_map_fields [simp]:
  "lat_map (L\<lparr>last_anon_irob_id := a\<rparr>) = lat_map L"
  "lat_map (L\<lparr>lat_count := c\<rparr>) = lat_map L"
  "lat_map (L\<lparr>min_dominator_set := m\<rparr>) = lat_map L"
  "lat_map (L\<lparr>past_irobs := q\<rparr>) = lat_map L"
  "lat_map (L\<lparr>dropped_irobs := q\<rparr>) = lat_map L"
  by (simp_all add: lat_map_def fun_eq_iff)

lemma lattice_wf_fields [simp]:
  "lattice_wf (L\<lparr>last_anon_irob_id := a\<rparr>) = lattice_wf L"
  "lattice_wf (L\<lparr>lat_count := c\<rparr>) = lattice_wf L"
  "lattice_wf (L\<lparr>min_dominator_set := m\<rparr>) = lattice_wf L"
  "lattice_wf (L\<lparr>dropped_irobs := q\<rparr>) = lattice_wf L"
  by (simp_all add: lattice_wf_def)

lemma hd_list_update_Some [simp]: "xs \<noteq> [] \<Longrightarrow> hd xs = Some y \<Longrightarrow> \<exists>z. hd (xs[k := Some v]) = Some z"
  by (cases xs; cases k) auto

lemma lat_update_same: "find_locked L i = Some p \<Longrightarrow> lat_update i (\<lambda>_. p) L = L"
proof -
  assume f: "find_locked L i = Some p"
  then have "pending_irobs L ! nat (lat_index L i) = Some p"
    by (simp add: find_locked_def Let_def split: if_splits)
  then have "(pending_irobs L)[nat (lat_index L i) := Some p] = pending_irobs L" by (metis list_update_id)
  then show ?thesis using f by (simp add: lat_update_def)
qed

lemma find_lat_update: "find_locked L i = Some p \<Longrightarrow> find_locked (lat_update i f L) i = Some (f p)"
proof -
  assume f: "find_locked L i = Some p"
  then have "pending_irobs L ! nat (lat_index L i) = Some p" "0 \<le> lat_index L i"
    "lat_index L i < to_int (int (length (pending_irobs L)))"
    by (auto simp: find_locked_def Let_def split: if_splits)
  moreover have "to_int (int n) \<le> int n" for n
    using to_int_range(2) [of "int n"] by (cases "int n < 2 ^ 31") simp_all
  from this [of "length (pending_irobs L)"] calculation have "nat (lat_index L i) < length (pending_irobs L)" by linarith
  moreover have L': "lat_update i f L = L\<lparr>pending_irobs := (pending_irobs L)[nat (lat_index L i) := Some (f p)]\<rparr>"
    by (simp add: f lat_update_def)
  moreover have "lat_index (lat_update i f L) i = lat_index L i" unfolding L' by (simp add: lat_index_def)
  ultimately show ?thesis by (simp add: find_locked_def)
qed

lemma lat_update_map:
  assumes "lattice_wf L" and "id_ok i"
  shows "lat_map (lat_update i f L) = (lat_map L)(i := map_option f (lat_map L i))"
    and "lat_rest (lat_update i f L) = lat_rest L"
    and "(\<And>p. lat_map L i = Some p \<Longrightarrow> pi_id (f p) = pi_id p) \<Longrightarrow> lattice_wf (lat_update i f L)"
proof -
  show m: "lat_map (lat_update i f L) = (lat_map L)(i := map_option f (lat_map L i))"
  proof (cases "lat_map L i")
    case None
    then show ?thesis by (auto simp: lat_update_def find_locked_map assms)
  next
    case (Some p)
    then have "lat_offset L \<le> i" "i < lat_offset L + int (length (pending_irobs L))"
      by (auto simp: lat_map_def split: if_splits)
    then show ?thesis
      using Some by (simp add: lat_update_def find_locked_map lat_index_exact assms lat_map_upd_slot)
  qed
  show "lat_rest (lat_update i f L) = lat_rest L"
    by (simp add: lat_update_def lat_rest_def split: option.splits)
  assume f: "\<And>p. lat_map L i = Some p \<Longrightarrow> pi_id (f p) = pi_id p"
  have "lat_offset (lat_update i f L) = lat_offset L"
    "length (pending_irobs (lat_update i f L)) = length (pending_irobs L)"
    "past_irobs (lat_update i f L) = past_irobs L"
    "pending_irobs L \<noteq> [] \<Longrightarrow> hd (pending_irobs (lat_update i f L)) \<noteq> None"
    using lattice_wfD(3) [OF assms(1)]
    by (auto simp: lat_update_def split: option.splits)
  moreover have "\<forall>j p. lat_map (lat_update i f L) j = Some p \<longrightarrow> pi_id p = j \<and> j \<notin> elems (past_irobs L)"
    using f lattice_wfD(4,5) [OF assms(1)] by (auto simp: m)
  ultimately show "lattice_wf (lat_update i f L)"
    using assms(1) unfolding lattice_wf_def by (metis length_0_conv)
qed

lemma grow_front_eq:
  assumes "id_ok i" and "0 \<le> off" and "off \<le> 2 ^ 31 - 1"
  shows "grow_front i pend off =
    (if i < off then (replicate (nat (off - i)) None @ pend, i) else (pend, off))"
  using assms
proof (induction "nat (off - i)" arbitrary: pend off)
  case 0
  then have "0 \<le> to_int (i - off)" by (simp add: id_ok_def)
  with 0 show ?case by (simp add: grow_front.simps)
next
  case (Suc n)
  then have neg: "to_int (i - off) < 0" by (simp add: id_ok_def)
  have off: "nat (off - i) = Suc (nat (off - 1 - i))" using Suc by linarith
  have "grow_front i pend off = grow_front i (None # pend) (off - 1)"
    using neg by (simp add: grow_front.simps [of i pend off])
  also have "\<dots> = (replicate (nat (off - i)) None @ pend, i)"
    using Suc.hyps(1) [of "off - 1" "None # pend"] Suc.hyps(2) Suc.prems off
    by (auto simp: id_ok_def replicate_append_same split: if_splits)
  finally show ?case using Suc.hyps(2) by (cases "i < off") simp_all
qed

lemma lat_map_front:
  "lat_map (L\<lparr>lat_offset := lat_offset L - int n, pending_irobs := replicate n None @ pending_irobs L\<rparr>)
   = lat_map L"
proof
  fix i
  have "nat (i - (lat_offset L - int n)) - n = nat (i - lat_offset L)" by linarith
  then show "lat_map (L\<lparr>lat_offset := lat_offset L - int n,
      pending_irobs := replicate n None @ pending_irobs L\<rparr>) i = lat_map L i"
    by (auto simp: lat_map_def nth_append)
qed

lemma lat_map_back:
  "length (pending_irobs L) \<le> n \<Longrightarrow>
   lat_map (L\<lparr>pending_irobs := resize n None (pending_irobs L)\<rparr>) = lat_map L"
  by (auto simp: lat_map_def fun_eq_iff nth_resize)

text \<open>Making room for an id: the lattice afterwards covers the id and stands for the same map.\<close>

definition make_room :: "int \<Rightarrow> 'p lattice \<Rightarrow> 'p lattice" where
  "make_room i L =
     (let L1 = (if pending_irobs L = [] then L\<lparr>lat_offset := i\<rparr> else L);
          (pend, off) = grow_front i (pending_irobs L1) (lat_offset L1);
          index' = to_int (i - off)
      in L1\<lparr>lat_offset := off,
           pending_irobs := (if to_int (int (length pend)) \<le> index' then resize (nat (index' + 1)) None pend
                             else pend)\<rparr>)"

lemma make_room:
  assumes "lattice_wf L" and "id_ok i"
  shows "lat_map (make_room i L) = lat_map L"
    and "lat_rest (make_room i L) = lat_rest L"
    and "0 \<le> lat_offset (make_room i L)" and "lat_offset (make_room i L) \<le> i"
    and "i < lat_offset (make_room i L) + int (length (pending_irobs (make_room i L)))"
    and "lat_offset (make_room i L) + int (length (pending_irobs (make_room i L))) \<le> 2 ^ 31 - 1"
    and "lat_offset (make_room i L) = i \<or> hd (pending_irobs (make_room i L)) \<noteq> None"
proof -
  note wf = lattice_wfD(1-3) [OF assms(1)]
  have i: "0 \<le> i" "i < 2 ^ 31 - 1" using assms(2) by (simp_all add: id_ok_def)
  consider (empty) "pending_irobs L = []"
    | (front) "pending_irobs L \<noteq> []" "i < lat_offset L"
    | (inside) "pending_irobs L \<noteq> []" "lat_offset L \<le> i"
        "i < lat_offset L + int (length (pending_irobs L))"
    | (behind) "pending_irobs L \<noteq> []" "lat_offset L + int (length (pending_irobs L)) \<le> i"
    by linarith
  then have "lat_map (make_room i L) = lat_map L \<and> lat_rest (make_room i L) = lat_rest L \<and>
    0 \<le> lat_offset (make_room i L) \<and> lat_offset (make_room i L) \<le> i \<and>
    i < lat_offset (make_room i L) + int (length (pending_irobs (make_room i L))) \<and>
    lat_offset (make_room i L) + int (length (pending_irobs (make_room i L))) \<le> 2 ^ 31 - 1 \<and>
    (lat_offset (make_room i L) = i \<or> hd (pending_irobs (make_room i L)) \<noteq> None)"
  proof cases
    case empty
    then have "make_room i L = L\<lparr>lat_offset := i, pending_irobs := [None]\<rparr>"
      using i assms(2) by (simp add: make_room_def grow_front_eq resize_def)
    then show ?thesis
      using i empty by (auto simp: lat_map_def lat_rest_def fun_eq_iff nth_Cons')
  next
    case front
    then have eq: "make_room i L = L\<lparr>lat_offset := i,
        pending_irobs := replicate (nat (lat_offset L - i)) None @ pending_irobs L\<rparr>"
      using i wf assms(2) by (simp add: make_room_def grow_front_eq)
    have "lat_map (make_room i L) = lat_map L"
      using lat_map_front [where L = L and n = "nat (lat_offset L - i)"] front by (simp add: eq)
    then show ?thesis using i wf front by (simp add: eq) (simp add: lat_rest_def)
  next
    case inside
    then have "make_room i L = L"
      using i wf assms(2) by (simp add: make_room_def grow_front_eq)
    then show ?thesis using inside i wf by simp
  next
    case behind
    then have "make_room i L = L\<lparr>pending_irobs :=
        resize (nat (i - lat_offset L + 1)) None (pending_irobs L)\<rparr>"
      using i wf assms(2) by (simp add: make_room_def grow_front_eq)
    moreover have "hd (resize (nat (i - lat_offset L + 1)) None (pending_irobs L)) \<noteq> None"
      using behind wf(3) by (auto simp: resize_ge)
    ultimately show ?thesis
      using behind i wf by (simp add: lat_map_back) (simp add: lat_rest_def)
  qed
  then show "lat_map (make_room i L) = lat_map L" "lat_rest (make_room i L) = lat_rest L"
    "0 \<le> lat_offset (make_room i L)" "lat_offset (make_room i L) \<le> i"
    "i < lat_offset (make_room i L) + int (length (pending_irobs (make_room i L)))"
    "lat_offset (make_room i L) + int (length (pending_irobs (make_room i L))) \<le> 2 ^ 31 - 1"
    "lat_offset (make_room i L) = i \<or> hd (pending_irobs (make_room i L)) \<noteq> None"
    by blast+
qed

lemma insert_slot_alt:
  assumes "lattice_wf L" and "id_ok (pi_id p)" and "pi_id p \<notin> elems (past_irobs L)"
  shows "insert_slot sub p L =
    (let L' = make_room (pi_id p) L;
         store = (\<lambda>p'. Inr (Some p', L'\<lparr>pending_irobs :=
                    (pending_irobs L')[nat (pi_id p - lat_offset L') := Some p']\<rparr>))
     in case lat_map L (pi_id p) of
          Some q \<Rightarrow> if placeholder q
                    then ASSERT (\<not> placeholder p) (bindE (sub p q) store) else Inr (None, L)
        | None \<Rightarrow> store p)"
proof -
  let ?i = "pi_id p" and ?L1 = "if pending_irobs L = [] then L\<lparr>lat_offset := pi_id p\<rparr> else L"
  let ?M = "make_room (pi_id p) L"
  note wf = lattice_wfD [OF assms(1)] and room = make_room [OF assms(1,2)]
  have i: "0 \<le> ?i" "?i < 2 ^ 31 - 1" using assms(2) by (simp_all add: id_ok_def)
  have slot: "pending_irobs ?M ! nat (?i - lat_offset ?M) = lat_map L ?i"
    unfolding room(1) [symmetric] using room(4,5) by (simp add: lat_map_def)
  have idx: "to_int (?i - lat_offset ?M) = ?i - lat_offset ?M" using room(3,4) i by simp
  have wf1: "lat_index ?L1 ?i = ?i - lat_offset ?L1"
    "to_int (int (length (pending_irobs ?L1))) = int (length (pending_irobs ?L1))"
    using wf(1,2) i by (auto simp: lat_index_def)
  have present: "(0 \<le> lat_index ?L1 ?i \<and> lat_index ?L1 ?i < to_int (int (length (pending_irobs ?L1))) \<and>
      (case pending_irobs ?L1 ! nat (lat_index ?L1 ?i) of Some q \<Rightarrow> \<not> placeholder q | None \<Rightarrow> False))
    \<longleftrightarrow> (\<exists>q. lat_map L ?i = Some q \<and> \<not> placeholder q)"
    unfolding wf1 by (auto simp: lat_map_def split: option.splits if_splits)
  have ne: "lat_map L ?i = Some q \<Longrightarrow> ?L1 = L" for q by (auto simp: lat_map_def split: if_splits)
  obtain pend off where g: "grow_front ?i (pending_irobs ?L1) (lat_offset ?L1) = (pend, off)"
    by fastforce
  have M: "?M = ?L1\<lparr>lat_offset := off, pending_irobs :=
      (if to_int (int (length pend)) \<le> to_int (?i - off) then resize (nat (to_int (?i - off) + 1)) None pend
       else pend)\<rparr>" by (simp add: make_room_def g Let_def)
  have off: "off = lat_offset ?M" by (simp add: M)
  have pend': "(if to_int (int (length pend)) \<le> to_int (?i - off) then resize (nat (to_int (?i - off) + 1)) None pend
       else pend) = pending_irobs ?M" by (simp add: M)
  have upd: "?L1\<lparr>lat_offset := lat_offset ?M, pending_irobs := v\<rparr> = ?M\<lparr>pending_irobs := v\<rparr>" for v
    by (subst (2) M) (simp add: off)
  have unf: "insert_slot sub p L =
    (if \<exists>q. lat_map L ?i = Some q \<and> \<not> placeholder q then Inr (None, ?L1)
     else let store = (\<lambda>p'. Inr (Some p', ?M\<lparr>pending_irobs :=
                    (pending_irobs ?M)[nat (?i - lat_offset ?M) := Some p']\<rparr>))
          in case lat_map L ?i of
               Some q \<Rightarrow> ASSERT (\<not> placeholder p) (ASSERT (placeholder q)
                           (ASSERT (pi_id q = pi_id p) (bindE (sub p q) store)))
             | None \<Rightarrow> store p)"
    using assms(3) unfolding insert_slot_def
    by (simp only: contains_elems if_False Let_def present g prod.case pend')
       (simp only: off idx slot upd)
  show ?thesis
  proof (cases "lat_map L ?i")
    case None
    then show ?thesis by (simp add: unf Let_def)
  next
    case (Some q)
    then show ?thesis using ne [OF Some] wf(4) [OF Some] by (simp add: unf Let_def)
  qed
qed

lemma store_slot:
  assumes "lattice_wf L" and "id_ok i" and "i \<notin> elems (past_irobs L)" and "pi_id p' = i"
  defines "L' \<equiv> (make_room i L)\<lparr>pending_irobs :=
    (pending_irobs (make_room i L))[nat (i - lat_offset (make_room i L)) := Some p']\<rparr>"
  shows "lat_map L' = (lat_map L)(i \<mapsto> p')" and "lat_rest L' = lat_rest L" and "lattice_wf L'"
proof -
  note room = make_room [OF assms(1,2)]
  show m: "lat_map L' = (lat_map L)(i \<mapsto> p')"
    using lat_map_upd_slot [OF room(4,5)] by (simp add: L'_def room(1))
  show r: "lat_rest L' = lat_rest L" using room(2) by (simp add: L'_def lat_rest_def)
  have "past_irobs L' = past_irobs L" using r by (simp add: lat_rest_def)
  then have "\<forall>j q. lat_map L' j = Some q \<longrightarrow> pi_id q = j \<and> j \<notin> elems (past_irobs L')"
    using lattice_wfD(4,5) [OF assms(1)] assms(3,4) by (auto simp: m)
  moreover have "hd (pending_irobs L') \<noteq> None"
  proof -
    have ne: "pending_irobs (make_room i L) \<noteq> []" using room(4,5) by auto
    from room(7) show ?thesis
    proof
      assume "lat_offset (make_room i L) = i"
      then show ?thesis using ne by (cases "pending_irobs (make_room i L)") (auto simp: L'_def)
    next
      assume "hd (pending_irobs (make_room i L)) \<noteq> None"
      then show ?thesis using ne by (auto simp: L'_def)
    qed
  qed
  ultimately show "lattice_wf L'"
    using room(3,6) unfolding lattice_wf_def by (simp add: L'_def)
qed

text \<open>What \<open>insert_slot\<close> does to the map, in each of its cases.\<close>

lemma insert_slot_past:
  "pi_id p \<in> elems (past_irobs L) \<Longrightarrow> insert_slot sub p L = Inr (None, L)"
  by (simp add: insert_slot_def contains_elems)

lemma insert_slot_dup:
  "lattice_wf L \<Longrightarrow> lat_map L (pi_id p) = Some q \<Longrightarrow> \<not> placeholder q \<Longrightarrow>
   insert_slot sub p L = Inr (None, L)"
  by (simp add: insert_slot_alt lattice_wfD(5,6))

lemma insert_slot_new:
  assumes "lattice_wf L" and "id_ok (pi_id p)" and "pi_id p \<notin> elems (past_irobs L)"
    and "lat_map L (pi_id p) = None"
  obtains L' where "insert_slot sub p L = Inr (Some p, L')"
    "lat_map L' = (lat_map L)(pi_id p \<mapsto> p)" "lat_rest L' = lat_rest L" "lattice_wf L'"
  using insert_slot_alt [OF assms(1-3)] store_slot [OF assms(1-3) refl] assms(4)
  by (simp add: Let_def)

lemma insert_slot_replace:
  assumes "lattice_wf L" and "lat_map L (pi_id p) = Some q" and "placeholder q" and "\<not> placeholder p"
    and "sub p q = Inr p'" and "pi_id p' = pi_id p"
  obtains L' where "insert_slot sub p L = Inr (Some p', L')"
    "lat_map L' = (lat_map L)(pi_id p \<mapsto> p')" "lat_rest L' = lat_rest L" "lattice_wf L'"
proof -
  note facts = lattice_wfD(6,5) [OF assms(1,2)]
  show ?thesis
    using insert_slot_alt [OF assms(1) facts] store_slot [OF assms(1) facts assms(6)] assms(2-5) that
    by (simp add: Let_def)
qed

section \<open>Removal\<close>

lemma drop_nulls:
  assumes "drop_nulls pend off = (pend', off')"
  shows "lat_map (L\<lparr>pending_irobs := pend', lat_offset := off'\<rparr>) =
         lat_map (L\<lparr>pending_irobs := pend, lat_offset := off\<rparr>) \<and>
         off' + int (length pend') = off + int (length pend) \<and> off \<le> off' \<and>
         (pend' \<noteq> [] \<longrightarrow> hd pend' \<noteq> None)"
  using assms
proof (induction pend off arbitrary: rule: drop_nulls.induct)
  case (1 pend off)
  have "lat_map (L\<lparr>pending_irobs := pend, lat_offset := off + 1\<rparr>) =
      lat_map (L\<lparr>pending_irobs := None # pend, lat_offset := off\<rparr>)"
  proof
    fix x
    have "nat (x - (off + 1)) = nat (x - off) - 1" by linarith
    then show "lat_map (L\<lparr>pending_irobs := pend, lat_offset := off + 1\<rparr>) x =
        lat_map (L\<lparr>pending_irobs := None # pend, lat_offset := off\<rparr>) x"
      by (auto simp: lat_map_def nth_Cons')
  qed
  with 1 show ?case by simp
qed auto

lemma erase_slot:
  assumes "lattice_wf L" and "lat_map L i = Some v"
    and "drop_nulls ((pending_irobs L)[nat (lat_index L i) := None]) (lat_offset L) = (pend, off)"
  defines "L' \<equiv> L\<lparr>past_irobs := insert_num (past_irobs L) i, pending_irobs := pend, lat_offset := off\<rparr>"
  shows "lat_map L' = (lat_map L)(i := None)" and "lattice_wf L'"
proof -
  have i: "id_ok i" by (rule lattice_wfD(6) [OF assms(1,2)])
  have rng: "lat_offset L \<le> i" "i < lat_offset L + int (length (pending_irobs L))"
    using assms(2) by (auto simp: lat_map_def split: if_splits)
  note idx = lat_index_exact(1) [OF assms(1) i]
  note dn = drop_nulls [OF assms(3), of "L\<lparr>past_irobs := insert_num (past_irobs L) i\<rparr>"]
  have m: "lat_map L' = lat_map (L\<lparr>pending_irobs := (pending_irobs L)[nat (i - lat_offset L) := None]\<rparr>)"
    using dn by (simp add: L'_def idx) (simp add: lat_map_def fun_eq_iff)
  then show m': "lat_map L' = (lat_map L)(i := None)" by (simp add: lat_map_upd_slot [OF rng])
  have "past_irobs L' = insert_num (past_irobs L) i" by (simp add: L'_def)
  then have "\<forall>j p. lat_map L' j = Some p \<longrightarrow> pi_id p = j \<and> j \<notin> elems (past_irobs L')"
    using lattice_wfD(4,5) [OF assms(1)] by (auto simp: m')
  then show "lattice_wf L'"
    using dn lattice_wfD(1,2) [OF assms(1)] unfolding lattice_wf_def
    by (auto simp: L'_def)
qed

text \<open>Telling every dependent that its dependency is satisfied.\<close>

lemma fold_dep_satisfied:
  assumes "lattice_wf L" and "\<forall>d\<in>set ds. id_ok d" and "distinct ds"
  shows "lat_map (fold (\<lambda>d L. lat_update d (dep_satisfied i) L) ds L) =
      (\<lambda>d. if d \<in> set ds then map_option (dep_satisfied i) (lat_map L d) else lat_map L d)
    \<and> lat_rest (fold (\<lambda>d L. lat_update d (dep_satisfied i) L) ds L) = lat_rest L
    \<and> lattice_wf (fold (\<lambda>d L. lat_update d (dep_satisfied i) L) ds L)"
  using assms
proof (induction ds arbitrary: L)
  case (Cons d ds)
  let ?L = "lat_update d (dep_satisfied i) L"
  have d: "id_ok d" "d \<notin> set ds" using Cons.prems by auto
  note up = lat_update_map [OF Cons.prems(1) d(1), of "dep_satisfied i"]
  have "lattice_wf ?L" by (rule up(3)) (simp add: dep_satisfied_def)
  note IH = Cons.IH [OF this]
  then show ?case using Cons.prems up(1,2) by (auto simp: fun_eq_iff)
qed simp

definition erase_map :: "int \<Rightarrow> bool \<Rightarrow> (int \<Rightarrow> 'a pending_irob_scheme option) \<Rightarrow>
    int \<Rightarrow> 'a pending_irob_scheme option" where
  "erase_map i at_receiver m d =
     (if d = i then None
      else if at_receiver \<and> d \<in> dependents (the (m i)) then map_option (dep_satisfied i) (m d) else m d)"

text \<open>\<^verbatim>\<open>erase\<close> on the map; an id that is not pending is left alone.\<close>

lemma erase_locked_spec:
  assumes wf: "lattice_wf L" and v: "lat_map L i = Some v"
    and dep: "finite (dependents v)" "\<forall>d\<in>dependents v. id_ok d"
  obtains L' where "erase_locked i r L = (True, L')" "lat_map L' = erase_map i r (lat_map L)"
    "lattice_wf L'" "past_irobs L' = insert_num (past_irobs L) i"
    "last_anon_irob_id L' = last_anon_irob_id L" "dropped_irobs L' = dropped_irobs L"
    "min_dominator_set L' = (if r then min_dominator_set L - {i} else min_dominator_set L)"
    "lat_count L' = lat_count L - 1"
proof -
  let ?L1 = "L\<lparr>past_irobs := insert_num (past_irobs L) i\<rparr>"
  let ?L2 = "if r then ?L1\<lparr>min_dominator_set := min_dominator_set ?L1 - {i}\<rparr> else ?L1"
  obtain pend off where g: "drop_nulls ((pending_irobs L)[nat (lat_index L i) := None]) (lat_offset L)
    = (pend, off)" by fastforce
  define L3 where "L3 = ?L2\<lparr>pending_irobs := pend, lat_offset := off\<rparr>"
  note sl = erase_slot [OF wf v g]
  have m3: "lat_map L3 = (lat_map L)(i := None)"
    unfolding sl(1) [symmetric] by (simp add: L3_def lat_map_def fun_eq_iff)
  have wf3: "lattice_wf L3"
    using sl(2) by (simp add: L3_def lattice_wf_def lat_map_def)
  let ?L4 = "if r then fold (\<lambda>d L. lat_update d (dep_satisfied i) L) (iter_set (dependents v)) L3 else L3"
  have f: "find_locked L i = Some v" using find_locked_map [OF wf lattice_wfD(6) [OF wf v]] v by simp
  have er: "erase_locked i r L = (True, ?L4\<lparr>lat_count := lat_count ?L4 - 1\<rparr>)"
    using g by (auto simp: erase_locked_def f Let_def lat_index_def L3_def)
  have fo: "lat_map ?L4 = erase_map i r (lat_map L) \<and> lat_rest ?L4 = lat_rest L3 \<and> lattice_wf ?L4"
    using fold_dep_satisfied [OF wf3, of "iter_set (dependents v)" i] dep wf3
    by (auto simp: m3 erase_map_def fun_eq_iff v)
  show ?thesis
    by (rule that [OF er]) (use fo in \<open>auto simp: lat_rest_def L3_def\<close>)
qed

lemma erase_locked_absent:
  "lattice_wf L \<Longrightarrow> id_ok i \<Longrightarrow> lat_map L i = None \<Longrightarrow> erase_locked i r L = (False, L)"
  by (simp add: erase_locked_def find_locked_map)

end
