(* ===== verification/Lattice_Inv.thy ===== *)
theory Lattice_Inv
  imports Pending_IROB
begin

text \<open>
  The contract of the lattice of pending_irob.cpp: what it needs of the two subclasses of
  \<^verbatim>\<open>PendingIROB\<close> (locale \<open>irob_class\<close>), the invariant that links each IROB with its dependents,
  the effect of insertion and removal on the map from ids to IROBs, and the removal of an IROB with
  everything that depends on it.
\<close>

section \<open>Links\<close>

text \<open>The map after IROB \<open>i\<close> has been registered with each of the dependencies \<open>D\<close>, with
  placeholders where there was nothing.\<close>

definition link_map ::
  "(int \<Rightarrow> 'a pending_irob_scheme) \<Rightarrow> int \<Rightarrow> int set \<Rightarrow> (int \<Rightarrow> 'a pending_irob_scheme option) \<Rightarrow>
   int \<Rightarrow> 'a pending_irob_scheme option" where
  "link_map mk i D m d =
     (if d \<in> D then Some (add_dependent i (case m d of Some q \<Rightarrow> q | None \<Rightarrow> mk d)) else m d)"

text \<open>Every dependency that is not past knows its dependent, and every dependent that is not past
  has the dependency.\<close>

definition linked :: "int set \<Rightarrow> (int \<Rightarrow> 'a pending_irob_scheme option) \<Rightarrow> bool" where
  "linked past m \<longleftrightarrow>
     (\<forall>i p. m i = Some p \<longrightarrow> (\<forall>d\<in>deps p. d \<in> past \<or> (\<exists>q. m d = Some q \<and> i \<in> dependents q))) \<and>
     (\<forall>d q. m d = Some q \<longrightarrow> (\<forall>i\<in>dependents q. i \<in> past \<or> (\<exists>p. m i = Some p \<and> d \<in> deps p)))"

text \<open>The invariant of a lattice whose IROBs all satisfy \<open>elt\<close>.\<close>

definition irob_ok :: "('a pending_irob_scheme \<Rightarrow> bool) \<Rightarrow> 'a pending_irob_scheme \<Rightarrow> bool" where
  "irob_ok elt p \<longleftrightarrow> elt p \<and> finite (deps p) \<and> finite (dependents p) \<and>
     (\<forall>d\<in>deps p \<union> dependents p. id_ok d) \<and> (placeholder p \<longrightarrow> deps p = {})"

definition lat_inv :: "('a pending_irob_scheme \<Rightarrow> bool) \<Rightarrow> 'a pending_irob_scheme lattice \<Rightarrow> bool" where
  "lat_inv elt L \<longleftrightarrow>
     lattice_wf L \<and> (\<forall>i p. lat_map L i = Some p \<longrightarrow> irob_ok elt p) \<and>
     linked (elems (past_irobs L)) (lat_map L) \<and>
     finite (min_dominator_set L) \<and> (\<forall>d\<in>min_dominator_set L. id_ok d) \<and>
     (last_anon_irob_id L \<ge> 0 \<longrightarrow> id_ok (last_anon_irob_id L))"

lemma lat_invD:
  assumes "lat_inv elt L"
  shows "lattice_wf L" "lat_map L i = Some p \<Longrightarrow> irob_ok elt p"
    "linked (elems (past_irobs L)) (lat_map L)"
    "finite (min_dominator_set L)" "d \<in> min_dominator_set L \<Longrightarrow> id_ok d"
    "last_anon_irob_id L \<ge> 0 \<Longrightarrow> id_ok (last_anon_irob_id L)"
  using assms by (auto simp: lat_inv_def)

lemma irob_okD:
  assumes "irob_ok elt p"
  shows "elt p" "finite (deps p)" "finite (dependents p)" "d \<in> deps p \<Longrightarrow> id_ok d"
    "d \<in> dependents p \<Longrightarrow> id_ok d" "placeholder p \<Longrightarrow> deps p = {}"
  using assms by (auto simp: irob_ok_def)

lemma new_lattice_inv [simp]: "lat_inv elt new_lattice"
  by (simp add: lat_inv_def linked_def)

text \<open>Linking keeps the links.\<close>

lemma linked_link_map:
  assumes lk: "linked past m" and i: "i \<notin> past" "m i = None \<or> (m i = Some q \<and> dependents p2 = dependents q \<and> deps q = {})"
    and d0: "m i = None \<Longrightarrow> dependents p2 = {}"
    and mk: "\<And>d. deps (mk d) = {}" "\<And>d. dependents (mk d) = {}"
  shows "linked past (link_map mk i (deps p2 - past) (m(i \<mapsto> p2)))" (is "linked past ?m'")
proof -
  have deps': "?m' j = Some p \<Longrightarrow> deps p = (if j = i then deps p2 else case m j of Some q \<Rightarrow> deps q | None \<Rightarrow> {})" for j p
    by (auto simp: link_map_def add_dependent_def mk split: if_splits option.splits)
  have dependents': "?m' j = Some p \<Longrightarrow> dependents p =
      (if j \<in> deps p2 - past then {i} else {}) \<union>
      (if j = i then dependents p2 else case m j of Some q \<Rightarrow> dependents q | None \<Rightarrow> {})" for j p
    by (auto simp: link_map_def add_dependent_def mk split: if_splits option.splits)
  have dom': "?m' j \<noteq> None \<longleftrightarrow> j \<in> deps p2 - past \<or> j = i \<or> m j \<noteq> None" for j
    by (auto simp: link_map_def)
  have old1: "m j = Some p \<Longrightarrow> d \<in> deps p \<Longrightarrow> d \<notin> past \<Longrightarrow> \<exists>q. m d = Some q \<and> j \<in> dependents q" for j p d
    using lk by (auto simp: linked_def)
  have old2: "m d = Some q \<Longrightarrow> j \<in> dependents q \<Longrightarrow> j \<notin> past \<Longrightarrow> \<exists>p. m j = Some p \<and> d \<in> deps p" for d q j
    using lk unfolding linked_def by blast
  have "\<exists>q. ?m' d = Some q \<and> j \<in> dependents q" if st: "?m' j = Some p" "d \<in> deps p" "d \<notin> past" for j p d
  proof (cases "j = i")
    case True
    then have "d \<in> deps p2 - past" using deps' [OF st(1)] st by simp
    then obtain q where q: "?m' d = Some q" using dom' by fastforce
    then show ?thesis using dependents' [OF q] True \<open>d \<in> deps p2 - past\<close> by auto
  next
    case False
    then obtain pj where "m j = Some pj" "d \<in> deps pj"
      using deps' [OF st(1)] st(2) by (auto split: option.splits)
    then obtain q where q: "m d = Some q" "j \<in> dependents q" using old1 st(3) by blast
    then obtain q' where q': "?m' d = Some q'" using dom' by fastforce
    show ?thesis
    proof (cases "d = i")
      case True
      then have "dependents p2 = dependents q" using i(2) q(1) by auto
      then show ?thesis using dependents' [OF q'] q' q True by auto
    next
      case False
      then show ?thesis using dependents' [OF q'] q' q by auto
    qed
  qed
  moreover have "\<exists>p. ?m' j = Some p \<and> d \<in> deps p"
    if st: "?m' d = Some q" "j \<in> dependents q" "j \<notin> past" for d q j
  proof -
    have "(j = i \<and> d \<in> deps p2) \<or> (\<exists>p. m j = Some p \<and> d \<in> deps p \<and> j \<noteq> i)"
    proof -
      consider "j = i" "d \<in> deps p2" | "d = i" "j \<in> dependents p2"
        | qd where "d \<noteq> i" "m d = Some qd" "j \<in> dependents qd"
        using dependents' [OF st(1)] st(2) by (auto split: if_splits option.splits)
      then show ?thesis
      proof cases
        case 2
        then obtain qi where "m i = Some qi" "j \<in> dependents qi" using i(2) d0 by auto
        then show ?thesis using old2 [of i qi j] st(3) 2 i(2) by fastforce
      next
        case 3
        then show ?thesis using old2 st(3) i(2) by fastforce
      qed simp
    qed
    moreover obtain p where p: "?m' j = Some p" using dom' [of j] calculation by fastforce
    ultimately show ?thesis using deps' [OF p] by auto
  qed
  ultimately show ?thesis unfolding linked_def by blast
qed

lemma linked_change:
  assumes "linked past m" and "m i = Some p" and "deps p' = deps p" and "dependents p' = dependents p"
  shows "linked past (m(i \<mapsto> p'))" (is "linked past ?m'")
proof -
  have old: "\<exists>q0. m j = Some q0 \<and> deps q = deps q0 \<and> dependents q = dependents q0" if "?m' j = Some q" for j q
    using that assms by (cases "j = i") auto
  have new: "\<exists>q. ?m' j = Some q \<and> deps q = deps q0 \<and> dependents q = dependents q0" if "m j = Some q0" for j q0
    using that assms by (cases "j = i") auto
  have "d \<in> past \<or> (\<exists>q. ?m' d = Some q \<and> j \<in> dependents q)" if st: "?m' j = Some q" "d \<in> deps q" for j q d
  proof -
    obtain q0 where "m j = Some q0" "d \<in> deps q0" using old [OF st(1)] st(2) by auto
    then have "d \<in> past \<or> (\<exists>q. m d = Some q \<and> j \<in> dependents q)" using assms(1) unfolding linked_def by blast
    then show ?thesis using new by blast
  qed
  moreover have "j \<in> past \<or> (\<exists>p. ?m' j = Some p \<and> d \<in> deps p)" if st: "?m' d = Some q" "j \<in> dependents q" for j q d
  proof -
    obtain q0 where "m d = Some q0" "j \<in> dependents q0" using old [OF st(1)] st(2) by auto
    then have "j \<in> past \<or> (\<exists>q. m j = Some q \<and> d \<in> deps q)" using assms(1) unfolding linked_def by blast
    then show ?thesis using new by blast
  qed
  ultimately show ?thesis unfolding linked_def by blast
qed

lemma lat_inv_change:
  assumes inv: "lat_inv elt L" and m: "lat_map L i = Some p"
    and p': "pi_id p' = pi_id p" "deps p' = deps p" "dependents p' = dependents p" "placeholder p' = placeholder p" "elt p'"
  shows "lat_inv elt (lat_update i (\<lambda>_. p') L)" "lat_map (lat_update i (\<lambda>_. p') L) = (lat_map L)(i \<mapsto> p')"
    "lat_rest (lat_update i (\<lambda>_. p') L) = lat_rest L"
proof -
  let ?L' = "lat_update i (\<lambda>_. p') L"
  note wf = lat_invD(1) [OF inv]
  note up = lat_update_map [OF wf lattice_wfD(6) [OF wf m], of "\<lambda>_. p'"]
  show m': "lat_map ?L' = (lat_map L)(i \<mapsto> p')" using up(1) m by simp
  show rest: "lat_rest ?L' = lat_rest L" by (rule up(2))
  have "lattice_wf ?L'" by (rule up(3)) (use p'(1) m in auto)
  moreover have "irob_ok elt p'" using lat_invD(2) [OF inv m] p' by (auto simp: irob_ok_def)
  moreover have "linked (elems (past_irobs L)) (lat_map ?L')"
    unfolding m' by (rule linked_change [OF lat_invD(3) [OF inv] m]) (use p' in auto)
  ultimately show "lat_inv elt ?L'"
    using inv rest unfolding lat_inv_def by (auto simp: m' lat_rest_def)
qed

section \<open>What the lattice needs of a subclass\<close>

text \<open>
  \<open>mk\<close> is \<^verbatim>\<open>make_placeholder\<close> and \<open>sub\<close> is \<^verbatim>\<open>subsume\<close> of the subclass; \<open>elt\<close> is the invariant of
  its objects and \<open>fresh\<close> holds of an object that has just been constructed and is not yet in a
  lattice.
\<close>

locale irob_class =
  fixes mk :: "int \<Rightarrow> 'a pending_irob_scheme"
    and sub :: "'a pending_irob_scheme \<Rightarrow> 'a pending_irob_scheme \<Rightarrow> 'a pending_irob_scheme result"
    and elt :: "'a pending_irob_scheme \<Rightarrow> bool"
    and fresh :: "'a pending_irob_scheme \<Rightarrow> bool"
  assumes mk_fields: "pi_id (mk i) = i" "placeholder (mk i)" "deps (mk i) = {}" "dependents (mk i) = {}"
    and elt_mk: "elt (mk i)"
    and elt_fresh: "fresh p \<Longrightarrow> elt p"
    and fresh_fields: "fresh p \<Longrightarrow> \<not> placeholder p \<and> dependents p = {}"
    and elt_deps: "elt p \<Longrightarrow> elt (p\<lparr>deps := D\<rparr>)"
    and elt_dependents: "elt p \<Longrightarrow> elt (p\<lparr>dependents := D\<rparr>)"
    and sub_placeholder: "fresh p \<Longrightarrow> elt q \<Longrightarrow> placeholder q \<Longrightarrow> pi_id q = pi_id p \<Longrightarrow>
      \<exists>p'. sub p q = Inr p' \<and> pi_id p' = pi_id p \<and> deps p' = deps p \<and> anonymous p' = anonymous p \<and>
           dependents p' = dependents q \<and> \<not> placeholder p' \<and> elt p'"
begin

lemma link_dep_spec:
  assumes wf: "lattice_wf L" and d: "id_ok d"
  obtains L' where "link_dep mk sub i d L = Inr L'" "lattice_wf L'" "lat_rest L' = lat_rest L"
    "lat_map L' = link_map mk i ({d} - elems (past_irobs L)) (lat_map L)"
proof -
  consider "d \<in> elems (past_irobs L)"
    | q where "d \<notin> elems (past_irobs L)" "lat_map L d = Some q"
    | "d \<notin> elems (past_irobs L)" "lat_map L d = None" by blast
  then show ?thesis
  proof cases
    case 1
    then show ?thesis using wf by (intro that [of L]) (auto simp: link_dep_def contains_elems link_map_def)
  next
    case 2
    note up = lat_update_map [OF wf d, of "add_dependent i"]
    have "lattice_wf (lat_update d (add_dependent i) L)" by (rule up(3)) (simp add: add_dependent_def)
    then show ?thesis using 2 up(1,2)
      by (intro that [of "lat_update d (add_dependent i) L"])
         (auto simp: link_dep_def contains_elems find_locked_map wf d link_map_def fun_eq_iff)
  next
    case 3
    then obtain L1 where L1: "insert_slot sub (mk d) L = Inr (Some (mk d), L1)"
        "lat_map L1 = (lat_map L)(d \<mapsto> mk d)" "lat_rest L1 = lat_rest L" "lattice_wf L1"
      using insert_slot_new [of L "mk d" sub] wf d by (auto simp: mk_fields)
    note up = lat_update_map [OF L1(4) d, of "add_dependent i"]
    have "lattice_wf (lat_update d (add_dependent i) L1)" by (rule up(3)) (simp add: add_dependent_def)
    then show ?thesis using 3 up(1,2) L1(1-3)
      by (intro that [of "lat_update d (add_dependent i) L1"])
         (auto simp: link_dep_def contains_elems find_locked_map wf d link_map_def fun_eq_iff)
  qed
qed

lemma link_all_spec:
  assumes "lattice_wf L" and "distinct ds" and "\<forall>d\<in>set ds. id_ok d"
  shows "\<exists>L'. foldE (link_dep mk sub i) ds L = Inr L' \<and> lattice_wf L' \<and> lat_rest L' = lat_rest L \<and>
    lat_map L' = link_map mk i (set ds - elems (past_irobs L)) (lat_map L)"
  using assms
proof (induction ds arbitrary: L)
  case Nil
  then show ?case by (auto simp: link_map_def)
next
  case (Cons d ds)
  obtain L1 where L1: "link_dep mk sub i d L = Inr L1" "lattice_wf L1" "lat_rest L1 = lat_rest L"
    "lat_map L1 = link_map mk i ({d} - elems (past_irobs L)) (lat_map L)"
    by (rule link_dep_spec [of L d i]) (use Cons.prems in auto)
  have past: "past_irobs L1 = past_irobs L" using L1(3) by (simp add: lat_rest_def)
  obtain L' where L': "foldE (link_dep mk sub i) ds L1 = Inr L'" "lattice_wf L'"
    "lat_rest L' = lat_rest L1"
    "lat_map L' = link_map mk i (set ds - elems (past_irobs L1)) (lat_map L1)"
    using Cons.IH [OF L1(2)] Cons.prems by auto
  have "lat_map L' = link_map mk i (set (d # ds) - elems (past_irobs L)) (lat_map L)"
    using Cons.prems(2) by (auto simp: L' past L1(4) link_map_def fun_eq_iff)
  then show ?case using L1 L' by simp
qed

text \<open>The two refusals of \<^verbatim>\<open>insert\<close>.\<close>

lemma insert_refused:
  assumes "lat_inv elt L"
    and "pi_id p \<in> elems (past_irobs L) \<or> (\<exists>q. lat_map L (pi_id p) = Some q \<and> \<not> placeholder q)"
  shows "insert_locked mk sub infer p L = Inr (False, L)"
  using assms insert_slot_past insert_slot_dup [OF lat_invD(1) [OF assms(1)]]
  by (fastforce simp: insert_locked_def)

text \<open>The IROB that ends up in the lattice: the new one, after it has taken over a placeholder.\<close>

definition merged :: "'a pending_irob_scheme \<Rightarrow> 'a pending_irob_scheme lattice \<Rightarrow> 'a pending_irob_scheme" where
  "merged p L = (case lat_map L (pi_id p) of Some q \<Rightarrow> projr (sub p q) | None \<Rightarrow> p)"

lemma merged_fields:
  assumes "lat_inv elt L" and "fresh p"
    and "\<forall>q. lat_map L (pi_id p) = Some q \<longrightarrow> placeholder q"
  shows "pi_id (merged p L) = pi_id p" "deps (merged p L) = deps p" "anonymous (merged p L) = anonymous p"
    "\<not> placeholder (merged p L)" "elt (merged p L)"
    "dependents (merged p L) = (case lat_map L (pi_id p) of Some q \<Rightarrow> dependents q | None \<Rightarrow> {})"
    "lat_map L (pi_id p) = Some q \<Longrightarrow> sub p q = Inr (merged p L)"
proof -
  have some: "sub p q = Inr (merged p L) \<and> pi_id (merged p L) = pi_id p \<and> deps (merged p L) = deps p \<and>
      anonymous (merged p L) = anonymous p \<and> dependents (merged p L) = dependents q \<and>
      \<not> placeholder (merged p L) \<and> elt (merged p L)" if "lat_map L (pi_id p) = Some q" for q
  proof -
    have "elt q" using irob_okD(1) [OF lat_invD(2) [OF assms(1) that]] .
    moreover have "pi_id q = pi_id p" using lattice_wfD(4) [OF lat_invD(1) [OF assms(1)] that] .
    ultimately show ?thesis
      using sub_placeholder [OF assms(2) _ assms(3) [rule_format, OF that]] that by (auto simp: merged_def)
  qed
  have none: "merged p L = p" if "lat_map L (pi_id p) = None" using that by (simp add: merged_def)
  show "pi_id (merged p L) = pi_id p" "deps (merged p L) = deps p" "anonymous (merged p L) = anonymous p"
    "\<not> placeholder (merged p L)" "elt (merged p L)"
    "dependents (merged p L) = (case lat_map L (pi_id p) of Some q \<Rightarrow> dependents q | None \<Rightarrow> {})"
    "lat_map L (pi_id p) = Some q \<Longrightarrow> sub p q = Inr (merged p L)"
    using some none fresh_fields [OF assms(2)] elt_fresh [OF assms(2)]
    by (cases "lat_map L (pi_id p)"; auto)+
qed

end

section \<open>The dependencies an IROB gets\<close>

definition corrected_deps :: "bool \<Rightarrow> bool \<Rightarrow> int set \<Rightarrow> 'p lattice \<Rightarrow> int set" where
  "corrected_deps infer anon D L =
     (if \<not> infer then D - elems (past_irobs L)
      else if anon then (if last_anon_irob_id L \<ge> 0 \<and> min_dominator_set L = {}
                         then insert (last_anon_irob_id L) D else D \<union> min_dominator_set L)
      else if last_anon_irob_id L \<ge> 0 \<and> D \<inter> min_dominator_set L = {}
           then insert (last_anon_irob_id L) D else D)"

definition corrected_mds :: "bool \<Rightarrow> bool \<Rightarrow> int \<Rightarrow> int set \<Rightarrow> 'p lattice \<Rightarrow> int set" where
  "corrected_mds infer anon i D L =
     (if \<not> infer then min_dominator_set L else if anon then {} else insert i (min_dominator_set L - D))"

definition corrected_last :: "bool \<Rightarrow> bool \<Rightarrow> int \<Rightarrow> 'p lattice \<Rightarrow> int" where
  "corrected_last infer anon i L = (if infer \<and> anon then i else last_anon_irob_id L)"

lemma correct_deps_eq:
  assumes "finite (deps p)"
  shows "correct_deps infer p L =
    (p\<lparr>deps := corrected_deps infer (anonymous p) (deps p) L\<rparr>,
     L\<lparr>min_dominator_set := corrected_mds infer (anonymous p) (pi_id p) (deps p) L,
       last_anon_irob_id := corrected_last infer (anonymous p) (pi_id p) L\<rparr>)"
proof -
  have "set (filter (\<lambda>i. \<not> contains (past_irobs L) i) (iter_set D)) = D - elems (past_irobs L)"
    if "finite D" for D using that by (auto simp: contains_elems)
  then have "remove_deps_if (contains (past_irobs L)) p = p\<lparr>deps := deps p - elems (past_irobs L)\<rparr>"
    if "finite (deps p)" for p :: "'a pending_irob_scheme" using that by (simp add: remove_deps_if_def)
  moreover have "insert (pi_id p) (min_dominator_set L - deps p \<inter> min_dominator_set L) =
    insert (pi_id p) (min_dominator_set L - deps p)" by blast
  ultimately show ?thesis
    using assms by (auto simp: correct_deps_def corrected_deps_def corrected_mds_def corrected_last_def
      add_dep_def Let_def)
qed

lemma corrected_rest:
  assumes "lat_rest L1 = lat_rest L"
  shows "corrected_deps b a D L1 = corrected_deps b a D L" "corrected_mds b a i D L1 = corrected_mds b a i D L"
    "corrected_last b a i L1 = corrected_last b a i L"
  using assms by (simp_all add: corrected_deps_def corrected_mds_def corrected_last_def lat_rest_def)

lemma corrected_ok:
  assumes "lat_inv elt L" and "finite D" and "\<forall>d\<in>D. id_ok d" and "id_ok i"
  shows "finite (corrected_deps b a D L)" "\<forall>d\<in>corrected_deps b a D L. id_ok d"
    "finite (corrected_mds b a i D L)" "\<forall>d\<in>corrected_mds b a i D L. id_ok d"
    "corrected_last b a i L \<ge> 0 \<Longrightarrow> id_ok (corrected_last b a i L)"
  using assms lat_invD(4-6) [OF assms(1)]
  by (auto simp: corrected_deps_def corrected_mds_def corrected_last_def)

section \<open>Insertion\<close>

context irob_class
begin

lemma irob_ok_link_map:
  assumes m: "\<And>j q. m j = Some q \<Longrightarrow> irob_ok elt q" and i: "id_ok i" and D: "\<forall>d\<in>D. id_ok d"
    and j: "link_map mk i D m j = Some q"
  shows "irob_ok elt q"
proof (cases "j \<in> D")
  case False
  then show ?thesis using j m by (simp add: link_map_def)
next
  case True
  define q0 where "q0 = (case m j of Some q \<Rightarrow> q | None \<Rightarrow> mk j)"
  have "irob_ok elt q0"
    using m [of j] D True by (auto simp: q0_def irob_ok_def mk_fields elt_mk split: option.splits)
  moreover have "q = add_dependent i q0" using j True by (simp add: link_map_def q0_def)
  ultimately show ?thesis using i by (auto simp: irob_ok_def add_dependent_def elt_dependents)
qed

lemma insert_spec:
  assumes inv: "lat_inv elt L" and p: "fresh p" "finite (deps p)" "\<forall>d\<in>deps p. id_ok d"
    and i: "id_ok (pi_id p)" "pi_id p \<notin> elems (past_irobs L)"
    and ph: "\<forall>q. lat_map L (pi_id p) = Some q \<longrightarrow> placeholder q"
    and D_def: "D = corrected_deps infer (anonymous p) (deps p) L"
  obtains L' where "insert_locked mk sub infer p L = Inr (True, L')" "lat_inv elt L'"
    "lat_map L' = link_map mk (pi_id p) (D - elems (past_irobs L))
       ((lat_map L)(pi_id p \<mapsto> (merged p L)\<lparr>deps := D\<rparr>))"
    "lat_rest L' = (corrected_last infer (anonymous p) (pi_id p) L, lat_count L + 1,
       corrected_mds infer (anonymous p) (pi_id p) (deps p) L, past_irobs L, dropped_irobs L)"
proof -
  let ?p1 = "merged p L" and ?i = "pi_id p"
  note wf = lat_invD(1) [OF inv]
  note mf = merged_fields [OF inv p(1) ph]
  note ok = corrected_ok [OF inv p(2,3) i(1), of infer "anonymous p"]
  obtain L1 where L1: "insert_slot sub p L = Inr (Some ?p1, L1)" "lat_map L1 = (lat_map L)(?i \<mapsto> ?p1)"
    "lat_rest L1 = lat_rest L" "lattice_wf L1"
  proof (cases "lat_map L ?i")
    case None
    then show ?thesis using insert_slot_new [OF wf i None, of sub] that by (auto simp: merged_def)
  next
    case (Some q)
    show ?thesis
      by (rule insert_slot_replace [where sub = sub, OF wf Some ph [rule_format, OF Some] _ mf(7) [OF Some] mf(1)])
         (use fresh_fields [OF p(1)] that in auto)
  qed
  let ?p2 = "?p1\<lparr>deps := D\<rparr>"
  let ?L2 = "L1\<lparr>min_dominator_set := corrected_mds infer (anonymous p) ?i (deps p) L,
       last_anon_irob_id := corrected_last infer (anonymous p) ?i L\<rparr>"
  have cd: "correct_deps infer ?p1 L1 = (?p2, ?L2)"
    using mf p(2) by (simp add: correct_deps_eq corrected_rest [OF L1(3)] D_def)
  let ?L3 = "lat_update ?i (\<lambda>_. ?p2) ?L2"
  have wf2: "lattice_wf ?L2" using L1(4) by simp
  note up = lat_update_map [OF wf2 i(1), of "\<lambda>_. ?p2"]
  have wf3: "lattice_wf ?L3" by (rule up(3)) (use mf(1) L1(2) in simp)
  have m3: "lat_map ?L3 = (lat_map L)(?i \<mapsto> ?p2)" using up(1) L1(2) by simp
  have past3: "past_irobs ?L3 = past_irobs L" using up(2) L1(3) by (simp add: lat_rest_def)
  have D: "finite D" "\<forall>d\<in>D. id_ok d" using ok by (simp_all add: D_def)
  obtain L4 where L4: "foldE (link_dep mk sub ?i) (iter_set D) ?L3 = Inr L4" "lattice_wf L4"
    "lat_rest L4 = lat_rest ?L3" "lat_map L4 = link_map mk ?i (D - elems (past_irobs L)) ((lat_map L)(?i \<mapsto> ?p2))"
    using link_all_spec [OF wf3, of "iter_set D" ?i] D by (auto simp: past3 m3)
  let ?L' = "L4\<lparr>lat_count := lat_count L4 + 1\<rparr>"
  have ins: "insert_locked mk sub infer p L = Inr (True, ?L')"
    using L1(1) mf(1,4) L4(1) by (simp add: insert_locked_def cd)
  have rest: "lat_rest ?L' = (corrected_last infer (anonymous p) ?i L, lat_count L + 1,
       corrected_mds infer (anonymous p) ?i (deps p) L, past_irobs L, dropped_irobs L)"
    using L4(3) up(2) L1(3) by (simp add: lat_rest_def)
  have past': "past_irobs ?L' = past_irobs L" using rest by (simp add: lat_rest_def)
  have "irob_ok elt ?p2"
    using mf D lat_invD(2) [OF inv] by (auto simp: irob_ok_def elt_deps split: option.splits)
  then have m'ok: "irob_ok elt q" if "((lat_map L)(?i \<mapsto> ?p2)) j = Some q" for j q
    using that lat_invD(2) [OF inv] by (auto split: if_splits)
  have links: "linked (elems (past_irobs L)) (lat_map ?L')"
  proof -
    have "lat_map L ?i = None \<or> (lat_map L ?i = Some (the (lat_map L ?i)) \<and>
        dependents ?p2 = dependents (the (lat_map L ?i)) \<and> deps (the (lat_map L ?i)) = {})"
      using mf(6) ph irob_okD(6) [OF lat_invD(2) [OF inv]] by (cases "lat_map L ?i") auto
    from linked_link_map [OF lat_invD(3) [OF inv] i(2) this, of mk] show ?thesis
      using mf(6) by (simp add: L4(4) mk_fields)
  qed
  have all_ok: "irob_ok elt q" if "lat_map ?L' j = Some q" for j q
    by (rule irob_ok_link_map [of "(lat_map L)(?i \<mapsto> ?p2)" ?i "D - elems (past_irobs L)" j])
       (use that m'ok i(1) D(2) in \<open>simp_all add: L4(4)\<close>)
  have "lattice_wf ?L'" using L4(2) by simp
  moreover have "min_dominator_set ?L' = corrected_mds infer (anonymous p) ?i (deps p) L"
    "last_anon_irob_id ?L' = corrected_last infer (anonymous p) ?i L" using rest by (simp_all add: lat_rest_def)
  ultimately have "lat_inv elt ?L'"
    unfolding lat_inv_def past' using links ok(3-5) all_ok by metis
  then show ?thesis using that [OF ins] L4(4) rest by simp
qed

text \<open>A placeholder that nothing depends on yet.\<close>

lemma insert_placeholder_spec:
  assumes inv: "lat_inv elt L" and i: "id_ok i" "i \<notin> elems (past_irobs L)" "lat_map L i = None"
  obtains L' where "insert_locked mk sub infer (mk i) L = Inr (True, L')" "lat_inv elt L'"
    "lat_map L' = (lat_map L)(i \<mapsto> mk i)" "lat_rest L' = lat_rest L"
proof -
  obtain L' where L': "insert_slot sub (mk i) L = Inr (Some (mk i), L')"
      "lat_map L' = (lat_map L)(i \<mapsto> mk i)" "lat_rest L' = lat_rest L" "lattice_wf L'"
    using insert_slot_new [of L "mk i" sub] lat_invD(1) [OF inv] i by (auto simp: mk_fields)
  have past: "past_irobs L' = past_irobs L" using L'(3) by (simp add: lat_rest_def)
  have lk: "linked (elems (past_irobs L)) (lat_map L)" by (rule lat_invD(3) [OF inv])
  have "linked (elems (past_irobs L)) ((lat_map L)(i \<mapsto> mk i))"
    unfolding linked_def
  proof (intro conjI allI impI ballI)
    fix j p d assume "((lat_map L)(i \<mapsto> mk i)) j = Some p" "d \<in> deps p"
    then have "lat_map L j = Some p" by (auto simp: mk_fields split: if_splits)
    then have "d \<in> elems (past_irobs L) \<or> (\<exists>q. lat_map L d = Some q \<and> j \<in> dependents q)"
      using lk \<open>d \<in> deps p\<close> unfolding linked_def by blast
    then show "d \<in> elems (past_irobs L) \<or> (\<exists>q. ((lat_map L)(i \<mapsto> mk i)) d = Some q \<and> j \<in> dependents q)"
      using i(3) by auto
  next
    fix d q j assume "((lat_map L)(i \<mapsto> mk i)) d = Some q" "j \<in> dependents q"
    then have "lat_map L d = Some q" by (auto simp: mk_fields split: if_splits)
    then have "j \<in> elems (past_irobs L) \<or> (\<exists>p. lat_map L j = Some p \<and> d \<in> deps p)"
      using lk \<open>j \<in> dependents q\<close> unfolding linked_def by blast
    then show "j \<in> elems (past_irobs L) \<or> (\<exists>p. ((lat_map L)(i \<mapsto> mk i)) j = Some p \<and> d \<in> deps p)"
      using i(3) by auto
  qed
  moreover have "irob_ok elt (mk i)" by (simp add: irob_ok_def mk_fields elt_mk)
  ultimately have "lat_inv elt L'"
    using inv L'(3,4) unfolding lat_inv_def L'(2) past by (auto simp: lat_rest_def)
  moreover have "insert_locked mk sub infer (mk i) L = Inr (True, L')"
    using L'(1) by (simp add: insert_locked_def mk_fields)
  ultimately show ?thesis using that L'(2,3) by blast
qed

end

section \<open>Removal keeps the invariant\<close>

lemma erase_map_fields:
  assumes "erase_map i r m j = Some p"
  obtains p0 where "j \<noteq> i" "m j = Some p0" "dependents p = dependents p0"
    "deps p = (if r \<and> j \<in> dependents (the (m i)) then deps p0 - {i} else deps p0)"
  using assms by (auto simp: erase_map_def dep_satisfied_def split: if_splits)

lemma linked_erase:
  assumes "linked past m"
  shows "linked (insert i past) (erase_map i r m)" (is "linked _ ?m'")
proof -
  have some: "?m' j \<noteq> None \<longleftrightarrow> j \<noteq> i \<and> m j \<noteq> None" for j by (auto simp: erase_map_def)
  have "d \<in> insert i past \<or> (\<exists>q. ?m' d = Some q \<and> j \<in> dependents q)"
    if st: "?m' j = Some p" "d \<in> deps p" for j p d
  proof (cases "d \<in> insert i past")
    case False
    obtain p0 where p0: "m j = Some p0" "d \<in> deps p0"
      using st by (auto elim!: erase_map_fields split: if_splits)
    then obtain q where q: "m d = Some q" "j \<in> dependents q" using assms False unfolding linked_def by blast
    then obtain q' where q': "?m' d = Some q'" using some [of d] False by auto
    then have "dependents q' = dependents q" using q by (auto elim: erase_map_fields)
    then show ?thesis using q q' by auto
  qed simp
  moreover have "j \<in> insert i past \<or> (\<exists>p. ?m' j = Some p \<and> d \<in> deps p)"
    if st: "?m' d = Some q" "j \<in> dependents q" for d q j
  proof (cases "j \<in> insert i past")
    case False
    obtain q0 where q0: "d \<noteq> i" "m d = Some q0" "j \<in> dependents q0"
      using st by (auto elim!: erase_map_fields)
    then obtain p where p: "m j = Some p" "d \<in> deps p" using assms False unfolding linked_def by blast
    then obtain p' where p': "?m' j = Some p'" using some [of j] False by auto
    then have "d \<in> deps p'" using p q0(1) by (auto elim: erase_map_fields split: if_splits)
    then show ?thesis using p' by auto
  qed simp
  ultimately show ?thesis unfolding linked_def by blast
qed

context irob_class
begin

lemma erase_spec:
  assumes inv: "lat_inv elt L" and v: "lat_map L i = Some v"
  obtains L' where "erase_locked i r L = (True, L')" "lat_map L' = erase_map i r (lat_map L)"
    "lat_inv elt L'" "past_irobs L' = insert_num (past_irobs L) i"
    "last_anon_irob_id L' = last_anon_irob_id L" "dropped_irobs L' = dropped_irobs L"
    "min_dominator_set L' = (if r then min_dominator_set L - {i} else min_dominator_set L)"
    "lat_count L' = lat_count L - 1"
proof -
  note ok = lat_invD(2) [OF inv v]
  obtain L' where L': "erase_locked i r L = (True, L')" "lat_map L' = erase_map i r (lat_map L)"
    "lattice_wf L'" "past_irobs L' = insert_num (past_irobs L) i"
    "last_anon_irob_id L' = last_anon_irob_id L" "dropped_irobs L' = dropped_irobs L"
    "min_dominator_set L' = (if r then min_dominator_set L - {i} else min_dominator_set L)"
    "lat_count L' = lat_count L - 1"
    by (rule erase_locked_spec [OF lat_invD(1) [OF inv] v irob_okD(3) [OF ok], of r])
       (use irob_okD(5) [OF ok] in auto)
  have "irob_ok elt p" if st: "lat_map L' j = Some p" for j p
  proof -
    obtain p0 where p0: "lat_map L j = Some p0" "p = p0 \<or> p = dep_satisfied i p0"
      using st by (auto simp: L'(2) erase_map_def split: if_splits)
    have "irob_ok elt p0" by (rule lat_invD(2) [OF inv p0(1)])
    then show ?thesis using p0(2) by (auto simp: irob_ok_def dep_satisfied_def elt_deps)
  qed
  moreover have "linked (elems (past_irobs L')) (lat_map L')"
    using linked_erase [OF lat_invD(3) [OF inv], of i r] by (simp add: L'(2,4))
  ultimately have "lat_inv elt L'"
    unfolding lat_inv_def using L' lat_invD(4-6) [OF inv] by (metis finite_Diff DiffD1)
  then show ?thesis using that L' by blast
qed

end

section \<open>Dropping an IROB and its dependents\<close>

definition num_some :: "'p option list \<Rightarrow> nat" where
  "num_some xs = length (filter (\<lambda>x. x \<noteq> None) xs)"

lemma num_some_simps [simp]: "num_some [] = 0" "num_some (None # xs) = num_some xs"
  "num_some (Some x # xs) = Suc (num_some xs)"
  by (simp_all add: num_some_def)

lemma drop_nulls_count: "drop_nulls pend off = (pend', off') \<Longrightarrow> num_some pend' = num_some pend"
  by (induction pend off rule: drop_nulls.induct) auto

lemma filter_update_None: "k < length xs \<Longrightarrow> xs ! k \<noteq> None \<Longrightarrow> num_some (xs[k := None]) < num_some xs"
proof (induction xs arbitrary: k)
  case (Cons x xs)
  then show ?case by (cases k; cases x) auto
qed simp

lemma erase_locked_count:
  assumes "find_locked L v = Some p"
  shows "num_some (pending_irobs (snd (erase_locked v False L))) < num_some (pending_irobs L)"
proof -
  let ?k = "nat (lat_index L v)"
  obtain pend off where g: "drop_nulls ((pending_irobs L)[?k := None]) (lat_offset L) = (pend, off)"
    by fastforce
  have "to_int (int (length (pending_irobs L))) \<le> int (length (pending_irobs L))"
    unfolding to_int_def
    by (smt (verit) zmod_le_nonneg_dividend of_nat_0_le_iff zero_less_power)
  then have "?k < length (pending_irobs L)" "pending_irobs L ! ?k \<noteq> None"
    using assms by (auto simp: find_locked_def Let_def split: if_splits)
  from filter_update_None [OF this] show ?thesis
    using drop_nulls_count [OF g] g by (simp add: erase_locked_def assms lat_index_def Let_def)
qed

text \<open>The breadth-first loop of \<^verbatim>\<open>drop_irob_and_dependents\<close> over the queue of victims.\<close>

function drop_loop ::
  "irob_id_t list \<Rightarrow> 'a pending_irob_scheme lattice \<Rightarrow> 'a pending_irob_scheme lattice" where
  "drop_loop [] L = L"
| "drop_loop (next_victim # victims) L =
     (case find_locked L next_victim of
        None \<Rightarrow> drop_loop victims L
      | Some p \<Rightarrow>
          let L' = snd (erase_locked next_victim False L)
          in drop_loop (victims @ iter_set (dependents p))
               (L'\<lparr>dropped_irobs := insert_num (dropped_irobs L') next_victim\<rparr>))"
  by pat_completeness auto
termination
  by (relation "measures [\<lambda>(vs, L). num_some (pending_irobs L), \<lambda>(vs, L). length vs]")
     (auto simp: erase_locked_count)

definition drop_irob_and_dependents ::
  "irob_id_t \<Rightarrow> 'a pending_irob_scheme lattice \<Rightarrow> 'a pending_irob_scheme lattice" where
  "drop_irob_and_dependents i L = drop_loop [i] L"

text \<open>The edges the loop follows.\<close>

definition dependent_edges :: "(int \<Rightarrow> 'a pending_irob_scheme option) \<Rightarrow> (int \<times> int) set" where
  "dependent_edges m = {(d, i). \<exists>q. m d = Some q \<and> i \<in> dependents q}"

lemma reach_step:
  "E\<^sup>* `` insert v V = insert v ((E - {v} \<times> UNIV)\<^sup>* `` (V \<union> E `` {v}))" (is "?l = ?r")
proof
  show "?r \<subseteq> ?l"
  proof -
    have "(E - {v} \<times> UNIV)\<^sup>* \<subseteq> E\<^sup>*" by (rule rtrancl_mono) blast
    then show ?thesis by (auto intro: converse_rtrancl_into_rtrancl)
  qed
  show "?l \<subseteq> ?r"
  proof
    fix x assume "x \<in> ?l"
    then obtain u where "u \<in> insert v V" "(u, x) \<in> E\<^sup>*" by blast
    from this(2,1) show "x \<in> ?r"
    proof (induction rule: rtrancl_induct)
      case (step y z)
      then have "y \<in> ?r" by blast
      show ?case
      proof (cases "y = v")
        case False
        then obtain w where "w \<in> V \<union> E `` {v}" "(w, y) \<in> (E - {v} \<times> UNIV)\<^sup>*" using \<open>y \<in> ?r\<close> by blast
        moreover have "(y, z) \<in> E - {v} \<times> UNIV" using False step by blast
        ultimately show ?thesis by (blast intro: rtrancl_into_rtrancl)
      qed (use step in blast)
    qed auto
  qed
qed

context irob_class
begin

lemma drop_loop_spec:
  assumes "lat_inv elt L" and "\<forall>v\<in>set vs. id_ok v"
  shows "lat_inv elt (drop_loop vs L) \<and>
    lat_map (drop_loop vs L) = (\<lambda>i. if i \<in> (dependent_edges (lat_map L))\<^sup>* `` set vs then None else lat_map L i) \<and>
    elems (dropped_irobs (drop_loop vs L)) = elems (dropped_irobs L) \<union>
      {i \<in> dom (lat_map L). i \<in> (dependent_edges (lat_map L))\<^sup>* `` set vs} \<and>
    elems (past_irobs (drop_loop vs L)) = elems (past_irobs L) \<union>
      {i \<in> dom (lat_map L). i \<in> (dependent_edges (lat_map L))\<^sup>* `` set vs}"
  using assms
proof (induction vs L rule: drop_loop.induct)
  case (1 L)
  then show ?case by simp
next
  case (2 v vs L)
  let ?E = "dependent_edges (lat_map L)"
  have wf: "lattice_wf L" and v: "id_ok v" using 2 lat_invD(1) by auto
  note f = find_locked_map [OF wf v]
  show ?case
  proof (cases "lat_map L v")
    case None
    then have "?E `` {v} = {}" by (auto simp: dependent_edges_def)
    then have "?E\<^sup>* `` set (v # vs) = insert v (?E\<^sup>* `` set vs)"
      by (auto elim: converse_rtranclE)
    moreover have "drop_loop (v # vs) L = drop_loop vs L" using None by (simp add: f)
    ultimately show ?thesis
      using 2(1) [unfolded f, OF None 2(3)] 2(4) None by (auto simp: fun_eq_iff)
  next
    case (Some p)
    obtain L1 where L1: "erase_locked v False L = (True, L1)" "lat_map L1 = erase_map v False (lat_map L)"
      "lat_inv elt L1" "past_irobs L1 = insert_num (past_irobs L) v" "dropped_irobs L1 = dropped_irobs L"
      by (rule erase_spec [OF 2(3) Some, of False])
    let ?L2 = "L1\<lparr>dropped_irobs := insert_num (dropped_irobs L1) v\<rparr>"
    have p: "finite (dependents p)" "\<forall>d\<in>dependents p. id_ok d"
      using irob_okD(3,5) [OF lat_invD(2) [OF 2(3) Some]] by auto
    have inv2: "lat_inv elt ?L2" using L1(3) by (simp add: lat_inv_def)
    have m2: "lat_map ?L2 = (lat_map L)(v := None)" using L1(2) by (auto simp: erase_map_def)
    have E2: "dependent_edges ((lat_map L)(v := None)) = ?E - {v} \<times> UNIV"
      by (auto simp: dependent_edges_def split: if_splits)
    have succ: "?E `` {v} = dependents p" using Some by (auto simp: dependent_edges_def)
    have step: "drop_loop (v # vs) L = drop_loop (vs @ iter_set (dependents p)) ?L2"
      using Some by (simp add: f L1(1))
    have "\<forall>w\<in>set (vs @ iter_set (dependents p)). id_ok w" using 2(4) p by auto
    note IH = 2(2) [unfolded f, OF Some refl, unfolded L1(1) snd_conv, OF inv2 this]
    have set2: "set (vs @ iter_set (dependents p)) = set vs \<union> ?E `` {v}" using p succ by simp
    have reach: "?E\<^sup>* `` set (v # vs) = insert v ((?E - {v} \<times> UNIV)\<^sup>* `` (set vs \<union> ?E `` {v}))"
      using reach_step [of ?E v "set vs"] by simp
    define R where "R = (?E - {v} \<times> UNIV)\<^sup>* `` (set vs \<union> ?E `` {v})"
    define L' where "L' = drop_loop (vs @ iter_set (dependents p)) ?L2"
    have L': "lat_inv elt L'" "lat_map L' = (\<lambda>i. if i \<in> R then None else ((lat_map L)(v := None)) i)"
      "elems (dropped_irobs L') = elems (dropped_irobs ?L2) \<union> {i \<in> dom ((lat_map L)(v := None)). i \<in> R}"
      "elems (past_irobs L') = elems (past_irobs ?L2) \<union> {i \<in> dom ((lat_map L)(v := None)). i \<in> R}"
      using IH unfolding m2 E2 set2 R_def [symmetric] L'_def [symmetric] by blast+
    show ?thesis
      unfolding step reach R_def [symmetric] L'_def [symmetric]
    proof (intro conjI)
      show "lat_inv elt L'" by (rule L'(1))
      show "lat_map L' = (\<lambda>i. if i \<in> insert v R then None else lat_map L i)" by (auto simp: L'(2))
      show "elems (dropped_irobs L') = elems (dropped_irobs L) \<union> {i \<in> dom (lat_map L). i \<in> insert v R}"
        using Some by (auto simp: L'(3) L1(5))
      show "elems (past_irobs L') = elems (past_irobs L) \<union> {i \<in> dom (lat_map L). i \<in> insert v R}"
        using Some by (auto simp: L'(4) L1(4))
    qed
  qed
qed

end

end
