(* ===== verification/Scheduling.thy ===== *)
theory Scheduling
  imports Ordered_Set Labels Timeops
begin

text \<open>
  irob_scheduling.h and irob_scheduling.cpp: the scheduling requests that pass between the threads of
  a multisocket, their order and the six sets of requests that the multisocket and each of its
  connections keep. A set is the list of its requests in iteration order.
\<close>

section \<open>Requests\<close>

record scheduling_data =
  sd_id :: irob_id_t
  chunks_ready :: bool
  resend_request :: "32 word"
  completion_time :: timeval
  data_check :: bool
  sd_labels :: u_long

definition no_time :: timeval where
  "no_time = tv (-1) 0"

text \<open>The constructors, by their second argument.\<close>

definition sched_default :: scheduling_data where
  "sched_default = \<lparr>sd_id = -1, chunks_ready = False, resend_request = 0,
     completion_time = no_time, data_check = False, sd_labels = 0\<rparr>"

definition sched_work :: "irob_id_t \<Rightarrow> bool \<Rightarrow> u_long \<Rightarrow> scheduling_data" where
  "sched_work i ready labels = \<lparr>sd_id = i, chunks_ready = ready, resend_request = 0,
     completion_time = no_time, data_check = False, sd_labels = labels\<rparr>"

definition sched_resend :: "irob_id_t \<Rightarrow> 32 word \<Rightarrow> u_long \<Rightarrow> scheduling_data" where
  "sched_resend i req labels = \<lparr>sd_id = i, chunks_ready = False, resend_request = req,
     completion_time = no_time, data_check = False, sd_labels = labels\<rparr>"

definition sched_ack :: "irob_id_t \<Rightarrow> timeval \<Rightarrow> u_long \<Rightarrow> scheduling_data" where
  "sched_ack i t labels = \<lparr>sd_id = i, chunks_ready = False, resend_request = 0,
     completion_time = t, data_check = False, sd_labels = labels\<rparr>"

definition is_fg :: "scheduling_data \<Rightarrow> bool" where
  "is_fg d \<longleftrightarrow> has_label (sd_labels d) CMM_LABEL_ONDEMAND"

text \<open>\<^verbatim>\<open>IROBSchedulingData::operator<\<close>.\<close>

definition sched_less :: "scheduling_data \<Rightarrow> scheduling_data \<Rightarrow> bool" where
  "sched_less a b =
     (if is_fg a \<and> \<not> is_fg b then True
      else if \<not> is_fg a \<and> is_fg b then False
      else timer_less (completion_time a) (completion_time b) \<or> sd_id a < sd_id b)"

section \<open>Priority sets\<close>

type_synonym task_set = "scheduling_data list"

definition pset_insert :: "task_set \<Rightarrow> scheduling_data \<Rightarrow> task_set" where
  "pset_insert tasks data = set_insert sched_less data tasks"

definition pset_pop :: "task_set \<Rightarrow> (scheduling_data \<times> task_set) option" where
  "pset_pop tasks = pop_item tasks"

definition pset_remove :: "task_set \<Rightarrow> irob_id_t \<Rightarrow> (scheduling_data \<times> task_set) option" where
  "pset_remove tasks i =
     (let dummy = sched_work i False 0
      in case set_find sched_less dummy tasks of
           Some d \<Rightarrow> Some (d, remove1 d tasks)
         | None \<Rightarrow> None)"

definition pset_insert_range :: "task_set \<Rightarrow> scheduling_data list \<Rightarrow> task_set" where
  "pset_insert_range tasks ds = fold (set_insert sched_less) ds tasks"

text \<open>\<^verbatim>\<open>transfer\<close> from one set to another; the pair is the two sets afterwards.\<close>

definition pset_transfer :: "irob_id_t \<Rightarrow> u_long \<Rightarrow> task_set \<Rightarrow> task_set \<Rightarrow> task_set \<times> task_set" where
  "pset_transfer i new_labels tasks other =
     (case pset_remove tasks i of
        Some (d, tasks') \<Rightarrow> (tasks', pset_insert other (d\<lparr>sd_labels := new_labels\<rparr>))
      | None \<Rightarrow> (tasks, other))"

section \<open>The six sets\<close>

record sched_indexes =
  new_irobs :: task_set
  new_chunks :: task_set
  finished_irobs :: task_set
  waiting_acks :: task_set
  resend_requests :: task_set
  waiting_data_checks :: task_set

datatype index_type =
  NEW_IROBS | NEW_CHUNKS | FINISHED_IROBS | WAITING_ACKS | RESEND_REQUESTS | WAITING_DATA_CHECKS

definition empty_indexes :: sched_indexes where
  "empty_indexes = \<lparr>new_irobs = [], new_chunks = [], finished_irobs = [], waiting_acks = [],
     resend_requests = [], waiting_data_checks = []\<rparr>"

fun indexes_insert :: "sched_indexes \<Rightarrow> scheduling_data \<Rightarrow> index_type \<Rightarrow> sched_indexes" where
  "indexes_insert ix d NEW_IROBS = ix\<lparr>new_irobs := pset_insert (new_irobs ix) d\<rparr>"
| "indexes_insert ix d NEW_CHUNKS = ix\<lparr>new_chunks := pset_insert (new_chunks ix) d\<rparr>"
| "indexes_insert ix d FINISHED_IROBS = ix\<lparr>finished_irobs := pset_insert (finished_irobs ix) d\<rparr>"
| "indexes_insert ix d WAITING_ACKS = ix\<lparr>waiting_acks := pset_insert (waiting_acks ix) d\<rparr>"
| "indexes_insert ix d RESEND_REQUESTS = ix\<lparr>resend_requests := pset_insert (resend_requests ix) d\<rparr>"
| "indexes_insert ix d WAITING_DATA_CHECKS =
     ix\<lparr>waiting_data_checks := pset_insert (waiting_data_checks ix) d\<rparr>"

definition indexes_add :: "sched_indexes \<Rightarrow> sched_indexes \<Rightarrow> sched_indexes" where
  "indexes_add ix other =
     \<lparr>new_irobs = pset_insert_range (new_irobs ix) (new_irobs other),
      new_chunks = pset_insert_range (new_chunks ix) (new_chunks other),
      finished_irobs = pset_insert_range (finished_irobs ix) (finished_irobs other),
      waiting_acks = pset_insert_range (waiting_acks ix) (waiting_acks other),
      resend_requests = pset_insert_range (resend_requests ix) (resend_requests other),
      waiting_data_checks = pset_insert_range (waiting_data_checks ix) (waiting_data_checks other)\<rparr>"

definition indexes_clear :: "sched_indexes \<Rightarrow> sched_indexes" where
  "indexes_clear ix = ix\<lparr>new_irobs := [], new_chunks := [], finished_irobs := [], waiting_acks := [],
     resend_requests := [], waiting_data_checks := []\<rparr>"

definition indexes_size :: "sched_indexes \<Rightarrow> nat" where
  "indexes_size ix = length (new_irobs ix) + length (new_chunks ix) + length (finished_irobs ix) +
     length (waiting_acks ix) + length (resend_requests ix) + length (waiting_data_checks ix)"

definition indexes_transfer ::
  "irob_id_t \<Rightarrow> u_long \<Rightarrow> sched_indexes \<Rightarrow> sched_indexes \<Rightarrow> sched_indexes \<times> sched_indexes" where
  "indexes_transfer i new_labels ix other =
     (let (ni, ni') = pset_transfer i new_labels (new_irobs ix) (new_irobs other);
          (nc, nc') = pset_transfer i new_labels (new_chunks ix) (new_chunks other)
      in (ix\<lparr>new_irobs := ni, new_chunks := nc\<rparr>, other\<lparr>new_irobs := ni', new_chunks := nc'\<rparr>))"

section \<open>The order of requests without a completion time\<close>

text \<open>Every request but an ACK carries the completion time \<open>no_time\<close>. Among these the order is:
  foreground first, then by id.\<close>

abbreviation plain :: "scheduling_data \<Rightarrow> bool" where
  "plain d \<equiv> completion_time d = no_time"

datatype rank_key = Rank bool int

instantiation rank_key :: linorder
begin

fun less_eq_rank_key :: "rank_key \<Rightarrow> rank_key \<Rightarrow> bool" where
  "less_eq_rank_key (Rank b i) (Rank c j) \<longleftrightarrow> (b \<and> \<not> c) \<or> (b = c \<and> i \<le> j)"

definition less_rank_key :: "rank_key \<Rightarrow> rank_key \<Rightarrow> bool" where
  "less_rank_key a b \<longleftrightarrow> a \<le> b \<and> \<not> b \<le> a"

instance
proof
  fix a b c :: rank_key
  show "a < b \<longleftrightarrow> a \<le> b \<and> \<not> b \<le> a" by (simp add: less_rank_key_def)
  show "a \<le> a" by (cases a) simp
  show "a \<le> b \<Longrightarrow> b \<le> c \<Longrightarrow> a \<le> c" by (cases a; cases b; cases c) auto
  show "a \<le> b \<Longrightarrow> b \<le> a \<Longrightarrow> a = b" by (cases a; cases b) auto
  show "a \<le> b \<or> b \<le> a" by (cases a; cases b) auto
qed

end

definition sched_key :: "scheduling_data \<Rightarrow> rank_key" where
  "sched_key d = Rank (is_fg d) (sd_id d)"

lemma less_Rank [simp]: "Rank b i < Rank c j \<longleftrightarrow> (b \<and> \<not> c) \<or> (b = c \<and> i < j)"
  by (auto simp: less_rank_key_def)

interpretation tasks: keyed_order sched_less sched_key plain
  by unfold_locales (auto simp: sched_less_def sched_key_def)

lemma ordered_insert_range:
  assumes "\<forall>d\<in>set ds. plain d"
  shows "tasks.ordered (pset_insert_range [] ds)"
    and "sched_key ` set (pset_insert_range [] ds) = sched_key ` set ds"
    and "set (pset_insert_range [] ds) \<subseteq> set ds"
proof -
  show "tasks.ordered (pset_insert_range [] ds)"
    unfolding pset_insert_range_def using assms by (intro tasks.ordered_fold_insert) simp_all
  show "sched_key ` set (pset_insert_range [] ds) = sched_key ` set ds"
    unfolding pset_insert_range_def using assms tasks.keys_fold_insert [of "[]" ds] by simp
  have "set (fold (set_insert sched_less) ds t) \<subseteq> set ds \<union> set t" for t
    using tasks.set_insert_subset by (induction ds arbitrary: t) fastforce+
  from this [of "[]"] show "set (pset_insert_range [] ds) \<subseteq> set ds"
    by (simp add: pset_insert_range_def)
qed

section \<open>Properties\<close>

text \<open>
  From a set filled with requests that carry no completion time, in any order and with
  duplicates, \<^verbatim>\<open>pop\<close> takes one of the requests put in; it takes a foreground request whenever there
  is one, and among the requests of its class the one with the smallest id; the rest holds exactly
  the other requests up to equivalence and is popped in the same order.
\<close>

theorem pop_foreground_first:
  assumes "\<forall>d\<in>set ds. plain d"
    and "pset_pop (pset_insert_range [] ds) = Some (d, rest)"
  shows "d \<in> set ds \<and> (\<forall>e\<in>set ds. is_fg e \<longrightarrow> is_fg d) \<and>
         (\<forall>e\<in>set ds. is_fg e = is_fg d \<longrightarrow> sd_id d \<le> sd_id e) \<and>
         sched_key ` set rest = sched_key ` set ds - {sched_key d} \<and>
         sorted_wrt (\<lambda>a b. sched_less a b \<and> \<not> sched_less b a) rest"
proof -
  let ?t = "pset_insert_range [] ds"
  note ord = ordered_insert_range [OF assms(1)]
  from tasks.pop_item_min [OF ord(1)] assms(2)
  have d: "d \<in> set ?t" "set rest = set ?t - {d}" "\<forall>z\<in>set rest. sched_key d < sched_key z"
    "tasks.ordered rest" by (simp_all add: pset_pop_def)
  have least: "sched_key d \<le> sched_key e" if "e \<in> set ds" for e
  proof -
    from that ord(2) obtain e' where "e' \<in> set ?t" "sched_key e' = sched_key e" by (metis imageE imageI)
    then show ?thesis using d(2,3) by (metis DiffI less_imp_le order_refl singletonD)
  qed
  have "(is_fg e \<longrightarrow> is_fg d) \<and> (is_fg e = is_fg d \<longrightarrow> sd_id d \<le> sd_id e)" if "e \<in> set ds" for e
    using least [OF that] by (auto simp: sched_key_def)
  moreover have "sched_key ` set rest = sched_key ` set ds - {sched_key d}"
  proof -
    have "set ?t = insert d (set rest)" using d(1,2) by blast
    then have "sched_key ` set ds = insert (sched_key d) (sched_key ` set rest)"
      using ord(2) by (simp only: image_insert [symmetric])
    moreover have "sched_key d \<notin> sched_key ` set rest" using d(3) by auto
    ultimately show ?thesis by simp
  qed
  moreover have "sorted_wrt (\<lambda>a b. sched_less a b \<and> \<not> sched_less b a) rest"
    using d(4) unfolding tasks.ordered_def
    by (auto elim!: sorted_wrt_mono_rel [rotated] simp: tasks.lt_key)
  ultimately show ?thesis using d(1) ord(3) by blast
qed

theorem pop_foreground_first_witness:
  "\<exists>d rest. pset_pop (pset_insert_range [] [sched_work 4 True 0, sched_work 7 True CMM_LABEL_ONDEMAND,
     sched_work 2 False 0]) = Some (d, rest) \<and> sd_id d = 7 \<and> is_fg d"
proof -
  let ?ds = "[sched_work 4 True 0, sched_work 7 True CMM_LABEL_ONDEMAND, sched_work 2 False 0]"
  have h: "\<forall>d\<in>set ?ds. plain d" by (simp add: sched_work_def)
  obtain d rest where p: "pset_pop (pset_insert_range [] ?ds) = Some (d, rest)"
    by (cases "pset_insert_range [] ?ds")
       (auto simp: pset_pop_def pop_item_def pset_insert_range_def sched_work_def sched_less_def
             split: if_splits)
  from pop_foreground_first [OF h p] have "d \<in> set ?ds" "is_fg d"
    by (auto simp: is_fg_def has_label_def sched_work_def CMM_LABEL_ONDEMAND_def)
  with p show ?thesis
    by (auto simp: is_fg_def has_label_def sched_work_def CMM_LABEL_ONDEMAND_def)
qed

text \<open>
  \<^verbatim>\<open>remove\<close> finds a request by its id exactly when a background request with that id is there:
  the dummy it searches with has no labels, so a foreground request is never found.
\<close>

theorem remove_finds_background_only:
  assumes "\<forall>d\<in>set ds. plain d"
  shows "(\<exists>d rest. pset_remove (pset_insert_range [] ds) i = Some (d, rest) \<and> d \<in> set ds) \<longleftrightarrow>
         (\<exists>d\<in>set ds. \<not> is_fg d \<and> sd_id d = i)"
proof -
  let ?t = "pset_insert_range [] ds" and ?dummy = "sched_work i False 0"
  note ord = ordered_insert_range [OF assms]
  have key: "sched_key ?dummy = Rank False i" "plain ?dummy"
    by (simp_all add: sched_key_def sched_work_def is_fg_def has_label_def)
  have sub: "set_find sched_less ?dummy ?t = Some d \<Longrightarrow> d \<in> set ds" for d
    using tasks.set_find_Some [OF ord(1) key(2)] ord(3) by blast
  have "(\<exists>d rest. pset_remove ?t i = Some (d, rest) \<and> d \<in> set ds) \<longleftrightarrow>
        set_find sched_less ?dummy ?t \<noteq> None"
    using sub by (auto simp: pset_remove_def Let_def split: option.splits)
  also have "\<dots> \<longleftrightarrow> Rank False i \<in> sched_key ` set ds"
    using tasks.set_find_None [OF ord(1) key(2)] by (simp add: ord(2) key)
  also have "\<dots> \<longleftrightarrow> (\<exists>d\<in>set ds. \<not> is_fg d \<and> sd_id d = i)"
    by (auto simp: sched_key_def image_iff)
  finally show ?thesis .
qed

theorem remove_finds_background_only_witness:
  "pset_remove (pset_insert_range [] [sched_work 7 True CMM_LABEL_ONDEMAND]) 7 = None \<and>
   pset_remove (pset_insert_range [] [sched_work 7 True 0]) 7 \<noteq> None"
proof -
  let ?fg = "[sched_work 7 True CMM_LABEL_ONDEMAND]" and ?bg = "[sched_work 7 True 0]"
  have h: "\<forall>d\<in>set ?fg. plain d" "\<forall>d\<in>set ?bg. plain d" by (simp_all add: sched_work_def)
  show ?thesis
    using remove_finds_background_only [OF h(1), of 7] remove_finds_background_only [OF h(2), of 7]
    by (simp add: pset_remove_def pset_insert_range_def sched_work_def is_fg_def has_label_def
        sched_less_def CMM_LABEL_ONDEMAND_def set_find_def Let_def no_time_def timer_less_def
        split: if_splits option.splits)
qed

text \<open>
  The order of requests is not a strict weak ordering once completion times differ: two requests
  of the same class are each less than the other exactly when the one that
  completed earlier has the larger id.
\<close>

theorem sched_less_both_ways:
  "(sched_less a b \<and> sched_less b a) \<longleftrightarrow>
   is_fg a = is_fg b \<and>
   (timer_less (completion_time a) (completion_time b) \<and> sd_id b < sd_id a \<or>
    timer_less (completion_time b) (completion_time a) \<and> sd_id a < sd_id b)"
proof -
  have "\<not> (timer_less s t \<and> timer_less t s)" for s t
    by (auto simp: timer_less_def)
  then show ?thesis by (auto simp: sched_less_def)
qed

end
