(* ===== verification/Receiver_IROB.thy ===== *)
theory Receiver_IROB
  imports Lattice_Inv Scheduling
begin

text \<open>
  pending_receiver_irob.h and pending_receiver_irob.cpp: an IROB at its receiver, the receiver's
  lattice with its set of IROBs that are ready for the application, and \<^verbatim>\<open>recv\<close>. The lattice
  and \<open>ready_irobs\<close> are protected by one lock, which \<^verbatim>\<open>recv\<close> holds except while it waits: a run of the
  model up to the outcome \<open>Waiting\<close> is what happens between two waits. \<open>PendingIROBPtr\<close>s to
  IROBs that stay in the lattice are their ids.
\<close>

section \<open>IROBs\<close>

record receiver_irob = pending_irob +
  rd_offset :: nat
  partial_chunk :: irob_chunk_data
  rnum_bytes :: int
  expected_bytes :: int
  expected_chunks :: int
  recvd_bytes :: int
  recvd_chunks :: int
  released :: bool

definition extend_receiver :: "pending_irob \<Rightarrow> nat \<Rightarrow> receiver_irob" where
  "extend_receiver p dlen =
     pending_irob.extend p
       (if dlen > 0
        then receiver_irob.fields 0 empty_chunk (int dlen) (int dlen) 1 (int dlen) 1 False
        else receiver_irob.fields 0 empty_chunk 0 (-1) (-1) 0 0 False)"

definition all_chunks_complete :: "receiver_irob \<Rightarrow> bool" where
  "all_chunks_complete p = list_all (\<lambda>c. data c \<noteq> None) (chunks p)"

definition is_complete :: "receiver_irob \<Rightarrow> bool result" where
  "is_complete p =
     ASSERT (recvd_bytes p \<le> expected_bytes p \<or> expected_bytes p = -1)
       (ASSERT (expected_chunks p = -1 \<or> recvd_chunks p \<le> expected_chunks p)
          (Inr (expected_bytes p = recvd_bytes p \<and> expected_chunks p = recvd_chunks p \<and>
                all_chunks_complete p \<and> complete p)))"

definition new_receiver_irob ::
  "irob_id_t \<Rightarrow> nat \<Rightarrow> int list option \<Rightarrow> nat \<Rightarrow> byte list option \<Rightarrow> u_long \<Rightarrow> receiver_irob result" where
  "new_receiver_irob i numdeps deps_array dlen dat labels =
     bindE (new_irob i numdeps deps_array dlen dat labels) (\<lambda>b.
       let p = extend_receiver b dlen
       in if dlen = 0 then Inr p else bindE (is_complete p) (\<lambda>c. ASSERT c (Inr p)))"

definition receiver_placeholder :: "irob_id_t \<Rightarrow> receiver_irob" where
  "receiver_placeholder i = extend_receiver (placeholder_irob i) 0"

text \<open>\<^verbatim>\<open>(u_long)expected_chunks\<close> of a negative \<^verbatim>\<open>int\<close> is a huge number.\<close>

definition as_ulong :: "int \<Rightarrow> int" where
  "as_ulong x = x mod 2 ^ 64"

definition receiver_add_chunk :: "irob_chunk_data \<Rightarrow> receiver_irob \<Rightarrow> (bool \<times> receiver_irob) result" where
  "receiver_add_chunk c p =
     bindE (is_complete p) (\<lambda>done.
       if done then Inr (False, p)
       else ASSERT (rnum_bytes p = recvd_bytes p)
         (if expected_chunks p \<noteq> -1 \<and> int (seqno c) \<ge> as_ulong (expected_chunks p) then Inr (False, p)
          else
            let p1 = (if seqno c \<ge> length (chunks p)
                      then p\<lparr>chunks := resize (seqno c + 1) empty_chunk (chunks p)\<rparr> else p);
                existing = chunks p1 ! seqno c
            in if data existing \<noteq> None
               then Inr (\<not> (ck_offset c \<noteq> ck_offset existing \<or> datalen c \<noteq> datalen existing), p1)
               else Inr (True, p1\<lparr>recvd_chunks := recvd_chunks p1 + 1,
                           chunks := (chunks p1)[seqno c := c],
                           rnum_bytes := rnum_bytes p1 + int (datalen c),
                           recvd_bytes := recvd_bytes p1 + int (datalen c)\<rparr>)))"

definition is_ready :: "receiver_irob \<Rightarrow> bool" where
  "is_ready p \<longleftrightarrow> \<not> placeholder p \<and> deps p = {}"

definition get_missing_chunks :: "receiver_irob \<Rightarrow> nat list" where
  "get_missing_chunks p =
     filter (\<lambda>i. data (chunks p ! i) = None) [0 ..< length (chunks p)] @
     (if expected_chunks p \<noteq> -1 \<and> as_ulong (expected_chunks p) > int (length (chunks p))
      then [length (chunks p) ..< nat (as_ulong (expected_chunks p))] else [])"

definition next_chunk_seqno :: "receiver_irob \<Rightarrow> int" where
  "next_chunk_seqno p = to_int (int (length (chunks p)))"

definition release_irob :: "receiver_irob \<Rightarrow> receiver_irob" where
  "release_irob p = p\<lparr>released := True\<rparr>"

definition seen_end :: "receiver_irob \<Rightarrow> bool" where
  "seen_end p \<longleftrightarrow> expected_bytes p \<noteq> -1"

definition receiver_finish :: "int \<Rightarrow> int \<Rightarrow> receiver_irob \<Rightarrow> (bool \<times> receiver_irob) result" where
  "receiver_finish ebytes nchunks p =
     bindE (is_complete p) (\<lambda>done.
       if done then Inr (False, p)
       else let p1 = p\<lparr>complete := True\<rparr>
            in if expected_bytes p1 = -1 \<or> expected_chunks p1 = -1
               then ASSERT (expected_bytes p1 = -1 \<and> expected_chunks p1 = -1)
                      (let p2 = p1\<lparr>expected_bytes := ebytes, expected_chunks := nchunks\<rparr>
                       in Inr (\<not> int (length (chunks p2)) > as_ulong (expected_chunks p2), p2))
               else ASSERT (expected_bytes p1 = ebytes \<and> expected_chunks p1 = nchunks) (Inr (False, p1)))"

definition receiver_subsume :: "receiver_irob \<Rightarrow> receiver_irob \<Rightarrow> receiver_irob result" where
  "receiver_subsume p other =
     bindE (base_subsume receiver_add_chunk p other) (\<lambda>p1.
       Inr (p1\<lparr>rd_offset := rd_offset other, partial_chunk := partial_chunk other,
               rnum_bytes := rnum_bytes other, expected_bytes := expected_bytes other,
               expected_chunks := expected_chunks other, recvd_bytes := recvd_bytes other,
               recvd_chunks := recvd_chunks other\<rparr>))"

section \<open>Reading\<close>

abbreviation chunk_bytes :: "irob_chunk_data \<Rightarrow> byte list" where
  "chunk_bytes c \<equiv> (case data c of Some d \<Rightarrow> d | None \<Rightarrow> [])"

fun copy_chunks :: "nat \<Rightarrow> irob_chunk_data list \<Rightarrow> byte list" where
  "copy_chunks len [] = []"
| "copy_chunks len (c # cs) =
     (if len > 0
      then let bytes = min len (datalen c) in take bytes (chunk_bytes c) @ copy_chunks (len - bytes) cs
      else [])"

text \<open>The bytes that \<^verbatim>\<open>read_data\<close> copies to the buffer; its result is their number.\<close>

definition read_data :: "nat \<Rightarrow> receiver_irob \<Rightarrow> byte list result" where
  "read_data len p =
     (case data (partial_chunk p) of
        Some d \<Rightarrow>
          let bytes = min len (datalen (partial_chunk p) - rd_offset p)
          in ASSERT (bytes > 0)
               (Inr (take bytes (drop (rd_offset p) d) @ copy_chunks (len - bytes) (chunks p)))
      | None \<Rightarrow> Inr (copy_chunks len (chunks p)))"

fun remove_loop :: "nat \<Rightarrow> nat \<Rightarrow> receiver_irob \<Rightarrow> irob_chunk_data list \<Rightarrow> nat \<times> receiver_irob" where
  "remove_loop len removed p [] = (removed, p\<lparr>chunks := []\<rparr>)"
| "remove_loop len removed p (c # cs) =
     (if len > 0
      then let bytes = min len (datalen c);
               p1 = (if datalen c > len then p\<lparr>rd_offset := bytes, partial_chunk := c\<rparr> else p)
           in remove_loop (len - bytes) (removed + bytes) p1 cs
      else (removed, p\<lparr>chunks := c # cs\<rparr>))"

definition remove_bytes :: "nat \<Rightarrow> receiver_irob \<Rightarrow> receiver_irob result" where
  "remove_bytes len p =
     (case data (partial_chunk p) of
        Some d \<Rightarrow>
          let bytes = min len (datalen (partial_chunk p) - rd_offset p)
          in ASSERT (bytes > 0)
               (let p1 = (if len \<ge> datalen (partial_chunk p) - rd_offset p
                          then p\<lparr>partial_chunk := (partial_chunk p)\<lparr>data := None, datalen := 0\<rparr>, rd_offset := 0\<rparr>
                          else p\<lparr>rd_offset := rd_offset p + bytes\<rparr>);
                    (removed, p2) = remove_loop (len - bytes) bytes p1 (chunks p1)
                in Inr (p2\<lparr>rnum_bytes := rnum_bytes p2 - int removed\<rparr>))
      | None \<Rightarrow>
          let (removed, p2) = remove_loop len 0 p (chunks p)
          in Inr (p2\<lparr>rnum_bytes := rnum_bytes p2 - int removed\<rparr>))"

section \<open>The receiver's lattice\<close>

record receiver_lattice =
  rl :: "receiver_irob lattice"
  ready_irobs :: task_set
  partially_read_irob :: "irob_id_t option"

definition new_receiver_lattice :: receiver_lattice where
  "new_receiver_lattice = \<lparr>rl = new_lattice, ready_irobs = [], partially_read_irob = None\<rparr>"

definition data_is_ready :: "receiver_lattice \<Rightarrow> bool" where
  "data_is_ready R \<longleftrightarrow> partially_read_irob R \<noteq> None \<or> ready_irobs R \<noteq> []"

text \<open>\<^verbatim>\<open>release\<close>; it also wakes the threads that wait for data.\<close>

definition release :: "irob_id_t \<Rightarrow> u_long \<Rightarrow> receiver_lattice \<Rightarrow> receiver_lattice" where
  "release i labels R = R\<lparr>ready_irobs := pset_insert (ready_irobs R) (sched_work i False labels)\<rparr>"

text \<open>The predicate \<^verbatim>\<open>ReadyIROB\<close>.\<close>

definition ReadyIROB :: "receiver_irob \<Rightarrow> bool result" where
  "ReadyIROB p = bindE (is_complete p) (\<lambda>c. Inr (c \<and> is_ready p \<and> \<not> released p))"

definition release_if_ready :: "irob_id_t \<Rightarrow> receiver_lattice \<Rightarrow> receiver_lattice result" where
  "release_if_ready i R =
     (case find_locked (rl R) i of
        None \<Rightarrow> Inr R
      | Some p \<Rightarrow> bindE (ReadyIROB p) (\<lambda>ready.
          if ready
          then Inr (release (pi_id p) (send_labels p) (R\<lparr>rl := lat_update i release_irob (rl R)\<rparr>))
          else Inr R))"

definition release_dependents :: "receiver_irob \<Rightarrow> receiver_lattice \<Rightarrow> receiver_lattice result" where
  "release_dependents p R = foldE release_if_ready (iter_set (dependents p)) R"

text \<open>
  What \<^verbatim>\<open>get_ready_irob\<close> and \<^verbatim>\<open>recv\<close> see of the socket: whether the peer has shut down and no
  connection is left, whether the socket is non-blocking, whether the read timeout has expired, and
  whether the socket is shutting down.
\<close>

record recv_env =
  peer_gone :: bool
  non_blocking :: bool
  timeout_expired :: bool
  shutting_down :: bool

text \<open>\<open>Null\<close> is the null pointer, \<open>Sentinel\<close> is \<^verbatim>\<open>empty_sentinel_irob\<close>, and \<open>Wait\<close> is the wait on
  the condition variable.\<close>

datatype ready_outcome = GotIrob irob_id_t | Null | Sentinel | Wait

fun pop_ready :: "receiver_irob lattice \<Rightarrow> task_set \<Rightarrow> irob_id_t option \<times> task_set" where
  "pop_ready L [] = (None, [])"
| "pop_ready L (d # ds) = (if find_locked L (sd_id d) = None then pop_ready L ds else (Some (sd_id d), ds))"

definition get_ready_irob ::
  "bool \<Rightarrow> recv_env \<Rightarrow> receiver_lattice \<Rightarrow> (ready_outcome \<times> receiver_lattice) result" where
  "get_ready_irob block_for_data env R =
     (case partially_read_irob R of
        Some i \<Rightarrow>
          (case find_locked (rl R) i of
             None \<Rightarrow> Inl OutOfBounds
           | Some p \<Rightarrow> bindE (is_complete p) (\<lambda>c. ASSERT c (Inr (GotIrob i, R\<lparr>partially_read_irob := None\<rparr>))))
      | None \<Rightarrow>
          (case pop_ready (rl R) (ready_irobs R) of
             (Some i, ds) \<Rightarrow> Inr (GotIrob i, R\<lparr>ready_irobs := ds\<rparr>)
           | (None, ds) \<Rightarrow>
               Inr (if peer_gone env then Null
                    else if \<not> block_for_data then Sentinel
                    else if non_blocking env then Sentinel
                    else if timeout_expired env then Sentinel
                    else Wait, R\<lparr>ready_irobs := ds\<rparr>)))"

text \<open>
  What \<^verbatim>\<open>recv\<close> does: it returns the bytes in the buffer and the labels of the first IROB,
  or \<^verbatim>\<open>-1\<close> with \<^verbatim>\<open>EWOULDBLOCK\<close>, or waits with some bytes already in the buffer.
\<close>

datatype recv_out = Received "byte list" "u_long option" | WouldBlock | Waiting "byte list" "u_long option"

record recv_flags =
  MSG_PEEK :: bool
  MSG_WAITALL :: bool

text \<open>One round of the loop with an IROB in hand: \<open>Inl\<close> continues, \<open>Inr\<close> leaves the loop.\<close>

definition consume_irob ::
  "recv_flags \<Rightarrow> irob_id_t \<Rightarrow> nat \<Rightarrow> byte list \<Rightarrow> u_long option \<Rightarrow> receiver_lattice \<Rightarrow>
   (bool \<times> byte list \<times> u_long option \<times> receiver_lattice) result" where
  "consume_irob flags i len buf labels R =
     (case find_locked (rl R) i of
        None \<Rightarrow> Inl OutOfBounds
      | Some p \<Rightarrow>
          ASSERT (rnum_bytes p \<noteq> 0)
           (ASSERT (is_ready p)
            (bindE (is_complete p) (\<lambda>c. ASSERT c
              (let labels' = (if buf = [] then Some (send_labels p) else labels)
               in bindE (read_data (len - length buf) p) (\<lambda>bytes.
                  bindE (if MSG_PEEK flags then Inr p else remove_bytes (length bytes) p) (\<lambda>p1.
                    let R1 = R\<lparr>rl := lat_update i (\<lambda>_. p1) (rl R)\<rparr>
                    in bindE (is_complete p1) (\<lambda>c1.
                         if c1 \<and> rnum_bytes p1 = 0
                         then let R2 = R1\<lparr>rl := snd (erase_locked i True (rl R1))\<rparr>
                              in bindE (release_dependents p1 R2) (\<lambda>R3.
                                   Inr (MSG_WAITALL flags, buf @ bytes, labels', R3))
                         else ASSERT (partially_read_irob R1 = None)
                                (Inr (True, buf @ bytes, labels', R1\<lparr>partially_read_irob := Some i\<rparr>))))))))))"

fun recv_loop ::
  "nat \<Rightarrow> recv_flags \<Rightarrow> recv_env \<Rightarrow> nat \<Rightarrow> byte list \<Rightarrow> u_long option \<Rightarrow> receiver_lattice \<Rightarrow>
   (recv_out \<times> receiver_lattice) option result" where
  "recv_loop 0 flags env len buf labels R = Inr None"
| "recv_loop (Suc fuel) flags env len buf labels R =
     (if length buf < len
      then bindE (get_ready_irob (buf = [] \<or> MSG_WAITALL flags) env R) (\<lambda>(outcome, R1).
             case outcome of
               Null \<Rightarrow> ASSERT (shutting_down env) (Inr (Some (Received buf labels, R1)))
             | Sentinel \<Rightarrow>
                 if buf = []
                 then ASSERT (non_blocking env \<or> timeout_expired env) (Inr (Some (WouldBlock, R1)))
                 else Inr (Some (Received buf labels, R1))
             | Wait \<Rightarrow> Inr (Some (Waiting buf labels, R1))
             | GotIrob i \<Rightarrow> bindE (consume_irob flags i len buf labels R1) (\<lambda>(more, buf', labels', R2).
                 if more then recv_loop fuel flags env len buf' labels' R2
                 else Inr (Some (Received buf' labels', R2))))
      else Inr (Some (Received buf labels, R)))"

text \<open>Every round adds a byte to the buffer, so that one round per byte and one more is enough.\<close>

definition recv :: "recv_flags \<Rightarrow> recv_env \<Rightarrow> nat \<Rightarrow> receiver_lattice \<Rightarrow> (recv_out \<times> receiver_lattice) option result" where
  "recv flags env len R = recv_loop (Suc len) flags env len [] None R"

end
