(* ===== verification/Sender_IROB.thy ===== *)
theory Sender_IROB
  imports Lattice_Inv
begin

text \<open>
  pending_sender_irob.h and pending_sender_irob.cpp: an IROB at its sender. The application's data is
  a sequence of chunks of any size; the sending threads cut it anew into numbered send-chunks, each
  thread with a cursor of its own when the IROB is sent on all networks. A connection
  (\<^verbatim>\<open>CSocket*\<close>) is a natural number, \<^verbatim>\<open>NULL\<close> is \<open>None\<close>, and an \<^verbatim>\<open>iovec\<close> is the list of the
  bytes it points to. Sizes and sequence numbers are natural numbers.
\<close>

section \<open>State\<close>

type_synonym csock_ref = nat

record sender_irob = pending_irob +
  resume_handler :: "nat option"
  rh_arg :: nat
  announcements :: "csock_ref option \<Rightarrow> bool option"
  end_announcements :: "csock_ref option \<Rightarrow> bool option"
  acked :: bool
  next_seqnos_to_send :: "csock_ref option \<Rightarrow> nat option"
  sent_chunks :: "irob_chunk_data list"
  resend_chunks :: "irob_chunk_data list"
  num_bytes :: nat
  irob_offsets :: "csock_ref option \<Rightarrow> nat option"
  send_on_all_networks :: bool
  sending_ifaces :: "(in_addr_t \<times> in_addr_t) set"
  reevaluated :: bool
  reeval_handle :: "nat option"
  last_send_time :: timeval

definition extend_sender :: "pending_irob \<Rightarrow> nat \<Rightarrow> nat option \<Rightarrow> nat \<Rightarrow> timeval \<Rightarrow> sender_irob" where
  "extend_sender p dlen rh arg now =
     pending_irob.extend p
       (sender_irob.fields rh arg Map.empty Map.empty False Map.empty [] [] dlen Map.empty
          False {} False None now)"

definition new_sender_irob ::
  "irob_id_t \<Rightarrow> nat \<Rightarrow> int list option \<Rightarrow> nat \<Rightarrow> byte list option \<Rightarrow> u_long \<Rightarrow> nat option \<Rightarrow> nat \<Rightarrow>
   timeval \<Rightarrow> sender_irob result" where
  "new_sender_irob i numdeps deps_array dlen dat labels rh arg now =
     bindE (new_irob i numdeps deps_array dlen dat labels)
       (\<lambda>p. Inr (extend_sender p dlen rh arg now))"

text \<open>The outgoing lattice is a plain \<^verbatim>\<open>PendingIROBLattice\<close>: its placeholders are
  \<^verbatim>\<open>PendingIROB\<close>s, on which a cast to \<^verbatim>\<open>PendingSenderIROB\<close> fails; their further fields are unused.\<close>

definition sender_placeholder :: "irob_id_t \<Rightarrow> sender_irob" where
  "sender_placeholder i = extend_sender (placeholder_irob i) 0 None 0 (tv 0 0)"

section \<open>Operations\<close>

definition sender_add_chunk :: "irob_chunk_data \<Rightarrow> sender_irob \<Rightarrow> bool \<times> sender_irob" where
  "sender_add_chunk c p =
     (if complete p then (False, p)
      else (True, p\<lparr>num_bytes := num_bytes p + datalen c,
                    chunks := chunks p @ [c\<lparr>seqno := length (chunks p), ck_offset := num_bytes p\<rparr>]\<rparr>))"

definition sender_subsume :: "sender_irob \<Rightarrow> sender_irob \<Rightarrow> sender_irob result" where
  "sender_subsume = base_subsume (\<lambda>c p. Inr (sender_add_chunk c p))"

text \<open>\<^verbatim>\<open>freeReevaluation\<close>: the handle is given back to the library that issued it.\<close>

definition freeReevaluation :: "sender_irob \<Rightarrow> sender_irob" where
  "freeReevaluation p = p\<lparr>reeval_handle := None\<rparr>"

definition sender_ack :: "sender_irob \<Rightarrow> sender_irob" where
  "sender_ack p = freeReevaluation (p\<lparr>acked := True\<rparr>)"

definition onReevaluationDone :: "sender_irob \<Rightarrow> sender_irob" where
  "onReevaluationDone p = freeReevaluation p"

definition setScheduledReevaluation :: "nat option \<Rightarrow> sender_irob \<Rightarrow> sender_irob" where
  "setScheduledReevaluation reeval p = p\<lparr>reevaluated := True, reeval_handle := reeval\<rparr>"

definition expected_bytes_sender :: "sender_irob \<Rightarrow> nat" where
  "expected_bytes_sender p = sum_datalen (chunks p)"

definition all_bytes_chunked :: "sender_irob \<Rightarrow> bool" where
  "all_bytes_chunked p \<longleftrightarrow> sum_datalen (sent_chunks p) = expected_bytes_sender p"

definition num_sender_chunks :: "sender_irob \<Rightarrow> nat" where
  "num_sender_chunks p = length (sent_chunks p)"

text \<open>\<^verbatim>\<open>find_app_chunk\<close>: the position it returns; \<^verbatim>\<open>upper_bound\<close> is the first chunk that begins after
  \<open>offset\<close>. On a list that begins after \<open>offset\<close> the source reads before the first chunk.\<close>

definition find_app_chunk :: "irob_chunk_data list \<Rightarrow> nat \<Rightarrow> nat result" where
  "find_app_chunk cs offset =
     (let it = length (takeWhile (\<lambda>c. ck_offset c \<le> offset) cs)
      in if cs = [] then Inr it
         else if it = 0 then Inl OutOfBounds
         else let target = cs ! (it - 1)
              in if ck_offset target \<le> offset \<and> offset < ck_offset target + datalen target
                 then Inr (it - 1) else Inr it)"

text \<open>The gathering loop; \<open>cur\<close> is \<^verbatim>\<open>cur_chunk_offset\<close> and \<open>got\<close> is \<^verbatim>\<open>bytes_gathered\<close>.\<close>

fun gather :: "irob_chunk_data list \<Rightarrow> nat \<Rightarrow> int \<Rightarrow> int \<Rightarrow> byte list list \<times> int" where
  "gather [] cur got len = ([], got)"
| "gather (c # cs) cur got len =
     (if got < len
      then let bytes0 = int (datalen c) - int cur;
               bytes = (if bytes0 + got > len then len - got else bytes0);
               (bufs, got') = gather cs 0 (got + bytes) len
           in (take (nat bytes) (drop cur (case data c of Some d \<Rightarrow> d | None \<Rightarrow> [])) # bufs, got')
      else ([], got))"

definition get_bytes_internal :: "nat \<Rightarrow> int \<Rightarrow> sender_irob \<Rightarrow> (byte list list \<times> int) result" where
  "get_bytes_internal offset len p =
     bindE (find_app_chunk (chunks p) offset) (\<lambda>it.
       if it = length (chunks p) then Inr ([], 0)
       else bindE (find_app_chunk (sent_chunks p) offset) (\<lambda>sent_it.
         if sent_it \<noteq> length (sent_chunks p)
         then ASSERT (offset = ck_offset (sent_chunks p ! sent_it))
                (Inr (gather (drop it (chunks p)) (offset - ck_offset (chunks p ! it)) 0
                        (int (datalen (sent_chunks p ! sent_it)))))
         else Inr (gather (drop it (chunks p)) (offset - ck_offset (chunks p ! it)) 0 len)))"

definition null_index_if_single_sending :: "csock_ref \<Rightarrow> sender_irob \<Rightarrow> csock_ref option" where
  "null_index_if_single_sending csock p = (if \<not> send_on_all_networks p then None else Some csock)"

definition get_irob_offset :: "csock_ref \<Rightarrow> sender_irob \<Rightarrow> nat \<times> sender_irob" where
  "get_irob_offset csock p =
     (let k = null_index_if_single_sending csock p;
          p' = (if irob_offsets p k = None then p\<lparr>irob_offsets := (irob_offsets p)(k \<mapsto> 0)\<rparr> else p)
      in (the (irob_offsets p' k), p'))"

definition increment_irob_offset :: "csock_ref \<Rightarrow> nat \<Rightarrow> sender_irob \<Rightarrow> sender_irob" where
  "increment_irob_offset csock inc p =
     (let k = null_index_if_single_sending csock p;
          p' = (if irob_offsets p k = None then p\<lparr>irob_offsets := (irob_offsets p)(k \<mapsto> 0)\<rparr> else p)
      in p'\<lparr>irob_offsets := (irob_offsets p')(k \<mapsto> the (irob_offsets p' k) + inc)\<rparr>)"

definition get_next_seqno_to_send :: "csock_ref \<Rightarrow> sender_irob \<Rightarrow> (nat \<times> sender_irob) result" where
  "get_next_seqno_to_send csock p =
     (let k = null_index_if_single_sending csock p;
          p' = (if next_seqnos_to_send p k = None
                then p\<lparr>next_seqnos_to_send := (next_seqnos_to_send p)(k \<mapsto> 0)\<rparr> else p);
          sq = the (next_seqnos_to_send p' k)
      in ASSERT (sq \<le> length (sent_chunks p')) (Inr (sq, p')))"

definition increment_seqno :: "csock_ref \<Rightarrow> sender_irob \<Rightarrow> sender_irob" where
  "increment_seqno csock p =
     (let k = null_index_if_single_sending csock p;
          p' = (if next_seqnos_to_send p k = None
                then p\<lparr>next_seqnos_to_send := (next_seqnos_to_send p)(k \<mapsto> 0)\<rparr> else p)
      in p'\<lparr>next_seqnos_to_send := (next_seqnos_to_send p')(k \<mapsto> the (next_seqnos_to_send p' k) + 1)\<rparr>)"

definition add_sent_chunk :: "csock_ref \<Rightarrow> int \<Rightarrow> timeval \<Rightarrow> sender_irob \<Rightarrow> sender_irob result" where
  "add_sent_chunk csock len now p =
     bindE (get_next_seqno_to_send csock p) (\<lambda>(sq, p1).
       let p2 = increment_seqno csock p1;
           (off, p3) = get_irob_offset csock p2;
           p4 = increment_irob_offset csock (nat len) p3
       in ASSERT (sq \<le> length (sent_chunks p4))
            (if sq = length (sent_chunks p4)
             then Inr (p4\<lparr>sent_chunks := sent_chunks p4 @
                    [\<lparr>ck_id = pi_id p4, seqno = sq, ck_offset = off, datalen = nat len, data = None\<rparr>],
                    last_send_time := now\<rparr>)
             else ASSERT (ck_offset (sent_chunks p4 ! sq) = off)
                    (ASSERT (int (datalen (sent_chunks p4 ! sq)) = len)
                      (Inr (p4\<lparr>last_send_time := now\<rparr>)))))"

text \<open>\<^verbatim>\<open>get_ready_bytes\<close>: the gathered buffers, then the values of its three reference arguments
  \<^verbatim>\<open>bytes_requested\<close>, \<^verbatim>\<open>seqno\<close> and \<^verbatim>\<open>offset\<close>, and the IROB afterwards.\<close>

definition get_ready_bytes ::
  "csock_ref \<Rightarrow> int \<Rightarrow> timeval \<Rightarrow> sender_irob \<Rightarrow> (byte list list \<times> int \<times> nat \<times> nat \<times> sender_irob) result" where
  "get_ready_bytes csock bytes_requested now p =
     (let (off0, p0) = get_irob_offset csock p;
          req = (if bytes_requested \<le> 0 then int (num_bytes p0) - int off0 else bytes_requested)
      in case resend_chunks p0 of
           chunk # rest \<Rightarrow>
             (let p1 = p0\<lparr>resend_chunks := rest\<rparr>
              in bindE (get_bytes_internal (ck_offset chunk) (int (datalen chunk)) p1) (\<lambda>(dat, len).
                   ASSERT (len = int (datalen chunk)) (Inr (dat, len, seqno chunk, ck_offset chunk, p1))))
         | [] \<Rightarrow>
             bindE (get_next_seqno_to_send csock p0) (\<lambda>(sq, p1).
               let (off, p2) = get_irob_offset csock p1
               in bindE (get_bytes_internal off req p2) (\<lambda>(dat, len).
                    if len = 0 then Inr (dat, 0, sq, off, p2)
                    else bindE (add_sent_chunk csock len now p2) (\<lambda>p3. Inr (dat, len, sq, off, p3)))))"

definition num_ready_bytes :: "csock_ref \<Rightarrow> sender_irob \<Rightarrow> nat \<times> sender_irob" where
  "num_ready_bytes csock p =
     (let (off, p') = get_irob_offset csock p in (expected_bytes_sender p' - off, p'))"

text \<open>The chunk that \<^verbatim>\<open>get_last_sent_chunk_htonl\<close> fills in is \<open>(id, seqno, offset, datalen)\<close> in network order.\<close>

definition get_last_sent_chunk_htonl ::
  "csock_ref \<Rightarrow> sender_irob \<Rightarrow> (((int \<times> int \<times> int \<times> int) option \<times> byte list list) \<times> sender_irob) result" where
  "get_last_sent_chunk_htonl csock p =
     bindE (get_next_seqno_to_send csock p) (\<lambda>(sq, p1).
       if sent_chunks p1 = [] \<or> sq = 0 then Inr ((None, []), p1)
       else let c = sent_chunks p1 ! (sq - 1)
            in bindE (get_bytes_internal (ck_offset c) (int (datalen c)) p1) (\<lambda>(dat, _).
                 Inr ((Some (htonl (ck_id c), htonl (int (seqno c)), htonl (int (ck_offset c)),
                             htonl (int (datalen c))), dat), p1)))"

definition mark_not_received :: "nat \<Rightarrow> sender_irob \<Rightarrow> sender_irob result" where
  "mark_not_received sq p =
     (if sq > length (sent_chunks p) then Inr p
      else if sq = length (sent_chunks p) then Inl OutOfBounds
      else Inr (p\<lparr>resend_chunks := set_insert chunk_less (sent_chunks p ! sq) (resend_chunks p)\<rparr>))"

text \<open>The loop of \<^verbatim>\<open>mark_drop_point\<close> starts at \<open>next_chunk\<close>; a negative start is converted to a huge
  sequence number, which \<^verbatim>\<open>mark_not_received\<close> ignores.\<close>

definition mark_drop_point :: "int \<Rightarrow> sender_irob \<Rightarrow> sender_irob result" where
  "mark_drop_point next_chunk p =
     foldE mark_not_received [nat (max 0 next_chunk) ..< length (sent_chunks p)] p"

definition markSentOn :: "in_addr_t \<Rightarrow> in_addr_t \<Rightarrow> sender_irob \<Rightarrow> sender_irob" where
  "markSentOn local_ip remote_ip p = p\<lparr>sending_ifaces := insert (local_ip, remote_ip) (sending_ifaces p)\<rparr>"

definition ip_matches :: "in_addr_t \<Rightarrow> in_addr_t \<Rightarrow> bool" where
  "ip_matches expected actual \<longleftrightarrow> expected = 0 \<or> expected = actual"

definition wasSentOn :: "in_addr_t \<Rightarrow> in_addr_t \<Rightarrow> sender_irob \<Rightarrow> bool" where
  "wasSentOn local_ip remote_ip p =
     (if local_ip = 0 \<and> remote_ip = 0 then True
      else \<exists>(l, r)\<in>sending_ifaces p. ip_matches local_ip l \<and> ip_matches remote_ip r)"

definition was_announced :: "csock_ref \<Rightarrow> sender_irob \<Rightarrow> bool" where
  "was_announced csock p =
     (case announcements p (null_index_if_single_sending csock p) of Some b \<Rightarrow> b | None \<Rightarrow> False)"

definition end_was_announced :: "csock_ref \<Rightarrow> sender_irob \<Rightarrow> bool" where
  "end_was_announced csock p =
     (case end_announcements p (null_index_if_single_sending csock p) of Some b \<Rightarrow> b | None \<Rightarrow> False)"

definition mark_announcement_sent :: "csock_ref \<Rightarrow> sender_irob \<Rightarrow> sender_irob" where
  "mark_announcement_sent csock p =
     p\<lparr>announcements := (announcements p)(null_index_if_single_sending csock p \<mapsto> True)\<rparr>"

definition mark_end_announcement_sent :: "csock_ref \<Rightarrow> sender_irob \<Rightarrow> sender_irob" where
  "mark_end_announcement_sent csock p =
     p\<lparr>end_announcements := (end_announcements p)(null_index_if_single_sending csock p \<mapsto> True)\<rparr>"

definition mark_send_on_all_networks :: "sender_irob \<Rightarrow> sender_irob" where
  "mark_send_on_all_networks p = p\<lparr>send_on_all_networks := True\<rparr>"

definition sizeof_hdr :: nat where "sizeof_hdr = 64"
definition sizeof_irob_id :: nat where "sizeof_irob_id = 8"

definition get_total_network_bytes :: "sender_irob \<Rightarrow> nat" where
  "get_total_network_bytes p =
     fold (\<lambda>c bytes. bytes + (datalen c + sizeof_hdr)) (sent_chunks p)
       (sizeof_hdr * 2 + card (deps p) * sizeof_irob_id)"

end
