(* ===== verification/Network_Chooser.thy ===== *)
theory Network_Chooser
  imports Labels
begin

text \<open>
  network_chooser.cpp, network_chooser_impl.cpp and the redundancy strategies: which pair of
  interfaces data with given labels goes to. The chooser for INTNW_REDUNDANT, which rests on an
  external library, is in \<open>Instruments_Chooser\<close>. A chooser is used by one thread at a time, under the lock that
  \<^verbatim>\<open>NetworkChooserGuard\<close> holds from construction to destruction.
\<close>

type_synonym iface_pair = "net_interface \<times> net_interface"

section \<open>Cached estimates\<close>

text \<open>
  What \<^verbatim>\<open>NetStats::get_estimate\<close> finds in the cache of network statistics: per pair of addresses, the
  value that each \<^verbatim>\<open>FlipFlopEstimate\<close> returns, or nothing when it has no history.
\<close>

record cached_estimates =
  est_latency :: "u_long option"
  est_bw_up :: "u_long option"
  est_bw_down :: "u_long option"

type_synonym stats_cache = "in_addr_t \<times> in_addr_t \<Rightarrow> cached_estimates option"

fun estimate_of :: "cached_estimates \<Rightarrow> nat \<Rightarrow> u_long option" where
  "estimate_of e t = (if t = 0 then est_latency e else if t = 1 then est_bw_up e else est_bw_down e)"

definition NUM_ESTIMATES :: nat where "NUM_ESTIMATES = 3"
definition NET_STATS_LATENCY :: nat where "NET_STATS_LATENCY = 0"
definition NET_STATS_BW_UP :: nat where "NET_STATS_BW_UP = 1"
definition NET_STATS_BW_DOWN :: nat where "NET_STATS_BW_DOWN = 2"

definition get_estimate :: "stats_cache \<Rightarrow> net_interface \<Rightarrow> net_interface \<Rightarrow> nat \<Rightarrow> u_long option" where
  "get_estimate cache local_iface remote_iface t =
     (if t \<ge> NUM_ESTIMATES then None
      else case cache (ip_addr local_iface, ip_addr remote_iface) of
             Some e \<Rightarrow> estimate_of e t
           | None \<Rightarrow> None)"

section \<open>Redundancy strategies\<close>

definition INTNW_NEVER_REDUNDANT :: int where "INTNW_NEVER_REDUNDANT = 0"
definition ALWAYS_REDUNDANT :: int where "ALWAYS_REDUNDANT = 1"
definition INTNW_REDUNDANT :: int where "INTNW_REDUNDANT = 2"
definition CELLULAR_ONLY :: int where "CELLULAR_ONLY = 3"
definition WIFI_PREFERRED :: int where "WIFI_PREFERRED = 4"
definition NUM_REDUNDANCY_STRATEGY_TYPES :: int where "NUM_REDUNDANCY_STRATEGY_TYPES = 5"

lemmas strategy_defs = INTNW_NEVER_REDUNDANT_def ALWAYS_REDUNDANT_def INTNW_REDUNDANT_def
  CELLULAR_ONLY_def WIFI_PREFERRED_def NUM_REDUNDANCY_STRATEGY_TYPES_def

definition strategy_types :: "string list" where
  "strategy_types = [''intnw_never_redundant'', ''always_redundant'', ''intnw_redundant'',
     ''cellular_only'', ''wifi_preferred'']"

definition describe_type :: "int \<Rightarrow> string result" where
  "describe_type t =
     ASSERT (INTNW_NEVER_REDUNDANT \<le> t \<and> t < NUM_REDUNDANCY_STRATEGY_TYPES) (Inr (strategy_types ! nat t))"

definition to_lower :: "char \<Rightarrow> char" where
  "to_lower c = (let n = of_char c :: nat in if 65 \<le> n \<and> n \<le> 90 then char_of (n + 32) else c)"

fun find_type :: "string \<Rightarrow> int \<Rightarrow> string list \<Rightarrow> int" where
  "find_type name i [] = -1"
| "find_type name i (t # ts) =
     (if map to_lower name = map to_lower t then i else find_type name (i + 1) ts)"

definition get_type :: "string \<Rightarrow> int" where
  "get_type name = find_type name INTNW_NEVER_REDUNDANT strategy_types"

datatype redundancy_strategy = NeverRedundant | AlwaysRedundant

definition create_strategy :: "int \<Rightarrow> redundancy_strategy result" where
  "create_strategy t =
     (if t = INTNW_NEVER_REDUNDANT \<or> t = CELLULAR_ONLY \<or> t = WIFI_PREFERRED then Inr NeverRedundant
      else if t = ALWAYS_REDUNDANT then Inr AlwaysRedundant
      else Inl AssertFailed)"

fun strategy_redundant :: "redundancy_strategy \<Rightarrow> bool" where
  "strategy_redundant AlwaysRedundant = True"
| "strategy_redundant NeverRedundant = False"

section \<open>PreferredNetwork\<close>

record preferred_network =
  pn_has_match :: bool
  preferred_type :: "32 word"
  pn_pair :: iface_pair

definition pn_consider :: "iface_pair \<Rightarrow> preferred_network \<Rightarrow> preferred_network" where
  "pn_consider p s =
     (if \<not> pn_has_match s \<or> matches_type (preferred_type s) (fst p) (snd p)
      then s\<lparr>pn_has_match := True, pn_pair := p\<rparr> else s)"

definition pn_choose_networks :: "u_long \<Rightarrow> preferred_network \<Rightarrow> iface_pair option" where
  "pn_choose_networks send_label s = (if \<not> pn_has_match s then None else Some (pn_pair s))"

section \<open>LabelMatcher\<close>

record label_matcher =
  lm_has_match :: bool
  max_bw :: u_long
  min_RTT :: u_long
  has_wifi_match :: bool
  has_threeg_match :: bool
  max_bw_iface_pair :: iface_pair
  min_RTT_iface_pair :: iface_pair
  wifi_pair :: iface_pair
  threeg_pair :: iface_pair

definition ULONG_MAX :: u_long where "ULONG_MAX = 2 ^ 64 - 1"

text \<open>\<^verbatim>\<open>reset\<close> leaves the four pairs as they are.\<close>

definition lm_reset :: "label_matcher \<Rightarrow> label_matcher" where
  "lm_reset s = s\<lparr>max_bw := 0, min_RTT := ULONG_MAX, lm_has_match := False, has_wifi_match := False,
     has_threeg_match := False\<rparr>"

text \<open>The two estimates at the beginning of \<^verbatim>\<open>consider\<close>.\<close>

definition observed_bw :: "stats_cache \<Rightarrow> iface_pair \<Rightarrow> u_long" where
  "observed_bw cache p =
     (if iface_bandwidth (fst p) (snd p) = 0 then 0
      else case get_estimate cache (fst p) (snd p) NET_STATS_BW_UP of
             Some bw \<Rightarrow> bw
           | None \<Rightarrow> iface_bandwidth (fst p) (snd p))"

definition observed_RTT :: "stats_cache \<Rightarrow> iface_pair \<Rightarrow> u_long" where
  "observed_RTT cache p =
     (case get_estimate cache (fst p) (snd p) NET_STATS_LATENCY of
        Some latency \<Rightarrow> latency * 2
      | None \<Rightarrow> iface_RTT (fst p) (snd p))"

definition lm_consider :: "stats_cache \<Rightarrow> iface_pair \<Rightarrow> label_matcher \<Rightarrow> label_matcher" where
  "lm_consider cache p s =
     (let bw = observed_bw cache p;
          rtt = observed_RTT cache p;
          s1 = (if bw > max_bw s then s\<lparr>max_bw := bw, max_bw_iface_pair := p\<rparr> else s);
          s2 = (if rtt < min_RTT s1 then s1\<lparr>min_RTT := rtt, min_RTT_iface_pair := p\<rparr> else s1);
          s3 = s2\<lparr>lm_has_match := True\<rparr>;
          s4 = (if matches_type NET_TYPE_WIFI (fst p) (snd p)
                then s3\<lparr>wifi_pair := p, has_wifi_match := True\<rparr> else s3)
      in if matches_type NET_TYPE_THREEG (fst p) (snd p)
         then s4\<lparr>threeg_pair := p, has_threeg_match := True\<rparr> else s4)"

definition lm_choose_networks :: "u_long \<Rightarrow> label_matcher \<Rightarrow> iface_pair option" where
  "lm_choose_networks send_label s =
     (if \<not> lm_has_match s then None
      else if has_label send_label CMM_LABEL_WIFI_ONLY
      then if \<not> has_wifi_match s
           then if fallback_allowed send_label \<and> has_threeg_match s then Some (threeg_pair s) else None
           else Some (wifi_pair s)
      else if has_label send_label CMM_LABEL_THREEG_ONLY
      then if \<not> has_threeg_match s
           then if fallback_allowed send_label \<and> has_wifi_match s then Some (wifi_pair s) else None
           else Some (threeg_pair s)
      else if has_label send_label CMM_LABEL_SMALL \<and> min_RTT s < ULONG_MAX then Some (min_RTT_iface_pair s)
      else if has_label send_label CMM_LABEL_LARGE then Some (max_bw_iface_pair s)
      else if has_label send_label CMM_LABEL_ONDEMAND \<or>
              \<not> has_label send_label (CMM_LABEL_ONDEMAND OR CMM_LABEL_BACKGROUND)
      then Some (min_RTT_iface_pair s)
      else Some (max_bw_iface_pair s))"

section \<open>The choosers\<close>

datatype chooser =
    PreferredNetwork preferred_network
  | LabelMatcher label_matcher
  | AlwaysRedundantChooser preferred_network

text \<open>A chooser with its redundancy strategy.\<close>

record network_chooser =
  impl :: chooser
  redundancyStrategy :: redundancy_strategy

fun impl_reset :: "chooser \<Rightarrow> chooser" where
  "impl_reset (PreferredNetwork s) = PreferredNetwork (s\<lparr>pn_has_match := False\<rparr>)"
| "impl_reset (AlwaysRedundantChooser s) = AlwaysRedundantChooser (s\<lparr>pn_has_match := False\<rparr>)"
| "impl_reset (LabelMatcher s) = LabelMatcher (lm_reset s)"

fun impl_consider :: "stats_cache \<Rightarrow> iface_pair \<Rightarrow> chooser \<Rightarrow> chooser" where
  "impl_consider cache p (PreferredNetwork s) = PreferredNetwork (pn_consider p s)"
| "impl_consider cache p (AlwaysRedundantChooser s) = AlwaysRedundantChooser (pn_consider p s)"
| "impl_consider cache p (LabelMatcher s) = LabelMatcher (lm_consider cache p s)"

fun impl_choose_networks :: "u_long \<Rightarrow> chooser \<Rightarrow> iface_pair option" where
  "impl_choose_networks send_label (PreferredNetwork s) = pn_choose_networks send_label s"
| "impl_choose_networks send_label (AlwaysRedundantChooser s) = pn_choose_networks send_label s"
| "impl_choose_networks send_label (LabelMatcher s) = lm_choose_networks send_label s"

definition chooser_reset :: "network_chooser \<Rightarrow> network_chooser" where
  "chooser_reset ch = ch\<lparr>impl := impl_reset (impl ch)\<rparr>"

definition chooser_consider :: "stats_cache \<Rightarrow> iface_pair \<Rightarrow> network_chooser \<Rightarrow> network_chooser" where
  "chooser_consider cache p ch = ch\<lparr>impl := impl_consider cache p (impl ch)\<rparr>"

definition choose_networks :: "u_long \<Rightarrow> network_chooser \<Rightarrow> iface_pair option" where
  "choose_networks send_label ch = impl_choose_networks send_label (impl ch)"

definition shouldTransmitRedundantly :: "network_chooser \<Rightarrow> bool" where
  "shouldTransmitRedundantly ch = strategy_redundant (redundancyStrategy ch)"

text \<open>Fresh objects. The pairs of a \<^verbatim>\<open>LabelMatcher\<close> are value-initialised; those of a
  \<^verbatim>\<open>PreferredNetwork\<close> are not, but they are not read before they are written.\<close>

definition zero_iface :: net_interface where
  "zero_iface = \<lparr>ip_addr = 0, bandwidth_down = 0, bandwidth_up = 0, RTT = 0, type = 0\<rparr>"

definition new_preferred :: "32 word \<Rightarrow> preferred_network" where
  "new_preferred t = \<lparr>pn_has_match = False, preferred_type = t, pn_pair = (zero_iface, zero_iface)\<rparr>"

definition new_label_matcher :: label_matcher where
  "new_label_matcher = \<lparr>lm_has_match = False, max_bw = 0, min_RTT = ULONG_MAX, has_wifi_match = False,
     has_threeg_match = False, max_bw_iface_pair = (zero_iface, zero_iface),
     min_RTT_iface_pair = (zero_iface, zero_iface), wifi_pair = (zero_iface, zero_iface),
     threeg_pair = (zero_iface, zero_iface)\<rparr>"

text \<open>\<^verbatim>\<open>NetworkChooser::create\<close> with \<^verbatim>\<open>setRedundancyStrategy\<close>; \<open>None\<close> stands for the chooser of the
  instruments library.\<close>

definition create_chooser :: "int \<Rightarrow> network_chooser option result" where
  "create_chooser t =
     (if t = CELLULAR_ONLY
      then bindE (create_strategy INTNW_NEVER_REDUNDANT) (\<lambda>r.
             Inr (Some \<lparr>impl = PreferredNetwork (new_preferred NET_TYPE_THREEG), redundancyStrategy = r\<rparr>))
      else if t = WIFI_PREFERRED
      then bindE (create_strategy INTNW_NEVER_REDUNDANT) (\<lambda>r.
             Inr (Some \<lparr>impl = PreferredNetwork (new_preferred NET_TYPE_WIFI), redundancyStrategy = r\<rparr>))
      else if t = INTNW_NEVER_REDUNDANT
      then bindE (create_strategy INTNW_NEVER_REDUNDANT) (\<lambda>r.
             Inr (Some \<lparr>impl = LabelMatcher (lm_reset new_label_matcher), redundancyStrategy = r\<rparr>))
      else if t = INTNW_REDUNDANT then Inr None
      else if t = ALWAYS_REDUNDANT
      then bindE (create_strategy ALWAYS_REDUNDANT) (\<lambda>r.
             Inr (Some \<lparr>impl = AlwaysRedundantChooser (new_preferred NET_TYPE_WIFI), redundancyStrategy = r\<rparr>))
      else Inl AssertFailed)"

section \<open>One round of choosing\<close>

definition considered :: "stats_cache \<Rightarrow> iface_pair list \<Rightarrow> network_chooser \<Rightarrow> network_chooser" where
  "considered cache ps ch = fold (chooser_consider cache) ps (chooser_reset ch)"

section \<open>What a round computes\<close>

abbreviation is_wifi :: "iface_pair \<Rightarrow> bool" where
  "is_wifi p \<equiv> matches_type NET_TYPE_WIFI (fst p) (snd p)"

abbreviation is_threeg :: "iface_pair \<Rightarrow> bool" where
  "is_threeg p \<equiv> matches_type NET_TYPE_THREEG (fst p) (snd p)"

lemma lm_consider_fields [simp]:
  "lm_has_match (lm_consider cache p s)"
  "has_wifi_match (lm_consider cache p s) \<longleftrightarrow> has_wifi_match s \<or> is_wifi p"
  "has_threeg_match (lm_consider cache p s) \<longleftrightarrow> has_threeg_match s \<or> is_threeg p"
  "wifi_pair (lm_consider cache p s) = (if is_wifi p then p else wifi_pair s)"
  "threeg_pair (lm_consider cache p s) = (if is_threeg p then p else threeg_pair s)"
  "max_bw (lm_consider cache p s) = max (max_bw s) (observed_bw cache p)"
  "max_bw_iface_pair (lm_consider cache p s) = (if max_bw s < observed_bw cache p then p else max_bw_iface_pair s)"
  "min_RTT (lm_consider cache p s) = min (min_RTT s) (observed_RTT cache p)"
  "min_RTT_iface_pair (lm_consider cache p s) = (if observed_RTT cache p < min_RTT s then p else min_RTT_iface_pair s)"
  by (auto simp: lm_consider_def Let_def max_def min_def)

lemma lm_reset_fields [simp]:
  "\<not> lm_has_match (lm_reset s)" "\<not> has_wifi_match (lm_reset s)" "\<not> has_threeg_match (lm_reset s)"
  "max_bw (lm_reset s) = 0" "min_RTT (lm_reset s) = ULONG_MAX"
  "max_bw_iface_pair (lm_reset s) = max_bw_iface_pair s" "min_RTT_iface_pair (lm_reset s) = min_RTT_iface_pair s"
  by (simp_all add: lm_reset_def)

abbreviation lm_round :: "stats_cache \<Rightarrow> iface_pair list \<Rightarrow> label_matcher \<Rightarrow> label_matcher" where
  "lm_round cache ps s \<equiv> fold (lm_consider cache) ps (lm_reset s)"

lemma lm_round_has_match: "lm_has_match (lm_round cache ps s) \<longleftrightarrow> ps \<noteq> []"
  by (cases ps rule: rev_cases) simp_all

lemma lm_round_wifi:
  "has_wifi_match (lm_round cache ps s) \<longleftrightarrow> (\<exists>p\<in>set ps. is_wifi p)"
  "has_wifi_match (lm_round cache ps s) \<Longrightarrow> wifi_pair (lm_round cache ps s) \<in> set ps \<and> is_wifi (wifi_pair (lm_round cache ps s))"
  by (induction ps rule: rev_induct) auto

lemma lm_round_threeg:
  "has_threeg_match (lm_round cache ps s) \<longleftrightarrow> (\<exists>p\<in>set ps. is_threeg p)"
  "has_threeg_match (lm_round cache ps s) \<Longrightarrow>
     threeg_pair (lm_round cache ps s) \<in> set ps \<and> is_threeg (threeg_pair (lm_round cache ps s))"
  by (induction ps rule: rev_induct) auto

lemma lm_round_bw:
  "\<forall>p\<in>set ps. observed_bw cache p \<le> max_bw (lm_round cache ps s)"
  "if max_bw (lm_round cache ps s) = 0 then max_bw_iface_pair (lm_round cache ps s) = max_bw_iface_pair s
   else max_bw_iface_pair (lm_round cache ps s) \<in> set ps \<and>
     observed_bw cache (max_bw_iface_pair (lm_round cache ps s)) = max_bw (lm_round cache ps s)"
  by (induction ps rule: rev_induct) (auto simp: max_def word_gt_0 dest: order_trans split: if_splits)

lemma max_ulong: "(x :: u_long) \<le> ULONG_MAX"
  using uint_lt2p [of x] by (simp add: ULONG_MAX_def word_le_def)

lemma lm_round_RTT:
  "\<forall>p\<in>set ps. min_RTT (lm_round cache ps s) \<le> observed_RTT cache p"
  "if min_RTT (lm_round cache ps s) = ULONG_MAX then min_RTT_iface_pair (lm_round cache ps s) = min_RTT_iface_pair s
   else min_RTT_iface_pair (lm_round cache ps s) \<in> set ps \<and>
     observed_RTT cache (min_RTT_iface_pair (lm_round cache ps s)) = min_RTT (lm_round cache ps s)"
  by (induction ps rule: rev_induct) (use max_ulong in \<open>auto simp: min_def not_less dest: order_trans split: if_splits\<close>)

text \<open>
  The contract that \<^verbatim>\<open>CSockMapping\<close> relies on: nothing is chosen before a pair has been considered,
  and in a usable round a choice is among the pairs that were considered.
\<close>

locale chooser_contract =
  fixes reset :: "'c \<Rightarrow> 'c" and look :: "'p \<Rightarrow> 'c \<Rightarrow> 'c" and pick :: "'l \<Rightarrow> 'c \<Rightarrow> 'p option"
    and usable :: "'p list \<Rightarrow> 'c \<Rightarrow> bool"
  assumes nothing_considered: "pick l (reset c) = None"
    and picks_considered: "usable ps c \<Longrightarrow> pick l (fold look ps (reset c)) = Some p \<Longrightarrow> p \<in> set ps"
begin

lemma choice_among:
  assumes "usable ps c" and "pick l (fold look ps (reset c)) = Some p" and "set ps \<subseteq> A"
  shows "p \<in> A"
  using picks_considered [OF assms(1,2)] assms(3) by blast

lemma choice_nonempty: "pick l (fold look ps (reset c)) = Some p \<Longrightarrow> ps \<noteq> []"
  using nothing_considered by auto

end

text \<open>A round of a \<^verbatim>\<open>LabelMatcher\<close> is usable when some pair has bandwidth and some pair has a
  finite round-trip time.\<close>

fun usable_round :: "stats_cache \<Rightarrow> iface_pair list \<Rightarrow> chooser \<Rightarrow> bool" where
  "usable_round cache ps (LabelMatcher s) \<longleftrightarrow>
     (\<exists>p\<in>set ps. observed_bw cache p > 0) \<and> (\<exists>p\<in>set ps. observed_RTT cache p < ULONG_MAX)"
| "usable_round cache ps _ = True"

lemma pn_round:
  "let s' = fold pn_consider ps (s\<lparr>pn_has_match := False\<rparr>)
   in pn_has_match s' = (ps \<noteq> []) \<and> preferred_type s' = preferred_type s \<and> (ps \<noteq> [] \<longrightarrow> pn_pair s' \<in> set ps \<and>
     ((\<exists>p\<in>set ps. matches_type (preferred_type s) (fst p) (snd p)) \<longrightarrow>
      matches_type (preferred_type s) (fst (pn_pair s')) (snd (pn_pair s'))))"
  by (induction ps rule: rev_induct) (auto simp: pn_consider_def Let_def)

lemma fold_impl_consider [simp]:
  "fold (impl_consider cache) ps (PreferredNetwork s) = PreferredNetwork (fold pn_consider ps s)"
  "fold (impl_consider cache) ps (AlwaysRedundantChooser s) = AlwaysRedundantChooser (fold pn_consider ps s)"
  "fold (impl_consider cache) ps (LabelMatcher m) = LabelMatcher (fold (lm_consider cache) ps m)"
  by (induction ps arbitrary: s m) auto

lemma lm_usable:
  assumes "usable_round cache ps (LabelMatcher s)"
  shows "max_bw_iface_pair (lm_round cache ps s) \<in> set ps" "min_RTT_iface_pair (lm_round cache ps s) \<in> set ps"
    "observed_bw cache (max_bw_iface_pair (lm_round cache ps s)) = max_bw (lm_round cache ps s)"
    "observed_RTT cache (min_RTT_iface_pair (lm_round cache ps s)) = min_RTT (lm_round cache ps s)"
    "min_RTT (lm_round cache ps s) < ULONG_MAX"
proof -
  obtain p q where p: "p \<in> set ps" "observed_bw cache p > 0" and q: "q \<in> set ps" "observed_RTT cache q < ULONG_MAX"
    using assms by auto
  have b: "max_bw (lm_round cache ps s) \<noteq> 0" using bspec [OF lm_round_bw(1) p(1), of cache s] p(2) by auto
  show r: "min_RTT (lm_round cache ps s) < ULONG_MAX" using bspec [OF lm_round_RTT(1) q(1), of cache s] q(2) by simp
  show "max_bw_iface_pair (lm_round cache ps s) \<in> set ps" "min_RTT_iface_pair (lm_round cache ps s) \<in> set ps"
    "observed_bw cache (max_bw_iface_pair (lm_round cache ps s)) = max_bw (lm_round cache ps s)"
    "observed_RTT cache (min_RTT_iface_pair (lm_round cache ps s)) = min_RTT (lm_round cache ps s)"
    using lm_round_bw(2) [of cache ps s] lm_round_RTT(2) [of cache ps s] b r by auto
qed

lemma lm_choose_considered:
  assumes "usable_round cache ps (LabelMatcher s)" and "lm_choose_networks l (lm_round cache ps s) = Some p"
  shows "p \<in> set ps"
  using assms(2) lm_usable [OF assms(1)] lm_round_wifi(2) [of cache ps s] lm_round_threeg(2) [of cache ps s]
  by (auto simp: lm_choose_networks_def split: if_splits)

lemma pn_choose_considered:
  "pn_choose_networks l (fold pn_consider ps (s\<lparr>pn_has_match := False\<rparr>)) = Some p \<Longrightarrow> p \<in> set ps"
  using pn_round [of ps s] by (auto simp: pn_choose_networks_def Let_def split: if_splits)

interpretation impls: chooser_contract impl_reset "impl_consider cache" impl_choose_networks "usable_round cache" for cache
proof
  show "impl_choose_networks l (impl_reset c) = None" for l c
    by (cases c) (simp_all add: pn_choose_networks_def lm_choose_networks_def)
  show "p \<in> set ps" if "usable_round cache ps c" "impl_choose_networks l (fold (impl_consider cache) ps (impl_reset c)) = Some p"
    for ps c l p
    using that by (cases c) (auto intro: lm_choose_considered pn_choose_considered simp del: usable_round.simps(1))
qed

lemma fold_chooser_consider: "impl (fold (chooser_consider cache) ps ch) = fold (impl_consider cache) ps (impl ch)"
  by (induction ps arbitrary: ch) (simp_all add: chooser_consider_def)

interpretation chs: chooser_contract chooser_reset "chooser_consider cache" choose_networks
    "\<lambda>ps ch. usable_round cache ps (impl ch)" for cache
  by unfold_locales (auto simp: choose_networks_def fold_chooser_consider chooser_reset_def impls.nothing_considered
      dest: impls.picks_considered)

section \<open>Properties\<close>

text \<open>Labels that ask for a short round-trip time rather than for bandwidth.\<close>

definition wants_latency :: "u_long \<Rightarrow> bool" where
  "wants_latency labels \<longleftrightarrow> has_label labels CMM_LABEL_SMALL \<or>
     \<not> has_label labels CMM_LABEL_LARGE \<and>
     (has_label labels CMM_LABEL_ONDEMAND \<or> \<not> has_label labels CMM_LABEL_BACKGROUND)"

lemma fgbg_mask:
  "has_label labels (CMM_LABEL_ONDEMAND OR CMM_LABEL_BACKGROUND) \<longleftrightarrow>
     has_label labels CMM_LABEL_ONDEMAND \<or> has_label labels CMM_LABEL_BACKGROUND"
  by (simp add: has_label_def bit.conj_disj_distrib or_eq_0_iff)

lemma lm_choice_spec:
  assumes "usable_round cache ps (LabelMatcher s)"
  shows "case lm_choose_networks labels (lm_round cache ps s) of
      None \<Rightarrow>
        if has_label labels CMM_LABEL_WIFI_ONLY
        then \<not> (\<exists>p\<in>set ps. is_wifi p) \<and> \<not> (fallback_allowed labels \<and> (\<exists>p\<in>set ps. is_threeg p))
        else has_label labels CMM_LABEL_THREEG_ONLY \<and>
          \<not> (\<exists>p\<in>set ps. is_threeg p) \<and> \<not> (fallback_allowed labels \<and> (\<exists>p\<in>set ps. is_wifi p))
    | Some p \<Rightarrow> p \<in> set ps \<and>
        (if has_label labels CMM_LABEL_WIFI_ONLY
         then if \<exists>q\<in>set ps. is_wifi q then is_wifi p else fallback_allowed labels \<and> is_threeg p
         else if has_label labels CMM_LABEL_THREEG_ONLY
         then if \<exists>q\<in>set ps. is_threeg q then is_threeg p else fallback_allowed labels \<and> is_wifi p
         else if wants_latency labels then \<forall>q\<in>set ps. observed_RTT cache p \<le> observed_RTT cache q
         else \<forall>q\<in>set ps. observed_bw cache q \<le> observed_bw cache p)"
proof -
  let ?s = "lm_round cache ps s"
  note u = lm_usable [OF assms]
  have ne: "ps \<noteq> []" using assms by auto
  have w: "has_wifi_match ?s \<longleftrightarrow> (\<exists>p\<in>set ps. is_wifi p)" "has_wifi_match ?s \<Longrightarrow> wifi_pair ?s \<in> set ps \<and> is_wifi (wifi_pair ?s)"
    by (rule lm_round_wifi(1)) (rule lm_round_wifi(2))
  have t: "has_threeg_match ?s \<longleftrightarrow> (\<exists>p\<in>set ps. is_threeg p)"
    "has_threeg_match ?s \<Longrightarrow> threeg_pair ?s \<in> set ps \<and> is_threeg (threeg_pair ?s)"
    by (rule lm_round_threeg(1)) (rule lm_round_threeg(2))
  show ?thesis
    using ne w t u lm_round_bw(1) [of ps cache s] lm_round_RTT(1) [of ps cache s]
    by (simp add: lm_choose_networks_def lm_round_has_match wants_latency_def fgbg_mask)
qed

text \<open>
  A round of \<^verbatim>\<open>LabelMatcher\<close> in which some pair has bandwidth and some pair a finite round-trip
  time: data restricted to a network type goes to a pair of that type, or with the fallback label to
  one of the other type, and is refused when there is none; other data goes to a pair of the shortest
  round-trip time or of the highest bandwidth among all the pairs, as its labels ask.
\<close>

theorem label_matcher_choice:
  assumes "usable_round cache ps (LabelMatcher s)"
  shows "case lm_choose_networks labels (lm_round cache ps s) of
      None \<Rightarrow>
        if has_label labels CMM_LABEL_WIFI_ONLY
        then \<not> (\<exists>p\<in>set ps. is_wifi p) \<and> \<not> (fallback_allowed labels \<and> (\<exists>p\<in>set ps. is_threeg p))
        else has_label labels CMM_LABEL_THREEG_ONLY \<and>
          \<not> (\<exists>p\<in>set ps. is_threeg p) \<and> \<not> (fallback_allowed labels \<and> (\<exists>p\<in>set ps. is_wifi p))
    | Some p \<Rightarrow> p \<in> set ps \<and>
        (if has_label labels CMM_LABEL_WIFI_ONLY
         then if \<exists>q\<in>set ps. is_wifi q then is_wifi p else fallback_allowed labels \<and> is_threeg p
         else if has_label labels CMM_LABEL_THREEG_ONLY
         then if \<exists>q\<in>set ps. is_threeg q then is_threeg p else fallback_allowed labels \<and> is_wifi p
         else if wants_latency labels then \<forall>q\<in>set ps. observed_RTT cache p \<le> observed_RTT cache q
         else \<forall>q\<in>set ps. observed_bw cache q \<le> observed_bw cache p)"
  by (rule lm_choice_spec [OF assms])

definition wifi_iface :: "in_addr_t \<Rightarrow> u_long \<Rightarrow> u_long \<Rightarrow> net_interface" where
  "wifi_iface ip bw rtt = \<lparr>ip_addr = ip, bandwidth_down = bw, bandwidth_up = bw, RTT = rtt, type = NET_TYPE_WIFI\<rparr>"

theorem label_matcher_choice_witness:
  "let fast = (wifi_iface 1 10 5, wifi_iface 2 10 5); wide = (wifi_iface 3 90 20, wifi_iface 4 90 20)
   in lm_choose_networks CMM_LABEL_BACKGROUND (lm_round Map.empty [fast, wide] new_label_matcher) = Some wide \<and>
      (\<forall>q\<in>{fast, wide}. observed_bw Map.empty q \<le> observed_bw Map.empty wide)"
proof -
  let ?f = "(wifi_iface 1 10 5, wifi_iface 2 10 5)" and ?w = "(wifi_iface 3 90 20, wifi_iface 4 90 20)"
  have u: "usable_round Map.empty [?f, ?w] (LabelMatcher new_label_matcher)" by code_simp
  have c: "lm_choose_networks CMM_LABEL_BACKGROUND (lm_round Map.empty [?f, ?w] new_label_matcher) = Some ?w" by code_simp
  have l: "\<not> has_label CMM_LABEL_BACKGROUND CMM_LABEL_WIFI_ONLY" "\<not> has_label CMM_LABEL_BACKGROUND CMM_LABEL_THREEG_ONLY"
    "\<not> wants_latency CMM_LABEL_BACKGROUND" by code_simp+
  show ?thesis using label_matcher_choice [OF u, of CMM_LABEL_BACKGROUND] c l by (simp add: Let_def)
qed

lemma lm_zero_bw:
  assumes "ps \<noteq> []" and "\<forall>p\<in>set ps. observed_bw cache p = 0"
    and "\<not> has_label labels CMM_LABEL_WIFI_ONLY" and "\<not> has_label labels CMM_LABEL_THREEG_ONLY"
    and "\<not> wants_latency labels"
  shows "lm_choose_networks labels (lm_round cache ps s) = Some (max_bw_iface_pair s)"
proof -
  have "max_bw (lm_round cache ps s) = 0" using assms(2) by (induction ps rule: rev_induct) auto
  then have "max_bw_iface_pair (lm_round cache ps s) = max_bw_iface_pair s" using lm_round_bw(2) [of cache ps s] by simp
  then show ?thesis using assms by (auto simp: lm_choose_networks_def lm_round_has_match wants_latency_def fgbg_mask)
qed

text \<open>
  When no pair that was considered has any bandwidth, \<^verbatim>\<open>LabelMatcher\<close> answers for labels that ask
  for bandwidth with the pair that an earlier round left behind, or with zeros when there was none,
  although that pair may not have been considered.
\<close>

theorem label_matcher_stale_choice:
  assumes "ps \<noteq> []" and "\<forall>p\<in>set ps. observed_bw cache p = 0"
    and "\<not> has_label labels CMM_LABEL_WIFI_ONLY" and "\<not> has_label labels CMM_LABEL_THREEG_ONLY"
    and "\<not> wants_latency labels"
  shows "lm_choose_networks labels (lm_round cache ps s) = Some (max_bw_iface_pair s)"
  by (rule lm_zero_bw [OF assms])

theorem label_matcher_stale_choice_witness:
  "let p = (wifi_iface 1 0 5, wifi_iface 2 0 5)
   in lm_choose_networks CMM_LABEL_BACKGROUND (lm_round Map.empty [p] new_label_matcher) = Some (zero_iface, zero_iface)"
proof -
  let ?p = "(wifi_iface 1 0 5, wifi_iface 2 0 5)"
  have "observed_bw Map.empty ?p = 0" "\<not> has_label CMM_LABEL_BACKGROUND CMM_LABEL_WIFI_ONLY"
    "\<not> has_label CMM_LABEL_BACKGROUND CMM_LABEL_THREEG_ONLY" "\<not> wants_latency CMM_LABEL_BACKGROUND" by code_simp+
  then show ?thesis
    using label_matcher_stale_choice [of "[?p]" Map.empty CMM_LABEL_BACKGROUND new_label_matcher]
    by (simp add: Let_def new_label_matcher_def)
qed

text \<open>
  \<^verbatim>\<open>PreferredNetwork\<close> chooses exactly when some pair has been considered: one of these pairs, and
  one of the preferred network type whenever there is one.
\<close>

theorem preferred_network_choice:
  "let s' = fold pn_consider ps (s\<lparr>pn_has_match := False\<rparr>)
   in pn_choose_networks labels s' = (if ps = [] then None else Some (pn_pair s')) \<and>
      (ps = [] \<or> pn_pair s' \<in> set ps \<and>
        ((\<forall>p\<in>set ps. \<not> matches_type (preferred_type s) (fst p) (snd p)) \<or>
         matches_type (preferred_type s) (fst (pn_pair s')) (snd (pn_pair s'))))"
  using pn_round [of ps s] by (auto simp: pn_choose_networks_def Let_def)

theorem preferred_network_choice_witness:
  "let p = (wifi_iface 1 10 5, wifi_iface 2 10 5); q = (zero_iface\<lparr>type := NET_TYPE_THREEG\<rparr>, zero_iface);
       s' = fold pn_consider [q, p] (new_preferred NET_TYPE_WIFI)
   in pn_choose_networks 0 s' = Some (pn_pair s') \<and> matches_type NET_TYPE_WIFI (fst (pn_pair s')) (snd (pn_pair s'))"
proof -
  let ?p = "(wifi_iface 1 10 5, wifi_iface 2 10 5)" and ?q = "(zero_iface\<lparr>type := NET_TYPE_THREEG\<rparr>, zero_iface)"
  have "matches_type NET_TYPE_WIFI (fst ?p) (snd ?p)" by code_simp
  then show ?thesis
    using preferred_network_choice [of "[?q, ?p]" "new_preferred NET_TYPE_WIFI" 0]
    by (auto simp: Let_def new_preferred_def)
qed

end
