(* ===== verification/Thunks.thy ===== *)
theory Thunks
  imports CMM_Prelude
begin

text \<open>
  thunks.cpp: handlers that an application registers for operations that had to be deferred. The
  queues are found by socket and labels. \<^verbatim>\<open>thunk_hash\<close> is modelled by the keys it is meant to have
  (equality of socket and labels); its \<^verbatim>\<open>operator<\<close> is \<open>tq_less\<close>. Running a handler is code of
  the application and an argument of the model, as is whether a network is available at each check.
\<close>

section \<open>State\<close>

text \<open>A handler function and its argument are numbers; \<open>None\<close> is the null pointer.\<close>

record thunk =
  th_fn :: "nat option"
  th_arg :: "nat option"
  th_labels :: u_long
  th_sock :: int

text \<open>The \<^verbatim>\<open>multiset\<close> \<^verbatim>\<open>thunk_map\<close> of a queue is looked up only to cancel thunks.\<close>

record thunk_queue =
  tq_sock :: int
  tq_labels :: u_long
  thunk_map :: "thunk list"
  th_queue :: "thunk list"

type_synonym tq_key = "int \<times> u_long"
type_synonym thunk_hash = "(tq_key \<times> thunk_queue) list"

definition tq_less :: "tq_key \<Rightarrow> tq_key \<Rightarrow> bool" where
  "tq_less a b \<longleftrightarrow> fst a < fst b \<or> snd a < snd b"

definition thunk_less :: "thunk \<Rightarrow> thunk \<Rightarrow> bool" where
  "thunk_less a b \<longleftrightarrow> th_sock a < th_sock b \<or> th_labels a < th_labels b \<or>
     (case (th_fn a, th_fn b) of (None, Some _) \<Rightarrow> True | (Some x, Some y) \<Rightarrow> x < y | _ \<Rightarrow> False) \<or>
     (case (th_arg a, th_arg b) of (None, Some _) \<Rightarrow> True | (Some x, Some y) \<Rightarrow> x < y | _ \<Rightarrow> False)"

section \<open>Operations\<close>

definition new_queue :: "int \<Rightarrow> u_long \<Rightarrow> thunk_queue" where
  "new_queue sock labels = \<lparr>tq_sock = sock, tq_labels = labels, thunk_map = [], th_queue = []\<rparr>"

fun hash_update :: "tq_key \<Rightarrow> (thunk_queue \<Rightarrow> thunk_queue) \<Rightarrow> thunk_hash \<Rightarrow> thunk_hash" where
  "hash_update k f [] = []"
| "hash_update k f ((k', q) # h) = (if k' = k then (k', f q) # h else (k', q) # hash_update k f h)"

definition enqueue_handler :: "int \<Rightarrow> u_long \<Rightarrow> nat option \<Rightarrow> nat option \<Rightarrow> thunk_hash \<Rightarrow> thunk_hash" where
  "enqueue_handler sock labels fn arg h =
     (let k = (sock, labels);
          h1 = (if map_of h k = None then h @ [(k, new_queue sock labels)] else h);
          th = \<lparr>th_fn = fn, th_arg = arg, th_labels = labels, th_sock = sock\<rparr>
      in hash_update k (\<lambda>q. q\<lparr>th_queue := th_queue q @ [th]\<rparr>) h1)"

text \<open>\<^verbatim>\<open>labeled_thunk_queue::cancel_thunks\<close>: the thunks of \<^verbatim>\<open>thunk_map\<close> that compare neither less nor
  greater are cancelled. The queue shares the objects, so a cancelled thunk loses its handler there.\<close>

definition same_thunk :: "thunk \<Rightarrow> thunk \<Rightarrow> bool" where
  "same_thunk a b \<longleftrightarrow> \<not> thunk_less a b \<and> \<not> thunk_less b a"

definition cancelled :: thunk where
  "cancelled = \<lparr>th_fn = None, th_arg = None, th_labels = 0, th_sock = -1\<rparr>"

definition cancel_thunks :: "nat option \<Rightarrow> nat option \<Rightarrow> thunk_queue \<Rightarrow> nat \<times> thunk_queue" where
  "cancel_thunks fn arg q =
     (let dummy = \<lparr>th_fn = fn, th_arg = arg, th_labels = tq_labels q, th_sock = tq_sock q\<rparr>;
          victims = filter (same_thunk dummy) (thunk_map q)
      in (length victims,
          q\<lparr>thunk_map := filter (\<lambda>t. \<not> same_thunk dummy t) (thunk_map q),
            th_queue := map (\<lambda>t. if t \<in> set victims then cancelled else t) (th_queue q)\<rparr>))"

definition cancel_thunk :: "int \<Rightarrow> u_long \<Rightarrow> nat option \<Rightarrow> nat option \<Rightarrow> thunk_hash \<Rightarrow> nat \<times> thunk_hash" where
  "cancel_thunk sock labels fn arg h =
     (case map_of h (sock, labels) of
        None \<Rightarrow> (0, h)
      | Some q \<Rightarrow>
          (fst (cancel_thunks fn arg q), hash_update (sock, labels) (\<lambda>q. snd (cancel_thunks fn arg q)) h))"

definition cancel_all_thunks :: "int \<Rightarrow> thunk_hash \<Rightarrow> thunk_hash" where
  "cancel_all_thunks sock h = filter (\<lambda>(k, q). tq_sock q \<noteq> sock) h"

definition count_thunks :: "int \<Rightarrow> thunk_hash \<Rightarrow> nat" where
  "count_thunks sock h = sum_list (map (\<lambda>(k, q). if tq_sock q = sock then length (th_queue q) else 0) h)"

text \<open>\<^verbatim>\<open>fire_thunks\<close> starts a thread for each queue that is not empty and whose labels a network is
  available for.\<close>

definition fire_thunks :: "(int \<Rightarrow> u_long \<Rightarrow> bool) \<Rightarrow> thunk_hash \<Rightarrow> tq_key list" where
  "fire_thunks net_available h =
     map fst (filter (\<lambda>(k, q). net_available (tq_sock q) (tq_labels q) \<and> th_queue q \<noteq> []) h)"

text \<open>
  \<^verbatim>\<open>ThunkThreadFn\<close>: the thunks of the queue are moved to a local queue and run in order;
  \<open>net k\<close> is the answer of \<^verbatim>\<open>net_available\<close> after \<open>k\<close> further thunks. The result lists the thunks that
  were run and those that are left in the local queue when the thread ends.
\<close>

fun thunk_loop :: "(nat \<Rightarrow> bool) \<Rightarrow> nat \<Rightarrow> thunk list \<Rightarrow> thunk list \<times> thunk list" where
  "thunk_loop net k [] = ([], [])"
| "thunk_loop net k (th # q) =
     (let ran = (if th_fn th \<noteq> None then [th] else [])
      in if net k then (let (fired, left) = thunk_loop net (Suc k) q in (ran @ fired, left))
         else (ran, q))"

text \<open>The handlers change the hash through \<open>run\<close>, one after the other.\<close>

definition ThunkThreadFn ::
  "(nat \<Rightarrow> bool) \<Rightarrow> (thunk \<Rightarrow> thunk_hash \<Rightarrow> thunk_hash) \<Rightarrow> tq_key \<Rightarrow> thunk_hash \<Rightarrow>
   (thunk list \<times> thunk list \<times> thunk_hash) result" where
  "ThunkThreadFn net run k h =
     (case map_of h k of
        None \<Rightarrow> Inl AssertFailed
      | Some q \<Rightarrow>
          let h1 = hash_update k (\<lambda>q. q\<lparr>th_queue := []\<rparr>) h;
              (fired, left) = thunk_loop net 0 (th_queue q)
          in Inr (fired, left, fold run fired h1))"

section \<open>The reachable queues\<close>

text \<open>What the library and the application can do to the queues; \<open>t_run\<close> empties a queue.\<close>

inductive thunk_reach :: "thunk_hash \<Rightarrow> bool" where
  t_start: "thunk_reach []"
| t_enqueue: "thunk_reach h \<Longrightarrow> thunk_reach (enqueue_handler sock labels fn arg h)"
| t_cancel: "thunk_reach h \<Longrightarrow> thunk_reach (snd (cancel_thunk sock labels fn arg h))"
| t_cancel_all: "thunk_reach h \<Longrightarrow> thunk_reach (cancel_all_thunks sock h)"
| t_run: "thunk_reach h \<Longrightarrow> thunk_reach (hash_update k (\<lambda>q. q\<lparr>th_queue := []\<rparr>) h)"

definition queue_wf :: "tq_key \<times> thunk_queue \<Rightarrow> bool" where
  "queue_wf e \<longleftrightarrow> (tq_sock (snd e), tq_labels (snd e)) = fst e \<and> thunk_map (snd e) = [] \<and>
     (\<forall>t\<in>set (th_queue (snd e)). th_sock t = fst (fst e) \<and> th_labels t = snd (fst e))"

definition hash_wf :: "thunk_hash \<Rightarrow> bool" where
  "hash_wf h \<longleftrightarrow> distinct (map fst h) \<and> (\<forall>e\<in>set h. queue_wf e)"

lemma hash_update_keys [simp]: "map fst (hash_update k f h) = map fst h"
  by (induction k f h rule: hash_update.induct) auto

lemma hash_update_wf:
  "\<forall>e\<in>set h. queue_wf e \<Longrightarrow> (\<And>q. queue_wf (k, q) \<Longrightarrow> queue_wf (k, f q)) \<Longrightarrow> \<forall>e\<in>set (hash_update k f h). queue_wf e"
  by (induction k f h rule: hash_update.induct) auto

lemma cancel_thunks_wf: "queue_wf (k, q) \<Longrightarrow> cancel_thunks fn arg q = (0, q)"
  by (simp add: queue_wf_def cancel_thunks_def)

lemma hash_update_id: "(\<And>q. (k, q) \<in> set h \<Longrightarrow> f q = q) \<Longrightarrow> hash_update k f h = h"
  by (induction k f h rule: hash_update.induct) auto

lemma cancel_thunk_wf:
  assumes "hash_wf h"
  shows "cancel_thunk sock labels fn arg h = (0, h)"
proof -
  have c: "cancel_thunks fn arg q = (0, q)" if "((sock, labels), q) \<in> set h" for q
    using cancel_thunks_wf assms that by (auto simp: hash_wf_def)
  have "hash_update (sock, labels) (\<lambda>q. snd (cancel_thunks fn arg q)) h = h" by (rule hash_update_id) (simp add: c)
  then show ?thesis using c map_of_SomeD [of h "(sock, labels)"] by (auto simp: cancel_thunk_def split: option.split)
qed

lemma thunk_reach_wf: "thunk_reach h \<Longrightarrow> hash_wf h"
proof (induction rule: thunk_reach.induct)
  case (t_enqueue h sock labels fn arg)
  let ?k = "(sock, labels)" and ?h1 = "if map_of h (sock, labels) = None then h @ [((sock, labels), new_queue sock labels)] else h"
  have "distinct (map fst ?h1)" using t_enqueue.IH by (auto simp: hash_wf_def map_of_eq_None_iff)
  moreover have "\<forall>e\<in>set ?h1. queue_wf e" using t_enqueue.IH by (auto simp: hash_wf_def queue_wf_def new_queue_def)
  ultimately show ?case
    unfolding enqueue_handler_def Let_def hash_wf_def hash_update_keys
    by (intro conjI hash_update_wf) (auto simp: queue_wf_def)
next
  case (t_run h k)
  then show ?case unfolding hash_wf_def hash_update_keys by (intro conjI hash_update_wf) (auto simp: queue_wf_def)
next
  case (t_cancel_all h sock)
  then show ?case by (auto simp: hash_wf_def cancel_all_thunks_def distinct_map_filter)
qed (simp_all add: hash_wf_def cancel_thunk_wf)

section \<open>Properties\<close>

lemma thunk_loop_split:
  "thunk_loop net k q = (fired, left) \<Longrightarrow>
    \<exists>taken. q = taken @ left \<and> fired = filter (\<lambda>t. th_fn t \<noteq> None) taken \<and>
      ((\<forall>j\<ge>k. net j) \<longrightarrow> left = []) \<and> (q \<noteq> [] \<longrightarrow> taken \<noteq> [])"
proof (induction net k q arbitrary: fired rule: thunk_loop.induct)
  case (2 net k th q)
  show ?case
  proof (cases "net k")
    case True
    obtain fired' where l: "thunk_loop net (Suc k) q = (fired', left)"
      "fired = (if th_fn th \<noteq> None then [th] else []) @ fired'"
      using 2(2) True by (auto simp: Let_def split: prod.splits if_splits)
    from "2.IH" [OF refl True l(1)] obtain taken where t: "q = taken @ left"
      "fired' = filter (\<lambda>t. th_fn t \<noteq> None) taken" "(\<forall>j\<ge>Suc k. net j) \<longrightarrow> left = []" by blast
    then show ?thesis using l(2) by (intro exI [of _ "th # taken"]) auto
  next
    case False
    then show ?thesis using 2(2) by (intro exI [of _ "[th]"]) (auto simp: Let_def split: if_splits)
  qed
qed simp

lemma map_of_hash_update: "map_of h k = Some q \<Longrightarrow> map_of (hash_update k f h) k = Some (f q)"
  by (induction k f h rule: hash_update.induct) (auto split: if_splits)

text \<open>
  The thread that runs the handlers of a queue runs them in the order in which they were
  registered, each once, and leaves none out as long as the network stays available. When a check
  between two handlers finds no network, the handlers that are left are in no queue any more: the
  thread has emptied the queue and ends without putting them back.
\<close>

theorem thunk_thread_order:
  assumes "map_of h k = Some q" and "ThunkThreadFn net run k h = Inr (fired, left, h')"
  shows "\<exists>taken emptied. th_queue q = taken @ left \<and> fired = filter (\<lambda>t. th_fn t \<noteq> None) taken \<and>
    ((\<forall>j. net j) \<longrightarrow> left = []) \<and> map_of emptied k = Some (q\<lparr>th_queue := []\<rparr>) \<and> h' = fold run fired emptied"
proof -
  have l: "thunk_loop net 0 (th_queue q) = (fired, left)" "h' = fold run fired (hash_update k (\<lambda>q. q\<lparr>th_queue := []\<rparr>) h)"
    using assms by (auto simp: ThunkThreadFn_def Let_def split: prod.splits)
  show ?thesis using thunk_loop_split [OF l(1)] map_of_hash_update [OF assms(1)] l(2) by auto
qed

text \<open>Two handlers of one queue; the network is gone after the first.\<close>

definition demo_hash :: thunk_hash where
  "demo_hash = enqueue_handler 7 4 (Some 3) (Some 10) (enqueue_handler 7 4 (Some 2) (Some 20) [])"

theorem thunk_thread_order_witness:
  "\<exists>q t u emptied. map_of demo_hash (7, 4) = Some q \<and> th_queue q = [t, u] \<and>
     ThunkThreadFn (\<lambda>_. False) (\<lambda>t h. h) (7, 4) demo_hash = Inr ([t], [u], emptied) \<and>
     map_of emptied (7, 4) = Some (q\<lparr>th_queue := []\<rparr>)"
proof -
  let ?t = "\<lparr>th_fn = Some 2, th_arg = Some 20, th_labels = 4, th_sock = 7\<rparr>"
    and ?u = "\<lparr>th_fn = Some 3, th_arg = Some 10, th_labels = 4, th_sock = 7\<rparr>"
  let ?q = "\<lparr>tq_sock = 7, tq_labels = 4, thunk_map = [], th_queue = [?t, ?u]\<rparr>"
  have h: "demo_hash = [((7, 4), ?q)]" by (simp add: demo_hash_def enqueue_handler_def Let_def new_queue_def)
  have q: "map_of demo_hash (7, 4) = Some ?q" unfolding h by simp
  have r: "ThunkThreadFn (\<lambda>_. False) (\<lambda>t h. h) (7, 4) demo_hash = Inr ([?t], [?u], [((7, 4), ?q\<lparr>th_queue := []\<rparr>)])"
    by (simp add: h ThunkThreadFn_def)
  show ?thesis using thunk_thread_order [OF q r] q r by simp
qed

text \<open>
  Cancelling a thunk never has an effect: in every reachable state \<^verbatim>\<open>cmm_thunk_cancel\<close> reports
  that no thunk was cancelled and leaves all of them registered, since no operation ever adds a thunk
  to the map in which they are looked up.
\<close>

theorem cancel_thunk_never_cancels:
  assumes "thunk_reach h"
  shows "cancel_thunk sock labels fn arg h = (0, h)"
  by (rule cancel_thunk_wf [OF thunk_reach_wf [OF assms]])

theorem cancel_thunk_never_cancels_witness:
  "thunk_reach demo_hash \<and> count_thunks 7 demo_hash = 2 \<and>
   cancel_thunk 7 4 (Some 3) (Some 10) demo_hash = (0, demo_hash)"
proof -
  have "thunk_reach demo_hash" unfolding demo_hash_def by (intro t_start t_enqueue)
  moreover have "count_thunks 7 demo_hash = 2" by code_simp
  ultimately show ?thesis using cancel_thunk_never_cancels by blast
qed

text \<open>
  \<^verbatim>\<open>operator<\<close> of the key of \<^verbatim>\<open>thunk_hash\<close> is not an ordering: exactly the pairs of keys of which
  one has the smaller socket and the other the smaller label are below each other both ways.
\<close>

theorem tq_less_both_ways:
  "tq_less a b \<and> tq_less b a \<longleftrightarrow> (fst a < fst b \<and> snd b < snd a) \<or> (fst b < fst a \<and> snd a < snd b)"
  by (auto simp: tq_less_def)

end
