(* ===== verification/Multisocket.thy ===== *)
theory Multisocket
  imports Receiver_IROB Sender_IROB Network_Chooser Thunks
begin

text \<open>
  cmm_socket.private.h and the parts of cmm_socket_impl.cpp that the threads of the connections call
  on the multisocket: acknowledgements, resend requests, data checks, the end of the shutdown
  handshake, timeouts and the statistics of network restrictions. All of them run under
  \<^verbatim>\<open>scheduling_state_lock\<close>, so that each is one step of the model. A \<^verbatim>\<open>CSocket\<close> is an entry of the
  heap \<open>csock_heap\<close>; a thread of a connection keeps its reference after the connection has left the
  set \<open>available_csocks\<close> of \<^verbatim>\<open>CSockMapping\<close>.
\<close>

section \<open>State\<close>

record csocket =
  local_iface :: net_interface
  remote_iface :: net_interface
  connected :: bool
  connection_failed :: bool
  accepting :: bool
  has_sendr :: bool
  has_recvr :: bool
  busy :: bool
  csk_indexes :: sched_indexes

record net_restriction_stats =
  bytes_sent :: nat
  bytes_recvd :: nat

text \<open>
  \<open>network_chooser_of\<close>, \<open>redundancy_strategy_type\<close> and \<open>available_csocks\<close> belong to \<^verbatim>\<open>CSockMapping\<close>;
  \<open>stats_cache_of\<close> and \<open>thunk_hash_of\<close> are tables of the whole process. \<open>bootstrapped\<close> is that the
  bootstrapper has finished with status 0.
\<close>

record msocket =
  sock :: int
  accepting_side :: bool
  bootstrapped :: bool
  remote_listener_port :: "16 word"
  sk_non_blocking :: bool
  csock_heap :: "csock_ref \<Rightarrow> csocket option"
  available_csocks :: "csock_ref list"
  network_chooser_of :: network_chooser
  redundancy_strategy_type :: int
  stats_cache_of :: stats_cache
  thunk_hash_of :: thunk_hash
  local_ifaces :: "net_interface list"
  remote_ifaces :: "net_interface list"
  changed_local_ifaces :: "net_interface list"
  down_local_ifaces :: "net_interface list"
  sk_shutting_down :: bool
  remote_shutdown :: bool
  goodbye_sent :: bool
  sending_goodbye :: bool
  outgoing_irobs :: "sender_irob lattice"
  incoming_irobs :: receiver_lattice
  irob_indexes :: sched_indexes
  receive_timeout :: timeval
  failure_timeouts :: "u_long \<Rightarrow> timeval option"
  restriction_stats :: "u_long \<Rightarrow> net_restriction_stats option"

definition update_csock :: "csock_ref \<Rightarrow> (csocket \<Rightarrow> csocket) \<Rightarrow> msocket \<Rightarrow> msocket" where
  "update_csock c f sk =
     (case csock_heap sk c of
        None \<Rightarrow> sk
      | Some cs \<Rightarrow> sk\<lparr>csock_heap := (csock_heap sk)(c \<mapsto> f cs)\<rparr>)"

text \<open>Requests of the multisocket itself, which any connection may pick up.\<close>

definition sk_schedule :: "scheduling_data \<Rightarrow> index_type \<Rightarrow> msocket \<Rightarrow> msocket" where
  "sk_schedule d t sk = sk\<lparr>irob_indexes := indexes_insert (irob_indexes sk) d t\<rparr>"

section \<open>Statistics of network restrictions\<close>

text \<open>The labels are narrowed to an \<^verbatim>\<open>int\<close>, which keeps the bits of the restrictions.\<close>

definition update_net_restriction_stats :: "u_long \<Rightarrow> nat \<Rightarrow> nat \<Rightarrow> msocket \<Rightarrow> msocket" where
  "update_net_restriction_stats labels sent recvd sk =
     (let k = labels AND ALL_NETWORK_RESTRICTIONS;
          stats = (case restriction_stats sk k of Some s \<Rightarrow> s | None \<Rightarrow> \<lparr>bytes_sent = 0, bytes_recvd = 0\<rparr>)
      in sk\<lparr>restriction_stats := (restriction_stats sk)(k \<mapsto>
              stats\<lparr>bytes_sent := bytes_sent stats + sent, bytes_recvd := bytes_recvd stats + recvd\<rparr>)\<rparr>)"

definition fits_net_restriction :: "csocket \<Rightarrow> u_long \<Rightarrow> bool" where
  "fits_net_restriction cs labels = pair_fits_restriction labels (local_iface cs) (remote_iface cs)"

definition csock_update_net_restriction_stats ::
  "csock_ref \<Rightarrow> u_long \<Rightarrow> nat \<Rightarrow> nat \<Rightarrow> msocket \<Rightarrow> msocket result" where
  "csock_update_net_restriction_stats c labels sent recvd sk =
     (case csock_heap sk c of
        None \<Rightarrow> Inl OutOfBounds
      | Some cs \<Rightarrow>
          Inr (if \<not> fits_net_restriction cs labels \<and> \<not> fallback_allowed labels
               then update_net_restriction_stats labels sent recvd sk else sk))"

section \<open>Acknowledgements and recovery\<close>

text \<open>\<^verbatim>\<open>remove_if_unneeded\<close> of an IROB that is in the lattice.\<close>

definition remove_if_unneeded :: "irob_id_t \<Rightarrow> msocket \<Rightarrow> msocket result" where
  "remove_if_unneeded i sk =
     (case find_locked (outgoing_irobs sk) i of
        None \<Rightarrow> Inl AssertFailed
      | Some p \<Rightarrow>
          ASSERT (\<not> placeholder p)
            (Inr (if acked p \<and> complete p
                  then sk\<lparr>outgoing_irobs := snd (erase_locked i False (outgoing_irobs sk))\<rparr> else sk)))"

definition ack_received :: "irob_id_t \<Rightarrow> msocket \<Rightarrow> msocket result" where
  "ack_received i sk =
     (case find_locked (outgoing_irobs sk) i of
        None \<Rightarrow> if past_irob_exists (outgoing_irobs sk) i then Inr sk else Inl CMMException
      | Some p \<Rightarrow>
          ASSERT (\<not> placeholder p)
            (remove_if_unneeded i (sk\<lparr>outgoing_irobs := lat_update i sender_ack (outgoing_irobs sk)\<rparr>)))"

definition has_request :: "32 word \<Rightarrow> 32 word \<Rightarrow> bool" where
  "has_request request part \<longleftrightarrow> request AND part \<noteq> 0"

definition resend_request_received :: "irob_id_t \<Rightarrow> 32 word \<Rightarrow> nat \<Rightarrow> int \<Rightarrow> msocket \<Rightarrow> msocket result" where
  "resend_request_received i request sq next_chunk sk =
     (case find_locked (outgoing_irobs sk) i of
        None \<Rightarrow> if past_irob_exists (outgoing_irobs sk) i then Inr sk else Inl CMMException
      | Some p \<Rightarrow>
          ASSERT (\<not> placeholder p)
            (let labels = send_labels p;
                 sk1 = (if has_request request CMM_RESEND_REQUEST_DEPS
                        then sk_schedule (sched_work i False labels) NEW_IROBS sk else sk)
             in bindE (if has_request request CMM_RESEND_REQUEST_DATA
                       then bindE (mark_not_received sq p) (\<lambda>p1.
                              Inr (p1, sk_schedule (sched_work i True labels) NEW_CHUNKS sk1))
                       else Inr (p, sk1)) (\<lambda>(p1, sk2).
                bindE (if has_request request CMM_RESEND_REQUEST_END
                       then let sk3 = (if complete p1 \<and> all_bytes_chunked p1
                                       then sk_schedule (sched_work i False labels) FINISHED_IROBS sk2 else sk2)
                            in bindE (mark_drop_point next_chunk p1) (\<lambda>p2.
                                 Inr (p2, sk_schedule (sched_work i True labels) NEW_CHUNKS sk3))
                       else Inr (p1, sk2)) (\<lambda>(p2, sk4).
                  Inr (sk4\<lparr>outgoing_irobs := lat_update i (\<lambda>_. p2) (outgoing_irobs sk4)\<rparr>)))))"

text \<open>The marker \<^verbatim>\<open>{0, -1}\<close> of an acknowledgement that is not to be used for measurement.\<close>

definition inval :: timeval where "inval = tv 0 (-1)"

definition data_check_requested :: "irob_id_t \<Rightarrow> msocket \<Rightarrow> msocket" where
  "data_check_requested i sk =
     (case find_locked (rl (incoming_irobs sk)) i of
        None \<Rightarrow>
          if past_irob_exists (rl (incoming_irobs sk)) i
          then sk_schedule (sched_ack i inval 0) WAITING_ACKS sk
          else sk_schedule (sched_resend i CMM_RESEND_REQUEST_ALL 0) RESEND_REQUESTS sk
      | Some p \<Rightarrow>
          let r0 = CMM_RESEND_REQUEST_NONE;
              r1 = (if placeholder p then r0 OR CMM_RESEND_REQUEST_DEPS else r0);
              r2 = (if get_missing_chunks p \<noteq> [] then r1 OR CMM_RESEND_REQUEST_DATA else r1);
              reqtype = (if seen_end p then r2 OR CMM_RESEND_REQUEST_END else r2)
          in if reqtype = CMM_RESEND_REQUEST_NONE
             then sk_schedule (sched_ack i inval 0) WAITING_ACKS sk
             else sk_schedule (sched_resend i reqtype 0) RESEND_REQUESTS sk)"

definition should_data_check :: "in_addr_t \<Rightarrow> in_addr_t \<Rightarrow> u_long \<Rightarrow> sender_irob \<Rightarrow> bool" where
  "should_data_check local_ip remote_ip label_mask p \<longleftrightarrow>
     wasSentOn local_ip remote_ip p \<and>
     (label_mask = 0 \<or> label_mask AND send_labels p \<noteq> 0) \<and>
     (\<not> has_network_restriction (send_labels p) \<or> fallback_allowed (send_labels p))"

definition data_check_all_irobs :: "in_addr_t \<Rightarrow> in_addr_t \<Rightarrow> u_long \<Rightarrow> msocket \<Rightarrow> msocket result" where
  "data_check_all_irobs local_ip remote_ip label_mask sk =
     foldE (\<lambda>i sk.
         case find_locked (outgoing_irobs sk) i of
           None \<Rightarrow> Inl AssertFailed
         | Some p \<Rightarrow>
             ASSERT (\<not> placeholder p)
               (Inr (if should_data_check local_ip remote_ip label_mask p
                     then sk_schedule ((sched_work i False 0)\<lparr>data_check := True\<rparr>) WAITING_DATA_CHECKS sk
                     else sk)))
       (get_all_ids (outgoing_irobs sk)) sk"

definition goodbye_acked :: "msocket \<Rightarrow> msocket result" where
  "goodbye_acked sk = ASSERT (sk_shutting_down sk) (Inr (sk\<lparr>remote_shutdown := True\<rparr>))"

section \<open>Timeouts\<close>

definition read_timeout_expired :: "timeval \<Rightarrow> timeval \<Rightarrow> msocket \<Rightarrow> bool" where
  "read_timeout_expired now read_begin sk =
     (if tv_sec (receive_timeout sk) = 0 \<and> subsec (receive_timeout sk) = 0 then False
      else timer_le (timeradd MAX_USECS read_begin (receive_timeout sk)) now)"

text \<open>A null pointer is \<open>None\<close>; the result \<open>None\<close> is \<^verbatim>\<open>-1\<close> with \<^verbatim>\<open>EINVAL\<close>.\<close>

definition get_failure_timeout :: "u_long \<Rightarrow> msocket \<Rightarrow> timeval" where
  "get_failure_timeout label sk = (case failure_timeouts sk label of Some t \<Rightarrow> t | None \<Rightarrow> tv (-1) 0)"

definition mc_get_failure_timeout :: "u_long \<Rightarrow> bool \<Rightarrow> msocket \<Rightarrow> timeval option" where
  "mc_get_failure_timeout label ts_given sk = (if ts_given then Some (get_failure_timeout label sk) else None)"

definition mc_set_failure_timeout :: "u_long \<Rightarrow> timeval option \<Rightarrow> msocket \<Rightarrow> msocket option" where
  "mc_set_failure_timeout label ts sk =
     (case ts of
        Some t \<Rightarrow> Some (sk\<lparr>failure_timeouts := (failure_timeouts sk)(label \<mapsto> t)\<rparr>)
      | None \<Rightarrow> None)"

end
