(* ===== verification/CSock_Mapping.thy ===== *)
theory CSock_Mapping
  imports Multisocket
begin

text \<open>
  csocket_mapping.cpp: the set of the connections of a multisocket, and which of them is used for data
  with given labels. \<^verbatim>\<open>available_csocks\<close> is a \<^verbatim>\<open>std::set\<close> of pointers, here the references in
  increasing order. The locks are not modelled. What comes from outside is in \<open>sys_env\<close>: the reference
  that the allocation of a new \<^verbatim>\<open>CSocket\<close> returns, or nothing when \<^verbatim>\<open>socket\<close> fails; the number of bytes
  in the send buffer of a connection; the object that a thread which has to wait registers with its
  thunk; and the effect of \<^verbatim>\<open>NetStats::update\<close> on the cached estimates,
  whose floating-point filters are not modelled.
\<close>

record sys_env =
  alloc :: "msocket \<Rightarrow> csock_ref option"
  unsent_bytes :: "csock_ref \<Rightarrow> int"
  breq :: nat
  stats_update :: "iface_pair \<Rightarrow> stats_cache \<Rightarrow> stats_cache"

section \<open>The set of connections\<close>

definition count :: "msocket \<Rightarrow> nat" where
  "count sk = length (available_csocks sk)"

definition csock_connected :: "msocket \<Rightarrow> csock_ref \<Rightarrow> bool" where
  "csock_connected sk c = (case csock_heap sk c of Some cs \<Rightarrow> connected cs | None \<Rightarrow> False)"

definition count_connected :: "msocket \<Rightarrow> nat" where
  "count_connected sk = length (filter (csock_connected sk) (available_csocks sk))"

definition map_empty :: "msocket \<Rightarrow> bool" where
  "map_empty sk \<longleftrightarrow> available_csocks sk = []"

text \<open>\<open>None\<close>: the chooser is now that of the instruments library.\<close>

definition set_redundancy_strategy :: "int \<Rightarrow> msocket \<Rightarrow> msocket option result" where
  "set_redundancy_strategy t sk =
     bindE (create_chooser t) (\<lambda>r.
       Inr (map_option (\<lambda>ch. sk\<lparr>network_chooser_of := ch, redundancy_strategy_type := t\<rparr>) r))"

definition get_redundancy_strategy :: "msocket \<Rightarrow> int" where
  "get_redundancy_strategy sk = redundancy_strategy_type sk"

text \<open>\<^verbatim>\<open>find_csock\<close> with a predicate on a connection.\<close>

definition find_csock :: "(csocket \<Rightarrow> bool) \<Rightarrow> msocket \<Rightarrow> csock_ref option" where
  "find_csock pred sk =
     find (\<lambda>c. case csock_heap sk c of Some cs \<Rightarrow> pred cs | None \<Rightarrow> False) (available_csocks sk)"

definition csock_by_ifaces :: "net_interface \<Rightarrow> net_interface \<Rightarrow> msocket \<Rightarrow> csock_ref option" where
  "csock_by_ifaces local remote sk =
     find_csock (\<lambda>cs. iface_eq (local_iface cs) local \<and> iface_eq (remote_iface cs) remote) sk"

definition can_satisfy_network_restrictions :: "u_long \<Rightarrow> msocket \<Rightarrow> bool" where
  "can_satisfy_network_restrictions labels sk \<longleftrightarrow> find_csock (\<lambda>cs. fits_net_restriction cs labels) sk \<noteq> None"

definition is_busy :: "sys_env \<Rightarrow> csock_ref \<Rightarrow> csocket \<Rightarrow> bool" where
  "is_busy sys c cs \<longleftrightarrow>
     busy cs \<or> new_irobs (csk_indexes cs) \<noteq> [] \<or> new_chunks (csk_indexes cs) \<noteq> [] \<or> unsent_bytes sys c > 0"

definition get_idle_csock :: "sys_env \<Rightarrow> msocket \<Rightarrow> csock_ref option" where
  "get_idle_csock sys sk =
     find (\<lambda>c. case csock_heap sk c of Some cs \<Rightarrow> \<not> is_busy sys c cs | None \<Rightarrow> False) (available_csocks sk)"

text \<open>\<^verbatim>\<open>CMMSocketImpl::isLoopbackOnly\<close>; the address is in network byte order.\<close>

definition INADDR_LOOPBACK :: int where "INADDR_LOOPBACK = 0x7f000001"

definition isLoopbackOnly :: "msocket \<Rightarrow> bool" where
  "isLoopbackOnly sk \<longleftrightarrow>
     (case local_ifaces sk of [iface] \<Rightarrow> ip_addr iface = word_of_int (htonl INADDR_LOOPBACK) | _ \<Rightarrow> False)"

section \<open>Choosing an interface pair\<close>

definition all_pairs :: "msocket \<Rightarrow> iface_pair list" where
  "all_pairs sk = List.product (local_ifaces sk) (remote_ifaces sk)"

definition fitting_pairs :: "u_long \<Rightarrow> msocket \<Rightarrow> iface_pair list" where
  "fitting_pairs send_label sk =
     filter (\<lambda>(l, r). network_fits_restriction (get_network_type l r) send_label) (all_pairs sk)"

definition get_iface_pair_locked :: "u_long \<Rightarrow> msocket \<Rightarrow> (iface_pair option \<times> msocket) result" where
  "get_iface_pair_locked send_label sk =
     (if isLoopbackOnly sk
      then case (local_ifaces sk, remote_ifaces sk) of
             (l # _, r # _) \<Rightarrow> Inr (Some (l, r), sk)
           | _ \<Rightarrow> Inl OutOfBounds
      else let ps = fitting_pairs send_label sk;
               ch = fold (chooser_consider (stats_cache_of sk)) ps (chooser_reset (network_chooser_of sk));
               sk1 = sk\<lparr>network_chooser_of := ch\<rparr>
           in if ps = [] then Inr (None, sk1) else Inr (choose_networks send_label ch, sk1))"

definition net_available :: "u_long \<Rightarrow> msocket \<Rightarrow> (bool \<times> msocket) result" where
  "net_available labels sk = bindE (get_iface_pair_locked labels sk) (\<lambda>(r, sk1). Inr (r \<noteq> None, sk1))"

definition csock_matches :: "csock_ref \<Rightarrow> u_long \<Rightarrow> msocket \<Rightarrow> (bool \<times> msocket) result" where
  "csock_matches c send_label sk =
     (if send_label = 0 then Inr (True, sk)
      else bindE (get_iface_pair_locked send_label sk) (\<lambda>(r, sk1).
        case r of
          None \<Rightarrow> Inr (False, sk1)
        | Some (l, rm) \<Rightarrow>
            (case csock_heap sk1 c of
               None \<Rightarrow> Inl OutOfBounds
             | Some cs \<Rightarrow> Inr (ip_addr l = ip_addr (local_iface cs) \<and> ip_addr rm = ip_addr (remote_iface cs), sk1))))"

fun find_match :: "u_long \<Rightarrow> csock_ref list \<Rightarrow> msocket \<Rightarrow> (csock_ref option \<times> msocket) result" where
  "find_match send_label [] sk = Inr (None, sk)"
| "find_match send_label (c # cs) sk =
     bindE (csock_matches c send_label sk) (\<lambda>(m, sk1).
       if m then Inr (Some c, sk1) else find_match send_label cs sk1)"

definition csock_with_labels :: "u_long \<Rightarrow> msocket \<Rightarrow> (csock_ref option \<times> msocket) result" where
  "csock_with_labels send_label sk = find_match send_label (available_csocks sk) sk"

text \<open>
  \<^verbatim>\<open>connected_csock_with_labels\<close>: the connected connections are considered in turn and kept in a
  map by their interface pairs, which compare by addresses.
\<close>

fun add_lookup :: "(iface_pair \<times> csock_ref) list \<Rightarrow> (csock_ref \<times> csocket) list \<Rightarrow> (iface_pair \<times> csock_ref) list result" where
  "add_lookup acc [] = Inr acc"
| "add_lookup acc ((c, cs) # rest) =
     ASSERT (\<forall>e\<in>set acc. \<not> (iface_eq (fst (fst e)) (local_iface cs) \<and> iface_eq (snd (fst e)) (remote_iface cs)))
       (add_lookup (acc @ [((local_iface cs, remote_iface cs), c)]) rest)"

definition find_lookup :: "iface_pair \<Rightarrow> (iface_pair \<times> csock_ref) list \<Rightarrow> csock_ref option" where
  "find_lookup p lookup =
     map_option snd (find (\<lambda>(q, _). iface_eq (fst q) (fst p) \<and> iface_eq (snd q) (snd p)) lookup)"

definition connected_csocks :: "msocket \<Rightarrow> (csock_ref \<times> csocket) list" where
  "connected_csocks sk =
     [(c, cs). c \<leftarrow> available_csocks sk, cs \<leftarrow> (case csock_heap sk c of Some cs \<Rightarrow> [cs] | None \<Rightarrow> []), connected cs]"

definition connected_csock_with_labels :: "u_long \<Rightarrow> msocket \<Rightarrow> (csock_ref option \<times> msocket) result" where
  "connected_csock_with_labels send_label sk =
     (if isLoopbackOnly sk
      then Inr (case available_csocks sk of [] \<Rightarrow> None | c # _ \<Rightarrow> Some c, sk)
      else if available_csocks sk = [] then Inr (None, sk)
      else bindE (add_lookup [] (connected_csocks sk)) (\<lambda>lookup.
        let ch = fold (chooser_consider (stats_cache_of sk)) (map fst lookup) (chooser_reset (network_chooser_of sk));
            sk1 = sk\<lparr>network_chooser_of := ch\<rparr>
        in if lookup = [] then Inr (None, sk1)
           else case choose_networks send_label ch of
                  None \<Rightarrow> Inr (None, sk1)
                | Some p \<Rightarrow> ASSERT (find_lookup p lookup \<noteq> None) (Inr (find_lookup p lookup, sk1))))"

section \<open>New connections\<close>

text \<open>A new \<^verbatim>\<open>CSocket\<close>, and \<^verbatim>\<open>startup_workers\<close>.\<close>

definition new_csocket :: "net_interface \<Rightarrow> net_interface \<Rightarrow> int \<Rightarrow> csocket" where
  "new_csocket local remote accepted_sock =
     \<lparr>local_iface = local, remote_iface = remote, connected = False, connection_failed = False,
      accepting = (accepted_sock \<noteq> -1), has_sendr = False, has_recvr = False, busy = False,
      csk_indexes = empty_indexes\<rparr>"

definition startup_workers :: "csock_ref \<Rightarrow> msocket \<Rightarrow> msocket" where
  "startup_workers c sk =
     update_csock c (\<lambda>cs. if \<not> has_sendr cs \<and> \<not> has_recvr cs then cs\<lparr>has_sendr := True, has_recvr := True\<rparr> else cs) sk"

definition add_csock :: "csock_ref \<Rightarrow> csocket \<Rightarrow> msocket \<Rightarrow> msocket" where
  "add_csock c cs sk = sk\<lparr>csock_heap := (csock_heap sk)(c \<mapsto> cs), available_csocks := insort_insert c (available_csocks sk)\<rparr>"

definition erase_csock :: "csock_ref \<Rightarrow> msocket \<Rightarrow> msocket" where
  "erase_csock c sk = sk\<lparr>available_csocks := removeAll c (available_csocks sk)\<rparr>"

text \<open>An attempt at a connection: it may find none for the labels, and the constructor of
  \<^verbatim>\<open>CSocket\<close> throws \<^verbatim>\<open>std::runtime_error\<close> when \<^verbatim>\<open>socket\<close> fails.\<close>

datatype attempt = Csock csock_ref | NoCsock | Throws

definition make_new_csocket ::
  "sys_env \<Rightarrow> net_interface \<Rightarrow> net_interface \<Rightarrow> int \<Rightarrow> msocket \<Rightarrow> (attempt \<times> msocket) result" where
  "make_new_csocket sys local remote accepted_sock sk =
     (let old = csock_by_ifaces local remote sk;
          sk1 = (case old of Some c \<Rightarrow> erase_csock c sk | None \<Rightarrow> sk)
      in if old \<noteq> None \<and> accepted_sock \<le> 0 then Inr (Csock (the old), sk)
         else case alloc sys sk1 of
                None \<Rightarrow> Inr (Throws, sk1)
              | Some c \<Rightarrow>
                  let sk2 = startup_workers c (add_csock c (new_csocket local remote accepted_sock) sk1)
                  in if old \<noteq> None
                     then bindE (data_check_all_irobs (ip_addr local) (ip_addr remote) 0 sk2) (\<lambda>sk3. Inr (Csock c, sk3))
                     else Inr (Csock c, sk2))"

definition new_csock_with_labels :: "sys_env \<Rightarrow> u_long \<Rightarrow> msocket \<Rightarrow> (attempt \<times> msocket) result" where
  "new_csock_with_labels sys send_label sk =
     bindE (csock_with_labels send_label sk) (\<lambda>(found, sk1).
       case found of
         Some c \<Rightarrow> Inr (Csock c, sk1)
       | None \<Rightarrow> bindE (get_iface_pair_locked send_label sk1) (\<lambda>(pair, sk2).
           case pair of
             None \<Rightarrow> Inr (NoCsock, sk2)
           | Some (l, r) \<Rightarrow> make_new_csocket sys l r (-1) sk2))"

section \<open>The connection for an IROB\<close>

text \<open>\<^verbatim>\<open>check_redundancy\<close>; \<open>decided\<close> is the answer of \<^verbatim>\<open>is_redundant\<close> when strategies are given.\<close>

definition check_redundancy :: "bool option \<Rightarrow> msocket \<Rightarrow> sender_irob \<Rightarrow> sender_irob" where
  "check_redundancy decided sk p =
     (if count_connected sk \<le> 1 then p
      else if \<not> can_be_redundant p then p
      else if (case decided of Some b \<Rightarrow> b | None \<Rightarrow> shouldTransmitRedundantly (network_chooser_of sk))
      then mark_send_on_all_networks p else p)"

definition CMM_FAILED :: int where "CMM_FAILED = -1"
definition CMM_DEFERRED :: int where "CMM_DEFERRED = -2"
definition CMM_UNDELIVERABLE :: int where "CMM_UNDELIVERABLE = -3"
definition CMM_BLOCKING :: int where "CMM_BLOCKING = -3"

text \<open>
  \<^verbatim>\<open>CSockMapping::get_csock\<close>. The IROB itself is an argument: it need not be in the lattice yet. The
  result is the return code, the connection, the IROB and the socket.
\<close>

definition get_csock_attempt :: "sys_env \<Rightarrow> u_long \<Rightarrow> msocket \<Rightarrow> (attempt \<times> msocket) result" where
  "get_csock_attempt sys labels sk =
     bindE (get_iface_pair_locked labels sk) (\<lambda>(pair, sk1).
       case pair of
         None \<Rightarrow> Inr (NoCsock, sk1)
       | Some (l, r) \<Rightarrow>
           bindE (connected_csock_with_labels labels sk1) (\<lambda>(c, sk2).
             case c of
               Some c \<Rightarrow> Inr (Csock c, sk2)
             | None \<Rightarrow> bindE (new_csock_with_labels sys labels sk2) (\<lambda>(a, sk3).
                 case a of
                   NoCsock \<Rightarrow> Inr (case csock_by_ifaces l r sk3 of Some c \<Rightarrow> Csock c | None \<Rightarrow> NoCsock, sk3)
                 | _ \<Rightarrow> Inr (a, sk3))))"

definition get_csock_map ::
  "sys_env \<Rightarrow> sender_irob option \<Rightarrow> msocket \<Rightarrow> (int \<times> attempt \<times> sender_irob option \<times> msocket) result" where
  "get_csock_map sys psirob sk =
     (let labels = (case psirob of Some p \<Rightarrow> send_labels p | None \<Rightarrow> 0)
      in bindE (get_csock_attempt sys labels sk) (\<lambda>(a, sk1).
           let psirob' = map_option (check_redundancy None sk1) psirob
           in Inr (case a of
                     Throws \<Rightarrow> (CMM_FAILED, Throws, psirob, sk1)
                   | NoCsock \<Rightarrow>
                       (if \<not> can_satisfy_network_restrictions labels sk1 then CMM_UNDELIVERABLE else CMM_FAILED,
                        NoCsock, psirob', sk1)
                   | Csock c \<Rightarrow> (0, Csock c, psirob', sk1))))"

definition remove_csock :: "csock_ref \<Rightarrow> msocket \<Rightarrow> msocket result" where
  "remove_csock c sk =
     (case csock_heap sk c of
        None \<Rightarrow> Inl AssertFailed
      | Some cs \<Rightarrow> bindE (csock_network_type (local_iface cs) (remote_iface cs)) (\<lambda>_. Inr (erase_csock c sk)))"

text \<open>The request goes to every connection that has not sent what it asks for.\<close>

definition AddRequestIfNotSent :: "scheduling_data \<Rightarrow> csock_ref \<Rightarrow> sender_irob \<times> msocket \<Rightarrow> sender_irob \<times> msocket" where
  "AddRequestIfNotSent d c ps =
     (let (p, sk) = ps
      in if \<not> chunks_ready d
         then if \<not> was_announced c p
              then (p, update_csock c (\<lambda>cs. cs\<lparr>csk_indexes := indexes_insert (csk_indexes cs) d NEW_IROBS\<rparr>) sk) else (p, sk)
         else let (n, p1) = num_ready_bytes c p
              in if n > 0
                 then (p1, update_csock c (\<lambda>cs. cs\<lparr>csk_indexes := indexes_insert (csk_indexes cs) d NEW_CHUNKS\<rparr>) sk)
                 else (p1, sk))"

definition pass_request_to_all_senders :: "scheduling_data \<Rightarrow> sender_irob \<Rightarrow> msocket \<Rightarrow> sender_irob \<times> msocket" where
  "pass_request_to_all_senders d p sk =
     (if data_check d then (p, sk) else fold (AddRequestIfNotSent d) (available_csocks sk) (p, sk))"

text \<open>The choosers modelled here ignore a scheduled re-evaluation.\<close>

definition onRedundancyDecision :: "scheduling_data \<Rightarrow> bool option \<Rightarrow> msocket \<Rightarrow> msocket result" where
  "onRedundancyDecision d decided sk =
     (case find_locked (outgoing_irobs sk) (sd_id d) of
        None \<Rightarrow> Inr sk
      | Some p \<Rightarrow>
          ASSERT (\<not> placeholder p)
            (let p1 = check_redundancy decided sk p
             in if send_on_all_networks p1
                then let (p2, sk1) = pass_request_to_all_senders d p1 sk
                     in Inr (sk1\<lparr>outgoing_irobs := lat_update (sd_id d) (\<lambda>_. onReevaluationDone p2) (outgoing_irobs sk1)\<rparr>)
                else Inr (sk\<lparr>outgoing_irobs := lat_update (sd_id d) (\<lambda>_. p1) (outgoing_irobs sk)\<rparr>)))"

section \<open>Interfaces that appear and disappear\<close>

definition matching_csocks :: "net_interface \<Rightarrow> bool \<Rightarrow> msocket \<Rightarrow> csock_ref list" where
  "matching_csocks iface local sk =
     filter (\<lambda>c. case csock_heap sk c of
         Some cs \<Rightarrow> ip_addr (if local then local_iface cs else remote_iface cs) = ip_addr iface
       | None \<Rightarrow> False) (available_csocks sk)"

definition update_iface :: "sys_env \<Rightarrow> net_interface \<Rightarrow> bool \<Rightarrow> csock_ref \<Rightarrow> msocket \<Rightarrow> msocket result" where
  "update_iface sys iface local c sk =
     (let sk1 = update_csock c (\<lambda>cs. if local then cs\<lparr>local_iface := iface\<rparr> else cs\<lparr>remote_iface := iface\<rparr>) sk
      in case csock_heap sk1 c of
           None \<Rightarrow> Inl AssertFailed
         | Some cs \<Rightarrow>
             bindE (csock_network_type (local_iface cs) (remote_iface cs)) (\<lambda>_.
               Inr (sk1\<lparr>stats_cache_of := stats_update sys (local_iface cs, remote_iface cs) (stats_cache_of sk1)\<rparr>)))"

definition map_setup :: "sys_env \<Rightarrow> net_interface \<Rightarrow> bool \<Rightarrow> bool \<Rightarrow> bool \<Rightarrow> msocket \<Rightarrow> msocket result" where
  "map_setup sys iface local make_connection need_data_check sk =
     bindE (foldE (update_iface sys iface local) (matching_csocks iface local sk) sk) (\<lambda>sk1.
       if \<not> make_connection \<or> accepting_side sk1 \<or> \<not> local then Inr sk1
       else foldE (\<lambda>r sk2.
              if need_data_check \<or> csock_by_ifaces iface r sk2 = None
              then bindE (make_new_csocket sys iface r (-1) sk2) (\<lambda>(a, sk3). if a = Throws then Inl RuntimeError else Inr sk3)
              else Inr sk2) (remote_ifaces sk1) sk1)"

definition map_teardown :: "net_interface \<Rightarrow> bool \<Rightarrow> msocket \<Rightarrow> msocket" where
  "map_teardown iface local sk = foldr erase_csock (matching_csocks iface local sk) sk"

definition get_iface_by_addr :: "net_interface list \<Rightarrow> in_addr_t \<Rightarrow> net_interface option" where
  "get_iface_by_addr ifaces addr = find (\<lambda>i. addr = ip_addr i) ifaces"

end
