(* ===== verification/App_Operations.thy ===== *)
theory App_Operations
  imports CSock_Mapping
begin

text \<open>
  cmm_socket_impl.cpp: the operations that the application's calls end in, which put IROBs and their
  data into \<^verbatim>\<open>outgoing_irobs\<close> and schedule them, the beginning of the shutdown, and the updates from
  the scout. A thread that has to wait for a network gives up the locks: the operation ends there with
  \<open>Blocked\<close>, and a separate definition continues it from the state in which the thread wakes up.
\<close>

section \<open>Finding a connection\<close>

datatype csock_outcome = Code int | Got csock_ref | Blocked

text \<open>The handler of a thread that waits for labels.\<close>

definition unblock_thread_thunk :: nat where "unblock_thread_thunk = 0"

definition register_thunk :: "u_long \<Rightarrow> nat option \<Rightarrow> nat \<Rightarrow> msocket \<Rightarrow> msocket" where
  "register_thunk labels fn arg sk =
     sk\<lparr>thunk_hash_of := enqueue_handler (sock sk) labels fn (Some arg) (thunk_hash_of sk)\<rparr>"

definition get_csock ::
  "sys_env \<Rightarrow> sender_irob option \<Rightarrow> bool \<Rightarrow> msocket \<Rightarrow> (csock_outcome \<times> sender_irob option \<times> msocket) result" where
  "get_csock sys psirob blocking sk =
     (let labels = (case psirob of Some p \<Rightarrow> send_labels p | None \<Rightarrow> 0);
          handler = (case psirob of Some p \<Rightarrow> resume_handler p | None \<Rightarrow> None);
          arg = (case psirob of Some p \<Rightarrow> rh_arg p | None \<Rightarrow> 0)
      in bindE (get_csock_map sys psirob sk) (\<lambda>(rc, a, psirob', sk1).
           Inr (case a of
                  Throws \<Rightarrow> (Code CMM_FAILED, psirob', sk1)
                | NoCsock \<Rightarrow>
                    if rc = CMM_UNDELIVERABLE then (Code rc, psirob', sk1)
                    else if handler \<noteq> None then (Code CMM_DEFERRED, psirob', register_thunk labels handler arg sk1)
                    else if blocking \<and> \<not> sk_non_blocking sk1
                    then (Blocked, psirob', register_thunk labels (Some unblock_thread_thunk) (breq sys) sk1)
                    else (Code CMM_FAILED, psirob', sk1)
                | Csock c \<Rightarrow>
                    if has_label labels CMM_LABEL_BACKGROUND \<and> handler \<noteq> None \<and>
                       (case csock_heap sk1 c of Some cs \<Rightarrow> is_busy sys c cs | None \<Rightarrow> False)
                    then case get_idle_csock sys sk1 of
                           None \<Rightarrow> (Code CMM_DEFERRED, psirob', register_thunk labels handler arg sk1)
                         | Some d \<Rightarrow> (Got d, psirob', sk1)
                    else (Got c, psirob', sk1))))"

text \<open>The loop of \<^verbatim>\<open>get_csock\<close> after the thread has been woken with the given result.\<close>

definition resume_get_csock :: "sys_env \<Rightarrow> u_long \<Rightarrow> int \<Rightarrow> msocket \<Rightarrow> (csock_outcome \<times> msocket) result" where
  "resume_get_csock sys labels rc sk =
     (if rc < 0
      then Inr (Code CMM_FAILED,
             sk\<lparr>thunk_hash_of := snd (cancel_thunk (sock sk) labels (Some unblock_thread_thunk) (Some (breq sys)) (thunk_hash_of sk))\<rparr>)
      else bindE (new_csock_with_labels sys labels sk) (\<lambda>(a, sk1).
        Inr (case a of
               Csock c \<Rightarrow> (Got c, sk1)
             | NoCsock \<Rightarrow> (Blocked, register_thunk labels (Some unblock_thread_thunk) (breq sys) sk1)
             | Throws \<Rightarrow> (Code CMM_FAILED, sk1))))"

section \<open>Scheduling\<close>

text \<open>The asynchronous redundancy check that follows is empty for the choosers modelled here.\<close>

definition addSchedulingData :: "csock_ref \<Rightarrow> index_type \<Rightarrow> scheduling_data \<Rightarrow> msocket \<Rightarrow> msocket" where
  "addSchedulingData c t d sk =
     (if csock_connected sk c
      then update_csock c (\<lambda>cs. cs\<lparr>csk_indexes := indexes_insert (csk_indexes cs) d t\<rparr>) sk
      else sk_schedule d t sk)"

section \<open>IROBs\<close>

text \<open>The result of an operation: its return code, or that the thread waits, with the IROB it is about.\<close>

datatype app_outcome = Returns int | Waits "sender_irob option"

definition begin_irob_commit :: "csock_ref \<Rightarrow> sender_irob \<Rightarrow> msocket \<Rightarrow> (app_outcome \<times> msocket) result" where
  "begin_irob_commit c p sk =
     (if irob_is_undeliverable (outgoing_irobs sk) p then Inr (Returns CMM_UNDELIVERABLE, sk)
      else bindE (insert_locked sender_placeholder sender_subsume True p (outgoing_irobs sk)) (\<lambda>(success, L).
        ASSERT success
          (Inr (Returns 0, addSchedulingData c NEW_IROBS (sched_work (pi_id p) False (send_labels p))
                  (sk\<lparr>outgoing_irobs := L\<rparr>)))))"

definition begin_irob ::
  "sys_env \<Rightarrow> timeval \<Rightarrow> irob_id_t \<Rightarrow> nat \<Rightarrow> int list option \<Rightarrow> u_long \<Rightarrow> nat option \<Rightarrow> nat \<Rightarrow> msocket \<Rightarrow>
   (app_outcome \<times> msocket) result" where
  "begin_irob sys now next_irob numdeps deps_array labels handler arg sk =
     (if sk_shutting_down sk then Inr (Returns CMM_FAILED, sk)
      else bindE (new_sender_irob next_irob numdeps deps_array 0 None labels handler arg now) (\<lambda>p.
           bindE (get_csock sys (Some p) True sk) (\<lambda>(r, p', sk1).
             case r of
               Code rc \<Rightarrow> Inr (Returns rc, sk1)
             | Blocked \<Rightarrow> Inr (Waits p', sk1)
             | Got c \<Rightarrow> begin_irob_commit c (the p') sk1)))"

text \<open>The IROB as the application's thread holds it, in the lattice.\<close>

definition store_irob :: "irob_id_t \<Rightarrow> sender_irob option \<Rightarrow> msocket \<Rightarrow> msocket" where
  "store_irob i p sk =
     (case p of None \<Rightarrow> sk | Some q \<Rightarrow> sk\<lparr>outgoing_irobs := lat_update i (\<lambda>_. q) (outgoing_irobs sk)\<rparr>)"

definition end_irob_commit :: "csock_ref \<Rightarrow> irob_id_t \<Rightarrow> msocket \<Rightarrow> msocket result" where
  "end_irob_commit c i sk =
     (case find_locked (outgoing_irobs sk) i of
        None \<Rightarrow> Inl OutOfBounds
      | Some p \<Rightarrow>
          ASSERT (\<not> placeholder p)
            (let p1 = snd (base_finish p);
                 sk1 = store_irob i (Some p1) sk
             in Inr (if was_announced c p1 \<and> \<not> end_was_announced c p1 \<and> complete p1 \<and> all_bytes_chunked p1
                     then addSchedulingData c FINISHED_IROBS (sched_work i False 0) sk1 else sk1)))"

text \<open>The last chance to report a failure, then the commit. \<open>Waits None\<close>: the thread waits for the
  labels, and goes on with \<open>end_irob_resume\<close>.\<close>

definition end_irob_status :: "sys_env \<Rightarrow> u_long \<Rightarrow> csock_ref \<Rightarrow> irob_id_t \<Rightarrow> msocket \<Rightarrow> (app_outcome \<times> msocket) result" where
  "end_irob_status sys labels c i sk =
     (case find_locked (outgoing_irobs sk) i of
        None \<Rightarrow> Inl OutOfBounds
      | Some p \<Rightarrow>
          let erased = sk\<lparr>outgoing_irobs := snd (erase_locked i False (outgoing_irobs sk))\<rparr>
          in if status p < 0
             then if status p = CMM_DEFERRED then Inr (Returns CMM_DEFERRED, erased)
                  else if status p = CMM_BLOCKING
                  then Inr (Waits None, register_thunk labels (Some unblock_thread_thunk) (breq sys) sk)
                  else Inr (Returns CMM_FAILED, erased)
             else bindE (end_irob_commit c i sk) (\<lambda>sk1. Inr (Returns 0, sk1)))"

definition end_irob_resume :: "csock_ref \<Rightarrow> irob_id_t \<Rightarrow> int \<Rightarrow> msocket \<Rightarrow> (app_outcome \<times> msocket) result" where
  "end_irob_resume c i rc sk =
     (if rc < 0 then Inr (Returns rc, sk\<lparr>outgoing_irobs := snd (erase_locked i False (outgoing_irobs sk))\<rparr>)
      else bindE (end_irob_commit c i sk) (\<lambda>sk1. Inr (Returns 0, sk1)))"

definition end_irob :: "sys_env \<Rightarrow> irob_id_t \<Rightarrow> msocket \<Rightarrow> (app_outcome \<times> msocket) result" where
  "end_irob sys i sk =
     (if sk_shutting_down sk then Inr (Returns CMM_FAILED, sk)
      else case find_locked (outgoing_irobs sk) i of
             None \<Rightarrow> Inr (Returns (-1), sk)
           | Some p \<Rightarrow>
               if complete p then Inr (Returns (-1), sk)
               else let psirob = (if placeholder p then None else Some p)
                    in bindE (get_csock sys psirob False sk) (\<lambda>(r, p', sk1).
                         let sk2 = store_irob i p' sk1
                         in case r of
                              Got c \<Rightarrow> end_irob_status sys (send_labels p) c i sk2
                            | _ \<Rightarrow> bindE (get_csock sys None True sk2) (\<lambda>(r2, _, sk3).
                                 case r2 of
                                   Got c \<Rightarrow> end_irob_status sys 0 c i sk3
                                 | Code rc \<Rightarrow> Inr (Returns rc, sk3)
                                 | Blocked \<Rightarrow> Inr (Waits None, sk3))))"

definition irob_chunk_commit :: "csock_ref \<Rightarrow> irob_id_t \<Rightarrow> byte list \<Rightarrow> msocket \<Rightarrow> (app_outcome \<times> msocket) result" where
  "irob_chunk_commit c i buf sk =
     (case find_locked (outgoing_irobs sk) i of
        None \<Rightarrow> Inl OutOfBounds
      | Some p \<Rightarrow>
          let chunk = \<lparr>ck_id = i, seqno = 0, ck_offset = 0, datalen = length buf, data = Some buf\<rparr>;
              p1 = snd (sender_add_chunk chunk p);
              sk1 = store_irob i (Some p1) sk
          in Inr (Returns (int (length buf)),
                  if was_announced c p1 then addSchedulingData c NEW_CHUNKS (sched_work i True (send_labels p)) sk1
                  else sk1))"

definition irob_chunk :: "sys_env \<Rightarrow> irob_id_t \<Rightarrow> byte list \<Rightarrow> msocket \<Rightarrow> (app_outcome \<times> msocket) result" where
  "irob_chunk sys i buf sk =
     (if sk_shutting_down sk then Inr (Returns CMM_FAILED, sk)
      else case find_locked (outgoing_irobs sk) i of
             None \<Rightarrow> Inr (Returns (if irob_was_dropped (outgoing_irobs sk) i then CMM_UNDELIVERABLE else CMM_FAILED), sk)
           | Some p \<Rightarrow>
               if complete p then Inr (Returns CMM_FAILED, sk)
               else ASSERT (\<not> placeholder p)
                 (bindE (get_csock sys (Some p) True sk) (\<lambda>(r, p', sk1).
                    let sk2 = store_irob i p' sk1
                    in case r of
                         Code rc \<Rightarrow> Inr (Returns rc, sk2)
                       | Blocked \<Rightarrow> Inr (Waits p', sk2)
                       | Got c \<Rightarrow> irob_chunk_commit c i buf sk2)))"

section \<open>Default IROBs\<close>

definition send_default_irob :: "sender_irob \<Rightarrow> csock_ref \<Rightarrow> msocket \<Rightarrow> (int \<times> msocket) result" where
  "send_default_irob p c sk =
     bindE (insert_locked sender_placeholder sender_subsume True p (outgoing_irobs sk)) (\<lambda>(success, L).
       ASSERT success
         (Inr (to_int (int (expected_bytes_sender p)),
               addSchedulingData c NEW_IROBS (sched_work (pi_id p) False (send_labels p)) (sk\<lparr>outgoing_irobs := L\<rparr>))))"

definition validate_default_irob ::
  "sys_env \<Rightarrow> sender_irob \<Rightarrow> msocket \<Rightarrow> (csock_outcome \<times> sender_irob option \<times> msocket) result" where
  "validate_default_irob sys p sk =
     (if sk_shutting_down sk then Inr (Code CMM_FAILED, Some p, sk) else get_csock sys (Some p) True sk)"

text \<open>The commit of a default IROB, with the assertion on the returned size.\<close>

definition default_irob_commit :: "csock_ref \<Rightarrow> sender_irob \<Rightarrow> nat \<Rightarrow> msocket \<Rightarrow> (app_outcome \<times> msocket) result" where
  "default_irob_commit c p len sk =
     bindE (send_default_irob p c sk) (\<lambda>(rc, sk1). ASSERT (rc mod 2 ^ 64 = int len) (Inr (Returns rc, sk1)))"

definition default_irob ::
  "sys_env \<Rightarrow> timeval \<Rightarrow> irob_id_t \<Rightarrow> byte list \<Rightarrow> u_long \<Rightarrow> nat option \<Rightarrow> nat \<Rightarrow> msocket \<Rightarrow> (app_outcome \<times> msocket) result" where
  "default_irob sys now next_irob buf labels handler arg sk =
     bindE (new_sender_irob next_irob 0 None (length buf) (Some buf) labels handler arg now) (\<lambda>p.
     bindE (validate_default_irob sys p sk) (\<lambda>(r, p', sk1).
       case r of
         Code rc \<Rightarrow> Inr (Returns rc, sk1)
       | Blocked \<Rightarrow> Inr (Waits p', sk1)
       | Got c \<Rightarrow> default_irob_commit c (the p') (length buf) sk1))"

text \<open>The copy loop of \<^verbatim>\<open>default_irob_writev\<close>; \<open>vec\<close> holds the bytes of the first \<^verbatim>\<open>count\<close> entries.\<close>

fun copy_vec :: "nat \<Rightarrow> byte list \<Rightarrow> byte list list \<Rightarrow> byte list result" where
  "copy_vec room copied [] = ASSERT (length copied = room) (Inr copied)"
| "copy_vec room copied (v # vec) =
     (if length copied + length v \<le> room then copy_vec room (copied @ v) vec else Inl AssertFailed)"

definition default_irob_writev ::
  "sys_env \<Rightarrow> timeval \<Rightarrow> irob_id_t \<Rightarrow> byte list list \<Rightarrow> nat \<Rightarrow> u_long \<Rightarrow> nat option \<Rightarrow> nat \<Rightarrow> msocket \<Rightarrow>
   (app_outcome \<times> msocket) result" where
  "default_irob_writev sys now next_irob vec nbytes labels handler arg sk =
     bindE (copy_vec nbytes [] vec) (\<lambda>buf.
     bindE (new_sender_irob next_irob 0 None nbytes (Some buf) labels handler arg now) (\<lambda>p.
     bindE (validate_default_irob sys p sk) (\<lambda>(r, p', sk1).
       case r of
         Code rc \<Rightarrow> Inr (Returns rc, sk1)
       | Blocked \<Rightarrow> Inr (Waits p', sk1)
       | Got c \<Rightarrow> bindE (send_default_irob (the p') c sk1) (\<lambda>(rc, sk2). ASSERT (rc = int nbytes) (Inr (Returns rc, sk2))))))"

definition irob_relabel :: "irob_id_t \<Rightarrow> u_long \<Rightarrow> msocket \<Rightarrow> int \<times> msocket" where
  "irob_relabel i new_labels sk = (0, sk)"

section \<open>Shutdown\<close>

text \<open>\<^verbatim>\<open>goodbye\<close>; saving the chooser's estimates to a file is not modelled.\<close>

definition sk_goodbye :: "sys_env \<Rightarrow> bool \<Rightarrow> msocket \<Rightarrow> msocket result" where
  "sk_goodbye sys remote_initiated sk =
     (if sk_shutting_down sk then Inr sk
      else let sk1 = sk\<lparr>sk_shutting_down := True\<rparr>
           in bindE (if remote_initiated
                     then bindE (data_check_all_irobs 0 0 0 sk1) (\<lambda>sk2. Inr (sk2\<lparr>remote_shutdown := True\<rparr>))
                     else Inr sk1) (\<lambda>sk2.
              bindE (if remote_listener_port sk2 > 0
                     then bindE (get_csock sys None False sk2) (\<lambda>(r, _, sk3). Inr (case r of Got _ \<Rightarrow> True | _ \<Rightarrow> False, sk3))
                     else Inr (False, sk2)) (\<lambda>(found, sk3).
                Inr (if found then sk3 else sk3\<lparr>remote_shutdown := True, goodbye_sent := True\<rparr>))))"

section \<open>Updates from the scout\<close>

definition iface_insert :: "net_interface \<Rightarrow> net_interface list \<Rightarrow> net_interface list" where
  "iface_insert = set_insert iface_less"

definition iface_erase :: "net_interface \<Rightarrow> net_interface list \<Rightarrow> net_interface list" where
  "iface_erase = set_erase iface_less"

definition sk_setup :: "sys_env \<Rightarrow> net_interface \<Rightarrow> bool \<Rightarrow> msocket \<Rightarrow> msocket result" where
  "sk_setup sys iface local sk =
     (if isLoopbackOnly sk then Inr sk
      else let known = set_find iface_less iface (if local then local_ifaces sk else remote_ifaces sk);
               need_data_check = (case known of
                   Some old \<Rightarrow> bandwidth_up old = 0 \<and> bandwidth_up iface \<noteq> 0 \<or>
                               bandwidth_down old = 0 \<and> bandwidth_down iface \<noteq> 0
                 | None \<Rightarrow> False)
           in bindE (map_setup sys iface local (bootstrapped sk) need_data_check sk) (\<lambda>sk1.
                Inr (if local
                     then let sk2 = (if set_find iface_less iface (local_ifaces sk1) \<noteq> None
                                     then sk1\<lparr>local_ifaces := iface_erase iface (local_ifaces sk1),
                                              changed_local_ifaces :=
                                                iface_insert iface (iface_erase iface (changed_local_ifaces sk1))\<rparr>
                                     else sk1)
                          in sk2\<lparr>local_ifaces := iface_insert iface (local_ifaces sk2)\<rparr>
                     else sk1\<lparr>remote_ifaces := iface_insert iface (iface_erase iface (remote_ifaces sk1))\<rparr>)))"

definition sk_teardown :: "net_interface \<Rightarrow> bool \<Rightarrow> msocket \<Rightarrow> msocket result" where
  "sk_teardown iface local sk =
     (if isLoopbackOnly sk then Inr sk
      else let sk1 = map_teardown iface local sk
           in if local
              then data_check_all_irobs (ip_addr iface) 0 0
                     (sk1\<lparr>local_ifaces := iface_erase iface (local_ifaces sk1),
                          down_local_ifaces := iface_insert iface (down_local_ifaces sk1)\<rparr>)
              else data_check_all_irobs 0 (ip_addr iface) 0
                     (sk1\<lparr>remote_ifaces := iface_erase iface (remote_ifaces sk1)\<rparr>))"

end
