(* ===== verification/CSocket_Sender.thy ===== *)
theory CSocket_Sender
  imports App_Operations
begin

text \<open>
  csocket_sender.cpp: the thread of a connection that picks requests from the scheduling indexes and
  writes control messages. An action of the thread is a function of the multisocket: it ends with an
  error of the program, or with a value, or with the \<^verbatim>\<open>CMMControlException\<close> that a failed write throws
  (\<open>None\<close>), and it comes with the messages it has written. While the thread waits for another lock or
  for the network it gives up \<^verbatim>\<open>scheduling_state_lock\<close>: what the other threads do to the multisocket
  meanwhile is the function \<open>others\<close> of the thread's environment. The time stamps of the last
  foreground data and of the last data sent, the statistics of the connection and the timeout after which
  the thread looks again are not modelled.
\<close>

section \<open>Actions\<close>

type_synonym wire = "(control_hdr \<times> byte list) list"
type_synonym 'a action = "msocket \<Rightarrow> ('a option \<times> wire \<times> msocket) result"

definition returnA :: "'a \<Rightarrow> 'a action" where
  "returnA x sk = Inr (Some x, [], sk)"

definition bindA :: "'a action \<Rightarrow> ('a \<Rightarrow> 'b action) \<Rightarrow> 'b action" where
  "bindA m f sk =
     bindE (m sk) (\<lambda>(r, w, sk1).
       case r of
         None \<Rightarrow> Inr (None, w, sk1)
       | Some x \<Rightarrow> bindE (f x sk1) (\<lambda>(r2, w2, sk2). Inr (r2, w @ w2, sk2)))"

definition liftA :: "(msocket \<Rightarrow> ('a \<times> msocket) result) \<Rightarrow> 'a action" where
  "liftA m sk = bindE (m sk) (\<lambda>(x, sk1). Inr (Some x, [], sk1))"

definition changeA :: "(msocket \<Rightarrow> msocket) \<Rightarrow> unit action" where
  "changeA f sk = Inr (Some (), [], f sk)"

definition failA :: "cmm_error \<Rightarrow> 'a action" where
  "failA e sk = Inl e"

text \<open>The places where the thread gives up the lock, before and after the call it makes there.\<close>

datatype release_point = Matching bool | Looking_up bool | Is_fg bool | Writing

record sender_env =
  sys :: sys_env
  others :: "release_point \<Rightarrow> msocket \<Rightarrow> msocket"
  written :: "wire \<Rightarrow> bool"
  clock :: timeval
  bw_estimate :: "u_long option"
  last_fg_sec :: int
  bytes_inflight :: int
  ack_qdelay :: timeval
  resume_op :: nat

definition unlocked :: "sender_env \<Rightarrow> (bool \<Rightarrow> release_point) \<Rightarrow> (msocket \<Rightarrow> ('a \<times> msocket) result) \<Rightarrow> 'a action" where
  "unlocked env at m sk =
     bindE (m (others env (at False) sk)) (\<lambda>(x, sk1). Inr (Some x, [], others env (at True) sk1))"

text \<open>
  \<^verbatim>\<open>write\<close> or \<^verbatim>\<open>writev\<close> with the lock given up; when not all bytes are written, \<open>undo\<close> puts the request
  back and the exception is thrown.
\<close>

definition writeA :: "sender_env \<Rightarrow> wire \<Rightarrow> (msocket \<Rightarrow> msocket) \<Rightarrow> unit action" where
  "writeA env ms undo sk =
     (let sk1 = others env Writing sk
      in Inr (if written env ms then (Some (), ms, sk1) else (None, ms, undo sk1)))"

section \<open>The connection\<close>

definition fits :: "csock_ref \<Rightarrow> u_long \<Rightarrow> msocket \<Rightarrow> bool" where
  "fits c labels sk = (case csock_heap sk c of Some cs \<Rightarrow> fits_net_restriction cs labels | None \<Rightarrow> False)"

definition csock_is_fg :: "csock_ref \<Rightarrow> msocket \<Rightarrow> (bool \<times> msocket) result" where
  "csock_is_fg c sk =
     bindE (csock_matches c (CMM_LABEL_ONDEMAND OR CMM_LABEL_SMALL) sk) (\<lambda>(m, sk1).
       if m then Inr (True, sk1) else csock_matches c (CMM_LABEL_ONDEMAND OR CMM_LABEL_LARGE) sk1)"

definition csock_bandwidth :: "sender_env \<Rightarrow> csocket \<Rightarrow> u_long" where
  "csock_bandwidth env cs =
     (case bw_estimate env of Some bw \<Rightarrow> bw | None \<Rightarrow> iface_bandwidth (local_iface cs) (remote_iface cs))"

definition trickle_chunksize :: "sender_env \<Rightarrow> csocket \<Rightarrow> int" where
  "trickle_chunksize env cs = sint ((csock_bandwidth env cs * 50) div 1000)"

definition MIN_CHUNKSIZE :: int where "MIN_CHUNKSIZE = 1500"

definition okay_to_send_bg :: "sender_env \<Rightarrow> csock_ref \<Rightarrow> msocket \<Rightarrow> (bool \<times> int) result" where
  "okay_to_send_bg env c sk =
     (case csock_heap sk c of
        None \<Rightarrow> Inl OutOfBounds
      | Some cs \<Rightarrow>
          bindE (TIMEDIFF MAX_USECS (tv (last_fg_sec env) 0) (clock env)) (\<lambda>since.
            let size0 = (if tv_sec since > 5 then sint (csock_bandwidth env cs) else trickle_chunksize env cs);
                chunksize = max size0 MIN_CHUNKSIZE
            in Inr (0 \<le> bytes_inflight env \<and> bytes_inflight env < chunksize, chunksize)))"

definition csock_schedule :: "csock_ref \<Rightarrow> scheduling_data \<Rightarrow> index_type \<Rightarrow> msocket \<Rightarrow> msocket" where
  "csock_schedule c d t sk = update_csock c (\<lambda>cs. cs\<lparr>csk_indexes := indexes_insert (csk_indexes cs) d t\<rparr>) sk"

section \<open>Delegation\<close>

text \<open>The connection that should send data with these labels.\<close>

definition best_csock :: "sender_env \<Rightarrow> u_long \<Rightarrow> msocket \<Rightarrow> (csock_ref option \<times> msocket) result" where
  "best_csock env labels sk =
     (if accepting_side sk then connected_csock_with_labels labels sk
      else bindE (new_csock_with_labels (sys env) labels sk) (\<lambda>(a, sk1).
        case a of Csock c \<Rightarrow> Inr (Some c, sk1) | NoCsock \<Rightarrow> Inr (None, sk1) | Throws \<Rightarrow> Inl RuntimeError))"

text \<open>The handler that puts a request back when a network is there again.\<close>

definition resume_operation_thunk :: nat where "resume_operation_thunk = 1"

definition resume_operation :: "sender_env \<Rightarrow> scheduling_data \<Rightarrow> msocket \<Rightarrow> msocket result" where
  "resume_operation env d sk =
     (case find_locked (outgoing_irobs sk) (sd_id d) of
        None \<Rightarrow> Inl AssertFailed
      | Some p \<Rightarrow>
          ASSERT (\<not> placeholder p)
            (bindE (best_csock env (send_labels p) sk) (\<lambda>(c, sk1).
               let t = (if chunks_ready d then NEW_CHUNKS else NEW_IROBS)
               in Inr (case c of
                         Some c \<Rightarrow> if csock_connected sk1 c then csock_schedule c d t sk1 else sk_schedule d t sk1
                       | None \<Rightarrow> sk_schedule d t sk1))))"

definition drop_irob :: "irob_id_t \<Rightarrow> msocket \<Rightarrow> msocket" where
  "drop_irob i sk = sk\<lparr>outgoing_irobs := drop_irob_and_dependents i (outgoing_irobs sk)\<rparr>"

text \<open>No connection can be had for the labels of the IROB \<open>p\<close>.\<close>

definition delegate_no_match ::
  "sender_env \<Rightarrow> csock_ref \<Rightarrow> bool \<Rightarrow> sender_irob \<Rightarrow> msocket \<Rightarrow> bool \<times> msocket" where
  "delegate_no_match env c redundant p sk =
     (let i = pi_id p; labels = send_labels p
      in if \<not> fits c labels sk
         then let sk1 = store_irob i (Some (set_status CMM_FAILED p)) sk
              in (True, if complete p then drop_irob i sk1 else sk1)
         else if has_label labels CMM_LABEL_BACKGROUND \<or> redundant then (False, sk)
         else if \<not> complete p
         then (case resume_handler p of
                 Some h \<Rightarrow>
                   (True, store_irob i (Some (set_status CMM_DEFERRED p)) (register_thunk labels (Some h) (rh_arg p) sk))
               | None \<Rightarrow>
                   (True, store_irob i (Some (set_status CMM_BLOCKING p))
                      (register_thunk labels (Some resume_operation_thunk) (resume_op env) sk)))
         else (True, drop_irob i sk))"

text \<open>The connection \<open>m\<close> is the best one for the labels of \<open>p\<close>.\<close>

definition delegate_to_match ::
  "csock_ref \<Rightarrow> csock_ref \<Rightarrow> bool \<Rightarrow> scheduling_data \<Rightarrow> sender_irob \<Rightarrow> msocket \<Rightarrow> bool \<times> msocket" where
  "delegate_to_match c m redundant d p sk =
     (let labels = send_labels p
      in if m \<noteq> c \<and> (csock_connected sk m \<or> \<not> fits c labels sk)
         then let t = (if data_check d then WAITING_DATA_CHECKS else if \<not> chunks_ready d then NEW_IROBS else NEW_CHUNKS);
                  striped = (t = NEW_CHUNKS \<and> has_label labels CMM_LABEL_BACKGROUND \<and> fits c labels sk)
              in (\<not> striped \<and> \<not> (redundant \<and> fits c labels sk), csock_schedule m d t sk)
         else (False, sk))"

text \<open>The result is whether there is nothing left to do for this thread.\<close>

definition delegate_if_necessary :: "sender_env \<Rightarrow> csock_ref \<Rightarrow> irob_id_t \<Rightarrow> scheduling_data \<Rightarrow> bool action" where
  "delegate_if_necessary env c i d sk =
     (case find_locked (outgoing_irobs sk) i of
        None \<Rightarrow> returnA True sk
      | Some p \<Rightarrow>
          ASSERT (\<not> placeholder p)
            (let labels = send_labels p; redundant = send_on_all_networks p
             in bindA (unlocked env Matching (csock_matches c labels)) (\<lambda>m.
                  if m
                  then (\<lambda>sk1. case find_locked (outgoing_irobs sk1) i of
                          None \<Rightarrow> returnA True sk1
                        | Some p1 \<Rightarrow>
                            if redundant
                            then let (p2, sk2) = pass_request_to_all_senders d p1 sk1
                                 in returnA False (store_irob i (Some p2) sk2)
                            else returnA False sk1)
                  else bindA (unlocked env Looking_up (best_csock env labels)) (\<lambda>match sk1.
                         case find_locked (outgoing_irobs sk1) i of
                           None \<Rightarrow> returnA True sk1
                         | Some p1 \<Rightarrow>
                             ASSERT (\<not> placeholder p1)
                               (let (r, sk2) = (case match of
                                      None \<Rightarrow> delegate_no_match env c redundant p1 sk1
                                    | Some m \<Rightarrow> delegate_to_match c m redundant d p1 sk1)
                                in returnA r sk2))) sk))"

definition delegate_resend_request_if_necessary ::
  "sender_env \<Rightarrow> csock_ref \<Rightarrow> irob_id_t \<Rightarrow> receiver_irob \<Rightarrow> scheduling_data \<Rightarrow> bool action" where
  "delegate_resend_request_if_necessary env c i p d sk =
     (if fits c (send_labels p) sk then returnA False sk
      else bindA (unlocked env Looking_up (best_csock env (send_labels p))) (\<lambda>match sk1.
        case find_locked (rl (incoming_irobs sk1)) i of
          None \<Rightarrow> returnA True sk1
        | Some _ \<Rightarrow> (case match of
            Some m \<Rightarrow> returnA True (csock_schedule m d RESEND_REQUESTS sk1)
          | None \<Rightarrow> returnA True sk1)) sk)"

section \<open>Messages about IROBs\<close>

definition begin_msg :: "sender_irob \<Rightarrow> control_hdr \<times> byte list" where
  "begin_msg p =
     (\<lparr>hdr_labels = htonl (uint (send_labels p)),
       hdr_op = Begin_IROB (htonl (pi_id p)) (htonl (int (length (copy_deps_htonl p))))\<rparr>,
      concat (map (le_bytes 8) (copy_deps_htonl p)))"

definition chunk_msg :: "sender_irob \<Rightarrow> nat \<Rightarrow> nat \<Rightarrow> int \<Rightarrow> byte list list \<Rightarrow> control_hdr \<times> byte list" where
  "chunk_msg p sq off len bufs =
     (\<lparr>hdr_labels = htonl (uint (send_labels p)),
       hdr_op = IROB_chunk (htonl (pi_id p)) (htonl (int sq)) (htonl (int off)) (htonl len)\<rparr>, concat bufs)"

definition end_msg :: "sender_irob \<Rightarrow> control_hdr \<times> byte list" where
  "end_msg p =
     (\<lparr>hdr_labels = htonl (uint (send_labels p)),
       hdr_op = End_IROB (htonl (pi_id p)) (htonl (int (expected_bytes_sender p))) (htonl (int (num_sender_chunks p)))\<rparr>, [])"

definition ack_msg :: "sender_env \<Rightarrow> irob_id_t list \<Rightarrow> irob_id_t \<Rightarrow> timeval \<Rightarrow> control_hdr \<times> byte list" where
  "ack_msg env ids i srv_time =
     (\<lparr>hdr_labels = 0,
       hdr_op = Ack (htonl (int (length ids))) (htonl i) srv_time
         (tv (htonl (tv_sec (ack_qdelay env))) (htonl (subsec (ack_qdelay env))))\<rparr>,
      concat (map (\<lambda>j. le_bytes 8 (htonl j)) ids))"

text \<open>\<^verbatim>\<open>psirob->markSentOn(csock)\<close>, and the change of an IROB in the lattice.\<close>

definition marked_sent :: "csock_ref \<Rightarrow> msocket \<Rightarrow> sender_irob \<Rightarrow> sender_irob" where
  "marked_sent c sk p =
     (case csock_heap sk c of
        Some cs \<Rightarrow> markSentOn (ip_addr (local_iface cs)) (ip_addr (remote_iface cs)) p
      | None \<Rightarrow> p)"

text \<open>An IROB small enough to go with its announcement.\<close>

definition send_at_once :: "csock_ref \<Rightarrow> sender_irob \<Rightarrow> bool" where
  "send_at_once c p \<longleftrightarrow>
     complete p \<and> int (expected_bytes_sender p) < MIN_CHUNKSIZE \<and> has_label (send_labels p) CMM_LABEL_ONDEMAND \<and>
     \<not> was_announced c p"

text \<open>The data and the end that go with the announcement, if any, and the IROB afterwards.\<close>

definition whole_irob :: "sender_env \<Rightarrow> csock_ref \<Rightarrow> sender_irob \<Rightarrow> msocket \<Rightarrow> (wire \<times> sender_irob \<times> msocket) result" where
  "whole_irob env c p sk =
     (if \<not> send_at_once c p then Inr ([], p, sk)
      else bindE (get_ready_bytes c (int (expected_bytes_sender p)) (clock env) p) (\<lambda>(bufs, len, sq, off, p1).
        bindE (if len > 0
               then bindE (csock_update_net_restriction_stats c (send_labels p) (nat len) 0 sk) (\<lambda>sk1.
                      Inr ([chunk_msg p sq off len bufs, end_msg p1], p1, sk1))
               else Inr ([], p1, sk)) (\<lambda>r. ASSERT (all_bytes_chunked p1) (Inr r))))"

text \<open>After the announcement has been written.\<close>

definition announced :: "csock_ref \<Rightarrow> scheduling_data \<Rightarrow> bool \<Rightarrow> msocket \<Rightarrow> msocket" where
  "announced c d whole sk =
     (case find_locked (outgoing_irobs sk) (sd_id d) of
        None \<Rightarrow> sk
      | Some p \<Rightarrow>
          if placeholder p then sk
          else let p1 = mark_announcement_sent c p
               in if whole
                  then store_irob (sd_id d) (Some (if complete p1 \<and> all_bytes_chunked p1
                         then mark_end_announcement_sent c p1 else p1)) sk
                  else let sk1 = store_irob (sd_id d) (Some p1) sk
                       in if anonymous p1 \<or> length (chunks p1) > 0
                          then csock_schedule c (sched_work (sd_id d) True (sd_labels d)) NEW_CHUNKS sk1 else sk1)"

definition begin_irob_send :: "sender_env \<Rightarrow> csock_ref \<Rightarrow> scheduling_data \<Rightarrow> bool action" where
  "begin_irob_send env c d sk =
     (case find_locked (outgoing_irobs sk) (sd_id d) of
        None \<Rightarrow> returnA True sk
      | Some p \<Rightarrow>
          bindE (whole_irob env c p sk) (\<lambda>(extra, p1, sk1).
            bindA (writeA env (begin_msg p # extra) (sk_schedule d NEW_IROBS)) (\<lambda>_.
              bindA (changeA (announced c d (extra \<noteq> []))) (\<lambda>_. returnA True))
              (store_irob (sd_id d) (Some (marked_sent c sk1 p1)) sk1)))"

text \<open>Background data goes on a connection that is for foreground data only if that is idle enough.\<close>

definition may_begin :: "sender_env \<Rightarrow> csock_ref \<Rightarrow> scheduling_data \<Rightarrow> bool action" where
  "may_begin env c d =
     (if has_label (sd_labels d) CMM_LABEL_BACKGROUND
      then bindA (unlocked env Is_fg (csock_is_fg c)) (\<lambda>fg.
             if fg then (\<lambda>sk. bindE (okay_to_send_bg env c sk) (\<lambda>(ok, _). returnA ok sk)) else returnA True)
      else returnA True)"

definition sender_begin_irob :: "sender_env \<Rightarrow> csock_ref \<Rightarrow> scheduling_data \<Rightarrow> bool action" where
  "sender_begin_irob env c d sk =
     (case find_locked (outgoing_irobs sk) (sd_id d) of
        None \<Rightarrow> returnA True sk
      | Some p \<Rightarrow>
          ASSERT (\<not> placeholder p)
            (bindA (if \<not> fits c (send_labels p) sk then delegate_if_necessary env c (sd_id d) d else returnA False) (\<lambda>gone.
               if gone then returnA True
               else (\<lambda>sk1. case find_locked (outgoing_irobs sk1) (sd_id d) of
                       None \<Rightarrow> returnA True sk1
                     | Some p1 \<Rightarrow>
                         if was_announced c p1 then begin_irob_send env c d sk1
                         else bindA (may_begin env c d) (\<lambda>ok.
                                if \<not> ok then returnA False
                                else bindA (delegate_if_necessary env c (sd_id d) d) (\<lambda>gone.
                                       if gone then returnA True else begin_irob_send env c d)) sk1)) sk))"

definition sender_end_irob :: "sender_env \<Rightarrow> csock_ref \<Rightarrow> scheduling_data \<Rightarrow> unit action" where
  "sender_end_irob env c d sk =
     (case find_locked (outgoing_irobs sk) (sd_id d) of
        None \<Rightarrow> returnA () sk
      | Some p \<Rightarrow>
          ASSERT (\<not> placeholder p)
            (writeA env [end_msg p] (sk_schedule d FINISHED_IROBS) (store_irob (sd_id d) (Some (marked_sent c sk p)) sk)))"

text \<open>Whether, and how much at once, data of this request may be sent on the connection.\<close>

definition chunk_size :: "sender_env \<Rightarrow> csock_ref \<Rightarrow> scheduling_data \<Rightarrow> (bool \<times> int) action" where
  "chunk_size env c d =
     bindA (if has_label (sd_labels d) CMM_LABEL_BACKGROUND
            then bindA (unlocked env Is_fg (\<lambda>sk. bindE (csock_is_fg c sk) (\<lambda>(fg, sk1).
                     bindE (csock_matches c (sd_labels d) sk1) (\<lambda>(best, sk2). Inr (fg \<or> \<not> best, sk2))))) (\<lambda>careful.
                   if careful then (\<lambda>sk. bindE (okay_to_send_bg env c sk) (\<lambda>r. returnA r sk)) else returnA (True, 4096))
            else returnA (True, 4096)) (\<lambda>(ok, csize) sk.
       returnA (ok, if CSock_Mapping.count sk > 1 then min csize 4096 else csize) sk)"

text \<open>Other threads may send the next chunks of this IROB.\<close>

definition striped :: "sender_irob \<Rightarrow> msocket \<Rightarrow> bool" where
  "striped p sk \<longleftrightarrow>
     has_label (send_labels p) CMM_LABEL_BACKGROUND \<and> \<not> has_network_restriction (send_labels p) \<and> CSock_Mapping.count sk > 1"

definition chunk_sent :: "csock_ref \<Rightarrow> scheduling_data \<Rightarrow> msocket \<Rightarrow> msocket" where
  "chunk_sent c d sk =
     (case find_locked (outgoing_irobs sk) (sd_id d) of
        None \<Rightarrow> sk
      | Some p \<Rightarrow>
          if placeholder p then sk
          else let sk1 = (if complete p \<and> all_bytes_chunked p \<and> \<not> end_was_announced c p
                          then csock_schedule c (sched_work (sd_id d) False 0) FINISHED_IROBS sk else sk)
               in if striped p sk1 then sk1 else csock_schedule c d NEW_CHUNKS sk1)"

text \<open>An acknowledgement that waits goes with the chunk.\<close>

definition piggyback :: "sender_env \<Rightarrow> irob_id_t option \<Rightarrow> wire" where
  "piggyback env ack = (case ack of Some i \<Rightarrow> [ack_msg env [] i (tv 0 0)] | None \<Rightarrow> [])"

definition chunk_failed :: "scheduling_data \<Rightarrow> irob_id_t option \<Rightarrow> msocket \<Rightarrow> msocket" where
  "chunk_failed d ack sk =
     (let sk1 = sk_schedule d NEW_CHUNKS sk
      in case ack of Some i \<Rightarrow> sk_schedule (sched_work i False 0) WAITING_ACKS sk1 | None \<Rightarrow> sk1)"

definition irob_chunk_send ::
  "sender_env \<Rightarrow> csock_ref \<Rightarrow> scheduling_data \<Rightarrow> irob_id_t option \<Rightarrow> int \<Rightarrow> bool action" where
  "irob_chunk_send env c d ack csize sk =
     (case find_locked (outgoing_irobs sk) (sd_id d) of
        None \<Rightarrow> returnA True sk
      | Some p \<Rightarrow>
          ASSERT (\<not> placeholder p)
            (bindE (get_ready_bytes c csize (clock env) p) (\<lambda>(bufs, len, sq, off, p1).
               if len = 0 then returnA True (store_irob (sd_id d) (Some p1) sk)
               else let sk1 = (if striped p1 sk then sk_schedule d NEW_CHUNKS sk else sk)
                    in bindE (csock_update_net_restriction_stats c (send_labels p1) (nat len) 0 sk1) (\<lambda>sk2.
                         bindA (writeA env (piggyback env ack @ [chunk_msg p sq off len bufs]) (chunk_failed d ack)) (\<lambda>_.
                           bindA (changeA (chunk_sent c d)) (\<lambda>_. returnA True))
                           (store_irob (sd_id d) (Some (marked_sent c sk2 p1)) sk2)))))"

definition sender_irob_chunk :: "sender_env \<Rightarrow> csock_ref \<Rightarrow> scheduling_data \<Rightarrow> irob_id_t option \<Rightarrow> bool action" where
  "sender_irob_chunk env c d ack =
     bindA (chunk_size env c d) (\<lambda>(ok, csize).
       if \<not> ok then returnA False
       else bindA (delegate_if_necessary env c (sd_id d) d) (\<lambda>gone.
              if gone then returnA True else irob_chunk_send env c d ack csize))"

section \<open>Other messages\<close>

definition no_labels :: "control_op \<Rightarrow> control_hdr \<times> byte list" where
  "no_labels cop = (\<lparr>hdr_labels = 0, hdr_op = cop\<rparr>, [])"

definition new_interface :: "sender_env \<Rightarrow> net_interface \<Rightarrow> unit action" where
  "new_interface env iface =
     writeA env [no_labels (New_Interface (ip_addr iface) (htonl (uint (bandwidth_down iface)))
         (htonl (uint (bandwidth_up iface))) (htonl (uint (RTT iface))) (htonl (sint (type iface))))]
       (\<lambda>sk. sk\<lparr>changed_local_ifaces := iface_insert iface (changed_local_ifaces sk)\<rparr>)"

definition down_interface :: "sender_env \<Rightarrow> net_interface \<Rightarrow> unit action" where
  "down_interface env iface =
     writeA env [no_labels (Down_Interface (ip_addr iface))]
       (\<lambda>sk. sk\<lparr>down_local_ifaces := iface_insert iface (down_local_ifaces sk)\<rparr>)"

definition goodbye :: "sender_env \<Rightarrow> unit action" where
  "goodbye env =
     bindA (writeA env [no_labels Goodbye] (\<lambda>sk. sk\<lparr>sending_goodbye := False\<rparr>)) (\<lambda>_.
       changeA (\<lambda>sk. sk\<lparr>goodbye_sent := True\<rparr>))"

text \<open>The indexes a request comes from: those of the connection or those of the multisocket.\<close>

datatype place = Of_csock | Of_socket

fun get_indexes :: "place \<Rightarrow> csock_ref \<Rightarrow> msocket \<Rightarrow> sched_indexes" where
  "get_indexes Of_csock c sk = (case csock_heap sk c of Some cs \<Rightarrow> csk_indexes cs | None \<Rightarrow> empty_indexes)"
| "get_indexes Of_socket c sk = irob_indexes sk"

fun put_indexes :: "place \<Rightarrow> csock_ref \<Rightarrow> sched_indexes \<Rightarrow> msocket \<Rightarrow> msocket" where
  "put_indexes Of_csock c ix sk = update_csock c (\<lambda>cs. cs\<lparr>csk_indexes := ix\<rparr>) sk"
| "put_indexes Of_socket c ix sk = sk\<lparr>irob_indexes := ix\<rparr>"

definition MAX_ACKS :: nat where "MAX_ACKS = 150"

definition ack_srv_time :: "sender_env \<Rightarrow> scheduling_data \<Rightarrow> timeval result" where
  "ack_srv_time env d =
     (let t = completion_time d
      in if tv_sec t = 0 \<or> subsec t = -1 then Inr t else TIMEDIFF MAX_USECS t (clock env))"

definition send_acks :: "sender_env \<Rightarrow> csock_ref \<Rightarrow> scheduling_data \<Rightarrow> place \<Rightarrow> unit action" where
  "send_acks env c d pl sk =
     bindE (ack_srv_time env d) (\<lambda>srv.
       let ix = get_indexes pl c sk;
           tmp = take MAX_ACKS (waiting_acks ix);
           sk1 = put_indexes pl c (ix\<lparr>waiting_acks := drop MAX_ACKS (waiting_acks ix)\<rparr>) sk
       in writeA env [ack_msg env (map sd_id tmp) (sd_id d) (tv (htonl (tv_sec srv)) (htonl (subsec srv)))]
            (\<lambda>sk2. sk2\<lparr>irob_indexes := (irob_indexes sk2)\<lparr>waiting_acks := pset_insert_range (waiting_acks (irob_indexes sk2)) tmp\<rparr>\<rparr>)
            sk1)"

text \<open>The messages of a resend request; \<open>missing\<close> are the numbers of the chunks to ask for.\<close>

definition resend_msgs :: "irob_id_t \<Rightarrow> 32 word \<Rightarrow> nat list \<Rightarrow> receiver_irob option \<Rightarrow> wire" where
  "resend_msgs i req missing p =
     no_labels (Resend_Request (htonl i) (htonl (uint req)) (case missing of [] \<Rightarrow> 0 | sq # _ \<Rightarrow> htonl (int sq))
       (case p of Some q \<Rightarrow> if has_request req CMM_RESEND_REQUEST_END then htonl (next_chunk_seqno q) else 0 | None \<Rightarrow> 0)) #
     map (\<lambda>sq. no_labels (Resend_Request (htonl i) (htonl (uint CMM_RESEND_REQUEST_DATA)) (htonl (int sq)) 0)) (tl missing)"

definition sender_resend_request :: "sender_env \<Rightarrow> csock_ref \<Rightarrow> scheduling_data \<Rightarrow> unit action" where
  "sender_resend_request env c d sk =
     (let i = sd_id d;
          p = find_locked (rl (incoming_irobs sk)) i;
          missing = (case p of
              Some q \<Rightarrow> if has_request (resend_request d) CMM_RESEND_REQUEST_DATA then get_missing_chunks q else []
            | None \<Rightarrow> []);
          req = (if missing = [] then resend_request d AND NOT CMM_RESEND_REQUEST_DATA else resend_request d)
      in if \<not> has_request req CMM_RESEND_REQUEST_ALL then returnA () sk
         else bindA (case p of Some q \<Rightarrow> delegate_resend_request_if_necessary env c i q d | None \<Rightarrow> returnA False) (\<lambda>gone.
                if gone then returnA () else writeA env (resend_msgs i req missing p) (sk_schedule d RESEND_REQUESTS)) sk)"

text \<open>What goes before a data check, so that small losses are repaired at once: the announcement, the next
  data or the last data sent, and the end.\<close>

definition recap_chunk :: "sender_env \<Rightarrow> csock_ref \<Rightarrow> sender_irob \<Rightarrow> (wire \<times> sender_irob) result" where
  "recap_chunk env c p =
     bindE (get_ready_bytes c MIN_CHUNKSIZE (clock env) p) (\<lambda>(bufs, len, sq, off, p1).
       if bufs \<noteq> [] then Inr ([chunk_msg p sq off len bufs], p1)
       else bindE (get_last_sent_chunk_htonl c p1) (\<lambda>((ck, bufs1), p2).
              Inr (case ck of
                     Some (nid, nsq, noff, nlen) \<Rightarrow>
                       if bufs1 = [] then []
                       else [(\<lparr>hdr_labels = htonl (uint (send_labels p)), hdr_op = IROB_chunk nid nsq noff nlen\<rparr>, concat bufs1)]
                   | None \<Rightarrow> [], p2)))"

definition data_check_msg :: "irob_id_t \<Rightarrow> u_long \<Rightarrow> control_hdr \<times> byte list" where
  "data_check_msg i labels = (\<lparr>hdr_labels = htonl (uint labels), hdr_op = Data_Check (htonl i)\<rparr>, [])"

definition send_data_check :: "sender_env \<Rightarrow> csock_ref \<Rightarrow> scheduling_data \<Rightarrow> unit action" where
  "send_data_check env c d sk =
     (let i = sd_id d; write = (\<lambda>ms. writeA env ms (sk_schedule d WAITING_DATA_CHECKS))
      in case find_locked (outgoing_irobs sk) i of
           None \<Rightarrow> write [data_check_msg i 0] sk
         | Some p \<Rightarrow>
             if placeholder p then write [data_check_msg i 0] sk
             else bindA (delegate_if_necessary env c i d) (\<lambda>gone.
                    if gone then returnA ()
                    else (\<lambda>sk1. case find_locked (outgoing_irobs sk1) i of
                            None \<Rightarrow> Inl OutOfBounds
                          | Some p1 \<Rightarrow>
                              bindE (recap_chunk env c p1) (\<lambda>(cks, p2).
                                write (begin_msg p1 # cks @
                                       (if complete p2 \<and> all_bytes_chunked p2 then [end_msg p2] else []) @
                                       [data_check_msg i (send_labels p1)])
                                  (store_irob i (Some (marked_sent c sk1 p2)) sk1)))) sk)"

section \<open>Choosing work\<close>

definition pop_index :: "index_type \<Rightarrow> sched_indexes \<Rightarrow> (scheduling_data \<times> sched_indexes) option" where
  "pop_index t ix =
     (case t of
        NEW_IROBS \<Rightarrow> map_option (\<lambda>(d, ts). (d, ix\<lparr>new_irobs := ts\<rparr>)) (pset_pop (new_irobs ix))
      | NEW_CHUNKS \<Rightarrow> map_option (\<lambda>(d, ts). (d, ix\<lparr>new_chunks := ts\<rparr>)) (pset_pop (new_chunks ix))
      | FINISHED_IROBS \<Rightarrow> map_option (\<lambda>(d, ts). (d, ix\<lparr>finished_irobs := ts\<rparr>)) (pset_pop (finished_irobs ix))
      | WAITING_ACKS \<Rightarrow> map_option (\<lambda>(d, ts). (d, ix\<lparr>waiting_acks := ts\<rparr>)) (pset_pop (waiting_acks ix))
      | RESEND_REQUESTS \<Rightarrow> map_option (\<lambda>(d, ts). (d, ix\<lparr>resend_requests := ts\<rparr>)) (pset_pop (resend_requests ix))
      | WAITING_DATA_CHECKS \<Rightarrow> map_option (\<lambda>(d, ts). (d, ix\<lparr>waiting_data_checks := ts\<rparr>)) (pset_pop (waiting_data_checks ix)))"

definition popA :: "place \<Rightarrow> csock_ref \<Rightarrow> index_type \<Rightarrow> scheduling_data option action" where
  "popA pl c t sk =
     (case pop_index t (get_indexes pl c sk) of
        None \<Rightarrow> returnA None sk
      | Some (d, ix) \<Rightarrow> returnA (Some d) (put_indexes pl c ix sk))"

text \<open>\<^verbatim>\<open>remove\<close> of a request for the given IROB from \<^verbatim>\<open>new_chunks\<close> or \<^verbatim>\<open>finished_irobs\<close>.\<close>

definition remove_chunkA :: "place \<Rightarrow> csock_ref \<Rightarrow> irob_id_t \<Rightarrow> scheduling_data option action" where
  "remove_chunkA pl c i sk =
     (let ix = get_indexes pl c sk
      in case pset_remove (new_chunks ix) i of
           None \<Rightarrow> returnA None sk
         | Some (d, ts) \<Rightarrow> returnA (Some d) (put_indexes pl c (ix\<lparr>new_chunks := ts\<rparr>) sk))"

definition remove_finishedA :: "place \<Rightarrow> csock_ref \<Rightarrow> irob_id_t \<Rightarrow> scheduling_data option action" where
  "remove_finishedA pl c i sk =
     (let ix = get_indexes pl c sk
      in case pset_remove (finished_irobs ix) i of
           None \<Rightarrow> returnA None sk
         | Some (d, ts) \<Rightarrow> returnA (Some d) (put_indexes pl c (ix\<lparr>finished_irobs := ts\<rparr>) sk))"

definition insertA :: "place \<Rightarrow> csock_ref \<Rightarrow> scheduling_data \<Rightarrow> index_type \<Rightarrow> unit action" where
  "insertA pl c d t = changeA (\<lambda>sk. put_indexes pl c (indexes_insert (get_indexes pl c sk) d t) sk)"

definition set_busy :: "csock_ref \<Rightarrow> bool \<Rightarrow> unit action" where
  "set_busy c b = changeA (update_csock c (\<lambda>cs. cs\<lparr>busy := b\<rparr>))"

text \<open>A chunk with an acknowledgement that waits; if nothing is sent both requests go back.\<close>

definition chunk_with_ack :: "sender_env \<Rightarrow> place \<Rightarrow> csock_ref \<Rightarrow> scheduling_data \<Rightarrow> bool action" where
  "chunk_with_ack env pl c d =
     bindA (popA pl c WAITING_ACKS) (\<lambda>ack.
     bindA (sender_irob_chunk env c d (map_option sd_id ack)) (\<lambda>ok.
       if ok then returnA True
       else bindA (insertA pl c d NEW_CHUNKS) (\<lambda>_.
            bindA (case ack of Some a \<Rightarrow> insertA pl c a WAITING_ACKS | None \<Rightarrow> returnA ()) (\<lambda>_. returnA False))))"

text \<open>The loops end when there is no request left, or after \<open>n\<close> rounds with an error of the model.\<close>

fun more_chunks :: "nat \<Rightarrow> sender_env \<Rightarrow> place \<Rightarrow> csock_ref \<Rightarrow> irob_id_t \<Rightarrow> unit action" where
  "more_chunks 0 env pl c i = failA OutOfFuel"
| "more_chunks (Suc n) env pl c i =
     bindA (remove_chunkA pl c i) (\<lambda>r.
       case r of
         None \<Rightarrow> returnA ()
       | Some d \<Rightarrow> bindA (chunk_with_ack env pl c d) (\<lambda>ok. if ok then more_chunks n env pl c i else returnA ()))"

fun data_checks :: "nat \<Rightarrow> sender_env \<Rightarrow> place \<Rightarrow> csock_ref \<Rightarrow> bool \<Rightarrow> bool action" where
  "data_checks 0 env pl c did = failA OutOfFuel"
| "data_checks (Suc n) env pl c did =
     bindA (popA pl c WAITING_DATA_CHECKS) (\<lambda>r.
       case r of
         None \<Rightarrow> returnA did
       | Some d \<Rightarrow> bindA (send_data_check env c d) (\<lambda>_. data_checks n env pl c True))"

text \<open>The rest of an IROB after its announcement or a first chunk.\<close>

definition rest_of_irob :: "nat \<Rightarrow> sender_env \<Rightarrow> place \<Rightarrow> csock_ref \<Rightarrow> irob_id_t \<Rightarrow> unit action" where
  "rest_of_irob n env pl c i =
     bindA (more_chunks n env pl c i) (\<lambda>_.
     bindA (remove_finishedA pl c i) (\<lambda>r. case r of None \<Rightarrow> returnA () | Some d \<Rightarrow> sender_end_irob env c d))"

definition work_acks :: "sender_env \<Rightarrow> place \<Rightarrow> csock_ref \<Rightarrow> bool action" where
  "work_acks env pl c =
     bindA (popA pl c WAITING_ACKS) (\<lambda>r.
       case r of None \<Rightarrow> returnA False | Some d \<Rightarrow> bindA (send_acks env c d pl) (\<lambda>_. returnA True))"

definition work_begin :: "nat \<Rightarrow> sender_env \<Rightarrow> place \<Rightarrow> csock_ref \<Rightarrow> bool \<Rightarrow> bool action" where
  "work_begin n env pl c did =
     bindA (popA pl c NEW_IROBS) (\<lambda>r.
       case r of
         None \<Rightarrow> returnA did
       | Some d \<Rightarrow>
           bindA (set_busy c True) (\<lambda>_.
           bindA (sender_begin_irob env c d) (\<lambda>ok.
           bindA (if ok then bindA (rest_of_irob n env pl c (sd_id d)) (\<lambda>_. returnA True)
                  else bindA (insertA pl c d NEW_IROBS) (\<lambda>_. returnA did)) (\<lambda>did'.
           bindA (set_busy c False) (\<lambda>_. returnA did')))))"

definition work_chunk :: "nat \<Rightarrow> sender_env \<Rightarrow> place \<Rightarrow> csock_ref \<Rightarrow> bool \<Rightarrow> bool action" where
  "work_chunk n env pl c did =
     bindA (popA pl c NEW_CHUNKS) (\<lambda>r.
       case r of
         None \<Rightarrow> returnA did
       | Some d \<Rightarrow>
           bindA (set_busy c True) (\<lambda>_.
           bindA (chunk_with_ack env pl c d) (\<lambda>ok.
           bindA (if ok then bindA (rest_of_irob n env pl c (sd_id d)) (\<lambda>_. returnA True) else returnA did) (\<lambda>did'.
           bindA (set_busy c False) (\<lambda>_. returnA did')))))"

definition work_end :: "sender_env \<Rightarrow> place \<Rightarrow> csock_ref \<Rightarrow> bool \<Rightarrow> bool action" where
  "work_end env pl c did =
     bindA (popA pl c FINISHED_IROBS) (\<lambda>r.
       case r of
         None \<Rightarrow> returnA did
       | Some d \<Rightarrow>
           bindA (set_busy c True) (\<lambda>_. bindA (sender_end_irob env c d) (\<lambda>_.
           bindA (set_busy c False) (\<lambda>_. returnA True))))"

definition work_resend :: "sender_env \<Rightarrow> place \<Rightarrow> csock_ref \<Rightarrow> bool \<Rightarrow> bool action" where
  "work_resend env pl c did =
     bindA (popA pl c RESEND_REQUESTS) (\<lambda>r.
       case r of None \<Rightarrow> returnA did | Some d \<Rightarrow> bindA (sender_resend_request env c d) (\<lambda>_. returnA True))"

definition work_ifaces :: "sender_env \<Rightarrow> bool \<Rightarrow> bool action" where
  "work_ifaces env did =
     bindA (\<lambda>sk. case pop_item (changed_local_ifaces sk) of
         None \<Rightarrow> returnA did sk
       | Some (iface, rest) \<Rightarrow> bindA (new_interface env iface) (\<lambda>_. returnA True) (sk\<lparr>changed_local_ifaces := rest\<rparr>)) (\<lambda>did' sk.
       case pop_item (down_local_ifaces sk) of
         None \<Rightarrow> returnA did' sk
       | Some (iface, rest) \<Rightarrow> bindA (down_interface env iface) (\<lambda>_. returnA True) (sk\<lparr>down_local_ifaces := rest\<rparr>))"

definition schedule_work :: "nat \<Rightarrow> sender_env \<Rightarrow> place \<Rightarrow> csock_ref \<Rightarrow> bool action" where
  "schedule_work n env pl c =
     bindA (work_acks env pl c) (\<lambda>did.
     bindA (data_checks n env pl c did) (\<lambda>did.
     bindA (work_begin n env pl c did) (\<lambda>did.
     bindA (work_chunk n env pl c did) (\<lambda>did.
     bindA (work_end env pl c did) (\<lambda>did.
     bindA (work_resend env pl c did) (work_ifaces env))))))"

section \<open>The thread\<close>

definition nothingToSend :: "csock_ref \<Rightarrow> msocket \<Rightarrow> bool" where
  "nothingToSend c sk \<longleftrightarrow>
     (let ix = get_indexes Of_csock c sk
      in waiting_acks ix = [] \<and> waiting_acks (irob_indexes sk) = [] \<and> resend_requests ix = [] \<and>
         resend_requests (irob_indexes sk) = [] \<and> lat_empty (outgoing_irobs sk) \<and> down_local_ifaces sk = [] \<and>
         waiting_data_checks ix = [] \<and> waiting_data_checks (irob_indexes sk) = [])"

text \<open>How a round of the main loop ends.\<close>

datatype round_end = Again | Wait_for_work | Wait_for_goodbye | Returned

definition has_receiver :: "csock_ref \<Rightarrow> msocket \<Rightarrow> bool" where
  "has_receiver c sk = (case csock_heap sk c of Some cs \<Rightarrow> has_recvr cs | None \<Rightarrow> False)"

definition round_shutdown :: "sender_env \<Rightarrow> csock_ref \<Rightarrow> round_end action" where
  "round_shutdown env c =
     bindA (\<lambda>sk. if \<not> goodbye_sent sk \<and> \<not> sending_goodbye sk then goodbye env (sk\<lparr>sending_goodbye := True\<rparr>) else returnA () sk) (\<lambda>_ sk.
       returnA (if \<not> remote_shutdown sk \<and> has_receiver c sk then Wait_for_goodbye else Returned) sk)"

definition both_indexes :: "nat \<Rightarrow> sender_env \<Rightarrow> csock_ref \<Rightarrow> bool action" where
  "both_indexes n env c =
     bindA (schedule_work n env Of_csock c) (\<lambda>did. if did then returnA True else schedule_work n env Of_socket c)"

text \<open>With nothing to do, the thread fires thunks without the lock and looks again.\<close>

definition sender_round :: "nat \<Rightarrow> sender_env \<Rightarrow> csock_ref \<Rightarrow> round_end action" where
  "sender_round n env c sk =
     (if sk_shutting_down sk \<and> nothingToSend c sk then round_shutdown env c sk
      else if \<not> has_receiver c sk
      then if sk_shutting_down sk \<and> goodbye_sent sk then failA RuntimeError sk else Inr (None, [], sk)
      else bindA (both_indexes n env c) (\<lambda>did.
             if did then returnA Again
             else (\<lambda>sk1. case csock_heap sk1 c of
                     None \<Rightarrow> Inl OutOfBounds
                   | Some cs \<Rightarrow>
                       if is_busy (sys env) c cs then returnA Wait_for_work sk1
                       else bindA (both_indexes n env c) (\<lambda>did. returnA (if did then Again else Wait_for_work))
                              (others env (Is_fg True) sk1))) sk)"

section \<open>The end of the thread\<close>

definition force_shutdown :: "msocket \<Rightarrow> msocket" where
  "force_shutdown sk = sk\<lparr>sk_shutting_down := True, remote_shutdown := True, goodbye_sent := True\<rparr>"

text \<open>The handler of \<^verbatim>\<open>CMMControlException\<close>: what the thread still had to do goes to another one.\<close>

definition control_failure :: "sender_env \<Rightarrow> csock_ref \<Rightarrow> msocket \<Rightarrow> msocket result" where
  "control_failure env c sk =
     bindE (remove_csock c sk) (\<lambda>sk1.
       let work = get_indexes Of_csock c sk1;
           ip = (case csock_heap sk1 c of Some cs \<Rightarrow> ip_addr (local_iface cs) | None \<Rightarrow> 0);
           pass_on = (\<lambda>s. s\<lparr>irob_indexes := indexes_add (irob_indexes s) work\<rparr>)
       in if accepting_side sk1
          then bindE (data_check_all_irobs ip 0 0 (pass_on sk1)) (\<lambda>sk2.
                 Inr (if map_empty sk2 then force_shutdown sk2 else sk2))
          else bindE (new_csock_with_labels (sys env) 0 sk1) (\<lambda>(a, sk2).
                 case a of
                   Throws \<Rightarrow> Inl RuntimeError
                 | NoCsock \<Rightarrow> Inr (force_shutdown sk2)
                 | Csock r \<Rightarrow>
                     data_check_all_irobs ip 0 0
                       (if csock_connected sk2 r
                        then update_csock r (\<lambda>cs. cs\<lparr>csk_indexes := indexes_add (csk_indexes cs) work\<rparr>) sk2
                        else pass_on sk2)))"

definition sender_finish :: "csock_ref \<Rightarrow> msocket \<Rightarrow> msocket result" where
  "sender_finish c sk = bindE (remove_csock c sk) (\<lambda>sk1. Inr (update_csock c (\<lambda>cs. cs\<lparr>has_sendr := False\<rparr>) sk1))"

end
