(* ===== verification/Chunks.thy ===== *)
theory Chunks
  imports Control_Msg
begin

text \<open>
  Lists of chunks as both ends of a connection see them: chunks that follow each other without gaps,
  chunks whose data has the length they claim, and the bytes they hold.
\<close>

section \<open>Contiguous chunks\<close>

definition contig :: "irob_chunk_data list \<Rightarrow> bool" where
  "contig cs \<longleftrightarrow> (\<forall>k<length cs. ck_offset (cs ! k) = sum_list (map datalen (take k cs)))"

abbreviation tot_len :: "irob_chunk_data list \<Rightarrow> nat" where
  "tot_len cs \<equiv> sum_list (map datalen cs)"

lemma contig_Nil [simp]: "contig []"
  by (simp add: contig_def)

lemma contig_snoc: "contig (cs @ [c]) \<longleftrightarrow> contig cs \<and> ck_offset c = tot_len cs"
  by (auto simp: contig_def nth_append less_Suc_eq)

lemma total_take_Suc: "k < length cs \<Longrightarrow> tot_len (take (Suc k) cs) = tot_len (take k cs) + datalen (cs ! k)"
  by (simp add: take_Suc_conv_app_nth)

lemma total_take_mono: "j \<le> k \<Longrightarrow> tot_len (take j cs) \<le> tot_len (take k cs)"
  using sum_list_take_mono [of j k "map datalen cs"] by (simp add: take_map)

lemma total_take_le: "tot_len (take k cs) \<le> tot_len cs"
  using total_take_mono [of k "max k (length cs)" cs] by simp

lemma contig_unique:
  assumes "contig cs" "j < length cs" "k < length cs"
    and "ck_offset (cs ! j) \<le> x" "x < ck_offset (cs ! j) + datalen (cs ! j)"
    and "ck_offset (cs ! k) \<le> x" "x < ck_offset (cs ! k) + datalen (cs ! k)"
  shows "j = k"
proof -
  have "\<not> a < b" if "a < length cs" "b < length cs" "x < ck_offset (cs ! a) + datalen (cs ! a)"
    "ck_offset (cs ! b) \<le> x" for a b
    using that assms(1) total_take_mono [of "Suc a" b cs] total_take_Suc [of a cs]
    by (auto simp: contig_def)
  then show ?thesis using assms by (meson linorder_less_linear)
qed

section \<open>The bytes of chunks\<close>

definition app_bytes :: "irob_chunk_data list \<Rightarrow> byte list" where
  "app_bytes cs = concat (map (\<lambda>c. case data c of Some d \<Rightarrow> d | None \<Rightarrow> []) cs)"

definition filled :: "irob_chunk_data \<Rightarrow> bool" where
  "filled c \<longleftrightarrow> (\<exists>d. data c = Some d \<and> length d = datalen c)"

lemma length_app_bytes: "\<forall>c\<in>set cs. filled c \<Longrightarrow> length (app_bytes cs) = tot_len cs"
  by (induction cs) (auto simp: app_bytes_def filled_def)

lemma app_bytes_simps [simp]: "app_bytes [] = []"
  "app_bytes (c # cs) = (case data c of Some d \<Rightarrow> d | None \<Rightarrow> []) @ app_bytes cs"
  "app_bytes (cs @ ds) = app_bytes cs @ app_bytes ds"
  by (simp_all add: app_bytes_def)

end
