(* ===== verification/Sender_Inv.thy ===== *)
theory Sender_Inv
  imports Sender_IROB Chunks
begin

text \<open>
  The invariant of an IROB at its sender and what its operations return under it: no assertion of
  pending_sender_irob.cpp fails, every chunk that is handed out is a slice of the application's data
  at the offset that is handed out with it, and a connection that keeps asking gets all of it.
\<close>

section \<open>Finding a chunk by its offset\<close>

lemma find_app_chunk_inside:
  assumes "contig cs" and "x < tot_len cs"
  obtains k where "find_app_chunk cs x = Inr k" "k < length cs"
    "ck_offset (cs ! k) \<le> x" "x < ck_offset (cs ! k) + datalen (cs ! k)"
proof -
  let ?P = "\<lambda>c. ck_offset c \<le> x"
  let ?it = "length (takeWhile ?P cs)"
  have ne: "cs \<noteq> []" using assms(2) by auto
  then have "ck_offset (cs ! 0) = 0" using assms(1) by (simp add: contig_def)
  then have it: "0 < ?it" using ne by (cases cs) auto
  have le: "?it \<le> length cs" by (rule length_takeWhile_le)
  have tgt: "ck_offset (cs ! (?it - 1)) \<le> x"
    using takeWhile_nth [of "?it - 1" ?P cs] nth_mem [of "?it - 1" "takeWhile ?P cs"] it
    by (metis diff_less set_takeWhileD zero_less_one)
  have fin: "x < ck_offset (cs ! (?it - 1)) + datalen (cs ! (?it - 1))"
  proof -
    have "x < tot_len (take ?it cs)"
    proof (cases "?it < length cs")
      case True
      then have "\<not> ?P (cs ! ?it)" by (rule nth_length_takeWhile)
      then show ?thesis using assms(1) True by (simp add: contig_def)
    next
      case False
      then show ?thesis using assms(2) le by simp
    qed
    moreover have "tot_len (take ?it cs) = ck_offset (cs ! (?it - 1)) + datalen (cs ! (?it - 1))"
    proof -
      have k: "?it - 1 < length cs" "Suc (?it - 1) = ?it" using it le by linarith+
      then show ?thesis using total_take_Suc [OF k(1)] assms(1) by (simp add: contig_def)
    qed
    ultimately show ?thesis by simp
  qed
  have k: "?it - 1 < length cs" using it le by linarith
  show ?thesis
    by (rule that [of "?it - 1"])
       (use ne it k tgt fin in \<open>auto simp: find_app_chunk_def Let_def\<close>)
qed

lemma find_app_chunk_end:
  assumes "contig cs" and "tot_len cs \<le> x"
  shows "find_app_chunk cs x = Inr (length cs)"
proof (cases "cs = []")
  case False
  have all: "ck_offset c \<le> x" if c: "c \<in> set cs" for c
  proof -
    obtain k where "k < length cs" "c = cs ! k" using c by (auto simp: in_set_conv_nth)
    then show ?thesis using assms total_take_le [of k cs] by (simp add: contig_def)
  qed
  then have eq: "takeWhile (\<lambda>c. ck_offset c \<le> x) cs = cs" by simp
  have "ck_offset (cs ! (length cs - 1)) + datalen (cs ! (length cs - 1)) = tot_len cs"
    using total_take_Suc [of "length cs - 1" cs] assms(1) False by (simp add: contig_def)
  then show ?thesis
    using False assms(2) unfolding find_app_chunk_def Let_def eq by simp
qed (simp add: find_app_chunk_def)

section \<open>Gathering\<close>

lemma gather_spec:
  assumes "\<forall>c\<in>set cs. filled c" and "cs \<noteq> [] \<Longrightarrow> cur \<le> datalen (hd cs)"
    and "gather cs cur got len = (bufs, got')"
  shows "concat bufs = take (nat (len - got)) (drop cur (app_bytes cs)) \<and>
         got' = got + int (length (concat bufs))"
  using assms
proof (induction cs cur got len arbitrary: bufs got' rule: gather.induct)
  case (1 cur got len)
  then show ?case by (simp add: app_bytes_def)
next
  case (2 c cs cur got len)
  show ?case
  proof (cases "got < len")
    case False
    then show ?thesis using 2 by simp
  next
    case True
    obtain d where d: "data c = Some d" "length d = datalen c" using 2 by (auto simp: filled_def)
    define n where "n = min (datalen c - cur) (nat (len - got))"
    have cur: "cur \<le> datalen c" using 2(3) by simp
    let ?bytes = "if int (datalen c) - int cur + got > len then len - got else int (datalen c) - int cur"
    have n: "?bytes = int n" using cur True by (auto simp: n_def)
    obtain bufs1 got1 where g: "gather cs 0 (got + int n) len = (bufs1, got1)" by fastforce
    have r: "bufs = take n (drop cur d) # bufs1" "got' = got1"
      using 2(4) True g d n by (auto simp: Let_def split: prod.splits)
    have IH: "concat bufs1 = take (nat (len - (got + int n))) (app_bytes cs)"
      "got1 = got + int n + int (length (concat bufs1))"
      using 2(1) [OF True refl refl, unfolded n, OF _ _ g] 2(2) by auto
    have bytes: "app_bytes (c # cs) = d @ app_bytes cs" by (simp add: app_bytes_def d)
    have "concat bufs = take (nat (len - got)) (drop cur (app_bytes (c # cs)))"
    proof (cases "datalen c - cur \<le> nat (len - got)")
      case True
      then have "n = datalen c - cur" by (simp add: n_def)
      then show ?thesis using True cur d 
        by (simp add: r IH bytes) (rule arg_cong [where f = "\<lambda>k. take k (app_bytes cs)"], linarith)
    next
      case False
      then have "n = nat (len - got)" by (simp add: n_def)
      then show ?thesis using False cur d \<open>got < len\<close> by (simp add: r IH bytes)
    qed
    moreover have "got' = got + int (length (concat bufs))"
    proof -
      have "length (take n (drop cur d)) = n" using d by (simp add: n_def)
      then show ?thesis using r IH(2) by simp
    qed
    ultimately show ?thesis by blast
  qed
qed

section \<open>The invariant\<close>

text \<open>The cursor of a key of the two maps: absent entries stand for zero.\<close>

definition cursor :: "sender_irob \<Rightarrow> csock_ref option \<Rightarrow> nat \<times> nat" where
  "cursor p k = (case next_seqnos_to_send p k of Some n \<Rightarrow> n | None \<Rightarrow> 0,
                 case irob_offsets p k of Some n \<Rightarrow> n | None \<Rightarrow> 0)"

definition sender_data :: "sender_irob \<Rightarrow> byte list" where
  "sender_data p = app_bytes (chunks p)"

definition sender_ok :: "sender_irob \<Rightarrow> bool" where
  "sender_ok p \<longleftrightarrow>
     contig (chunks p) \<and> (\<forall>c\<in>set (chunks p). filled c) \<and> num_bytes p = tot_len (chunks p) \<and>
     contig (sent_chunks p) \<and> tot_len (sent_chunks p) \<le> num_bytes p \<and>
     (\<forall>k<length (sent_chunks p). seqno (sent_chunks p ! k) = k) \<and>
     (\<forall>c\<in>set (sent_chunks p). 0 < datalen c \<and> ck_id c = pi_id p) \<and>
     (\<forall>k. fst (cursor p k) \<le> length (sent_chunks p) \<and>
          snd (cursor p k) = tot_len (take (fst (cursor p k)) (sent_chunks p))) \<and>
     set (resend_chunks p) \<subseteq> set (sent_chunks p)"

lemma sender_okD:
  assumes "sender_ok p"
  shows "contig (chunks p)" "\<forall>c\<in>set (chunks p). filled c" "num_bytes p = tot_len (chunks p)"
    "contig (sent_chunks p)" "tot_len (sent_chunks p) \<le> num_bytes p"
    "k < length (sent_chunks p) \<Longrightarrow> seqno (sent_chunks p ! k) = k"
    "c \<in> set (sent_chunks p) \<Longrightarrow> 0 < datalen c" "c \<in> set (sent_chunks p) \<Longrightarrow> ck_id c = pi_id p"
    "fst (cursor p j) \<le> length (sent_chunks p)"
    "snd (cursor p j) = tot_len (take (fst (cursor p j)) (sent_chunks p))"
    "set (resend_chunks p) \<subseteq> set (sent_chunks p)"
  using assms by (auto simp: sender_ok_def)

lemma length_sender_data: "sender_ok p \<Longrightarrow> length (sender_data p) = num_bytes p"
  by (simp add: sender_data_def length_app_bytes sender_okD)

lemma sum_datalen_num_bytes: "sender_ok p \<Longrightarrow> expected_bytes_sender p = num_bytes p"
  by (simp add: expected_bytes_sender_def sum_datalen_eq sender_okD)

text \<open>What \<^verbatim>\<open>get_bytes_internal\<close> gathers: new data up to \<open>len\<close> bytes, or again the send-chunk that
  begins at \<open>offset\<close>.\<close>

lemma gather_at:
  assumes ok: "sender_ok p" and k: "k < length (chunks p)" "ck_offset (chunks p ! k) \<le> x"
    "x < ck_offset (chunks p ! k) + datalen (chunks p ! k)"
  obtains bufs where "gather (drop k (chunks p)) (x - ck_offset (chunks p ! k)) 0 len =
      (bufs, int (length (concat bufs)))" "concat bufs = take (nat len) (drop x (sender_data p))"
proof -
  let ?off = "ck_offset (chunks p ! k)"
  obtain bufs got where g: "gather (drop k (chunks p)) (x - ?off) 0 len = (bufs, got)" by fastforce
  have fill: "\<forall>c\<in>set (drop k (chunks p)). filled c" "\<forall>c\<in>set (take k (chunks p)). filled c"
    using sender_okD(2) [OF ok] by (auto dest: in_set_dropD in_set_takeD)
  have spec: "concat bufs = take (nat (len - 0)) (drop (x - ?off) (app_bytes (drop k (chunks p))))"
    "got = int (length (concat bufs))"
    using gather_spec [OF fill(1) _ g] k by (auto simp: hd_drop_conv_nth)
  have "sender_data p = app_bytes (take k (chunks p)) @ app_bytes (drop k (chunks p))"
    unfolding sender_data_def app_bytes_def by (metis append_take_drop_id concat_append map_append)
  moreover have "length (app_bytes (take k (chunks p))) = ?off"
    using length_app_bytes [OF fill(2)] sender_okD(1) [OF ok] k(1) by (simp add: contig_def)
  ultimately have "drop x (sender_data p) = drop (x - ?off) (app_bytes (drop k (chunks p)))"
    using k(2) by simp
  then show ?thesis using that g spec by simp
qed

lemma get_bytes_new:
  assumes ok: "sender_ok p" and x: "tot_len (sent_chunks p) \<le> x"
  obtains bufs where "get_bytes_internal x len p = Inr (bufs, int (length (concat bufs)))"
    "concat bufs = take (nat len) (drop x (sender_data p))"
proof (cases "x < tot_len (chunks p)")
  case True
  obtain k where k: "find_app_chunk (chunks p) x = Inr k" "k < length (chunks p)"
    "ck_offset (chunks p ! k) \<le> x" "x < ck_offset (chunks p ! k) + datalen (chunks p ! k)"
    by (rule find_app_chunk_inside [OF sender_okD(1) [OF ok] True])
  obtain bufs where "gather (drop k (chunks p)) (x - ck_offset (chunks p ! k)) 0 len =
      (bufs, int (length (concat bufs)))" "concat bufs = take (nat len) (drop x (sender_data p))"
    by (rule gather_at [OF ok k(2-4)])
  then show ?thesis
    using that k(1,2) find_app_chunk_end [OF sender_okD(4) [OF ok] x] by (simp add: get_bytes_internal_def)
next
  case False
  then have "find_app_chunk (chunks p) x = Inr (length (chunks p))"
    using find_app_chunk_end [OF sender_okD(1) [OF ok]] by simp
  moreover have "drop x (sender_data p) = []"
    using False length_sender_data [OF ok] sender_okD(3) [OF ok] by simp
  ultimately show ?thesis using that [of "[]"] by (simp add: get_bytes_internal_def)
qed

lemma get_bytes_again:
  assumes ok: "sender_ok p" and k: "k < length (sent_chunks p)"
  obtains bufs where
    "get_bytes_internal (ck_offset (sent_chunks p ! k)) len p =
       Inr (bufs, int (datalen (sent_chunks p ! k)))"
    "concat bufs = take (datalen (sent_chunks p ! k)) (drop (ck_offset (sent_chunks p ! k)) (sender_data p))"
proof -
  let ?c = "sent_chunks p ! k"
  let ?x = "ck_offset ?c"
  have pos: "0 < datalen ?c" using sender_okD(7) [OF ok] k by simp
  have fin: "?x + datalen ?c \<le> num_bytes p"
    using total_take_Suc [OF k] total_take_le [of "Suc k" "sent_chunks p"] sender_okD(4,5) [OF ok] k
    by (simp add: contig_def)
  obtain j where j: "find_app_chunk (chunks p) ?x = Inr j" "j < length (chunks p)"
    "ck_offset (chunks p ! j) \<le> ?x" "?x < ck_offset (chunks p ! j) + datalen (chunks p ! j)"
    by (rule find_app_chunk_inside [OF sender_okD(1) [OF ok], of ?x])
       (use fin pos sender_okD(3) [OF ok] in auto)
  have "?x < tot_len (sent_chunks p)"
    using total_take_Suc [OF k] total_take_le [of "Suc k" "sent_chunks p"] sender_okD(4) [OF ok] k pos
    by (simp add: contig_def)
  then obtain s where s: "find_app_chunk (sent_chunks p) ?x = Inr s" "s < length (sent_chunks p)"
    "ck_offset (sent_chunks p ! s) \<le> ?x" "?x < ck_offset (sent_chunks p ! s) + datalen (sent_chunks p ! s)"
    by (rule find_app_chunk_inside [OF sender_okD(4) [OF ok]])
  have "s = k" by (rule contig_unique [OF sender_okD(4) [OF ok] s(2) k s(3,4)]) (use pos in auto)
  obtain bufs where g: "gather (drop j (chunks p)) (?x - ck_offset (chunks p ! j)) 0 (int (datalen ?c)) =
      (bufs, int (length (concat bufs)))"
      "concat bufs = take (nat (int (datalen ?c))) (drop ?x (sender_data p))"
    by (rule gather_at [OF ok j(2-4)])
  have "length (concat bufs) = datalen ?c"
    using g(2) fin length_sender_data [OF ok] by simp
  then show ?thesis
    using that g j(1,2) s(1,2) \<open>s = k\<close> by (simp add: get_bytes_internal_def)
qed

section \<open>Cursors\<close>

abbreviation ckey :: "csock_ref \<Rightarrow> sender_irob \<Rightarrow> csock_ref option" where
  "ckey \<equiv> null_index_if_single_sending"

lemma ckey_fields [simp]:
  "ckey c (p\<lparr>irob_offsets := f\<rparr>) = ckey c p" "ckey c (p\<lparr>next_seqnos_to_send := g\<rparr>) = ckey c p"
  "ckey c (p\<lparr>sent_chunks := s\<rparr>) = ckey c p" "ckey c (p\<lparr>resend_chunks := s\<rparr>) = ckey c p"
  by (simp_all add: null_index_if_single_sending_def)

lemma get_irob_offset_eq:
  "get_irob_offset c p =
     (snd (cursor p (ckey c p)), p\<lparr>irob_offsets := (irob_offsets p)(ckey c p \<mapsto> snd (cursor p (ckey c p)))\<rparr>)"
  by (cases p) (auto simp: get_irob_offset_def cursor_def Let_def fun_upd_idem null_index_if_single_sending_def
      split: option.splits)

lemma increment_irob_offset_eq:
  "increment_irob_offset c n p =
     p\<lparr>irob_offsets := (irob_offsets p)(ckey c p \<mapsto> snd (cursor p (ckey c p)) + n)\<rparr>"
  by (auto simp: increment_irob_offset_def cursor_def Let_def split: option.splits)

lemma get_next_seqno_to_send_eq:
  "get_next_seqno_to_send c p =
     ASSERT (fst (cursor p (ckey c p)) \<le> length (sent_chunks p))
       (Inr (fst (cursor p (ckey c p)),
             p\<lparr>next_seqnos_to_send := (next_seqnos_to_send p)(ckey c p \<mapsto> fst (cursor p (ckey c p)))\<rparr>))"
  by (cases p) (auto simp: get_next_seqno_to_send_def cursor_def Let_def fun_upd_idem
      null_index_if_single_sending_def split: option.splits)

lemma increment_seqno_eq:
  "increment_seqno c p =
     p\<lparr>next_seqnos_to_send := (next_seqnos_to_send p)(ckey c p \<mapsto> fst (cursor p (ckey c p)) + 1)\<rparr>"
  by (auto simp: increment_seqno_def cursor_def Let_def split: option.splits)

lemma cursor_upd:
  "cursor (p\<lparr>irob_offsets := (irob_offsets p)(k \<mapsto> n)\<rparr>) j = (fst (cursor p j), if j = k then n else snd (cursor p j))"
  "cursor (p\<lparr>next_seqnos_to_send := (next_seqnos_to_send p)(k \<mapsto> n)\<rparr>) j =
     (if j = k then n else fst (cursor p j), snd (cursor p j))"
  by (simp_all add: cursor_def)

text \<open>Reading a cursor leaves the IROB as it was, up to entries for zero.\<close>

definition touch :: "csock_ref \<Rightarrow> sender_irob \<Rightarrow> sender_irob" where
  "touch c p = p\<lparr>irob_offsets := (irob_offsets p)(ckey c p \<mapsto> snd (cursor p (ckey c p))),
     next_seqnos_to_send := (next_seqnos_to_send p)(ckey c p \<mapsto> fst (cursor p (ckey c p)))\<rparr>"

definition touch_offset :: "csock_ref \<Rightarrow> sender_irob \<Rightarrow> sender_irob" where
  "touch_offset c p = p\<lparr>irob_offsets := (irob_offsets p)(ckey c p \<mapsto> snd (cursor p (ckey c p)))\<rparr>"

lemma cursor_touch [simp]: "cursor (touch c p) = cursor p" "cursor (touch_offset c p) = cursor p"
  by (auto simp: touch_def touch_offset_def cursor_def fun_eq_iff)

lemma touch_fields [simp]:
  "chunks (touch c p) = chunks p" "sent_chunks (touch c p) = sent_chunks p"
  "resend_chunks (touch c p) = resend_chunks p" "num_bytes (touch c p) = num_bytes p"
  "pi_id (touch c p) = pi_id p" "ckey d (touch c p) = ckey d p" "sender_data (touch c p) = sender_data p"
  "chunks (touch_offset c p) = chunks p" "sent_chunks (touch_offset c p) = sent_chunks p"
  "resend_chunks (touch_offset c p) = resend_chunks p" "num_bytes (touch_offset c p) = num_bytes p"
  "pi_id (touch_offset c p) = pi_id p" "ckey d (touch_offset c p) = ckey d p"
  "sender_data (touch_offset c p) = sender_data p"
  "send_on_all_networks (touch c p) = send_on_all_networks p"
  by (simp_all add: touch_def touch_offset_def null_index_if_single_sending_def sender_data_def)

lemma sender_ok_touch [simp]: "sender_ok (touch c p) = sender_ok p" "sender_ok (touch_offset c p) = sender_ok p"
  by (simp_all add: sender_ok_def)

lemma get_bytes_touch: "get_bytes_internal x len (touch c p) = get_bytes_internal x len p"
  unfolding get_bytes_internal_def touch_fields by (rule refl)

text \<open>\<^verbatim>\<open>get_ready_bytes\<close> with the cursor written out.\<close>

definition advance :: "csock_ref \<Rightarrow> nat \<Rightarrow> timeval \<Rightarrow> sender_irob \<Rightarrow> sender_irob" where
  "advance c n now p = p\<lparr>next_seqnos_to_send := (next_seqnos_to_send p)(ckey c p \<mapsto> fst (cursor p (ckey c p)) + 1),
     irob_offsets := (irob_offsets p)(ckey c p \<mapsto> snd (cursor p (ckey c p)) + n), last_send_time := now\<rparr>"

lemma add_sent_chunk_eq:
  assumes "fst (cursor p (ckey c p)) \<le> length (sent_chunks p)"
  shows "add_sent_chunk c len now p =
    (let (s, x) = cursor p (ckey c p)
     in if s = length (sent_chunks p)
        then Inr ((advance c (nat len) now p)\<lparr>sent_chunks := sent_chunks p @
               [\<lparr>ck_id = pi_id p, seqno = s, ck_offset = x, datalen = nat len, data = None\<rparr>]\<rparr>)
        else ASSERT (ck_offset (sent_chunks p ! s) = x) (ASSERT (int (datalen (sent_chunks p ! s)) = len)
               (Inr (advance c (nat len) now p))))"
  using assms
  by (cases p) (simp add: add_sent_chunk_def get_next_seqno_to_send_eq increment_seqno_eq get_irob_offset_eq
    increment_irob_offset_eq advance_def cursor_def null_index_if_single_sending_def Let_def
    split: prod.splits)

lemma get_ready_bytes_fresh:
  assumes ok: "sender_ok p" and none: "resend_chunks p = []"
    and s_def: "s = fst (cursor p (ckey c p))" and x_def: "x = snd (cursor p (ckey c p))"
  shows "get_ready_bytes c req now p =
    bindE (get_bytes_internal x (if req \<le> 0 then int (num_bytes p) - int x else req) p) (\<lambda>(dat, len).
      if len = 0 then Inr (dat, 0, s, x, touch c p)
      else bindE (add_sent_chunk c len now (touch c p)) (\<lambda>p'. Inr (dat, len, s, x, p')))"
proof -
  have p0: "get_irob_offset c p = (x, touch_offset c p)" by (simp add: get_irob_offset_eq touch_offset_def x_def)
  have p1: "get_next_seqno_to_send c (touch_offset c p) = Inr (s, touch c p)"
    using sender_okD(9) [OF ok, of "ckey c p"]
    by (simp add: get_next_seqno_to_send_eq s_def) (simp add: touch_offset_def touch_def)
  have p2: "get_irob_offset c (touch c p) = (x, touch c p)"
    by (cases p) (simp add: get_irob_offset_eq touch_def x_def cursor_def null_index_if_single_sending_def)
  show ?thesis by (simp add: get_ready_bytes_def p0 none p1 p2 get_bytes_touch Let_def)
qed

lemma sender_ok_advance:
  assumes ok: "sender_ok p" and "s = fst (cursor p (ckey c p))" and "s < length (sent_chunks p)"
    and n: "n = datalen (sent_chunks p ! s)"
  shows "sender_ok (advance c n now p)"
proof -
  have cur: "cursor (advance c n now p) j =
      (if j = ckey c p then (s + 1, snd (cursor p j) + n) else cursor p j)" for j
    using assms(2) by (auto simp: advance_def cursor_def)
  have "fst (cursor (advance c n now p) j) \<le> length (sent_chunks p) \<and>
      snd (cursor (advance c n now p) j) = tot_len (take (fst (cursor (advance c n now p) j)) (sent_chunks p))" for j
    unfolding cur using sender_okD(9,10) [OF ok, of j] assms(2,3) n total_take_Suc [OF assms(3)] by auto
  then show ?thesis using ok unfolding sender_ok_def by (simp add: advance_def)
qed

lemma sender_ok_new_chunk:
  assumes ok: "sender_ok p" and s: "s = fst (cursor p (ckey c p))" "s = length (sent_chunks p)"
    and x: "x = snd (cursor p (ckey c p))" and n: "0 < n" "x + n \<le> num_bytes p"
  shows "sender_ok ((advance c n now p)\<lparr>sent_chunks := sent_chunks p @
           [\<lparr>ck_id = pi_id p, seqno = s, ck_offset = x, datalen = n, data = None\<rparr>]\<rparr>)"
    (is "sender_ok ?p'")
proof -
  have cur: "cursor ?p' j = (if j = ckey c p then (s + 1, x + n) else cursor p j)" for j
    using s x by (auto simp: advance_def cursor_def)
  have xt: "x = tot_len (sent_chunks p)" using sender_okD(10) [OF ok, of "ckey c p"] s x by simp
  have "fst (cursor ?p' j) \<le> length (sent_chunks ?p') \<and>
      snd (cursor ?p' j) = tot_len (take (fst (cursor ?p' j)) (sent_chunks ?p'))" for j
    unfolding cur using sender_okD(9,10) [OF ok, of j] s xt by auto
  moreover have "contig (sent_chunks ?p')" using sender_okD(4) [OF ok] xt by (simp add: contig_snoc)
  moreover have "\<forall>k<length (sent_chunks ?p'). seqno (sent_chunks ?p' ! k) = k"
    using sender_okD(6) [OF ok] s by (auto simp: nth_append less_Suc_eq)
  moreover have "chunks ?p' = chunks p" "num_bytes ?p' = num_bytes p" "resend_chunks ?p' = resend_chunks p"
    "pi_id ?p' = pi_id p" by (simp_all add: advance_def)
  ultimately show ?thesis
    using ok n xt unfolding sender_ok_def by auto
qed

text \<open>The contract of \<^verbatim>\<open>get_ready_bytes\<close>.\<close>

definition ready_result ::
  "csock_ref \<Rightarrow> int \<Rightarrow> sender_irob \<Rightarrow> byte list list \<times> int \<times> nat \<times> nat \<times> sender_irob \<Rightarrow> bool" where
  "ready_result c req p r = (case r of (dat, len, sq, off, p') \<Rightarrow>
     sender_ok p' \<and> chunks p' = chunks p \<and> (\<exists>more. sent_chunks p' = sent_chunks p @ more) \<and>
     len = int (length (concat dat)) \<and> concat dat = take (nat len) (drop off (sender_data p)) \<and>
     (0 < len \<longrightarrow> sq < length (sent_chunks p') \<and> ck_offset (sent_chunks p' ! sq) = off \<and>
                  int (datalen (sent_chunks p' ! sq)) = len))"

definition ready_fresh ::
  "csock_ref \<Rightarrow> sender_irob \<Rightarrow> byte list list \<times> int \<times> nat \<times> nat \<times> sender_irob \<Rightarrow> bool" where
  "ready_fresh c p r = (case r of (dat, len, sq, off, p') \<Rightarrow>
     (sq, off) = cursor p (ckey c p) \<and> (off < num_bytes p \<longrightarrow> 0 < len) \<and>
     resend_chunks p' = [] \<and> ckey c p' = ckey c p \<and> num_bytes p' = num_bytes p \<and>
     snd (cursor p' (ckey c p)) = off + nat len)"

lemma get_ready_bytes_resend:
  assumes ok: "sender_ok p" and r: "resend_chunks p = chunk # rest"
  obtains dat where "get_ready_bytes c req now p =
      Inr (dat, int (datalen chunk), seqno chunk, ck_offset chunk, (touch_offset c p)\<lparr>resend_chunks := rest\<rparr>)"
    "ready_result c req p (dat, int (datalen chunk), seqno chunk, ck_offset chunk,
       (touch_offset c p)\<lparr>resend_chunks := rest\<rparr>)"
proof -
  let ?p1 = "(touch_offset c p)\<lparr>resend_chunks := rest\<rparr>"
  have "chunk \<in> set (sent_chunks p)" using sender_okD(11) [OF ok] r by simp
  then obtain k where k: "k < length (sent_chunks p)" "chunk = sent_chunks p ! k" by (auto simp: in_set_conv_nth)
  have cur: "cursor ?p1 = cursor p" by (auto simp: fun_eq_iff cursor_def touch_offset_def)
  have ok1: "sender_ok ?p1"
    using ok r unfolding sender_ok_def by (simp add: cur)
  obtain dat where d: "get_bytes_internal (ck_offset chunk) (int (datalen chunk)) ?p1 = Inr (dat, int (datalen chunk))"
    "concat dat = take (datalen chunk) (drop (ck_offset chunk) (sender_data ?p1))"
    using get_bytes_again [OF ok1, of k "int (datalen chunk)"] k by auto
  have sd: "sender_data ?p1 = sender_data p" by (simp add: sender_data_def touch_offset_def)
  have "ck_offset chunk + datalen chunk \<le> num_bytes p"
    using total_take_Suc [OF k(1)] total_take_le [of "Suc k" "sent_chunks p"] sender_okD(4,5) [OF ok] k
    by (simp add: contig_def)
  then have "length (concat dat) = datalen chunk"
    using d(2) length_sender_data [OF ok] by (simp add: sd)
  then have "ready_result c req p (dat, int (datalen chunk), seqno chunk, ck_offset chunk, ?p1)"
    using ok1 d(2) k sender_okD(6) [OF ok k(1)] by (simp add: ready_result_def sd)
  moreover have "get_ready_bytes c req now p = Inr (dat, int (datalen chunk), seqno chunk, ck_offset chunk, ?p1)"
  proof -
    have "get_irob_offset c p = (snd (cursor p (ckey c p)), touch_offset c p)"
      by (simp add: get_irob_offset_eq touch_offset_def)
    then show ?thesis using d(1) r by (simp add: get_ready_bytes_def)
  qed
  ultimately show ?thesis using that by blast
qed

lemma take_own_length: "xs = take m ys \<Longrightarrow> xs = take (length xs) ys"
  by (cases "m \<le> length ys") simp_all

lemma get_ready_bytes_new:
  assumes ok: "sender_ok p" and none: "resend_chunks p = []"
  obtains r where "get_ready_bytes c req now p = Inr r" "ready_result c req p r" "ready_fresh c p r"
proof -
  obtain s x where sx: "cursor p (ckey c p) = (s, x)" by fastforce
  have s: "s \<le> length (sent_chunks p)" "x = tot_len (take s (sent_chunks p))"
    using sender_okD(9,10) [OF ok, of "ckey c p"] sx by simp_all
  let ?req = "if req \<le> 0 then int (num_bytes p) - int x else req"
  note eq = get_ready_bytes_fresh [OF ok none refl refl, of c req now, unfolded sx fst_conv snd_conv]
  let ?q = "touch c p"
  have q: "sender_ok ?q" "cursor ?q (ckey c ?q) = (s, x)" using ok sx by simp_all
  show ?thesis
  proof (cases "s = length (sent_chunks p)")
    case True
    then have xt: "x = tot_len (sent_chunks p)" using s by simp
    obtain bufs where b: "get_bytes_internal x ?req p = Inr (bufs, int (length (concat bufs)))"
      "concat bufs = take (nat ?req) (drop x (sender_data p))"
      by (rule get_bytes_new [OF ok eq_refl [OF xt [symmetric]]])
    have len: "length (concat bufs) = min (nat ?req) (num_bytes p - x)"
      using b(2) length_sender_data [OF ok] by simp
    define n where "n = length (concat bufs)"
    have b1: "get_bytes_internal x ?req p = Inr (bufs, int n)" using b(1) by (simp add: n_def)
    have len': "n = min (nat ?req) (num_bytes p - x)" using len by (simp add: n_def)
    show ?thesis
    proof (cases "n = 0")
      case True
      have "get_ready_bytes c req now p = Inr (bufs, 0, s, x, ?q)" using eq b1 True by simp
      moreover have "ready_result c req p (bufs, 0, s, x, ?q)" using ok True by (simp add: ready_result_def n_def)
      moreover have "ready_fresh c p (bufs, 0, s, x, ?q)"
        using sx none True len' by (auto simp: ready_fresh_def split: if_splits)
      ultimately show ?thesis by (rule that)
    next
      case False
      let ?c = "\<lparr>ck_id = pi_id p, seqno = s, ck_offset = x, datalen = n, data = None\<rparr>"
      let ?p' = "(advance c n now ?q)\<lparr>sent_chunks := sent_chunks p @ [?c]\<rparr>"
      have "add_sent_chunk c (int n) now ?q = Inr ?p'"
        using add_sent_chunk_eq [of ?q c "int n" now] q(2) \<open>s = length (sent_chunks p)\<close> by simp
      then have r: "get_ready_bytes c req now p = Inr (bufs, int n, s, x, ?p')" using eq b1 False by simp
      have n: "0 < n" "x + n \<le> num_bytes ?q" using False len' by auto
      have f: "s = fst (cursor ?q (ckey c ?q))" "x = snd (cursor ?q (ckey c ?q))"
        unfolding q(2) by simp_all
      have l: "s = length (sent_chunks ?q)" using \<open>s = length (sent_chunks p)\<close> by (simp only: touch_fields)
      have "sender_ok ?p'"
        using sender_ok_new_chunk [OF q(1) f(1) l f(2) n, of now] by (simp only: touch_fields)
      moreover have "chunks ?p' = chunks p" by (simp add: advance_def)
      ultimately have rr: "ready_result c req p (bufs, int n, s, x, ?p')"
        using take_own_length [OF b(2)] \<open>s = length (sent_chunks p)\<close>
        by (simp add: ready_result_def n_def del: length_concat)
      have "ready_fresh c p (bufs, int n, s, x, ?p')"
        using sx none False q(2) by (auto simp: ready_fresh_def advance_def cursor_def null_index_if_single_sending_def)
      with r rr show ?thesis by (rule that)
    qed
  next
    case False
    then have sl: "s < length (sent_chunks p)" using s by simp
    let ?c = "sent_chunks p ! s"
    have xo: "x = ck_offset ?c" using sender_okD(4) [OF ok] s(2) sl by (simp add: contig_def)
    have pos: "0 < datalen ?c" using sender_okD(7) [OF ok] sl by simp
    obtain bufs where b: "get_bytes_internal x ?req p = Inr (bufs, int (datalen ?c))"
      "concat bufs = take (datalen ?c) (drop x (sender_data p))"
      using get_bytes_again [OF ok sl, of ?req] xo by auto
    have "x + datalen ?c \<le> num_bytes p"
      using total_take_Suc [OF sl] total_take_le [of "Suc s" "sent_chunks p"] sender_okD(5) [OF ok] s(2) by simp
    then have len: "length (concat bufs) = datalen ?c" using b(2) length_sender_data [OF ok] by simp
    let ?p' = "advance c (datalen ?c) now ?q"
    have "add_sent_chunk c (int (datalen ?c)) now ?q = Inr ?p'"
      using add_sent_chunk_eq [of ?q c "int (datalen ?c)" now] q(2) sl xo by simp
    then have r: "get_ready_bytes c req now p = Inr (bufs, int (datalen ?c), s, x, ?p')" using eq b(1) pos by simp
    have "sender_ok ?p'" using sender_ok_advance [OF q(1), of s c "datalen ?c" now] q(2) sl by simp
    moreover have "chunks ?p' = chunks p" "sent_chunks ?p' = sent_chunks p" by (simp_all add: advance_def)
    ultimately have rr: "ready_result c req p (bufs, int (datalen ?c), s, x, ?p')"
      using b(2) len sl xo by (simp add: ready_result_def)
    have "ready_fresh c p (bufs, int (datalen ?c), s, x, ?p')"
      using sx none pos q(2) by (auto simp: ready_fresh_def advance_def cursor_def null_index_if_single_sending_def)
    with r rr show ?thesis by (rule that)
  qed
qed

section \<open>Every operation keeps the invariant\<close>

lemma sender_ok_cong:
  assumes "sender_ok p" and "chunks p' = chunks p" "num_bytes p' = num_bytes p" "pi_id p' = pi_id p"
    "sent_chunks p' = sent_chunks p" "resend_chunks p' = resend_chunks p"
    "next_seqnos_to_send p' = next_seqnos_to_send p" "irob_offsets p' = irob_offsets p"
  shows "sender_ok p'"
proof -
  have "cursor p' = cursor p" using assms by (simp add: cursor_def fun_eq_iff)
  then show ?thesis using assms by (simp add: sender_ok_def)
qed

lemma new_sender_irob_ok:
  assumes "new_sender_irob i n ds dlen dat labels rh arg now = Inr p"
    and "\<And>d. dat = Some d \<Longrightarrow> length d = dlen"
  shows "sender_ok p \<and> pi_id p = i \<and> dependents p = {} \<and> \<not> placeholder p \<and> sent_chunks p = [] \<and>
         resend_chunks p = [] \<and> finite (deps p) \<and> cursor p = (\<lambda>_. (0, 0))"
  using assms
  by (auto simp: new_sender_irob_def new_irob_def extend_sender_def sender_ok_def cursor_def contig_def
      filled_def pending_irob.defs sender_irob.defs Let_def fun_eq_iff result_simps ASSERT_def split: if_splits)

lemma sender_add_chunk_ok:
  assumes "sender_ok p" and "filled c"
  shows "sender_ok (snd (sender_add_chunk c p))"
proof (cases "complete p")
  case False
  let ?p' = "snd (sender_add_chunk c p)"
  have "cursor ?p' = cursor p" by (simp add: sender_add_chunk_def cursor_def fun_eq_iff)
  then show ?thesis
    using assms False unfolding sender_ok_def
    by (auto simp: sender_add_chunk_def contig_snoc filled_def)
qed (use assms in \<open>simp add: sender_add_chunk_def\<close>)

lemma mark_not_received_ok:
  assumes ok: "sender_ok p" and "sq \<noteq> length (sent_chunks p)"
  obtains p' where "mark_not_received sq p = Inr p'" "sender_ok p'"
    "sent_chunks p' = sent_chunks p" "chunks p' = chunks p"
    "sq < length (sent_chunks p) \<Longrightarrow> set (resend_chunks p') \<subseteq> insert (sent_chunks p ! sq) (set (resend_chunks p))"
proof (cases "sq < length (sent_chunks p)")
  case False
  then show ?thesis using assms by (intro that [of p]) (auto simp: mark_not_received_def)
next
  case True
  let ?p' = "p\<lparr>resend_chunks := set_insert chunk_less (sent_chunks p ! sq) (resend_chunks p)\<rparr>"
  have sub: "set (resend_chunks ?p') \<subseteq> insert (sent_chunks p ! sq) (set (resend_chunks p))"
    using chunk_set.set_insert_subset by simp
  have "cursor ?p' = cursor p" by (simp add: cursor_def fun_eq_iff)
  then have "sender_ok ?p'"
    using ok sub True unfolding sender_ok_def by (auto dest!: subsetD)
  then show ?thesis using that [of ?p'] sub True by (simp add: mark_not_received_def)
qed

lemma mark_drop_point_ok:
  assumes "sender_ok p"
  shows "\<exists>p'. mark_drop_point n p = Inr p' \<and> sender_ok p' \<and> sent_chunks p' = sent_chunks p \<and> chunks p' = chunks p"
  unfolding mark_drop_point_def
proof (rule foldE_invariant)
  show "sender_ok p \<and> sent_chunks p = sent_chunks p \<and> chunks p = chunks p" using assms by simp
next
  fix sq q
  assume sq: "sq \<in> set [nat (max 0 n)..<length (sent_chunks p)]"
    and q: "sender_ok q \<and> sent_chunks q = sent_chunks p \<and> chunks q = chunks p"
  then have "sq \<noteq> length (sent_chunks q)" by simp
  then obtain p' where "mark_not_received sq q = Inr p'" "sender_ok p'" "sent_chunks p' = sent_chunks q"
      "chunks p' = chunks q" using q mark_not_received_ok [of q sq] by blast
  then show "\<exists>p'. mark_not_received sq q = Inr p' \<and>
      sender_ok p' \<and> sent_chunks p' = sent_chunks p \<and> chunks p' = chunks p"
    using q by simp
qed

text \<open>What the application and the sending threads do to an IROB, and the IROBs that come about
  this way.\<close>

inductive sender_step :: "sender_irob \<Rightarrow> sender_irob \<Rightarrow> bool" where
  step_chunk: "filled c \<Longrightarrow> sender_step p (snd (sender_add_chunk c p))"
| step_finish: "sender_step p (snd (base_finish p))"
| step_ready: "get_ready_bytes c req now p = Inr (dat, len, sq, off, p') \<Longrightarrow> sender_step p p'"
| step_missing: "mark_not_received sq p = Inr p' \<Longrightarrow> sender_step p p'"
| step_drop_point: "mark_drop_point nc p = Inr p' \<Longrightarrow> sender_step p p'"
| step_redundant: "sender_step p (mark_send_on_all_networks p)"
| step_announced: "sender_step p (mark_announcement_sent cs p)"
| step_end_announced: "sender_step p (mark_end_announcement_sent cs p)"
| step_sent_on: "sender_step p (markSentOn l r p)"
| step_reevaluate: "sender_step p (setScheduledReevaluation handle p)"
| step_reevaluated: "sender_step p (onReevaluationDone p)"
| step_ack: "sender_step p (sender_ack p)"
| step_status: "sender_step p (set_status n p)"
| step_num_ready: "sender_step p (snd (num_ready_bytes c p))"
| step_last_sent: "get_last_sent_chunk_htonl c p = Inr (r, p') \<Longrightarrow> sender_step p p'"

inductive sender_reach :: "sender_irob \<Rightarrow> bool" where
  reach_new: "new_sender_irob i n ds dlen dat labels rh arg now = Inr p \<Longrightarrow>
    (\<forall>d. dat = Some d \<longrightarrow> length d = dlen) \<Longrightarrow> sender_reach p"
| reach_step: "sender_reach p \<Longrightarrow> sender_step p p' \<Longrightarrow> sender_reach p'"

text \<open>What the lattice sees of an IROB is not changed by any of them.\<close>

definition same_node :: "sender_irob \<Rightarrow> sender_irob \<Rightarrow> bool" where
  "same_node p p' \<longleftrightarrow> pi_id p' = pi_id p \<and> deps p' = deps p \<and> dependents p' = dependents p \<and>
     anonymous p' = anonymous p \<and> placeholder p' = placeholder p \<and> send_labels p' = send_labels p"

lemma same_node_refl [simp]: "same_node p p"
  by (simp add: same_node_def)

lemma same_node_trans: "same_node p q \<Longrightarrow> same_node q r \<Longrightarrow> same_node p r"
  by (simp add: same_node_def)

lemma same_node_touch: "same_node p (touch c p)" "same_node p (touch_offset c p)"
  by (simp_all add: same_node_def touch_def touch_offset_def)

lemma add_sent_chunk_node: "add_sent_chunk c len now p = Inr p' \<Longrightarrow> same_node p p'"
  by (auto simp: add_sent_chunk_def get_next_seqno_to_send_eq increment_seqno_eq get_irob_offset_eq
      increment_irob_offset_eq same_node_def Let_def result_simps split: if_splits)

lemma get_irob_offset_node: "get_irob_offset c p = (x, q) \<Longrightarrow> same_node p q \<and> resend_chunks q = resend_chunks p"
  by (auto simp: get_irob_offset_eq same_node_def)

lemma get_next_seqno_node: "get_next_seqno_to_send c p = Inr (s, q) \<Longrightarrow> same_node p q"
  by (auto simp: get_next_seqno_to_send_eq same_node_def result_simps)

lemma get_ready_bytes_node:
  assumes "get_ready_bytes c req now p = Inr (dat, len, sq, off, p')"
  shows "same_node p p'"
proof -
  obtain off0 p0 where g0: "get_irob_offset c p = (off0, p0)" by fastforce
  note n0 = get_irob_offset_node [OF g0]
  show ?thesis
  proof (cases "resend_chunks p0")
    case (Cons chunk rest)
    then have "p' = p0\<lparr>resend_chunks := rest\<rparr>"
      using assms by (auto simp: get_ready_bytes_def g0 Let_def result_simps)
    then show ?thesis using n0 by (simp add: same_node_def)
  next
    case Nil
    let ?req = "if req \<le> 0 then int (num_bytes p0) - int off0 else req"
    obtain s1 p1 where p1: "get_next_seqno_to_send c p0 = Inr (s1, p1)"
      and *: "(let (off, p2) = get_irob_offset c p1
               in bindE (get_bytes_internal off ?req p2) (\<lambda>(dat, len).
                    if len = 0 then Inr (dat, 0, s1, off, p2)
                    else bindE (add_sent_chunk c len now p2) (\<lambda>p3. Inr (dat, len, s1, off, p3))))
         = Inr (dat, len, sq, off, p')"
      using assms Nil by (auto simp: get_ready_bytes_def g0 bindE_eq_Inr)
    obtain x2 p2 where g2: "get_irob_offset c p1 = (x2, p2)" by fastforce
    have "p' = p2 \<or> (\<exists>n. add_sent_chunk c n now p2 = Inr p')"
      using * by (auto simp: g2 bindE_eq_Inr split: if_splits)
    then show ?thesis
      using n0 get_next_seqno_node [OF p1] get_irob_offset_node [OF g2] add_sent_chunk_node
      by (meson same_node_trans)
  qed
qed

lemma mark_not_received_node: "mark_not_received sq p = Inr p' \<Longrightarrow> same_node p p'"
  by (auto simp: mark_not_received_def same_node_def split: if_splits)

lemma mark_drop_point_node:
  assumes "mark_drop_point nc p = Inr p'"
  shows "same_node p p'"
proof -
  have "foldE mark_not_received sqs p = Inr p' \<Longrightarrow> same_node p p'" for sqs
    by (induction sqs arbitrary: p) (auto simp: result_simps dest!: mark_not_received_node intro: same_node_trans)
  then show ?thesis using assms by (simp add: mark_drop_point_def)
qed

lemma sender_step_node: "sender_step p p' \<Longrightarrow> same_node p p'"
proof (induction rule: sender_step.induct)
  case (step_ready c req now p dat len sq off p')
  then show ?case by (rule get_ready_bytes_node)
next
  case (step_missing sq p p')
  then show ?case by (rule mark_not_received_node)
next
  case (step_drop_point nc p p')
  then show ?case by (rule mark_drop_point_node)
next
  case (step_num_ready p c)
  then show ?case using get_irob_offset_node [of c p] by (auto simp: num_ready_bytes_def split: prod.split)
next
  case (step_last_sent c p r p')
  then show ?case using get_next_seqno_node [of c p]
    by (fastforce simp: get_last_sent_chunk_htonl_def bindE_def Let_def split: sum.splits if_splits)
qed (auto simp: set_status_def same_node_def sender_add_chunk_def base_finish_def mark_send_on_all_networks_def
      mark_announcement_sent_def mark_end_announcement_sent_def markSentOn_def
      setScheduledReevaluation_def onReevaluationDone_def sender_ack_def freeReevaluation_def)

lemma get_ready_bytes_ok:
  assumes "sender_ok p"
  obtains r where "get_ready_bytes c req now p = Inr r" "ready_result c req p r"
proof (cases "resend_chunks p")
  case Nil
  show ?thesis by (rule get_ready_bytes_new [OF assms Nil]) (use that in blast)
next
  case (Cons chunk rest)
  show ?thesis by (rule get_ready_bytes_resend [OF assms Cons]) (use that in blast)
qed

lemma get_ready_bytes_none:
  assumes ok: "sender_ok p" and r: "get_ready_bytes c req now p = Inr (dat, 0, sq, off, p')" and req: "0 < req"
  shows "dat = []"
proof (cases "resend_chunks p")
  case Nil
  obtain r' where r': "get_ready_bytes c req now p = Inr r'" "ready_fresh c p r'"
    by (rule get_ready_bytes_new [OF ok Nil, of c req now])
  have fresh: "ready_fresh c p (dat, 0, sq, off, p')" using r' r by simp
  have off: "off = snd (cursor p (ckey c p))" using fresh unfolding ready_fresh_def prod.case by (metis snd_conv)
  have fin: "\<not> off < num_bytes p" using fresh unfolding ready_fresh_def prod.case by simp
  have "find_app_chunk (chunks p) off = Inr (length (chunks p))"
    using find_app_chunk_end [OF sender_okD(1) [OF ok]] fin sender_okD(3) [OF ok] by simp
  then have "get_bytes_internal off req p = Inr ([], 0)" by (simp add: get_bytes_internal_def)
  then show ?thesis using get_ready_bytes_fresh [OF ok Nil refl refl, of c req now] r req off by simp
next
  case (Cons chunk rest)
  obtain d where "get_ready_bytes c req now p =
      Inr (d, int (datalen chunk), seqno chunk, ck_offset chunk, (touch_offset c p)\<lparr>resend_chunks := rest\<rparr>)"
    by (rule get_ready_bytes_resend [OF ok Cons, of c req now])
  then have "datalen chunk = 0" using r by simp
  moreover have "0 < datalen chunk" using sender_okD(7,11) [OF ok] Cons by auto
  ultimately show ?thesis by simp
qed

lemma sender_step_ok: "sender_step p p' \<Longrightarrow> sender_ok p \<Longrightarrow> sender_ok p'"
proof (induction rule: sender_step.induct)
  case (step_chunk c p)
  then show ?case by (intro sender_add_chunk_ok)
next
  case (step_finish p)
  then show ?case by (elim sender_ok_cong) (auto simp: base_finish_def)
next
  case (step_ready c req now p dat len sq off p')
  obtain r where "get_ready_bytes c req now p = Inr r" "ready_result c req p r"
    by (rule get_ready_bytes_ok [OF step_ready(2)])
  then show ?case using step_ready(1) by (auto simp: ready_result_def)
next
  case (step_missing sq p p')
  have "sq \<noteq> length (sent_chunks p)" using step_missing(1) by (auto simp: mark_not_received_def)
  from mark_not_received_ok [OF step_missing(2) this] show ?case using step_missing(1) by auto
next
  case (step_drop_point nc p p')
  then show ?case using mark_drop_point_ok [of p nc] by auto
next
  case (step_num_ready p c)
  then show ?case by (simp add: num_ready_bytes_def get_irob_offset_eq touch_offset_def [symmetric])
next
  case (step_last_sent c p r p')
  have "p' = p\<lparr>next_seqnos_to_send := (next_seqnos_to_send p)(ckey c p \<mapsto> fst (cursor p (ckey c p)))\<rparr>"
    using step_last_sent(1) by (auto simp: get_last_sent_chunk_htonl_def get_next_seqno_to_send_eq bindE_def ASSERT_def Let_def split: sum.splits if_splits)
  moreover from this have "cursor p' = cursor p" by (auto simp: fun_eq_iff cursor_def)
  ultimately show ?case using step_last_sent(2) by (simp add: sender_ok_def)
qed (auto elim!: sender_ok_cong simp: set_status_def mark_send_on_all_networks_def mark_announcement_sent_def
      mark_end_announcement_sent_def sender_ack_def freeReevaluation_def markSentOn_def
      setScheduledReevaluation_def onReevaluationDone_def)

lemma sender_reach_ok: "sender_reach p \<Longrightarrow> sender_ok p"
proof (induction rule: sender_reach.induct)
  case (reach_new i n ds dlen dat labels rh arg now p)
  then show ?case using new_sender_irob_ok by blast
next
  case (reach_step p p')
  then show ?case using sender_step_ok by blast
qed

section \<open>The sender's subclass\<close>

definition sender_elt :: "sender_irob \<Rightarrow> bool" where
  "sender_elt p \<longleftrightarrow> (if placeholder p then chunks p = [] \<and> \<not> complete p else sender_ok p)"

definition sender_fresh :: "sender_irob \<Rightarrow> bool" where
  "sender_fresh p \<longleftrightarrow> \<not> placeholder p \<and> dependents p = {} \<and> sender_ok p"

lemma sender_subsume_eq:
  "chunks q = [] \<Longrightarrow>
   sender_subsume p q = Inr (p\<lparr>dependents := dependents p \<union> dependents q, complete := complete q\<rparr>)"
  by (simp add: sender_subsume_def base_subsume_def)

interpretation snd: irob_class sender_placeholder sender_subsume sender_elt sender_fresh
proof unfold_locales
  fix p :: sender_irob and D
  show "sender_elt p \<Longrightarrow> sender_elt (p\<lparr>deps := D\<rparr>)" "sender_elt p \<Longrightarrow> sender_elt (p\<lparr>dependents := D\<rparr>)"
    by (auto simp: sender_elt_def elim!: sender_ok_cong)
next
  fix p q :: sender_irob
  assume "sender_fresh p" "sender_elt q" "placeholder q"
  moreover have "sender_ok p \<Longrightarrow> sender_ok (p\<lparr>dependents := D, complete := b\<rparr>)" for D b
    by (erule sender_ok_cong) simp_all
  ultimately show "\<exists>p'. sender_subsume p q = Inr p' \<and> pi_id p' = pi_id p \<and> deps p' = deps p \<and>
      anonymous p' = anonymous p \<and> dependents p' = dependents q \<and> \<not> placeholder p' \<and> sender_elt p'"
    by (auto simp: sender_elt_def sender_fresh_def sender_subsume_eq)
qed (auto simp: sender_placeholder_def extend_sender_def placeholder_irob_def pending_irob.defs
      sender_elt_def sender_fresh_def)

section \<open>Properties\<close>

text \<open>Asking for data until none is left: the loop of a sending thread over one IROB.\<close>

fun drain :: "nat \<Rightarrow> csock_ref \<Rightarrow> int \<Rightarrow> timeval \<Rightarrow> sender_irob \<Rightarrow> (byte list \<times> sender_irob) result" where
  "drain 0 c req now p = Inr ([], p)"
| "drain (Suc fuel) c req now p =
     bindE (get_ready_bytes c req now p) (\<lambda>(dat, len, sq, off, p').
       if len = 0 then Inr ([], p')
       else bindE (drain fuel c req now p') (\<lambda>(ds, p''). Inr (concat dat @ ds, p'')))"

lemma drain_rest:
  assumes "sender_ok p" and "resend_chunks p = []"
    and "num_bytes p - snd (cursor p (ckey c p)) < fuel"
  shows "\<exists>p'. drain fuel c req now p = Inr (drop (snd (cursor p (ckey c p))) (sender_data p), p') \<and>
    sender_ok p' \<and> sender_data p' = sender_data p \<and> all_bytes_chunked p'"
  using assms
proof (induction fuel arbitrary: p)
  case (Suc fuel)
  let ?x = "snd (cursor p (ckey c p))"
  note ok = Suc.prems(1)
  obtain r where r: "get_ready_bytes c req now p = Inr r" "ready_result c req p r" "ready_fresh c p r"
    by (rule get_ready_bytes_new [OF ok Suc.prems(2)])
  obtain dat len sq off p' where rr: "r = (dat, len, sq, off, p')" by (cases r)
  have res: "sender_ok p'" "chunks p' = chunks p" "len = int (length (concat dat))"
    "concat dat = take (nat len) (drop off (sender_data p))" "off = ?x" "off < num_bytes p \<longrightarrow> 0 < len"
    "resend_chunks p' = []" "ckey c p' = ckey c p" "num_bytes p' = num_bytes p"
    "snd (cursor p' (ckey c p)) = off + nat len"
    using r(2,3) unfolding rr ready_result_def ready_fresh_def prod.case by (blast | metis snd_conv)+
  have sd: "sender_data p' = sender_data p" using res(2) by (simp add: sender_data_def)
  show ?case
  proof (cases "len = 0")
    case True
    then have "num_bytes p \<le> ?x" using res(5,6) by linarith
    moreover have "?x = tot_len (take (fst (cursor p (ckey c p))) (sent_chunks p))" by (rule sender_okD(10) [OF ok])
    ultimately have eq: "num_bytes p \<le> tot_len (sent_chunks p)"
      using total_take_le [of "fst (cursor p (ckey c p))" "sent_chunks p"] by linarith
    obtain more where "sent_chunks p' = sent_chunks p @ more"
      using r(2) unfolding rr ready_result_def prod.case by blast
    then have "tot_len (sent_chunks p') = num_bytes p'"
      using eq sender_okD(5) [OF res(1)] res(9) by simp
    then have "all_bytes_chunked p'"
      by (simp add: all_bytes_chunked_def sum_datalen_eq sum_datalen_num_bytes [OF res(1)])
    then show ?thesis using True r(1) res(1) sd \<open>num_bytes p \<le> ?x\<close> length_sender_data [OF ok] by (simp add: rr)
  next
    case False
    have "num_bytes p' - snd (cursor p' (ckey c p')) < fuel"
    proof -
      have "length (concat dat) \<le> num_bytes p - off"
        using res(4) length_sender_data [OF ok] by (metis length_drop length_take min.cobounded1)
      then have "0 < nat len" "nat len \<le> num_bytes p - ?x" using False res(3,5) by linarith+
      then show ?thesis using Suc.prems(3) by (simp only: res(5,8-10))
    qed
    then obtain p'' where p'': "drain fuel c req now p' = Inr (drop (?x + nat len) (sender_data p), p'')"
      "sender_ok p''" "sender_data p'' = sender_data p" "all_bytes_chunked p''"
      using Suc.IH [OF res(1,7)] res(5,8,10) by (auto simp: sd)
    have "concat dat @ drop (?x + nat len) (sender_data p) = drop ?x (sender_data p)"
      using res(4,5) by (metis add.commute append_take_drop_id drop_drop)
    then show ?thesis using r(1) False p'' by (simp add: rr)
  qed
qed simp



text \<open>
  C30. A connection that has not sent any of an IROB yet and keeps asking for data, in requests of
  any size, gets exactly the bytes the application gave, in order, after at most one call per byte
  and one more; then every byte has been put into send-chunks.
\<close>

theorem drain_returns_everything:
  assumes "sender_reach p" and "resend_chunks p = []"
    and "cursor p (null_index_if_single_sending c p) = (0, 0)" and "num_bytes p < fuel"
  shows "\<exists>p'. drain fuel c req now p = Inr (sender_data p, p') \<and> all_bytes_chunked p'"
  using drain_rest [OF sender_reach_ok [OF assms(1)] assms(2), of c fuel req now] assms(3,4) by auto

theorem drain_returns_everything_witness:
  "\<exists>p p'. new_sender_irob 1 0 None 5 (Some [10, 11, 12, 13, 14]) 0 None 0 (tv 0 0) = Inr p \<and>
     drain 6 7 3 (tv 1 0) p = Inr ([10, 11, 12, 13, 14], p') \<and> all_bytes_chunked p'"
proof -
  obtain p where p: "new_sender_irob 1 0 None 5 (Some [10, 11, 12, 13, 14]) 0 None 0 (tv 0 0) = Inr p"
    by (simp add: new_sender_irob_def new_irob_def Let_def)
  then have h: "sender_reach p" by (rule reach_new) simp
  have d: "sender_data p = [10, 11, 12, 13, 14]" "num_bytes p = 5"
    using p by (auto simp: new_sender_irob_def new_irob_def Let_def sender_data_def app_bytes_def
      extend_sender_def pending_irob.defs sender_irob.defs)
  have "resend_chunks p = []" "cursor p (null_index_if_single_sending 7 p) = (0, 0)"
    using new_sender_irob_ok [OF p] by auto
  from drain_returns_everything [OF h this, of 6 3 "tv 1 0"] p d show ?thesis by auto
qed

text \<open>
  \<^verbatim>\<open>mark_not_received\<close> schedules the chunk with the given number to be sent again and ignores
  a number beyond the number of send-chunks, but the number that equals it reads past the end of
  \<^verbatim>\<open>sent_chunks\<close>: the guard is \<^verbatim>\<open>seqno > size\<close>.
\<close>

theorem mark_not_received_bounds:
  assumes "sender_reach p"
  shows "(mark_not_received sq p = Inl OutOfBounds \<longleftrightarrow> sq = num_sender_chunks p) \<and>
    (num_sender_chunks p < sq \<longrightarrow> mark_not_received sq p = Inr p) \<and>
    (sq < num_sender_chunks p \<longrightarrow> (\<exists>p' chunk. mark_not_received sq p = Inr p' \<and> sender_ok p' \<and>
       chunk \<in> set (resend_chunks p') \<and> seqno chunk = sq \<and> set (resend_chunks p) \<subseteq> set (resend_chunks p')))"
proof -
  note ok = sender_reach_ok [OF assms]
  have "\<exists>p' chunk. mark_not_received sq p = Inr p' \<and> sender_ok p' \<and>
       chunk \<in> set (resend_chunks p') \<and> seqno chunk = sq \<and> set (resend_chunks p) \<subseteq> set (resend_chunks p')"
    if sq: "sq < num_sender_chunks p"
  proof -
    let ?c = "sent_chunks p ! sq"
    have lt: "sq < length (sent_chunks p)" using sq by (simp add: num_sender_chunks_def)
    obtain p' where p': "mark_not_received sq p = Inr p'" "sender_ok p'"
      using mark_not_received_ok [OF ok, of sq] lt by blast
    then have rs: "resend_chunks p' = set_insert chunk_less ?c (resend_chunks p)"
      using lt by (auto simp: mark_not_received_def)
    have "ck_id ?c = pi_id p" "\<forall>c\<in>set (resend_chunks p). ck_id c = pi_id p"
      using sender_okD(8,11) [OF ok] lt by auto
    from chunk_set.set_insert_key [OF this] obtain c where "c \<in> set (resend_chunks p')" "seqno c = sq"
      using sender_okD(6) [OF ok lt] by (metis imageE rs)
    moreover have "set (resend_chunks p) \<subseteq> set (resend_chunks p')"
      unfolding rs by (rule chunk_set.set_insert_mono)
    ultimately show ?thesis using p' by blast
  qed
  then show ?thesis by (auto simp: mark_not_received_def num_sender_chunks_def)
qed

theorem mark_not_received_bounds_witness:
  "\<exists>p. new_sender_irob 1 0 None 2 (Some [10, 11]) 0 None 0 (tv 0 0) = Inr p \<and> sender_reach p \<and>
     mark_not_received 0 p = Inl OutOfBounds \<and> mark_not_received 1 p = Inr p"
proof -
  obtain p where p: "new_sender_irob 1 0 None 2 (Some [10, 11]) 0 None 0 (tv 0 0) = Inr p"
    by (simp add: new_sender_irob_def new_irob_def Let_def)
  then have h: "sender_reach p" by (rule reach_new) simp
  have "num_sender_chunks p = 0" using new_sender_irob_ok [OF p] by (auto simp: num_sender_chunks_def)
  with p h mark_not_received_bounds [OF h, of 0] mark_not_received_bounds [OF h, of 1]
  show ?thesis by auto
qed

end
