(* ===== verification/Dependency_Order.thy ===== *)
theory Dependency_Order
  imports Sender_Inv
begin

text \<open>
  The order that the sender's lattice imposes on IROBs (\<^verbatim>\<open>correct_deps\<close> of pending_irob.cpp). The
  history of a lattice is the sequence of the IROBs inserted so far, with the dependencies they got
  and whether they are anonymous. Over every run of insertions, acknowledgements, drops and changes of
  single IROBs, an anonymous IROB comes after everything before it and before everything after it,
  through the transitive closure of the dependencies that are sent to the receiver.
\<close>

section \<open>Histories\<close>

type_synonym history = "(int \<times> int set \<times> bool) list"

definition dep_rel :: "history \<Rightarrow> (int \<times> int) set" where
  "dep_rel h = {(i, d). \<exists>D a. (i, D, a) \<in> set h \<and> d \<in> D}"

abbreviation hist_ids :: "history \<Rightarrow> int set" where
  "hist_ids h \<equiv> fst ` set h"

text \<open>Of two IROBs of which one is anonymous, the later depends on the earlier.\<close>

definition anon_ordered :: "history \<Rightarrow> bool" where
  "anon_ordered h \<longleftrightarrow>
     sorted_wrt (\<lambda>(i, _, a) (j, _, b). a \<or> b \<longrightarrow> (j, i) \<in> (dep_rel h)\<^sup>+) h"

text \<open>The part of the history since the last anonymous IROB: its IROBs all depend on that one, and
  the minimum dominator set reaches all of them.\<close>

definition dominated :: "history \<Rightarrow> int \<Rightarrow> int set \<Rightarrow> bool" where
  "dominated h la mds \<longleftrightarrow>
     (\<exists>pre suf. h = pre @ suf \<and> (\<forall>(i, D, a)\<in>set suf. \<not> a) \<and>
       (if la \<ge> 0 then \<exists>pre' D. pre = pre' @ [(la, D, True)] else pre = []) \<and>
       mds \<subseteq> hist_ids suf \<and>
       (\<forall>x\<in>hist_ids suf. \<exists>m\<in>mds. (m, x) \<in> (dep_rel h)\<^sup>*) \<and>
       (la \<ge> 0 \<longrightarrow> (\<forall>x\<in>hist_ids suf. (x, la) \<in> (dep_rel h)\<^sup>+)))"

lemma dep_rel_snoc: "dep_rel (h @ [(i, D, a)]) = dep_rel h \<union> {i} \<times> D"
  by (auto simp: dep_rel_def)

lemma trancl_mono_snoc:
  "(x, y) \<in> (dep_rel h)\<^sup>+ \<Longrightarrow> (x, y) \<in> (dep_rel (h @ [e]))\<^sup>+"
  "(x, y) \<in> (dep_rel h)\<^sup>* \<Longrightarrow> (x, y) \<in> (dep_rel (h @ [e]))\<^sup>*"
proof -
  have "dep_rel h \<subseteq> dep_rel (h @ [e])" by (auto simp: dep_rel_def)
  then show "(x, y) \<in> (dep_rel h)\<^sup>+ \<Longrightarrow> (x, y) \<in> (dep_rel (h @ [e]))\<^sup>+"
    "(x, y) \<in> (dep_rel h)\<^sup>* \<Longrightarrow> (x, y) \<in> (dep_rel (h @ [e]))\<^sup>*"
    by (auto intro: trancl_mono rtrancl_mono [THEN subsetD])
qed

lemma anon_ordered_snoc:
  assumes "anon_ordered h"
    and "\<And>j E b. (j, E, b) \<in> set h \<Longrightarrow> a \<or> b \<Longrightarrow> (i, j) \<in> (dep_rel (h @ [(i, D, a)]))\<^sup>+"
  shows "anon_ordered (h @ [(i, D, a)])"
proof -
  have "sorted_wrt (\<lambda>(i, _, a) (j, _, b). a \<or> b \<longrightarrow> (j, i) \<in> (dep_rel (h @ [(i', D, a')]))\<^sup>+) h" for i' a'
    by (rule sorted_wrt_mono_rel [OF _ assms(1) [unfolded anon_ordered_def]])
       (auto dest: trancl_mono_snoc(1))
  then show ?thesis using assms(2) by (auto simp: anon_ordered_def sorted_wrt_append)
qed

text \<open>Everything in the history below the last anonymous IROB is reached from it.\<close>

lemma last_anon_reaches:
  assumes "anon_ordered (pre' @ [(la, D, True)] @ suf)" and "(j, E, b) \<in> set pre'"
  shows "(la, j) \<in> (dep_rel (pre' @ [(la, D, True)] @ suf))\<^sup>+"
  using assms by (auto simp: anon_ordered_def sorted_wrt_append)

text \<open>One insertion, with the dependencies and the dominator set that \<^verbatim>\<open>correct_deps\<close> computes.\<close>

lemma anonymous_step:
  assumes dom: "dominated h la mds" and ord: "anon_ordered h" and i: "0 \<le> i"
    and D: "D' = (if la \<ge> 0 \<and> mds = {} then insert la D else D \<union> mds)"
  shows "dominated (h @ [(i, D', True)]) i {} \<and> anon_ordered (h @ [(i, D', True)])"
proof -
  let ?h' = "h @ [(i, D', True)]"
  obtain pre suf where ps: "h = pre @ suf" "if la \<ge> 0 then \<exists>pre' D. pre = pre' @ [(la, D, True)] else pre = []"
    "mds \<subseteq> hist_ids suf" "\<forall>x\<in>hist_ids suf. \<exists>m\<in>mds. (m, x) \<in> (dep_rel h)\<^sup>*"
    "la \<ge> 0 \<longrightarrow> (\<forall>x\<in>hist_ids suf. (x, la) \<in> (dep_rel h)\<^sup>+)"
    using dom by (auto simp: dominated_def)
  have edge: "d \<in> D' \<Longrightarrow> (i, d) \<in> (dep_rel ?h')\<^sup>+" for d by (auto simp: dep_rel_snoc)
  have suf: "(i, x) \<in> (dep_rel ?h')\<^sup>+" if x: "x \<in> hist_ids suf" for x
  proof -
    obtain m where m: "m \<in> mds" "(m, x) \<in> (dep_rel h)\<^sup>*" using ps(4) x by blast
    then have "m \<in> D'" using D by auto
    then show ?thesis using edge m(2) trancl_mono_snoc(2) by (blast intro: trancl_rtrancl_trancl)
  qed
  have last: "(i, la) \<in> (dep_rel ?h')\<^sup>+" if "la \<ge> 0"
  proof (cases "mds = {}")
    case True
    then show ?thesis using that D by (intro edge) simp
  next
    case False
    then obtain m where m: "m \<in> mds" "m \<in> hist_ids suf" using ps(3) by blast
    then have "(i, m) \<in> (dep_rel ?h')\<^sup>+" "(m, la) \<in> (dep_rel h)\<^sup>+" using suf [OF m(2)] ps(5) that by auto
    then show ?thesis using trancl_mono_snoc(1) by (blast intro: trancl_trans)
  qed
  have all: "(i, j) \<in> (dep_rel ?h')\<^sup>+" if "(j, E, b) \<in> set h" for j E b
  proof (cases "(j, E, b) \<in> set suf")
    case True
    then show ?thesis using suf by (force intro: rev_image_eqI)
  next
    case False
    then have jp: "(j, E, b) \<in> set pre" using that ps(1) by auto
    then have l0: "la \<ge> 0" using ps(2) by (auto split: if_splits)
    then obtain pre' E' where pre': "pre = pre' @ [(la, E', True)]" using ps(2) by auto
    show ?thesis
    proof (cases "(j, E, b) \<in> set pre'")
      case True
      then have "(la, j) \<in> (dep_rel h)\<^sup>+" using last_anon_reaches [of pre' la E' suf] ord ps(1) pre' by simp
      then show ?thesis using last [OF l0] trancl_mono_snoc(1) by (blast intro: trancl_trans)
    next
      case False
      then show ?thesis using jp pre' last [OF l0] by auto
    qed
  qed
  have "dominated ?h' i {}" using i by (auto simp: dominated_def intro!: exI [of _ "?h'"])
  moreover have "anon_ordered ?h'" by (rule anon_ordered_snoc [OF ord]) (use all in blast)
  ultimately show ?thesis ..
qed

lemma labelled_step:
  assumes dom: "dominated h la mds" and ord: "anon_ordered h"
    and D: "D' = (if la \<ge> 0 \<and> D \<inter> mds = {} then insert la D else D)"
  shows "dominated (h @ [(i, D', False)]) la (insert i (mds - D)) \<and> anon_ordered (h @ [(i, D', False)])"
proof -
  let ?h' = "h @ [(i, D', False)]"
  obtain pre suf where ps: "h = pre @ suf" "\<forall>(i, D, a)\<in>set suf. \<not> a"
    "if la \<ge> 0 then \<exists>pre' D. pre = pre' @ [(la, D, True)] else pre = []"
    "mds \<subseteq> hist_ids suf" "\<forall>x\<in>hist_ids suf. \<exists>m\<in>mds. (m, x) \<in> (dep_rel h)\<^sup>*"
    "la \<ge> 0 \<longrightarrow> (\<forall>x\<in>hist_ids suf. (x, la) \<in> (dep_rel h)\<^sup>+)"
    using dom unfolding dominated_def by blast
  have edge: "d \<in> D' \<Longrightarrow> (i, d) \<in> (dep_rel ?h')\<^sup>+" for d by (auto simp: dep_rel_snoc)
  have last: "(i, la) \<in> (dep_rel ?h')\<^sup>+" if "la \<ge> 0"
  proof (cases "D \<inter> mds = {}")
    case True
    then show ?thesis using that D by (intro edge) simp
  next
    case False
    then obtain m where m: "m \<in> D" "m \<in> mds" by blast
    then have "(i, m) \<in> (dep_rel ?h')\<^sup>+" "(m, la) \<in> (dep_rel h)\<^sup>+" using edge D ps(4,6) that by auto
    then show ?thesis using trancl_mono_snoc(1) by (blast intro: trancl_trans)
  qed
  have reach: "\<exists>m\<in>insert i (mds - D). (m, x) \<in> (dep_rel ?h')\<^sup>*" if x: "x \<in> hist_ids suf" for x
  proof -
    obtain m where m: "m \<in> mds" "(m, x) \<in> (dep_rel ?h')\<^sup>*" using ps(5) x trancl_mono_snoc(2) by blast
    show ?thesis
    proof (cases "m \<in> D")
      case True
      then have "(i, m) \<in> (dep_rel ?h')\<^sup>+" using edge D by auto
      then show ?thesis using m(2) by (auto intro: rtrancl_trans trancl_into_rtrancl)
    qed (use m in auto)
  qed
  have anon: "(i, j) \<in> (dep_rel ?h')\<^sup>+" if "(j, E, True) \<in> set h" for j E
  proof -
    have jp: "(j, E, True) \<in> set pre" using that ps(1,2) by auto
    then have l0: "la \<ge> 0" using ps(3) by (auto split: if_splits)
    then obtain pre' E' where pre': "pre = pre' @ [(la, E', True)]" using ps(3) by auto
    show ?thesis
    proof (cases "(j, E, True) \<in> set pre'")
      case True
      then have "(la, j) \<in> (dep_rel h)\<^sup>+" using last_anon_reaches [of pre' la E' suf] ord ps(1) pre' by simp
      then show ?thesis using last [OF l0] trancl_mono_snoc(1) by (blast intro: trancl_trans)
    next
      case False
      then show ?thesis using jp pre' last [OF l0] by auto
    qed
  qed
  have "\<forall>(i, D, a)\<in>set (suf @ [(i, D', False)]). \<not> a" using ps(2) by auto
  moreover have "insert i (mds - D) \<subseteq> hist_ids (suf @ [(i, D', False)])" using ps(4) by auto
  moreover have "\<forall>x\<in>hist_ids (suf @ [(i, D', False)]). \<exists>m\<in>insert i (mds - D). (m, x) \<in> (dep_rel ?h')\<^sup>*"
    using reach by auto
  moreover have "la \<ge> 0 \<longrightarrow> (\<forall>x\<in>hist_ids (suf @ [(i, D', False)]). (x, la) \<in> (dep_rel ?h')\<^sup>+)"
    using last ps(6) trancl_mono_snoc(1) by auto
  ultimately have "dominated ?h' la (insert i (mds - D))"
    using ps(1,3) unfolding dominated_def by (intro exI [of _ pre] exI [of _ "suf @ [(i, D', False)]"]) simp
  moreover have "anon_ordered ?h'" by (rule anon_ordered_snoc [OF ord]) (use anon in auto)
  ultimately show ?thesis ..
qed

section \<open>Runs of the sender's lattice\<close>

text \<open>
  The lattice \<^verbatim>\<open>outgoing_irobs\<close> of a multisocket: IROBs are inserted with inferred dependencies,
  erased when they are acknowledged, dropped with their dependents, and changed one by one.
\<close>

inductive sender_run :: "history \<Rightarrow> sender_irob lattice \<Rightarrow> bool" where
  run_new: "sender_run [] new_lattice"
| run_insert: "sender_run h L \<Longrightarrow> sender_fresh p \<Longrightarrow> id_ok (pi_id p) \<Longrightarrow> finite (deps p) \<Longrightarrow>
    \<forall>d\<in>deps p. id_ok d \<Longrightarrow>
    insert_locked sender_placeholder sender_subsume True p L = Inr (True, L') \<Longrightarrow>
    find_locked L' (pi_id p) = Some q \<Longrightarrow>
    sender_run (h @ [(pi_id p, deps q, anonymous q)]) L'"
| run_erase: "sender_run h L \<Longrightarrow> id_ok i \<Longrightarrow> sender_run h (snd (erase_locked i False L))"
| run_drop: "sender_run h L \<Longrightarrow> id_ok i \<Longrightarrow> sender_run h (drop_irob_and_dependents i L)"
| run_change: "sender_run h L \<Longrightarrow> id_ok i \<Longrightarrow> find_locked L i = Some p \<Longrightarrow> \<not> placeholder p \<Longrightarrow>
    sender_step p p' \<Longrightarrow> sender_run h (lat_update i (\<lambda>_. p') L)"

text \<open>What is known of every IROB of the history.\<close>

definition recorded :: "history \<Rightarrow> sender_irob lattice \<Rightarrow> bool" where
  "recorded h L \<longleftrightarrow> (\<forall>(i, D, a)\<in>set h. i \<in> elems (past_irobs L) \<or>
     (\<exists>p. lat_map L i = Some p \<and> \<not> placeholder p \<and> deps p = D \<and> anonymous p = a))"

definition run_inv :: "history \<Rightarrow> sender_irob lattice \<Rightarrow> bool" where
  "run_inv h L \<longleftrightarrow> lat_inv sender_elt L \<and> recorded h L \<and> distinct (map fst h) \<and> anon_ordered h \<and>
     dominated h (last_anon_irob_id L) (min_dominator_set L)"

lemma insert_cases:
  assumes "insert_locked sender_placeholder sender_subsume infer p L = Inr (True, L')" and "lat_inv sender_elt L"
  shows "pi_id p \<notin> elems (past_irobs L)" "\<forall>q. lat_map L (pi_id p) = Some q \<longrightarrow> placeholder q"
  using assms snd.insert_refused [OF assms(2), of p infer] by auto

lemma run_inv_insert:
  assumes inv: "run_inv h L" and p: "sender_fresh p" "id_ok (pi_id p)" "finite (deps p)" "\<forall>d\<in>deps p. id_ok d"
    and ins: "insert_locked sender_placeholder sender_subsume True p L = Inr (True, L')"
    and q: "find_locked L' (pi_id p) = Some q"
  shows "run_inv (h @ [(pi_id p, deps q, anonymous q)]) L'"
proof -
  let ?i = "pi_id p"
  have li: "lat_inv sender_elt L" using inv by (simp add: run_inv_def)
  note new = insert_cases [OF ins li]
  let ?D = "corrected_deps True (anonymous p) (deps p) L"
  obtain L1 where L1: "insert_locked sender_placeholder sender_subsume True p L = Inr (True, L1)"
    "lat_inv sender_elt L1"
    "lat_map L1 = link_map sender_placeholder ?i (?D - elems (past_irobs L))
       ((lat_map L)(?i \<mapsto> (snd.merged p L)\<lparr>deps := ?D\<rparr>))"
    "lat_rest L1 = (corrected_last True (anonymous p) ?i L, lat_count L + 1,
       corrected_mds True (anonymous p) ?i (deps p) L, past_irobs L, dropped_irobs L)"
    by (rule snd.insert_spec [OF li p(1,3,4,2) new refl])
  have L': "L' = L1" using ins L1(1) by simp
  note mf = snd.merged_fields [OF li p(1) new(2)]
  have qd: "deps q = ?D" "anonymous q = anonymous p" "\<not> placeholder q" "lat_map L' ?i = Some q"
    using q mf find_locked_map [OF lat_invD(1) [OF L1(2)] p(2)]
    by (auto simp: L' L1(3) link_map_def add_dependent_def split: if_splits)
  have rest: "last_anon_irob_id L' = corrected_last True (anonymous p) ?i L"
    "min_dominator_set L' = corrected_mds True (anonymous p) ?i (deps p) L" "past_irobs L' = past_irobs L"
    using L1(4) by (auto simp: L' lat_rest_def)
  have dom: "dominated h (last_anon_irob_id L) (min_dominator_set L)" "anon_ordered h"
    using inv by (simp_all add: run_inv_def)
  have order: "dominated (h @ [(?i, ?D, anonymous p)]) (last_anon_irob_id L') (min_dominator_set L') \<and>
      anon_ordered (h @ [(?i, ?D, anonymous p)])"
  proof (cases "anonymous p")
    case True
    have "0 \<le> ?i" using p(2) by (simp add: id_ok_def)
    from anonymous_step [OF dom this refl, of "deps p"] True show ?thesis
      by (simp add: rest corrected_deps_def corrected_mds_def corrected_last_def)
  next
    case False
    from labelled_step [OF dom refl, where D = "deps p" and i = ?i] False show ?thesis
      by (simp add: rest corrected_deps_def corrected_mds_def corrected_last_def)
  qed
  have old: "\<exists>p'. lat_map L' j = Some p' \<and> \<not> placeholder p' \<and> deps p' = D \<and> anonymous p' = a"
    if "lat_map L j = Some pj" "\<not> placeholder pj" "deps pj = D" "anonymous pj = a" for j pj D a
    using that new(2) by (auto simp: L' L1(3) link_map_def add_dependent_def)
  have fresh_id: "?i \<notin> hist_ids h"
    using inv new by (force simp: run_inv_def recorded_def)
  have "recorded (h @ [(?i, ?D, anonymous p)]) L'"
    using inv old qd unfolding run_inv_def recorded_def rest(3) by (fastforce split: prod.splits)
  then show ?thesis
    using inv L1(2) order fresh_id unfolding run_inv_def qd(1,2) L' by (auto simp: L')
qed

lemma recorded_mono:
  assumes "recorded h L" and "elems (past_irobs L) \<subseteq> elems (past_irobs L')"
    and "\<And>i p. lat_map L i = Some p \<Longrightarrow> i \<in> elems (past_irobs L') \<or>
           (\<exists>p'. lat_map L' i = Some p' \<and> same_node p p')"
  shows "recorded h L'"
  unfolding recorded_def
proof safe
  fix i D a
  assume "(i, D, a) \<in> set h"
    and no: "\<nexists>p. lat_map L' i = Some p \<and> \<not> placeholder p \<and> deps p = D \<and> anonymous p = a"
  then consider "i \<in> elems (past_irobs L)"
    | p where "lat_map L i = Some p" "\<not> placeholder p" "deps p = D" "anonymous p = a"
    using assms(1) by (auto simp: recorded_def)
  then show "i \<in> elems (past_irobs L')"
  proof cases
    case 1
    then show ?thesis using assms(2) by blast
  next
    case 2
    then show ?thesis using assms(3) [OF 2(1)] no by (metis same_node_def)
  qed
qed

lemma run_inv_erase:
  assumes inv: "run_inv h L" and i: "id_ok i"
  shows "run_inv h (snd (erase_locked i False L))"
proof (cases "lat_map L i")
  case None
  have "lattice_wf L" using inv lat_invD(1) by (auto simp: run_inv_def)
  from erase_locked_absent [OF this i None] inv show ?thesis by simp
next
  case (Some v)
  obtain L' where L': "erase_locked i False L = (True, L')" "lat_map L' = erase_map i False (lat_map L)"
    "lat_inv sender_elt L'" "past_irobs L' = insert_num (past_irobs L) i"
    "last_anon_irob_id L' = last_anon_irob_id L" "min_dominator_set L' = min_dominator_set L"
    using snd.erase_spec [of L i v False] Some inv by (auto simp: run_inv_def)
  have "recorded h L'"
    by (rule recorded_mono [of h L]) (use inv L' in \<open>auto simp: run_inv_def erase_map_def\<close>)
  then show ?thesis using inv L' by (simp add: run_inv_def)
qed

lemma run_inv_drop:
  assumes inv: "run_inv h L" and i: "id_ok i"
  shows "run_inv h (drop_irob_and_dependents i L)"
proof -
  have "run_inv h (drop_loop vs L)" if "\<forall>v\<in>set vs. id_ok v" for vs
    using inv that
  proof (induction vs L rule: drop_loop.induct)
    case (2 v vs L)
    have wf: "lattice_wf L" "lat_inv sender_elt L" using 2(3) lat_invD(1) by (auto simp: run_inv_def)
    let ?L' = "snd (erase_locked v False L)"
    have er: "run_inv h ?L'" using run_inv_erase 2(3,4) by auto
    have er': "run_inv h (?L'\<lparr>dropped_irobs := insert_num (dropped_irobs ?L') v\<rparr>)"
      using er by (simp add: run_inv_def lat_inv_def recorded_def)
    show ?case
    proof (cases "find_locked L v")
      case None
      then show ?thesis using 2(1,3,4) by simp
    next
      case (Some p)
      then have "lat_map L v = Some p" using find_locked_map [OF wf(1)] 2(4) by auto
      then have "\<forall>d\<in>set (iter_set (dependents p)). id_ok d"
        using irob_okD(3,5) [OF lat_invD(2) [OF wf(2)]] by (metis set_sorted_list_of_set)
      then show ?thesis using 2(2) [OF Some refl er'] 2(4) Some by (auto simp: Let_def)
    qed
  qed simp
  from this [of "[i]"] i show ?thesis by (simp add: drop_irob_and_dependents_def)
qed

lemma run_inv_change:
  assumes inv: "run_inv h L" and i: "id_ok i" "find_locked L i = Some p" "\<not> placeholder p" "sender_step p p'"
  shows "run_inv h (lat_update i (\<lambda>_. p') L)"
proof -
  have li: "lat_inv sender_elt L" using inv by (simp add: run_inv_def)
  note wf = lat_invD(1) [OF li]
  have m: "lat_map L i = Some p" using i find_locked_map [OF wf] by simp
  have node: "same_node p p'" by (rule sender_step_node [OF i(4)])
  let ?L' = "lat_update i (\<lambda>_. p') L"
  have "pi_id p' = pi_id p" "deps p' = deps p" "dependents p' = dependents p" "placeholder p' = placeholder p"
    "sender_elt p'"
    using node i(3) sender_step_ok [OF i(4)] lat_invD(2) [OF li m]
    by (auto simp: same_node_def sender_elt_def irob_ok_def)
  note ch = lat_inv_change [OF li m this]
  have rest: "last_anon_irob_id ?L' = last_anon_irob_id L" "min_dominator_set ?L' = min_dominator_set L"
    "past_irobs ?L' = past_irobs L" using ch(3) by (simp_all add: lat_rest_def)
  have "recorded h ?L'"
    by (rule recorded_mono [of h L]) (use inv m node in \<open>auto simp: run_inv_def rest ch(2)\<close>)
  then show ?thesis using inv ch(1) by (simp add: run_inv_def rest)
qed

lemma sender_run_inv: "sender_run h L \<Longrightarrow> run_inv h L"
proof (induction rule: sender_run.induct)
  case run_new
  show ?case
    by (auto simp: run_inv_def recorded_def anon_ordered_def dominated_def)
next
  case (run_insert h L p L' q)
  then show ?case by (intro run_inv_insert)
next
  case (run_erase h L i)
  then show ?case by (intro run_inv_erase)
next
  case (run_drop h L i)
  then show ?case by (intro run_inv_drop)
next
  case (run_change h L i p p')
  then show ?case by (intro run_inv_change)
qed

section \<open>Properties\<close>

lemma inserted_found:
  assumes run: "sender_run h L" and p: "sender_fresh p" "id_ok (pi_id p)" "finite (deps p)" "\<forall>d\<in>deps p. id_ok d"
    and ins: "insert_locked sender_placeholder sender_subsume True p L = Inr (True, L')"
  obtains q where "find_locked L' (pi_id p) = Some q" "anonymous q = anonymous p"
proof -
  have li: "lat_inv sender_elt L" using sender_run_inv [OF run] by (simp add: run_inv_def)
  note new = insert_cases [OF ins li]
  let ?i = "pi_id p" and ?D = "corrected_deps True (anonymous p) (deps p) L"
  obtain L1 where L1: "insert_locked sender_placeholder sender_subsume True p L = Inr (True, L1)"
    "lat_inv sender_elt L1"
    "lat_map L1 = link_map sender_placeholder ?i (?D - elems (past_irobs L))
       ((lat_map L)(?i \<mapsto> (snd.merged p L)\<lparr>deps := ?D\<rparr>))"
    by (rule snd.insert_spec [OF li p(1,3,4,2) new refl])
  have "\<exists>q. lat_map L1 ?i = Some q \<and> anonymous q = anonymous p"
    using snd.merged_fields(3) [OF li p(1) new(2)]
    by (cases "?i \<in> ?D - elems (past_irobs L)") (simp_all add: L1(3) link_map_def add_dependent_def)
  then show ?thesis using that ins L1(1) find_locked_map [OF lat_invD(1) [OF L1(2)] p(2)] by auto
qed

lemma run_insert_new:
  assumes run: "sender_run h L" and p: "sender_fresh p" "id_ok (pi_id p)" "finite (deps p)" "\<forall>d\<in>deps p. id_ok d"
    and new: "pi_id p \<notin> elems (past_irobs L)" "lat_map L (pi_id p) = None"
  obtains L' where "sender_run (h @ [(pi_id p, corrected_deps True (anonymous p) (deps p) L, anonymous p)]) L'"
    "elems (past_irobs L') = elems (past_irobs L)"
    "dom (lat_map L') \<subseteq> insert (pi_id p) (dom (lat_map L)) \<union> corrected_deps True (anonymous p) (deps p) L"
    "last_anon_irob_id L' = corrected_last True (anonymous p) (pi_id p) L"
    "min_dominator_set L' = corrected_mds True (anonymous p) (pi_id p) (deps p) L"
proof -
  have li: "lat_inv sender_elt L" using sender_run_inv [OF run] by (simp add: run_inv_def)
  let ?i = "pi_id p" and ?D = "corrected_deps True (anonymous p) (deps p) L"
  have "\<forall>q. lat_map L ?i = Some q \<longrightarrow> placeholder q" using new(2) by simp
  from snd.insert_spec [OF li p(1,3,4,2) new(1) this refl, of True] obtain L' where
    L': "insert_locked sender_placeholder sender_subsume True p L = Inr (True, L')" "lat_inv sender_elt L'"
    "lat_map L' = link_map sender_placeholder ?i (?D - elems (past_irobs L))
       ((lat_map L)(?i \<mapsto> (snd.merged p L)\<lparr>deps := ?D\<rparr>))"
    "lat_rest L' = (corrected_last True (anonymous p) ?i L, lat_count L + 1,
       corrected_mds True (anonymous p) ?i (deps p) L, past_irobs L, dropped_irobs L)" by blast
  have mg: "snd.merged p L = p" using new(2) by (simp add: snd.merged_def)
  have "\<exists>q. lat_map L' ?i = Some q \<and> deps q = ?D \<and> anonymous q = anonymous p"
    by (cases "?i \<in> ?D - elems (past_irobs L)") (simp_all add: L'(3) mg link_map_def add_dependent_def)
  then obtain q where q: "lat_map L' ?i = Some q" "deps q = ?D" "anonymous q = anonymous p" by blast
  have "find_locked L' ?i = Some q" using q(1) find_locked_map [OF lat_invD(1) [OF L'(2)] p(2)] by simp
  from run_insert [OF run p L'(1) this] have "sender_run (h @ [(?i, ?D, anonymous p)]) L'" by (simp add: q)
  moreover have "dom (lat_map L') \<subseteq> insert ?i (dom (lat_map L)) \<union> ?D"
    by (auto simp: L'(3) link_map_def split: if_splits)
  ultimately show ?thesis using that L'(4) by (auto simp: lat_rest_def)
qed

text \<open>
  C26. At the sender, an anonymous IROB depends, directly or through other IROBs, on every IROB that
  was inserted before it, and every IROB depends in the same way on every anonymous IROB inserted
  before it; no id is inserted twice, and the dependencies recorded in the history are those
  that a pending IROB still has.
\<close>

theorem anonymous_irobs_are_barriers:
  assumes "sender_run h L" and "k < l" and "l < length h"
    and "snd (snd (h ! k)) \<or> snd (snd (h ! l))"
  shows "(fst (h ! l), fst (h ! k)) \<in> (dep_rel h)\<^sup>+ \<and> fst (h ! l) \<noteq> fst (h ! k) \<and>
    (\<forall>p. find_locked L (fst (h ! l)) = Some p \<longrightarrow> id_ok (fst (h ! l)) \<longrightarrow> deps p = fst (snd (h ! l)))"
proof -
  note inv = sender_run_inv [OF assms(1)]
  have "(fst (h ! l), fst (h ! k)) \<in> (dep_rel h)\<^sup>+"
  proof -
    have "anon_ordered h" using inv by (simp add: run_inv_def)
    from sorted_wrt_nth_less [OF this [unfolded anon_ordered_def] assms(2,3)] assms(4)
    show ?thesis by (auto split: prod.splits)
  qed
  moreover have "fst (h ! l) \<noteq> fst (h ! k)"
    using inv assms(2,3) by (auto simp: run_inv_def distinct_map nth_eq_iff_index_eq inj_on_eq_iff)
  moreover have "deps p = fst (snd (h ! l))"
    if "find_locked L (fst (h ! l)) = Some p" "id_ok (fst (h ! l))" for p
  proof -
    have wf: "lattice_wf L" using inv lat_invD(1) by (auto simp: run_inv_def)
    have m: "lat_map L (fst (h ! l)) = Some p" using that find_locked_map [OF wf] by simp
    have "fst (h ! l) \<notin> elems (past_irobs L)" by (rule lattice_wfD(5) [OF wf m])
    moreover have "h ! l \<in> set h" using assms(3) by simp
    ultimately show ?thesis using inv m by (cases "h ! l") (fastforce simp: run_inv_def recorded_def)
  qed
  ultimately show ?thesis by blast
qed

theorem anonymous_irobs_are_barriers_witness:
  "\<exists>h L. sender_run h L \<and> map fst h = [0, 1] \<and> snd (snd (h ! 1)) \<and> (1, 0) \<in> (dep_rel h)\<^sup>+"
proof -
  obtain p where p: "new_sender_irob 0 0 None 0 None 0 None 0 (tv 0 0) = Inr p"
    by (simp add: new_sender_irob_def new_irob_def Let_def)
  obtain q where q: "new_sender_irob 1 0 None 1 (Some [7]) 0 None 0 (tv 0 0) = Inr q"
    by (simp add: new_sender_irob_def new_irob_def Let_def)
  have pf: "sender_fresh p" "pi_id p = 0" "deps p = {}" "\<not> anonymous p"
    and qf: "sender_fresh q" "pi_id q = 1" "deps q = {}" "anonymous q"
    using new_sender_irob_ok [OF p] new_sender_irob_ok [OF q] p q
    by (auto simp: sender_fresh_def new_sender_irob_def new_irob_def Let_def extend_sender_def
        pending_irob.defs)
  obtain L1 where L1: "sender_run [(0, {}, False)] L1" "elems (past_irobs L1) = {}" "dom (lat_map L1) \<subseteq> {0}"
    by (rule run_insert_new [OF run_new, of p])
       (use pf in \<open>auto simp: id_ok_def corrected_deps_def\<close>)
  have no: "lat_map L1 (pi_id q) = None" using L1(3) qf(2) by auto
  obtain L2 D where L2: "sender_run ([(0, {}, False)] @ [(1, D, True)]) L2"
    by (rule run_insert_new [OF L1(1) qf(1) _ _ _ _ no]) (use qf L1(2) in \<open>auto simp: id_ok_def\<close>)
  from anonymous_irobs_are_barriers [OF L2, of 0 1] L2 show ?thesis by force
qed

text \<open>
  C32. In every state of the sender's lattice the invariant that pending_irob.h states for
  \<^verbatim>\<open>pending_irobs\<close> holds: the first slot is not empty and the IROB in slot \<open>k\<close> has the id
  \<open>offset + k\<close>, so that \<^verbatim>\<open>find\<close> of an id returns the IROB with that id; no pending IROB is past;
  and an IROB is registered with each dependency that is not past, and only there.
\<close>

theorem sender_lattice_invariant:
  assumes "sender_run h L"
  shows "(pending_irobs L \<noteq> [] \<longrightarrow> hd (pending_irobs L) \<noteq> None) \<and>
    (\<forall>k p. k < length (pending_irobs L) \<longrightarrow> pending_irobs L ! k = Some p \<longrightarrow>
       pi_id p = lat_offset L + int k \<and> find_locked L (pi_id p) = Some p \<and>
       \<not> contains (past_irobs L) (pi_id p)) \<and>
    (\<forall>i d p. find_locked L i = Some p \<longrightarrow> id_ok i \<longrightarrow> d \<in> deps p \<longrightarrow> \<not> contains (past_irobs L) d \<longrightarrow>
       (\<exists>q. find_locked L d = Some q \<and> i \<in> dependents q)) \<and>
    (\<forall>i d q. find_locked L d = Some q \<longrightarrow> id_ok d \<longrightarrow> i \<in> dependents q \<longrightarrow> \<not> contains (past_irobs L) i \<longrightarrow>
       (\<exists>p. find_locked L i = Some p \<and> d \<in> deps p))"
proof -
  have li: "lat_inv sender_elt L" using sender_run_inv [OF assms] by (simp add: run_inv_def)
  note wf = lat_invD(1) [OF li]
  have find: "id_ok i \<Longrightarrow> find_locked L i = lat_map L i" for i by (rule find_locked_map [OF wf])
  have slot: "pi_id p = lat_offset L + int k \<and> find_locked L (pi_id p) = Some p \<and>
      \<not> contains (past_irobs L) (pi_id p)"
    if "k < length (pending_irobs L)" "pending_irobs L ! k = Some p" for k p
  proof -
    have m: "lat_map L (lat_offset L + int k) = Some p" using that by (simp add: lat_map_def)
    then show ?thesis
      using lattice_wfD(4-6) [OF wf m] find by (simp add: contains_elems)
  qed
  have "\<exists>q. find_locked L d = Some q \<and> i \<in> dependents q"
    if st: "find_locked L i = Some p" "id_ok i" "d \<in> deps p" "\<not> contains (past_irobs L) d" for i d p
  proof -
    have m: "lat_map L i = Some p" using st find by simp
    then have "\<exists>q. lat_map L d = Some q \<and> i \<in> dependents q"
      using lat_invD(3) [OF li] st unfolding linked_def contains_elems by blast
    then show ?thesis using lattice_wfD(6) [OF wf] find by metis
  qed
  moreover have "\<exists>p. find_locked L i = Some p \<and> d \<in> deps p"
    if st: "find_locked L d = Some q" "id_ok d" "i \<in> dependents q" "\<not> contains (past_irobs L) i" for i d q
  proof -
    have m: "lat_map L d = Some q" using st find by simp
    then have "\<exists>p. lat_map L i = Some p \<and> d \<in> deps p"
      using lat_invD(3) [OF li] st unfolding linked_def contains_elems by blast
    then show ?thesis using lattice_wfD(6) [OF wf] find by metis
  qed
  ultimately show ?thesis using slot lattice_wfD(3) [OF wf] by blast
qed

theorem sender_lattice_invariant_witness:
  "\<exists>h L p. sender_run h L \<and> find_locked L 5 = Some p \<and> pi_id p = 5 \<and> hd (pending_irobs L) \<noteq> None"
proof -
  obtain p where p: "new_sender_irob 5 0 None 1 (Some [7]) 0 None 0 (tv 0 0) = Inr p"
    by (simp add: new_sender_irob_def new_irob_def Let_def)
  have pf: "sender_fresh p" "id_ok (pi_id p)" "finite (deps p)" "\<forall>d\<in>deps p. id_ok d" "pi_id p = 5"
    using new_sender_irob_ok [OF p] p
    by (auto simp: sender_fresh_def id_ok_def new_sender_irob_def new_irob_def Let_def extend_sender_def
        pending_irob.defs)
  have new: "pi_id p \<notin> elems (past_irobs new_lattice)" "lat_map new_lattice (pi_id p) = None"
    by simp_all
  obtain L where L: "insert_locked sender_placeholder sender_subsume True p new_lattice = Inr (True, L)"
    "lat_inv sender_elt L" "lat_map L 5 \<noteq> None"
    by (rule snd.insert_spec [OF new_lattice_inv pf(1,3,4,2) new(1) _ refl, of True])
       (use pf(5) in \<open>auto simp: link_map_def new(2)\<close>)
  then obtain q where q: "lat_map L 5 = Some q" by blast
  have f: "find_locked L 5 = Some q" using q find_locked_map [OF lat_invD(1) [OF L(2)]] by (simp add: id_ok_def)
  have run: "sender_run ([] @ [(pi_id p, deps q, anonymous q)]) L"
    by (rule run_insert [OF run_new pf(1-4) L(1)]) (use f pf(5) in simp)
  have ne: "pending_irobs L \<noteq> []" using q by (auto simp: lat_map_def split: if_splits)
  have "pi_id q = 5" using lattice_wfD(4) [OF lat_invD(1) [OF L(2)] q] .
  with sender_lattice_invariant [OF run] run f ne show ?thesis by blast
qed

text \<open>The dependencies between pending IROBs.\<close>

definition pending_deps :: "sender_irob lattice \<Rightarrow> (int \<times> int) set" where
  "pending_deps L = {(j, d). id_ok j \<and> id_ok d \<and> find_locked L d \<noteq> None \<and>
     (\<exists>p. find_locked L j = Some p \<and> d \<in> deps p)}"

lemma reach_iff_depends:
  assumes li: "lat_inv sender_elt L" and j: "lat_map L j = Some pj"
  shows "(i, j) \<in> (dependent_edges (lat_map L))\<^sup>* \<longleftrightarrow> (j, i) \<in> (pending_deps L)\<^sup>*"
proof -
  note wf = lat_invD(1) [OF li]
  let ?E = "dependent_edges (lat_map L)" and ?P = "pending_deps L"
  have find: "id_ok i \<Longrightarrow> find_locked L i = lat_map L i" for i by (rule find_locked_map [OF wf])
  have EP: "(j, d) \<in> ?P" if e: "(d, j) \<in> ?E" "lat_map L j = Some p" for d j p
  proof -
    obtain q where q: "lat_map L d = Some q" "j \<in> dependents q" using e by (auto simp: dependent_edges_def)
    have "j \<notin> elems (past_irobs L)" by (rule lattice_wfD(5) [OF wf e(2)])
    then have "d \<in> deps p" using lat_invD(3) [OF li] q e(2) unfolding linked_def by fastforce
    then show ?thesis using q e(2) lattice_wfD(6) [OF wf] find by (auto simp: pending_deps_def)
  qed
  have PE: "(d, j) \<in> ?E" if e: "(j, d) \<in> ?P" for d j
  proof -
    obtain p q where p: "lat_map L j = Some p" "d \<in> deps p" "lat_map L d = Some q"
      using e find by (auto simp: pending_deps_def)
    have "d \<notin> elems (past_irobs L)" by (rule lattice_wfD(5) [OF wf p(3)])
    then have "j \<in> dependents q" using lat_invD(3) [OF li] p unfolding linked_def by fastforce
    then show ?thesis using p by (auto simp: dependent_edges_def)
  qed
  have "(j, i) \<in> ?P\<^sup>*" if "(i, j) \<in> ?E\<^sup>*" "lat_map L j \<noteq> None"
    using that
  proof (induction rule: rtrancl_induct)
    case (step y z)
    then have "lat_map L y \<noteq> None" by (auto simp: dependent_edges_def)
    then show ?case using step EP by (meson converse_rtrancl_into_rtrancl not_None_eq)
  qed simp
  moreover have "(i, j) \<in> ?E\<^sup>*" if "(j, i) \<in> ?P\<^sup>*"
    using that by (induction rule: converse_rtrancl_induct) (auto intro: rtrancl_into_rtrancl PE)
  ultimately show ?thesis using j by blast
qed

text \<open>
  C31. Dropping an IROB removes from the sender's lattice exactly the pending IROBs that are it
  or depend on it through pending IROBs, records each of them as dropped and past, and leaves every
  other IROB as it was; afterwards no pending IROB depends on one that was removed.
\<close>

theorem drop_removes_exactly_the_dependents:
  assumes "sender_run h L" and "id_ok i" and "id_ok j" and "find_locked L j = Some p"
  shows "(find_locked (drop_irob_and_dependents i L) j =
            (if (j, i) \<in> (pending_deps L)\<^sup>* then None else Some p)) \<and>
    ((j, i) \<in> (pending_deps L)\<^sup>* \<longrightarrow> irob_was_dropped (drop_irob_and_dependents i L) j \<and>
       past_irob_exists (drop_irob_and_dependents i L) j) \<and>
    ((j, i) \<notin> (pending_deps L)\<^sup>* \<longrightarrow>
       (\<forall>d\<in>deps p. find_locked L d \<noteq> None \<longrightarrow> find_locked (drop_irob_and_dependents i L) d \<noteq> None))"
proof -
  have li: "lat_inv sender_elt L" using sender_run_inv [OF assms(1)] by (simp add: run_inv_def)
  note wf = lat_invD(1) [OF li]
  let ?E = "dependent_edges (lat_map L)" and ?P = "pending_deps L"
  let ?L' = "drop_irob_and_dependents i L"
  have spec: "lat_inv sender_elt ?L'" "lat_map ?L' = (\<lambda>k. if (i, k) \<in> ?E\<^sup>* then None else lat_map L k)"
    "elems (dropped_irobs ?L') = elems (dropped_irobs L) \<union> {k \<in> dom (lat_map L). (i, k) \<in> ?E\<^sup>*}"
    "elems (past_irobs ?L') = elems (past_irobs L) \<union> {k \<in> dom (lat_map L). (i, k) \<in> ?E\<^sup>*}"
    using snd.drop_loop_spec [OF li, of "[i]"] assms(2)
    by (auto simp: drop_irob_and_dependents_def Image_singleton)
  have find': "id_ok k \<Longrightarrow> find_locked ?L' k = lat_map ?L' k" for k
    by (rule find_locked_map [OF lat_invD(1) [OF spec(1)]])
  have j: "lat_map L j = Some p" using assms find_locked_map [OF wf] by simp
  note iff = reach_iff_depends [OF li j, of i]
  have keep: "find_locked ?L' d \<noteq> None"
    if d: "d \<in> deps p" "find_locked L d \<noteq> None" and no: "(j, i) \<notin> ?P\<^sup>*" for d
  proof -
    have ok: "id_ok d" using irob_okD(4) [OF lat_invD(2) [OF li j] d(1)] .
    have e: "(j, d) \<in> ?P" using d ok assms(3,4) by (auto simp: pending_deps_def)
    then have "(d, i) \<notin> ?P\<^sup>*" using no by (meson converse_rtrancl_into_rtrancl)
    moreover obtain q where q: "lat_map L d = Some q" using d(2) find_locked_map [OF wf ok] by auto
    ultimately have "(i, d) \<notin> ?E\<^sup>*" using reach_iff_depends [OF li q] by blast
    then show ?thesis using q find' [OF ok] by (simp add: spec(2))
  qed
  have "irob_was_dropped ?L' j \<and> past_irob_exists ?L' j" if "(j, i) \<in> ?P\<^sup>*"
    using that iff j spec(3,4) by (auto simp: irob_was_dropped_def past_irob_exists_def contains_elems)
  moreover have "find_locked ?L' j = (if (j, i) \<in> ?P\<^sup>* then None else Some p)"
    using j iff find' [OF assms(3)] by (simp add: spec(2))
  ultimately show ?thesis using keep by blast
qed

theorem drop_removes_exactly_the_dependents_witness:
  "\<exists>h L p. sender_run h L \<and> id_ok 5 \<and> find_locked L 5 = Some p \<and>
     find_locked (drop_irob_and_dependents 5 L) 5 = None \<and> irob_was_dropped (drop_irob_and_dependents 5 L) 5"
proof -
  obtain p where p: "new_sender_irob 5 0 None 1 (Some [7]) 0 None 0 (tv 0 0) = Inr p"
    by (simp add: new_sender_irob_def new_irob_def Let_def)
  have pf: "sender_fresh p" "id_ok (pi_id p)" "finite (deps p)" "\<forall>d\<in>deps p. id_ok d" "pi_id p = 5"
    using new_sender_irob_ok [OF p] p
    by (auto simp: sender_fresh_def id_ok_def new_sender_irob_def new_irob_def Let_def extend_sender_def
        pending_irob.defs)
  obtain L where L: "insert_locked sender_placeholder sender_subsume True p new_lattice = Inr (True, L)"
    "lat_inv sender_elt L" "lat_map L 5 \<noteq> None"
    by (rule snd.insert_spec [OF new_lattice_inv pf(1,3,4,2) _ _ refl, of True])
       (use pf(5) in \<open>auto simp: link_map_def\<close>)
  then obtain q where q: "lat_map L 5 = Some q" by blast
  have ok: "id_ok 5" by (simp add: id_ok_def)
  have f: "find_locked L 5 = Some q" using q find_locked_map [OF lat_invD(1) [OF L(2)] ok] by simp
  have run: "sender_run ([] @ [(pi_id p, deps q, anonymous q)]) L"
    by (rule run_insert [OF run_new pf(1-4) L(1)]) (use f pf(5) in simp)
  from drop_removes_exactly_the_dependents [OF run ok ok f] run f ok show ?thesis by auto
qed

end
