(* ===== verification/CSock_Mapping_Inv.thy ===== *)
theory CSock_Mapping_Inv
  imports CSock_Mapping
begin

text \<open>
  The invariant of the set of connections: at most one connection per pair of addresses. Under it the
  choice of a connection respects the labels, with the exceptions that the last theorems show.
\<close>

lemma find_SomeD: "find P xs = Some x \<Longrightarrow> x \<in> set xs \<and> P x"
  by (induction xs) (auto split: if_splits)

section \<open>The invariant\<close>

definition csock_addrs :: "msocket \<Rightarrow> csock_ref \<Rightarrow> (in_addr_t \<times> in_addr_t) option" where
  "csock_addrs sk c = map_option (\<lambda>cs. (ip_addr (local_iface cs), ip_addr (remote_iface cs))) (csock_heap sk c)"

definition map_ok :: "msocket \<Rightarrow> bool" where
  "map_ok sk \<longleftrightarrow> sorted_wrt (<) (available_csocks sk) \<and> (\<forall>c\<in>set (available_csocks sk). csock_heap sk c \<noteq> None) \<and>
     inj_on (csock_addrs sk) (set (available_csocks sk))"

lemma map_ok_cong:
  "available_csocks sk' = available_csocks sk \<Longrightarrow> csock_addrs sk' = csock_addrs sk \<Longrightarrow> map_ok sk' = map_ok sk"
proof -
  assume *: "available_csocks sk' = available_csocks sk" "csock_addrs sk' = csock_addrs sk"
  have "csock_heap sk' c \<noteq> None \<longleftrightarrow> csock_heap sk c \<noteq> None" for c
    using fun_cong [OF *(2), of c] by (cases "csock_heap sk c"; cases "csock_heap sk' c") (auto simp: csock_addrs_def)
  then show "map_ok sk' = map_ok sk" using * by (simp add: map_ok_def)
qed

lemma csock_by_ifaces_iff:
  assumes "map_ok sk"
  shows "csock_by_ifaces l r sk = Some c \<longleftrightarrow> c \<in> set (available_csocks sk) \<and> csock_addrs sk c = Some (ip_addr l, ip_addr r)"
    and "csock_by_ifaces l r sk = None \<longleftrightarrow> (\<forall>c\<in>set (available_csocks sk). csock_addrs sk c \<noteq> Some (ip_addr l, ip_addr r))"
proof -
  let ?P = "\<lambda>c. csock_addrs sk c = Some (ip_addr l, ip_addr r)"
  have eq: "csock_by_ifaces l r sk = find ?P (available_csocks sk)"
    by (auto simp: csock_by_ifaces_def find_csock_def csock_addrs_def iface_eq_def intro!: arg_cong2 [where f = find]
        split: option.splits)
  show "csock_by_ifaces l r sk = None \<longleftrightarrow> (\<forall>c\<in>set (available_csocks sk). \<not> ?P c)"
    by (auto simp: eq find_None_iff)
  have inj: "inj_on (csock_addrs sk) (set (available_csocks sk))" using assms by (simp add: map_ok_def)
  show "csock_by_ifaces l r sk = Some c \<longleftrightarrow> c \<in> set (available_csocks sk) \<and> ?P c"
  proof
    assume "csock_by_ifaces l r sk = Some c"
    then show "c \<in> set (available_csocks sk) \<and> ?P c" unfolding eq by (auto simp: find_Some_iff)
  next
    assume c: "c \<in> set (available_csocks sk) \<and> ?P c"
    then obtain d where d: "find ?P (available_csocks sk) = Some d" by (cases "find ?P (available_csocks sk)") (auto simp: find_None_iff)
    then have "d \<in> set (available_csocks sk)" "?P d" by (auto simp: find_Some_iff)
    then have "d = c" using inj_onD [OF inj, of d c] c by simp
    then show "csock_by_ifaces l r sk = Some c" using d eq by simp
  qed
qed

section \<open>Operations keep it\<close>

lemma sorted_removeAll: "sorted_wrt (<) (xs :: nat list) \<Longrightarrow> sorted_wrt (<) (removeAll x xs)"
  by (induction xs) auto

lemma sorted_insort: "sorted_wrt (<) (xs :: nat list) \<Longrightarrow> sorted_wrt (<) (insort_insert x xs)"
  using sorted_insort_insert [of xs x] distinct_insort_insert [of xs] by (auto simp: strict_sorted_iff)

lemma erase_csock_ok:
  assumes "map_ok sk"
  shows "map_ok (erase_csock c sk)"
proof -
  have a: "csock_addrs (erase_csock c sk) = csock_addrs sk" by (rule ext) (simp add: csock_addrs_def erase_csock_def)
  have h: "csock_heap (erase_csock c sk) = csock_heap sk" "available_csocks (erase_csock c sk) = removeAll c (available_csocks sk)"
    by (simp_all add: erase_csock_def)
  show ?thesis unfolding map_ok_def a h
    using assms sorted_removeAll inj_on_subset [of "csock_addrs sk" "set (available_csocks sk)"] by (auto simp: map_ok_def)
qed

lemma add_csock_ok:
  assumes "map_ok sk" and "csock_heap sk c = None"
    and "\<forall>d\<in>set (available_csocks sk). csock_addrs sk d \<noteq> Some (ip_addr (local_iface cs), ip_addr (remote_iface cs))"
  shows "map_ok (add_csock c cs sk)"
proof -
  let ?sk = "add_csock c cs sk"
  have c: "c \<notin> set (available_csocks sk)" using assms(1,2) by (auto simp: map_ok_def)
  have addrs: "csock_addrs ?sk d = (if d = c then Some (ip_addr (local_iface cs), ip_addr (remote_iface cs)) else csock_addrs sk d)" for d
    by (simp add: csock_addrs_def add_csock_def)
  have avail: "set (available_csocks ?sk) = insert c (set (available_csocks sk))"
    by (simp add: add_csock_def set_insort_insert)
  have "inj_on (csock_addrs ?sk) (insert c (set (available_csocks sk)))"
  proof (rule inj_onI)
    fix x y assume "x \<in> insert c (set (available_csocks sk))" "y \<in> insert c (set (available_csocks sk))"
      "csock_addrs ?sk x = csock_addrs ?sk y"
    then show "x = y" using c assms(1,3) by (auto simp: addrs map_ok_def inj_on_def split: if_splits)
  qed
  then show ?thesis
    using assms(1) sorted_insort [of "available_csocks sk" c]
    by (auto simp: map_ok_def avail) (auto simp: add_csock_def map_ok_def)
qed

lemma update_csock_addrs:
  "(\<And>cs. ip_addr (local_iface (f cs)) = ip_addr (local_iface cs)) \<Longrightarrow>
   (\<And>cs. ip_addr (remote_iface (f cs)) = ip_addr (remote_iface cs)) \<Longrightarrow>
   csock_addrs (update_csock c f sk) = csock_addrs sk"
  "available_csocks (update_csock c f sk) = available_csocks sk"
  by (auto simp: update_csock_def csock_addrs_def fun_eq_iff split: option.splits)

lemma startup_workers_ok: "map_ok (startup_workers c sk) = map_ok sk"
  by (rule map_ok_cong) (simp_all add: startup_workers_def update_csock_addrs)

text \<open>The data checks only fill an index.\<close>

definition same_map :: "msocket \<Rightarrow> msocket \<Rightarrow> bool" where
  "same_map sk sk' \<longleftrightarrow> available_csocks sk' = available_csocks sk \<and> csock_addrs sk' = csock_addrs sk"

lemma same_map_ok: "same_map sk sk' \<Longrightarrow> map_ok sk' = map_ok sk"
  unfolding same_map_def by (elim conjE) (rule map_ok_cong)

lemma foldE_same_map:
  "(\<And>x s s'. f x s = Inr s' \<Longrightarrow> same_map s s') \<Longrightarrow> foldE f xs s = Inr s' \<Longrightarrow> same_map s s'"
proof (induction xs arbitrary: s)
  case (Cons x xs)
  then obtain s1 where s1: "f x s = Inr s1" "foldE f xs s1 = Inr s'" by (cases "f x s") auto
  have "same_map s s1" by (rule Cons.prems(1) [OF s1(1)])
  moreover have "same_map s1 s'" by (rule Cons.IH [OF _ s1(2)]) (rule Cons.prems(1))
  ultimately show ?case by (simp add: same_map_def)
qed (simp add: same_map_def)

lemma data_check_same_map: "data_check_all_irobs l r m sk = Inr sk' \<Longrightarrow> same_map sk sk'"
  unfolding data_check_all_irobs_def
  by (rule foldE_same_map) (auto simp: same_map_def sk_schedule_def csock_addrs_def ASSERT_def fun_eq_iff split: option.splits if_splits)

definition alloc_fresh :: "sys_env \<Rightarrow> bool" where
  "alloc_fresh sys \<longleftrightarrow> (\<forall>sk c. alloc sys sk = Some c \<longrightarrow> csock_heap sk c = None)"

lemma make_new_csocket_ok:
  assumes ok: "map_ok sk" and al: "alloc_fresh sys" and mk: "make_new_csocket sys l r acc sk = Inr (a, sk')"
  shows "map_ok sk'"
proof -
  let ?old = "csock_by_ifaces l r sk"
  let ?sk1 = "case ?old of Some c \<Rightarrow> erase_csock c sk | None \<Rightarrow> sk"
  have ok1: "map_ok ?sk1" using ok erase_csock_ok by (simp split: option.split)
  have free: "\<forall>d\<in>set (available_csocks ?sk1). csock_addrs ?sk1 d \<noteq> Some (ip_addr l, ip_addr r)"
  proof (cases ?old)
    case (Some c)
    then have c: "c \<in> set (available_csocks sk)" "csock_addrs sk c = Some (ip_addr l, ip_addr r)"
      using csock_by_ifaces_iff(1) [OF ok] by blast+
    have "csock_addrs sk d \<noteq> csock_addrs sk c" if "d \<in> set (available_csocks sk)" "d \<noteq> c" for d
      using ok c(1) that by (auto simp: map_ok_def dest: inj_onD)
    then show ?thesis using Some c(2) by (auto simp: erase_csock_def csock_addrs_def)
  next
    case None
    then show ?thesis using csock_by_ifaces_iff(2) [OF ok, of l r] by simp
  qed
  show ?thesis
  proof (cases "?old \<noteq> None \<and> acc \<le> 0")
    case True
    then show ?thesis using mk ok by (simp add: make_new_csocket_def)
  next
    case False
    show ?thesis
    proof (cases "alloc sys ?sk1")
      case None
      then show ?thesis using mk False ok1 by (auto simp: make_new_csocket_def Let_def)
    next
      case (Some c)
      let ?sk2 = "startup_workers c (add_csock c (new_csocket l r acc) ?sk1)"
      have "csock_heap ?sk1 c = None" using al Some by (simp add: alloc_fresh_def)
      then have ok2: "map_ok ?sk2" using add_csock_ok [OF ok1, of c "new_csocket l r acc"] free
        by (simp add: startup_workers_ok new_csocket_def)
      have "sk' = ?sk2 \<or> data_check_all_irobs (ip_addr l) (ip_addr r) 0 ?sk2 = Inr sk'"
        using mk False Some by (auto simp: make_new_csocket_def Let_def bindE_def split: if_splits sum.splits)
      then show ?thesis using ok2 data_check_same_map same_map_ok by blast
    qed
  qed
qed

lemma get_iface_pair_same_map: "get_iface_pair_locked labels sk = Inr (p, sk') \<Longrightarrow> same_map sk sk'"
  by (auto simp: get_iface_pair_locked_def same_map_def csock_addrs_def Let_def fun_eq_iff split: if_splits list.splits)

lemma csock_matches_same_map: "csock_matches c labels sk = Inr (m, sk') \<Longrightarrow> same_map sk sk'"
  by (auto simp: csock_matches_def bindE_def dest!: get_iface_pair_same_map split: if_splits sum.splits option.splits)
     (simp_all add: same_map_def)

lemma find_match_same_map: "find_match labels cs sk = Inr (r, sk') \<Longrightarrow> same_map sk sk'"
proof (induction labels cs sk arbitrary: r rule: find_match.induct)
  case (2 labels c cs sk)
  then obtain m sk1 where m: "csock_matches c labels sk = Inr (m, sk1)" by (cases "csock_matches c labels sk") auto
  then have "same_map sk sk1" by (rule csock_matches_same_map)
  moreover have "same_map sk1 sk'" using 2 m by (cases m) (auto simp: same_map_def)
  ultimately show ?case by (simp add: same_map_def)
qed (simp add: same_map_def)

lemma connected_csock_same_map: "connected_csock_with_labels labels sk = Inr (r, sk') \<Longrightarrow> same_map sk sk'"
  by (auto simp: connected_csock_with_labels_def same_map_def csock_addrs_def bindE_def ASSERT_def Let_def fun_eq_iff
      split: if_splits sum.splits option.splits)

lemma new_csock_with_labels_ok:
  assumes "map_ok sk" and "alloc_fresh sys" and "new_csock_with_labels sys labels sk = Inr (a, sk')"
  shows "map_ok sk'"
proof -
  obtain found sk1 where f: "csock_with_labels labels sk = Inr (found, sk1)"
    using assms(3) by (cases "csock_with_labels labels sk") (auto simp: new_csock_with_labels_def)
  then have ok1: "map_ok sk1" using find_match_same_map same_map_ok assms(1) unfolding csock_with_labels_def by blast
  show ?thesis
  proof (cases found)
    case (Some c)
    then show ?thesis using assms(3) f ok1 by (auto simp: new_csock_with_labels_def)
  next
    case None
    then obtain p sk2 where p: "get_iface_pair_locked labels sk1 = Inr (p, sk2)"
      using assms(3) f by (cases "get_iface_pair_locked labels sk1") (auto simp: new_csock_with_labels_def)
    then have ok2: "map_ok sk2" using get_iface_pair_same_map same_map_ok ok1 by blast
    show ?thesis
      using assms(3) f None p make_new_csocket_ok [OF ok2 assms(2)] ok2
      by (auto simp: new_csock_with_labels_def split: option.splits)
  qed
qed

lemma get_csock_attempt_ok:
  assumes "map_ok sk" and "alloc_fresh sys" and "get_csock_attempt sys labels sk = Inr (a, sk')"
  shows "map_ok sk'"
proof -
  obtain p sk1 where p: "get_iface_pair_locked labels sk = Inr (p, sk1)"
    using assms(3) by (cases "get_iface_pair_locked labels sk") (auto simp: get_csock_attempt_def)
  then have ok1: "map_ok sk1" using get_iface_pair_same_map same_map_ok assms(1) by blast
  show ?thesis
  proof (cases p)
    case None
    then show ?thesis using assms(3) p ok1 by (auto simp: get_csock_attempt_def)
  next
    case (Some lr)
    obtain c sk2 where c: "connected_csock_with_labels labels sk1 = Inr (c, sk2)"
      using assms(3) p Some by (cases "connected_csock_with_labels labels sk1") (auto simp: get_csock_attempt_def split: prod.splits)
    then have ok2: "map_ok sk2" using connected_csock_same_map same_map_ok ok1 by blast
    show ?thesis
    proof (cases c)
      case (Some d)
      then show ?thesis using assms(3) p \<open>p = Some lr\<close> c ok2 by (auto simp: get_csock_attempt_def split: prod.splits)
    next
      case None
      obtain a' sk3 where a: "new_csock_with_labels sys labels sk2 = Inr (a', sk3)"
        using assms(3) p Some c None by (cases "new_csock_with_labels sys labels sk2") (auto simp: get_csock_attempt_def split: prod.splits)
      then have "map_ok sk3" by (rule new_csock_with_labels_ok [OF ok2 assms(2)])
      then show ?thesis using assms(3) p Some c None a by (auto simp: get_csock_attempt_def split: prod.splits attempt.splits)
    qed
  qed
qed

lemma update_iface_same_map:
  assumes "update_iface sys iface local c sk = Inr sk'"
    and "\<And>cs. csock_heap sk c = Some cs \<Longrightarrow> ip_addr (if local then local_iface cs else remote_iface cs) = ip_addr iface"
  shows "same_map sk sk'"
proof (cases "csock_heap sk c")
  case (Some cs)
  let ?f = "\<lambda>cs. if local then cs\<lparr>local_iface := iface\<rparr> else cs\<lparr>remote_iface := iface\<rparr>"
  have h: "csock_heap sk' = (csock_heap sk)(c \<mapsto> ?f cs)" "available_csocks sk' = available_csocks sk"
    using assms(1) Some by (auto simp: update_iface_def update_csock_def Let_def bindE_def split: sum.splits if_splits)
  show ?thesis using assms(2) [OF Some] Some by (auto simp: same_map_def csock_addrs_def h fun_eq_iff)
qed (use assms in \<open>auto simp: update_iface_def update_csock_def\<close>)

text \<open>The same address of an interface, in terms of the addresses of a connection.\<close>

definition on_iface :: "net_interface \<Rightarrow> bool \<Rightarrow> (in_addr_t \<times> in_addr_t) option \<Rightarrow> bool" where
  "on_iface iface local a \<longleftrightarrow> (case a of Some (l, r) \<Rightarrow> (if local then l else r) = ip_addr iface | None \<Rightarrow> False)"

lemma matching_csocks_eq: "matching_csocks iface local sk = filter (\<lambda>c. on_iface iface local (csock_addrs sk c)) (available_csocks sk)"
  unfolding matching_csocks_def by (rule filter_cong) (auto simp: on_iface_def csock_addrs_def split: option.splits)

lemma update_ifaces_same_map:
  "foldE (update_iface sys iface local) cs sk = Inr sk' \<Longrightarrow> \<forall>c\<in>set cs. on_iface iface local (csock_addrs sk c) \<Longrightarrow> same_map sk sk'"
proof (induction cs arbitrary: sk)
  case (Cons c cs)
  then obtain sk1 where s1: "update_iface sys iface local c sk = Inr sk1" "foldE (update_iface sys iface local) cs sk1 = Inr sk'"
    by (cases "update_iface sys iface local c sk") auto
  have same: "same_map sk sk1"
    by (rule update_iface_same_map [OF s1(1)]) (use Cons.prems(2) in \<open>auto simp: on_iface_def csock_addrs_def\<close>)
  moreover have "same_map sk1 sk'" by (rule Cons.IH [OF s1(2)]) (use same Cons.prems(2) in \<open>simp add: same_map_def\<close>)
  ultimately show ?case by (simp add: same_map_def)
qed (simp add: same_map_def)

lemma foldE_map_ok:
  "(\<And>x s s'. map_ok s \<Longrightarrow> f x s = Inr s' \<Longrightarrow> map_ok s') \<Longrightarrow> map_ok s \<Longrightarrow> foldE f xs s = Inr s' \<Longrightarrow> map_ok s'"
proof (induction xs arbitrary: s)
  case (Cons x xs)
  then obtain s1 where s1: "f x s = Inr s1" "foldE f xs s1 = Inr s'" by (cases "f x s") auto
  show ?case by (rule Cons.IH [OF _ Cons.prems(1) [OF Cons.prems(2) s1(1)] s1(2)]) (rule Cons.prems(1))
qed simp

lemma map_setup_ok:
  assumes "map_ok sk" and "alloc_fresh sys" and "map_setup sys iface local mk chk sk = Inr sk'"
  shows "map_ok sk'"
proof -
  obtain sk1 where s1: "foldE (update_iface sys iface local) (matching_csocks iface local sk) sk = Inr sk1"
    using assms(3) by (cases "foldE (update_iface sys iface local) (matching_csocks iface local sk) sk") (auto simp: map_setup_def)
  then have ok1: "map_ok sk1"
    using update_ifaces_same_map [OF s1] same_map_ok assms(1) by (simp add: matching_csocks_eq)
  show ?thesis
  proof (cases "\<not> mk \<or> accepting_side sk1 \<or> \<not> local")
    case True
    then show ?thesis using assms(3) s1 ok1 by (auto simp: map_setup_def)
  next
    case False
    let ?f = "\<lambda>r sk2. if chk \<or> csock_by_ifaces iface r sk2 = None
      then bindE (make_new_csocket sys iface r (-1) sk2) (\<lambda>(a, sk3). if a = Throws then Inl RuntimeError else Inr sk3) else Inr sk2"
    have f: "map_ok s'" if "map_ok s" "?f r s = Inr s'" for r s s'
      using that make_new_csocket_ok [OF that(1) assms(2)] by (auto simp: bindE_def split: if_splits sum.splits)
    have "foldE ?f (remote_ifaces sk1) sk1 = Inr sk'" using assms(3) s1 False by (auto simp: map_setup_def)
    from foldE_map_ok [of ?f, OF _ ok1 this] f show ?thesis by blast
  qed
qed

lemma map_teardown_ok: "map_ok sk \<Longrightarrow> map_ok (map_teardown iface local sk)"
proof -
  have "map_ok sk \<Longrightarrow> map_ok (foldr erase_csock cs sk)" for cs by (induction cs) (auto intro: erase_csock_ok)
  then show "map_ok sk \<Longrightarrow> map_ok (map_teardown iface local sk)" by (simp add: map_teardown_def)
qed

lemma remove_csock_ok: "map_ok sk \<Longrightarrow> remove_csock c sk = Inr sk' \<Longrightarrow> map_ok sk'"
  by (auto simp: remove_csock_def bindE_def intro: erase_csock_ok split: option.splits sum.splits)

section \<open>Runs\<close>

text \<open>The ways in which the set of connections changes. \<open>keep\<close> is any step that leaves the set and the
  addresses of the connections alone, such as a connection that becomes connected.\<close>

inductive map_run :: "msocket \<Rightarrow> bool" where
  fresh: "available_csocks sk = [] \<Longrightarrow> map_run sk"
| chosen: "map_run sk \<Longrightarrow> alloc_fresh sys \<Longrightarrow> get_csock_map sys p sk = Inr (rc, a, p', sk') \<Longrightarrow> map_run sk'"
| labelled: "map_run sk \<Longrightarrow> alloc_fresh sys \<Longrightarrow> new_csock_with_labels sys labels sk = Inr (a, sk') \<Longrightarrow> map_run sk'"
| accepted: "map_run sk \<Longrightarrow> alloc_fresh sys \<Longrightarrow> make_new_csocket sys l r fd sk = Inr (a, sk') \<Longrightarrow> map_run sk'"
| appears: "map_run sk \<Longrightarrow> alloc_fresh sys \<Longrightarrow> map_setup sys iface local mk chk sk = Inr sk' \<Longrightarrow> map_run sk'"
| disappears: "map_run sk \<Longrightarrow> map_run (map_teardown iface local sk)"
| removed: "map_run sk \<Longrightarrow> remove_csock c sk = Inr sk' \<Longrightarrow> map_run sk'"
| keep: "map_run sk \<Longrightarrow> same_map sk sk' \<Longrightarrow> map_run sk'"

lemma no_csocks_ok: "available_csocks sk = [] \<Longrightarrow> map_ok sk"
  by (simp add: map_ok_def)

lemma map_run_ok: "map_run sk \<Longrightarrow> map_ok sk"
proof (induction rule: map_run.induct)
  case (chosen sk sys p rc a p' sk')
  then obtain a1 sk1 where a1: "get_csock_attempt sys (case p of Some p \<Rightarrow> send_labels p | None \<Rightarrow> 0) sk = Inr (a1, sk1)"
    by (cases "get_csock_attempt sys (case p of Some p \<Rightarrow> send_labels p | None \<Rightarrow> 0) sk") (auto simp: get_csock_map_def)
  then have "sk' = sk1" using chosen.hyps(3) by (auto simp: get_csock_map_def Let_def split: attempt.splits)
  then show ?case using get_csock_attempt_ok [OF chosen.IH chosen.hyps(2) a1] by simp
qed (auto simp: same_map_ok
    intro: no_csocks_ok new_csock_with_labels_ok make_new_csocket_ok map_setup_ok map_teardown_ok remove_csock_ok)

section \<open>The choice among the connected connections\<close>

lemma add_lookup_eq:
  assumes "\<forall>e\<in>set acc. \<forall>x\<in>set cs. \<not> (iface_eq (fst (fst e)) (local_iface (snd x)) \<and> iface_eq (snd (fst e)) (remote_iface (snd x)))"
    and "sorted_wrt (\<lambda>x y. \<not> (iface_eq (local_iface (snd x)) (local_iface (snd y)) \<and> iface_eq (remote_iface (snd x)) (remote_iface (snd y)))) cs"
  shows "add_lookup acc cs = Inr (acc @ map (\<lambda>(c, cs). ((local_iface cs, remote_iface cs), c)) cs)"
  using assms
proof (induction acc cs rule: add_lookup.induct)
  case (2 acc c cs rest)
  have "add_lookup (acc @ [((local_iface cs, remote_iface cs), c)]) rest =
      Inr ((acc @ [((local_iface cs, remote_iface cs), c)]) @ map (\<lambda>(c, cs). ((local_iface cs, remote_iface cs), c)) rest)"
    by (rule "2.IH") (use "2.prems" in auto)
  then show ?case using "2.prems"(1) by (auto simp: ASSERT_def)
qed simp

definition lookup_of :: "msocket \<Rightarrow> (iface_pair \<times> csock_ref) list" where
  "lookup_of sk = map (\<lambda>(c, cs). ((local_iface cs, remote_iface cs), c)) (connected_csocks sk)"

lemma in_connected_csocks:
  "(c, cs) \<in> set (connected_csocks sk) \<longleftrightarrow> c \<in> set (available_csocks sk) \<and> csock_heap sk c = Some cs \<and> connected cs"
  by (auto simp: connected_csocks_def split: option.splits)

lemma sorted_wrt_concat_map:
  "sorted_wrt P xs \<Longrightarrow> (\<And>x. sorted_wrt Q (f x)) \<Longrightarrow> (\<And>x y a b. P x y \<Longrightarrow> x \<in> set xs \<Longrightarrow> y \<in> set xs \<Longrightarrow> a \<in> set (f x) \<Longrightarrow> b \<in> set (f y) \<Longrightarrow> Q a b) \<Longrightarrow>
   sorted_wrt Q (concat (map f xs))"
  by (induction xs) (auto simp: sorted_wrt_append)

lemma add_lookup_connected:
  assumes ok: "map_ok sk"
  shows "add_lookup [] (connected_csocks sk) = Inr (lookup_of sk)"
proof -
  have "sorted_wrt (\<lambda>x y. \<not> (iface_eq (local_iface (snd x)) (local_iface (snd y)) \<and> iface_eq (remote_iface (snd x)) (remote_iface (snd y))))
    (connected_csocks sk)"
    unfolding connected_csocks_def
  proof (rule sorted_wrt_concat_map [of "(<)"])
    show "sorted_wrt (<) (available_csocks sk)" using ok by (simp add: map_ok_def)
  next
    fix c d x y assume "c < d" "c \<in> set (available_csocks sk)" "d \<in> set (available_csocks sk)"
      "x \<in> set (concat (map (\<lambda>cs. if connected cs then [(c, cs)] else []) (case csock_heap sk c of Some cs \<Rightarrow> [cs] | None \<Rightarrow> [])))"
      "y \<in> set (concat (map (\<lambda>cs. if connected cs then [(d, cs)] else []) (case csock_heap sk d of Some cs \<Rightarrow> [cs] | None \<Rightarrow> [])))"
    then have "csock_addrs sk c \<noteq> csock_addrs sk d" "csock_heap sk c = Some (snd x)" "csock_heap sk d = Some (snd y)"
      using ok by (auto simp: map_ok_def dest: inj_onD split: option.splits if_splits)
    then show "\<not> (iface_eq (local_iface (snd x)) (local_iface (snd y)) \<and> iface_eq (remote_iface (snd x)) (remote_iface (snd y)))"
      by (auto simp: csock_addrs_def iface_eq_def)
  qed (auto split: option.split)
  then show ?thesis using add_lookup_eq [of "[]" "connected_csocks sk"] by (simp add: lookup_of_def)
qed

lemma find_lookup_considered:
  assumes "map_ok sk" and "p \<in> fst ` set (lookup_of sk)"
  obtains c cs where "find_lookup p (lookup_of sk) = Some c" "csock_heap sk c = Some cs" "c \<in> set (available_csocks sk)"
    "connected cs" "p = (local_iface cs, remote_iface cs)"
proof -
  obtain c cs where c: "(c, cs) \<in> set (connected_csocks sk)" "p = (local_iface cs, remote_iface cs)"
    using assms(2) by (auto simp: lookup_of_def)
  let ?P = "\<lambda>(q, _). iface_eq (fst q) (fst p) \<and> iface_eq (snd q) (snd p)"
  have "(p, c) \<in> set (lookup_of sk)" using c by (force simp: lookup_of_def)
  moreover have "?P (p, c)" by (simp add: iface_eq_def)
  ultimately have "find ?P (lookup_of sk) \<noteq> None" by (auto simp only: find_None_iff)
  then obtain q d where d: "find ?P (lookup_of sk) = Some (q, d)" by auto
  have q: "(q, d) \<in> set (lookup_of sk)" "?P (q, d)" using find_SomeD [OF d] by auto
  then obtain ds where ds: "(d, ds) \<in> set (connected_csocks sk)" "q = (local_iface ds, remote_iface ds)" by (auto simp: lookup_of_def)
  have "csock_addrs sk d = csock_addrs sk c"
    using q(2) c ds by (simp add: in_connected_csocks csock_addrs_def iface_eq_def)
  then have "d = c" using assms(1) c(1) ds(1) by (auto simp: in_connected_csocks map_ok_def dest: inj_onD)
  then have "find_lookup p (lookup_of sk) = Some c" using d by (simp add: find_lookup_def)
  then show ?thesis using that c by (auto simp: in_connected_csocks)
qed

lemma map_fst_lookup: "map fst (lookup_of sk) = map (\<lambda>(c, cs). (local_iface cs, remote_iface cs)) (connected_csocks sk)"
  by (simp add: lookup_of_def comp_def case_prod_unfold)

text \<open>What the lookup does with the choice of any chooser of which the round is usable.\<close>

lemma connected_csock_choice:
  assumes ok: "map_ok sk" and lo: "\<not> isLoopbackOnly sk" and ne: "connected_csocks sk \<noteq> []"
    and us: "usable_round (stats_cache_of sk) (map fst (lookup_of sk)) (impl (network_chooser_of sk))"
  defines "ch \<equiv> fold (chooser_consider (stats_cache_of sk)) (map fst (lookup_of sk)) (chooser_reset (network_chooser_of sk))"
  shows "case choose_networks labels ch of
      None \<Rightarrow> connected_csock_with_labels labels sk = Inr (None, sk\<lparr>network_chooser_of := ch\<rparr>)
    | Some p \<Rightarrow> \<exists>c cs. connected_csock_with_labels labels sk = Inr (Some c, sk\<lparr>network_chooser_of := ch\<rparr>) \<and>
        csock_heap sk c = Some cs \<and> c \<in> set (available_csocks sk) \<and> connected cs \<and> p = (local_iface cs, remote_iface cs)"
proof -
  have av: "available_csocks sk \<noteq> []" "lookup_of sk \<noteq> []" using ne by (auto simp: connected_csocks_def lookup_of_def)
  note eq = add_lookup_connected [OF ok]
  show ?thesis
  proof (cases "choose_networks labels ch")
    case None
    then show ?thesis using lo av eq by (simp add: connected_csock_with_labels_def Let_def ch_def)
  next
    case (Some p)
    have "p \<in> set (map fst (lookup_of sk))"
      using chs.picks_considered [of "stats_cache_of sk" "map fst (lookup_of sk)" "network_chooser_of sk" labels p] us Some
      by (simp add: ch_def)
    then have "p \<in> fst ` set (lookup_of sk)" by simp
    then obtain c cs where c: "find_lookup p (lookup_of sk) = Some c" "csock_heap sk c = Some cs"
      "c \<in> set (available_csocks sk)" "connected cs" "p = (local_iface cs, remote_iface cs)"
      by (rule find_lookup_considered [OF ok])
    have "connected_csock_with_labels labels sk = Inr (Some c, sk\<lparr>network_chooser_of := ch\<rparr>)"
      using lo av eq Some c(1) by (simp add: connected_csock_with_labels_def Let_def ch_def ASSERT_def)
    then show ?thesis using Some c(2-5) by auto
  qed
qed

lemma choice_result:
  "case x of Inl _ \<Rightarrow> False | Inr (r, sk') \<Rightarrow> P r sk' \<Longrightarrow> \<exists>r sk'. x = Inr (r, sk') \<and> P r sk'"
  by (cases x) auto

section \<open>Properties\<close>

text \<open>
  C33. In every reachable state a multisocket has at most one usable connection between two addresses,
  and every one it lists is there.
\<close>

theorem one_csock_per_iface_pair:
  assumes "map_run sk" and "c \<in> set (available_csocks sk)" and "d \<in> set (available_csocks sk)"
  shows "distinct (available_csocks sk) \<and>
    (\<exists>cs ds. csock_heap sk c = Some cs \<and> csock_heap sk d = Some ds \<and>
      (iface_eq (local_iface cs) (local_iface ds) \<and> iface_eq (remote_iface cs) (remote_iface ds) \<longleftrightarrow> c = d))"
proof -
  have ok: "map_ok sk" by (rule map_run_ok [OF assms(1)])
  then obtain cs ds where h: "csock_heap sk c = Some cs" "csock_heap sk d = Some ds" using assms by (fastforce simp: map_ok_def)
  have "csock_addrs sk c = csock_addrs sk d \<longleftrightarrow> c = d" using ok assms(2,3) by (auto simp: map_ok_def dest: inj_onD)
  then show ?thesis using ok h by (auto simp: map_ok_def csock_addrs_def iface_eq_def strict_sorted_iff)
qed


text \<open>A multisocket with one wifi connection and one 3G connection, of the given bandwidths.\<close>

definition net_iface :: "in_addr_t \<Rightarrow> u_long \<Rightarrow> 32 word \<Rightarrow> net_interface" where
  "net_iface ip bw t = \<lparr>ip_addr = ip, bandwidth_down = bw, bandwidth_up = bw, RTT = 10, type = t\<rparr>"

definition two_csocks :: "u_long \<Rightarrow> u_long \<Rightarrow> chooser \<Rightarrow> msocket" where
  "two_csocks wifi_bw threeg_bw ch =
     (let remote = net_iface 9 1000 0;
          mk = (\<lambda>l. (new_csocket l remote (-1))\<lparr>connected := True\<rparr>)
      in \<lparr>sock = 5, accepting_side = True, bootstrapped = True, remote_listener_port = 1, sk_non_blocking = False,
          csock_heap = [1 \<mapsto> mk (net_iface 1 wifi_bw NET_TYPE_WIFI), 2 \<mapsto> mk (net_iface 2 threeg_bw NET_TYPE_THREEG)],
          available_csocks = [1, 2],
          network_chooser_of = \<lparr>impl = ch, redundancyStrategy = NeverRedundant\<rparr>,
          redundancy_strategy_type = INTNW_NEVER_REDUNDANT, stats_cache_of = Map.empty, thunk_hash_of = [],
          local_ifaces = [net_iface 1 wifi_bw NET_TYPE_WIFI, net_iface 2 threeg_bw NET_TYPE_THREEG], remote_ifaces = [remote],
          changed_local_ifaces = [], down_local_ifaces = [],
          sk_shutting_down = False, remote_shutdown = False, goodbye_sent = False, sending_goodbye = False,
          outgoing_irobs = new_lattice, incoming_irobs = new_receiver_lattice, irob_indexes = empty_indexes,
          receive_timeout = tv 0 0, failure_timeouts = Map.empty, restriction_stats = Map.empty\<rparr>)"

text \<open>The two connections have been accepted one after the other and have then become connected.\<close>

definition demo_sys :: sys_env where
  "demo_sys = \<lparr>alloc = (\<lambda>sk. if csock_heap sk 1 = None then Some 1 else if csock_heap sk 2 = None then Some 2 else None),
     unsent_bytes = (\<lambda>_. 0), breq = 0, stats_update = (\<lambda>_ c. c)\<rparr>"

lemma two_csocks_run: "map_run (two_csocks b1 b2 ch)"
proof -
  let ?sk = "two_csocks b1 b2 ch" and ?r = "net_iface 9 1000 0" and ?w = "net_iface 1 b1 NET_TYPE_WIFI" and ?t = "net_iface 2 b2 NET_TYPE_THREEG"
  let ?init = "?sk\<lparr>csock_heap := Map.empty, available_csocks := []\<rparr>"
  let ?one = "startup_workers 1 (add_csock 1 (new_csocket ?w ?r 7) ?init)"
  let ?two = "startup_workers 2 (add_csock 2 (new_csocket ?t ?r 8) ?one)"
  have al: "alloc_fresh demo_sys" by (simp add: alloc_fresh_def demo_sys_def split: if_splits)
  have "map_run ?init" by (rule fresh) simp
  moreover have "make_new_csocket demo_sys ?w ?r 7 ?init = Inr (Csock 1, ?one)"
    by (simp add: make_new_csocket_def Let_def csock_by_ifaces_def find_csock_def demo_sys_def)
  ultimately have "map_run ?one" using accepted [OF _ al] by blast
  moreover have "make_new_csocket demo_sys ?t ?r 8 ?one = Inr (Csock 2, ?two)"
    by (simp add: make_new_csocket_def Let_def csock_by_ifaces_def find_csock_def demo_sys_def startup_workers_def add_csock_def
        update_csock_def new_csocket_def iface_eq_def net_iface_def insort_insert_key_def)
  ultimately have "map_run ?two" using accepted [OF _ al] by blast
  moreover have "same_map ?two ?sk"
    unfolding same_map_def
  proof (intro conjI ext)
    have "insort_insert 2 (insort_insert 1 []) = [1, 2 :: nat]" by code_simp
    then show "available_csocks ?sk = available_csocks ?two"
      by (simp add: startup_workers_def add_csock_def update_csock_def two_csocks_def Let_def)
    show "csock_addrs ?sk c = csock_addrs ?two c" for c
      by (simp add: csock_addrs_def startup_workers_def add_csock_def update_csock_def new_csocket_def two_csocks_def Let_def)
  qed
  ultimately show ?thesis by (rule keep)
qed

theorem one_csock_per_iface_pair_witness:
  "map_run (two_csocks 100 50 (LabelMatcher new_label_matcher)) \<and>
   (\<exists>cs ds. csock_heap (two_csocks 100 50 (LabelMatcher new_label_matcher)) 1 = Some cs \<and>
      csock_heap (two_csocks 100 50 (LabelMatcher new_label_matcher)) 2 = Some ds \<and>
      \<not> (iface_eq (local_iface cs) (local_iface ds) \<and> iface_eq (remote_iface cs) (remote_iface ds)))"
  using one_csock_per_iface_pair [OF two_csocks_run, of 1 100 50 "LabelMatcher new_label_matcher" 2] two_csocks_run
  by (simp add: two_csocks_def Let_def)


text \<open>
  When every connected connection has bandwidth 0, the look-up of a connection for background data
  fails an assertion, unless the pair left over from an earlier round happens to be one of these.
\<close>

theorem zero_bandwidth_traps:
  assumes "map_run sk" and "\<not> isLoopbackOnly sk" and "connected_csocks sk \<noteq> []"
    and "impl (network_chooser_of sk) = LabelMatcher s"
    and "\<forall>p\<in>set (map fst (lookup_of sk)). observed_bw (stats_cache_of sk) p = 0"
    and "find_lookup (max_bw_iface_pair s) (lookup_of sk) = None"
  shows "connected_csock_with_labels CMM_LABEL_BACKGROUND sk = Inl AssertFailed"
proof -
  let ?ps = "map fst (lookup_of sk)" and ?l = CMM_LABEL_BACKGROUND
  have av: "available_csocks sk \<noteq> []" "lookup_of sk \<noteq> []" using assms(3) by (auto simp: connected_csocks_def lookup_of_def)
  have "lm_choose_networks ?l (lm_round (stats_cache_of sk) ?ps s) = Some (max_bw_iface_pair s)"
    by (rule lm_zero_bw) (use av assms(5) in \<open>simp_all add: wants_latency_def has_label_def label_defs\<close>)
  then have "choose_networks ?l (fold (chooser_consider (stats_cache_of sk)) ?ps (chooser_reset (network_chooser_of sk))) =
      Some (max_bw_iface_pair s)"
    by (simp add: choose_networks_def fold_chooser_consider chooser_reset_def assms(4))
  then show ?thesis
    using assms(2,6) av add_lookup_connected [OF map_run_ok [OF assms(1)]]
    by (simp add: connected_csock_with_labels_def Let_def ASSERT_def)
qed

theorem zero_bandwidth_traps_witness:
  "connected_csock_with_labels CMM_LABEL_BACKGROUND (two_csocks 0 0 (LabelMatcher new_label_matcher)) = Inl AssertFailed"
proof -
  let ?sk = "two_csocks 0 0 (LabelMatcher new_label_matcher)"
  have l: "\<not> isLoopbackOnly ?sk" "impl (network_chooser_of ?sk) = LabelMatcher new_label_matcher"
    by (simp_all add: two_csocks_def isLoopbackOnly_def Let_def)
  have c: "connected_csocks ?sk \<noteq> []" by code_simp
  have z: "\<forall>p\<in>set (map fst (lookup_of ?sk)). observed_bw (stats_cache_of ?sk) p = 0" by code_simp
  have f: "find_lookup (max_bw_iface_pair new_label_matcher) (lookup_of ?sk) = None" by code_simp
  show ?thesis by (rule zero_bandwidth_traps [OF two_csocks_run l(1) c l(2) z f])
qed

text \<open>
  \<^verbatim>\<open>PreferredNetwork\<close> does not look at the labels when a connected connection is looked up: whatever
  the network restriction of the data, it is given the connection of the preferred type, here the wifi
  connection for data that is restricted to 3G although a 3G connection is there.
\<close>

theorem preferred_network_ignores_restriction:
  "\<exists>cs ds sk'. connected_csock_with_labels CMM_LABEL_THREEG_ONLY (two_csocks 100 50 (PreferredNetwork (new_preferred NET_TYPE_WIFI))) =
       Inr (Some 1, sk') \<and>
     csock_heap sk' 1 = Some cs \<and> \<not> fits_net_restriction cs CMM_LABEL_THREEG_ONLY \<and>
     csock_heap sk' 2 = Some ds \<and> connected ds \<and> fits_net_restriction ds CMM_LABEL_THREEG_ONLY"
proof -
  let ?sk = "two_csocks 100 50 (PreferredNetwork (new_preferred NET_TYPE_WIFI))"
  have "case connected_csock_with_labels CMM_LABEL_THREEG_ONLY ?sk of
      Inl _ \<Rightarrow> False
    | Inr (r, sk') \<Rightarrow> r = Some 1 \<and> list_all (\<lambda>(c, b). case csock_heap sk' c of
        Some cs \<Rightarrow> connected cs \<and> fits_net_restriction cs CMM_LABEL_THREEG_ONLY = b | None \<Rightarrow> False) [(1, False), (2, True)]"
    by code_simp
  from choice_result [OF this] show ?thesis by (simp split: option.splits) (elim exE conjE, simp, blast)+
qed

end
