(* ===== verification/Multisocket_Order.thy ===== *)
theory Multisocket_Order
  imports App_Operations Dependency_Order CSock_Mapping_Inv
begin

text \<open>
  The operations of a multisocket on its outgoing IROBs are runs of the sender's lattice: what is
  proved of these holds for a multisocket under the calls of the application, the acknowledgements and
  resend requests of the peer, and the comings and goings of networks.
\<close>

section \<open>What leaves the outgoing IROBs alone\<close>

definition same_out :: "msocket \<Rightarrow> msocket \<Rightarrow> bool" where
  "same_out sk sk' \<longleftrightarrow> outgoing_irobs sk' = outgoing_irobs sk"

lemma same_out_refl [simp]: "same_out sk sk"
  by (simp add: same_out_def)

lemma same_out_trans: "same_out sk sk1 \<Longrightarrow> same_out sk1 sk2 \<Longrightarrow> same_out sk sk2"
  by (simp add: same_out_def)

lemma foldE_same_out: "(\<And>x s s'. f x s = Inr s' \<Longrightarrow> same_out s s') \<Longrightarrow> foldE f xs s = Inr s' \<Longrightarrow> same_out s s'"
proof (induction xs arbitrary: s)
  case (Cons x xs)
  then obtain s1 where s1: "f x s = Inr s1" "foldE f xs s1 = Inr s'" by (cases "f x s") auto
  have "same_out s1 s'" by (rule Cons.IH [OF _ s1(2)]) (rule Cons.prems(1))
  then show ?case using Cons.prems(1) [OF s1(1)] by (simp add: same_out_def)
qed simp

lemma sk_schedule_out [simp]: "outgoing_irobs (sk_schedule d t sk) = outgoing_irobs sk"
  by (simp add: sk_schedule_def)

lemma update_csock_out [simp]: "outgoing_irobs (update_csock c f sk) = outgoing_irobs sk"
  by (simp add: update_csock_def split: option.split)

lemma register_thunk_out [simp]: "outgoing_irobs (register_thunk labels fn arg sk) = outgoing_irobs sk"
  by (simp add: register_thunk_def)

lemma addSchedulingData_out [simp]: "outgoing_irobs (addSchedulingData c t d sk) = outgoing_irobs sk"
  by (simp add: addSchedulingData_def)

lemma data_check_out: "data_check_all_irobs l r m sk = Inr sk' \<Longrightarrow> same_out sk sk'"
  unfolding data_check_all_irobs_def
  by (rule foldE_same_out) (auto simp: same_out_def ASSERT_def split: option.splits if_splits)

lemma get_iface_pair_out: "get_iface_pair_locked labels sk = Inr (p, sk') \<Longrightarrow> same_out sk sk'"
  by (auto simp: get_iface_pair_locked_def same_out_def Let_def split: if_splits list.splits)

lemma csock_matches_out: "csock_matches c labels sk = Inr (m, sk') \<Longrightarrow> same_out sk sk'"
  by (auto simp: csock_matches_def bindE_def dest!: get_iface_pair_out split: if_splits sum.splits option.splits)

lemma find_match_out: "find_match labels cs sk = Inr (r, sk') \<Longrightarrow> same_out sk sk'"
proof (induction labels cs sk arbitrary: r rule: find_match.induct)
  case (2 labels c cs sk)
  then obtain m sk1 where m: "csock_matches c labels sk = Inr (m, sk1)" by (cases "csock_matches c labels sk") auto
  moreover have "same_out sk1 sk'" using 2 m by (cases m) auto
  ultimately show ?case using csock_matches_out same_out_trans by blast
qed simp

lemma connected_csock_out: "connected_csock_with_labels labels sk = Inr (r, sk') \<Longrightarrow> same_out sk sk'"
  by (auto simp: connected_csock_with_labels_def same_out_def bindE_def ASSERT_def Let_def
      split: if_splits sum.splits option.splits)

lemma add_csock_out [simp]: "outgoing_irobs (add_csock c cs sk) = outgoing_irobs sk"
  by (simp add: add_csock_def)

lemma erase_csock_out [simp]: "outgoing_irobs (erase_csock c sk) = outgoing_irobs sk"
  by (simp add: erase_csock_def)

lemma startup_workers_out [simp]: "outgoing_irobs (startup_workers c sk) = outgoing_irobs sk"
  by (simp add: startup_workers_def)

lemma make_new_csocket_out:
  assumes "make_new_csocket sys l r acc sk = Inr (a, sk')"
  shows "same_out sk sk'"
proof -
  define sk1 where "sk1 = (case csock_by_ifaces l r sk of Some c \<Rightarrow> erase_csock c sk | None \<Rightarrow> sk)"
  have sk1: "outgoing_irobs sk1 = outgoing_irobs sk" by (simp add: sk1_def split: option.split)
  have d: "data_check_all_irobs x y 0 (startup_workers c (add_csock c cs sk1)) = Inr sk3 \<Longrightarrow>
      outgoing_irobs sk3 = outgoing_irobs sk" for x y c cs sk3
    using data_check_out [of x y 0 "startup_workers c (add_csock c cs sk1)" sk3] sk1 by (simp add: same_out_def)
  show ?thesis
  proof (cases "alloc sys sk1")
    case (Some c)
    then show ?thesis
      using assms d sk1 unfolding make_new_csocket_def Let_def sk1_def [symmetric]
      by (auto simp: same_out_def bindE_def split: if_splits sum.splits)
  qed (use assms sk1 in \<open>auto simp: make_new_csocket_def Let_def sk1_def [symmetric] same_out_def split: if_splits\<close>)
qed

lemma new_csock_out:
  assumes "new_csock_with_labels sys labels sk = Inr (a, sk')"
  shows "same_out sk sk'"
proof -
  obtain f sk1 where f: "csock_with_labels labels sk = Inr (f, sk1)" "same_out sk sk1"
    using assms find_match_out by (cases "csock_with_labels labels sk") (auto simp: new_csock_with_labels_def csock_with_labels_def)
  then show ?thesis
    using assms get_iface_pair_out make_new_csocket_out
    by (auto simp: new_csock_with_labels_def bindE_def split: option.splits sum.splits) (blast intro: same_out_trans)+
qed

lemma get_csock_attempt_out:
  assumes "get_csock_attempt sys labels sk = Inr (a, sk')"
  shows "same_out sk sk'"
proof -
  obtain p sk1 where p: "get_iface_pair_locked labels sk = Inr (p, sk1)" "same_out sk sk1"
    using assms get_iface_pair_out by (cases "get_iface_pair_locked labels sk") (auto simp: get_csock_attempt_def)
  show ?thesis
  proof (cases p)
    case (Some lr)
    then obtain c sk2 where c: "connected_csock_with_labels labels sk1 = Inr (c, sk2)" "same_out sk sk2"
      using assms p connected_csock_out same_out_trans
      by (cases "connected_csock_with_labels labels sk1") (auto simp: get_csock_attempt_def split: prod.splits)
    show ?thesis
      using assms p(1) Some c new_csock_out same_out_trans
      by (auto simp: get_csock_attempt_def bindE_def split: prod.splits option.splits sum.splits attempt.splits)
  qed (use assms p in \<open>auto simp: get_csock_attempt_def\<close>)
qed

text \<open>\<^verbatim>\<open>get_csock\<close> may mark the IROB for all networks.\<close>

definition maybe_marked :: "sender_irob option \<Rightarrow> sender_irob option \<Rightarrow> bool" where
  "maybe_marked p p' \<longleftrightarrow> p' = p \<or> p' = map_option mark_send_on_all_networks p"

lemma check_redundancy_marked: "maybe_marked p (map_option (check_redundancy d sk) p)"
  by (cases p) (auto simp: maybe_marked_def check_redundancy_def)

lemma get_csock_map_out:
  assumes "get_csock_map sys p sk = Inr (rc, a, p', sk')"
  shows "same_out sk sk'" "maybe_marked p p'"
proof -
  let ?l = "case p of Some p \<Rightarrow> send_labels p | None \<Rightarrow> 0"
  obtain a1 sk1 where a: "get_csock_attempt sys ?l sk = Inr (a1, sk1)" "same_out sk sk1"
    using assms get_csock_attempt_out by (cases "get_csock_attempt sys ?l sk") (auto simp: get_csock_map_def)
  then show "same_out sk sk'" "maybe_marked p p'"
    using assms check_redundancy_marked [of p None sk1] by (auto simp: get_csock_map_def Let_def maybe_marked_def split: attempt.splits)
qed

lemma get_csock_out:
  assumes "get_csock sys p b sk = Inr (r, p', sk')"
  shows "same_out sk sk'" "maybe_marked p p'"
proof -
  obtain rc a p1 sk1 where a: "get_csock_map sys p sk = Inr (rc, a, p1, sk1)"
    using assms by (cases "get_csock_map sys p sk") (auto simp: get_csock_def Let_def)
  note m = get_csock_map_out [OF a]
  have "p' = p1 \<and> outgoing_irobs sk' = outgoing_irobs sk1"
    using assms a by (auto simp: get_csock_def Let_def split: attempt.splits if_splits option.splits)
  then show "same_out sk sk'" "maybe_marked p p'" using m by (simp_all add: same_out_def)
qed

section \<open>The calls as runs of the sender's lattice\<close>

text \<open>The IROBs that the application has sent, in the order in which it sent them, with whether they are
  anonymous.\<close>

type_synonym app_log = "(irob_id_t \<times> bool) list"

definition log_of :: "history \<Rightarrow> app_log" where
  "log_of h = map (\<lambda>(i, D, a). (i, a)) h"

definition out_run :: "app_log \<Rightarrow> msocket \<Rightarrow> bool" where
  "out_run log sk \<longleftrightarrow> (\<exists>h. log_of h = log \<and> sender_run h (outgoing_irobs sk))"

lemma out_run_same: "out_run log sk \<Longrightarrow> same_out sk sk' \<Longrightarrow> out_run log sk'"
  by (simp add: out_run_def same_out_def)

lemma out_run_new: "outgoing_irobs sk = new_lattice \<Longrightarrow> out_run [] sk"
  using run_new by (force simp: out_run_def log_of_def)

lemma out_run_change:
  assumes "out_run log sk" and "id_ok i" and "find_locked (outgoing_irobs sk) i = Some p" and "\<not> placeholder p"
    and "sender_step p p'" and "outgoing_irobs sk' = lat_update i (\<lambda>_. p') (outgoing_irobs sk)"
  shows "out_run log sk'"
  using assms(1,6) run_change [OF _ assms(2-5)] unfolding out_run_def by auto

lemma out_run_erase:
  assumes "out_run log sk" and "id_ok i" and "outgoing_irobs sk' = snd (erase_locked i False (outgoing_irobs sk))"
  shows "out_run log sk'"
  using assms(1,3) run_erase [OF _ assms(2)] unfolding out_run_def by auto

lemma out_run_drop:
  assumes "out_run log sk" and "id_ok i" and "outgoing_irobs sk' = drop_irob_and_dependents i (outgoing_irobs sk)"
  shows "out_run log sk'"
  using assms(1,3) run_drop [OF _ assms(2)] unfolding out_run_def by auto

lemma maybe_marked_step:
  assumes "maybe_marked (Some p) p'"
  obtains q where "p' = Some q" "q = p \<or> q = mark_send_on_all_networks p" "same_node p q"
  using assms by (auto simp: maybe_marked_def same_node_def mark_send_on_all_networks_def)

lemma out_run_store:
  assumes run: "out_run log sk" and i: "id_ok i" "find_locked (outgoing_irobs sk) i = Some p" "\<not> placeholder p"
    and m: "maybe_marked (Some p) p'"
  obtains q where "out_run log (store_irob i p' sk)" "find_locked (outgoing_irobs (store_irob i p' sk)) i = Some q"
    "\<not> placeholder q"
proof -
  obtain q where q: "p' = Some q" "q = p \<or> q = mark_send_on_all_networks p" "same_node p q"
    by (rule maybe_marked_step [OF m])
  have st: "outgoing_irobs (store_irob i p' sk) = lat_update i (\<lambda>_. q) (outgoing_irobs sk)" by (simp add: store_irob_def q(1))
  have "out_run log (store_irob i p' sk)"
  proof (cases "q = p")
    case True
    then show ?thesis using out_run_same [OF run] by (simp add: same_out_def st lat_update_same [OF i(2)])
  next
    case False
    then have "sender_step p q" using q(2) step_redundant by auto
    from out_run_change [OF run i this st] show ?thesis .
  qed
  moreover have "find_locked (outgoing_irobs (store_irob i p' sk)) i = Some q" unfolding st by (rule find_lat_update [OF i(2)])
  ultimately show ?thesis using that q(3) i(3) by (simp add: same_node_def)
qed

lemma new_sender_irob_node:
  assumes "new_sender_irob i n ds dlen dat labels rh arg now = Inr p"
  shows "anonymous p = (0 < dlen)" "d \<in> deps p \<Longrightarrow> \<exists>l. ds = Some l \<and> d \<in> set l"
  using assms by (auto simp: new_sender_irob_def new_irob_def extend_sender_def pending_irob.defs sender_irob.defs
      Let_def result_simps ASSERT_def split: if_splits dest: in_set_takeD)

lemma out_run_insert:
  assumes run: "out_run log sk"
    and p: "new_sender_irob i n ds dlen dat labels rh arg now = Inr p" "\<And>d. dat = Some d \<Longrightarrow> length d = dlen"
    and ok: "id_ok i" "\<And>d. d \<in> deps p \<Longrightarrow> id_ok d" and m: "maybe_marked (Some p) (Some q)"
    and L: "insert_locked sender_placeholder sender_subsume True q (outgoing_irobs sk) = Inr (True, L)"
  shows "out_run (log @ [(i, 0 < dlen)]) (sk\<lparr>outgoing_irobs := L\<rparr>)"
proof -
  obtain h where h: "log_of h = log" "sender_run h (outgoing_irobs sk)" using run by (auto simp: out_run_def)
  note new = new_sender_irob_ok [OF p(1) p(2)]
  note a = new_sender_irob_node(1) [OF p(1)]
  have node: "same_node p q" "q = p \<or> sender_step p q" using m step_redundant by (auto elim!: maybe_marked_step)
  have q: "sender_fresh q" "id_ok (pi_id q)" "finite (deps q)" "\<forall>d\<in>deps q. id_ok d" "pi_id q = i" "anonymous q = (0 < dlen)"
    using node new ok a sender_step_ok by (auto simp: sender_fresh_def same_node_def)
  obtain r where r: "find_locked L (pi_id q) = Some r" "anonymous r = anonymous q"
    by (rule inserted_found [OF h(2) q(1-4) L])
  have "sender_run (h @ [(pi_id q, deps r, anonymous r)]) L" by (rule run_insert [OF h(2) q(1-4) L r(1)])
  moreover have "log_of (h @ [(pi_id q, deps r, anonymous r)]) = log @ [(i, 0 < dlen)]" by (simp add: log_of_def h(1) [symmetric] q r(2))
  ultimately show ?thesis by (auto simp: out_run_def)
qed

section \<open>Each operation\<close>

lemma get_csock_code: "get_csock sys p b sk = Inr (Code rc, p', sk') \<Longrightarrow> rc < 0"
  by (auto simp: get_csock_def get_csock_map_def bindE_def Let_def CMM_FAILED_def CMM_DEFERRED_def CMM_UNDELIVERABLE_def
      split: sum.splits attempt.splits if_splits option.splits)

text \<open>What an operation that sends an IROB adds to the log.\<close>

definition logged :: "app_log \<Rightarrow> irob_id_t \<Rightarrow> bool \<Rightarrow> app_outcome \<Rightarrow> app_log" where
  "logged log i a r = (case r of Returns rc \<Rightarrow> if rc < 0 then log else log @ [(i, a)] | Waits _ \<Rightarrow> log)"

lemma begin_irob_commit_run:
  assumes run: "out_run log sk"
    and p: "new_sender_irob i n ds 0 None labels rh arg now = Inr p" "id_ok i" "\<And>d. d \<in> deps p \<Longrightarrow> id_ok d"
    and m: "maybe_marked (Some p) (Some q)" and r: "begin_irob_commit c q sk = Inr (r, sk')"
  shows "out_run (logged log i False r) sk'"
proof (cases "irob_is_undeliverable (outgoing_irobs sk) q")
  case False
  then obtain L where L: "insert_locked sender_placeholder sender_subsume True q (outgoing_irobs sk) = Inr (True, L)"
    "r = Returns 0" "same_out (sk\<lparr>outgoing_irobs := L\<rparr>) sk'"
    using r by (auto simp: begin_irob_commit_def bindE_def ASSERT_def same_out_def split: sum.splits if_splits)
  have "out_run (log @ [(i, 0 < (0::nat))]) (sk\<lparr>outgoing_irobs := L\<rparr>)"
    by (rule out_run_insert [OF run p(1) _ p(2,3) m L(1)]) simp
  then show ?thesis using out_run_same L(2,3) by (simp add: logged_def)
qed (use run r in \<open>auto simp: begin_irob_commit_def logged_def CMM_UNDELIVERABLE_def\<close>)

lemma begin_irob_run:
  assumes run: "out_run log sk" and i: "id_ok i" "\<And>d. d \<in> set (case ds of Some l \<Rightarrow> l | None \<Rightarrow> []) \<Longrightarrow> id_ok d"
    and r: "begin_irob sys now i n ds labels rh arg sk = Inr (r, sk')"
  shows "out_run (logged log i False r) sk'"
proof (cases "sk_shutting_down sk")
  case False
  then obtain p res q sk1 where p: "new_sender_irob i n ds 0 None labels rh arg now = Inr p"
    and g: "get_csock sys (Some p) True sk = Inr (res, q, sk1)"
    using r by (auto simp: begin_irob_def bindE_def split: sum.splits)
  note out = get_csock_out [OF g]
  have run1: "out_run log sk1" by (rule out_run_same [OF run out(1)])
  obtain q' where q: "q = Some q'" "maybe_marked (Some p) (Some q')" by (rule maybe_marked_step [OF out(2)]) (use out(2) in auto)
  have d: "id_ok d" if "d \<in> deps p" for d
    using new_sender_irob_node(2) [OF p that] i(2) by (cases ds) auto
  show ?thesis
  proof (cases res)
    case (Got c)
    then have "begin_irob_commit c q' sk1 = Inr (r, sk')" using r False p g q(1) by (simp add: begin_irob_def)
    from begin_irob_commit_run [OF run1 p i(1) d q(2) this] show ?thesis by blast
  qed (use r False p g run1 get_csock_code in \<open>auto simp: begin_irob_def logged_def\<close>)
qed (use run r in \<open>auto simp: begin_irob_def logged_def CMM_FAILED_def\<close>)

lemma send_default_irob_run:
  assumes run: "out_run log sk"
    and p: "new_sender_irob i 0 None (length buf) (Some buf) labels rh arg now = Inr p" "id_ok i"
    and m: "maybe_marked (Some p) (Some q)" and r: "send_default_irob q c sk = Inr (rc, sk')"
  shows "out_run (log @ [(i, buf \<noteq> [])]) sk'"
proof -
  obtain L where L: "insert_locked sender_placeholder sender_subsume True q (outgoing_irobs sk) = Inr (True, L)"
    "same_out (sk\<lparr>outgoing_irobs := L\<rparr>) sk'"
    using r by (auto simp: send_default_irob_def bindE_def ASSERT_def same_out_def split: sum.splits if_splits)
  have d: "deps p = {}" using new_sender_irob_node(2) [OF p(1)] by auto
  have "out_run (log @ [(i, 0 < length buf)]) (sk\<lparr>outgoing_irobs := L\<rparr>)"
    by (rule out_run_insert [OF run p(1) _ p(2) _ m L(1)]) (use d in auto)
  then show ?thesis using out_run_same L(2) by simp
qed

lemma default_irob_commit_run:
  assumes run: "out_run log sk"
    and p: "new_sender_irob i 0 None (length buf) (Some buf) labels rh arg now = Inr p" "id_ok i"
    and m: "maybe_marked (Some p) (Some q)" and r: "default_irob_commit c q (length buf) sk = Inr (r, sk')"
    and len: "length buf < 2 ^ 63"
  shows "out_run (logged log i (buf \<noteq> []) r) sk'"
proof -
  obtain rc where rc: "send_default_irob q c sk = Inr (rc, sk')" "rc mod 2 ^ 64 = int (length buf)" "r = Returns rc"
    using r by (auto simp: default_irob_commit_def bindE_def ASSERT_def split: sum.splits if_splits)
  have "rc = to_int (int (expected_bytes_sender q))"
    using rc(1) by (auto simp: send_default_irob_def bindE_def ASSERT_def split: sum.splits if_splits)
  then have "- (2 ^ 31) \<le> rc" using to_int_range by simp
  then have "(rc + 2 ^ 64) mod 2 ^ 64 = rc + 2 ^ 64" if "rc < 0" using that by (intro mod_pos_pos_trivial) simp_all
  then have "\<not> rc < 0" using rc(2) len \<open>- (2 ^ 31) \<le> rc\<close> by auto
  then show ?thesis using send_default_irob_run [OF run p m rc(1)] rc(3) by (simp add: logged_def)
qed

lemma validate_default_irob_out:
  assumes "validate_default_irob sys p sk = Inr (r, p', sk')"
  shows "same_out sk sk'" "maybe_marked (Some p) p'" "\<And>rc. r = Code rc \<Longrightarrow> rc < 0"
  using assms get_csock_out [of sys "Some p" True sk r p' sk'] get_csock_code
  by (auto simp: validate_default_irob_def CMM_FAILED_def maybe_marked_def split: if_splits)

lemma default_irob_run:
  assumes run: "out_run log sk" and i: "id_ok i" "length buf < 2 ^ 63"
    and r: "default_irob sys now i buf labels rh arg sk = Inr (r, sk')"
  shows "out_run (logged log i (buf \<noteq> []) r) sk'"
proof -
  obtain p res q sk1 where p: "new_sender_irob i 0 None (length buf) (Some buf) labels rh arg now = Inr p"
    and g: "validate_default_irob sys p sk = Inr (res, q, sk1)"
    using r by (auto simp: default_irob_def bindE_def split: sum.splits)
  note out = validate_default_irob_out [OF g]
  have run1: "out_run log sk1" by (rule out_run_same [OF run out(1)])
  obtain q' where q: "q = Some q'" "maybe_marked (Some p) (Some q')" by (rule maybe_marked_step [OF out(2)]) (use out(2) in auto)
  show ?thesis
  proof (cases res)
    case (Got c)
    then have "default_irob_commit c q' (length buf) sk1 = Inr (r, sk')" using r p g q(1) by (simp add: default_irob_def)
    from default_irob_commit_run [OF run1 p i(1) q(2) this i(2)] show ?thesis .
  qed (use r p g run1 out(3) in \<open>auto simp: default_irob_def logged_def\<close>)
qed

lemma copy_vec_length: "copy_vec room copied vec = Inr buf \<Longrightarrow> length buf = room \<and> buf = copied @ concat vec"
  by (induction room copied vec rule: copy_vec.induct) (auto simp: ASSERT_def split: if_splits)

lemma default_irob_writev_run:
  assumes run: "out_run log sk" and i: "id_ok i"
    and r: "default_irob_writev sys now i vec nbytes labels rh arg sk = Inr (r, sk')"
  shows "out_run (logged log i (0 < nbytes) r) sk'"
proof -
  obtain buf p res q sk1 where buf: "copy_vec nbytes [] vec = Inr buf"
    and p: "new_sender_irob i 0 None nbytes (Some buf) labels rh arg now = Inr p"
    and g: "validate_default_irob sys p sk = Inr (res, q, sk1)"
    using r by (auto simp: default_irob_writev_def bindE_def split: sum.splits)
  have n: "nbytes = length buf" using copy_vec_length [OF buf] by blast
  note out = validate_default_irob_out [OF g]
  have run1: "out_run log sk1" by (rule out_run_same [OF run out(1)])
  obtain q' where q: "q = Some q'" "maybe_marked (Some p) (Some q')" by (rule maybe_marked_step [OF out(2)]) (use out(2) in auto)
  show ?thesis
  proof (cases res)
    case (Got c)
    then obtain rc where rc: "send_default_irob q' c sk1 = Inr (rc, sk')" "r = Returns rc" "rc = int nbytes"
      using r buf p g q(1) by (auto simp: default_irob_writev_def bindE_def ASSERT_def split: sum.splits if_splits)
    from send_default_irob_run [OF run1 p [unfolded n] i(1) q(2) rc(1)] show ?thesis
      using rc(2,3) n by (simp add: logged_def)
  qed (use r buf p g run1 out(3) in \<open>auto simp: default_irob_writev_def logged_def\<close>)
qed

lemma irob_chunk_commit_run:
  assumes run: "out_run log sk" and i: "id_ok i" "find_locked (outgoing_irobs sk) i = Some p" "\<not> placeholder p"
    and r: "irob_chunk_commit c i buf sk = Inr (r, sk')"
  shows "out_run log sk'"
proof -
  let ?c = "\<lparr>ck_id = i, seqno = 0, ck_offset = 0, datalen = length buf, data = Some buf\<rparr>"
  have "sender_step p (snd (sender_add_chunk ?c p))" by (rule step_chunk) (simp add: filled_def)
  moreover have "outgoing_irobs sk' = lat_update i (\<lambda>_. snd (sender_add_chunk ?c p)) (outgoing_irobs sk)"
    using r i(2) by (auto simp: irob_chunk_commit_def Let_def store_irob_def)
  ultimately show ?thesis by (rule out_run_change [OF run i])
qed

lemma irob_chunk_run:
  assumes run: "out_run log sk" and i: "id_ok i" and r: "irob_chunk sys i buf sk = Inr (r, sk')"
  shows "out_run log sk'"
proof (cases "sk_shutting_down sk \<or> find_locked (outgoing_irobs sk) i = None")
  case False
  then obtain p where p: "\<not> sk_shutting_down sk" "find_locked (outgoing_irobs sk) i = Some p" by auto
  show ?thesis
  proof (cases "complete p")
    case False
    then obtain res p' sk1 where g: "get_csock sys (Some p) True sk = Inr (res, p', sk1)" and np: "\<not> placeholder p"
      using r p by (auto simp: irob_chunk_def bindE_def ASSERT_def split: sum.splits if_splits)
    note out = get_csock_out [OF g]
    have run1: "out_run log sk1" by (rule out_run_same [OF run out(1)])
    have f1: "find_locked (outgoing_irobs sk1) i = Some p" using out(1) p(2) by (simp add: same_out_def)
    obtain q where q: "out_run log (store_irob i p' sk1)" "find_locked (outgoing_irobs (store_irob i p' sk1)) i = Some q"
      "\<not> placeholder q" by (rule out_run_store [OF run1 i f1 np out(2)])
    show ?thesis
    proof (cases res)
      case (Got c)
      then have "irob_chunk_commit c i buf (store_irob i p' sk1) = Inr (r, sk')"
        using r p g np False by (simp add: irob_chunk_def ASSERT_def)
      from irob_chunk_commit_run [OF q(1) i q(2,3) this] show ?thesis .
    qed (use r p g q(1) np False in \<open>auto simp: irob_chunk_def ASSERT_def\<close>)
  qed (use r p run in \<open>auto simp: irob_chunk_def\<close>)
qed (use r run in \<open>auto simp: irob_chunk_def split: if_splits\<close>)

lemma end_irob_commit_run:
  assumes run: "out_run log sk" and i: "id_ok i" and r: "end_irob_commit c i sk = Inr sk'"
  shows "out_run log sk'"
proof -
  obtain p where p: "find_locked (outgoing_irobs sk) i = Some p" "\<not> placeholder p"
    "outgoing_irobs sk' = lat_update i (\<lambda>_. snd (base_finish p)) (outgoing_irobs sk)"
    using r by (auto simp: end_irob_commit_def ASSERT_def Let_def store_irob_def split: option.splits if_splits)
  show ?thesis by (rule out_run_change [OF run i p(1,2) step_finish p(3)])
qed

lemma end_irob_status_run:
  assumes run: "out_run log sk" and i: "id_ok i" and r: "end_irob_status sys labels c i sk = Inr (r, sk')"
  shows "out_run log sk'"
proof -
  have "out_run log (sk\<lparr>outgoing_irobs := snd (erase_locked i False (outgoing_irobs sk))\<rparr>)"
    by (rule out_run_erase [OF run i]) simp
  moreover have "out_run log (register_thunk labels fn arg sk)" for fn arg
    by (rule out_run_same [OF run]) (simp add: same_out_def)
  ultimately show ?thesis
    using r end_irob_commit_run [OF run i]
    by (auto simp: end_irob_status_def Let_def bindE_def split: option.splits if_splits sum.splits)
qed

lemma end_irob_resume_run:
  assumes run: "out_run log sk" and i: "id_ok i" and r: "end_irob_resume c i rc sk = Inr (r, sk')"
  shows "out_run log sk'"
proof -
  have "out_run log (sk\<lparr>outgoing_irobs := snd (erase_locked i False (outgoing_irobs sk))\<rparr>)"
    by (rule out_run_erase [OF run i]) simp
  then show ?thesis using r end_irob_commit_run [OF run i]
    by (auto simp: end_irob_resume_def bindE_def split: if_splits sum.splits)
qed

lemma end_irob_run:
  assumes run: "out_run log sk" and i: "id_ok i" and r: "end_irob sys i sk = Inr (r, sk')"
  shows "out_run log sk'"
proof (cases "sk_shutting_down sk \<or> find_locked (outgoing_irobs sk) i = None")
  case False
  then obtain p where p: "\<not> sk_shutting_down sk" "find_locked (outgoing_irobs sk) i = Some p" by auto
  show ?thesis
  proof (cases "complete p")
    case False
    let ?p = "if placeholder p then None else Some p"
    obtain res p' sk1 where g: "get_csock sys ?p False sk = Inr (res, p', sk1)"
      using r p False by (cases "get_csock sys ?p False sk") (auto simp: end_irob_def Let_def)
    note out = get_csock_out [OF g]
    have run1: "out_run log sk1" by (rule out_run_same [OF run out(1)])
    have run2: "out_run log (store_irob i p' sk1)"
    proof (cases "placeholder p")
      case True
      then show ?thesis using run1 out(2) by (simp add: maybe_marked_def store_irob_def)
    next
      case np: False
      have "find_locked (outgoing_irobs sk1) i = Some p" using out(1) p(2) by (simp add: same_out_def)
      moreover have "maybe_marked (Some p) p'" using out(2) np by simp
      ultimately show ?thesis by (rule out_run_store [OF run1 i _ np]) blast
    qed
    define sk2 where "sk2 = store_irob i p' sk1"
    have end_r: "(case res of Got c \<Rightarrow> end_irob_status sys (send_labels p) c i sk2
       | _ \<Rightarrow> bindE (get_csock sys None True sk2) (\<lambda>(r2, _, sk3). case r2 of
           Got c \<Rightarrow> end_irob_status sys 0 c i sk3 | Code rc \<Rightarrow> Inr (Returns rc, sk3) | Blocked \<Rightarrow> Inr (Waits None, sk3)))
       = Inr (r, sk')"
      unfolding sk2_def using r p False g by (simp add: end_irob_def Let_def cong: if_cong)
    have second: "out_run log sk'"
      if g2r: "bindE (get_csock sys None True sk2) (\<lambda>(r2, _, sk3). case r2 of Got c \<Rightarrow> end_irob_status sys 0 c i sk3
          | Code rc \<Rightarrow> Inr (Returns rc, sk3) | Blocked \<Rightarrow> Inr (Waits None, sk3)) = Inr (r, sk')"
    proof -
      obtain r2 q sk3 where g2: "get_csock sys None True sk2 = Inr (r2, q, sk3)"
        using g2r by (cases "get_csock sys None True sk2") auto
      have "out_run log sk3" by (rule out_run_same [OF run2 [folded sk2_def] get_csock_out(1) [OF g2]])
      then show ?thesis using g2r g2 end_irob_status_run [OF _ i] by (auto split: csock_outcome.splits)
    qed
    show ?thesis using end_r end_irob_status_run [OF run2 [folded sk2_def] i] second by (cases res) auto
  qed (use r p run in \<open>auto simp: end_irob_def\<close>)
qed (use r run in \<open>auto simp: end_irob_def split: if_splits\<close>)

lemma ack_received_run:
  assumes run: "out_run log sk" and i: "id_ok i" and r: "ack_received i sk = Inr sk'"
  shows "out_run log sk'"
proof (cases "find_locked (outgoing_irobs sk) i")
  case (Some p)
  let ?sk = "sk\<lparr>outgoing_irobs := lat_update i sender_ack (outgoing_irobs sk)\<rparr>"
  have np: "\<not> placeholder p" and rm: "remove_if_unneeded i ?sk = Inr sk'"
    using r Some by (auto simp: ack_received_def ASSERT_def split: if_splits)
  have eq: "lat_update i sender_ack (outgoing_irobs sk) = lat_update i (\<lambda>_. sender_ack p) (outgoing_irobs sk)"
    by (simp add: lat_update_def Some)
  have run1: "out_run log ?sk" by (rule out_run_change [OF run i Some np step_ack]) (simp add: eq)
  show ?thesis
    using rm run1 out_run_erase [OF run1 i, of "?sk\<lparr>outgoing_irobs := snd (erase_locked i False (outgoing_irobs ?sk))\<rparr>"]
    by (auto simp: remove_if_unneeded_def ASSERT_def split: option.splits if_splits)
qed (use r run in \<open>auto simp: ack_received_def split: if_splits\<close>)

lemma lat_update_twice: "lat_update i f (lat_update i g L) = lat_update i (\<lambda>p. f (g p)) L"
proof (cases "find_locked L i")
  case (Some p)
  then show ?thesis using find_lat_update [OF Some, of g] by (simp add: lat_update_def lat_index_def)
qed (simp add: lat_update_def)

lemma out_run_changes:
  assumes "sender_step\<^sup>*\<^sup>* p p'" and "out_run log sk" and "id_ok i" and "find_locked (outgoing_irobs sk) i = Some p"
    and "\<not> placeholder p" and "outgoing_irobs sk' = lat_update i (\<lambda>_. p') (outgoing_irobs sk)"
  shows "out_run log sk'"
  using assms
proof (induction arbitrary: sk' rule: rtranclp_induct)
  case base
  then show ?case using out_run_same by (simp add: same_out_def lat_update_same)
next
  case (step y z)
  define sk1 where "sk1 = sk\<lparr>outgoing_irobs := lat_update i (\<lambda>_. y) (outgoing_irobs sk)\<rparr>"
  have run1: "out_run log sk1" using step by (simp add: sk1_def lat_update_twice)
  have f1: "find_locked (outgoing_irobs sk1) i = Some y" using find_lat_update [OF step.prems(3)] by (simp add: sk1_def lat_update_twice)
  have "placeholder y = placeholder p"
    using step.hyps(1) by (induction rule: rtranclp_induct) (auto dest!: sender_step_node simp: same_node_def)
  then show ?case
    using out_run_change [OF run1 step.prems(2) f1 _ step.hyps(2)] step.prems
    by (simp add: sk1_def lat_update_twice)
qed

lemma resend_request_received_run:
  assumes run: "out_run log sk" and i: "id_ok i" and r: "resend_request_received i req sq nc sk = Inr sk'"
  shows "out_run log sk'"
proof (cases "find_locked (outgoing_irobs sk) i")
  case (Some p)
  have "\<exists>p2. sender_step\<^sup>*\<^sup>* p p2 \<and> outgoing_irobs sk' = lat_update i (\<lambda>_. p2) (outgoing_irobs sk)"
    using r Some unfolding resend_request_received_def
    by (auto simp: bindE_def ASSERT_def Let_def split: if_splits sum.splits)
       (blast intro: step_missing step_drop_point rtranclp.rtrancl_into_rtrancl rtranclp.rtrancl_refl)+
  moreover have "\<not> placeholder p" using r Some by (auto simp: resend_request_received_def ASSERT_def split: if_splits)
  ultimately show ?thesis using out_run_changes [OF _ run i Some] by blast
qed (use r run in \<open>auto simp: resend_request_received_def split: if_splits\<close>)

lemma goodbye_out: "sk_goodbye sys b sk = Inr sk' \<Longrightarrow> same_out sk sk'"
  using data_check_out [of 0 0 0 "sk\<lparr>sk_shutting_down := True\<rparr>"] get_csock_out(1)
  by (auto simp: sk_goodbye_def bindE_def Let_def same_out_def split: if_splits sum.splits csock_outcome.splits)

lemma teardown_out: "sk_teardown iface loc sk = Inr sk' \<Longrightarrow> same_out sk sk'"
proof -
  have "outgoing_irobs (foldr erase_csock cs s) = outgoing_irobs s" for cs s by (induction cs) simp_all
  then show "sk_teardown iface loc sk = Inr sk' \<Longrightarrow> same_out sk sk'"
    by (auto simp: sk_teardown_def map_teardown_def Let_def same_out_def split: if_splits dest!: data_check_out)
qed

lemma update_iface_out: "update_iface sys iface loc c sk = Inr sk' \<Longrightarrow> same_out sk sk'"
  by (auto simp: update_iface_def Let_def bindE_def same_out_def split: option.splits sum.splits)

lemma setup_out:
  assumes "sk_setup sys iface loc sk = Inr sk'"
  shows "same_out sk sk'"
proof -
  have "same_out s s'" if ms: "map_setup sys iface loc mk nd s = Inr s'" for mk nd s s'
  proof -
    obtain s1 where s1: "foldE (update_iface sys iface loc) (matching_csocks iface loc s) s = Inr s1"
      using ms by (auto simp: map_setup_def bindE_def split: sum.splits)
    have o1: "same_out s s1" by (rule foldE_same_out [OF _ s1]) (rule update_iface_out)
    have "same_out s1 s'" if "foldE (\<lambda>r sk2. if nd \<or> csock_by_ifaces iface r sk2 = None
              then bindE (make_new_csocket sys iface r (-1) sk2) (\<lambda>(a, sk3). if a = Throws then Inl RuntimeError else Inr sk3)
              else Inr sk2) rs s1 = Inr s'" for rs
      by (rule foldE_same_out [OF _ that])
         (auto simp: bindE_def split: if_splits sum.splits dest: make_new_csocket_out)
    then show ?thesis using ms s1 o1 same_out_trans by (auto simp: map_setup_def split: if_splits)
  qed
  then show ?thesis using assms
    by (auto simp: sk_setup_def bindE_def Let_def same_out_def split: if_splits sum.splits)
qed

section \<open>Runs of a multisocket\<close>

text \<open>
  \<open>app_run log sk\<close>: a multisocket in the state \<open>sk\<close> after any interleaving of the calls of the
  application, the messages of the peer that are about outgoing IROBs, the work of the sending
  threads on single IROBs and the comings and goings of networks; \<open>log\<close> are the IROBs the
  application has sent. A call that had to wait for a network commits in a step of its own. The last
  rule is for all steps that do not touch the outgoing IROBs.
\<close>

inductive app_step :: "app_log \<Rightarrow> msocket \<Rightarrow> app_log \<Rightarrow> msocket \<Rightarrow> bool" where
  app_begin: "id_ok i \<Longrightarrow> \<forall>d\<in>set (case ds of Some l \<Rightarrow> l | None \<Rightarrow> []). id_ok d \<Longrightarrow>
    begin_irob sys now i n ds labels rh arg sk = Inr (r, sk') \<Longrightarrow> app_step log sk (logged log i False r) sk'"
| app_begin_woken: "id_ok i \<Longrightarrow> \<forall>d\<in>set (case ds of Some l \<Rightarrow> l | None \<Rightarrow> []). id_ok d \<Longrightarrow>
    new_sender_irob i n ds 0 None labels rh arg now = Inr p \<Longrightarrow> maybe_marked (Some p) (Some q) \<Longrightarrow>
    begin_irob_commit c q sk = Inr (r, sk') \<Longrightarrow> app_step log sk (logged log i False r) sk'"
| app_chunk: "id_ok i \<Longrightarrow> irob_chunk sys i buf sk = Inr (r, sk') \<Longrightarrow> app_step log sk log sk'"
| app_chunk_woken: "id_ok i \<Longrightarrow> find_locked (outgoing_irobs sk) i = Some p \<Longrightarrow> \<not> placeholder p \<Longrightarrow>
    irob_chunk_commit c i buf sk = Inr (r, sk') \<Longrightarrow> app_step log sk log sk'"
| app_end: "id_ok i \<Longrightarrow> end_irob sys i sk = Inr (r, sk') \<Longrightarrow> app_step log sk log sk'"
| app_end_woken: "id_ok i \<Longrightarrow> end_irob_resume c i rc sk = Inr (r, sk') \<Longrightarrow> app_step log sk log sk'"
| app_default: "id_ok i \<Longrightarrow> length buf < 2 ^ 63 \<Longrightarrow>
    default_irob sys now i buf labels rh arg sk = Inr (r, sk') \<Longrightarrow> app_step log sk (logged log i (buf \<noteq> []) r) sk'"
| app_default_woken: "id_ok i \<Longrightarrow> length buf < 2 ^ 63 \<Longrightarrow>
    new_sender_irob i 0 None (length buf) (Some buf) labels rh arg now = Inr p \<Longrightarrow> maybe_marked (Some p) (Some q) \<Longrightarrow>
    default_irob_commit c q (length buf) sk = Inr (r, sk') \<Longrightarrow> app_step log sk (logged log i (buf \<noteq> []) r) sk'"
| app_writev: "id_ok i \<Longrightarrow>
    default_irob_writev sys now i vec nbytes labels rh arg sk = Inr (r, sk') \<Longrightarrow> app_step log sk (logged log i (0 < nbytes) r) sk'"
| app_ack: "id_ok i \<Longrightarrow> ack_received i sk = Inr sk' \<Longrightarrow> app_step log sk log sk'"
| app_resend: "id_ok i \<Longrightarrow> resend_request_received i req sq nc sk = Inr sk' \<Longrightarrow> app_step log sk log sk'"
| app_goodbye: "sk_goodbye sys b sk = Inr sk' \<Longrightarrow> app_step log sk log sk'"
| app_setup: "sk_setup sys iface loc sk = Inr sk' \<Longrightarrow> app_step log sk log sk'"
| app_teardown: "sk_teardown iface loc sk = Inr sk' \<Longrightarrow> app_step log sk log sk'"
| app_sends: "id_ok i \<Longrightarrow> find_locked (outgoing_irobs sk) i = Some p \<Longrightarrow> \<not> placeholder p \<Longrightarrow>
    sender_step p p' \<Longrightarrow> outgoing_irobs sk' = lat_update i (\<lambda>_. p') (outgoing_irobs sk) \<Longrightarrow> app_step log sk log sk'"
| app_drops: "id_ok i \<Longrightarrow>
    outgoing_irobs sk' = drop_irob_and_dependents i (outgoing_irobs sk) \<Longrightarrow> app_step log sk log sk'"
| app_other: "outgoing_irobs sk' = outgoing_irobs sk \<Longrightarrow> app_step log sk log sk'"

inductive app_run :: "app_log \<Rightarrow> msocket \<Rightarrow> bool" where
  app_start: "outgoing_irobs sk = new_lattice \<Longrightarrow> app_run [] sk"
| app_next: "app_run log sk \<Longrightarrow> app_step log sk log' sk' \<Longrightarrow> app_run log' sk'"

text \<open>The steps from one state of a multisocket to a later one.\<close>

inductive app_steps :: "app_log \<Rightarrow> msocket \<Rightarrow> app_log \<Rightarrow> msocket \<Rightarrow> bool" for log0 sk0 where
  steps_refl: "app_steps log0 sk0 log0 sk0"
| steps_next: "app_steps log0 sk0 log sk \<Longrightarrow> app_step log sk log' sk' \<Longrightarrow> app_steps log0 sk0 log' sk'"

lemma app_step_run:
  assumes "app_step log sk log' sk'" and "out_run log sk"
  shows "out_run log' sk'"
  using assms
proof (induction rule: app_step.induct)
  case (app_begin i ds sys now n labels rh arg sk r sk' log)
  from begin_irob_run [OF app_begin.prems app_begin.hyps(1) _ app_begin.hyps(3)] app_begin.hyps(2) show ?case by blast
next
  case (app_begin_woken i ds n labels rh arg now p q c sk r sk' log)
  have "id_ok d" if "d \<in> deps p" for d
    using new_sender_irob_node(2) [OF app_begin_woken.hyps(3) that] app_begin_woken.hyps(2) by auto
  then show ?case using begin_irob_commit_run [OF app_begin_woken.prems app_begin_woken.hyps(3,1)] app_begin_woken.hyps(4,5) by blast
qed (blast intro: irob_chunk_run irob_chunk_commit_run end_irob_run end_irob_resume_run default_irob_run
    default_irob_commit_run default_irob_writev_run ack_received_run resend_request_received_run out_run_change out_run_drop
    out_run_same [OF _ goodbye_out] out_run_same [OF _ setup_out] out_run_same [OF _ teardown_out]
    out_run_same [unfolded same_out_def])+

lemma app_run_refines: "app_run log sk \<Longrightarrow> out_run log sk"
  by (induction rule: app_run.induct) (auto intro: out_run_new app_step_run)

lemma app_steps_trans: "app_steps l1 s1 l2 s2 \<Longrightarrow> app_steps l0 s0 l1 s1 \<Longrightarrow> app_steps l0 s0 l2 s2"
  by (induction rule: app_steps.induct) (auto intro: steps_next)

lemma app_steps_run: "app_steps log sk log' sk' \<Longrightarrow> app_run log sk \<Longrightarrow> app_run log' sk'"
  by (induction rule: app_steps.induct) (auto intro: app_next)

lemma app_steps_log: "app_steps log sk log' sk' \<Longrightarrow> \<exists>more. log' = log @ more"
proof (induction rule: app_steps.induct)
  case (steps_next log sk log' sk')
  have "\<exists>more. log' = log @ more"
    using steps_next.hyps(2) by (cases rule: app_step.cases) (auto simp: logged_def split: app_outcome.splits)
  then show ?case using steps_next.IH by auto
qed simp

lemma sent_order:
  assumes "sender_run h L" and "k < l" and "l < length h" and "snd (log_of h ! k) \<or> snd (log_of h ! l)"
  shows "(fst (log_of h ! l), fst (log_of h ! k)) \<in> (dep_rel h)\<^sup>+" "fst (log_of h ! l) \<noteq> fst (log_of h ! k)"
proof -
  note inv = sender_run_inv [OF assms(1)]
  have "anon_ordered h" using inv by (simp add: run_inv_def)
  from sorted_wrt_nth_less [OF this [unfolded anon_ordered_def] assms(2,3)] assms(2-4)
  show "(fst (log_of h ! l), fst (log_of h ! k)) \<in> (dep_rel h)\<^sup>+" by (auto simp: log_of_def split: prod.splits)
  have "map fst (log_of h) = map fst h" by (auto simp: log_of_def)
  then have "distinct (map fst (log_of h))" using inv by (simp add: run_inv_def)
  then show "fst (log_of h ! l) \<noteq> fst (log_of h ! k)"
    using nth_eq_iff_index_eq [of "map fst (log_of h)" l k] assms(2,3) by (simp add: log_of_def)
qed

text \<open>
  C9. The outgoing IROBs of a multisocket refine the sender's lattice: whatever the application calls,
  whether its calls find a network at once, wait for one or fail, whatever the peer acknowledges or
  asks for again and whatever networks come and go, the lattice is in a state that a run of the
  lattice's own operations reaches, in which exactly the IROBs of the successful calls were
  inserted, in the order of these calls.
\<close>

theorem calls_refine_the_lattice:
  assumes "app_run log sk"
  shows "\<exists>h. log_of h = log \<and> sender_run h (outgoing_irobs sk)"
  using app_run_refines [OF assms] by (simp add: out_run_def)

text \<open>
  C10. Data that is sent without an IROB of its own is a barrier: of two successful calls one of which
  sent such data, the IROB of the later call depends on that of the earlier one, directly or through
  other IROBs of the application, by dependencies that are still recorded with it while it is pending.
\<close>

theorem plain_sends_are_barriers:
  assumes "app_run log sk" and "k < l" and "l < length log" and "snd (log ! k) \<or> snd (log ! l)"
  shows "fst (log ! l) \<noteq> fst (log ! k) \<and>
    (\<exists>h. log_of h = log \<and> (fst (log ! l), fst (log ! k)) \<in> (dep_rel h)\<^sup>+ \<and>
      (\<forall>(i, D, a)\<in>set h. id_ok i \<longrightarrow> (\<forall>p. find_locked (outgoing_irobs sk) i = Some p \<longrightarrow> deps p = D)))"
proof -
  obtain h where h: "log_of h = log" "sender_run h (outgoing_irobs sk)"
    using app_run_refines [OF assms(1)] by (auto simp: out_run_def)
  have l: "l < length h" using assms(3) by (simp add: h(1) [symmetric] log_of_def)
  note order = sent_order [OF h(2) assms(2) l] 
  note inv = sender_run_inv [OF h(2)]
  have wf: "lattice_wf (outgoing_irobs sk)" using inv lat_invD(1) by (auto simp: run_inv_def)
  have "deps p = D" if m: "(i, D, a) \<in> set h" "id_ok i" "find_locked (outgoing_irobs sk) i = Some p" for i D a p
  proof -
    have m': "lat_map (outgoing_irobs sk) i = Some p" using m find_locked_map [OF wf] by simp
    have "i \<notin> elems (past_irobs (outgoing_irobs sk))" by (rule lattice_wfD(5) [OF wf m'])
    then show ?thesis using inv m' m(1) by (fastforce simp: run_inv_def recorded_def)
  qed
  then show ?thesis using order assms(4) h(1) by (force split: prod.splits)
qed

text \<open>A socket with a wifi and a 3G connection sends some data, then begins an IROB.\<close>

definition demo_calls :: "(app_outcome \<times> app_outcome \<times> msocket) result" where
  "demo_calls = bindE (default_irob demo_sys (tv 0 0) 0 [7] 0 None 0 (two_csocks 100 50 (LabelMatcher new_label_matcher)))
     (\<lambda>(r1, sk1). bindE (begin_irob demo_sys (tv 0 0) 1 0 None 0 None 0 sk1) (\<lambda>(r2, sk2). Inr (r1, r2, sk2)))"

lemma demo_calls_evaluate:
  "case demo_calls of Inr (r1, r2, sk) \<Rightarrow> (case r1 of Returns rc \<Rightarrow> rc = 1 | _ \<Rightarrow> False) \<and>
     (case r2 of Returns rc \<Rightarrow> rc = 0 | _ \<Rightarrow> False) \<and> map_option deps (find_locked (outgoing_irobs sk) 1) = Some {0} | Inl _ \<Rightarrow> False"
  by code_simp

lemma demo_calls_run:
  obtains sk where "app_run [(0, True), (1, False)] sk" "map_option deps (find_locked (outgoing_irobs sk) 1) = Some {0}"
proof -
  let ?sk = "two_csocks 100 50 (LabelMatcher new_label_matcher)"
  obtain sk1 sk2 where sk: "default_irob demo_sys (tv 0 0) 0 [7] 0 None 0 ?sk = Inr (Returns 1, sk1)"
    "begin_irob demo_sys (tv 0 0) 1 0 None 0 None 0 sk1 = Inr (Returns 0, sk2)"
    "map_option deps (find_locked (outgoing_irobs sk2) 1) = Some {0}"
    using demo_calls_evaluate by (auto simp: demo_calls_def bindE_def split: sum.splits app_outcome.splits)
  have "app_run [] ?sk" by (rule app_start) (simp add: two_csocks_def Let_def)
  from app_next [OF this app_default [OF _ _ sk(1)]] have "app_run [(0, True)] sk1" by (simp add: id_ok_def logged_def)
  from app_next [OF this app_begin [OF _ _ sk(2)]] have "app_run [(0, True), (1, False)] sk2" by (simp add: id_ok_def logged_def)
  then show ?thesis using that sk(3) by blast
qed

theorem calls_refine_the_lattice_witness:
  "\<exists>sk h. app_run [(0, True), (1, False)] sk \<and> sender_run h (outgoing_irobs sk) \<and> map fst h = [0, 1]"
proof (rule demo_calls_run)
  fix sk assume run: "app_run [(0, True), (1, False)] sk"
  from calls_refine_the_lattice [OF run] obtain h where
    h: "log_of h = [(0, True), (1, False)]" "sender_run h (outgoing_irobs sk)" by blast
  have "map fst h = map fst (log_of h)" by (auto simp: log_of_def)
  then have "map fst h = [0, 1]" using h(1) by simp
  with run h(2) show ?thesis by (intro exI conjI)
qed

theorem plain_sends_are_barriers_witness:
  "\<exists>sk. app_run [(0, True), (1, False)] sk \<and> map_option deps (find_locked (outgoing_irobs sk) 1) = Some {0} \<and>
     (\<exists>h. log_of h = [(0, True), (1, False)] \<and> (1, 0) \<in> (dep_rel h)\<^sup>+)"
proof (rule demo_calls_run)
  fix sk assume run: "app_run [(0, True), (1, False)] sk" "map_option deps (find_locked (outgoing_irobs sk) 1) = Some {0}"
  have "\<exists>h. log_of h = [(0, True), (1, False)] \<and> (1, 0) \<in> (dep_rel h)\<^sup>+"
    using plain_sends_are_barriers [OF run(1), of 0 1] by auto
  then show ?thesis using run by blast
qed

end
