(* ===== verification/Sender_Run.thy ===== *)
theory Sender_Run
  imports CSocket_Sender Multisocket_Order
begin

text \<open>
  What the threads that send do to a multisocket, and what they write. The contract of such a thread
  is a locale: an invariant of the multisocket and of what has been written that the other threads keep, that
  depends on the outgoing IROBs only, and that the operations on IROBs and the writing of
  messages about them keep. Every action of csocket_sender.cpp then keeps it.
\<close>

section \<open>The messages about an IROB\<close>

definition sent_chunk_msg :: "sender_irob \<Rightarrow> nat \<Rightarrow> control_hdr \<times> byte list" where
  "sent_chunk_msg p k =
     (let ck = sent_chunks p ! k
      in (\<lparr>hdr_labels = htonl (uint (send_labels p)),
           hdr_op = IROB_chunk (htonl (pi_id p)) (htonl (int k)) (htonl (int (ck_offset ck))) (htonl (int (datalen ck)))\<rparr>,
          take (datalen ck) (drop (ck_offset ck) (sender_data p))))"

definition irob_msgs :: "sender_irob \<Rightarrow> (control_hdr \<times> byte list) set" where
  "irob_msgs p = {begin_msg p, end_msg p} \<union> sent_chunk_msg p ` {..<length (sent_chunks p)}"

fun about_irob :: "control_op \<Rightarrow> bool" where
  "about_irob (Begin_IROB _ _) = True"
| "about_irob (End_IROB _ _ _) = True"
| "about_irob (IROB_chunk _ _ _ _) = True"
| "about_irob _ = False"

text \<open>The number of bytes that follow a header, as its receiver computes it.\<close>

fun payload_length :: "control_op \<Rightarrow> int" where
  "payload_length (Begin_IROB _ n) = 8 * ntohl n"
| "payload_length (IROB_chunk _ _ _ len) = ntohl len"
| "payload_length (Ack n _ _ _) = 8 * ntohl n"
| "payload_length _ = 0"

definition framed :: "control_hdr \<times> byte list \<Rightarrow> bool" where
  "framed m \<longleftrightarrow> int (length (snd m)) = payload_length (hdr_op (fst m))"

text \<open>A message that tells the truth about a pending IROB, or is about none and has the payload it
  announces.\<close>

definition faithful :: "msocket \<Rightarrow> control_hdr \<times> byte list \<Rightarrow> bool" where
  "faithful sk m \<longleftrightarrow> \<not> about_irob (hdr_op (fst m)) \<and> framed m \<or>
     (\<exists>i p. id_ok i \<and> find_locked (outgoing_irobs sk) i = Some p \<and> \<not> placeholder p \<and> m \<in> irob_msgs p)"

lemma faithfulI:
  "id_ok i \<Longrightarrow> find_locked (outgoing_irobs sk) i = Some p \<Longrightarrow> \<not> placeholder p \<Longrightarrow> m \<in> irob_msgs p \<Longrightarrow> faithful sk m"
  by (auto simp: faithful_def)

lemma length_le_bytes_list: "length (concat (map (\<lambda>x. le_bytes 8 (f x)) xs)) = 8 * length xs"
  by (induction xs) simp_all

lemma not_about [simp]:
  "length ids < 2 ^ 32 \<Longrightarrow> faithful sk (ack_msg env ids i t)" "faithful sk (data_check_msg i labels)"
  "\<not> about_irob cop \<Longrightarrow> payload_length cop = 0 \<Longrightarrow> faithful sk (no_labels cop)"
  by (simp_all add: faithful_def framed_def ack_msg_def data_check_msg_def no_labels_def length_le_bytes_list)

definition same_msgs :: "sender_irob \<Rightarrow> sender_irob \<Rightarrow> bool" where
  "same_msgs p p' \<longleftrightarrow> pi_id p' = pi_id p \<and> send_labels p' = send_labels p \<and> deps p' = deps p \<and> chunks p' = chunks p \<and>
     sent_chunks p' = sent_chunks p"

lemma same_msgs_eq:
  assumes "same_msgs p p'"
  shows "irob_msgs p' = irob_msgs p" "begin_msg p' = begin_msg p" "end_msg p' = end_msg p"
    "chunk_msg p' sq off len bufs = chunk_msg p sq off len bufs"
  using assms
  by (simp_all add: same_msgs_def irob_msgs_def begin_msg_def end_msg_def chunk_msg_def sent_chunk_msg_def sender_data_def
      copy_deps_htonl_def expected_bytes_sender_def num_sender_chunks_def Let_def cong: image_cong_simp)

lemma marked_sent_props:
  "sender_step\<^sup>*\<^sup>* p (marked_sent c sk p)" "same_msgs p (marked_sent c sk p)" "placeholder (marked_sent c sk p) = placeholder p"
proof -
  show "sender_step\<^sup>*\<^sup>* p (marked_sent c sk p)"
    by (cases "csock_heap sk c") (simp_all add: marked_sent_def step_sent_on r_into_rtranclp)
qed (simp_all add: marked_sent_def same_msgs_def markSentOn_def split: option.split)

lemma ready_bytes_result: "sender_ok p \<Longrightarrow> get_ready_bytes c req now p = Inr r \<Longrightarrow> ready_result c req p r"
  using get_ready_bytes_ok [of p c req now] by (metis Inr_inject)

lemma ready_msg:
  assumes "sender_ok p" and "get_ready_bytes c req now p = Inr (bufs, len, sq, off, p1)" and "0 < len"
  shows "chunk_msg p sq off len bufs \<in> irob_msgs p1"
proof -
  have r: "ready_result c req p (bufs, len, sq, off, p1)"
    by (rule ready_bytes_result [OF assms(1,2)])
  have res: "chunks p1 = chunks p" "concat bufs = take (nat len) (drop off (sender_data p))"
    "sq < length (sent_chunks p1)" "ck_offset (sent_chunks p1 ! sq) = off" "int (datalen (sent_chunks p1 ! sq)) = len"
    using r assms(3) unfolding ready_result_def prod.case by blast+
  have node: "same_node p p1" by (rule sender_step_node [OF step_ready [OF assms(2)]])
  have sd: "sender_data p1 = sender_data p" using res(1) by (simp add: sender_data_def)
  have "datalen (sent_chunks p1 ! sq) = nat len" using res(5) by linarith
  then have "chunk_msg p sq off len bufs = sent_chunk_msg p1 sq"
    using node unfolding chunk_msg_def sent_chunk_msg_def Let_def same_node_def res(2,4) sd by (simp add: order_less_imp_le [OF assms(3)])
  then show ?thesis using res(3) by (simp add: irob_msgs_def)
qed

lemma last_sent_msg:
  assumes ok: "sender_ok p" and r: "get_last_sent_chunk_htonl c p = Inr ((Some (nid, nsq, noff, nlen), bufs), p1)"
  shows "(\<lparr>hdr_labels = htonl (uint (send_labels p)), hdr_op = IROB_chunk nid nsq noff nlen\<rparr>, concat bufs) \<in> irob_msgs p1"
proof -
  let ?s = "fst (cursor p (ckey c p))"
  let ?p1 = "p\<lparr>next_seqnos_to_send := (next_seqnos_to_send p)(ckey c p \<mapsto> ?s)\<rparr>"
  have s: "?s \<noteq> 0" "?s \<le> length (sent_chunks p)" "p1 = ?p1"
    and b: "nid = htonl (ck_id (sent_chunks p ! (?s - 1)))" "nsq = htonl (int (seqno (sent_chunks p ! (?s - 1))))"
    "noff = htonl (int (ck_offset (sent_chunks p ! (?s - 1))))" "nlen = htonl (int (datalen (sent_chunks p ! (?s - 1))))"
    and g: "\<exists>n. get_bytes_internal (ck_offset (sent_chunks p ! (?s - 1))) (int (datalen (sent_chunks p ! (?s - 1)))) ?p1 = Inr (bufs, n)"
    using r by (auto simp: get_last_sent_chunk_htonl_def get_next_seqno_to_send_eq bindE_def ASSERT_def Let_def
        split: sum.splits if_splits)
  have ok1: "sender_ok ?p1" using sender_step_ok [OF step_last_sent [OF r] ok] s(3) by simp
  have k: "?s - 1 < length (sent_chunks p)" using s(1,2) by linarith
  have "concat bufs = take (datalen (sent_chunks p ! (?s - 1))) (drop (ck_offset (sent_chunks p ! (?s - 1))) (sender_data p))"
  proof -
    have k1: "?s - 1 < length (sent_chunks ?p1)" and sc: "sent_chunks ?p1 = sent_chunks p" "sender_data ?p1 = sender_data p"
      using k by (simp_all add: sender_data_def)
    show ?thesis
      by (rule get_bytes_again [OF ok1 k1, unfolded sc, of "int (datalen (sent_chunks p ! (?s - 1)))"]) (use g in auto)
  qed
  moreover have "ck_id (sent_chunks p ! (?s - 1)) = pi_id p" "seqno (sent_chunks p ! (?s - 1)) = ?s - 1"
    using sender_okD(6,8) [OF ok] k by simp_all
  ultimately have "(\<lparr>hdr_labels = htonl (uint (send_labels p)), hdr_op = IROB_chunk nid nsq noff nlen\<rparr>, concat bufs) =
      sent_chunk_msg p1 (?s - 1)"
    unfolding b s(3) by (simp add: sent_chunk_msg_def Let_def sender_data_def)
  then show ?thesis using k s(3) by (simp add: irob_msgs_def)
qed

section \<open>The IROBs of the application are never placeholders\<close>

lemma real_in_history: "sender_run h L \<Longrightarrow> lat_map L i = Some p \<Longrightarrow> \<not> placeholder p \<Longrightarrow> i \<in> hist_ids h"
proof (induction arbitrary: p rule: sender_run.induct)
  case (run_insert h L q L' q')
  have li: "lat_inv sender_elt L" using sender_run_inv [OF run_insert.hyps(1)] by (simp add: run_inv_def)
  let ?D = "corrected_deps True (anonymous q) (deps q) L"
  obtain L1 where L1: "insert_locked sender_placeholder sender_subsume True q L = Inr (True, L1)"
    "lat_map L1 = link_map sender_placeholder (pi_id q) (?D - elems (past_irobs L))
       ((lat_map L)(pi_id q \<mapsto> (snd.merged q L)\<lparr>deps := ?D\<rparr>))"
    by (rule snd.insert_spec [OF li run_insert.hyps(2,4,5,3) insert_cases [OF run_insert.hyps(6) li] refl])
  have L': "lat_map L' = link_map sender_placeholder (pi_id q) (?D - elems (past_irobs L))
       ((lat_map L)(pi_id q \<mapsto> (snd.merged q L)\<lparr>deps := ?D\<rparr>))"
    using L1 run_insert.hyps(6) by simp
  have "i = pi_id q \<or> (\<exists>p0. lat_map L i = Some p0 \<and> \<not> placeholder p0)"
    using run_insert.prems snd.mk_fields by (auto simp: L' link_map_def add_dependent_def split: if_splits option.splits)
  then show ?case using run_insert.IH by auto
next
  case (run_erase h L j)
  have li: "lat_inv sender_elt L" using sender_run_inv [OF run_erase.hyps(1)] by (simp add: run_inv_def)
  show ?case
  proof (cases "lat_map L j")
    case None
    then show ?thesis using run_erase erase_locked_absent [OF lat_invD(1) [OF li] run_erase.hyps(2)] by simp
  next
    case (Some v)
    obtain L' where "erase_locked j False L = (True, L')" "lat_map L' = erase_map j False (lat_map L)"
      by (rule snd.erase_spec [OF li Some, of False])
    then show ?thesis using run_erase by (auto simp: erase_map_def split: if_splits)
  qed
next
  case (run_drop h L j)
  have li: "lat_inv sender_elt L" using sender_run_inv [OF run_drop.hyps(1)] by (simp add: run_inv_def)
  show ?case
    using run_drop snd.drop_loop_spec [OF li, of "[j]"] by (auto simp: drop_irob_and_dependents_def split: if_splits)
next
  case (run_change h L j q q')
  have wf: "lattice_wf L" using sender_run_inv [OF run_change.hyps(1)] lat_invD(1) by (auto simp: run_inv_def)
  have "lat_map L j = Some q" using run_change.hyps(2,3) find_locked_map [OF wf] by simp
  then show ?case
    using run_change lat_update_map(1) [OF wf run_change.hyps(2)] sender_step_node [OF run_change.hyps(5)]
    by (auto simp: same_node_def split: if_splits)
qed simp

lemma out_run_sent:
  assumes "out_run log sk" and "id_ok i" and "find_locked (outgoing_irobs sk) i = Some p"
  shows "\<not> placeholder p \<longleftrightarrow> i \<in> fst ` set log" "\<not> placeholder p \<Longrightarrow> sender_ok p" "pi_id p = i"
proof -
  obtain h where h: "log_of h = log" "sender_run h (outgoing_irobs sk)" using assms(1) by (auto simp: out_run_def)
  note inv = sender_run_inv [OF h(2)]
  have li: "lat_inv sender_elt (outgoing_irobs sk)" using inv by (simp add: run_inv_def)
  have m: "lat_map (outgoing_irobs sk) i = Some p" using assms(2,3) find_locked_map [OF lat_invD(1) [OF li]] by simp
  have ids: "fst ` set log = hist_ids h" by (force simp: h(1) [symmetric] log_of_def)
  have "\<not> placeholder p" if "i \<in> hist_ids h"
    using inv that m lattice_wfD(5) [OF lat_invD(1) [OF li] m] by (fastforce simp: run_inv_def recorded_def)
  then show "\<not> placeholder p \<longleftrightarrow> i \<in> fst ` set log" using real_in_history [OF h(2) m] ids by blast
  show "pi_id p = i" by (rule lattice_wfD(4) [OF lat_invD(1) [OF li] m])
  show "sender_ok p" if "\<not> placeholder p" using irob_okD(1) [OF lat_invD(2) [OF li m]] that by (simp add: sender_elt_def)
qed

section \<open>What the steps of the threads leave alone\<close>

lemma csock_is_fg_out: "csock_is_fg c sk = Inr (r, sk') \<Longrightarrow> same_out sk sk'"
  by (auto simp: csock_is_fg_def bindE_def split: sum.splits if_splits dest!: csock_matches_out intro: same_out_trans)

lemma best_csock_out: "best_csock env labels sk = Inr (r, sk') \<Longrightarrow> same_out sk sk'"
  by (auto simp: best_csock_def bindE_def split: sum.splits if_splits attempt.splits dest!: connected_csock_out new_csock_out)

lemma csock_schedule_out [simp]: "outgoing_irobs (csock_schedule c d t sk) = outgoing_irobs sk"
  by (simp add: csock_schedule_def)

lemma chunk_failed_out: "same_out sk (chunk_failed d ack sk)"
  by (simp add: chunk_failed_def same_out_def Let_def split: option.split)

lemma stats_out: "csock_update_net_restriction_stats c labels sent recvd sk = Inr sk' \<Longrightarrow> same_out sk sk'"
  by (auto simp: csock_update_net_restriction_stats_def update_net_restriction_stats_def bindE_def same_out_def Let_def
      split: option.splits sum.splits if_splits)

lemma pass_request_spec:
  assumes "pass_request_to_all_senders d p sk = (p', sk')"
  shows "sender_step\<^sup>*\<^sup>* p p'" "same_out sk sk'"
proof -
  have one: "sender_step\<^sup>*\<^sup>* q (fst (AddRequestIfNotSent d c (q, s))) \<and> same_out s (snd (AddRequestIfNotSent d c (q, s)))" for c q s
    using step_num_ready [of q c] by (auto simp: AddRequestIfNotSent_def same_out_def split: prod.split)
  have "sender_step\<^sup>*\<^sup>* q (fst (fold (AddRequestIfNotSent d) cs (q, s))) \<and> same_out s (snd (fold (AddRequestIfNotSent d) cs (q, s)))"
    for cs q s
  proof (induction cs arbitrary: q s)
    case (Cons c cs)
    obtain q1 s1 where qs: "AddRequestIfNotSent d c (q, s) = (q1, s1)" by fastforce
    show ?case using one [of q c s] Cons [of q1 s1] by (auto simp: qs intro: rtranclp_trans same_out_trans)
  qed simp
  from this [of p "available_csocks sk" sk] assms show "sender_step\<^sup>*\<^sup>* p p'" "same_out sk sk'"
    by (auto simp: pass_request_to_all_senders_def split: if_splits)
qed

section \<open>The contract\<close>

locale sender_thread =
  fixes ok :: "sender_env \<Rightarrow> bool"
    and I :: "app_log \<Rightarrow> wire \<Rightarrow> msocket \<Rightarrow> bool"
  assumes sound: "I log w sk \<Longrightarrow> out_run log sk"
    and others_keep: "ok env \<Longrightarrow> I log w sk \<Longrightarrow> \<exists>log'. I (log @ log') w (others env at sk)"
    and frame: "I log w sk \<Longrightarrow> same_out sk sk' \<Longrightarrow> I log w sk'"
    and change: "I log w sk \<Longrightarrow> id_ok i \<Longrightarrow> find_locked (outgoing_irobs sk) i = Some p \<Longrightarrow> \<not> placeholder p \<Longrightarrow>
      sender_step\<^sup>*\<^sup>* p p' \<Longrightarrow> outgoing_irobs sk' = lat_update i (\<lambda>_. p') (outgoing_irobs sk) \<Longrightarrow> I log w sk'"
    and drops: "I log w sk \<Longrightarrow> id_ok i \<Longrightarrow> I log w (drop_irob i sk)"
    and emit: "I log w sk \<Longrightarrow> \<forall>m\<in>set ms. faithful sk m \<Longrightarrow> I log (w @ ms) sk"
begin

text \<open>An action that begins in \<open>sk\<close> keeps the contract; \<open>i\<close> is an IROB that the application has sent.\<close>

definition keeps_at :: "irob_id_t set \<Rightarrow> 'a action \<Rightarrow> msocket \<Rightarrow> bool" where
  "keeps_at S m sk \<longleftrightarrow> (\<forall>log w r w' sk'. I log w sk \<longrightarrow> S \<subseteq> fst ` set log \<longrightarrow> m sk = Inr (r, w', sk') \<longrightarrow>
     (\<exists>log'. I (log @ log') (w @ w') sk'))"

definition keeps :: "irob_id_t set \<Rightarrow> 'a action \<Rightarrow> bool" where
  "keeps S m \<longleftrightarrow> (\<forall>sk. keeps_at S m sk)"

lemma keepsI: "(\<And>sk. keeps_at S m sk) \<Longrightarrow> keeps S m"
  by (simp add: keeps_def)

lemma keeps_keeps_at: "keeps S m \<Longrightarrow> keeps_at S m sk"
  by (simp add: keeps_def)

lemma keeps_atI:
  "(\<And>log w r w' sk'. I log w sk \<Longrightarrow> S \<subseteq> fst ` set log \<Longrightarrow> m sk = Inr (r, w', sk') \<Longrightarrow> \<exists>log'. I (log @ log') (w @ w') sk') \<Longrightarrow>
    keeps_at S m sk"
  by (simp add: keeps_at_def)

lemma keeps_atD:
  assumes "keeps_at S m sk" and "I log w sk" and "S \<subseteq> fst ` set log" and "m sk = Inr (r, w', sk')"
  obtains log' where "I (log @ log') (w @ w') sk'"
  using assms unfolding keeps_at_def by blast

lemma keeps_bindA:
  assumes m: "keeps_at S m sk" and f: "\<And>x. keeps S (f x)"
  shows "keeps_at S (bindA m f) sk"
proof (rule keeps_atI)
  fix log w r w' sk'
  assume I: "I log w sk" "S \<subseteq> fst ` set log" and b: "bindA m f sk = Inr (r, w', sk')"
  then obtain r1 w1 sk1 where m1: "m sk = Inr (r1, w1, sk1)" by (cases "m sk") (auto simp: bindA_def)
  obtain l1 where l1: "I (log @ l1) (w @ w1) sk1" by (rule keeps_atD [OF m I m1])
  show "\<exists>log'. I (log @ log') (w @ w') sk'"
  proof (cases r1)
    case None
    then show ?thesis using b m1 l1 by (auto simp: bindA_def)
  next
    case (Some x)
    then obtain w2 where f1: "f x sk1 = Inr (r, w2, sk')" "w' = w1 @ w2"
      using b m1 by (auto simp: bindA_def bindE_def split: sum.splits)
    have sub: "S \<subseteq> fst ` set (log @ l1)" using I(2) by auto
    obtain l2 where "I ((log @ l1) @ l2) ((w @ w1) @ w2) sk'" by (rule keeps_atD [OF keeps_keeps_at [OF f] l1 sub f1(1)])
    then show ?thesis using f1(2) by auto
  qed
qed

lemma keeps_bindE: "(\<And>x. m = Inr x \<Longrightarrow> keeps_at S (f x) sk) \<Longrightarrow> keeps_at S (\<lambda>sk. bindE m (\<lambda>x. f x sk)) sk"
  by (cases m) (simp_all add: keeps_at_def)

end

section \<open>The actions\<close>

context sender_thread
begin

lemma keeps_returnA [simp]: "keeps_at S (returnA x) sk" "keeps S (returnA x)"
  by (auto simp: keeps_at_def keeps_def returnA_def intro: exI [of _ "[]"])

lemma keeps_failA: "m sk = Inl e \<Longrightarrow> keeps_at S m sk"
  by (simp add: keeps_at_def)

lemma keeps_changeA: "(\<And>s. same_out s (f s)) \<Longrightarrow> keeps S (changeA f)"
  using frame by (auto simp: keeps_at_def keeps_def changeA_def intro!: exI [of _ "[]"])

lemma keeps_mono: "keeps_at S m sk \<Longrightarrow> S \<subseteq> T \<Longrightarrow> keeps_at T m sk"
  unfolding keeps_at_def by (meson subset_trans)

lemma keeps_start:
  assumes "\<And>log w. I log w sk \<Longrightarrow> S \<subseteq> fst ` set log \<Longrightarrow> I log w s1" and "keeps_at S m s1" and "m' sk = m s1"
  shows "keeps_at S m' sk"
  using assms unfolding keeps_at_def by metis

lemma keeps_eq: "m' sk = m sk \<Longrightarrow> keeps_at S m sk \<Longrightarrow> keeps_at S m' sk"
  by (simp add: keeps_at_def)

lemma keeps_return: "m sk = returnA x sk \<Longrightarrow> keeps_at S m sk"
  by (rule keeps_eq [OF _ keeps_returnA(1)])

lemma keeps_if: "(b \<Longrightarrow> keeps_at S m1 sk) \<Longrightarrow> m sk = (if b then m1 sk else m2 sk) \<Longrightarrow> (\<not> b \<Longrightarrow> keeps_at S m2 sk) \<Longrightarrow> keeps_at S m sk"
  by (cases b) (simp_all add: keeps_at_def)

lemma keeps_unlocked:
  assumes "ok env" and "\<And>s r s'. m s = Inr (r, s') \<Longrightarrow> same_out s s'"
  shows "keeps_at S (unlocked env at m) sk"
proof (rule keeps_atI)
  fix log w r w' sk'
  assume I: "I log w sk" and m: "unlocked env at m sk = Inr (r, w', sk')"
  then obtain x s1 where m1: "m (others env (at False) sk) = Inr (x, s1)" "w' = []" "sk' = others env (at True) s1"
    by (auto simp: unlocked_def bindE_def split: sum.splits)
  obtain l1 where "I (log @ l1) w (others env (at False) sk)" using others_keep [OF assms(1) I] by blast
  then have "I (log @ l1) w s1" by (rule frame) (rule assms(2) [OF m1(1)])
  from others_keep [OF assms(1) this] obtain l2 where "I ((log @ l1) @ l2) w sk'" using m1(3) by blast
  then show "\<exists>log'. I (log @ log') (w @ w') sk'" using m1(2) by auto
qed

lemma keeps_writeA:
  assumes "ok env" and "\<And>s. same_out s (undo s)" and "\<forall>m\<in>set ms. faithful sk m"
  shows "keeps_at S (writeA env ms undo) sk"
proof (rule keeps_atI)
  fix log w r w' sk'
  assume I: "I log w sk" and m: "writeA env ms undo sk = Inr (r, w', sk')"
  obtain l1 where l1: "I (log @ l1) (w @ ms) (others env Writing sk)" using others_keep [OF assms(1) emit [OF I assms(3)]] by blast
  have "w' = ms" "sk' = others env Writing sk \<or> sk' = undo (others env Writing sk)"
    using m by (auto simp: writeA_def Let_def split: if_splits)
  then show "\<exists>log'. I (log @ log') (w @ w') sk'" using l1 frame [OF l1 assms(2)] by auto
qed

lemma keeps_found:
  assumes "id_ok i" and "find_locked (outgoing_irobs sk) i = None \<Longrightarrow> keeps_at S m sk"
    and "\<And>p. i \<in> S \<Longrightarrow> find_locked (outgoing_irobs sk) i = Some p \<Longrightarrow> \<not> placeholder p \<Longrightarrow> sender_ok p \<Longrightarrow> pi_id p = i \<Longrightarrow> keeps_at S m sk"
    and "i \<in> S"
  shows "keeps_at S m sk"
proof (cases "find_locked (outgoing_irobs sk) i")
  case (Some p)
  have "keeps_at S m sk" if "I log w sk" "S \<subseteq> fst ` set log" for log w
    using out_run_sent [OF sound [OF that(1)] assms(1) Some] that(2) assms(3) [OF assms(4) Some] assms(4) by blast
  then show ?thesis unfolding keeps_at_def by blast
qed (rule assms(2))

lemma keeps_real:
  assumes "find_locked (outgoing_irobs sk) i = Some p" and "id_ok i" and "\<not> placeholder p" and "keeps_at (insert i S) m sk"
  shows "keeps_at S m sk"
  using assms(4) out_run_sent(1) [OF sound assms(2,1)] assms(3) unfolding keeps_at_def by blast

lemma stored:
  assumes "I log w sk" and "id_ok i" and "find_locked (outgoing_irobs sk) i = Some p" and "\<not> placeholder p"
    and "sender_step\<^sup>*\<^sup>* p p'" and "same_out sk sk1"
  shows "I log w (store_irob i (Some p') sk1)"
  by (rule change [OF assms(1-5)]) (use assms(6) in \<open>simp add: store_irob_def same_out_def\<close>)

end

lemma find_store:
  assumes "find_locked (outgoing_irobs sk) i = Some p" and "same_out sk sk1"
  shows "find_locked (outgoing_irobs (store_irob i (Some p') sk1)) i = Some p'"
  using find_lat_update [OF assms(1), of "\<lambda>_. p'"] assms(2) by (simp add: store_irob_def same_out_def)

lemma steps_node: "sender_step\<^sup>*\<^sup>* p p' \<Longrightarrow> same_node p p'"
  by (induction rule: rtranclp_induct) (auto intro: same_node_trans sender_step_node)

lemma steps_ok: "sender_step\<^sup>*\<^sup>* p p' \<Longrightarrow> sender_ok p \<Longrightarrow> sender_ok p'"
  by (induction rule: rtranclp_induct) (auto intro: sender_step_ok)

lemma delegate_to_match_out: "delegate_to_match c m redundant d p sk = (r, sk') \<Longrightarrow> same_out sk sk'"
  by (auto simp: delegate_to_match_def Let_def same_out_def split: if_splits)

context sender_thread
begin

lemma delegate_no_match_keeps:
  assumes I: "I log w sk" and i: "id_ok i" "find_locked (outgoing_irobs sk) i = Some p" "\<not> placeholder p" "pi_id p = i"
    and r: "delegate_no_match env c redundant p sk = (r, sk')"
  shows "I log w sk'"
proof -
  have st: "I log w (store_irob i (Some (set_status n p)) sk1)" if "same_out sk sk1" for n sk1
    by (rule stored [OF I i(1-3) _ that]) (auto intro: step_status)
  have th: "same_out sk (register_thunk (send_labels p) fn arg sk)" for fn arg by (simp add: same_out_def)
  show ?thesis
    using r st [OF same_out_refl] st [OF th] drops [OF I i(1)] drops [OF st [OF same_out_refl] i(1)] I i(4)
    by (auto simp: delegate_no_match_def Let_def split: if_splits option.splits)
qed

lemma keeps_pass_to_all:
  assumes i: "id_ok i"
  shows "keeps_at {i} (\<lambda>sk. case find_locked (outgoing_irobs sk) i of
      None \<Rightarrow> returnA True sk
    | Some p \<Rightarrow> if redundant then let (p2, sk2) = pass_request_to_all_senders d p sk in returnA False (store_irob i (Some p2) sk2)
        else returnA False sk) sk" (is "keeps_at _ ?m _")
proof (rule keeps_found [OF i])
  show "keeps_at {i} ?m sk" if "find_locked (outgoing_irobs sk) i = None"
    by (rule keeps_return [of _ _ True]) (use that in simp)
next
  fix p assume p: "find_locked (outgoing_irobs sk) i = Some p" "\<not> placeholder p"
  obtain p2 sk2 where ps: "pass_request_to_all_senders d p sk = (p2, sk2)" by fastforce
  note spec = pass_request_spec [OF ps]
  show "keeps_at {i} ?m sk"
    by (rule keeps_start [where m = "returnA False" and ?s1.0 = "if redundant then store_irob i (Some p2) sk2 else sk"])
       (use p ps stored [OF _ i p spec] in auto)
qed simp

lemma keeps_delegate_match:
  assumes i: "id_ok i"
  shows "keeps_at {i} (\<lambda>sk. case find_locked (outgoing_irobs sk) i of
      None \<Rightarrow> returnA True sk
    | Some p \<Rightarrow> ASSERT (\<not> placeholder p)
        (let (r, sk2) = (case match of
             None \<Rightarrow> delegate_no_match env c redundant p sk
           | Some m \<Rightarrow> delegate_to_match c m redundant d p sk)
         in returnA r sk2)) sk" (is "keeps_at _ ?m _")
proof (rule keeps_found [OF i])
  show "keeps_at {i} ?m sk" if "find_locked (outgoing_irobs sk) i = None"
    by (rule keeps_return [of _ _ True]) (use that in simp)
next
  fix p assume p: "find_locked (outgoing_irobs sk) i = Some p" "\<not> placeholder p" "pi_id p = i"
  obtain r s2 where rs: "(case match of None \<Rightarrow> delegate_no_match env c redundant p sk
      | Some m \<Rightarrow> delegate_to_match c m redundant d p sk) = (r, s2)" by fastforce
  have "I log w s2" if "I log w sk" for log w
    using rs delegate_no_match_keeps [OF that i p] frame [OF that delegate_to_match_out] by (auto split: option.splits)
  then show "keeps_at {i} ?m sk"
    by (rule keeps_start [where m = "returnA r" and ?s1.0 = s2]) (use p rs in \<open>simp_all add: ASSERT_def\<close>)
qed simp

lemma keeps_delegate:
  assumes env: "ok env" and i: "id_ok i"
  shows "keeps {} (delegate_if_necessary env c i d)"
proof (rule keepsI)
  fix sk
  show "keeps_at {} (delegate_if_necessary env c i d) sk"
  proof (cases "find_locked (outgoing_irobs sk) i")
    case None
    then show ?thesis by (intro keeps_return [of _ _ True]) (simp add: delegate_if_necessary_def)
  next
    case (Some p)
    show ?thesis
    proof (cases "placeholder p")
      case False
      have "keeps_at {i} (delegate_if_necessary env c i d) sk"
      proof (rule keeps_eq)
        show "delegate_if_necessary env c i d sk = bindA (unlocked env Matching (csock_matches c (send_labels p))) (\<lambda>m.
            if m then (\<lambda>sk. case find_locked (outgoing_irobs sk) i of
                None \<Rightarrow> returnA True sk
              | Some q \<Rightarrow> if send_on_all_networks p
                  then let (p2, sk2) = pass_request_to_all_senders d q sk in returnA False (store_irob i (Some p2) sk2)
                  else returnA False sk)
            else bindA (unlocked env Looking_up (best_csock env (send_labels p))) (\<lambda>match sk. case find_locked (outgoing_irobs sk) i of
                None \<Rightarrow> returnA True sk
              | Some q \<Rightarrow> ASSERT (\<not> placeholder q)
                  (let (r, sk2) = (case match of
                       None \<Rightarrow> delegate_no_match env c (send_on_all_networks p) q sk
                     | Some m \<Rightarrow> delegate_to_match c m (send_on_all_networks p) d q sk)
                   in returnA r sk2))) sk"
          using Some False by (simp add: delegate_if_necessary_def ASSERT_def Let_def)
      qed (auto intro!: keeps_bindA keeps_unlocked keepsI keeps_pass_to_all keeps_delegate_match env i
          dest: csock_matches_out best_csock_out)
      then show ?thesis by (rule keeps_real [OF Some i False])
    qed (use Some in \<open>intro keeps_failA [of _ _ AssertFailed], simp add: delegate_if_necessary_def ASSERT_def\<close>)
  qed
qed

end

section \<open>What is written\<close>

lemma begin_msg_node: "same_node p p' \<Longrightarrow> begin_msg p' = begin_msg p"
  by (simp add: begin_msg_def same_node_def copy_deps_htonl_def)

lemma begin_end_msgs [simp]: "begin_msg p \<in> irob_msgs p" "end_msg p \<in> irob_msgs p"
  by (simp_all add: irob_msgs_def)

lemma marked_msgs [simp]: "irob_msgs (marked_sent c sk p) = irob_msgs p"
  by (rule same_msgs_eq(1)) (rule marked_sent_props(2))

lemma marked_steps: "sender_step\<^sup>*\<^sup>* p p1 \<Longrightarrow> sender_step\<^sup>*\<^sup>* p (marked_sent c sk p1)"
  by (rule rtranclp_trans [OF _ marked_sent_props(1)])

lemma faithful_stored:
  assumes "id_ok i" and "find_locked (outgoing_irobs sk) i = Some p" and "\<not> placeholder p" and "same_out sk sk1"
    and "sender_step\<^sup>*\<^sup>* p p'" and "m \<in> irob_msgs p'"
  shows "faithful (store_irob i (Some p') sk1) m"
  by (rule faithfulI [OF assms(1) find_store [OF assms(2,4)] _ assms(6)])
     (use steps_node [OF assms(5)] assms(3) in \<open>simp add: same_node_def\<close>)

lemma whole_irob_spec:
  assumes ok: "sender_ok p" and r: "whole_irob env c p sk = Inr (extra, p1, sk1)"
  shows "same_out sk sk1" "sender_step\<^sup>*\<^sup>* p p1" "\<forall>m\<in>set (begin_msg p # extra). m \<in> irob_msgs p1"
proof -
  consider "extra = []" "p1 = p" "sk1 = sk"
    | bufs len sq off where "get_ready_bytes c (int (expected_bytes_sender p)) (clock env) p = Inr (bufs, len, sq, off, p1)"
        "(extra = [] \<and> sk1 = sk) \<or> (0 < len \<and> extra = [chunk_msg p sq off len bufs, end_msg p1] \<and> same_out sk sk1)"
    using r by (auto simp: whole_irob_def bindE_def ASSERT_def split: sum.splits if_splits) (blast dest: stats_out)+
  then have "same_out sk sk1 \<and> sender_step\<^sup>*\<^sup>* p p1 \<and> (\<forall>m\<in>set (begin_msg p # extra). m \<in> irob_msgs p1)"
  proof cases
    case 2
    note st = step_ready [OF 2(1)]
    have "begin_msg p \<in> irob_msgs p1" using begin_msg_node [OF sender_step_node [OF st]] begin_end_msgs(1) [of p1] by simp
    then show ?thesis using 2(2) st ready_msg [OF ok 2(1)] by auto
  qed simp
  then show "same_out sk sk1" "sender_step\<^sup>*\<^sup>* p p1" "\<forall>m\<in>set (begin_msg p # extra). m \<in> irob_msgs p1" by blast+
qed

lemma announced_spec:
  "same_out sk (announced c d whole sk) \<or>
   (\<exists>p p'. find_locked (outgoing_irobs sk) (sd_id d) = Some p \<and> \<not> placeholder p \<and> sender_step\<^sup>*\<^sup>* p p' \<and>
      same_out (store_irob (sd_id d) (Some p') sk) (announced c d whole sk))"
proof -
  have st: "sender_step\<^sup>*\<^sup>* p (mark_announcement_sent c p)" "sender_step\<^sup>*\<^sup>* p (mark_end_announcement_sent c (mark_announcement_sent c p))" for p
    by (auto intro: step_announced step_end_announced rtranclp.rtrancl_into_rtrancl)
  show ?thesis
  proof (cases "find_locked (outgoing_irobs sk) (sd_id d)")
    case (Some p)
    then show ?thesis using st [of p] by (auto simp: announced_def Let_def same_out_def)
  qed (simp add: announced_def)
qed

context sender_thread
begin

lemma keeps_announced: "id_ok (sd_id d) \<Longrightarrow> keeps_at S (changeA (announced c d whole)) sk"
  using announced_spec [of sk c d whole] frame stored [OF _ _ _ _ _ same_out_refl]
  by (auto simp: keeps_at_def changeA_def intro!: exI [of _ "[]"]) blast+

lemma keeps_begin_irob_send:
  assumes env: "ok env" and i: "id_ok (sd_id d)"
  shows "keeps_at {sd_id d} (begin_irob_send env c d) sk"
proof (rule keeps_found [OF i])
  show "keeps_at {sd_id d} (begin_irob_send env c d) sk" if "find_locked (outgoing_irobs sk) (sd_id d) = None"
    by (rule keeps_return [of _ _ True]) (use that in \<open>simp add: begin_irob_send_def\<close>)
next
  fix p assume p: "find_locked (outgoing_irobs sk) (sd_id d) = Some p" "\<not> placeholder p" "sender_ok p"
  show "keeps_at {sd_id d} (begin_irob_send env c d) sk"
  proof (cases "whole_irob env c p sk")
    case (Inl e)
    then show ?thesis using p by (intro keeps_failA [of _ _ e]) (simp add: begin_irob_send_def)
  next
    case (Inr r)
    then obtain extra p1 sk1 where r: "whole_irob env c p sk = Inr (extra, p1, sk1)" by (cases r) auto
    note spec = whole_irob_spec [OF p(3) r]
    let ?s = "store_irob (sd_id d) (Some (marked_sent c sk1 p1)) sk1"
    show ?thesis
    proof (rule keeps_start)
      show "I log w ?s" if "I log w sk" for log w by (rule stored [OF that i p(1,2) marked_steps [OF spec(2)] spec(1)])
      have f: "\<forall>m\<in>set (begin_msg p # extra). faithful ?s m"
        using faithful_stored [OF i p(1,2) spec(1) marked_steps [OF spec(2)]] spec(3) by simp
      show "keeps_at {sd_id d} (bindA (writeA env (begin_msg p # extra) (sk_schedule d NEW_IROBS)) (\<lambda>_.
              bindA (changeA (announced c d (extra \<noteq> []))) (\<lambda>_. returnA True))) ?s"
        by (intro keeps_bindA keeps_writeA [OF env _ f] keepsI keeps_announced [OF i] keeps_returnA) (simp add: same_out_def)
    qed (use p(1) r in \<open>simp add: begin_irob_send_def\<close>)
  qed
qed simp

end

lemma recap_chunk_spec:
  assumes ok: "sender_ok p" and r: "recap_chunk env c p = Inr (cks, p2)"
  shows "sender_step\<^sup>*\<^sup>* p p2" "\<forall>m\<in>set cks. m \<in> irob_msgs p2"
proof -
  obtain bufs len sq off p1 where g: "get_ready_bytes c MIN_CHUNKSIZE (clock env) p = Inr (bufs, len, sq, off, p1)"
    using r by (auto simp: recap_chunk_def bindE_def split: sum.splits)
  note st = step_ready [OF g]
  have "len = int (length (concat bufs))" using ready_bytes_result [OF ok g] unfolding ready_result_def prod.case by blast
  moreover have "len \<noteq> 0" if "bufs \<noteq> []"
  proof
    assume "len = 0"
    with g have "get_ready_bytes c MIN_CHUNKSIZE (clock env) p = Inr (bufs, 0, sq, off, p1)" by simp
    from get_ready_bytes_none [OF ok this] that show False by (simp add: MIN_CHUNKSIZE_def)
  qed
  ultimately have len: "0 < len" if "bufs \<noteq> []" using that by linarith
  have "sender_step\<^sup>*\<^sup>* p p2 \<and> (\<forall>m\<in>set cks. m \<in> irob_msgs p2)"
  proof (cases "bufs = []")
    case False
    then show ?thesis using r g st ready_msg [OF ok g len] by (auto simp: recap_chunk_def)
  next
    case True
    then obtain ck bufs1 where l: "get_last_sent_chunk_htonl c p1 = Inr ((ck, bufs1), p2)"
      using r g by (auto simp: recap_chunk_def bindE_def split: sum.splits)
    have "sender_ok p1" "send_labels p1 = send_labels p"
      using sender_step_ok [OF st ok] sender_step_node [OF st] by (simp_all add: same_node_def)
    then have "\<forall>m\<in>set cks. m \<in> irob_msgs p2"
      using r g True l last_sent_msg [of p1 c _ _ _ _ bufs1 p2]
      by (auto simp: recap_chunk_def split: option.splits prod.splits if_splits)
    then show ?thesis using st step_last_sent [OF l] by (auto intro: rtranclp.rtrancl_into_rtrancl)
  qed
  then show "sender_step\<^sup>*\<^sup>* p p2" "\<forall>m\<in>set cks. m \<in> irob_msgs p2" by blast+
qed

lemma faithful_piggyback: "m \<in> set (piggyback env ack) \<Longrightarrow> faithful sk m"
  by (auto simp: piggyback_def split: option.splits)

lemma chunk_sent_out: "same_out sk (chunk_sent c d sk)"
  by (simp add: chunk_sent_def same_out_def Let_def split: option.split)

context sender_thread
begin

lemma keeps_okay_to_send:
  "keeps_at S (\<lambda>sk. bindE (okay_to_send_bg env c sk) (\<lambda>r. returnA r sk)) sk"
  "keeps_at S (\<lambda>sk. bindE (okay_to_send_bg env c sk) (\<lambda>(ok, _). returnA ok sk)) sk"
  by (cases "okay_to_send_bg env c sk"; force intro: keeps_failA keeps_return)+

lemma keeps_may_begin: "ok env \<Longrightarrow> keeps S (may_begin env c d)"
  unfolding may_begin_def
  by (intro keepsI) (auto intro!: keeps_bindA keeps_unlocked keepsI keeps_okay_to_send dest: csock_is_fg_out)

lemma keeps_begin_irob:
  assumes env: "ok env" and i: "id_ok (sd_id d)"
  shows "keeps {} (sender_begin_irob env c d)"
proof (rule keepsI)
  fix sk
  have del: "keeps S (delegate_if_necessary env c (sd_id d) d)" for S
    using keeps_delegate [OF env i, of c d] by (auto simp: keeps_def intro: keeps_mono [of "{}"])
  have go: "keeps {sd_id d} (\<lambda>sk. case find_locked (outgoing_irobs sk) (sd_id d) of
      None \<Rightarrow> returnA True sk
    | Some p \<Rightarrow> if was_announced c p then begin_irob_send env c d sk
        else bindA (may_begin env c d) (\<lambda>ok. if \<not> ok then returnA False
          else bindA (delegate_if_necessary env c (sd_id d) d) (\<lambda>gone. if gone then returnA True else begin_irob_send env c d)) sk)"
    (is "keeps _ ?m")
  proof (rule keepsI)
    fix s
    have b: "keeps_at {sd_id d} (bindA (may_begin env c d) (\<lambda>ok. if \<not> ok then returnA False
        else bindA (delegate_if_necessary env c (sd_id d) d) (\<lambda>gone. if gone then returnA True else begin_irob_send env c d))) s"
      by (intro keeps_bindA keeps_keeps_at [OF keeps_may_begin [OF env]] keepsI)
         (auto intro!: keeps_bindA keeps_keeps_at [OF del] keepsI keeps_begin_irob_send env i)
    show "keeps_at {sd_id d} ?m s"
    proof (cases "find_locked (outgoing_irobs s) (sd_id d)")
      case (Some p)
      show ?thesis
      proof (cases "was_announced c p")
        case True
        then show ?thesis by (intro keeps_eq [OF _ keeps_begin_irob_send [OF env i]]) (simp add: Some)
      next
        case False
        then show ?thesis by (intro keeps_eq [OF _ b]) (simp add: Some)
      qed
    qed (rule keeps_return [of _ _ True], simp)
  qed
  show "keeps_at {} (sender_begin_irob env c d) sk"
  proof (cases "find_locked (outgoing_irobs sk) (sd_id d)")
    case None
    then show ?thesis by (intro keeps_return [of _ _ True]) (simp add: sender_begin_irob_def)
  next
    case (Some p)
    show ?thesis
    proof (cases "placeholder p")
      case False
      show ?thesis
      proof (rule keeps_real [OF Some i False], rule keeps_eq)
        show "keeps_at {sd_id d} (bindA (if \<not> fits c (send_labels p) sk then delegate_if_necessary env c (sd_id d) d else returnA False)
           (\<lambda>gone. if gone then returnA True else (\<lambda>sk. case find_locked (outgoing_irobs sk) (sd_id d) of
              None \<Rightarrow> returnA True sk
            | Some p \<Rightarrow> if was_announced c p then begin_irob_send env c d sk
                else bindA (may_begin env c d) (\<lambda>ok. if \<not> ok then returnA False
                  else bindA (delegate_if_necessary env c (sd_id d) d) (\<lambda>gone. if gone then returnA True else begin_irob_send env c d)) sk))) sk"
          by (rule keeps_bindA) (use go keeps_keeps_at [OF del] in auto)
      qed (use Some False in \<open>simp add: sender_begin_irob_def ASSERT_def\<close>)
    qed (use Some in \<open>intro keeps_failA [of _ _ AssertFailed], simp add: sender_begin_irob_def ASSERT_def\<close>)
  qed
qed

lemma keeps_end_irob:
  assumes env: "ok env" and i: "id_ok (sd_id d)"
  shows "keeps {} (sender_end_irob env c d)"
proof (rule keepsI)
  fix sk
  show "keeps_at {} (sender_end_irob env c d) sk"
  proof (cases "find_locked (outgoing_irobs sk) (sd_id d)")
    case None
    then show ?thesis by (intro keeps_return [of _ _ "()"]) (simp add: sender_end_irob_def)
  next
    case (Some p)
    show ?thesis
    proof (cases "placeholder p")
      case False
      let ?s = "store_irob (sd_id d) (Some (marked_sent c sk p)) sk"
      note st = marked_steps [OF rtranclp.rtrancl_refl]
      show ?thesis
      proof (rule keeps_start)
        show "I log w ?s" if "I log w sk" for log w by (rule stored [OF that i Some False st same_out_refl])
        show "keeps_at {} (writeA env [end_msg p] (sk_schedule d FINISHED_IROBS)) ?s"
          by (rule keeps_writeA [OF env])
             (use faithful_stored [OF i Some False same_out_refl st] in \<open>simp_all add: same_out_def\<close>)
      qed (use Some False in \<open>simp add: sender_end_irob_def ASSERT_def\<close>)
    qed (use Some in \<open>intro keeps_failA [of _ _ AssertFailed], simp add: sender_end_irob_def ASSERT_def\<close>)
  qed
qed

end

context sender_thread
begin

lemma keeps_chunk_found:
  assumes env: "ok env" and i: "id_ok (sd_id d)"
    and p: "find_locked (outgoing_irobs sk) (sd_id d) = Some p" "\<not> placeholder p" and okp: "sender_ok p"
  shows "keeps_at S (irob_chunk_send env c d ack csize) sk"
proof (cases "get_ready_bytes c csize (clock env) p")
  case (Inl e)
  then show ?thesis using p by (intro keeps_failA [of _ _ e]) (simp add: irob_chunk_send_def ASSERT_def)
next
  case (Inr r)
  then obtain bufs len sq off p1 where g: "get_ready_bytes c csize (clock env) p = Inr (bufs, len, sq, off, p1)" by (cases r) auto
  have st: "sender_step\<^sup>*\<^sup>* p p1" using step_ready [OF g] by blast
  let ?sk1 = "if striped p1 sk then sk_schedule d NEW_CHUNKS sk else sk"
  have o1: "same_out sk ?sk1" by (simp add: same_out_def)
  show ?thesis
  proof (cases "len = 0")
    case True
    show ?thesis
      by (rule keeps_start [where m = "returnA True" and ?s1.0 = "store_irob (sd_id d) (Some p1) sk"])
         (use p g True stored [OF _ i p st same_out_refl] in \<open>simp_all add: irob_chunk_send_def ASSERT_def\<close>)
  next
    case False
    have "len = int (length (concat bufs))" using ready_bytes_result [OF okp g] unfolding ready_result_def prod.case by blast
    then have len: "0 < len" using False by linarith
    show ?thesis
    proof (cases "csock_update_net_restriction_stats c (send_labels p1) (nat len) 0 ?sk1")
      case (Inl e)
      then show ?thesis using p g False by (intro keeps_failA [of _ _ e]) (simp add: irob_chunk_send_def ASSERT_def Let_def)
    next
      case (Inr sk2)
      have o2: "same_out sk sk2" by (rule same_out_trans [OF o1 stats_out [OF Inr]])
      let ?s = "store_irob (sd_id d) (Some (marked_sent c sk2 p1)) sk2"
      show ?thesis
      proof (rule keeps_start)
        show "I log w ?s" if "I log w sk" for log w by (rule stored [OF that i p marked_steps [OF st] o2])
        have f: "\<forall>m\<in>set (piggyback env ack @ [chunk_msg p sq off len bufs]). faithful ?s m"
          using faithful_stored [OF i p o2 marked_steps [OF st]] ready_msg [OF okp g len] faithful_piggyback by auto
        show "keeps_at S (bindA (writeA env (piggyback env ack @ [chunk_msg p sq off len bufs]) (chunk_failed d ack)) (\<lambda>_.
            bindA (changeA (chunk_sent c d)) (\<lambda>_. returnA True))) ?s"
          by (intro keeps_bindA keeps_writeA [OF env _ f] keepsI keeps_keeps_at [OF keeps_changeA] keeps_returnA
              chunk_failed_out chunk_sent_out)
      qed (use p g False Inr in \<open>simp add: irob_chunk_send_def ASSERT_def Let_def\<close>)
    qed
  qed
qed

lemma keeps_chunk_send:
  assumes env: "ok env" and i: "id_ok (sd_id d)"
  shows "keeps {} (irob_chunk_send env c d ack csize)"
proof (rule keepsI)
  fix sk
  show "keeps_at {} (irob_chunk_send env c d ack csize) sk"
  proof (cases "find_locked (outgoing_irobs sk) (sd_id d)")
    case None
    then show ?thesis by (intro keeps_return [of _ _ True]) (simp add: irob_chunk_send_def)
  next
    case (Some p)
    show ?thesis
    proof (cases "placeholder p")
      case False
      have "keeps_at {sd_id d} (irob_chunk_send env c d ack csize) sk"
      proof (rule keeps_found [OF i])
        show "keeps_at {sd_id d} (irob_chunk_send env c d ack csize) sk"
          if "find_locked (outgoing_irobs sk) (sd_id d) = Some q" "\<not> placeholder q" "sender_ok q" for q
          by (rule keeps_chunk_found [OF env i that])
      qed (use Some in simp_all)
      then show ?thesis by (rule keeps_real [OF Some i False])
    qed (use Some in \<open>intro keeps_failA [of _ _ AssertFailed], simp add: irob_chunk_send_def ASSERT_def\<close>)
  qed
qed

lemma keeps_chunk_size: 
  assumes env: "ok env"
  shows "keeps S (chunk_size env c d)"
proof -
  have out: "same_out s s'" if "bindE (csock_is_fg c s) (\<lambda>(fg, sk1). bindE (csock_matches c (sd_labels d) sk1)
      (\<lambda>(best, sk2). Inr (fg \<or> \<not> best, sk2))) = Inr (r, s')" for s r s'
    using that by (auto simp: bindE_def split: sum.splits dest!: csock_is_fg_out csock_matches_out intro: same_out_trans)
  have pick: "keeps S (case x of (ok, csize) \<Rightarrow> \<lambda>sk. returnA (ok, if CSock_Mapping.count sk > 1 then min csize 4096 else csize) sk)" for x
    by (intro keepsI, cases x) (auto intro!: keeps_return)
  show ?thesis
    unfolding chunk_size_def
    by (intro keepsI keeps_bindA pick)
       (auto intro!: keeps_bindA keeps_unlocked [OF env] keepsI keeps_okay_to_send out)
qed

lemma keeps_irob_chunk:
  assumes env: "ok env" and i: "id_ok (sd_id d)"
  shows "keeps {} (sender_irob_chunk env c d ack)"
  unfolding sender_irob_chunk_def
  by (intro keepsI keeps_bindA keeps_keeps_at [OF keeps_chunk_size [OF env]])
     (auto intro!: keeps_bindA keepsI keeps_keeps_at [OF keeps_delegate [OF env i]] keeps_keeps_at [OF keeps_chunk_send [OF env i]]
       split: prod.split)

end

context sender_thread
begin

lemma keeps_data_check_found:
  assumes env: "ok env" and i: "id_ok (sd_id d)"
  shows "keeps {sd_id d} (\<lambda>sk1. case find_locked (outgoing_irobs sk1) (sd_id d) of
      None \<Rightarrow> Inl OutOfBounds
    | Some p1 \<Rightarrow> bindE (recap_chunk env c p1) (\<lambda>(cks, p2).
        writeA env (begin_msg p1 # cks @ (if complete p2 \<and> all_bytes_chunked p2 then [end_msg p2] else []) @
            [data_check_msg (sd_id d) (send_labels p1)])
          (sk_schedule d WAITING_DATA_CHECKS) (store_irob (sd_id d) (Some (marked_sent c sk1 p2)) sk1)))" (is "keeps _ ?m")
proof (rule keepsI, rule keeps_found [OF i])
  fix sk :: msocket
  show "keeps_at {sd_id d} ?m sk" if "find_locked (outgoing_irobs sk) (sd_id d) = None"
    by (rule keeps_failA [of _ _ OutOfBounds]) (simp add: that)
next
  fix sk :: msocket and p assume p: "find_locked (outgoing_irobs sk) (sd_id d) = Some p" "\<not> placeholder p" "sender_ok p"
  show "keeps_at {sd_id d} ?m sk"
  proof (cases "recap_chunk env c p")
    case (Inl e)
    then show ?thesis using p by (intro keeps_failA [of _ _ e]) simp
  next
    case (Inr r)
    then obtain cks p2 where r: "recap_chunk env c p = Inr (cks, p2)" by (cases r) auto
    note spec = recap_chunk_spec [OF p(3) r]
    let ?s = "store_irob (sd_id d) (Some (marked_sent c sk p2)) sk"
    let ?ms = "begin_msg p # cks @ (if complete p2 \<and> all_bytes_chunked p2 then [end_msg p2] else []) @
            [data_check_msg (sd_id d) (send_labels p)]"
    have b: "begin_msg p \<in> irob_msgs p2" using begin_msg_node [OF steps_node [OF spec(1)]] begin_end_msgs(1) [of p2] by simp
    have "\<forall>m\<in>set ?ms. m \<in> irob_msgs p2 \<or> m = data_check_msg (sd_id d) (send_labels p)"
      using b spec(2) by (cases "complete p2 \<and> all_bytes_chunked p2") (simp_all split: if_splits, auto)
    then have f: "\<forall>m\<in>set ?ms. faithful ?s m"
      using faithful_stored [OF i p(1,2) same_out_refl marked_steps [OF spec(1)]] by (metis marked_msgs not_about(2))
    show ?thesis
    proof (rule keeps_start)
      show "I log w ?s" if "I log w sk" for log w by (rule stored [OF that i p(1,2) marked_steps [OF spec(1)] same_out_refl])
      show "keeps_at {sd_id d} (writeA env ?ms (sk_schedule d WAITING_DATA_CHECKS)) ?s"
        by (rule keeps_writeA [OF env _ f]) (simp add: same_out_def)
    qed (use p r in simp)
  qed
qed simp

lemma keeps_data_check:
  assumes env: "ok env" and i: "id_ok (sd_id d)"
  shows "keeps {} (send_data_check env c d)"
proof (rule keepsI)
  fix sk
  have plain: "keeps_at {} (writeA env [data_check_msg (sd_id d) 0] (sk_schedule d WAITING_DATA_CHECKS)) sk"
    by (rule keeps_writeA [OF env]) (simp_all add: same_out_def)
  show "keeps_at {} (send_data_check env c d) sk"
  proof (cases "find_locked (outgoing_irobs sk) (sd_id d)")
    case None
    then show ?thesis by (intro keeps_eq [OF _ plain]) (simp add: send_data_check_def)
  next
    case (Some p)
    show ?thesis
    proof (cases "placeholder p")
      case True
      then show ?thesis using Some by (intro keeps_eq [OF _ plain]) (simp add: send_data_check_def)
    next
      case False
      show ?thesis
      proof (rule keeps_real [OF Some i False], rule keeps_eq)
        show "keeps_at {sd_id d} (bindA (delegate_if_necessary env c (sd_id d) d) (\<lambda>gone. if gone then returnA ()
           else (\<lambda>sk1. case find_locked (outgoing_irobs sk1) (sd_id d) of
              None \<Rightarrow> Inl OutOfBounds
            | Some p1 \<Rightarrow> bindE (recap_chunk env c p1) (\<lambda>(cks, p2).
                writeA env (begin_msg p1 # cks @ (if complete p2 \<and> all_bytes_chunked p2 then [end_msg p2] else []) @
                    [data_check_msg (sd_id d) (send_labels p1)])
                  (sk_schedule d WAITING_DATA_CHECKS) (store_irob (sd_id d) (Some (marked_sent c sk1 p2)) sk1))))) sk"
          by (intro keeps_bindA keeps_mono [OF keeps_keeps_at [OF keeps_delegate [OF env i]]])
             (use keeps_data_check_found [OF env i, of c] in auto)
      qed (use Some False in \<open>simp add: send_data_check_def Let_def\<close>)
    qed
  qed
qed

end

lemma put_indexes_out: "same_out sk (put_indexes pl c ix sk)"
  by (cases pl) (simp_all add: same_out_def)

lemma faithful_resend: "m \<in> set (resend_msgs i req missing p) \<Longrightarrow> faithful sk m"
  by (auto simp: resend_msgs_def)

context sender_thread
begin

lemma keeps_simple_messages:
  assumes env: "ok env"
  shows "keeps S (new_interface env iface)" "keeps S (down_interface env iface)" "keeps S (goodbye env)"
  unfolding new_interface_def down_interface_def goodbye_def
  by (auto intro!: keepsI keeps_bindA keeps_writeA [OF env] keeps_keeps_at [OF keeps_changeA] simp: same_out_def)

lemma keeps_send_acks:
  assumes env: "ok env"
  shows "keeps S (send_acks env c d pl)"
proof (rule keepsI)
  fix sk
  show "keeps_at S (send_acks env c d pl) sk"
  proof (cases "ack_srv_time env d")
    case (Inr srv)
    let ?s = "put_indexes pl c ((get_indexes pl c sk)\<lparr>waiting_acks := drop MAX_ACKS (waiting_acks (get_indexes pl c sk))\<rparr>) sk"
    show ?thesis
    proof (rule keeps_start)
      show "I log w ?s" if "I log w sk" for log w by (rule frame [OF that put_indexes_out])
      show "keeps_at S (writeA env [ack_msg env (map sd_id (take MAX_ACKS (waiting_acks (get_indexes pl c sk)))) (sd_id d)
            (tv (htonl (tv_sec srv)) (htonl (subsec srv)))]
          (\<lambda>s. s\<lparr>irob_indexes := (irob_indexes s)\<lparr>waiting_acks := pset_insert_range (waiting_acks (irob_indexes s))
            (take MAX_ACKS (waiting_acks (get_indexes pl c sk)))\<rparr>\<rparr>)) ?s"
        by (rule keeps_writeA [OF env]) (simp_all add: same_out_def MAX_ACKS_def)
    qed (use Inr in \<open>simp add: send_acks_def Let_def\<close>)
  qed (intro keeps_failA, simp add: send_acks_def)
qed

lemma keeps_resend_request:
  assumes env: "ok env"
  shows "keeps S (sender_resend_request env c d)"
proof -
  have del: "keeps_at S (delegate_resend_request_if_necessary env c i q d) sk" for i q sk
  proof (cases "fits c (send_labels q) sk")
    case False
    have after: "keeps S (\<lambda>sk1. case find_locked (rl (incoming_irobs sk1)) i of
        None \<Rightarrow> returnA True sk1
      | Some _ \<Rightarrow> (case match of Some m \<Rightarrow> returnA True (csock_schedule m d RESEND_REQUESTS sk1) | None \<Rightarrow> returnA True sk1))" for match
      using frame by (force simp: keeps_def keeps_at_def returnA_def same_out_def split: option.splits intro: exI [of _ "[]"])
    show ?thesis
    proof (rule keeps_eq)
      show "keeps_at S (bindA (unlocked env Looking_up (best_csock env (send_labels q))) (\<lambda>match sk1.
        case find_locked (rl (incoming_irobs sk1)) i of
          None \<Rightarrow> returnA True sk1
        | Some _ \<Rightarrow> (case match of Some m \<Rightarrow> returnA True (csock_schedule m d RESEND_REQUESTS sk1) | None \<Rightarrow> returnA True sk1))) sk"
        by (intro keeps_bindA keeps_unlocked [OF env] after) (rule best_csock_out)
    qed (use False in \<open>simp add: delegate_resend_request_if_necessary_def\<close>)
  qed (intro keeps_return [of _ _ False], simp add: delegate_resend_request_if_necessary_def)
  have wr: "keeps S (writeA env (resend_msgs i req missing p) (sk_schedule d RESEND_REQUESTS))" for i req missing p
    by (intro keepsI keeps_writeA [OF env] ballI faithful_resend) (simp_all add: same_out_def)
  have go: "keeps_at S (bindA (case p of Some q \<Rightarrow> delegate_resend_request_if_necessary env c i q d | None \<Rightarrow> returnA False) (\<lambda>gone.
      if gone then returnA () else writeA env (resend_msgs i req missing p) (sk_schedule d RESEND_REQUESTS))) sk" for p i req missing sk
    by (intro keeps_bindA) (auto simp: del wr split: option.split)
  show ?thesis
    unfolding sender_resend_request_def Let_def
    by (intro keepsI, rule keeps_if [OF _ refl]) (rule keeps_return, rule refl, rule keeps_eq [OF _ go], rule refl)
qed

end

section \<open>Runs of a sending thread\<close>

text \<open>
  The other threads take the multisocket from one state of a run to a later one; what has been written
  was true in a state that lies between the first one and the present one.
\<close>

definition others_run :: "sender_env \<Rightarrow> bool" where
  "others_run env \<longleftrightarrow> (\<forall>at log sk. app_run log sk \<longrightarrow> (\<exists>log'. app_steps log sk log' (others env at sk)))"

definition told :: "app_log \<Rightarrow> msocket \<Rightarrow> app_log \<Rightarrow> msocket \<Rightarrow> control_hdr \<times> byte list \<Rightarrow> bool" where
  "told log0 sk0 log sk m \<longleftrightarrow> (\<exists>log1 s. app_steps log0 sk0 log1 s \<and> app_steps log1 s log sk \<and> faithful s m)"

definition thread_inv :: "app_log \<Rightarrow> msocket \<Rightarrow> app_log \<Rightarrow> wire \<Rightarrow> msocket \<Rightarrow> bool" where
  "thread_inv log0 sk0 log w sk \<longleftrightarrow> app_run log0 sk0 \<and> app_steps log0 sk0 log sk \<and> (\<forall>m\<in>set w. told log0 sk0 log sk m)"

lemma thread_inv_run: "thread_inv log0 sk0 log w sk \<Longrightarrow> app_run log sk"
  by (auto simp: thread_inv_def intro: app_steps_run)

lemma thread_inv_steps: "thread_inv log0 sk0 log w sk \<Longrightarrow> app_steps log sk log' sk' \<Longrightarrow> thread_inv log0 sk0 log' w sk'"
  unfolding thread_inv_def told_def by (meson app_steps_trans)

lemma thread_inv_step: "thread_inv log0 sk0 log w sk \<Longrightarrow> app_step log sk log' sk' \<Longrightarrow> thread_inv log0 sk0 log' w sk'"
  by (rule thread_inv_steps) (blast intro: steps_refl steps_next)+

lemma app_change_steps:
  assumes "sender_step\<^sup>*\<^sup>* p p'" and "id_ok i" and "find_locked (outgoing_irobs sk) i = Some p" and "\<not> placeholder p"
  shows "app_steps log sk log (sk\<lparr>outgoing_irobs := lat_update i (\<lambda>_. p') (outgoing_irobs sk)\<rparr>)"
  using assms
proof (induction rule: rtranclp_induct)
  case base
  then show ?case by (auto simp: lat_update_same intro: steps_refl)
next
  case (step q r)
  let ?sk = "sk\<lparr>outgoing_irobs := lat_update i (\<lambda>_. q) (outgoing_irobs sk)\<rparr>"
  have f: "find_locked (outgoing_irobs ?sk) i = Some q" using find_lat_update [OF step.prems(2)] by simp
  have "\<not> placeholder q" using steps_node [OF step.hyps(1)] step.prems(3) by (simp add: same_node_def)
  then show ?case
    by (rule steps_next [OF step.IH [OF step.prems] app_sends [OF step.prems(1) f _ step.hyps(2)]]) (simp add: lat_update_twice)
qed

interpretation sender: sender_thread others_run "thread_inv log0 sk0" for log0 sk0
proof
  show "out_run log sk" if "thread_inv log0 sk0 log w sk" for log w sk by (rule app_run_refines [OF thread_inv_run [OF that]])
  show "\<exists>log'. thread_inv log0 sk0 (log @ log') w (others env at sk)"
    if run: "others_run env" "thread_inv log0 sk0 log w sk" for env log w sk at
  proof -
    obtain log' where st: "app_steps log sk log' (others env at sk)"
      using run(1) thread_inv_run [OF run(2)] unfolding others_run_def by blast
    then show ?thesis using app_steps_log [OF st] thread_inv_steps [OF run(2) st] by auto
  qed
  show "thread_inv log0 sk0 log w sk'" if "thread_inv log0 sk0 log w sk" "same_out sk sk'" for log w sk sk'
    by (rule thread_inv_step [OF that(1) app_other]) (use that(2) in \<open>simp add: same_out_def\<close>)
  show "thread_inv log0 sk0 log w sk'"
    if "thread_inv log0 sk0 log w sk" "id_ok i" "find_locked (outgoing_irobs sk) i = Some p" "\<not> placeholder p" "sender_step\<^sup>*\<^sup>* p p'"
      "outgoing_irobs sk' = lat_update i (\<lambda>_. p') (outgoing_irobs sk)" for log w sk sk' i p p'
    by (rule thread_inv_step [OF thread_inv_steps [OF that(1) app_change_steps [OF that(5,2-4)]] app_other]) (simp add: that(6))
  show "thread_inv log0 sk0 log w (drop_irob i sk)" if "thread_inv log0 sk0 log w sk" "id_ok i" for log w sk i
    by (rule thread_inv_step [OF that(1) app_drops [OF that(2)]]) (simp add: drop_irob_def)
  show "thread_inv log0 sk0 log (w @ ms) sk" if "thread_inv log0 sk0 log w sk" "\<forall>m\<in>set ms. faithful sk m" for log w sk ms
    using that steps_refl unfolding thread_inv_def told_def set_append by blast
qed

text \<open>The calls of the main loop of a sending thread, with what they write.\<close>

inductive sender_call :: "sender_env \<Rightarrow> csock_ref \<Rightarrow> msocket \<Rightarrow> wire \<Rightarrow> msocket \<Rightarrow> bool" for env c where
  call_begin: "id_ok (sd_id d) \<Longrightarrow> sender_begin_irob env c d sk = Inr (r, w, sk') \<Longrightarrow> sender_call env c sk w sk'"
| call_chunk: "id_ok (sd_id d) \<Longrightarrow> sender_irob_chunk env c d ack sk = Inr (r, w, sk') \<Longrightarrow> sender_call env c sk w sk'"
| call_end: "id_ok (sd_id d) \<Longrightarrow> sender_end_irob env c d sk = Inr (r, w, sk') \<Longrightarrow> sender_call env c sk w sk'"
| call_data_check: "id_ok (sd_id d) \<Longrightarrow> send_data_check env c d sk = Inr (r, w, sk') \<Longrightarrow> sender_call env c sk w sk'"
| call_acks: "send_acks env c d pl sk = Inr (r, w, sk') \<Longrightarrow> sender_call env c sk w sk'"
| call_resend: "sender_resend_request env c d sk = Inr (r, w, sk') \<Longrightarrow> sender_call env c sk w sk'"
| call_new_interface: "new_interface env iface sk = Inr (r, w, sk') \<Longrightarrow> sender_call env c sk w sk'"
| call_down_interface: "down_interface env iface sk = Inr (r, w, sk') \<Longrightarrow> sender_call env c sk w sk'"
| call_goodbye: "goodbye env sk = Inr (r, w, sk') \<Longrightarrow> sender_call env c sk w sk'"

lemma kept:
  assumes "sender.keeps log0 sk0 {} m" and "thread_inv log0 sk0 log w sk" and "m sk = Inr (r, w', sk')"
  shows "\<exists>log'. thread_inv log0 sk0 (log @ log') (w @ w') sk'"
  by (rule sender.keeps_atD [OF sender.keeps_keeps_at [OF assms(1)] assms(2) _ assms(3)]) auto

lemma sender_call_kept:
  assumes "sender_call env c sk w' sk'" and "others_run env" and "thread_inv log0 sk0 log w sk"
  shows "\<exists>log'. thread_inv log0 sk0 (log @ log') (w @ w') sk'"
  using assms(1)
proof cases
  case (call_begin d r)
  show ?thesis by (rule kept [OF sender.keeps_begin_irob [OF assms(2) call_begin(1)] assms(3) call_begin(2)])
next
  case (call_chunk d ack r)
  show ?thesis by (rule kept [OF sender.keeps_irob_chunk [OF assms(2) call_chunk(1)] assms(3) call_chunk(2)])
next
  case (call_end d r)
  show ?thesis by (rule kept [OF sender.keeps_end_irob [OF assms(2) call_end(1)] assms(3) call_end(2)])
next
  case (call_data_check d r)
  show ?thesis by (rule kept [OF sender.keeps_data_check [OF assms(2) call_data_check(1)] assms(3) call_data_check(2)])
next
  case (call_acks d pl r)
  show ?thesis by (rule kept [OF sender.keeps_send_acks [OF assms(2)] assms(3) call_acks])
next
  case (call_resend d r)
  show ?thesis by (rule kept [OF sender.keeps_resend_request [OF assms(2)] assms(3) call_resend])
next
  case (call_new_interface iface r)
  show ?thesis by (rule kept [OF sender.keeps_simple_messages(1) [OF assms(2)] assms(3) call_new_interface])
next
  case (call_down_interface iface r)
  show ?thesis by (rule kept [OF sender.keeps_simple_messages(2) [OF assms(2)] assms(3) call_down_interface])
next
  case (call_goodbye r)
  show ?thesis by (rule kept [OF sender.keeps_simple_messages(3) [OF assms(2)] assms(3) call_goodbye])
qed

text \<open>The calls of a thread, with steps of the others in between.\<close>

inductive sender_calls :: "sender_env \<Rightarrow> csock_ref \<Rightarrow> msocket \<Rightarrow> wire \<Rightarrow> msocket \<Rightarrow> bool" for env c sk where
  calls_none: "sender_calls env c sk [] sk"
| calls_call: "sender_calls env c sk w sk1 \<Longrightarrow> sender_call env c sk1 w' sk2 \<Longrightarrow> sender_calls env c sk (w @ w') sk2"
| calls_others: "sender_calls env c sk w sk1 \<Longrightarrow> sender_calls env c sk w (others env at sk1)"

lemma sender_calls_kept:
  assumes "sender_calls env c sk w sk'" and env: "others_run env" and run: "app_run log sk"
  obtains log' where "thread_inv log sk (log @ log') w sk'"
proof -
  have "\<exists>log'. thread_inv log sk (log @ log') w sk'"
    using assms(1)
  proof (induction rule: sender_calls.induct)
    case calls_none
    show ?case using run by (intro exI [of _ "[]"]) (simp add: thread_inv_def steps_refl)
  next
    case (calls_call w sk1 w' sk2)
    then show ?case using sender_call_kept [OF calls_call.hyps(2) env] by (metis append.assoc)
  next
    case (calls_others w sk1 at)
    then show ?case using sender.others_keep [OF env] by (metis append.assoc)
  qed
  then show ?thesis using that by blast
qed

section \<open>Properties\<close>

text \<open>
  C21. The sending threads keep the order of the application: whatever a thread of a connection sends,
  delegates, drops or fails to write, and whatever the other threads do each time it gives up the lock,
  the outgoing IROBs stay in a state that a run of the lattice's operations reaches, in which
  the IROBs sent so far were inserted in the order of the calls, followed by those the application has
  sent meanwhile.
\<close>

theorem senders_keep_the_order:
  assumes "app_run log sk" and "others_run env" and "sender_calls env c sk w sk'"
  shows "\<exists>log' h. log_of h = log @ log' \<and> sender_run h (outgoing_irobs sk')"
proof (rule sender_calls_kept [OF assms(3,2,1)])
  fix log' assume "thread_inv log sk (log @ log') w sk'"
  from app_run_refines [OF thread_inv_run [OF this]] show ?thesis by (auto simp: out_run_def)
qed

text \<open>
  C22. Every message about an IROB that a thread writes, or tries to write, is true: in a state \<open>s\<close> between
  the beginning and the end of the run an IROB that the application had sent was pending, and the message is its
  announcement with its labels and dependencies, or one of its numbered chunks with the bytes of its data that
  belong there, or its end with the number of its bytes and chunks.
\<close>

theorem written_messages_are_true:
  assumes "app_run log sk" and "others_run env" and "sender_calls env c sk w sk'" and "m \<in> set w" and "about_irob (hdr_op (fst m))"
  shows "\<exists>log1 s log' i p. app_steps log sk log1 s \<and> app_steps log1 s log' sk' \<and> i \<in> fst ` set log1 \<and>
    find_locked (outgoing_irobs s) i = Some p \<and> pi_id p = i \<and> sender_ok p \<and>
    (m = begin_msg p \<or> m = end_msg p \<or> (\<exists>k<length (sent_chunks p). m = sent_chunk_msg p k))"
proof (rule sender_calls_kept [OF assms(3,2,1)])
  fix log' assume "thread_inv log sk (log @ log') w sk'"
  then obtain log1 s where s: "app_steps log sk log1 s" "app_steps log1 s (log @ log') sk'" "faithful s m"
    using assms(4) by (auto simp: thread_inv_def told_def)
  then obtain i p where p: "id_ok i" "find_locked (outgoing_irobs s) i = Some p" "\<not> placeholder p" "m \<in> irob_msgs p"
    using assms(5) by (auto simp: faithful_def)
  have "i \<in> fst ` set log1" "sender_ok p" "pi_id p = i"
    using out_run_sent [OF app_run_refines [OF app_steps_run [OF s(1) assms(1)]] p(1,2)] p(3) by auto
  moreover have "m = begin_msg p \<or> m = end_msg p \<or> (\<exists>k<length (sent_chunks p). m = sent_chunk_msg p k)"
    using p(4) by (auto simp: irob_msgs_def)
  ultimately show ?thesis using s(1,2) p(2) by blast
qed

text \<open>After a first IROB with data and a label for foreground data, the wifi connection sends all of it at once.\<close>

definition demo_env :: sender_env where
  "demo_env = \<lparr>sys = demo_sys, others = (\<lambda>_ sk. sk), written = (\<lambda>_. True), clock = tv 5 0, bw_estimate = None, last_fg_sec = 0,
     bytes_inflight = 0, ack_qdelay = tv 0 0, resume_op = 0\<rparr>"

definition demo_sender :: msocket where
  "demo_sender = two_csocks 100 50 (LabelMatcher new_label_matcher)"

definition demo_send :: "(app_outcome \<times> msocket \<times> bool option \<times> wire \<times> msocket) result" where
  "demo_send = bindE (default_irob demo_sys (tv 0 0) 0 [7] CMM_LABEL_ONDEMAND None 0 demo_sender)
     (\<lambda>(r1, sk1). bindE (sender_begin_irob demo_env 1 (sched_work 0 False CMM_LABEL_ONDEMAND) sk1) (\<lambda>(r, w, sk2). Inr (r1, sk1, r, w, sk2)))"

lemma demo_send_evaluates:
  "case demo_send of
     Inr (r1, sk1, r, w, sk2) \<Rightarrow> (case r1 of Returns rc \<Rightarrow> rc = 1 | _ \<Rightarrow> False) \<and> r = Some True \<and>
       map (\<lambda>(h, dat). (about_irob (hdr_op h), dat)) w = [(True, []), (True, [7]), (True, [])]
   | Inl _ \<Rightarrow> False"
  by code_simp

lemma demo_send_calls:
  assumes "default_irob demo_sys (tv 0 0) 0 [7] CMM_LABEL_ONDEMAND None 0 demo_sender = Inr (Returns 1, sk1)"
    and "sender_begin_irob demo_env 1 (sched_work 0 False CMM_LABEL_ONDEMAND) sk1 = Inr (r, w, sk2)"
  shows "app_run [(0, True)] sk1" "others_run demo_env" "sender_calls demo_env 1 sk1 w sk2"
proof -
  have "app_run [] demo_sender" by (rule app_start) (simp add: demo_sender_def two_csocks_def Let_def)
  from app_next [OF this app_default [OF _ _ assms(1)]] show "app_run [(0, True)] sk1" by (simp add: id_ok_def logged_def)
  have "sender_call demo_env 1 sk1 w sk2" by (rule call_begin [OF _ assms(2)]) (simp add: sched_work_def id_ok_def)
  from calls_call [OF calls_none this] show "sender_calls demo_env 1 sk1 w sk2" by simp
  show "others_run demo_env" using steps_refl by (auto simp: others_run_def demo_env_def)
qed

lemma demo_sends:
  obtains sk1 sk2 h1 h2 h3 where "app_run [(0, True)] sk1" "others_run demo_env"
    "sender_calls demo_env 1 sk1 [(h1, []), (h2, [7]), (h3, [])] sk2" "about_irob (hdr_op h2)"
proof -
  obtain sk1 r w sk2 where sk: "default_irob demo_sys (tv 0 0) 0 [7] CMM_LABEL_ONDEMAND None 0 demo_sender = Inr (Returns 1, sk1)"
    "sender_begin_irob demo_env 1 (sched_work 0 False CMM_LABEL_ONDEMAND) sk1 = Inr (r, w, sk2)"
    "map (\<lambda>(h, dat). (about_irob (hdr_op h), dat)) w = [(True, []), (True, [7]), (True, [])]"
    using demo_send_evaluates by (auto simp: demo_send_def bindE_def split: sum.splits app_outcome.splits)
  then obtain h1 h2 h3 where w: "w = [(h1, []), (h2, [7]), (h3, [])]" "about_irob (hdr_op h2)" by (auto simp: map_eq_Cons_conv)
  note calls = demo_send_calls [OF sk(1,2)]
  show ?thesis using that calls w by blast
qed

theorem senders_keep_the_order_witness:
  "\<exists>sk1 w sk2 log' h. app_run [(0, True)] sk1 \<and> sender_calls demo_env 1 sk1 w sk2 \<and> length w = 3 \<and>
     log_of h = [(0, True)] @ log' \<and> sender_run h (outgoing_irobs sk2)"
proof (rule demo_sends)
  fix sk1 sk2 h1 h2 h3
  let ?w = "[(h1, []), (h2, [7]), (h3, [])] :: wire"
  assume d: "app_run [(0, True)] sk1" "others_run demo_env" "sender_calls demo_env 1 sk1 ?w sk2"
  from senders_keep_the_order [OF d] obtain log' h where "log_of h = [(0, True)] @ log'" "sender_run h (outgoing_irobs sk2)" by blast
  with d(1,3) show ?thesis by (intro exI [of _ sk1] exI [of _ ?w] exI [of _ sk2] exI [of _ log'] exI [of _ h]) simp
qed

theorem written_messages_are_true_witness:
  "\<exists>sk1 w sk2 h (s :: msocket) p. sender_calls demo_env 1 sk1 w sk2 \<and> (h, [7]) \<in> set w \<and> find_locked (outgoing_irobs s) (pi_id p) = Some p \<and>
     (\<exists>k. (h, [7]) = sent_chunk_msg p k)"
proof (rule demo_sends)
  fix sk1 sk2 h1 h2 h3
  let ?w = "[(h1, []), (h2, [7]), (h3, [])] :: wire"
  assume d: "app_run [(0, True)] sk1" "others_run demo_env" "sender_calls demo_env 1 sk1 ?w sk2" "about_irob (hdr_op h2)"
  have mem: "(h2, [7]) \<in> set ?w" by simp
  obtain s :: msocket and i p where p: "find_locked (outgoing_irobs s) i = Some p" "pi_id p = i" "sender_ok p"
    "(h2, [7]) = begin_msg p \<or> (h2, [7]) = end_msg p \<or> (\<exists>k<length (sent_chunks p). (h2, [7]) = sent_chunk_msg p k)"
    using written_messages_are_true [OF d(1-3) mem] d(4) unfolding fst_conv by blast
  have "(h2, [7]) \<noteq> begin_msg p"
  proof
    assume "(h2, [7]) = begin_msg p"
    then have "[7] = concat (map (le_bytes 8) (copy_deps_htonl p))" by (simp add: begin_msg_def)
    from arg_cong [OF this, of length] have "length (concat (map (le_bytes 8) (copy_deps_htonl p))) = 1" by simp
    moreover have "8 dvd length (concat (map (le_bytes 8) ds))" for ds by (induction ds) simp_all
    from this [of "copy_deps_htonl p"] have "8 dvd length (concat (map (le_bytes 8) (copy_deps_htonl p)))" .
    ultimately show False by (metis nat_dvd_1_iff_1 numeral_eq_one_iff semiring_norm(85))
  qed
  moreover have "(h2, [7]) \<noteq> end_msg p" by (simp add: end_msg_def)
  ultimately have "\<exists>k. (h2, [7]) = sent_chunk_msg p k" using p(4) by blast
  then show ?thesis using d(3) p(1,2) by (intro exI [of _ sk1] exI [of _ ?w] exI [of _ sk2] exI [of _ h2] exI [of _ s] exI [of _ p]) simp
qed

text \<open>
  C36. An acknowledgement that waits is taken from its index before a chunk is sent, to go with that
  chunk. When there is nothing to send because the IROB of the chunk has been acknowledged meanwhile, nothing is
  written, but the acknowledgement is not put back: it is lost.
\<close>

theorem piggybacked_ack_is_lost:
  assumes "pop_index WAITING_ACKS (get_indexes pl c sk) = Some (a, ix)"
    and "find_locked (outgoing_irobs sk) (sd_id d) = None" and "\<not> has_label (sd_labels d) CMM_LABEL_BACKGROUND"
  shows "chunk_with_ack env pl c d sk = Inr (Some True, [], put_indexes pl c ix sk)"
proof -
  have "outgoing_irobs (put_indexes pl c ix sk) = outgoing_irobs sk" using put_indexes_out by (simp add: same_out_def)
  then have gone: "find_locked (outgoing_irobs (put_indexes pl c ix sk)) (sd_id d) = None" using assms(2) by simp
  then show ?thesis
    using assms(1,3) by (auto simp: chunk_with_ack_def popA_def sender_irob_chunk_def chunk_size_def bindA_def returnA_def
        delegate_if_necessary_def)
qed

theorem piggybacked_ack_is_lost_witness:
  "let d = sched_work 4 True 0; a = sched_work 3 False 0;
       sk = (two_csocks 100 50 (LabelMatcher new_label_matcher))\<lparr>irob_indexes := empty_indexes\<lparr>waiting_acks := [a]\<rparr>\<rparr>
   in \<exists>sk'. chunk_with_ack demo_env Of_socket 1 d sk = Inr (Some True, [], sk') \<and> waiting_acks (irob_indexes sk') = []"
proof -
  let ?sk = "(two_csocks 100 50 (LabelMatcher new_label_matcher))\<lparr>irob_indexes := empty_indexes\<lparr>waiting_acks := [sched_work 3 False 0]\<rparr>\<rparr>"
  have "pop_index WAITING_ACKS (get_indexes Of_socket 1 ?sk) = Some (sched_work 3 False 0, empty_indexes)"
    "find_locked (outgoing_irobs ?sk) (sd_id (sched_work 4 True 0)) = None"
    "\<not> has_label (sd_labels (sched_work 4 True 0)) CMM_LABEL_BACKGROUND"
    by code_simp+
  from piggybacked_ack_is_lost [OF this, of demo_env] show ?thesis by (simp add: empty_indexes_def)
qed

end
