(* ===== verification/CSocket_Receiver.thy ===== *)
theory CSocket_Receiver
  imports Multisocket
begin

text \<open>
  csocket_receiver.cpp: the thread of a connection that reads control messages and changes the
  multisocket. A handler gets the header as it arrived and the bytes that follow it on the connection;
  these are all the bytes the connection will deliver, so that a read beyond them is the error or end
  of stream that the source answers with \<^verbatim>\<open>CMMControlException\<close>. The current time is an argument.
\<close>

section \<open>Reading from the connection\<close>

definition read_bytes :: "nat \<Rightarrow> byte list \<Rightarrow> (byte list \<times> byte list) option" where
  "read_bytes count input =
     (if count \<le> length input then Some (take count input, drop count input) else None)"

text \<open>An array of \<^verbatim>\<open>irob_id_t\<close>: 64-bit little-endian numbers.\<close>

definition long_of_bytes :: "byte list \<Rightarrow> int" where
  "long_of_bytes bs = to_long (foldr (\<lambda>b acc. uint b + 256 * acc) bs 0)"

fun longs_of_bytes :: "nat \<Rightarrow> byte list \<Rightarrow> int list" where
  "longs_of_bytes 0 bs = []"
| "longs_of_bytes (Suc n) bs = long_of_bytes (take sizeof_irob_id bs) # longs_of_bytes n (drop sizeof_irob_id bs)"

text \<open>
  The null pointer that \<^verbatim>\<open>read_deps_array\<close> returns when there are no dependencies is \<open>None\<close>. The
  length of the array is narrowed to an \<^verbatim>\<open>int\<close>: for a negative length \<^verbatim>\<open>read_bytes\<close> returns at
  once, and where the length has lost its upper bits a part of the array is left uninitialised.
\<close>

definition read_deps_array :: "int \<Rightarrow> byte list \<Rightarrow> (int list option \<times> byte list) result" where
  "read_deps_array numdeps input =
     (if numdeps > 0
      then let len = to_int (numdeps * int sizeof_irob_id)
           in if len < 0 then Inl ControlException
              else case read_bytes (nat len) input of
                     None \<Rightarrow> Inl ControlException
                   | Some (bs, rest) \<Rightarrow>
                       if len \<noteq> numdeps * int sizeof_irob_id then Inl OutOfBounds
                       else Inr (Some (map ntohl (longs_of_bytes (nat numdeps) bs)), rest)
      else Inr (None, input))"

definition read_data_buffer :: "int \<Rightarrow> byte list \<Rightarrow> (byte list \<times> byte list) result" where
  "read_data_buffer len input =
     (if len \<le> 0 then Inl ControlException
      else case read_bytes (nat len) input of None \<Rightarrow> Inl ControlException | Some r \<Rightarrow> Inr r)"

section \<open>Handlers\<close>

definition schedule_ack :: "csock_ref \<Rightarrow> irob_id_t \<Rightarrow> timeval option \<Rightarrow> msocket \<Rightarrow> msocket" where
  "schedule_ack c i now sk =
     (let t = (case now of Some t \<Rightarrow> t | None \<Rightarrow> tv 0 0)
      in update_csock c (\<lambda>cs. cs\<lparr>csk_indexes := indexes_insert (csk_indexes cs) (sched_ack i t 0) WAITING_ACKS\<rparr>) sk)"

text \<open>
  The end of the three IROB handlers: the IROB is released if it can be, and acknowledged when it is
  complete.
\<close>

definition release_and_ack :: "csock_ref \<Rightarrow> timeval \<Rightarrow> irob_id_t \<Rightarrow> msocket \<Rightarrow> msocket result" where
  "release_and_ack c now i sk =
     bindE (release_if_ready i (incoming_irobs sk)) (\<lambda>R.
       case find_locked (rl R) i of
         None \<Rightarrow> Inl OutOfBounds
       | Some p \<Rightarrow> bindE (is_complete p) (\<lambda>done.
           let sk1 = sk\<lparr>incoming_irobs := R\<rparr>
           in Inr (if done \<and> \<not> placeholder p then schedule_ack c i (Some now) sk1 else sk1)))"

definition do_begin_irob ::
  "csock_ref \<Rightarrow> timeval \<Rightarrow> control_hdr \<Rightarrow> byte list \<Rightarrow> msocket \<Rightarrow> (byte list \<times> msocket) result" where
  "do_begin_irob c now hdr input sk =
     (case hdr_op hdr of
        Begin_IROB nid ndeps \<Rightarrow>
          let i = ntohl nid; numdeps = to_int (ntohl ndeps)
          in bindE (read_deps_array numdeps input) (\<lambda>(deps_array, rest).
               bindE (new_receiver_irob i (nat numdeps) deps_array 0 None (word_of_int (ntohl (hdr_labels hdr)))) (\<lambda>p.
               bindE (insert_locked receiver_placeholder receiver_subsume False p (rl (incoming_irobs sk))) (\<lambda>(ok, L).
                 let sk1 = sk\<lparr>incoming_irobs := (incoming_irobs sk)\<lparr>rl := L\<rparr>\<rparr>
                 in if \<not> ok then Inr (rest, sk1)
                    else bindE (release_and_ack c now i sk1) (\<lambda>sk2. Inr (rest, sk2)))))
      | _ \<Rightarrow> Inl AssertFailed)"

text \<open>The IROB with the given id, or a placeholder made for it.\<close>

definition find_or_placeholder :: "irob_id_t \<Rightarrow> receiver_irob lattice \<Rightarrow> receiver_irob lattice result" where
  "find_or_placeholder i L =
     (case find_locked L i of
        Some _ \<Rightarrow> Inr L
      | None \<Rightarrow> bindE (insert_locked receiver_placeholder receiver_subsume False (receiver_placeholder i) L)
                 (\<lambda>(ok, L'). ASSERT ok (Inr L')))"

text \<open>The code that chooses a resend request in \<^verbatim>\<open>do_end_irob\<close> has no effect: the request is
  switched off before it is used.\<close>

definition do_end_irob :: "csock_ref \<Rightarrow> timeval \<Rightarrow> control_hdr \<Rightarrow> msocket \<Rightarrow> msocket result" where
  "do_end_irob c now hdr sk =
     (case hdr_op hdr of
        End_IROB nid nbytes nchunks \<Rightarrow>
          let i = ntohl nid; L = rl (incoming_irobs sk)
          in if find_locked L i = None \<and> past_irob_exists L i then Inr (schedule_ack c i None sk)
             else bindE (find_or_placeholder i L) (\<lambda>L1.
                    case find_locked L1 i of
                      None \<Rightarrow> Inl AssertFailed
                    | Some p \<Rightarrow> bindE (receiver_finish (ntohl nbytes) (to_int (ntohl nchunks)) p) (\<lambda>(_, p1).
                        release_and_ack c now i
                          (sk\<lparr>incoming_irobs := (incoming_irobs sk)\<lparr>rl := lat_update i (\<lambda>_. p1) L1\<rparr>\<rparr>)))
      | _ \<Rightarrow> Inl AssertFailed)"

definition do_irob_chunk ::
  "csock_ref \<Rightarrow> timeval \<Rightarrow> control_hdr \<Rightarrow> byte list \<Rightarrow> msocket \<Rightarrow> (byte list \<times> msocket) result" where
  "do_irob_chunk c now hdr input sk =
     (case hdr_op hdr of
        IROB_chunk nid nseqno noffset ndatalen \<Rightarrow>
          let i = ntohl nid; dlen = to_int (ntohl ndatalen); labels = word_of_int (ntohl (hdr_labels hdr))
          in bindE (read_data_buffer dlen input) (\<lambda>(buf, rest).
             bindE (csock_update_net_restriction_stats c labels 0 (nat dlen) sk) (\<lambda>sk0.
               let L = rl (incoming_irobs sk0)
               in if find_locked L i = None \<and> past_irob_exists L i then Inr (rest, sk0)
                  else bindE (find_or_placeholder i L) (\<lambda>L1.
                    let chunk = \<lparr>ck_id = i, seqno = nat (ntohl nseqno), ck_offset = nat (ntohl noffset),
                                 datalen = nat (ntohl ndatalen), data = Some buf\<rparr>
                    in case find_locked L1 i of
                         None \<Rightarrow> Inl AssertFailed
                       | Some p \<Rightarrow> bindE (receiver_add_chunk chunk p) (\<lambda>(ok, p1).
                           bindE (if ok then Inr () else bindE (is_complete p1) (\<lambda>done. if done then Inr () else Inl FatalError)) (\<lambda>_.
                             bindE (release_and_ack c now i
                               (sk0\<lparr>incoming_irobs := (incoming_irobs sk0)\<lparr>rl := lat_update i (\<lambda>_. p1) L1\<rparr>\<rparr>))
                               (\<lambda>sk1. Inr (rest, sk1)))))))
      | _ \<Rightarrow> Inl AssertFailed)"

definition do_request_resend :: "control_hdr \<Rightarrow> msocket \<Rightarrow> msocket result" where
  "do_request_resend hdr sk =
     (case hdr_op hdr of
        Resend_Request nid request sq next_chunk \<Rightarrow>
          resend_request_received (ntohl nid) (word_of_int (ntohl request)) (nat (ntohl sq))
            (to_int (ntohl next_chunk)) sk
      | _ \<Rightarrow> Inl AssertFailed)"

definition do_data_check :: "control_hdr \<Rightarrow> msocket \<Rightarrow> msocket result" where
  "do_data_check hdr sk =
     (case hdr_op hdr of
        Data_Check nid \<Rightarrow> Inr (data_check_requested (ntohl nid) sk)
      | _ \<Rightarrow> Inl AssertFailed)"

end
