(* ===== verification/Receiver_Inv.thy ===== *)
theory Receiver_Inv
  imports Receiver_IROB Chunks
begin

text \<open>
  What the receiver's operations on a single IROB do: reading and removing bytes follow the byte
  stream of the IROB, and chunks that arrive in any order, some of them more than once, are put together
  to what the sender sent.
\<close>

section \<open>Reading follows the byte stream\<close>

definition content :: "receiver_irob \<Rightarrow> byte list" where
  "content p = (case data (partial_chunk p) of Some d \<Rightarrow> drop (rd_offset p) d | None \<Rightarrow> []) @ app_bytes (chunks p)"

definition readable :: "receiver_irob \<Rightarrow> bool" where
  "readable p \<longleftrightarrow> (\<forall>c\<in>set (chunks p). filled c) \<and>
     (\<forall>d. data (partial_chunk p) = Some d \<longrightarrow> length d = datalen (partial_chunk p) \<and> rd_offset p < datalen (partial_chunk p)) \<and>
     rnum_bytes p = int (length (content p))"

text \<open>What reading leaves alone.\<close>

definition read_frame :: "receiver_irob \<Rightarrow> receiver_irob \<Rightarrow> bool" where
  "read_frame p p' \<longleftrightarrow> pi_id p' = pi_id p \<and> send_labels p' = send_labels p \<and> deps p' = deps p \<and>
     dependents p' = dependents p \<and> anonymous p' = anonymous p \<and> complete p' = complete p \<and>
     placeholder p' = placeholder p \<and> expected_bytes p' = expected_bytes p \<and>
     expected_chunks p' = expected_chunks p \<and> recvd_bytes p' = recvd_bytes p \<and>
     recvd_chunks p' = recvd_chunks p \<and> released p' = released p"

lemma content_rnum_bytes [simp]: "content (p\<lparr>rnum_bytes := n\<rparr>) = content p"
  by (simp add: content_def split: option.split)

lemma copy_chunks_eq:
  "\<forall>c\<in>set cs. filled c \<Longrightarrow> copy_chunks len cs = take len (app_bytes cs)"
proof (induction len cs rule: copy_chunks.induct)
  case (2 len c cs)
  obtain d where d: "data c = Some d" "length d = datalen c" using 2(2) by (auto simp: filled_def)
  show ?case
  proof (cases "len > 0")
    case True
    have "copy_chunks (len - min len (datalen c)) cs = take (len - min len (datalen c)) (app_bytes cs)"
      using 2(1) [OF True refl] 2(2) by simp
    then show ?thesis using True d by (cases "len \<le> datalen c") (simp_all add: Let_def)
  qed simp
qed simp

lemma read_data_take:
  assumes "readable p" and "0 < len"
  shows "read_data len p = Inr (take len (content p))"
proof -
  have f: "\<forall>c\<in>set (chunks p). filled c" using assms(1) by (simp add: readable_def)
  show ?thesis
  proof (cases "data (partial_chunk p)")
    case None
    then show ?thesis using copy_chunks_eq [OF f] by (simp add: read_data_def content_def)
  next
    case (Some d)
    then have d: "length d = datalen (partial_chunk p)" "rd_offset p < datalen (partial_chunk p)"
      using assms(1) by (auto simp: readable_def)
    let ?n = "datalen (partial_chunk p) - rd_offset p"
    have "take (min len ?n) (drop (rd_offset p) d) = take len (drop (rd_offset p) d)"
      using d(1) by (cases "len \<le> ?n") simp_all
    then show ?thesis
      using Some d assms(2) copy_chunks_eq [OF f]
      by (cases "len \<le> ?n") (simp_all add: read_data_def content_def Let_def)
  qed
qed

lemma remove_loop_spec:
  assumes "\<forall>c\<in>set cs. filled c" and "len = 0 \<or> data (partial_chunk p) = None"
    and "remove_loop len removed p cs = (removed', p')"
  shows "removed' = removed + min len (length (app_bytes cs)) \<and> read_frame p p' \<and>
    rnum_bytes p' = rnum_bytes p \<and> (\<forall>c\<in>set (chunks p'). filled c) \<and>
    (len = 0 \<longrightarrow> p' = p\<lparr>chunks := cs\<rparr>) \<and>
    (len > 0 \<longrightarrow> content p' = drop len (app_bytes cs) \<and>
      (\<forall>d. data (partial_chunk p') = Some d \<longrightarrow>
        length d = datalen (partial_chunk p') \<and> rd_offset p' < datalen (partial_chunk p')))"
  using assms
proof (induction len removed p cs arbitrary: removed' p' rule: remove_loop.induct)
  case (1 len removed p)
  then show ?case by (auto simp: read_frame_def content_def)
next
  case (2 len removed p c cs)
  obtain d where d: "data c = Some d" "length d = datalen c" using 2(2) by (auto simp: filled_def)
  show ?case
  proof (cases "len > 0")
    case False
    then show ?thesis using 2 by (auto simp: read_frame_def)
  next
    case True
    then have none: "data (partial_chunk p) = None" using 2(3) by simp
    let ?b = "min len (datalen c)"
    let ?p1 = "if datalen c > len then p\<lparr>rd_offset := ?b, partial_chunk := c\<rparr> else p"
    have rl: "remove_loop (len - ?b) (removed + ?b) ?p1 cs = (removed', p')" using 2(4) True by (simp add: Let_def)
    have pre: "len - ?b = 0 \<or> data (partial_chunk ?p1) = None" using none by auto
    note IH = 2(1) [OF True refl refl _ pre rl]
    have fs: "\<forall>c\<in>set cs. filled c" using 2(2) by simp
    have fr: "read_frame p ?p1" "rnum_bytes ?p1 = rnum_bytes p" by (auto simp: read_frame_def)
    have tr: "read_frame ?p1 p' \<Longrightarrow> read_frame p p'" using fr(1) by (simp add: read_frame_def)
    show ?thesis
    proof (cases "len < datalen c")
      case True
      then have p': "p' = (p\<lparr>rd_offset := len, partial_chunk := c\<rparr>)\<lparr>chunks := cs\<rparr>"
        and r: "removed' = removed + len" using IH fs by auto
      then show ?thesis using True d 2(2) \<open>len > 0\<close>
        by (auto simp: read_frame_def content_def)
    next
      case False
      then have b: "?b = datalen c" by simp
      show ?thesis
      proof (cases "len - datalen c = 0")
        case True
        then have p': "p' = p\<lparr>chunks := cs\<rparr>" and r: "removed' = removed + datalen c" using IH fs False by auto
        then show ?thesis using True d 2(2) False none \<open>len > 0\<close> by (auto simp: read_frame_def content_def)
      next
        case long: False
        then have pos: "0 < len - datalen c" by simp
        have p1: "?p1 = p" using False by simp
        note IH2 = IH [unfolded p1, unfolded b, OF fs]
        have "removed' = removed + datalen c + min (len - datalen c) (length (app_bytes cs))"
          "read_frame p p'" "rnum_bytes p' = rnum_bytes p" "\<forall>c\<in>set (chunks p'). filled c"
          "content p' = drop (len - datalen c) (app_bytes cs)"
          "\<forall>d. data (partial_chunk p') = Some d \<longrightarrow>
            length d = datalen (partial_chunk p') \<and> rd_offset p' < datalen (partial_chunk p')"
          using IH2 pos by - blast+
        moreover have "removed + datalen c + min (len - datalen c) (length (app_bytes cs)) =
            removed + min len (length (app_bytes (c # cs)))" using d pos by simp
        moreover have "drop len (app_bytes (c # cs)) = drop (len - datalen c) (app_bytes cs)"
          using d False by simp
        ultimately show ?thesis using \<open>len > 0\<close> by simp
      qed
    qed
  qed
qed

lemma remove_bytes_drop:
  assumes r: "readable p" and len: "0 < len" "len \<le> length (content p)"
  obtains p' where "remove_bytes len p = Inr p'" "content p' = drop len (content p)" "readable p'" "read_frame p p'"
proof -
  have f: "\<forall>c\<in>set (chunks p). filled c" using r by (simp add: readable_def)
  show ?thesis
  proof (cases "data (partial_chunk p)")
    case None
    obtain rem p2 where l: "remove_loop len 0 p (chunks p) = (rem, p2)" by fastforce
    have c: "content p = app_bytes (chunks p)" using None by (simp add: content_def)
    note sp = remove_loop_spec [OF f _ l]
    let ?p' = "p2\<lparr>rnum_bytes := rnum_bytes p2 - int rem\<rparr>"
    have "content ?p' = content p2" by simp
    moreover have "readable ?p'"
      using sp None len r c unfolding readable_def by (auto simp: calculation)
    moreover have "read_frame p ?p'" using sp None by (simp add: read_frame_def)
    ultimately show ?thesis using that [of ?p'] sp None len(1) c l by (simp add: remove_bytes_def)
  next
    case (Some d)
    then have d: "length d = datalen (partial_chunk p)" "rd_offset p < datalen (partial_chunk p)"
      using r by (auto simp: readable_def)
    let ?n = "datalen (partial_chunk p) - rd_offset p"
    let ?b = "min len ?n"
    let ?p1 = "if len \<ge> ?n then p\<lparr>partial_chunk := (partial_chunk p)\<lparr>data := None, datalen := 0\<rparr>, rd_offset := 0\<rparr>
      else p\<lparr>rd_offset := rd_offset p + ?b\<rparr>"
    have ch: "chunks ?p1 = chunks p" "rnum_bytes ?p1 = rnum_bytes p" by simp_all
    have fr1: "read_frame p ?p1" by (simp add: read_frame_def)
    obtain rem p2 where l: "remove_loop (len - ?b) ?b ?p1 (chunks ?p1) = (rem, p2)" by fastforce
    have pre: "len - ?b = 0 \<or> data (partial_chunk ?p1) = None" by auto
    have f1: "\<forall>c\<in>set (chunks ?p1). filled c" using f by simp
    note sp = remove_loop_spec [OF f1 pre l, unfolded ch]
    let ?p' = "p2\<lparr>rnum_bytes := rnum_bytes p2 - int rem\<rparr>"
    have rb: "remove_bytes len p = Inr ?p'" using Some len d l by (simp add: remove_bytes_def Let_def)
    have c: "content p = drop (rd_offset p) d @ app_bytes (chunks p)" using Some by (simp add: content_def)
    have c2: "content p2 = drop len (content p) \<and> (\<forall>e. data (partial_chunk p2) = Some e \<longrightarrow>
        length e = datalen (partial_chunk p2) \<and> rd_offset p2 < datalen (partial_chunk p2))"
    proof (cases "len > ?n")
      case True
      then show ?thesis using sp d by (simp add: c)
    next
      case False
      then have p2: "p2 = ?p1\<lparr>chunks := chunks p\<rparr>" using sp by simp
      then show ?thesis using False Some d by (cases "len = ?n") (auto simp: content_def add.commute less_diff_conv)
    qed
    have rem: "rem = len" using sp len(2) d by (cases "len \<le> ?n") (simp_all add: c)
    have "content ?p' = content p2" by simp
    moreover have "readable ?p'"
      using sp c2 len(2) r rem unfolding readable_def by (auto simp: calculation)
    moreover have "read_frame p ?p'" using sp fr1 by (simp add: read_frame_def)
    ultimately show ?thesis using that [OF rb] c2 by simp
  qed
qed

section \<open>Chunks in any order\<close>

text \<open>\<open>cs\<close> are the chunks a sender cut the IROB into, with their data, in order.\<close>

definition sent_list :: "irob_chunk_data list \<Rightarrow> bool" where
  "sent_list cs \<longleftrightarrow> (\<forall>k<length cs. seqno (cs ! k) = k) \<and> (\<forall>c\<in>set cs. filled c) \<and> length cs < 2 ^ 31"

definition arrived :: "receiver_irob \<Rightarrow> nat set" where
  "arrived p = {k. k < length (chunks p) \<and> data (chunks p ! k) \<noteq> None}"

text \<open>The IROB has some of the chunks of \<open>cs\<close> and holes elsewhere, and its counts agree.\<close>

definition fed :: "irob_chunk_data list \<Rightarrow> receiver_irob \<Rightarrow> bool" where
  "fed cs p \<longleftrightarrow>
     length (chunks p) \<le> length cs \<and>
     (\<forall>k<length (chunks p). chunks p ! k = cs ! k \<or> chunks p ! k = empty_chunk) \<and>
     recvd_chunks p = int (card (arrived p)) \<and>
     recvd_bytes p = int (\<Sum>k\<in>arrived p. datalen (cs ! k)) \<and> rnum_bytes p = recvd_bytes p \<and>
     data (partial_chunk p) = None \<and>
     (if complete p then expected_bytes p = int (tot_len cs) \<and> expected_chunks p = int (length cs)
      else expected_bytes p = -1 \<and> expected_chunks p = -1)"

lemma data_empty_chunk [simp]: "data empty_chunk = None"
  by (simp add: empty_chunk_def)

lemma tot_len_sum: "tot_len cs = (\<Sum>k<length cs. datalen (cs ! k))"
  by (simp add: sum_list_sum_nth atLeast0LessThan)

lemma arrived_subset: "fed cs p \<Longrightarrow> arrived p \<subseteq> {..<length cs}"
  by (auto simp: fed_def arrived_def)

lemma finite_arrived [simp]: "finite (arrived p)"
  by (rule finite_subset [of _ "{..<length (chunks p)}"]) (auto simp: arrived_def)

lemma fed_is_complete:
  assumes "sent_list cs" and "fed cs p"
  shows "is_complete p = Inr (complete p \<and> arrived p = {..<length cs})"
proof -
  note sub = arrived_subset [OF assms(2)]
  have card_le: "card (arrived p) \<le> length cs" using card_mono [OF _ sub] by simp
  have bytes_le: "(\<Sum>k\<in>arrived p. datalen (cs ! k)) \<le> tot_len cs"
    unfolding tot_len_sum by (rule sum_mono2) (use sub in auto)
  show ?thesis
  proof (cases "complete p")
    case False
    then show ?thesis using assms(2) by (simp add: is_complete_def fed_def)
  next
    case True
    then have e: "expected_bytes p = int (tot_len cs)" "expected_chunks p = int (length cs)"
      "recvd_chunks p = int (card (arrived p))" "recvd_bytes p = int (\<Sum>k\<in>arrived p. datalen (cs ! k))"
      using assms(2) by (auto simp: fed_def)
    have le: "length (chunks p) \<le> length cs" using assms(2) by (simp add: fed_def)
    have "all_chunks_complete p" if "arrived p = {..<length cs}"
      unfolding all_chunks_complete_def list_all_length
    proof (intro allI impI)
      fix j assume "j < length (chunks p)"
      then have "j \<in> arrived p" using le that by simp
      then show "data (chunks p ! j) \<noteq> None" by (simp add: arrived_def)
    qed
    note all = this
    show ?thesis
    proof (cases "arrived p = {..<length cs}")
      case full: True
      then show ?thesis using True all by (simp add: is_complete_def e full tot_len_sum)
    next
      case False
      then have "card (arrived p) \<noteq> length cs" using card_subset_eq [OF _ sub] by auto
      then show ?thesis using card_le bytes_le False by (simp add: is_complete_def e del: of_nat_sum)
    qed
  qed
qed

lemma fed_content:
  assumes "sent_list cs" and "fed cs p" and "arrived p = {..<length cs}"
  shows "content p = app_bytes cs" and "readable p"
proof -
  have "length (chunks p) = length cs"
    using assms(2,3) unfolding fed_def arrived_def
    by (metis (mono_tags, lifting) le_antisym lessThan_iff linorder_not_less mem_Collect_eq order_refl)
  moreover have "chunks p ! k = cs ! k" if "k < length cs" for k
  proof -
    have "k \<in> arrived p" using that assms(3) by simp
    then show ?thesis using assms(2) unfolding fed_def arrived_def by fastforce
  qed
  ultimately have eq: "chunks p = cs" by (simp add: nth_equalityI)
  have none: "data (partial_chunk p) = None" using assms(2) by (simp add: fed_def)
  then show "content p = app_bytes cs" by (simp add: content_def eq)
  moreover have "rnum_bytes p = int (tot_len cs)"
    using assms(2,3) by (simp add: fed_def tot_len_sum)
  ultimately show "readable p"
    using none assms(1) by (auto simp: readable_def eq sent_list_def length_app_bytes)
qed

lemma fed_add_chunk:
  assumes cs: "sent_list cs" and p: "fed cs p" and k: "k < length cs"
  obtains b p' where "receiver_add_chunk (cs ! k) p = Inr (b, p')" "fed cs p'" "arrived p' = insert k (arrived p)"
    "complete p' = complete p" "length (chunks p') \<le> max (length (chunks p)) (Suc k)"
    "b \<longleftrightarrow> \<not> (complete p \<and> arrived p = {..<length cs})"
proof (cases "complete p \<and> arrived p = {..<length cs}")
  case True
  then show ?thesis
    using that [of False p] k p by (auto simp: receiver_add_chunk_def fed_is_complete [OF cs p])
next
  case False
  have sq: "seqno (cs ! k) = k" and fill: "filled (cs ! k)" and small: "length cs < 2 ^ 31"
    using cs k by (auto simp: sent_list_def)
  have ulong: "as_ulong (int (length cs)) = int (length cs)"
    using small by (simp add: as_ulong_def)
  have eq: "rnum_bytes p = recvd_bytes p" using p by (simp add: fed_def)
  have notbig: "\<not> (expected_chunks p \<noteq> -1 \<and> int k \<ge> as_ulong (expected_chunks p))"
    using p k ulong by (auto simp: fed_def split: if_splits)
  have ic: "is_complete p = Inr False" using fed_is_complete [OF cs p] False by simp
  define p1 where "p1 = (if k \<ge> length (chunks p)
    then p\<lparr>chunks := resize (k + 1) empty_chunk (chunks p)\<rparr> else p)"
  let ?p' = "p1\<lparr>recvd_chunks := recvd_chunks p1 + 1, chunks := (chunks p1)[k := cs ! k],
    rnum_bytes := rnum_bytes p1 + int (datalen (cs ! k)), recvd_bytes := recvd_bytes p1 + int (datalen (cs ! k))\<rparr>"
  have add: "receiver_add_chunk (cs ! k) p =
    (if data (chunks p1 ! k) \<noteq> None
     then Inr (\<not> (ck_offset (cs ! k) \<noteq> ck_offset (chunks p1 ! k) \<or> datalen (cs ! k) \<noteq> datalen (chunks p1 ! k)), p1)
     else Inr (True, ?p'))"
    unfolding receiver_add_chunk_def ic bindE_simps sq p1_def
    by (simp only: notbig eq if_False ASSERT_simps Let_def simp_thms)
  have p1: "recvd_chunks p1 = recvd_chunks p" "rnum_bytes p1 = rnum_bytes p" "recvd_bytes p1 = recvd_bytes p"
    "partial_chunk p1 = partial_chunk p" "complete p1 = complete p" "expected_bytes p1 = expected_bytes p"
    "expected_chunks p1 = expected_chunks p" "length (chunks p1) = max (length (chunks p)) (Suc k)"
    by (simp_all add: p1_def)
  have nth1: "chunks p1 ! j = (if j < length (chunks p) then chunks p ! j else empty_chunk)"
    if "j < length (chunks p1)" for j
    using that by (auto simp: p1_def nth_resize)
  have old: "j < length (chunks p) \<Longrightarrow> chunks p ! j = cs ! j \<or> chunks p ! j = empty_chunk" for j
    using p by (simp add: fed_def)
  have k1: "k < length (chunks p1)" by (simp add: p1(8))
  show ?thesis
  proof (cases "k \<in> arrived p")
    case True
    then have c: "k < length (chunks p)" "chunks p ! k = cs ! k" "data (chunks p ! k) \<noteq> None"
      using old [of k] by (auto simp: arrived_def)
    then have "p1 = p" by (simp add: p1_def)
    then have "receiver_add_chunk (cs ! k) p = Inr (True, p)" using c by (simp add: add)
    then show ?thesis by (rule that) (use p True False in auto)
  next
    case new: False
    have none: "data (chunks p1 ! k) = None" using new nth1 [OF k1] by (auto simp: arrived_def)
    have nth': "chunks ?p' ! j =
        (if j = k then cs ! k else if j < length (chunks p) then chunks p ! j else empty_chunk)"
      if "j < length (chunks ?p')" for j
      using that nth1 [of j] by (auto simp: nth_list_update)
    have len': "length (chunks ?p') = max (length (chunks p)) (Suc k)" by (simp add: p1(8))
    have arr: "arrived ?p' = insert k (arrived p)"
    proof (rule set_eqI)
      fix j
      show "j \<in> arrived ?p' \<longleftrightarrow> j \<in> insert k (arrived p)"
        using fill nth1 [of j] k1 p1(8)
        by (cases "j = k") (auto simp: arrived_def filled_def split: if_splits)
    qed
    have le: "length (chunks ?p') \<le> length cs" using k p len' by (simp add: fed_def)
    have "chunks ?p' ! j = cs ! j \<or> chunks ?p' ! j = empty_chunk" if "j < length (chunks ?p')" for j
      using nth' [OF that] old [of j] by auto
    moreover have "recvd_chunks ?p' = int (card (insert k (arrived p)))"
      "recvd_bytes ?p' = int (\<Sum>j\<in>insert k (arrived p). datalen (cs ! j))" "rnum_bytes ?p' = recvd_bytes ?p'"
      using p new by (simp_all add: fed_def p1)
    moreover have "data (partial_chunk ?p') = None" "complete ?p' = complete p"
      "expected_bytes ?p' = expected_bytes p" "expected_chunks ?p' = expected_chunks p"
      using p by (simp_all add: p1 fed_def)
    ultimately have f': "fed cs ?p'" using p le unfolding fed_def arr by auto
    have "receiver_add_chunk (cs ! k) p = Inr (True, ?p')" using none by (simp add: add)
    then show ?thesis by (rule that) (use f' arr len' False in \<open>simp_all add: p1\<close>)
  qed
qed

lemma fed_finish:
  assumes cs: "sent_list cs" and p: "fed cs p"
  obtains b p' where "receiver_finish (int (tot_len cs)) (int (length cs)) p = Inr (b, p')" "fed cs p'"
    "arrived p' = arrived p" "complete p'" "b \<longleftrightarrow> \<not> complete p" "chunks p' = chunks p"
proof (cases "complete p")
  case True
  have q: "p\<lparr>complete := True\<rparr> = p" using True by simp
  have e: "expected_bytes p = int (tot_len cs)" "expected_chunks p = int (length cs)"
    using p True by (simp_all add: fed_def)
  show ?thesis
    by (rule that [of False p]) (use True p in \<open>simp_all add: receiver_finish_def fed_is_complete [OF cs p] q e\<close>)
next
  case False
  let ?p' = "p\<lparr>complete := True, expected_bytes := int (tot_len cs), expected_chunks := int (length cs)\<rparr>"
  have e: "expected_bytes p = -1" "expected_chunks p = -1" using p False by (simp_all add: fed_def)
  have "length cs < 2 ^ 31" using cs by (simp add: sent_list_def)
  then have ulong: "as_ulong (int (length cs)) = int (length cs)" by (simp add: as_ulong_def)
  have arr: "arrived ?p' = arrived p" by (simp add: arrived_def)
  have f': "fed cs ?p'" using p unfolding fed_def arr by auto
  have le: "length (chunks p) \<le> length cs" using p by (simp add: fed_def)
  show ?thesis
    by (rule that [of True ?p'])
       (use False f' arr le in \<open>simp_all add: receiver_finish_def fed_is_complete [OF cs p] e Let_def ulong\<close>)
qed

text \<open>What arrives for one IROB: chunk number \<open>k\<close>, or the end announcement.\<close>

datatype arrival = Chunk nat | End

fun feed :: "irob_chunk_data list \<Rightarrow> arrival \<Rightarrow> receiver_irob \<Rightarrow> receiver_irob result" where
  "feed cs (Chunk k) p = bindE (receiver_add_chunk (cs ! k) p) (\<lambda>(_, p'). Inr p')"
| "feed cs End p = bindE (receiver_finish (int (tot_len cs)) (int (length cs)) p) (\<lambda>(_, p'). Inr p')"

definition arrival_ok :: "irob_chunk_data list \<Rightarrow> arrival \<Rightarrow> bool" where
  "arrival_ok cs a \<longleftrightarrow> (case a of Chunk k \<Rightarrow> k < length cs | End \<Rightarrow> True)"

lemma feed_all:
  assumes "sent_list cs" and "fed cs p" and "\<forall>a\<in>set as. arrival_ok cs a"
  shows "\<exists>p'. foldE (feed cs) as p = Inr p' \<and> fed cs p' \<and>
    arrived p' = arrived p \<union> {k. Chunk k \<in> set as} \<and> complete p' = (complete p \<or> End \<in> set as)"
  using assms(2,3)
proof (induction as arbitrary: p)
  case (Cons a as)
  obtain p1 where p1: "feed cs a p = Inr p1" "fed cs p1"
    "arrived p1 = arrived p \<union> {k. a = Chunk k}" "complete p1 = (complete p \<or> a = End)"
  proof (cases a)
    case (Chunk k)
    then have "k < length cs" using Cons.prems(2) by (simp add: arrival_ok_def)
    then obtain b p1 where "receiver_add_chunk (cs ! k) p = Inr (b, p1)" "fed cs p1"
        "arrived p1 = insert k (arrived p)" "complete p1 = complete p"
      using fed_add_chunk [OF assms(1) Cons.prems(1)] by metis
    then show ?thesis using that [of p1] Chunk by auto
  next
    case End
    obtain b p1 where "receiver_finish (int (tot_len cs)) (int (length cs)) p = Inr (b, p1)" "fed cs p1"
        "arrived p1 = arrived p" "complete p1"
      using fed_finish [OF assms(1) Cons.prems(1)] by metis
    then show ?thesis using that [of p1] End by auto
  qed
  obtain p' where "foldE (feed cs) as p1 = Inr p'" "fed cs p'"
    "arrived p' = arrived p1 \<union> {k. Chunk k \<in> set as}" "complete p' = (complete p1 \<or> End \<in> set as)"
    using Cons.IH [OF p1(2)] Cons.prems(2) by auto
  then show ?case using p1 by auto
qed simp

lemma fed_new:
  assumes "new_receiver_irob i n ds 0 dat labels = Inr p"
  shows "fed cs p \<and> arrived p = {} \<and> \<not> complete p"
  using assms
  by (auto simp: new_receiver_irob_def new_irob_def extend_receiver_def pending_irob.defs receiver_irob.defs
      fed_def arrived_def empty_chunk_def result_simps Let_def split: if_splits)

lemma get_missing_chunks_fed:
  assumes cs: "sent_list cs" and p: "fed cs p" and "complete p"
  shows "get_missing_chunks p = filter (\<lambda>k. k \<notin> arrived p) [0..<length cs]"
proof -
  have e: "expected_chunks p = int (length cs)" "length (chunks p) \<le> length cs"
    using p assms(3) by (simp_all add: fed_def)
  have "length cs < 2 ^ 31" using cs by (simp add: sent_list_def)
  then have u: "as_ulong (int (length cs)) = int (length cs)" by (simp add: as_ulong_def)
  have split: "[0..<length cs] = [0..<length (chunks p)] @ [length (chunks p)..<length cs]"
    using e(2) by (metis le0 upt_add_eq_append le_add_diff_inverse plus_nat.add_0)
  have "filter (\<lambda>k. k \<notin> arrived p) [0..<length (chunks p)] =
      filter (\<lambda>k. data (chunks p ! k) = None) [0..<length (chunks p)]"
    by (intro filter_cong refl) (auto simp: arrived_def)
  moreover have "filter (\<lambda>k. k \<notin> arrived p) [length (chunks p)..<length cs] = [length (chunks p)..<length cs]"
    by (intro filter_True) (auto simp: arrived_def)
  ultimately show ?thesis
    using e(2) by (auto simp: get_missing_chunks_def e(1) u split)
qed

section \<open>Properties\<close>

text \<open>
  C27. The chunks of an IROB may arrive in any order and any number of times, and the end announcement
  at any point among them: no assertion fails; the IROB is complete exactly when all chunks and the
  end have arrived; what it then holds is what the sender sent, in order; and while the end has arrived
  and chunks are missing, the chunks it asks for are exactly the missing ones.
\<close>

theorem chunks_reassemble_in_any_order:
  assumes "sent_list cs" and "\<forall>a\<in>set as. arrival_ok cs a"
    and "new_receiver_irob i n ds 0 dat labels = Inr p"
  shows "\<exists>p'. foldE (feed cs) as p = Inr p' \<and>
    is_complete p' = Inr (End \<in> set as \<and> (\<forall>k<length cs. Chunk k \<in> set as)) \<and>
    (End \<in> set as \<longrightarrow> get_missing_chunks p' = filter (\<lambda>k. Chunk k \<notin> set as) [0..<length cs]) \<and>
    (is_complete p' = Inr True \<longrightarrow> (\<forall>m>0. read_data m p' = Inr (take m (app_bytes cs))))"
proof -
  note new = fed_new [OF assms(3), of cs]
  obtain p' where p': "foldE (feed cs) as p = Inr p'" "fed cs p'" "arrived p' = {k. Chunk k \<in> set as}"
    "complete p' = (End \<in> set as)"
    using feed_all [OF assms(1) _ assms(2), of p] new by auto
  have all: "arrived p' = {..<length cs} \<longleftrightarrow> (\<forall>k<length cs. Chunk k \<in> set as)"
    using assms(2) by (auto simp: p'(3) arrival_ok_def)
  have ic: "is_complete p' = Inr (End \<in> set as \<and> (\<forall>k<length cs. Chunk k \<in> set as))"
    using fed_is_complete [OF assms(1) p'(2)] all p'(4) by simp
  have miss: "get_missing_chunks p' = filter (\<lambda>k. Chunk k \<notin> set as) [0..<length cs]" if "End \<in> set as"
    using get_missing_chunks_fed [OF assms(1) p'(2)] that p'(3,4) by simp
  have "read_data m p' = Inr (take m (app_bytes cs))" if "is_complete p' = Inr True" "m > 0" for m
  proof -
    have "arrived p' = {..<length cs}" using that(1) ic all by auto
    note c = fed_content [OF assms(1) p'(2) this]
    show ?thesis using read_data_take [OF c(2) that(2)] c(1) by simp
  qed
  then show ?thesis using p'(1) ic miss by blast
qed

theorem chunks_reassemble_in_any_order_witness:
  "\<exists>p p'. new_receiver_irob 4 0 None 0 None 0 = Inr p \<and>
     foldE (feed [\<lparr>ck_id = 4, seqno = 0, ck_offset = 0, datalen = 2, data = Some [1, 2]\<rparr>,
                  \<lparr>ck_id = 4, seqno = 1, ck_offset = 2, datalen = 1, data = Some [3]\<rparr>])
       [Chunk 1, End, Chunk 1, Chunk 0] p = Inr p' \<and>
     is_complete p' = Inr True \<and> read_data 3 p' = Inr [1, 2, 3]"
proof -
  let ?cs = "[\<lparr>ck_id = 4, seqno = 0, ck_offset = 0, datalen = 2, data = Some [1 :: byte, 2]\<rparr>,
              \<lparr>ck_id = 4, seqno = 1, ck_offset = 2, datalen = 1, data = Some [3]\<rparr>]"
  obtain p where p: "new_receiver_irob 4 0 None 0 None 0 = Inr p"
    by (simp add: new_receiver_irob_def new_irob_def Let_def)
  have cs: "sent_list ?cs" by (auto simp: sent_list_def filled_def less_Suc_eq)
  have as: "\<forall>a\<in>set [Chunk 1, End, Chunk 1, Chunk 0]. arrival_ok ?cs a" by (simp add: arrival_ok_def)
  from chunks_reassemble_in_any_order [OF cs as p] obtain p' where
    "foldE (feed ?cs) [Chunk 1, End, Chunk 1, Chunk 0] p = Inr p'"
    "is_complete p' = Inr (End \<in> set [Chunk 1, End, Chunk 1, Chunk 0] \<and>
       (\<forall>k<length ?cs. Chunk k \<in> set [Chunk 1, End, Chunk 1, Chunk 0]))"
    "is_complete p' = Inr True \<longrightarrow> (\<forall>m>0. read_data m p' = Inr (take m (app_bytes ?cs)))" by blast
  moreover have "\<forall>k<length ?cs. Chunk k \<in> set [Chunk 1, End, Chunk 1, Chunk 0]" by (auto simp: less_Suc_eq)
  ultimately show ?thesis using p by auto
qed

text \<open>
  Reading from an IROB follows its byte stream: \<^verbatim>\<open>read_data\<close> returns the next bytes without removing
  them, and \<^verbatim>\<open>remove_bytes\<close> of no more than there are removes exactly these, also in the middle of a
  chunk, so that the bytes read next are the ones that follow.
\<close>

theorem read_then_remove_follows_the_stream:
  assumes "readable p" and "0 < n" and "n \<le> length (content p)" and "0 < m"
  shows "read_data n p = Inr (take n (content p)) \<and>
    (\<exists>p'. remove_bytes n p = Inr p' \<and> read_data m p' = Inr (take m (drop n (content p))) \<and>
          rnum_bytes p' = rnum_bytes p - int n \<and> content p' = drop n (content p) \<and> readable p')"
proof -
  obtain p' where p': "remove_bytes n p = Inr p'" "content p' = drop n (content p)" "readable p'"
    by (rule remove_bytes_drop [OF assms(1-3)])
  have "rnum_bytes p' = rnum_bytes p - int n"
    using p'(2,3) assms(1,3) by (simp add: readable_def)
  then show ?thesis using p' read_data_take [OF assms(1,2)] read_data_take [OF p'(3) assms(4)] by auto
qed

theorem read_then_remove_follows_the_stream_witness:
  "\<exists>p p'. new_receiver_irob 4 0 None 3 (Some [1, 2, 3]) 0 = Inr p \<and> read_data 2 p = Inr [1, 2] \<and>
     remove_bytes 2 p = Inr p' \<and> read_data 5 p' = Inr [3]"
proof -
  obtain p where p: "new_receiver_irob 4 0 None 3 (Some [1, 2, 3]) 0 = Inr p"
    "content p = [1, 2, 3]" "readable p"
    by (simp add: new_receiver_irob_def new_irob_def Let_def extend_receiver_def is_complete_def
        all_chunks_complete_def pending_irob.defs receiver_irob.defs content_def readable_def filled_def empty_chunk_def)
  from read_then_remove_follows_the_stream [OF p(3), of 2 5] p(1,2) show ?thesis by auto
qed

end
