(* ===== verification/Receiver_Lattice.thy ===== *)
theory Receiver_Lattice
  imports Receiver_Inv
begin

text \<open>
  The receiver's lattice: \<^verbatim>\<open>PendingReceiverIROB\<close> meets the contract of \<open>irob_class\<close>, in particular
  an IROB whose announcement arrives after some of its chunks takes over everything the placeholder has
  collected; and the effect on single IROBs of the operations that the receiver threads and the
  application call.
\<close>

section \<open>Placeholders\<close>

text \<open>The chunks of a placeholder: chunk number \<open>k\<close> at position \<open>k\<close>, holes elsewhere, none at the end.\<close>

definition recv_shape :: "irob_chunk_data list \<Rightarrow> bool" where
  "recv_shape cs \<longleftrightarrow>
     (\<forall>k<length cs. cs ! k = empty_chunk \<or> (data (cs ! k) \<noteq> None \<and> seqno (cs ! k) = k)) \<and>
     (cs \<noteq> [] \<longrightarrow> data (last cs) \<noteq> None)"

definition receiver_elt :: "receiver_irob \<Rightarrow> bool" where
  "receiver_elt p \<longleftrightarrow> (placeholder p \<longrightarrow> recv_shape (chunks p))"

definition blank :: "receiver_irob \<Rightarrow> bool" where
  "blank p \<longleftrightarrow> \<not> placeholder p \<and> chunks p = [] \<and> \<not> complete p \<and> expected_bytes p = -1 \<and>
     expected_chunks p = -1 \<and> rnum_bytes p = recvd_bytes p \<and> \<not> released p"

definition receiver_fresh :: "receiver_irob \<Rightarrow> bool" where
  "receiver_fresh p \<longleftrightarrow> blank p \<and> dependents p = {}"

lemma seqno_empty_chunk [simp]: "seqno empty_chunk = 0"
  by (simp add: empty_chunk_def)

text \<open>An IROB that takes over chunks one by one, before the counts are copied.\<close>

definition taking_over :: "receiver_irob \<Rightarrow> irob_chunk_data list \<Rightarrow> nat \<Rightarrow> receiver_irob \<Rightarrow> bool" where
  "taking_over p cs n p' \<longleftrightarrow>
     (\<exists>m s u. p' = p\<lparr>chunks := take m cs, rnum_bytes := s, recvd_bytes := s, recvd_chunks := u\<rparr> \<and>
        m \<le> n \<and> n \<le> length cs \<and> (0 < n \<longrightarrow> 0 < m) \<and> (\<forall>k. m \<le> k \<and> k < n \<longrightarrow> cs ! k = empty_chunk))"

lemma taking_overI:
  assumes "m \<le> n" "n \<le> length cs" "0 < n \<longrightarrow> 0 < m" "\<forall>k. m \<le> k \<and> k < n \<longrightarrow> cs ! k = empty_chunk"
  shows "taking_over p cs n (p\<lparr>chunks := take m cs, rnum_bytes := s, recvd_bytes := s, recvd_chunks := u\<rparr>)"
  using assms unfolding taking_over_def by blast

lemma taking_over_start: "blank p \<Longrightarrow> taking_over p cs 0 p"
proof -
  assume "blank p"
  then have "p\<lparr>chunks := take 0 cs, rnum_bytes := recvd_bytes p, recvd_bytes := recvd_bytes p,
      recvd_chunks := recvd_chunks p\<rparr> = p"
    by (intro receiver_irob.equality) (simp_all add: blank_def)
  then show ?thesis using taking_overI [of 0 0 cs p "recvd_chunks p" "recvd_bytes p"] by simp
qed

lemma take_over_chunk:
  assumes "blank p" and "recv_shape cs" and "taking_over p cs n p'" and n: "n < length cs"
  shows "\<exists>b p''. receiver_add_chunk (cs ! n) p' = Inr (b, p'') \<and> taking_over p cs (Suc n) p''"
proof -
  obtain m s u where p': "p' = p\<lparr>chunks := take m cs, rnum_bytes := s, recvd_bytes := s, recvd_chunks := u\<rparr>"
    and m: "m \<le> n" "0 < n \<longrightarrow> 0 < m" "\<forall>k. m \<le> k \<and> k < n \<longrightarrow> cs ! k = empty_chunk"
    using assms(3) by (auto simp: taking_over_def)
  have ic: "is_complete p' = Inr False" using assms(1) by (simp add: is_complete_def p' blank_def)
  have add: "receiver_add_chunk c p' =
      (let p1 = (if seqno c \<ge> length (take m cs) then p'\<lparr>chunks := resize (seqno c + 1) empty_chunk (take m cs)\<rparr> else p');
           existing = chunks p1 ! seqno c
       in if data existing \<noteq> None
          then Inr (\<not> (ck_offset c \<noteq> ck_offset existing \<or> datalen c \<noteq> datalen existing), p1)
          else Inr (True, p1\<lparr>recvd_chunks := recvd_chunks p1 + 1, chunks := (chunks p1)[seqno c := c],
                 rnum_bytes := rnum_bytes p1 + int (datalen c), recvd_bytes := recvd_bytes p1 + int (datalen c)\<rparr>))" for c
    using ic assms(1) by (simp add: receiver_add_chunk_def p' blank_def)
  have len: "length (take m cs) = m" using m(1) n by simp
  consider "cs ! n = empty_chunk" "m = 0" | "cs ! n = empty_chunk" "0 < m"
    | "data (cs ! n) \<noteq> None" "seqno (cs ! n) = n"
    using assms(2) n unfolding recv_shape_def by fastforce
  then show ?thesis
  proof cases
    case 1
    then have "n = 0" using m(2) by auto
    then have "take (Suc 0) cs = [empty_chunk]" using 1 n by (cases cs) auto
    then have "taking_over p cs (Suc n) (p\<lparr>chunks := [empty_chunk], rnum_bytes := s, recvd_bytes := s, recvd_chunks := u + 1\<rparr>)"
      using taking_overI [of "Suc 0" "Suc n" cs p "u + 1" s] \<open>n = 0\<close> n by simp
    moreover have "receiver_add_chunk (cs ! n) p' =
        Inr (True, p\<lparr>chunks := [empty_chunk], rnum_bytes := s, recvd_bytes := s, recvd_chunks := u + 1\<rparr>)"
      using 1 unfolding add len by (simp add: p' Let_def resize_def empty_chunk_def)
    ultimately show ?thesis by blast
  next
    case 2
    have t0: "take m cs ! 0 = cs ! 0" "take m cs \<noteq> []" using 2 m n by (auto simp: nth_take)
    have to: "taking_over p cs (Suc n) (p\<lparr>chunks := take m cs, rnum_bytes := s, recvd_bytes := s, recvd_chunks := v\<rparr>)" for v
      by (rule taking_overI) (use m n 2 in \<open>auto simp: less_Suc_eq\<close>)
    show ?thesis
    proof (cases "data (cs ! 0)")
      case None
      then have "cs ! 0 = empty_chunk" using assms(2) n unfolding recv_shape_def by (metis gr_implies_not0 not_gr0)
      then have "(take m cs)[0 := empty_chunk] = take m cs" using t0 by (metis list_update_id)
      then have "receiver_add_chunk (cs ! n) p' =
          Inr (True, p\<lparr>chunks := take m cs, rnum_bytes := s, recvd_bytes := s, recvd_chunks := u + 1\<rparr>)"
        using 2 None t0 unfolding add len by (simp add: p' Let_def empty_chunk_def)
      then show ?thesis using to by blast
    next
      case (Some d)
      then have "\<exists>b. receiver_add_chunk (cs ! n) p' =
          Inr (b, p\<lparr>chunks := take m cs, rnum_bytes := s, recvd_bytes := s, recvd_chunks := u\<rparr>)"
        using 2 t0 unfolding add len by (simp add: p' Let_def empty_chunk_def)
      then show ?thesis using to by blast
    qed
  next
    case 3
    have eq: "(resize (Suc n) empty_chunk (take m cs))[n := cs ! n] = take (Suc n) cs"
    proof (rule nth_equalityI)
      fix k assume "k < length ((resize (Suc n) empty_chunk (take m cs))[n := cs ! n])"
      then show "(resize (Suc n) empty_chunk (take m cs))[n := cs ! n] ! k = take (Suc n) cs ! k"
        using m(3) len by (cases "k = n") (auto simp: nth_resize)
    qed (use n in simp)
    have "data (resize (Suc n) empty_chunk (take m cs) ! n) = None" using m(1) len by (simp add: nth_resize)
    then have "receiver_add_chunk (cs ! n) p' =
        Inr (True, p\<lparr>chunks := take (Suc n) cs, rnum_bytes := s + int (datalen (cs ! n)),
          recvd_bytes := s + int (datalen (cs ! n)), recvd_chunks := u + 1\<rparr>)"
      using 3 m(1) eq unfolding add len by (simp add: p' Let_def)
    moreover have "taking_over p cs (Suc n) (p\<lparr>chunks := take (Suc n) cs, rnum_bytes := s + int (datalen (cs ! n)),
          recvd_bytes := s + int (datalen (cs ! n)), recvd_chunks := u + 1\<rparr>)"
      by (rule taking_overI) (use n in auto)
    ultimately show ?thesis by blast
  qed
qed

lemma take_over_all:
  assumes "blank p" and "recv_shape cs" and "taking_over p cs n p'" and "n \<le> length cs"
  shows "\<exists>p''. foldE (\<lambda>c p. bindE (receiver_add_chunk c p) (\<lambda>(_, p'). Inr p')) (drop n cs) p' = Inr p'' \<and>
    taking_over p cs (length cs) p''"
  using assms(3,4)
proof (induction "length cs - n" arbitrary: n p')
  case (Suc k)
  then have n: "n < length cs" by simp
  obtain b p1 where p1: "receiver_add_chunk (cs ! n) p' = Inr (b, p1)" "taking_over p cs (Suc n) p1"
    using take_over_chunk [OF assms(1,2) Suc.prems(1) n] by blast
  have "\<exists>p''. foldE (\<lambda>c p. bindE (receiver_add_chunk c p) (\<lambda>(_, p'). Inr p')) (drop (Suc n) cs) p1 = Inr p'' \<and>
      taking_over p cs (length cs) p''"
    by (rule Suc.hyps(1)) (use Suc p1 n in auto)
  then show ?case using p1 n by (simp add: Cons_nth_drop_Suc [symmetric])
qed simp

lemma receiver_subsume_eq:
  assumes p: "receiver_fresh p" and q: "recv_shape (chunks q)"
  shows "receiver_subsume p q = Inr (p\<lparr>dependents := dependents q, chunks := chunks q, complete := complete q,
    rd_offset := rd_offset q, partial_chunk := partial_chunk q, rnum_bytes := rnum_bytes q,
    expected_bytes := expected_bytes q, expected_chunks := expected_chunks q, recvd_bytes := recvd_bytes q,
    recvd_chunks := recvd_chunks q\<rparr>)"
proof -
  let ?p0 = "p\<lparr>dependents := dependents p \<union> dependents q\<rparr>"
  have dep: "dependents ?p0 = dependents q" using p by (simp add: receiver_fresh_def)
  have f: "blank ?p0" "taking_over ?p0 (chunks q) 0 ?p0"
    using p by (simp_all add: receiver_fresh_def blank_def taking_over_start)
  obtain p1 where p1: "foldE (\<lambda>c p. bindE (receiver_add_chunk c p) (\<lambda>(_, p'). Inr p')) (chunks q) ?p0 = Inr p1"
    "\<exists>s u. p1 = ?p0\<lparr>chunks := chunks q, rnum_bytes := s, recvd_bytes := s, recvd_chunks := u\<rparr>"
  proof -
    obtain p1 where p1: "foldE (\<lambda>c p. bindE (receiver_add_chunk c p) (\<lambda>(_, p'). Inr p')) (chunks q) ?p0 = Inr p1"
      "taking_over ?p0 (chunks q) (length (chunks q)) p1"
      using take_over_all [OF f(1) q f(2)] by auto
    obtain m s u where m: "p1 = ?p0\<lparr>chunks := take m (chunks q), rnum_bytes := s, recvd_bytes := s, recvd_chunks := u\<rparr>"
      "m \<le> length (chunks q)" "\<forall>k. m \<le> k \<and> k < length (chunks q) \<longrightarrow> chunks q ! k = empty_chunk"
      using p1(2) unfolding taking_over_def by blast
    have "m = length (chunks q)"
    proof (rule ccontr)
      assume "m \<noteq> length (chunks q)"
      then have "chunks q \<noteq> []" "m \<le> length (chunks q) - 1" "length (chunks q) - 1 < length (chunks q)"
        using m(2) by auto
      then have "chunks q \<noteq> []" "chunks q ! (length (chunks q) - 1) = empty_chunk" using m(3) by blast+
      then show False using q by (simp add: recv_shape_def last_conv_nth)
    qed
    then show ?thesis using that [OF p1(1)] m(1) by auto
  qed
  then show ?thesis using dep p by (auto simp: receiver_subsume_def base_subsume_def receiver_fresh_def)
qed

interpretation rcv: irob_class receiver_placeholder receiver_subsume receiver_elt receiver_fresh
proof
  fix i :: int and p q :: receiver_irob and D :: "int set"
  show "pi_id (receiver_placeholder i) = i" "placeholder (receiver_placeholder i)"
    "deps (receiver_placeholder i) = {}" "dependents (receiver_placeholder i) = {}"
    by (simp_all add: receiver_placeholder_def extend_receiver_def placeholder_irob_def pending_irob.defs)
  show "receiver_elt (receiver_placeholder i)"
    by (simp add: receiver_elt_def receiver_placeholder_def extend_receiver_def placeholder_irob_def
        pending_irob.defs recv_shape_def)
  show "receiver_fresh p \<Longrightarrow> receiver_elt p" "receiver_fresh p \<Longrightarrow> \<not> placeholder p \<and> dependents p = {}"
    by (simp_all add: receiver_elt_def receiver_fresh_def blank_def)
  show "receiver_elt p \<Longrightarrow> receiver_elt (p\<lparr>deps := D\<rparr>)" "receiver_elt p \<Longrightarrow> receiver_elt (p\<lparr>dependents := D\<rparr>)"
    by (simp_all add: receiver_elt_def)
  show "\<exists>p'. receiver_subsume p q = Inr p' \<and> pi_id p' = pi_id p \<and> deps p' = deps p \<and>
      anonymous p' = anonymous p \<and> dependents p' = dependents q \<and> \<not> placeholder p' \<and> receiver_elt p'"
    if "receiver_fresh p" "receiver_elt q" "placeholder q" "pi_id q = pi_id p"
    using that receiver_subsume_eq [of p q]
    by (simp add: receiver_elt_def receiver_fresh_def blank_def)
qed

end
