(* ===== verification/Delivery_Inv.thy ===== *)
theory Delivery_Inv
  imports CSocket_Receiver Receiver_Lattice
begin

text \<open>
  The invariant of the receiver's lattice against what the peer has sent: which messages have
  arrived, which IROBs the application has read, which are released and waiting to be read. Every
  operation of the receiver threads and of \<^verbatim>\<open>recv\<close> on single IROBs keeps it.
\<close>

section \<open>What the peer sends\<close>

text \<open>For each id the labels, the dependencies and the chunks of the IROB.\<close>

record sent_irob =
  si_labels :: u_long
  si_deps :: "int list"
  si_chunks :: "irob_chunk_data list"

abbreviation si_bytes :: "sent_irob \<Rightarrow> byte list" where
  "si_bytes s \<equiv> app_bytes (si_chunks s)"

definition sent_ok :: "(int \<Rightarrow> sent_irob) \<Rightarrow> bool" where
  "sent_ok sent \<longleftrightarrow> (\<forall>i. id_ok i \<longrightarrow>
     sent_list (si_chunks (sent i)) \<and> si_chunks (sent i) \<noteq> [] \<and> tot_len (si_chunks (sent i)) < 2 ^ 32 \<and>
     (\<forall>c\<in>set (si_chunks (sent i)). ck_id c = i \<and> 0 < datalen c \<and> datalen c < 2 ^ 31 \<and> ck_offset c < 2 ^ 32) \<and>
     (\<forall>d\<in>set (si_deps (sent i)). id_ok d) \<and> length (si_deps (sent i)) < 2 ^ 28 \<and> uint (si_labels (sent i)) < 2 ^ 32)"

text \<open>The messages for one IROB.\<close>

datatype message = MBegin int | MChunk int nat | MEnd int

definition all_arrived :: "(int \<Rightarrow> sent_irob) \<Rightarrow> message set \<Rightarrow> int \<Rightarrow> bool" where
  "all_arrived sent tr i \<longleftrightarrow>
     MBegin i \<in> tr \<and> MEnd i \<in> tr \<and> (\<forall>k<length (si_chunks (sent i)). MChunk i k \<in> tr)"

section \<open>The invariant\<close>

text \<open>An IROB that is not yet released: it holds what has arrived.\<close>

definition collecting :: "(int \<Rightarrow> sent_irob) \<Rightarrow> message set \<Rightarrow> int set \<Rightarrow> int \<Rightarrow> receiver_irob \<Rightarrow> bool" where
  "collecting sent tr past i p \<longleftrightarrow>
     \<not> released p \<and> fed (si_chunks (sent i)) p \<and> arrived p = {k. MChunk i k \<in> tr} \<and>
     (complete p \<longleftrightarrow> MEnd i \<in> tr) \<and> (placeholder p \<longleftrightarrow> MBegin i \<notin> tr) \<and>
     (\<not> placeholder p \<longrightarrow> send_labels p = si_labels (sent i) \<and> deps p = set (si_deps (sent i)) - past)"

text \<open>A released IROB: everything has arrived and the IROBs it depends on have been read.\<close>

definition readable_irob :: "(int \<Rightarrow> sent_irob) \<Rightarrow> message set \<Rightarrow> int set \<Rightarrow> int \<Rightarrow> receiver_irob \<Rightarrow> bool" where
  "readable_irob sent tr past i p \<longleftrightarrow>
     released p \<and> all_arrived sent tr i \<and> readable p \<and> is_complete p = Inr True \<and> \<not> placeholder p \<and>
     deps p = {} \<and> set (si_deps (sent i)) \<subseteq> past \<and> send_labels p = si_labels (sent i)"

text \<open>Parts of the invariant, on the map \<open>m\<close> of the lattice and the set of the IROBs read completely.\<close>

definition pending_ok :: "(int \<Rightarrow> sent_irob) \<Rightarrow> message set \<Rightarrow> int set \<Rightarrow> (int \<Rightarrow> receiver_irob option) \<Rightarrow> bool" where
  "pending_ok sent tr past m \<longleftrightarrow>
     (\<forall>i p. m i = Some p \<longrightarrow> collecting sent tr past i p \<or> readable_irob sent tr past i p)"

text \<open>Outside \<open>X\<close>, an IROB that can be released has been.\<close>

definition settled :: "int set \<Rightarrow> (int \<Rightarrow> receiver_irob option) \<Rightarrow> bool" where
  "settled X m \<longleftrightarrow>
     (\<forall>i p. m i = Some p \<longrightarrow> \<not> released p \<longrightarrow> is_complete p = Inr True \<longrightarrow> is_ready p \<longrightarrow> i \<in> X)"

definition unseen_ok :: "message set \<Rightarrow> int set \<Rightarrow> (int \<Rightarrow> receiver_irob option) \<Rightarrow> bool" where
  "unseen_ok tr past m \<longleftrightarrow>
     (\<forall>i. m i = None \<longrightarrow> i \<notin> past \<longrightarrow> MBegin i \<notin> tr \<and> MEnd i \<notin> tr \<and> (\<forall>k. MChunk i k \<notin> tr))"

text \<open>\<open>ids\<close> are the IROBs that have been read completely, in order.\<close>

definition history_ok :: "(int \<Rightarrow> sent_irob) \<Rightarrow> message set \<Rightarrow> int list \<Rightarrow> int set \<Rightarrow> bool" where
  "history_ok sent tr ids past \<longleftrightarrow>
     (\<forall>i\<in>past. id_ok i \<and> all_arrived sent tr i) \<and> distinct ids \<and> set ids = past \<and>
     (\<forall>xs i ys. ids = xs @ i # ys \<longrightarrow> set (si_deps (sent i)) \<subseteq> set xs)"

text \<open>\<open>cur\<close> is the IROB that is being read; the others that are released wait in \<open>ready\<close>.\<close>

definition queue_ok :: "(int \<Rightarrow> sent_irob) \<Rightarrow> int option \<Rightarrow> (int \<Rightarrow> receiver_irob option) \<Rightarrow> task_set \<Rightarrow> bool" where
  "queue_ok sent cur m ready \<longleftrightarrow>
     (\<forall>d\<in>set ready. d = sched_work (sd_id d) False (si_labels (sent (sd_id d)))) \<and> tasks.ordered ready \<and>
     sd_id ` set ready = {i. cur \<noteq> Some i \<and> (\<exists>p. m i = Some p \<and> released p)}"

text \<open>\<open>pre\<close> is what has been read of \<open>cur\<close>.\<close>

definition reading_ok :: "(int \<Rightarrow> sent_irob) \<Rightarrow> int option \<Rightarrow> byte list \<Rightarrow> (int \<Rightarrow> receiver_irob option) \<Rightarrow> bool" where
  "reading_ok sent cur pre m \<longleftrightarrow>
     (\<forall>i p. m i = Some p \<longrightarrow> released p \<longrightarrow> cur \<noteq> Some i \<longrightarrow> content p = si_bytes (sent i)) \<and>
     (case cur of None \<Rightarrow> pre = []
      | Some i \<Rightarrow> \<exists>p. m i = Some p \<and> released p \<and> content p \<noteq> [] \<and> pre @ content p = si_bytes (sent i))"

definition recv_inv ::
  "(int \<Rightarrow> sent_irob) \<Rightarrow> message set \<Rightarrow> int list \<Rightarrow> int option \<Rightarrow> byte list \<Rightarrow> int set \<Rightarrow>
   receiver_irob lattice \<Rightarrow> task_set \<Rightarrow> bool" where
  "recv_inv sent tr ids cur pre X L ready \<longleftrightarrow>
     lat_inv receiver_elt L \<and> pending_ok sent tr (elems (past_irobs L)) (lat_map L) \<and> settled X (lat_map L) \<and>
     unseen_ok tr (elems (past_irobs L)) (lat_map L) \<and> history_ok sent tr ids (elems (past_irobs L)) \<and>
     queue_ok sent cur (lat_map L) ready \<and> reading_ok sent cur pre (lat_map L)"

lemma recv_invD:
  assumes "recv_inv sent tr ids cur pre X L ready"
  shows "lat_inv receiver_elt L" "pending_ok sent tr (elems (past_irobs L)) (lat_map L)" "settled X (lat_map L)"
    "unseen_ok tr (elems (past_irobs L)) (lat_map L)" "history_ok sent tr ids (elems (past_irobs L))"
    "queue_ok sent cur (lat_map L) ready" "reading_ok sent cur pre (lat_map L)"
  using assms by (simp_all add: recv_inv_def)

lemma recv_inv_find:
  "recv_inv sent tr ids cur pre X L ready \<Longrightarrow> id_ok i \<Longrightarrow> find_locked L i = lat_map L i"
  by (rule find_locked_map [OF lat_invD(1) [OF recv_invD(1)]])

lemma sent_okD:
  assumes "sent_ok sent" and "id_ok i"
  shows "sent_list (si_chunks (sent i))" "si_chunks (sent i) \<noteq> []" "tot_len (si_chunks (sent i)) < 2 ^ 32"
    "c \<in> set (si_chunks (sent i)) \<Longrightarrow> ck_id c = i \<and> 0 < datalen c \<and> datalen c < 2 ^ 31 \<and> ck_offset c < 2 ^ 32"
    "d \<in> set (si_deps (sent i)) \<Longrightarrow> id_ok d" "length (si_deps (sent i)) < 2 ^ 28" "uint (si_labels (sent i)) < 2 ^ 32"
  using assms by (auto simp: sent_ok_def)

lemma content_released [simp]: "content (p\<lparr>released := b\<rparr>) = content p"
  by (cases "data (partial_chunk p)") (simp_all add: content_def)

lemma released_simps [simp]:
  "fed cs (p\<lparr>released := b\<rparr>) = fed cs p" "arrived (p\<lparr>released := b\<rparr>) = arrived p"
  "readable (p\<lparr>released := b\<rparr>) = readable p"
  "is_complete (p\<lparr>released := b\<rparr>) = is_complete p" "receiver_elt (p\<lparr>released := b\<rparr>) = receiver_elt p"
  by (simp_all add: fed_def arrived_def readable_def is_complete_def all_chunks_complete_def receiver_elt_def)

section \<open>Releasing\<close>

lemma collecting_complete:
  assumes "sent_ok sent" and "id_ok i" and "collecting sent tr past i p"
  shows "is_complete p = Inr (MEnd i \<in> tr \<and> {k. MChunk i k \<in> tr} = {..<length (si_chunks (sent i))})"
  using fed_is_complete [OF sent_okD(1) [OF assms(1,2)]] assms(3) by (simp add: collecting_def)

lemma pending_complete:
  assumes "sent_ok sent" and "id_ok i" and "pending_ok sent tr past m" and "m i = Some p"
  obtains b where "is_complete p = Inr b"
  using assms(3,4) collecting_complete [OF assms(1,2)] unfolding pending_ok_def readable_irob_def by blast

text \<open>An IROB that is marked as released.\<close>

lemma mark_released:
  assumes so: "sent_ok sent" and i: "id_ok i" and col: "collecting sent tr past i p"
    and c: "is_complete p = Inr True" "is_ready p"
  shows "readable_irob sent tr past i (release_irob p)" "content (release_irob p) = si_bytes (sent i)"
    "send_labels p = si_labels (sent i)"
proof -
  have full: "MEnd i \<in> tr" "{k. MChunk i k \<in> tr} = {..<length (si_chunks (sent i))}"
    using collecting_complete [OF so i col] c(1) by auto
  have p: "\<not> placeholder p" "deps p = {}" using c(2) by (auto simp: is_ready_def)
  have arr: "fed (si_chunks (sent i)) p" "arrived p = {..<length (si_chunks (sent i))}" "MBegin i \<in> tr"
    "set (si_deps (sent i)) \<subseteq> past"
    using col full(2) p by (auto simp: collecting_def)
  show lab: "send_labels p = si_labels (sent i)" using col p by (simp add: collecting_def)
  note con = fed_content [OF sent_okD(1) [OF so i] arr(1,2)]
  show "content (release_irob p) = si_bytes (sent i)" using con by (simp add: release_irob_def)
  have "all_arrived sent tr i" using full arr(3) by (auto simp: all_arrived_def)
  then show "readable_irob sent tr past i (release_irob p)"
    using con p c(1) arr(4) lab by (simp add: readable_irob_def release_irob_def)
qed

text \<open>The set of ready IROBs after a release.\<close>

lemma queue_ok_insert:
  assumes q: "queue_ok sent cur m ready" and i: "m i = Some p" "\<not> released p" "cur \<noteq> Some i" "released p'"
  shows "queue_ok sent cur (m(i \<mapsto> p')) (pset_insert ready (sched_work i False (si_labels (sent i))))"
proof -
  let ?d = "sched_work i False (si_labels (sent i))"
  have d: "plain ?d" "sd_id ?d = i" by (simp_all add: sched_work_def)
  have ids: "sd_id ` set ready = {i. cur \<noteq> Some i \<and> (\<exists>p. m i = Some p \<and> released p)}" and ord: "tasks.ordered ready"
    using q by (simp_all add: queue_ok_def)
  then have "i \<notin> sd_id ` set ready" using i by simp
  then have "sched_key ?d \<notin> sched_key ` set ready" using d(2) by (auto simp: sched_key_def)
  then have set': "set (pset_insert ready ?d) = insert ?d (set ready)"
    using tasks.set_set_insert [OF ord d(1)] by (simp add: pset_insert_def)
  have "tasks.ordered (pset_insert ready ?d)"
    using tasks.ordered_set_insert [OF ord d(1)] by (simp add: pset_insert_def)
  moreover have "sd_id ` set (pset_insert ready ?d) = {j. cur \<noteq> Some j \<and> (\<exists>p. (m(i \<mapsto> p')) j = Some p \<and> released p)}"
    unfolding set' image_insert d(2) ids using i(3,4) by auto
  moreover have "\<forall>e\<in>set (pset_insert ready ?d). e = sched_work (sd_id e) False (si_labels (sent (sd_id e)))"
    using q d(2) unfolding set' queue_ok_def by auto
  ultimately show ?thesis by (simp add: queue_ok_def)
qed

lemma release_if_ready_inv:
  assumes so: "sent_ok sent" and i: "id_ok i" and inv: "recv_inv sent tr ids cur pre X (rl R) (ready_irobs R)"
  obtains R' where "release_if_ready i R = Inr R'"
    "recv_inv sent tr ids cur pre (X - {i}) (rl R') (ready_irobs R')"
    "partially_read_irob R' = partially_read_irob R"
    "dom (lat_map (rl R')) = dom (lat_map (rl R))"
proof (cases "lat_map (rl R) i")
  case None
  have "recv_inv sent tr ids cur pre (X - {i}) (rl R) (ready_irobs R)"
    using inv None by (auto simp: recv_inv_def settled_def)
  then show ?thesis using that [of R] None recv_inv_find [OF inv i] by (simp add: release_if_ready_def)
next
  case (Some p)
  let ?m = "lat_map (rl R)" and ?past = "elems (past_irobs (rl R))"
  note D = recv_invD [OF inv]
  have find: "find_locked (rl R) i = Some p" using recv_inv_find [OF inv i] Some by simp
  obtain b where b: "is_complete p = Inr b" by (rule pending_complete [OF so i D(2) Some])
  show ?thesis
  proof (cases "b \<and> is_ready p \<and> \<not> released p")
    case False
    then have "recv_inv sent tr ids cur pre (X - {i}) (rl R) (ready_irobs R)"
      using inv Some b by (auto simp: recv_inv_def settled_def)
    then show ?thesis using that [of R] find b False by (simp add: release_if_ready_def ReadyIROB_def)
  next
    case True
    then have col: "collecting sent tr ?past i p" using D(2) Some by (auto simp: pending_ok_def readable_irob_def)
    have cp: "is_complete p = Inr True" "is_ready p" "\<not> released p" using True b by auto
    note mr = mark_released [OF so i col cp(1,2)]
    let ?p' = "release_irob p"
    have id: "pi_id p = i" by (rule lattice_wfD(4) [OF lat_invD(1) [OF D(1)] Some])
    have "pi_id ?p' = pi_id p" "deps ?p' = deps p" "dependents ?p' = dependents p"
      "placeholder ?p' = placeholder p" "receiver_elt ?p'"
      using irob_okD(1) [OF lat_invD(2) [OF D(1) Some]] by (simp_all add: release_irob_def)
    note ch = lat_inv_change [OF D(1) Some this]
    let ?L' = "lat_update i (\<lambda>_. ?p') (rl R)"
    have upd: "lat_update i release_irob (rl R) = ?L'" using find by (simp add: lat_update_def)
    have past: "past_irobs ?L' = past_irobs (rl R)" using ch(3) by (simp add: lat_rest_def)
    let ?ready' = "pset_insert (ready_irobs R) (sched_work i False (si_labels (sent i)))"
    have rel: "release_if_ready i R = Inr (R\<lparr>rl := ?L', ready_irobs := ?ready'\<rparr>)"
      using find b True upd id mr(3) by (simp add: release_if_ready_def ReadyIROB_def release_def)
    have released: "released ?p'" by (simp add: release_irob_def)
    have cur: "cur \<noteq> Some i" using D(7) Some True by (auto simp: reading_ok_def split: option.splits)
    have "pending_ok sent tr ?past (?m(i \<mapsto> ?p'))" using D(2) mr(1) by (auto simp: pending_ok_def)
    moreover have "settled (X - {i}) (?m(i \<mapsto> ?p'))" using D(3) released by (auto simp: settled_def)
    moreover have "unseen_ok tr ?past (?m(i \<mapsto> ?p'))" using D(4) by (auto simp: unseen_ok_def)
    moreover have "queue_ok sent cur (?m(i \<mapsto> ?p')) ?ready'" by (rule queue_ok_insert [OF D(6) Some cp(3) cur released])
    moreover have "reading_ok sent cur pre (?m(i \<mapsto> ?p'))"
      using D(7) mr(2) cur by (auto simp: reading_ok_def split: option.splits)
    ultimately have "recv_inv sent tr ids cur pre (X - {i}) ?L' ?ready'"
      unfolding recv_inv_def past ch(2) using ch(1) D(5) by blast
    then show ?thesis using that [OF rel] Some by (auto simp: ch(2))
  qed
qed

lemma release_all_inv:
  assumes so: "sent_ok sent" and "\<forall>i\<in>set ds. id_ok i"
    and "recv_inv sent tr ids cur pre X (rl R) (ready_irobs R)"
  shows "\<exists>R'. foldE release_if_ready ds R = Inr R' \<and>
    recv_inv sent tr ids cur pre (X - set ds) (rl R') (ready_irobs R') \<and>
    partially_read_irob R' = partially_read_irob R \<and> dom (lat_map (rl R')) = dom (lat_map (rl R))"
  using assms(2,3)
proof (induction ds arbitrary: R X)
  case (Cons i ds)
  have "id_ok i" using Cons.prems(1) by simp
  obtain R1 where R1: "release_if_ready i R = Inr R1" "recv_inv sent tr ids cur pre (X - {i}) (rl R1) (ready_irobs R1)"
    "partially_read_irob R1 = partially_read_irob R" "dom (lat_map (rl R1)) = dom (lat_map (rl R))"
    by (rule release_if_ready_inv [OF so \<open>id_ok i\<close> Cons.prems(2)])
  have "X - {i} - set ds = X - set (i # ds)" by auto
  with Cons.IH [OF _ R1(2)] Cons.prems(1) R1 show ?case by auto
qed auto

section \<open>Messages\<close>

text \<open>A change of one IROB that is not released, after which it may be ready.\<close>

lemma change_collecting:
  assumes inv: "recv_inv sent tr ids cur pre X L ready" and m: "lat_map L i = Some p"
    and p': "pi_id p' = pi_id p" "deps p' = deps p" "dependents p' = dependents p" "placeholder p' = placeholder p"
      "receiver_elt p'"
    and col: "collecting sent tr' (elems (past_irobs L)) i p'" and np: "\<not> released p"
    and tr: "tr \<subseteq> tr'" "\<forall>e\<in>tr' - tr. e = MEnd i \<or> (\<exists>k. e = MChunk i k)"
  shows "recv_inv sent tr' ids cur pre (insert i X) (lat_update i (\<lambda>_. p') L) ready"
proof -
  note D = recv_invD [OF inv]
  let ?m = "lat_map L" and ?past = "elems (past_irobs L)" and ?L' = "lat_update i (\<lambda>_. p') L"
  note ch = lat_inv_change [OF D(1) m p']
  have past: "past_irobs ?L' = past_irobs L" using ch(3) by (simp add: lat_rest_def)
  have np': "\<not> released p'" using col by (simp add: collecting_def)
  have other: "MBegin j \<in> tr' \<longleftrightarrow> MBegin j \<in> tr" "j \<noteq> i \<Longrightarrow> MEnd j \<in> tr' \<longleftrightarrow> MEnd j \<in> tr"
    "j \<noteq> i \<Longrightarrow> MChunk j k \<in> tr' \<longleftrightarrow> MChunk j k \<in> tr" for j k
    using tr by blast+
  have arr: "all_arrived sent tr j \<Longrightarrow> all_arrived sent tr' j" for j using tr(1) by (auto simp: all_arrived_def)
  have cur: "cur \<noteq> Some i" using D(7) m np by (auto simp: reading_ok_def split: option.splits)
  have "collecting sent tr' ?past j q" if "j \<noteq> i" "collecting sent tr ?past j q" for j q
    using that other by (simp add: collecting_def)
  moreover have "readable_irob sent tr' ?past j q" if "readable_irob sent tr ?past j q" for j q
    using that arr by (simp add: readable_irob_def)
  ultimately have "pending_ok sent tr' ?past (?m(i \<mapsto> p'))"
    using D(2) col unfolding pending_ok_def by (metis fun_upd_apply option.inject)
  moreover have "settled (insert i X) (?m(i \<mapsto> p'))" using D(3) by (auto simp: settled_def)
  moreover have "unseen_ok tr' ?past (?m(i \<mapsto> p'))" using D(4) other by (auto simp: unseen_ok_def)
  moreover have "history_ok sent tr' ids ?past" using D(5) arr by (auto simp: history_ok_def)
  moreover have "{j. cur \<noteq> Some j \<and> (\<exists>q. (?m(i \<mapsto> p')) j = Some q \<and> released q)} =
      {j. cur \<noteq> Some j \<and> (\<exists>q. ?m j = Some q \<and> released q)}" using m np np' by auto
  then have "queue_ok sent cur (?m(i \<mapsto> p')) ready" using D(6) by (simp add: queue_ok_def)
  moreover have "reading_ok sent cur pre (?m(i \<mapsto> p'))"
    using D(7) np' cur by (auto simp: reading_ok_def split: option.splits)
  ultimately show ?thesis unfolding recv_inv_def past ch(2) using ch(1) by blast
qed

text \<open>A message that repeats what a released or finished IROB already has.\<close>

lemma known_message:
  assumes "all_arrived sent tr i"
  shows "insert (MBegin i) tr = tr" "insert (MEnd i) tr = tr" "k < length (si_chunks (sent i)) \<Longrightarrow> insert (MChunk i k) tr = tr"
  using assms by (auto simp: all_arrived_def)

text \<open>The fields that chunks and end announcements leave alone.\<close>

definition same_place :: "receiver_irob \<Rightarrow> receiver_irob \<Rightarrow> bool" where
  "same_place p p' \<longleftrightarrow> pi_id p' = pi_id p \<and> deps p' = deps p \<and> dependents p' = dependents p \<and>
     placeholder p' = placeholder p \<and> released p' = released p \<and> send_labels p' = send_labels p"

lemma add_chunk_same_place: "receiver_add_chunk c p = Inr (b, p') \<Longrightarrow> same_place p p'"
  unfolding receiver_add_chunk_def Let_def bindE_eq_Inr ASSERT_def same_place_def
  by (elim exE conjE, simp split: if_splits) ((elim conjE)?, hypsubst, simp)+

lemma finish_same_place: "receiver_finish eb ec p = Inr (b, p') \<Longrightarrow> same_place p p' \<and> chunks p' = chunks p"
  unfolding receiver_finish_def Let_def bindE_eq_Inr ASSERT_def same_place_def
  by (elim exE conjE, simp split: if_splits) (elim conjE, hypsubst, simp)+

lemma recv_shape_store:
  assumes "recv_shape cs" and "data c \<noteq> None"
  shows "recv_shape ((if seqno c \<ge> length cs then resize (seqno c + 1) empty_chunk cs else cs)[seqno c := c])"
    (is "recv_shape ?cs'")
proof -
  have len: "length ?cs' = max (length cs) (Suc (seqno c))" by simp
  have nth: "?cs' ! k = (if k = seqno c then c else if k < length cs then cs ! k else empty_chunk)" if "k < length ?cs'" for k
    using that by (auto simp: nth_list_update nth_resize)
  have old: "\<forall>k<length cs. cs ! k = empty_chunk \<or> (data (cs ! k) \<noteq> None \<and> seqno (cs ! k) = k)"
    "cs \<noteq> [] \<longrightarrow> data (cs ! (length cs - 1)) \<noteq> None"
    using assms(1) by (auto simp: recv_shape_def last_conv_nth)
  have "0 < length ?cs'" unfolding len by simp
  then have ne: "?cs' \<noteq> []" by (rule length_greater_0_conv [THEN iffD1])
  have "data (?cs' ! (length ?cs' - 1)) \<noteq> None"
  proof (cases "seqno c < length cs")
    case True
    then show ?thesis using nth [of "length ?cs' - 1"] len old(2) assms(2) by (cases "seqno c = length cs - 1") auto
  next
    case False
    then show ?thesis using nth [of "length ?cs' - 1"] len assms(2) by auto
  qed
  moreover have "?cs' ! k = empty_chunk \<or> (data (?cs' ! k) \<noteq> None \<and> seqno (?cs' ! k) = k)" if "k < length ?cs'" for k
    using nth [OF that] old(1) assms(2) by auto
  ultimately show ?thesis unfolding recv_shape_def using ne last_conv_nth by metis
qed

lemma add_chunk_elt:
  assumes "receiver_elt p" and "data c \<noteq> None" and "receiver_add_chunk c p = Inr (b, p')"
  shows "receiver_elt p'"
proof (cases "placeholder p")
  case True
  then have sh: "recv_shape (chunks p)" using assms(1) by (simp add: receiver_elt_def)
  let ?cs' = "(if seqno c \<ge> length (chunks p) then resize (seqno c + 1) empty_chunk (chunks p) else chunks p)[seqno c := c]"
  have "chunks p' = chunks p \<or> chunks p' = ?cs'"
    using assms(3) by (auto simp: receiver_add_chunk_def Let_def result_simps nth_resize split: if_splits)
  then have "recv_shape (chunks p')" using sh recv_shape_store [OF sh assms(2)] by auto
  then show ?thesis by (simp add: receiver_elt_def)
next
  case False
  then show ?thesis using add_chunk_same_place [OF assms(3)] by (simp add: receiver_elt_def same_place_def)
qed

lemma finish_elt: "receiver_elt p \<Longrightarrow> receiver_finish eb ec p = Inr (b, p') \<Longrightarrow> receiver_elt p'"
  using finish_same_place [of eb ec p b p'] by (simp add: receiver_elt_def same_place_def)

lemma placeholder_fields [simp]:
  "\<not> released (receiver_placeholder i)" "fed cs (receiver_placeholder i)" "arrived (receiver_placeholder i) = {}"
  "\<not> complete (receiver_placeholder i)" "placeholder (receiver_placeholder i)"
  by (simp_all add: receiver_placeholder_def extend_receiver_def placeholder_irob_def pending_irob.defs
      receiver_irob.defs fed_def arrived_def)

lemma placeholder_collecting:
  assumes "unseen_ok tr past m" and "m i = None" and "i \<notin> past"
  shows "collecting sent tr past i (receiver_placeholder i)"
  using assms by (auto simp: collecting_def unseen_ok_def)

lemma find_or_placeholder_inv:
  assumes inv: "recv_inv sent tr ids cur pre X L ready" and i: "id_ok i" "i \<notin> elems (past_irobs L)"
  obtains L' p where "find_or_placeholder i L = Inr L'" "recv_inv sent tr ids cur pre X L' ready"
    "lat_map L' i = Some p" "past_irobs L' = past_irobs L"
proof (cases "lat_map L i")
  case (Some p)
  then show ?thesis using that [of L p] inv recv_inv_find [OF inv i(1)] by (simp add: find_or_placeholder_def)
next
  case None
  note D = recv_invD [OF inv]
  let ?past = "elems (past_irobs L)"
  obtain L' where L': "insert_locked receiver_placeholder receiver_subsume False (receiver_placeholder i) L = Inr (True, L')"
    "lat_inv receiver_elt L'" "lat_map L' = (lat_map L)(i \<mapsto> receiver_placeholder i)" "lat_rest L' = lat_rest L"
    by (rule rcv.insert_placeholder_spec [OF D(1) i None])
  have past: "past_irobs L' = past_irobs L" using L'(4) by (simp add: lat_rest_def)
  have "pending_ok sent tr ?past (lat_map L')"
    using D(2) placeholder_collecting [OF D(4) None i(2)] unfolding pending_ok_def L'(3) by auto
  moreover have "settled X (lat_map L')" using D(3) by (auto simp: settled_def L'(3) is_ready_def)
  moreover have "unseen_ok tr ?past (lat_map L')" using D(4) by (auto simp: unseen_ok_def L'(3))
  moreover have "queue_ok sent cur (lat_map L') ready" using D(6) None by (auto simp: queue_ok_def L'(3) split: if_splits)
  moreover have "reading_ok sent cur pre (lat_map L')"
    using D(7) None by (auto simp: reading_ok_def L'(3) split: option.splits)
  ultimately have "recv_inv sent tr ids cur pre X L' ready"
    unfolding recv_inv_def past using L'(2) D(5) by blast
  then show ?thesis
    using that [of L'] L' past None recv_inv_find [OF inv i(1)] by (simp add: find_or_placeholder_def)
qed

lemma collecting_change:
  assumes "collecting sent tr past i p" and "same_place p p'" and "fed (si_chunks (sent i)) p'"
    and "arrived p' = {k. MChunk i k \<in> tr'}" and "complete p' \<longleftrightarrow> MEnd i \<in> tr'" and "MBegin i \<in> tr' \<longleftrightarrow> MBegin i \<in> tr"
  shows "collecting sent tr' past i p'"
  using assms by (simp add: collecting_def same_place_def)

lemma chunk_inv:
  assumes so: "sent_ok sent" and inv: "recv_inv sent tr ids cur pre X L ready"
    and m: "lat_map L i = Some p" and k: "k < length (si_chunks (sent i))"
  obtains b p' where "receiver_add_chunk (si_chunks (sent i) ! k) p = Inr (b, p')" "b \<or> is_complete p' = Inr True"
    "recv_inv sent (insert (MChunk i k) tr) ids cur pre (insert i X) (lat_update i (\<lambda>_. p') L) ready"
proof -
  let ?cs = "si_chunks (sent i)" and ?past = "elems (past_irobs L)" and ?tr = "insert (MChunk i k) tr"
  note D = recv_invD [OF inv]
  have i: "id_ok i" by (rule lattice_wfD(6) [OF lat_invD(1) [OF D(1)] m])
  note sl = sent_okD(1) [OF so i]
  have dat: "data (?cs ! k) \<noteq> None" using sl k by (auto simp: sent_list_def filled_def)
  consider "collecting sent tr ?past i p" | "readable_irob sent tr ?past i p" using D(2) m by (auto simp: pending_ok_def)
  then show ?thesis
  proof cases
    case 1
    then have f: "fed ?cs p" "\<not> released p" by (simp_all add: collecting_def)
    obtain b p' where p': "receiver_add_chunk (?cs ! k) p = Inr (b, p')" "fed ?cs p'"
      "arrived p' = insert k (arrived p)" "complete p' = complete p" "b \<longleftrightarrow> \<not> (complete p \<and> arrived p = {..<length ?cs})"
      by (rule fed_add_chunk [OF sl f(1) k])
    have sp: "same_place p p'" by (rule add_chunk_same_place [OF p'(1)])
    have col: "collecting sent ?tr ?past i p'"
      by (rule collecting_change [OF 1 sp p'(2)]) (use 1 p'(3,4) in \<open>auto simp: collecting_def\<close>)
    have elt: "receiver_elt p'"
      using add_chunk_elt [OF irob_okD(1) [OF lat_invD(2) [OF D(1) m]] dat p'(1)] .
    have "b \<or> is_complete p' = Inr True"
      using fed_is_complete [OF sl p'(2)] p'(3,4,5) k by (auto simp: insert_absorb)
    moreover have "recv_inv sent ?tr ids cur pre (insert i X) (lat_update i (\<lambda>_. p') L) ready"
      by (rule change_collecting [OF inv m _ _ _ _ elt col f(2)]) (use sp in \<open>auto simp: same_place_def\<close>)
    ultimately show ?thesis using that p'(1) by blast
  next
    case 2
    then have c: "is_complete p = Inr True" "?tr = tr" using known_message(3) [of sent tr i k] k by (simp_all add: readable_irob_def)
    have "receiver_add_chunk (?cs ! k) p = Inr (False, p)" using c(1) by (simp add: receiver_add_chunk_def)
    moreover have "lat_update i (\<lambda>_. p) L = L" using lat_update_same recv_inv_find [OF inv i] m by simp
    moreover have "recv_inv sent tr ids cur pre (insert i X) L ready" using inv by (auto simp: recv_inv_def settled_def)
    ultimately show ?thesis using that [of False p] c by simp
  qed
qed

lemma end_inv:
  assumes so: "sent_ok sent" and inv: "recv_inv sent tr ids cur pre X L ready" and m: "lat_map L i = Some p"
  obtains b p' where
    "receiver_finish (int (tot_len (si_chunks (sent i)))) (int (length (si_chunks (sent i)))) p = Inr (b, p')"
    "recv_inv sent (insert (MEnd i) tr) ids cur pre (insert i X) (lat_update i (\<lambda>_. p') L) ready"
proof -
  let ?cs = "si_chunks (sent i)" and ?past = "elems (past_irobs L)" and ?tr = "insert (MEnd i) tr"
  note D = recv_invD [OF inv]
  have i: "id_ok i" by (rule lattice_wfD(6) [OF lat_invD(1) [OF D(1)] m])
  note sl = sent_okD(1) [OF so i]
  consider "collecting sent tr ?past i p" | "readable_irob sent tr ?past i p" using D(2) m by (auto simp: pending_ok_def)
  then show ?thesis
  proof cases
    case 1
    then have f: "fed ?cs p" "\<not> released p" by (simp_all add: collecting_def)
    obtain b p' where p': "receiver_finish (int (tot_len ?cs)) (int (length ?cs)) p = Inr (b, p')" "fed ?cs p'"
      "arrived p' = arrived p" "complete p'"
      by (rule fed_finish [OF sl f(1)])
    have sp: "same_place p p'" using finish_same_place [OF p'(1)] by simp
    have col: "collecting sent ?tr ?past i p'"
      by (rule collecting_change [OF 1 sp p'(2)]) (use 1 p'(3,4) in \<open>auto simp: collecting_def\<close>)
    have elt: "receiver_elt p'" by (rule finish_elt [OF irob_okD(1) [OF lat_invD(2) [OF D(1) m]] p'(1)])
    have "recv_inv sent ?tr ids cur pre (insert i X) (lat_update i (\<lambda>_. p') L) ready"
      by (rule change_collecting [OF inv m _ _ _ _ elt col f(2)]) (use sp in \<open>auto simp: same_place_def\<close>)
    then show ?thesis using that p'(1) by blast
  next
    case 2
    then have c: "is_complete p = Inr True" "?tr = tr" using known_message(2) [of sent tr i] by (simp_all add: readable_irob_def)
    have "receiver_finish eb ec p = Inr (False, p)" for eb ec using c(1) by (simp add: receiver_finish_def)
    moreover have "lat_update i (\<lambda>_. p) L = L" using lat_update_same recv_inv_find [OF inv i] m by simp
    moreover have "recv_inv sent tr ids cur pre (insert i X) L ready" using inv by (auto simp: recv_inv_def settled_def)
    ultimately show ?thesis using that [of False p] c by simp
  qed
qed

lemma dependents_simps [simp]:
  "fed cs (p\<lparr>dependents := D\<rparr>) = fed cs p" "arrived (p\<lparr>dependents := D\<rparr>) = arrived p"
  "is_complete (p\<lparr>dependents := D\<rparr>) = is_complete p" "is_ready (p\<lparr>dependents := D\<rparr>) = is_ready p"
  "fed cs (p\<lparr>deps := E\<rparr>) = fed cs p" "arrived (p\<lparr>deps := E\<rparr>) = arrived p"
  by (simp_all add: fed_def arrived_def is_complete_def all_chunks_complete_def is_ready_def)

lemma content_dependents [simp]: "content (p\<lparr>dependents := D\<rparr>) = content p" "readable (p\<lparr>dependents := D\<rparr>) = readable p"
proof -
  show c: "content (p\<lparr>dependents := D\<rparr>) = content p"
    by (cases "data (partial_chunk p)") (simp_all add: content_def)
  show "readable (p\<lparr>dependents := D\<rparr>) = readable p" by (simp add: readable_def c)
qed

lemma add_dependent_state [simp]:
  "collecting sent tr past j (add_dependent i p) = collecting sent tr past j p"
  "readable_irob sent tr past j (add_dependent i p) = readable_irob sent tr past j p"
  "released (add_dependent i p) = released p" "content (add_dependent i p) = content p"
  "is_complete (add_dependent i p) = is_complete p" "is_ready (add_dependent i p) = is_ready p"
  by (simp_all add: add_dependent_def collecting_def readable_irob_def)

lemma reading_ok_transfer:
  assumes r: "reading_ok sent cur pre m"
    and old: "\<And>j q. m' j = Some q \<Longrightarrow> released q \<Longrightarrow> \<exists>q0. m j = Some q0 \<and> released q0 \<and> content q = content q0"
    and new: "\<And>j q. m j = Some q \<Longrightarrow> released q \<Longrightarrow> cur = Some j \<Longrightarrow> \<exists>q'. m' j = Some q' \<and> released q' \<and> content q' = content q"
  shows "reading_ok sent cur pre m'"
proof -
  have others: "content q = si_bytes (sent j)" if "m' j = Some q" "released q" "cur \<noteq> Some j" for j q
    using old [OF that(1,2)] r that(3) by (auto simp: reading_ok_def)
  show ?thesis
  proof (cases cur)
    case None
    then show ?thesis using r others by (simp add: reading_ok_def)
  next
    case (Some a)
    then obtain p where p: "m a = Some p" "released p" "content p \<noteq> []" "pre @ content p = si_bytes (sent a)"
      using r by (auto simp: reading_ok_def)
    obtain q' where "m' a = Some q'" "released q'" "content q' = content p" using new [OF p(1,2) Some] by blast
    then show ?thesis using Some p others by (simp add: reading_ok_def)
  qed
qed

text \<open>The announced IROB as it enters the lattice.\<close>

lemma merged_collecting:
  assumes inv: "recv_inv sent tr ids cur pre X L ready"
    and p: "receiver_fresh p" "fed (si_chunks (sent (pi_id p))) p" "arrived p = {}" "send_labels p = si_labels (sent (pi_id p))"
    and ph: "\<forall>q. lat_map L (pi_id p) = Some q \<longrightarrow> placeholder q" and new: "pi_id p \<notin> elems (past_irobs L)"
    and D: "D = set (si_deps (sent (pi_id p))) - elems (past_irobs L)"
  shows "collecting sent (insert (MBegin (pi_id p)) tr) (elems (past_irobs L)) (pi_id p) ((rcv.merged p L)\<lparr>deps := D\<rparr>)"
proof (cases "lat_map L (pi_id p)")
  case None
  then have "MEnd (pi_id p) \<notin> tr \<and> (\<forall>k. MChunk (pi_id p) k \<notin> tr)"
    using recv_invD(4) [OF inv] new by (auto simp: unseen_ok_def)
  then show ?thesis using None p by (simp add: rcv.merged_def collecting_def D receiver_fresh_def blank_def)
next
  case (Some q)
  have q: "placeholder q" using ph Some by simp
  then have col: "collecting sent tr (elems (past_irobs L)) (pi_id p) q"
    using recv_invD(2) [OF inv] Some by (auto simp: pending_ok_def readable_irob_def)
  have "recv_shape (chunks q)"
    using irob_okD(1) [OF lat_invD(2) [OF recv_invD(1) [OF inv] Some]] q by (simp add: receiver_elt_def)
  note sub = receiver_subsume_eq [OF p(1) this]
  let ?p' = "(rcv.merged p L)\<lparr>deps := D\<rparr>"
  have "chunks ?p' = chunks q" "complete ?p' = complete q" "rnum_bytes ?p' = rnum_bytes q"
    "expected_bytes ?p' = expected_bytes q" "expected_chunks ?p' = expected_chunks q" "recvd_bytes ?p' = recvd_bytes q"
    "recvd_chunks ?p' = recvd_chunks q" "partial_chunk ?p' = partial_chunk q"
    using Some sub by (simp_all add: rcv.merged_def)
  then have "fed cs ?p' = fed cs q" "arrived ?p' = arrived q" "complete ?p' = complete q" for cs
    by (simp_all add: fed_def arrived_def)
  moreover have "\<not> released ?p'" "\<not> placeholder ?p'" "send_labels ?p' = send_labels p" "deps ?p' = D"
    using Some sub p(1) by (simp_all add: rcv.merged_def receiver_fresh_def blank_def)
  ultimately show ?thesis using col p(4) D by (simp add: collecting_def)
qed

lemma begin_inv:
  assumes so: "sent_ok sent" and inv: "recv_inv sent tr ids cur pre X L ready" and i: "id_ok (pi_id p)"
    and p: "receiver_fresh p" "fed (si_chunks (sent (pi_id p))) p" "arrived p = {}"
      "send_labels p = si_labels (sent (pi_id p))" "deps p = set (si_deps (sent (pi_id p)))"
  obtains (refused) "insert_locked receiver_placeholder receiver_subsume False p L = Inr (False, L)"
      "recv_inv sent (insert (MBegin (pi_id p)) tr) ids cur pre X L ready"
  | (inserted) L' where "insert_locked receiver_placeholder receiver_subsume False p L = Inr (True, L')"
      "recv_inv sent (insert (MBegin (pi_id p)) tr) ids cur pre (insert (pi_id p) X) L' ready"
      "lat_map L' (pi_id p) \<noteq> None"
proof -
  let ?i = "pi_id p" and ?past = "elems (past_irobs L)" and ?m = "lat_map L"
  note Dv = recv_invD [OF inv]
  show ?thesis
  proof (cases "?i \<in> ?past \<or> (\<exists>q. ?m ?i = Some q \<and> \<not> placeholder q)")
    case True
    then have "MBegin ?i \<in> tr"
      using Dv(2,5) by (auto simp: history_ok_def all_arrived_def pending_ok_def collecting_def readable_irob_def)
    then show ?thesis using refused rcv.insert_refused [OF Dv(1) True] inv by (simp add: insert_absorb)
  next
    case False
    then have new: "?i \<notin> ?past" and ph: "\<forall>q. ?m ?i = Some q \<longrightarrow> placeholder q" by auto
    let ?D = "set (si_deps (sent ?i)) - ?past" and ?tr = "insert (MBegin ?i) tr"
    let ?p2 = "(rcv.merged p L)\<lparr>deps := ?D\<rparr>"
    have D: "?D = corrected_deps False (anonymous p) (deps p) L" using p(5) by (simp add: corrected_deps_def)
    have fin: "finite (deps p)" "\<forall>d\<in>deps p. id_ok d" using p(5) sent_okD(5) [OF so i] by auto
    obtain L' where L': "insert_locked receiver_placeholder receiver_subsume False p L = Inr (True, L')"
      "lat_inv receiver_elt L'" "lat_map L' = link_map receiver_placeholder ?i (?D - ?past) (?m(?i \<mapsto> ?p2))"
      "lat_rest L' = (corrected_last False (anonymous p) ?i L, lat_count L + 1,
         corrected_mds False (anonymous p) ?i (deps p) L, past_irobs L, dropped_irobs L)"
      by (rule rcv.insert_spec [OF Dv(1) p(1) fin i new ph D])
    have past: "past_irobs L' = past_irobs L" using L'(4) by (simp add: lat_rest_def)
    have col2: "collecting sent ?tr ?past ?i ?p2" by (rule merged_collecting [OF inv p(1-4) ph new refl])
    then have np2: "\<not> released ?p2" by (simp add: collecting_def)
    have mono: "collecting sent ?tr ?past j q" if "collecting sent tr ?past j q" "j \<noteq> ?i" for j q
      using that by (auto simp: collecting_def)
    have monor: "readable_irob sent ?tr ?past j q" if "readable_irob sent tr ?past j q" for j q
      using that by (auto simp: readable_irob_def all_arrived_def)
    have cases: "\<exists>q0. (q = q0 \<or> q = add_dependent ?i q0) \<and>
        (if j = ?i then q0 = ?p2 else case ?m j of Some q1 \<Rightarrow> q0 = q1 | None \<Rightarrow> q0 = receiver_placeholder j \<and> j \<notin> ?past)"
      if "lat_map L' j = Some q" for j q
      using that by (auto simp: L'(3) link_map_def split: if_splits option.splits)
    have dom: "?m j = None \<and> j \<noteq> ?i" if "lat_map L' j = None" for j
      using that by (auto simp: L'(3) link_map_def split: if_splits)
    have "collecting sent ?tr ?past j q \<or> readable_irob sent ?tr ?past j q" if st: "lat_map L' j = Some q" for j q
    proof -
      obtain q0 where q0: "q = q0 \<or> q = add_dependent ?i q0" "if j = ?i then q0 = ?p2
          else case ?m j of Some q1 \<Rightarrow> q0 = q1 | None \<Rightarrow> q0 = receiver_placeholder j \<and> j \<notin> ?past"
        using cases [OF st] by blast
      have "collecting sent ?tr ?past j q0 \<or> readable_irob sent ?tr ?past j q0"
      proof (cases "j = ?i")
        case True
        then show ?thesis using q0(2) col2 by simp
      next
        case False
        have "collecting sent tr ?past j q0 \<or> readable_irob sent tr ?past j q0"
          using q0(2) False Dv(2) placeholder_collecting [OF Dv(4), of j]
          by (auto simp: pending_ok_def split: option.splits)
        then show ?thesis using mono monor False by blast
      qed
      then show ?thesis using q0(1) by auto
    qed
    then have "pending_ok sent ?tr ?past (lat_map L')" by (simp add: pending_ok_def)
    moreover have "settled (insert ?i X) (lat_map L')"
      unfolding settled_def
    proof (intro allI impI)
      fix j q assume st: "lat_map L' j = Some q" "\<not> released q" "is_complete q = Inr True" "is_ready q"
      obtain q0 where q0: "q = q0 \<or> q = add_dependent ?i q0" "if j = ?i then q0 = ?p2
          else case ?m j of Some q1 \<Rightarrow> q0 = q1 | None \<Rightarrow> q0 = receiver_placeholder j \<and> j \<notin> ?past"
        using cases [OF st(1)] by blast
      have "j = ?i \<or> ?m j = Some q0 \<or> placeholder q0" using q0(2) by (cases "?m j") (auto split: if_splits)
      with q0(1) have "j = ?i \<or> (?m j = Some q0 \<and> \<not> released q0 \<and> is_complete q0 = Inr True \<and> is_ready q0)"
        using st(2-4) by (auto simp: is_ready_def add_dependent_def)
      then show "j \<in> insert ?i X" using Dv(3) by (auto simp: settled_def)
    qed
    moreover have "unseen_ok ?tr ?past (lat_map L')"
      using Dv(4) dom unfolding unseen_ok_def by blast
    moreover have "history_ok sent ?tr ids ?past" using Dv(5) by (auto simp: history_ok_def all_arrived_def)
    moreover have rel: "(\<exists>q. lat_map L' j = Some q \<and> released q) \<longleftrightarrow> (\<exists>q. ?m j = Some q \<and> released q)" for j
    proof -
      have "\<not> released q" if "?m ?i = Some q" for q
        using Dv(2) that ph by (auto simp: pending_ok_def collecting_def readable_irob_def)
      then show ?thesis
        using np2 by (cases "j = ?i") (auto simp: L'(3) link_map_def split: option.splits)
    qed
    then have "queue_ok sent cur (lat_map L') ready" using Dv(6) by (simp add: queue_ok_def)
    moreover have old: "\<exists>q0. ?m j = Some q0 \<and> released q0 \<and> content q = content q0"
      if "lat_map L' j = Some q" "released q" for j q
      using cases [OF that(1)] that(2) np2 by (auto split: if_splits option.splits)
    moreover have "\<exists>q. lat_map L' j = Some q \<and> released q \<and> content q = content q0"
      if q0: "?m j = Some q0" "released q0" for j q0
    proof -
      obtain q where q: "lat_map L' j = Some q" "released q" using rel [of j] q0 by blast
      then show ?thesis using old [OF q] q0 by auto
    qed
    with old have "reading_ok sent cur pre (lat_map L')" by (intro reading_ok_transfer [OF Dv(7)]) blast+
    ultimately have "recv_inv sent ?tr ids cur pre (insert ?i X) L' ready"
      unfolding recv_inv_def past using L'(2) by blast
    then show ?thesis using inserted [OF L'(1)] dom by blast
  qed
qed

end
