(* ===== verification/Recv_Inv.thy ===== *)
theory Recv_Inv
  imports Delivery_Inv
begin

text \<open>
  \<^verbatim>\<open>recv\<close> keeps the invariant of the receiver's lattice: each round of its loop hands a non-empty part
  of one released IROB to the application, and after the last byte of an IROB its dependents are
  released.
\<close>

section \<open>Reading a part of an IROB\<close>

lemma read_frame_complete:
  assumes "read_frame p p'" and "readable p'" and "is_complete p = Inr True"
  shows "is_complete p' = Inr True"
proof -
  have "all_chunks_complete p'" using assms(2) by (auto simp: all_chunks_complete_def list_all_iff readable_def filled_def)
  then show ?thesis using assms(1,3)
    by (auto simp: is_complete_def read_frame_def ASSERT_def split: if_splits)
qed

lemma read_frame_readable:
  assumes "readable_irob sent tr past i p" and "read_frame p p'" and "readable p'"
  shows "readable_irob sent tr past i p'"
  using assms read_frame_complete [OF assms(2,3)] by (simp add: readable_irob_def read_frame_def)

lemma read_frame_place:
  assumes "read_frame p p'" and "\<not> placeholder p"
  shows "pi_id p' = pi_id p" "deps p' = deps p" "dependents p' = dependents p" "placeholder p' = placeholder p"
    "receiver_elt p'"
  using assms by (simp_all add: read_frame_def receiver_elt_def)

lemma read_part_inv:
  assumes inv: "recv_inv sent tr ids (Some i) pre X L ready" and m: "lat_map L i = Some p"
    and p': "read_frame p p'" "readable p'" "content p' \<noteq> []" "pre' @ content p' = si_bytes (sent i)"
  shows "recv_inv sent tr ids (Some i) pre' X (lat_update i (\<lambda>_. p') L) ready"
proof -
  note D = recv_invD [OF inv]
  let ?m = "lat_map L" and ?past = "elems (past_irobs L)" and ?L' = "lat_update i (\<lambda>_. p') L"
  have r: "released p" using D(7) m by (auto simp: reading_ok_def)
  then have rd: "readable_irob sent tr ?past i p" using D(2) m by (auto simp: pending_ok_def collecting_def)
  then have np: "\<not> placeholder p" by (simp add: readable_irob_def)
  note ch = lat_inv_change [OF D(1) m read_frame_place [OF p'(1) np]]
  have past: "past_irobs ?L' = past_irobs L" using ch(3) by (simp add: lat_rest_def)
  have r': "released p'" using r p'(1) by (simp add: read_frame_def)
  have "pending_ok sent tr ?past (?m(i \<mapsto> p'))"
    using D(2) read_frame_readable [OF rd p'(1,2)] by (auto simp: pending_ok_def)
  moreover have "settled X (?m(i \<mapsto> p'))" using D(3) r' by (auto simp: settled_def)
  moreover have "unseen_ok tr ?past (?m(i \<mapsto> p'))" using D(4) by (auto simp: unseen_ok_def)
  moreover have "{j. Some i \<noteq> Some j \<and> (\<exists>q. (?m(i \<mapsto> p')) j = Some q \<and> released q)} =
      {j. Some i \<noteq> Some j \<and> (\<exists>q. ?m j = Some q \<and> released q)}" by auto
  then have "queue_ok sent (Some i) (?m(i \<mapsto> p')) ready" using D(6) by (simp add: queue_ok_def)
  moreover have "reading_ok sent (Some i) pre' (?m(i \<mapsto> p'))"
    using D(7) p'(3,4) r' by (auto simp: reading_ok_def)
  ultimately show ?thesis unfolding recv_inv_def past ch(2) using ch(1) D(5) by blast
qed

section \<open>Reading the rest of an IROB\<close>

lemma dep_satisfied_state:
  "released (dep_satisfied i q) = released q" "is_complete (dep_satisfied i q) = is_complete q"
  "content (dep_satisfied i q) = content q"
proof -
  show "released (dep_satisfied i q) = released q" "is_complete (dep_satisfied i q) = is_complete q"
    by (simp_all add: dep_satisfied_def is_complete_def all_chunks_complete_def)
  show "content (dep_satisfied i q) = content q"
    by (cases "data (partial_chunk q)") (simp_all add: dep_satisfied_def content_def)
qed

lemma history_ok_snoc:
  assumes "history_ok sent tr ids past" and "i \<notin> past" and "id_ok i" and "all_arrived sent tr i"
    and "set (si_deps (sent i)) \<subseteq> past"
  shows "history_ok sent tr (ids @ [i]) (insert i past)"
proof -
  have "set (si_deps (sent k)) \<subseteq> set xs" if "ids @ [i] = xs @ k # ys" for xs k ys
  proof (cases ys rule: rev_cases)
    case Nil
    then show ?thesis using that assms by (auto simp: history_ok_def)
  next
    case (snoc ys' z)
    then have "ids = xs @ k # ys'" using that by simp
    then show ?thesis using assms(1) unfolding history_ok_def by blast
  qed
  then show ?thesis using assms unfolding history_ok_def by auto
qed

lemma pending_ok_erase:
  assumes po: "pending_ok sent tr past m" and lk: "linked past m" and i: "m i = Some p" "i \<notin> past"
    and ph: "\<And>j q. m j = Some q \<Longrightarrow> placeholder q \<Longrightarrow> deps q = {}"
  shows "pending_ok sent tr (insert i past) (erase_map i True m)"
  unfolding pending_ok_def
proof (intro allI impI)
  fix j q' assume "erase_map i True m j = Some q'"
  then obtain q where q: "j \<noteq> i" "m j = Some q" "q' = (if j \<in> dependents p then dep_satisfied i q else q)"
    using i(1) by (auto simp: erase_map_def split: if_splits)
  have dep: "deps q' = deps q - {i}"
  proof (cases "j \<in> dependents p")
    case True
    then show ?thesis using q(3) by (simp add: dep_satisfied_def)
  next
    case False
    have "i \<notin> deps q" using lk q(2) i False unfolding linked_def by fastforce
    then show ?thesis using q(3) False by simp
  qed
  have same: "released q' = released q" "fed cs q' = fed cs q" "arrived q' = arrived q" "complete q' = complete q"
    "placeholder q' = placeholder q" "send_labels q' = send_labels q" "is_complete q' = is_complete q"
    "readable q' = readable q" for cs
    using q(3) dep_satisfied_state [of i q] by (auto simp: dep_satisfied_def fed_def arrived_def readable_def)
  consider "collecting sent tr past j q" | "readable_irob sent tr past j q" using po q(2) by (auto simp: pending_ok_def)
  then show "collecting sent tr (insert i past) j q' \<or> readable_irob sent tr (insert i past) j q'"
  proof cases
    case 1
    then have "collecting sent tr (insert i past) j q'" using dep by (auto simp: collecting_def same)
    then show ?thesis ..
  next
    case 2
    then have "readable_irob sent tr (insert i past) j q'" using dep by (auto simp: readable_irob_def same)
    then show ?thesis ..
  qed
qed

lemma read_all_inv:
  assumes inv: "recv_inv sent tr ids (Some i) pre {} L ready" and m: "lat_map L i = Some p"
    and p': "read_frame p p'" "readable p'"
  obtains L' where "erase_locked i True (lat_update i (\<lambda>_. p') L) = (True, L')"
    "recv_inv sent tr (ids @ [i]) None [] (dependents p') L' ready"
    "finite (dependents p')" "\<forall>d\<in>dependents p'. id_ok d"
proof -
  note D = recv_invD [OF inv]
  let ?m = "lat_map L" and ?past = "elems (past_irobs L)" and ?L1 = "lat_update i (\<lambda>_. p') L"
  have r: "released p" using D(7) m by (auto simp: reading_ok_def)
  then have rd: "readable_irob sent tr ?past i p" using D(2) m by (auto simp: pending_ok_def collecting_def)
  then have np: "\<not> placeholder p" by (simp add: readable_irob_def)
  note ch = lat_inv_change [OF D(1) m read_frame_place [OF p'(1) np]]
  have past1: "past_irobs ?L1 = past_irobs L" using ch(3) by (simp add: lat_rest_def)
  have m1: "lat_map ?L1 i = Some p'" by (simp add: ch(2))
  obtain L' where L': "erase_locked i True ?L1 = (True, L')" "lat_map L' = erase_map i True (lat_map ?L1)"
    "lat_inv receiver_elt L'" "past_irobs L' = insert_num (past_irobs ?L1) i"
    by (rule rcv.erase_spec [OF ch(1) m1, of True])
  have past: "elems (past_irobs L') = insert i ?past" using L'(4) past1 by simp
  have ip: "i \<notin> ?past" by (rule lattice_wfD(5) [OF lat_invD(1) [OF D(1)] m])
  have iok: "id_ok i" by (rule lattice_wfD(6) [OF lat_invD(1) [OF D(1)] m])
  have dp: "finite (dependents p')" "\<forall>d\<in>dependents p'. id_ok d"
    using irob_okD(3,5) [OF lat_invD(2) [OF ch(1) m1]] by auto
  have old: "\<exists>q. j \<noteq> i \<and> ?m j = Some q \<and> (q' = q \<or> (j \<in> dependents p' \<and> q' = dep_satisfied i q))"
    if "lat_map L' j = Some q'" for j q'
    using that by (auto simp: L'(2) erase_map_def ch(2) split: if_splits)
  have new: "\<exists>q'. lat_map L' j = Some q' \<and> (q' = q \<or> q' = dep_satisfied i q)" if "?m j = Some q" "j \<noteq> i" for j q
    using that by (auto simp: L'(2) erase_map_def ch(2))
  have "pending_ok sent tr ?past (?m(i \<mapsto> p'))"
    using D(2) read_frame_readable [OF rd p'] by (auto simp: pending_ok_def)
  moreover have "linked ?past (?m(i \<mapsto> p'))" using lat_invD(3) [OF ch(1)] by (simp add: ch(2) past1)
  ultimately have "pending_ok sent tr (insert i ?past) (lat_map L')"
    unfolding L'(2) ch(2) by (rule pending_ok_erase [of _ _ _ _ i p'])
      (use ip irob_okD(6) [OF lat_invD(2) [OF ch(1)]] in \<open>auto simp: ch(2)\<close>)
  moreover have "settled (dependents p') (lat_map L')"
    unfolding settled_def using old D(3) by (fastforce simp: settled_def)
  moreover have "unseen_ok tr (insert i ?past) (lat_map L')"
    unfolding unseen_ok_def
  proof (intro allI impI)
    fix j assume j: "lat_map L' j = None" "j \<notin> insert i ?past"
    then have "?m j = None" using new [of j] by (cases "?m j") auto
    then show "MBegin j \<notin> tr \<and> MEnd j \<notin> tr \<and> (\<forall>k. MChunk j k \<notin> tr)" using D(4) j(2) unfolding unseen_ok_def by blast
  qed
  moreover have "history_ok sent tr (ids @ [i]) (insert i ?past)"
    by (rule history_ok_snoc [OF D(5) ip iok]) (use rd in \<open>simp_all add: readable_irob_def\<close>)
  moreover have "(\<exists>q'. lat_map L' j = Some q' \<and> released q') \<longleftrightarrow> j \<noteq> i \<and> (\<exists>q. ?m j = Some q \<and> released q)" for j
    using old [of j] new [of j] dep_satisfied_state(1) [of i] by metis
  then have "queue_ok sent None (lat_map L') ready" using D(6) by (auto simp: queue_ok_def)
  moreover have "reading_ok sent None [] (lat_map L')"
  proof -
    have "content q' = si_bytes (sent j)" if "lat_map L' j = Some q'" "released q'" for j q'
      using old [OF that(1)] that(2) D(7) dep_satisfied_state [of i] by (auto simp: reading_ok_def)
    then show ?thesis by (simp add: reading_ok_def)
  qed
  ultimately have "recv_inv sent tr (ids @ [i]) None [] (dependents p') L' ready"
    unfolding recv_inv_def past using L'(3) by blast
  then show ?thesis using that L'(1) dp by blast
qed

section \<open>The loop of recv\<close>

text \<open>The bytes of the IROBs read completely.\<close>

abbreviation read_so_far :: "(int \<Rightarrow> sent_irob) \<Rightarrow> int list \<Rightarrow> byte list" where
  "read_so_far sent ids \<equiv> concat (map (\<lambda>i. si_bytes (sent i)) ids)"

lemma consume_irob_inv:
  assumes so: "sent_ok sent" and inv: "recv_inv sent tr ids (Some i) pre {} (rl R) (ready_irobs R)"
    and R: "partially_read_irob R = None" and fl: "\<not> MSG_PEEK flags" and len: "length buf < len"
  obtains more bytes R' ids' cur' pre' where
    "consume_irob flags i len buf labels R =
       Inr (more, buf @ bytes, if buf = [] then Some (si_labels (sent i)) else labels, R')"
    "bytes \<noteq> []" "length (buf @ bytes) \<le> len"
    "recv_inv sent tr ids' cur' pre' {} (rl R') (ready_irobs R')" "partially_read_irob R' = cur'"
    "read_so_far sent ids' @ pre' = read_so_far sent ids @ pre @ bytes"
proof -
  note D = recv_invD [OF inv]
  let ?past = "elems (past_irobs (rl R))"
  obtain p where p: "lat_map (rl R) i = Some p" "released p" "content p \<noteq> []" "pre @ content p = si_bytes (sent i)"
    using D(7) by (auto simp: reading_ok_def)
  then have rd: "readable_irob sent tr ?past i p" using D(2) by (auto simp: pending_ok_def collecting_def)
  then have ok: "readable p" "is_complete p = Inr True" "is_ready p" "send_labels p = si_labels (sent i)"
    by (simp_all add: readable_irob_def is_ready_def)
  have iok: "id_ok i" by (rule lattice_wfD(6) [OF lat_invD(1) [OF D(1)] p(1)])
  have find: "find_locked (rl R) i = Some p" using recv_inv_find [OF inv iok] p(1) by simp
  let ?n = "len - length buf"
  define bytes where "bytes = take ?n (content p)"
  have pos: "0 < ?n" using len by simp
  have bytes: "bytes \<noteq> []" "length bytes \<le> ?n" "length bytes \<le> length (content p)" "take (length bytes) (content p) = bytes"
    using p(3) pos by (auto simp: bytes_def min_def)
  have read: "read_data ?n p = Inr bytes" unfolding bytes_def by (rule read_data_take [OF ok(1) pos])
  obtain p1 where p1: "remove_bytes (length bytes) p = Inr p1" "content p1 = drop (length bytes) (content p)"
    "readable p1" "read_frame p p1"
    by (rule remove_bytes_drop [OF ok(1) _ bytes(3)]) (use bytes(1) in auto)
  have split: "bytes @ content p1 = content p" using bytes(4) p1(2) by (metis append_take_drop_id)
  have c1: "is_complete p1 = Inr True" by (rule read_frame_complete [OF p1(4,3) ok(2)])
  have nz: "rnum_bytes p \<noteq> 0" "rnum_bytes p1 = int (length (content p1))" using ok(1) p(3) p1(3) by (simp_all add: readable_def)
  let ?lab = "if buf = [] then Some (si_labels (sent i)) else labels"
  let ?L1 = "lat_update i (\<lambda>_. p1) (rl R)"
  have step: "consume_irob flags i len buf labels R =
      (if content p1 = []
       then bindE (release_dependents p1 (R\<lparr>rl := snd (erase_locked i True ?L1)\<rparr>)) (\<lambda>R3.
              Inr (MSG_WAITALL flags, buf @ bytes, ?lab, R3))
       else Inr (True, buf @ bytes, ?lab, R\<lparr>rl := ?L1, partially_read_irob := Some i\<rparr>))"
    using find nz ok fl c1 p1(1) R by (simp add: consume_irob_def read)
  have total: "length (buf @ bytes) \<le> len" using bytes(2) len by simp
  show ?thesis
  proof (cases "content p1 = []")
    case True
    obtain L' where L': "erase_locked i True ?L1 = (True, L')"
      "recv_inv sent tr (ids @ [i]) None [] (dependents p1) L' (ready_irobs R)"
      "finite (dependents p1)" "\<forall>d\<in>dependents p1. id_ok d"
      by (rule read_all_inv [OF inv p(1) p1(4,3)])
    let ?R2 = "R\<lparr>rl := L'\<rparr>"
    have inv2: "recv_inv sent tr (ids @ [i]) None [] (dependents p1) (rl ?R2) (ready_irobs ?R2)" using L'(2) by simp
    obtain R3 where R3: "release_dependents p1 ?R2 = Inr R3"
      "recv_inv sent tr (ids @ [i]) None [] {} (rl R3) (ready_irobs R3)" "partially_read_irob R3 = None"
      using release_all_inv [OF so _ inv2, of "iter_set (dependents p1)"] L'(3,4) R
      by (auto simp: release_dependents_def)
    have "consume_irob flags i len buf labels R = Inr (MSG_WAITALL flags, buf @ bytes, ?lab, R3)"
      using True L'(1) R3(1) by (simp add: step)
    moreover have "read_so_far sent (ids @ [i]) @ [] = read_so_far sent ids @ pre @ bytes"
      using split True p(4) by simp
    ultimately show ?thesis using that bytes(1) total R3(2,3) by blast
  next
    case False
    have "recv_inv sent tr ids (Some i) (pre @ bytes) {} ?L1 (ready_irobs R)"
      by (rule read_part_inv [OF inv p(1) p1(4,3) False]) (use split p(4) in simp)
    then show ?thesis
      using that [of True bytes "R\<lparr>rl := ?L1, partially_read_irob := Some i\<rparr>" ids "Some i" "pre @ bytes"]
        step False bytes(1) total by simp
  qed
qed

lemma si_bytes_nonempty:
  assumes "sent_ok sent" and "id_ok i"
  shows "si_bytes (sent i) \<noteq> []"
proof -
  obtain c cs where c: "si_chunks (sent i) = c # cs" using sent_okD(2) [OF assms] by (cases "si_chunks (sent i)") auto
  then have "filled c" "0 < datalen c"
    using sent_okD(1) [OF assms] sent_okD(4) [OF assms, of c] by (auto simp: sent_list_def)
  then show ?thesis using c by (auto simp: filled_def)
qed

lemma pop_ready_inv:
  assumes so: "sent_ok sent" and inv: "recv_inv sent tr ids None [] X L ready"
  shows "pop_ready L ready = (case ready of [] \<Rightarrow> (None, []) | d # ds \<Rightarrow> (Some (sd_id d), ds))"
    and "ready = d # ds \<Longrightarrow> recv_inv sent tr ids (Some (sd_id d)) [] X L ds"
proof -
  note D = recv_invD [OF inv]
  have found: "\<exists>p. lat_map L (sd_id d) = Some p \<and> released p" if "d \<in> set ready" for d
    using D(6) that by (auto simp: queue_ok_def)
  have "find_locked L (sd_id d) \<noteq> None" if d: "d \<in> set ready" for d
  proof -
    obtain p where "lat_map L (sd_id d) = Some p" using found [OF d] by blast
    moreover have "id_ok (sd_id d)" by (rule lattice_wfD(6) [OF lat_invD(1) [OF D(1)] calculation])
    ultimately show ?thesis using recv_inv_find [OF inv] by simp
  qed
  then have "find_locked L (sd_id (hd ready)) \<noteq> None" if "ready \<noteq> []" using that by simp
  then show "pop_ready L ready = (case ready of [] \<Rightarrow> (None, []) | d # ds \<Rightarrow> (Some (sd_id d), ds))"
    by (cases ready) auto
  assume r: "ready = d # ds"
  let ?i = "sd_id d"
  obtain p where p: "lat_map L ?i = Some p" "released p" using found [of d] r by auto
  have q: "\<forall>e\<in>set ready. e = sched_work (sd_id e) False (si_labels (sent (sd_id e)))" "tasks.ordered ready"
    "sd_id ` set ready = {i. \<exists>p. lat_map L i = Some p \<and> released p}"
    using D(6) by (auto simp: queue_ok_def)
  have "?i \<notin> sd_id ` set ds"
  proof
    assume "?i \<in> sd_id ` set ds"
    then obtain e where e: "e \<in> set ds" "sd_id e = ?i" by auto
    then have "e = d" using q(1) r by (metis list.set_intros(1,2))
    then show False using tasks.ordered_distinct [OF q(2)] e(1) r by simp
  qed
  then have "sd_id ` set ds = {i. Some ?i \<noteq> Some i \<and> (\<exists>p. lat_map L i = Some p \<and> released p)}"
    using q(3) r by auto
  moreover have "tasks.ordered ds" using q(2) r by (simp add: tasks.ordered_Cons)
  ultimately have "queue_ok sent (Some ?i) (lat_map L) ds" using q(1) r by (simp add: queue_ok_def)
  moreover have "reading_ok sent (Some ?i) [] (lat_map L)"
  proof -
    have con: "content p' = si_bytes (sent j)" if "lat_map L j = Some p'" "released p'" for j p'
      using D(7) that by (auto simp: reading_ok_def)
    have "id_ok ?i" by (rule lattice_wfD(6) [OF lat_invD(1) [OF D(1)] p(1)])
    then show ?thesis using con p si_bytes_nonempty [OF so] by (auto simp: reading_ok_def)
  qed
  ultimately show "recv_inv sent tr ids (Some ?i) [] X L ds" using D by (simp add: recv_inv_def)
qed

lemma get_ready_irob_inv:
  assumes so: "sent_ok sent" and inv: "recv_inv sent tr ids cur pre {} (rl R) (ready_irobs R)"
    and R: "partially_read_irob R = cur"
  obtains (got) i R1 where "get_ready_irob blk env R = Inr (GotIrob i, R1)"
      "recv_inv sent tr ids (Some i) pre {} (rl R1) (ready_irobs R1)" "partially_read_irob R1 = None"
  | (none) "get_ready_irob blk env R = Inr (if peer_gone env then Null
       else if \<not> blk \<or> non_blocking env \<or> timeout_expired env then Sentinel else Wait, R)"
      "\<not> data_is_ready R"
proof (cases cur)
  case (Some i)
  note D = recv_invD [OF inv]
  obtain p where p: "lat_map (rl R) i = Some p" "released p" using D(7) Some by (auto simp: reading_ok_def)
  have "id_ok i" by (rule lattice_wfD(6) [OF lat_invD(1) [OF D(1)] p(1)])
  then have "find_locked (rl R) i = Some p" using recv_inv_find [OF inv] p(1) by simp
  moreover have "is_complete p = Inr True" using D(2) p by (auto simp: pending_ok_def collecting_def readable_irob_def)
  ultimately have "get_ready_irob blk env R = Inr (GotIrob i, R\<lparr>partially_read_irob := None\<rparr>)"
    using R Some by (simp add: get_ready_irob_def)
  then show ?thesis using got inv Some by simp
next
  case None
  then have pre: "pre = []" using recv_invD(7) [OF inv] by (simp add: reading_ok_def)
  note inv' = inv [unfolded None pre]
  note pop = pop_ready_inv [OF so inv']
  show ?thesis
  proof (cases "ready_irobs R")
    case Nil
    then have "R\<lparr>ready_irobs := []\<rparr> = R" by simp
    then show ?thesis using none pop(1) R None Nil by (simp add: get_ready_irob_def data_is_ready_def)
  next
    case (Cons d ds)
    then have "get_ready_irob blk env R = Inr (GotIrob (sd_id d), R\<lparr>ready_irobs := ds\<rparr>)"
      using pop(1) R None by (simp add: get_ready_irob_def)
    then show ?thesis using got pop(2) [OF Cons] pre R None by simp
  qed
qed

definition out_bytes :: "recv_out \<Rightarrow> byte list" where
  "out_bytes r = (case r of Received b _ \<Rightarrow> b | Waiting b _ \<Rightarrow> b | WouldBlock \<Rightarrow> [])"

text \<open>The peer can only be gone from a socket that is shutting down: \<^verbatim>\<open>remote_shutdown\<close> is set only
  together with or after \<^verbatim>\<open>shutting_down\<close>.\<close>

definition env_ok :: "recv_env \<Rightarrow> bool" where
  "env_ok env \<longleftrightarrow> (peer_gone env \<longrightarrow> shutting_down env)"

lemma recv_loop_inv:
  assumes so: "sent_ok sent" and env: "env_ok env" and fl: "\<not> MSG_PEEK flags"
  shows "recv_inv sent tr ids cur pre {} (rl R) (ready_irobs R) \<Longrightarrow> partially_read_irob R = cur \<Longrightarrow>
    length buf \<le> len \<Longrightarrow> len - length buf < fuel \<Longrightarrow>
    \<exists>r R' ids' cur' pre' new. recv_loop fuel flags env len buf labels R = Inr (Some (r, R')) \<and>
      recv_inv sent tr ids' cur' pre' {} (rl R') (ready_irobs R') \<and> partially_read_irob R' = cur' \<and>
      out_bytes r = buf @ new \<and> read_so_far sent ids' @ pre' = read_so_far sent ids @ pre @ new \<and>
      length (out_bytes r) \<le> len \<and> (data_is_ready R \<and> length buf < len \<longrightarrow> new \<noteq> [])"
proof (induction fuel arbitrary: buf labels R ids cur pre)
  case (Suc fuel)
  note inv = Suc.prems(1) and R = Suc.prems(2)
  show ?case
  proof (cases "length buf < len")
    case False
    then have "recv_loop (Suc fuel) flags env len buf labels R = Inr (Some (Received buf labels, R))" by simp
    moreover have "out_bytes (Received buf labels) = buf @ []" "length (out_bytes (Received buf labels)) \<le> len"
      using Suc.prems(3) by (simp_all add: out_bytes_def)
    moreover have "read_so_far sent ids @ pre = read_so_far sent ids @ pre @ []" by simp
    ultimately show ?thesis using inv R False by blast
  next
    case True
    let ?blk = "buf = [] \<or> MSG_WAITALL flags"
    show ?thesis
    proof (cases rule: get_ready_irob_inv [OF so inv R, of ?blk env])
      case (1 i R1)
      obtain more bytes R2 ids' cur' pre' where c:
        "consume_irob flags i len buf labels R1 =
           Inr (more, buf @ bytes, if buf = [] then Some (si_labels (sent i)) else labels, R2)"
        "bytes \<noteq> []" "length (buf @ bytes) \<le> len"
        "recv_inv sent tr ids' cur' pre' {} (rl R2) (ready_irobs R2)" "partially_read_irob R2 = cur'"
        "read_so_far sent ids' @ pre' = read_so_far sent ids @ pre @ bytes"
        by (rule consume_irob_inv [OF so 1(2,3) fl True])
      let ?lab = "if buf = [] then Some (si_labels (sent i)) else labels"
      have loop: "recv_loop (Suc fuel) flags env len buf labels R =
          (if more then recv_loop fuel flags env len (buf @ bytes) ?lab R2
           else Inr (Some (Received (buf @ bytes) ?lab, R2)))"
        using True 1(1) c(1) by simp
      show ?thesis
      proof (cases more)
        case False
        have "out_bytes (Received (buf @ bytes) ?lab) = buf @ bytes" by (simp add: out_bytes_def)
        then show ?thesis using loop False c by auto
      next
        case more: True
        have "len - length (buf @ bytes) < fuel" using Suc.prems(4) c(2,3) by (cases bytes) auto
        from Suc.IH [OF c(4,5,3) this, of ?lab] obtain r R' ids'' cur'' pre'' new where IH:
          "recv_loop fuel flags env len (buf @ bytes) ?lab R2 = Inr (Some (r, R'))"
          "recv_inv sent tr ids'' cur'' pre'' {} (rl R') (ready_irobs R')" "partially_read_irob R' = cur''"
          "out_bytes r = (buf @ bytes) @ new" "read_so_far sent ids'' @ pre'' = read_so_far sent ids' @ pre' @ new"
          "length (out_bytes r) \<le> len"
          by blast
        have "recv_loop (Suc fuel) flags env len buf labels R = Inr (Some (r, R'))" using loop more IH(1) by simp
        moreover have "out_bytes r = buf @ (bytes @ new)" "bytes @ new \<noteq> []" using IH(4) c(2) by simp_all
        moreover have "read_so_far sent ids'' @ pre'' = read_so_far sent ids @ pre @ (bytes @ new)"
          using IH(5) c(6) by (metis append.assoc)
        ultimately show ?thesis using IH(2,3,6) by blast
      qed
    next
      case 2
      have e: "peer_gone env \<Longrightarrow> shutting_down env" using env by (simp add: env_ok_def)
      have "\<exists>r. recv_loop (Suc fuel) flags env len buf labels R = Inr (Some (r, R)) \<and> out_bytes r = buf"
        using True 2(1) e by (auto simp: out_bytes_def)
      then obtain r where r: "recv_loop (Suc fuel) flags env len buf labels R = Inr (Some (r, R))" "out_bytes r = buf @ []"
        "length (out_bytes r) \<le> len" using Suc.prems(3) by auto
      have "read_so_far sent ids @ pre = read_so_far sent ids @ pre @ []" by simp
      then show ?thesis using r inv R 2(2) by blast
    qed
  qed
qed simp

end
