(* ===== verification/Delivery.thy ===== *)
theory Delivery
  imports Recv_Inv
begin

text \<open>
  What the application at the receiving end of a multisocket gets. The messages of the peer's IROBs
  arrive on any connections, in any order and any number of times, interleaved with the rounds of
  \<^verbatim>\<open>recv\<close>; each is handled by the message handlers of csocket_receiver.cpp.
\<close>

section \<open>Messages on the wire\<close>

lemma foldr_le_bytes: "foldr (\<lambda>b acc. uint b + 256 * acc) (le_bytes n x) 0 = x mod 256 ^ n"
proof (induction n arbitrary: x)
  case (Suc n)
  have "x mod (256 * 256 ^ n) = 256 * (x div 256 mod 256 ^ n) + x mod 256" by (rule zmod_zmult2_eq) simp
  then show ?case using Suc by (simp add: uint_word_of_int)
qed simp

lemma long_of_le_bytes: "0 \<le> x \<Longrightarrow> x < 2 ^ 63 \<Longrightarrow> long_of_bytes (le_bytes 8 x) = x"
  by (simp add: long_of_bytes_def foldr_le_bytes to_long_def)

lemma longs_of_le_bytes:
  "\<forall>x\<in>set xs. 0 \<le> x \<and> x < 2 ^ 63 \<Longrightarrow> longs_of_bytes (length xs) (concat (map (le_bytes 8) xs)) = xs"
  by (induction xs) (simp_all add: sizeof_irob_id_def long_of_le_bytes)

lemma htonl_range: "0 \<le> htonl x" "htonl x < 2 ^ 32"
  using uint_lt2p [of "byte_swap (word_of_int x)"] by (simp_all add: htonl_def)

lemma read_deps_array_sent:
  assumes "length ds < 2 ^ 28" and "\<forall>d\<in>set ds. 0 \<le> d \<and> d < 2 ^ 32"
  shows "read_deps_array (int (length ds)) (concat (map (\<lambda>d. le_bytes 8 (htonl d)) ds) @ rest) =
    Inr (if ds = [] then None else Some ds, rest)"
proof -
  let ?bs = "concat (map (\<lambda>d. le_bytes 8 (htonl d)) ds)"
  have len: "length ?bs = length ds * 8" by (induction ds) auto
  have "longs_of_bytes (length ds) ?bs = map htonl ds"
    using longs_of_le_bytes [of "map htonl ds"] htonl_range by (fastforce simp: comp_def intro: order_less_trans)
  then have longs: "map ntohl (longs_of_bytes (length ds) ?bs) = ds"
    using assms(2) by (simp add: map_idI)
  have to: "to_int (int (length ds) * 8) = int (length ds) * 8" using assms(1) by simp
  show ?thesis
    using len longs by (simp add: read_deps_array_def sizeof_irob_id_def Let_def to read_bytes_def nat_mult_distrib)
qed

fun handle :: "(int \<Rightarrow> sent_irob) \<Rightarrow> csock_ref \<Rightarrow> timeval \<Rightarrow> message \<Rightarrow> msocket \<Rightarrow> msocket result" where
  "handle sent c now (MBegin i) sk =
     (let s = sent i
      in bindE (do_begin_irob c now
          \<lparr>hdr_labels = htonl (uint (si_labels s)), hdr_op = Begin_IROB (htonl i) (htonl (int (length (si_deps s))))\<rparr>
          (concat (map (\<lambda>d. le_bytes 8 (htonl d)) (si_deps s))) sk) (\<lambda>(_, sk'). Inr sk'))"
| "handle sent c now (MChunk i k) sk =
     (let s = sent i; ck = si_chunks s ! k
      in bindE (do_irob_chunk c now
          \<lparr>hdr_labels = htonl (uint (si_labels s)),
           hdr_op = IROB_chunk (htonl i) (htonl (int (seqno ck))) (htonl (int (ck_offset ck))) (htonl (int (datalen ck)))\<rparr>
          (the (data ck)) sk) (\<lambda>(_, sk'). Inr sk'))"
| "handle sent c now (MEnd i) sk =
     (let s = sent i
      in do_end_irob c now
          \<lparr>hdr_labels = htonl (uint (si_labels s)),
           hdr_op = End_IROB (htonl i) (htonl (int (tot_len (si_chunks s)))) (htonl (int (length (si_chunks s))))\<rparr> sk)"

definition msg_ok :: "(int \<Rightarrow> sent_irob) \<Rightarrow> message \<Rightarrow> bool" where
  "msg_ok sent m \<longleftrightarrow> (case m of MBegin i \<Rightarrow> id_ok i | MEnd i \<Rightarrow> id_ok i
     | MChunk i k \<Rightarrow> id_ok i \<and> k < length (si_chunks (sent i)))"

section \<open>The handlers keep the invariant\<close>

text \<open>An acknowledgement is scheduled only for an IROB of which everything has arrived.\<close>

definition acks_ok :: "(int \<Rightarrow> sent_irob) \<Rightarrow> message set \<Rightarrow> msocket \<Rightarrow> bool" where
  "acks_ok sent tr sk \<longleftrightarrow> (\<forall>c cs d. csock_heap sk c = Some cs \<longrightarrow> d \<in> set (waiting_acks (csk_indexes cs)) \<longrightarrow>
     all_arrived sent tr (sd_id d))"

definition sock_inv ::
  "(int \<Rightarrow> sent_irob) \<Rightarrow> message set \<Rightarrow> int list \<Rightarrow> byte list \<Rightarrow> int set \<Rightarrow> msocket \<Rightarrow> bool" where
  "sock_inv sent tr ids pre X sk \<longleftrightarrow>
     recv_inv sent tr ids (partially_read_irob (incoming_irobs sk)) pre X (rl (incoming_irobs sk)) (ready_irobs (incoming_irobs sk)) \<and>
     acks_ok sent tr sk"

lemma acks_ok_mono: "acks_ok sent tr sk \<Longrightarrow> tr \<subseteq> tr' \<Longrightarrow> csock_heap sk' = csock_heap sk \<Longrightarrow> acks_ok sent tr' sk'"
  unfolding acks_ok_def all_arrived_def by (metis subsetD)

lemma schedule_ack_inv:
  assumes "sock_inv sent tr ids pre X sk" and "all_arrived sent tr i"
  shows "sock_inv sent tr ids pre X (schedule_ack c i now sk)"
    and "dom (csock_heap (schedule_ack c i now sk)) = dom (csock_heap sk)"
proof -
  let ?d = "sched_ack i (case now of Some t \<Rightarrow> t | None \<Rightarrow> tv 0 0) 0"
  have id: "sd_id ?d = i" by (simp add: sched_ack_def)
  have sub: "set (pset_insert ds ?d) \<subseteq> insert ?d (set ds)" for ds
    unfolding pset_insert_def by (rule tasks.set_insert_subset)
  have inc: "incoming_irobs (schedule_ack c i now sk) = incoming_irobs sk"
    by (simp add: schedule_ack_def update_csock_def Let_def split: option.split)
  show "dom (csock_heap (schedule_ack c i now sk)) = dom (csock_heap sk)"
    by (auto simp: schedule_ack_def update_csock_def Let_def split: option.splits)
  have "acks_ok sent tr (schedule_ack c i now sk)"
    unfolding acks_ok_def
  proof (intro allI impI)
    fix c' cs' d assume st: "csock_heap (schedule_ack c i now sk) c' = Some cs'" "d \<in> set (waiting_acks (csk_indexes cs'))"
    then obtain cs where cs: "csock_heap sk c' = Some cs"
      "waiting_acks (csk_indexes cs') = waiting_acks (csk_indexes cs) \<or>
       waiting_acks (csk_indexes cs') = pset_insert (waiting_acks (csk_indexes cs)) ?d"
      by (auto simp: schedule_ack_def update_csock_def Let_def split: option.splits if_splits)
    then have "d = ?d \<or> d \<in> set (waiting_acks (csk_indexes cs))" using st(2) sub [of "waiting_acks (csk_indexes cs)"] by auto
    then show "all_arrived sent tr (sd_id d)" using assms cs(1) id unfolding sock_inv_def acks_ok_def by metis
  qed
  then show "sock_inv sent tr ids pre X (schedule_ack c i now sk)" using assms(1) by (simp add: sock_inv_def inc)
qed

lemma complete_arrived:
  assumes "sent_ok sent" and "id_ok i" and "pending_ok sent tr past m" and "m i = Some p"
    and "is_complete p = Inr True" and "\<not> placeholder p"
  shows "all_arrived sent tr i"
proof -
  consider "collecting sent tr past i p" | "readable_irob sent tr past i p" using assms(3,4) by (auto simp: pending_ok_def)
  then show ?thesis
  proof cases
    case 1
    then have "MBegin i \<in> tr" using assms(6) by (simp add: collecting_def)
    then show ?thesis using collecting_complete [OF assms(1,2) 1] assms(5) by (auto simp: all_arrived_def)
  qed (simp add: readable_irob_def)
qed

lemma release_and_ack_inv:
  assumes so: "sent_ok sent" and i: "id_ok i" and inv: "sock_inv sent tr ids pre {i} sk"
    and m: "lat_map (rl (incoming_irobs sk)) i \<noteq> None"
  obtains sk' where "release_and_ack c now i sk = Inr sk'" "sock_inv sent tr ids pre {} sk'"
    "partially_read_irob (incoming_irobs sk') = partially_read_irob (incoming_irobs sk)"
    "dom (csock_heap sk') = dom (csock_heap sk)"
proof -
  let ?R = "incoming_irobs sk"
  have rin: "recv_inv sent tr ids (partially_read_irob ?R) pre {i} (rl ?R) (ready_irobs ?R)" and ao: "acks_ok sent tr sk"
    using inv by (simp_all add: sock_inv_def)
  obtain R' where R': "release_if_ready i ?R = Inr R'"
    "recv_inv sent tr ids (partially_read_irob ?R) pre ({i} - {i}) (rl R') (ready_irobs R')"
    "partially_read_irob R' = partially_read_irob ?R" "dom (lat_map (rl R')) = dom (lat_map (rl ?R))"
    by (rule release_if_ready_inv [OF so i rin])
  then obtain p where p: "lat_map (rl R') i = Some p" using m by auto
  have find: "find_locked (rl R') i = Some p" using recv_inv_find [OF R'(2) i] p by simp
  note po = recv_invD(2) [OF R'(2)]
  obtain b where b: "is_complete p = Inr b" by (rule pending_complete [OF so i po p])
  let ?sk1 = "sk\<lparr>incoming_irobs := R'\<rparr>"
  have inv1: "sock_inv sent tr ids pre {} ?sk1" using R'(2,3) acks_ok_mono [OF ao, of tr ?sk1] by (simp add: sock_inv_def)
  have eq: "release_and_ack c now i sk = Inr (if b \<and> \<not> placeholder p then schedule_ack c i (Some now) ?sk1 else ?sk1)"
    using R'(1) find b by (simp add: release_and_ack_def Let_def)
  show ?thesis
  proof (cases "b \<and> \<not> placeholder p")
    case True
    have "all_arrived sent tr i" using complete_arrived [OF so i po p] True b by simp
    note sa = schedule_ack_inv [OF inv1 this, of c "Some now"]
    have "incoming_irobs (schedule_ack c i (Some now) ?sk1) = R'"
      by (simp add: schedule_ack_def update_csock_def Let_def split: option.split)
    then show ?thesis using that [of "schedule_ack c i (Some now) ?sk1"] eq True sa R'(3) by simp
  next
    case False
    then have "release_and_ack c now i sk = Inr ?sk1" using eq by auto
    then show ?thesis using that inv1 R'(3) by simp
  qed
qed

lemma new_receiver_irob_sent:
  assumes "sent_ok sent" and "id_ok i"
  obtains p where "new_receiver_irob i (length (si_deps (sent i)))
      (if si_deps (sent i) = [] then None else Some (si_deps (sent i))) 0 None (si_labels (sent i)) = Inr p"
    "receiver_fresh p" "fed cs p" "arrived p = {}" "pi_id p = i" "send_labels p = si_labels (sent i)"
    "deps p = set (si_deps (sent i))"
proof -
  obtain p where p: "new_receiver_irob i (length (si_deps (sent i)))
      (if si_deps (sent i) = [] then None else Some (si_deps (sent i))) 0 None (si_labels (sent i)) = Inr p"
    "pi_id p = i" "send_labels p = si_labels (sent i)" "deps p = set (si_deps (sent i))" "receiver_fresh p"
    by (cases "si_deps (sent i) = []")
       (simp_all add: new_receiver_irob_def new_irob_def extend_receiver_def pending_irob.defs
        receiver_irob.defs receiver_fresh_def blank_def)
  show ?thesis using that [OF p(1) p(5) _ _ p(2,3,4)] fed_new [OF p(1), of cs] by simp
qed

lemma htonl_label: "uint (w :: u_long) < 2 ^ 32 \<Longrightarrow> word_of_int (ntohl (htonl (uint w))) = w"
  by simp

lemma sock_inv_set_lattice:
  assumes "acks_ok sent tr sk" and "tr \<subseteq> tr'"
    and "recv_inv sent tr' ids (partially_read_irob (incoming_irobs sk)) pre X L (ready_irobs (incoming_irobs sk))"
  shows "sock_inv sent tr' ids pre X (sk\<lparr>incoming_irobs := (incoming_irobs sk)\<lparr>rl := L\<rparr>\<rparr>)"
  using assms acks_ok_mono [OF assms(1,2), of "sk\<lparr>incoming_irobs := (incoming_irobs sk)\<lparr>rl := L\<rparr>\<rparr>"]
  by (simp add: sock_inv_def)

text \<open>What a handler guarantees.\<close>

definition handled ::
  "(int \<Rightarrow> sent_irob) \<Rightarrow> message set \<Rightarrow> int list \<Rightarrow> byte list \<Rightarrow> msocket \<Rightarrow> msocket \<Rightarrow> bool" where
  "handled sent tr ids pre sk sk' \<longleftrightarrow> sock_inv sent tr ids pre {} sk' \<and>
     partially_read_irob (incoming_irobs sk') = partially_read_irob (incoming_irobs sk) \<and>
     dom (csock_heap sk') = dom (csock_heap sk)"

text \<open>The part that the three handlers share.\<close>

lemma handle_update:
  assumes so: "sent_ok sent" and i: "id_ok i" and ao: "acks_ok sent tr sk" and tr: "tr \<subseteq> tr'"
    and rin: "recv_inv sent tr' ids (partially_read_irob (incoming_irobs sk)) pre {i} L (ready_irobs (incoming_irobs sk))"
    and m: "lat_map L i \<noteq> None"
  shows "\<exists>sk'. release_and_ack c now i (sk\<lparr>incoming_irobs := (incoming_irobs sk)\<lparr>rl := L\<rparr>\<rparr>) = Inr sk' \<and>
    handled sent tr' ids pre sk sk'"
proof -
  let ?sk1 = "sk\<lparr>incoming_irobs := (incoming_irobs sk)\<lparr>rl := L\<rparr>\<rparr>"
  have inv1: "sock_inv sent tr' ids pre {i} ?sk1" by (rule sock_inv_set_lattice [OF ao tr rin])
  obtain sk' where "release_and_ack c now i ?sk1 = Inr sk'" "sock_inv sent tr' ids pre {} sk'"
    "partially_read_irob (incoming_irobs sk') = partially_read_irob (incoming_irobs ?sk1)"
    "dom (csock_heap sk') = dom (csock_heap ?sk1)"
    by (rule release_and_ack_inv [OF so i inv1, of c now]) (simp add: m)
  then show ?thesis by (simp add: handled_def)
qed

lemma handle_begin:
  assumes so: "sent_ok sent" and i: "id_ok i" and inv: "sock_inv sent tr ids pre {} sk"
  shows "\<exists>sk'. handle sent c now (MBegin i) sk = Inr sk' \<and> handled sent (insert (MBegin i) tr) ids pre sk sk'"
proof -
  let ?R = "incoming_irobs sk" and ?tr = "insert (MBegin i) tr" and ?ds = "si_deps (sent i)"
  have rin: "recv_inv sent tr ids (partially_read_irob ?R) pre {} (rl ?R) (ready_irobs ?R)" and ao: "acks_ok sent tr sk"
    using inv by (simp_all add: sock_inv_def)
  note s = sent_okD [OF so i]
  have ds: "\<forall>d\<in>set ?ds. 0 \<le> d \<and> d < 2 ^ 32"
  proof
    fix d assume "d \<in> set ?ds"
    then show "0 \<le> d \<and> d < 2 ^ 32" using s(5) [of d] by (simp add: id_ok_def)
  qed
  have wire: "ntohl (htonl i) = i" "to_int (ntohl (htonl (int (length ?ds)))) = int (length ?ds)"
    "word_of_int (ntohl (htonl (uint (si_labels (sent i))))) = si_labels (sent i)"
    using i s(6,7) by (simp_all add: id_ok_def)
  note rda = read_deps_array_sent [OF s(6) ds, of "[]"]
  obtain p where p: "new_receiver_irob i (length ?ds) (if ?ds = [] then None else Some ?ds) 0 None (si_labels (sent i)) = Inr p"
    "receiver_fresh p" "fed (si_chunks (sent i)) p" "arrived p = {}" "pi_id p = i" "send_labels p = si_labels (sent i)"
    "deps p = set ?ds"
    by (rule new_receiver_irob_sent [OF so i])
  have start: "handle sent c now (MBegin i) sk =
      bindE (insert_locked receiver_placeholder receiver_subsume False p (rl ?R)) (\<lambda>(ok, L).
        let sk1 = sk\<lparr>incoming_irobs := ?R\<lparr>rl := L\<rparr>\<rparr>
        in if \<not> ok then Inr sk1 else release_and_ack c now i sk1)"
    using rda p(1)
    by (auto simp: do_begin_irob_def wire bindE_def Let_def split: sum.splits prod.splits)
  show ?thesis
  proof (cases rule: begin_inv [OF so rin, of p, unfolded p(5), OF i p(2-4,6,7)])
    case 1
    then have "handle sent c now (MBegin i) sk = Inr (sk\<lparr>incoming_irobs := ?R\<lparr>rl := rl ?R\<rparr>\<rparr>)" by (simp add: start Let_def del: handle.simps)
    moreover have "sock_inv sent ?tr ids pre {} (sk\<lparr>incoming_irobs := ?R\<lparr>rl := rl ?R\<rparr>\<rparr>)"
      by (rule sock_inv_set_lattice [OF ao _ 1(2)]) auto
    ultimately show ?thesis by (simp add: handled_def del: handle.simps)
  next
    case (2 L')
    let ?sk1 = "sk\<lparr>incoming_irobs := ?R\<lparr>rl := L'\<rparr>\<rparr>"
    have "handle sent c now (MBegin i) sk = release_and_ack c now i ?sk1" using 2(1) by (simp add: start Let_def del: handle.simps)
    then show ?thesis using handle_update [OF so i ao _ 2(2,3), of c now] by (simp add: subset_insertI del: handle.simps)
  qed
qed

lemma lat_update_present:
  "recv_inv sent tr ids cur pre X L ready \<Longrightarrow> lat_map L i = Some p \<Longrightarrow> lat_map (lat_update i (\<lambda>_. q) L) i \<noteq> None"
  using lat_update_map(1) [OF lat_invD(1) [OF recv_invD(1)]] lattice_wfD(6) [OF lat_invD(1) [OF recv_invD(1)]] by fastforce

lemma handle_end:
  assumes so: "sent_ok sent" and i: "id_ok i" and inv: "sock_inv sent tr ids pre {} sk"
  shows "\<exists>sk'. handle sent c now (MEnd i) sk = Inr sk' \<and> handled sent (insert (MEnd i) tr) ids pre sk sk'"
proof -
  let ?R = "incoming_irobs sk" and ?tr = "insert (MEnd i) tr" and ?cs = "si_chunks (sent i)"
  have rin: "recv_inv sent tr ids (partially_read_irob ?R) pre {} (rl ?R) (ready_irobs ?R)" and ao: "acks_ok sent tr sk"
    using inv by (simp_all add: sock_inv_def)
  note s = sent_okD [OF so i]
  have "length ?cs < 2 ^ 31" using s(1) by (simp add: sent_list_def)
  then have wire: "ntohl (htonl i) = i" "ntohl (htonl (int (tot_len ?cs))) = int (tot_len ?cs)"
    "to_int (ntohl (htonl (int (length ?cs)))) = int (length ?cs)"
    using i s(3) by (simp_all add: id_ok_def)
  have find: "find_locked (rl ?R) i = lat_map (rl ?R) i" by (rule recv_inv_find [OF rin i])
  show ?thesis
  proof (cases "i \<in> elems (past_irobs (rl ?R))")
    case True
    then have "lat_map (rl ?R) i = None"
      using lattice_wfD(5) [OF lat_invD(1) [OF recv_invD(1) [OF rin]]] by (metis not_None_eq)
    then have h: "handle sent c now (MEnd i) sk = Inr (schedule_ack c i None sk)"
      using True by (simp add: do_end_irob_def wire find past_irob_exists_def contains_elems)
    have arr: "all_arrived sent tr i" using recv_invD(5) [OF rin] True by (simp add: history_ok_def)
    have "?tr = tr" by (rule known_message(2) [OF arr])
    moreover have "incoming_irobs (schedule_ack c i None sk) = ?R"
      by (simp add: schedule_ack_def update_csock_def Let_def split: option.split)
    ultimately show ?thesis using h schedule_ack_inv [OF inv arr, of c None] by (simp add: handled_def)
  next
    case False
    obtain L1 p where L1: "find_or_placeholder i (rl ?R) = Inr L1"
      "recv_inv sent tr ids (partially_read_irob ?R) pre {} L1 (ready_irobs ?R)" "lat_map L1 i = Some p"
      by (rule find_or_placeholder_inv [OF rin i False])
    have find1: "find_locked L1 i = Some p" using recv_inv_find [OF L1(2) i] L1(3) by simp
    obtain b p1 where p1: "receiver_finish (int (tot_len ?cs)) (int (length ?cs)) p = Inr (b, p1)"
      "recv_inv sent ?tr ids (partially_read_irob ?R) pre {i} (lat_update i (\<lambda>_. p1) L1) (ready_irobs ?R)"
      by (rule end_inv [OF so L1(2,3)])
    have "handle sent c now (MEnd i) sk =
        release_and_ack c now i (sk\<lparr>incoming_irobs := ?R\<lparr>rl := lat_update i (\<lambda>_. p1) L1\<rparr>\<rparr>)"
      using False L1(1) find1 p1(1) by (simp add: do_end_irob_def wire past_irob_exists_def contains_elems)
    then show ?thesis
      using handle_update [OF so i ao _ p1(2) lat_update_present [OF L1(2,3)], of c now] by (simp add: subset_insertI)
  qed
qed

lemma handle_chunk:
  assumes so: "sent_ok sent" and i: "id_ok i" and inv: "sock_inv sent tr ids pre {} sk"
    and k: "k < length (si_chunks (sent i))" and c: "csock_heap sk c \<noteq> None"
  shows "\<exists>sk'. handle sent c now (MChunk i k) sk = Inr sk' \<and> handled sent (insert (MChunk i k) tr) ids pre sk sk'"
proof -
  let ?R = "incoming_irobs sk" and ?tr = "insert (MChunk i k) tr" and ?ck = "si_chunks (sent i) ! k"
  have rin: "recv_inv sent tr ids (partially_read_irob ?R) pre {} (rl ?R) (ready_irobs ?R)" and ao: "acks_ok sent tr sk"
    using inv by (simp_all add: sock_inv_def)
  note s = sent_okD [OF so i]
  have mem: "?ck \<in> set (si_chunks (sent i))" using k by simp
  have ck: "ck_id ?ck = i" "0 < datalen ?ck" "datalen ?ck < 2 ^ 31" "ck_offset ?ck < 2 ^ 32" "seqno ?ck = k" "k < 2 ^ 31"
    "filled ?ck" using s(4) [OF mem] s(1) k mem by (auto simp: sent_list_def)
  obtain d where d: "data ?ck = Some d" "length d = datalen ?ck" using ck(7) by (auto simp: filled_def)
  have wire: "ntohl (htonl i) = i" "ntohl (htonl (int (seqno ?ck))) = int k"
    "ntohl (htonl (int (ck_offset ?ck))) = int (ck_offset ?ck)" "ntohl (htonl (int (datalen ?ck))) = int (datalen ?ck)"
    "to_int (int (datalen ?ck)) = int (datalen ?ck)"
    using i ck by (simp_all add: id_ok_def)
  have same: "\<lparr>ck_id = i, seqno = k, ck_offset = ck_offset ?ck, datalen = datalen ?ck, data = Some d\<rparr> = ?ck"
    using ck d by (intro irob_chunk_data.equality) simp_all
  have rdb: "read_data_buffer (int (datalen ?ck)) d = Inr (d, [])"
    using ck(2) d(2) by (simp add: read_data_buffer_def read_bytes_def)
  define labels :: u_long where "labels = word_of_int (ntohl (htonl (uint (si_labels (sent i)))))"
  obtain sk0 where sk0: "csock_update_net_restriction_stats c labels 0 (datalen ?ck) sk = Inr sk0"
    "incoming_irobs sk0 = ?R" "csock_heap sk0 = csock_heap sk"
    using c by (auto simp: csock_update_net_restriction_stats_def update_net_restriction_stats_def Let_def)
  have ao0: "acks_ok sent tr sk0" by (rule acks_ok_mono [OF ao subset_refl sk0(3)])
  have inv0: "sock_inv sent tr ids pre {} sk0" using inv ao0 sk0(2) by (simp add: sock_inv_def)
  have find: "find_locked (rl ?R) i = lat_map (rl ?R) i" by (rule recv_inv_find [OF rin i])
  show ?thesis
  proof (cases "i \<in> elems (past_irobs (rl ?R))")
    case True
    then have "lat_map (rl ?R) i = None"
      using lattice_wfD(5) [OF lat_invD(1) [OF recv_invD(1) [OF rin]]] by (metis not_None_eq)
    then have h: "handle sent c now (MChunk i k) sk = Inr sk0"
      using True sk0 rdb d(1)
      by (simp add: do_irob_chunk_def wire find past_irob_exists_def contains_elems labels_def [symmetric])
    have "all_arrived sent tr i" using recv_invD(5) [OF rin] True by (simp add: history_ok_def)
    then have "?tr = tr" using known_message(3) k by simp
    then show ?thesis using h inv0 sk0 by (simp add: handled_def)
  next
    case False
    obtain L1 p where L1: "find_or_placeholder i (rl ?R) = Inr L1"
      "recv_inv sent tr ids (partially_read_irob ?R) pre {} L1 (ready_irobs ?R)" "lat_map L1 i = Some p"
      by (rule find_or_placeholder_inv [OF rin i False])
    have find1: "find_locked L1 i = Some p" using recv_inv_find [OF L1(2) i] L1(3) by simp
    obtain b p1 where p1: "receiver_add_chunk ?ck p = Inr (b, p1)" "b \<or> is_complete p1 = Inr True"
      "recv_inv sent ?tr ids (partially_read_irob ?R) pre {i} (lat_update i (\<lambda>_. p1) L1) (ready_irobs ?R)"
      by (rule chunk_inv [OF so L1(2,3) k])
    let ?sk1 = "sk0\<lparr>incoming_irobs := ?R\<lparr>rl := lat_update i (\<lambda>_. p1) L1\<rparr>\<rparr>"
    obtain sk' where sk': "release_and_ack c now i ?sk1 = Inr sk'" "handled sent ?tr ids pre sk0 sk'"
      using handle_update [OF so i ao0 _ _ lat_update_present [OF L1(2,3)], of ?tr ids pre p1 c now] p1(3) sk0(2)
      by (auto simp: subset_insertI)
    have "handle sent c now (MChunk i k) sk = Inr sk'"
      using False L1(1) find1 p1(1,2) sk0(1,2) sk'(1) rdb d(1) same
      by (auto simp: do_irob_chunk_def wire past_irob_exists_def contains_elems labels_def [symmetric])
    then show ?thesis using sk'(2) sk0(2,3) by (simp add: handled_def)
  qed
qed

lemma handle_inv:
  assumes "sent_ok sent" and "sock_inv sent tr ids pre {} sk" and "msg_ok sent m" and "csock_heap sk c \<noteq> None"
  shows "\<exists>sk'. handle sent c now m sk = Inr sk' \<and> handled sent (insert m tr) ids pre sk sk'"
  using assms handle_begin handle_end handle_chunk by (cases m) (simp_all add: msg_ok_def del: handle.simps)

end
