(* ===== verification/Delivery_Run.thy ===== *)
theory Delivery_Run
  imports Delivery
begin

text \<open>
  The receiving side of a multisocket as a state machine: messages of the peer arrive on the
  connections, the application calls \<^verbatim>\<open>recv\<close>, and connections come and go. Every run keeps the
  invariant of the handlers, from which the guarantees to the application follow.
\<close>

section \<open>Runs\<close>

text \<open>The call of \<^verbatim>\<open>recv\<close> in progress: its flags, the room and the bytes already in the buffer.\<close>

type_synonym recv_call = "(recv_flags \<times> nat \<times> byte list \<times> u_long option) option"

fun in_buffer :: "recv_call \<Rightarrow> byte list" where
  "in_buffer None = []"
| "in_buffer (Some (flags, len, buf, labels)) = buf"

fun call_ok :: "recv_call \<Rightarrow> bool" where
  "call_ok None = True"
| "call_ok (Some (flags, len, buf, labels)) = (\<not> MSG_PEEK flags \<and> length buf \<le> len)"

fun after_round :: "recv_flags \<Rightarrow> nat \<Rightarrow> recv_out \<Rightarrow> recv_call" where
  "after_round flags len (Waiting buf labels) = Some (flags, len, buf, labels)"
| "after_round flags len _ = None"

fun returned :: "recv_out \<Rightarrow> byte list" where
  "returned (Received buf labels) = buf"
| "returned _ = []"

definition no_acks :: "msocket \<Rightarrow> bool" where
  "no_acks sk \<longleftrightarrow> (\<forall>c cs. csock_heap sk c = Some cs \<longrightarrow> waiting_acks (csk_indexes cs) = [])"

definition acks_of :: "msocket \<Rightarrow> scheduling_data set" where
  "acks_of sk = {d. \<exists>c cs. csock_heap sk c = Some cs \<and> d \<in> set (waiting_acks (csk_indexes cs))}"

text \<open>
  \<open>recv_run sent tr out call sk\<close>: the messages \<open>tr\<close> have arrived, the calls of \<^verbatim>\<open>recv\<close> have returned
  the bytes \<open>out\<close>, \<open>call\<close> is in progress. In a step of another thread connections may join or leave
  and their acknowledgements may be sent, but the received IROBs stay as they are.
\<close>

inductive recv_run :: "(int \<Rightarrow> sent_irob) \<Rightarrow> message set \<Rightarrow> byte list \<Rightarrow> recv_call \<Rightarrow> msocket \<Rightarrow> bool" for sent where
  start: "incoming_irobs sk = new_receiver_lattice \<Longrightarrow> no_acks sk \<Longrightarrow> recv_run sent {} [] None sk"
| arrives: "recv_run sent tr out call sk \<Longrightarrow> msg_ok sent m \<Longrightarrow> csock_heap sk c \<noteq> None \<Longrightarrow>
    handle sent c now m sk = Inr sk' \<Longrightarrow> recv_run sent (insert m tr) out call sk'"
| other: "recv_run sent tr out call sk \<Longrightarrow> incoming_irobs sk' = incoming_irobs sk \<Longrightarrow> acks_of sk' \<subseteq> acks_of sk \<Longrightarrow>
    recv_run sent tr out call sk'"
| calls: "recv_run sent tr out None sk \<Longrightarrow> \<not> MSG_PEEK flags \<Longrightarrow>
    recv_run sent tr out (Some (flags, len, [], None)) sk"
| round: "recv_run sent tr out (Some (flags, len, buf, labels)) sk \<Longrightarrow> env_ok env \<Longrightarrow>
    recv_loop (Suc (len - length buf)) flags env len buf labels (incoming_irobs sk) = Inr (Some (r, R)) \<Longrightarrow>
    recv_run sent tr (out @ returned r) (after_round flags len r) (sk\<lparr>incoming_irobs := R\<rparr>)"

section \<open>The invariant of runs\<close>

lemma out_bytes_split: "out_bytes r = returned r @ in_buffer (after_round flags len r)"
  by (cases r) (simp_all add: out_bytes_def)

lemma acks_ok_of: "acks_ok sent tr sk \<longleftrightarrow> (\<forall>d\<in>acks_of sk. all_arrived sent tr (sd_id d))"
  by (auto simp: acks_ok_def acks_of_def)

lemma new_recv_inv: "recv_inv sent {} [] None [] {} (rl new_receiver_lattice) (ready_irobs new_receiver_lattice)"
  by (simp add: recv_inv_def new_receiver_lattice_def pending_ok_def settled_def unseen_ok_def history_ok_def
      queue_ok_def reading_ok_def tasks.ordered_def)

lemma round_inv:
  assumes "sent_ok sent" and "env_ok env" and "sock_inv sent tr ids pre {} sk"
    and "call_ok (Some (flags, len, buf, labels))" and "read_so_far sent ids @ pre = out @ buf"
  shows "\<exists>r R ids' pre'. recv_loop (Suc (len - length buf)) flags env len buf labels (incoming_irobs sk) = Inr (Some (r, R)) \<and>
    sock_inv sent tr ids' pre' {} (sk\<lparr>incoming_irobs := R\<rparr>) \<and>
    read_so_far sent ids' @ pre' = (out @ returned r) @ in_buffer (after_round flags len r) \<and>
    call_ok (after_round flags len r) \<and>
    (data_is_ready (incoming_irobs sk) \<and> length buf < len \<longrightarrow> length buf < length (out_bytes r))"
proof -
  let ?R = "incoming_irobs sk"
  have inv: "recv_inv sent tr ids (partially_read_irob ?R) pre {} (rl ?R) (ready_irobs ?R)" and ao: "acks_ok sent tr sk"
    using assms(3) by (simp_all add: sock_inv_def)
  have fl: "\<not> MSG_PEEK flags" "length buf \<le> len" using assms(4) by simp_all
  have "len - length buf < Suc (len - length buf)" by simp
  from recv_loop_inv [OF assms(1,2) fl(1) inv refl fl(2) this, of labels]
  obtain r R' ids' cur' pre' new where r:
    "recv_loop (Suc (len - length buf)) flags env len buf labels ?R = Inr (Some (r, R'))"
    "recv_inv sent tr ids' cur' pre' {} (rl R') (ready_irobs R')" "partially_read_irob R' = cur'"
    "out_bytes r = buf @ new" "read_so_far sent ids' @ pre' = read_so_far sent ids @ pre @ new"
    "length (out_bytes r) \<le> len" "data_is_ready ?R \<and> length buf < len \<longrightarrow> new \<noteq> []"
    by blast
  have "sock_inv sent tr ids' pre' {} (sk\<lparr>incoming_irobs := R'\<rparr>)"
    using r(2,3) acks_ok_mono [OF ao subset_refl, of "sk\<lparr>incoming_irobs := R'\<rparr>"] by (simp add: sock_inv_def)
  moreover have "read_so_far sent ids' @ pre' = (out @ returned r) @ in_buffer (after_round flags len r)"
    using r(4,5) assms(5) out_bytes_split [of r flags len] by (metis append.assoc)
  moreover have "call_ok (after_round flags len r)" using r(6) fl(1) by (cases r) (simp_all add: out_bytes_def)
  ultimately show ?thesis using r(1,4,7) by auto
qed

definition run_ok :: "(int \<Rightarrow> sent_irob) \<Rightarrow> message set \<Rightarrow> byte list \<Rightarrow> recv_call \<Rightarrow> int list \<Rightarrow> byte list \<Rightarrow> msocket \<Rightarrow> bool" where
  "run_ok sent tr out call ids pre sk \<longleftrightarrow>
     sock_inv sent tr ids pre {} sk \<and> read_so_far sent ids @ pre = out @ in_buffer call \<and> call_ok call"

lemma recv_run_inv:
  assumes "recv_run sent tr out call sk" and so: "sent_ok sent"
  shows "\<exists>ids pre. run_ok sent tr out call ids pre sk"
  using assms(1)
proof induction
  case (start sk)
  then have "sock_inv sent {} [] [] {} sk"
    using new_recv_inv [of sent] by (simp add: sock_inv_def acks_ok_def no_acks_def new_receiver_lattice_def)
  then show ?case by (auto simp: run_ok_def intro!: exI [of _ "[]"])
next
  case (arrives tr out call sk m c now sk')
  then show ?case using handle_inv [OF so, of tr _ _ sk m c now] by (fastforce simp: run_ok_def handled_def)
next
  case (other tr out call sk sk')
  then show ?case by (auto simp: run_ok_def sock_inv_def acks_ok_of)
next
  case (calls tr out sk flags len)
  then show ?case by (auto simp: run_ok_def)
next
  case (round tr out flags len buf labels sk env r R)
  then obtain ids pre where ids: "run_ok sent tr out (Some (flags, len, buf, labels)) ids pre sk" by blast
  have "\<exists>ids' pre'. sock_inv sent tr ids' pre' {} (sk\<lparr>incoming_irobs := R\<rparr>) \<and>
    read_so_far sent ids' @ pre' = (out @ returned r) @ in_buffer (after_round flags len r) \<and>
    call_ok (after_round flags len r)"
    using round_inv [OF so round.hyps(2), of tr ids pre sk flags len buf labels out] ids round.hyps(3)
    by (fastforce simp: run_ok_def)
  then show ?case by (simp add: run_ok_def)
qed

lemma run_invE:
  assumes "recv_run sent tr out call sk" and "sent_ok sent"
  obtains ids pre where "sock_inv sent tr ids pre {} sk" "read_so_far sent ids @ pre = out @ in_buffer call" "call_ok call"
    "recv_inv sent tr ids (partially_read_irob (incoming_irobs sk)) pre {} (rl (incoming_irobs sk)) (ready_irobs (incoming_irobs sk))"
  using recv_run_inv [OF assms] by (auto simp: run_ok_def sock_inv_def)

section \<open>Guarantees\<close>

lemma fed_arrived_subset: "fed cs p \<Longrightarrow> arrived p \<subseteq> {..<length cs}"
  by (auto simp: fed_def arrived_def)

text \<open>When nothing is ready, an IROB whose messages have all arrived and whose dependencies have been
  read has been read.\<close>

lemma nothing_ready_past:
  assumes so: "sent_ok sent" and i: "id_ok i" and arr: "all_arrived sent tr i"
    and inv: "recv_inv sent tr ids None pre {} L []" and deps: "set (si_deps (sent i)) \<subseteq> elems (past_irobs L)"
  shows "i \<in> elems (past_irobs L)"
proof (rule ccontr)
  assume np: "i \<notin> elems (past_irobs L)"
  note D = recv_invD [OF inv]
  obtain p where p: "lat_map L i = Some p" using D(4) np arr by (fastforce simp: unseen_ok_def all_arrived_def)
  have "\<not> released p" using D(6) p by (auto simp: queue_ok_def)
  then have col: "collecting sent tr (elems (past_irobs L)) i p"
    using D(2) p by (auto simp: pending_ok_def readable_irob_def)
  have "{k. MChunk i k \<in> tr} \<subseteq> {..<length (si_chunks (sent i))}"
    using col fed_arrived_subset [of "si_chunks (sent i)" p] by (simp add: collecting_def)
  then have "is_complete p = Inr True"
    using collecting_complete [OF so i col] arr by (auto simp: all_arrived_def)
  moreover have "is_ready p" using col arr deps by (auto simp: collecting_def all_arrived_def is_ready_def)
  ultimately show False using D(3) p \<open>\<not> released p\<close> by (auto simp: settled_def)
qed

lemma nothing_ready_closed:
  assumes so: "sent_ok sent" and inv: "recv_inv sent tr ids None pre {} L []"
    and S: "\<And>i. i \<in> S \<Longrightarrow> id_ok i \<and> all_arrived sent tr i \<and> set (si_deps (sent i)) \<subseteq> S"
    and wf: "wf {(d, i). i \<in> S \<and> d \<in> set (si_deps (sent i))}"
  shows "S \<subseteq> elems (past_irobs L)"
proof
  fix i assume "i \<in> S"
  then show "i \<in> elems (past_irobs L)"
  proof (induction i rule: wf_induct_rule [OF wf])
    case (1 i)
    then have "set (si_deps (sent i)) \<subseteq> elems (past_irobs L)" using S [of i] by auto
    then show ?case using nothing_ready_past [OF so _ _ inv] S [of i] 1(2) by simp
  qed
qed

lemma delivered_in_order:
  assumes "recv_run sent tr out call sk" and "sent_ok sent"
  shows "\<exists>ids i k. out @ in_buffer call = concat (map (\<lambda>j. si_bytes (sent j)) ids) @ take k (si_bytes (sent i)) \<and>
    distinct ids \<and> (\<forall>j\<in>set ids. all_arrived sent tr j) \<and>
    (\<forall>xs j ys. ids = xs @ j # ys \<longrightarrow> set (si_deps (sent j)) \<subseteq> set xs) \<and>
    (0 < k \<longrightarrow> i \<notin> set ids \<and> all_arrived sent tr i \<and> set (si_deps (sent i)) \<subseteq> set ids)"
proof -
  obtain ids pre where inv: "read_so_far sent ids @ pre = out @ in_buffer call"
    "recv_inv sent tr ids (partially_read_irob (incoming_irobs sk)) pre {} (rl (incoming_irobs sk)) (ready_irobs (incoming_irobs sk))"
    by (rule run_invE [OF assms])
  let ?L = "rl (incoming_irobs sk)"
  note D = recv_invD [OF inv(2)]
  have ids: "distinct ids" "set ids = elems (past_irobs ?L)" "\<forall>j\<in>set ids. all_arrived sent tr j"
    "\<forall>xs j ys. ids = xs @ j # ys \<longrightarrow> set (si_deps (sent j)) \<subseteq> set xs"
    using D(5) by (simp_all add: history_ok_def)
  show ?thesis
  proof (cases "partially_read_irob (incoming_irobs sk)")
    case None
    then have "out @ in_buffer call = read_so_far sent ids @ take 0 (si_bytes (sent 0))"
      using inv(1) D(7) by (simp add: reading_ok_def)
    then show ?thesis using ids by blast
  next
    case (Some i)
    then obtain p where p: "lat_map ?L i = Some p" "released p" "pre @ content p = si_bytes (sent i)"
      using D(7) by (auto simp: reading_ok_def)
    have "readable_irob sent tr (elems (past_irobs ?L)) i p" using D(2) p by (auto simp: pending_ok_def collecting_def)
    then have "all_arrived sent tr i" "set (si_deps (sent i)) \<subseteq> set ids" using ids(2) by (simp_all add: readable_irob_def)
    moreover have "i \<notin> set ids" using lattice_wfD(5) [OF lat_invD(1) [OF D(1)] p(1)] ids(2) by simp
    moreover have "pre = take (length pre) (si_bytes (sent i))" using p(3) by (metis append_eq_conv_conj)
    then have "out @ in_buffer call = read_so_far sent ids @ take (length pre) (si_bytes (sent i))" using inv(1) by simp
    ultimately show ?thesis using ids by blast
  qed
qed

text \<open>
  C4. Whatever the order in which the messages arrive, on whatever connections, with whatever
  repetitions, the application reads whole IROBs one after the other, every IROB at most once, an
  IROB only after all those it depends on and only when all its messages have arrived, and then
  possibly the beginning of one more such IROB.
\<close>

theorem delivery_in_dependency_order:
  assumes "recv_run sent tr out call sk" and "sent_ok sent"
  shows "\<exists>ids i k. out @ in_buffer call = concat (map (\<lambda>j. si_bytes (sent j)) ids) @ take k (si_bytes (sent i)) \<and>
    distinct ids \<and> (\<forall>j\<in>set ids. all_arrived sent tr j) \<and>
    (\<forall>xs j ys. ids = xs @ j # ys \<longrightarrow> set (si_deps (sent j)) \<subseteq> set xs) \<and>
    (0 < k \<longrightarrow> i \<notin> set ids \<and> all_arrived sent tr i \<and> set (si_deps (sent i)) \<subseteq> set ids)"
  by (rule delivered_in_order [OF assms])

lemma never_stuck:
  assumes "recv_run sent tr out call sk" and "sent_ok sent"
  shows "(\<forall>m c now. msg_ok sent m \<longrightarrow> csock_heap sk c \<noteq> None \<longrightarrow> (\<exists>sk'. handle sent c now m sk = Inr sk')) \<and>
    (\<forall>flags len buf labels env. call = Some (flags, len, buf, labels) \<longrightarrow> env_ok env \<longrightarrow>
      (\<exists>r R. recv_loop (Suc (len - length buf)) flags env len buf labels (incoming_irobs sk) = Inr (Some (r, R))))"
proof -
  obtain ids pre where inv: "sock_inv sent tr ids pre {} sk" "read_so_far sent ids @ pre = out @ in_buffer call" "call_ok call"
    by (rule run_invE [OF assms])
  show ?thesis
  proof (intro conjI allI impI)
    fix m c now assume "msg_ok sent m" and "csock_heap sk c \<noteq> None"
    from handle_inv [OF assms(2) inv(1) this, of now] show "\<exists>sk'. handle sent c now m sk = Inr sk'" by blast
  next
    fix flags len buf labels env assume call: "call = Some (flags, len, buf, labels)" and "env_ok env"
    then show "\<exists>r R. recv_loop (Suc (len - length buf)) flags env len buf labels (incoming_irobs sk) = Inr (Some (r, R))"
      using round_inv [OF assms(2) _ inv(1) inv(3) [unfolded call]] inv(2) by (simp del: recv_loop.simps) blast
  qed
qed

text \<open>
  C6. No reachable state of the receiving side is stuck: every well-formed message on an existing
  connection is handled without an assertion failing or an exception, and every round of
  \<^verbatim>\<open>recv\<close> ends, with an answer to the caller or waiting for data.
\<close>

theorem receiver_never_stuck:
  assumes "recv_run sent tr out call sk" and "sent_ok sent"
  shows "(\<forall>m c now. msg_ok sent m \<longrightarrow> csock_heap sk c \<noteq> None \<longrightarrow> (\<exists>sk'. handle sent c now m sk = Inr sk')) \<and>
    (\<forall>flags len buf labels env. call = Some (flags, len, buf, labels) \<longrightarrow> env_ok env \<longrightarrow>
      (\<exists>r R. recv_loop (Suc (len - length buf)) flags env len buf labels (incoming_irobs sk) = Inr (Some (r, R))))"
  by (rule never_stuck [OF assms])

lemma ready_progress:
  assumes "recv_run sent tr out (Some (flags, len, buf, labels)) sk" and "sent_ok sent" and "data_is_ready (incoming_irobs sk)"
    and "length buf < len" and "env_ok env"
  shows "\<exists>r R. recv_loop (Suc (len - length buf)) flags env len buf labels (incoming_irobs sk) = Inr (Some (r, R)) \<and>
    length buf < length (out_bytes r)"
proof -
  obtain ids pre where inv: "sock_inv sent tr ids pre {} sk" "read_so_far sent ids @ pre = out @ in_buffer (Some (flags, len, buf, labels))"
    "call_ok (Some (flags, len, buf, labels))"
    by (rule run_invE [OF assms(1,2)])
  then show ?thesis
    using round_inv [OF assms(2,5) inv(1) inv(3)] inv(2) assms(3,4) by (simp del: recv_loop.simps) blast
qed

lemma all_read:
  assumes "recv_run sent tr out call sk" and "sent_ok sent"
    and "\<And>i. i \<in> S \<Longrightarrow> id_ok i \<and> all_arrived sent tr i \<and> set (si_deps (sent i)) \<subseteq> S"
    and "wf {(d, i). i \<in> S \<and> d \<in> set (si_deps (sent i))}" and nr: "\<not> data_is_ready (incoming_irobs sk)"
  obtains ids where "out @ in_buffer call = concat (map (\<lambda>j. si_bytes (sent j)) ids)" "distinct ids" "S \<subseteq> set ids"
    "\<forall>j\<in>set ids. all_arrived sent tr j"
proof -
  obtain ids pre where inv: "read_so_far sent ids @ pre = out @ in_buffer call"
    "recv_inv sent tr ids (partially_read_irob (incoming_irobs sk)) pre {} (rl (incoming_irobs sk)) (ready_irobs (incoming_irobs sk))"
    by (rule run_invE [OF assms(1,2)])
  have none: "partially_read_irob (incoming_irobs sk) = None" "ready_irobs (incoming_irobs sk) = []"
    using nr by (simp_all add: data_is_ready_def)
  note inv' = inv(2) [unfolded none]
  have "S \<subseteq> elems (past_irobs (rl (incoming_irobs sk)))" by (rule nothing_ready_closed [OF assms(2) inv' assms(3,4)])
  moreover have "pre = []" using recv_invD(7) [OF inv'] by (simp add: reading_ok_def)
  ultimately show ?thesis using that [of ids] inv(1) recv_invD(5) [OF inv'] by (simp add: history_ok_def)
qed

text \<open>
  C7. Eventual delivery: take IROBs of which everything has arrived and whose dependencies are among
  them, without a cycle. As long as \<^verbatim>\<open>recv\<close> finds data, a call with room returns or buffers at
  least one more byte; once it finds none, all of these IROBs have been read completely.
\<close>

theorem arrived_irobs_are_delivered:
  assumes "recv_run sent tr out call sk" and "sent_ok sent"
    and "\<And>i. i \<in> S \<Longrightarrow> id_ok i \<and> all_arrived sent tr i \<and> set (si_deps (sent i)) \<subseteq> S"
    and "wf {(d, i). i \<in> S \<and> d \<in> set (si_deps (sent i))}"
  shows "if data_is_ready (incoming_irobs sk)
    then \<forall>flags len buf labels env. call = Some (flags, len, buf, labels) \<longrightarrow> length buf < len \<longrightarrow> env_ok env \<longrightarrow>
      (\<exists>r R. recv_loop (Suc (len - length buf)) flags env len buf labels (incoming_irobs sk) = Inr (Some (r, R)) \<and>
        length buf < length (out_bytes r))
    else \<exists>ids. out @ in_buffer call = concat (map (\<lambda>j. si_bytes (sent j)) ids) \<and> distinct ids \<and> S \<subseteq> set ids"
proof (cases "data_is_ready (incoming_irobs sk)")
  case True
  have "\<exists>r R. recv_loop (Suc (len - length buf)) flags env len buf labels (incoming_irobs sk) = Inr (Some (r, R)) \<and>
      length buf < length (out_bytes r)"
    if call: "call = Some (flags, len, buf, labels)" and "length buf < len" "env_ok env" for flags len buf labels env
    by (rule ready_progress [OF assms(1) [unfolded call] assms(2) True that(2,3)])
  then show ?thesis using True by simp
next
  case False
  from all_read [OF assms False] False show ?thesis by metis
qed

text \<open>
  C8. The acknowledgements that the message handlers schedule on the connections are all for IROBs
  of which everything has arrived.
\<close>

theorem acks_only_for_arrived_irobs:
  assumes "recv_run sent tr out call sk" and "sent_ok sent"
    and "csock_heap sk c = Some cs" and "d \<in> set (waiting_acks (csk_indexes cs))"
  shows "all_arrived sent tr (sd_id d)"
proof -
  obtain ids pre where "sock_inv sent tr ids pre {} sk" by (rule run_invE [OF assms(1,2)])
  then show ?thesis using assms(3,4) by (simp add: sock_inv_def acks_ok_def)
qed

section \<open>A run\<close>

text \<open>Two IROBs of one byte each, the second depends on the first. All messages of the second arrive
  before those of the first, last messages first, on the one connection of the socket.\<close>

definition demo_sent :: "int \<Rightarrow> sent_irob" where
  "demo_sent i = \<lparr>si_labels = 0, si_deps = if i = 2 then [1] else [],
     si_chunks = [\<lparr>ck_id = i, seqno = 0, ck_offset = 0, datalen = 1, data = Some [word_of_int i]\<rparr>]\<rparr>"

definition demo_iface :: net_interface where
  "demo_iface = \<lparr>ip_addr = 1, bandwidth_down = 1, bandwidth_up = 1, RTT = 1, type = 0\<rparr>"

definition demo_csock :: csocket where
  "demo_csock = \<lparr>local_iface = demo_iface, remote_iface = demo_iface, connected = True, connection_failed = False,
     accepting = False, has_sendr = True, has_recvr = True, busy = False, csk_indexes = empty_indexes\<rparr>"

definition demo_socket :: msocket where
  "demo_socket = \<lparr>sock = 5, accepting_side = False, bootstrapped = True, remote_listener_port = 1, sk_non_blocking = False,
     csock_heap = [0 \<mapsto> demo_csock], available_csocks = [0],
     network_chooser_of = \<lparr>impl = LabelMatcher new_label_matcher, redundancyStrategy = NeverRedundant\<rparr>,
     redundancy_strategy_type = INTNW_NEVER_REDUNDANT, stats_cache_of = Map.empty, thunk_hash_of = [],
     local_ifaces = [], remote_ifaces = [], changed_local_ifaces = [], down_local_ifaces = [],
     sk_shutting_down = False, remote_shutdown = False, goodbye_sent = False, sending_goodbye = False,
     outgoing_irobs = new_lattice, incoming_irobs = new_receiver_lattice, irob_indexes = empty_indexes,
     receive_timeout = tv 0 0, failure_timeouts = Map.empty, restriction_stats = Map.empty\<rparr>"

definition demo_msgs :: "message list" where
  "demo_msgs = [MChunk 2 0, MEnd 2, MBegin 2, MEnd 1, MChunk 1 0, MBegin 1]"

definition demo_env :: recv_env where
  "demo_env = \<lparr>peer_gone = False, non_blocking = True, timeout_expired = False, shutting_down = False\<rparr>"

definition demo_run :: "message list \<Rightarrow> msocket result" where
  "demo_run ms = foldE (handle demo_sent 0 (tv 0 0)) ms demo_socket"

lemma demo_sent_ok: "sent_ok demo_sent"
  by (auto simp: sent_ok_def demo_sent_def sent_list_def filled_def id_ok_def)

lemma demo_evaluates:
  "case demo_run demo_msgs of Inl e \<Rightarrow> False
   | Inr sk \<Rightarrow> (case recv \<lparr>MSG_PEEK = False, MSG_WAITALL = True\<rparr> demo_env 3 (incoming_irobs sk) of
       Inr (Some (r, R)) \<Rightarrow> r = Received [1, 2] (Some 0) \<and> \<not> data_is_ready R \<and> data_is_ready (incoming_irobs sk) \<and>
         map_option (\<lambda>cs. map sd_id (waiting_acks (csk_indexes cs))) (csock_heap sk 0) = Some [1, 2]
     | _ \<Rightarrow> False)"
  by code_simp

lemma messages_run:
  assumes so: "sent_ok sent"
  shows "recv_run sent tr out call sk \<Longrightarrow> \<forall>m\<in>set ms. msg_ok sent m \<Longrightarrow> csock_heap sk c \<noteq> None \<Longrightarrow>
    foldE (handle sent c now) ms sk = Inr sk' \<Longrightarrow> recv_run sent (set ms \<union> tr) out call sk'"
proof (induction ms arbitrary: tr sk)
  case (Cons m ms)
  obtain ids pre where inv: "sock_inv sent tr ids pre {} sk" by (rule run_invE [OF Cons.prems(1) so])
  obtain sk1 where sk1: "handle sent c now m sk = Inr sk1" "dom (csock_heap sk1) = dom (csock_heap sk)"
    using handle_inv [OF so inv _ Cons.prems(3), of m now] Cons.prems(2) by (auto simp: handled_def)
  have "recv_run sent (insert m tr) out call sk1" using recv_run.arrives [OF Cons.prems(1) _ Cons.prems(3) sk1(1)] Cons.prems(2) by simp
  moreover have "csock_heap sk1 c \<noteq> None" using sk1(2) Cons.prems(3) by (metis domIff)
  ultimately have "recv_run sent (set ms \<union> insert m tr) out call sk'"
    using Cons.prems(2,4) sk1(1) by (intro Cons.IH) (simp_all del: handle.simps)
  then show ?case by simp
qed simp

lemma demo:
  obtains sk cs R where "recv_run demo_sent (set demo_msgs) [] None sk" "data_is_ready (incoming_irobs sk)"
    "csock_heap sk 0 = Some cs" "map sd_id (waiting_acks (csk_indexes cs)) = [1, 2]"
    "recv_run demo_sent (set demo_msgs) [1, 2] None (sk\<lparr>incoming_irobs := R\<rparr>)" "\<not> data_is_ready R"
proof -
  obtain sk r R cs where d: "demo_run demo_msgs = Inr sk" "csock_heap sk 0 = Some cs"
    "recv \<lparr>MSG_PEEK = False, MSG_WAITALL = True\<rparr> demo_env 3 (incoming_irobs sk) = Inr (Some (r, R))"
    "r = Received [1, 2] (Some 0)" "\<not> data_is_ready R" "data_is_ready (incoming_irobs sk)"
    "map sd_id (waiting_acks (csk_indexes cs)) = [1, 2]"
    using demo_evaluates by (auto split: sum.splits option.splits)
  have "recv_run demo_sent {} [] None demo_socket"
    by (rule recv_run.start) (simp_all add: demo_socket_def demo_csock_def no_acks_def empty_indexes_def)
  moreover have "csock_heap demo_socket 0 \<noteq> None" by (simp add: demo_socket_def)
  moreover have "\<forall>m\<in>set demo_msgs. msg_ok demo_sent m"
    by (simp add: demo_msgs_def msg_ok_def id_ok_def demo_sent_def)
  ultimately have run: "recv_run demo_sent (set demo_msgs) [] None sk"
    using messages_run [OF demo_sent_ok] d(1) unfolding demo_run_def by (metis sup_bot.right_neutral)
  let ?fl = "\<lparr>MSG_PEEK = False, MSG_WAITALL = True\<rparr>"
  have "recv_run demo_sent (set demo_msgs) [] (Some (?fl, 3, [], None)) sk" by (rule recv_run.calls [OF run]) simp
  from recv_run.round [OF this, of demo_env r R] have "recv_run demo_sent (set demo_msgs) [1, 2] None (sk\<lparr>incoming_irobs := R\<rparr>)"
    using d(3,4) by (simp add: recv_def env_ok_def demo_env_def del: recv_loop.simps)
  then show ?thesis by (rule that [OF run d(6,2,7) _ d(5)])
qed

theorem delivery_in_dependency_order_witness:
  "\<exists>sk ids i k. recv_run demo_sent (set demo_msgs) [1, 2] None sk \<and>
    [1, 2] = concat (map (\<lambda>j. si_bytes (demo_sent j)) ids) @ take k (si_bytes (demo_sent i)) \<and> distinct ids \<and>
    (\<forall>xs j ys. ids = xs @ j # ys \<longrightarrow> set (si_deps (demo_sent j)) \<subseteq> set xs)"
proof (rule demo)
  fix sk R assume run: "recv_run demo_sent (set demo_msgs) [1, 2] None (sk\<lparr>incoming_irobs := R\<rparr>)"
  from delivery_in_dependency_order [OF this demo_sent_ok, unfolded in_buffer.simps append_Nil2] this
  show ?thesis by blast
qed

theorem receiver_never_stuck_witness:
  "\<exists>sk. recv_run demo_sent (set demo_msgs) [] None sk \<and> msg_ok demo_sent (MBegin 5) \<and>
    (\<exists>sk'. handle demo_sent 0 (tv 0 0) (MBegin 5) sk = Inr sk')"
proof (rule demo)
  fix sk cs assume run: "recv_run demo_sent (set demo_msgs) [] None sk" and c: "csock_heap sk 0 = Some cs"
  have "msg_ok demo_sent (MBegin 5)" by (simp add: msg_ok_def id_ok_def)
  then show ?thesis using receiver_never_stuck [OF run demo_sent_ok] run c by blast
qed

lemma demo_arrived:
  "i \<in> {1, 2} \<Longrightarrow> id_ok i \<and> all_arrived demo_sent (set demo_msgs) i \<and> set (si_deps (demo_sent i)) \<subseteq> {1, 2}"
  by (auto simp: id_ok_def all_arrived_def demo_sent_def demo_msgs_def)

lemma demo_wf: "wf {(d, i). i \<in> {1, 2} \<and> d \<in> set (si_deps (demo_sent i))}"
proof (rule wf_subset)
  show "{(d, i). i \<in> {1, 2} \<and> d \<in> set (si_deps (demo_sent i))} \<subseteq> measure nat" by (auto simp: demo_sent_def split: if_splits)
qed simp

theorem arrived_irobs_are_delivered_witness:
  "\<exists>sk ids. recv_run demo_sent (set demo_msgs) [1, 2] None sk \<and> \<not> data_is_ready (incoming_irobs sk) \<and>
    [1, 2] = concat (map (\<lambda>j. si_bytes (demo_sent j)) ids) \<and> distinct ids \<and> {1, 2} \<subseteq> set ids"
proof (rule demo)
  fix sk R assume run: "recv_run demo_sent (set demo_msgs) [1, 2] None (sk\<lparr>incoming_irobs := R\<rparr>)" and "\<not> data_is_ready R"
  then have nr: "\<not> data_is_ready (incoming_irobs (sk\<lparr>incoming_irobs := R\<rparr>))" by simp
  from arrived_irobs_are_delivered [OF run demo_sent_ok demo_arrived demo_wf, unfolded if_not_P [OF nr] in_buffer.simps append_Nil2]
    run nr show ?thesis by blast
qed

theorem acks_only_for_arrived_irobs_witness:
  "\<exists>sk cs. recv_run demo_sent (set demo_msgs) [] None sk \<and> csock_heap sk 0 = Some cs \<and>
    map sd_id (waiting_acks (csk_indexes cs)) = [1, 2] \<and> all_arrived demo_sent (set demo_msgs) 2"
proof (rule demo)
  fix sk cs assume run: "recv_run demo_sent (set demo_msgs) [] None sk" and c: "csock_heap sk 0 = Some cs"
    and acks: "map sd_id (waiting_acks (csk_indexes cs)) = [1, 2]"
  then obtain d where d: "d \<in> set (waiting_acks (csk_indexes cs))" "sd_id d = 2"
    by (metis image_eqI imageE list.set_intros(1,2) list.set_map)
  show ?thesis using acks_only_for_arrived_irobs [OF run demo_sent_ok c d(1)] d(2) run c acks by auto
qed

end
