(* ===== verification/Receiver_Dispatch.thy ===== *)
theory Receiver_Dispatch
  imports CSocket_Receiver App_Operations
begin

text \<open>
  csocket_receiver.cpp: the handlers of the messages that are not about single incoming IROBs, and the
  table by which a message finds its handler. A handler ends with the bytes it has left on the
  connection, with a \<^verbatim>\<open>CMMControlException\<close> after it has already changed the multisocket, or with the
  \<^verbatim>\<open>CMMThreadFinish\<close> that ends the thread after a goodbye. Whether the statistics have a new
  measurement and valid estimates when an acknowledgement arrives is the function \<open>measured\<close> of the
  environment.
\<close>

datatype recv_end = Next "byte list" | Thrown | ThreadFinish

record recv_thread_env =
  r_sys :: sys_env
  measured :: "irob_id_t \<Rightarrow> bool"

type_synonym handler = "recv_thread_env \<Rightarrow> csock_ref \<Rightarrow> timeval \<Rightarrow> control_hdr \<Rightarrow> byte list \<Rightarrow> msocket \<Rightarrow> (recv_end \<times> msocket) result"

definition do_new_interface :: "recv_thread_env \<Rightarrow> control_hdr \<Rightarrow> msocket \<Rightarrow> msocket result" where
  "do_new_interface env hdr sk =
     (case hdr_op hdr of
        New_Interface ip down up rtt t \<Rightarrow>
          sk_setup (r_sys env) \<lparr>ip_addr = ip, bandwidth_down = word_of_int (ntohl down), bandwidth_up = word_of_int (ntohl up),
            RTT = word_of_int (ntohl rtt), type = word_of_int (ntohl t)\<rparr> False sk
      | _ \<Rightarrow> Inl AssertFailed)"

definition do_down_interface :: "control_hdr \<Rightarrow> msocket \<Rightarrow> msocket result" where
  "do_down_interface hdr sk =
     (case hdr_op hdr of
        Down_Interface ip \<Rightarrow>
          sk_teardown \<lparr>ip_addr = ip, bandwidth_down = 0, bandwidth_up = 0, RTT = 0, type = 0\<rparr> False sk
      | _ \<Rightarrow> Inl AssertFailed)"

text \<open>A new measurement is reported to the network chooser with the type of the network, which may
  trap; the choosers of the model ignore the measurement itself.\<close>

definition report_ack :: "recv_thread_env \<Rightarrow> csock_ref \<Rightarrow> irob_id_t \<Rightarrow> msocket \<Rightarrow> msocket result" where
  "report_ack env c i sk =
     (if measured env i
      then case csock_heap sk c of
             None \<Rightarrow> Inl OutOfBounds
           | Some cs \<Rightarrow> bindE (csock_network_type (local_iface cs) (remote_iface cs)) (\<lambda>_. Inr sk)
      else Inr sk)"

definition ack_one :: "recv_thread_env \<Rightarrow> csock_ref \<Rightarrow> irob_id_t \<Rightarrow> msocket \<Rightarrow> msocket result" where
  "ack_one env c i sk = bindE (report_ack env c i sk) (ack_received i)"

definition do_ack :: "recv_thread_env \<Rightarrow> csock_ref \<Rightarrow> control_hdr \<Rightarrow> byte list \<Rightarrow> msocket \<Rightarrow> (recv_end \<times> msocket) result" where
  "do_ack env c hdr input sk =
     (case hdr_op hdr of
        Ack nacks nid _ _ \<Rightarrow>
          bindE (ack_one env c (ntohl nid) sk) (\<lambda>sk1.
            let num_acks = ntohl nacks; len = to_int (num_acks * int sizeof_irob_id)
            in if num_acks = 0 then Inr (Next input, sk1)
               else if len < 0 then Inr (Thrown, sk1)
               else case read_bytes (nat len) input of
                      None \<Rightarrow> Inr (Thrown, sk1)
                    | Some (bs, rest) \<Rightarrow>
                        if len \<noteq> num_acks * int sizeof_irob_id then Inl OutOfBounds
                        else bindE (foldE (ack_one env c) (map ntohl (longs_of_bytes (nat num_acks) bs)) sk1) (\<lambda>sk2.
                               Inr (Next rest, sk2)))
      | _ \<Rightarrow> Inl AssertFailed)"

definition do_goodbye :: "recv_thread_env \<Rightarrow> control_hdr \<Rightarrow> byte list \<Rightarrow> msocket \<Rightarrow> (recv_end \<times> msocket) result" where
  "do_goodbye env hdr input sk =
     (case hdr_op hdr of
        Goodbye \<Rightarrow>
          if sk_shutting_down sk then bindE (goodbye_acked sk) (\<lambda>sk1. Inr (ThreadFinish, sk1))
          else bindE (sk_goodbye (r_sys env) True sk) (\<lambda>sk1. Inr (Next input, sk1))
      | _ \<Rightarrow> Inl AssertFailed)"

section \<open>Dispatch\<close>

definition unrecognized_control_msg :: handler where
  "unrecognized_control_msg env c now hdr input sk = Inl ControlException"

definition reads_on :: "(byte list \<times> msocket) result \<Rightarrow> (recv_end \<times> msocket) result" where
  "reads_on r = bindE r (\<lambda>(rest, sk). Inr (Next rest, sk))"

definition leaves :: "byte list \<Rightarrow> msocket result \<Rightarrow> (recv_end \<times> msocket) result" where
  "leaves input r = bindE r (\<lambda>sk. Inr (Next input, sk))"

text \<open>The table is indexed by the type of the message.\<close>

definition handlers :: "handler list" where
  "handlers =
     [unrecognized_control_msg,
      \<lambda>env c now hdr input sk. reads_on (do_begin_irob c now hdr input sk),
      \<lambda>env c now hdr input sk. leaves input (do_end_irob c now hdr sk),
      \<lambda>env c now hdr input sk. reads_on (do_irob_chunk c now hdr input sk),
      unrecognized_control_msg,
      \<lambda>env c now hdr input sk. leaves input (do_new_interface env hdr sk),
      \<lambda>env c now hdr input sk. leaves input (do_down_interface hdr sk),
      \<lambda>env c now hdr input sk. do_ack env c hdr input sk,
      \<lambda>env c now hdr input sk. do_goodbye env hdr input sk,
      \<lambda>env c now hdr input sk. leaves input (do_request_resend hdr sk),
      \<lambda>env c now hdr input sk. leaves input (do_data_check hdr sk)]"

text \<open>\<^verbatim>\<open>sizeof(handlers)\<close> is a number of bytes: a pointer to a member function has 16.\<close>

definition sizeof_handlers :: int where
  "sizeof_handlers = 16 * int (length handlers)"

definition dispatch :: handler where
  "dispatch env c now hdr input sk =
     (let t = type_code (hdr_op hdr)
      in if t < 0 \<or> t \<ge> sizeof_handlers then unrecognized_control_msg env c now hdr input sk
         else if t \<ge> int (length handlers) then Inl OutOfBounds
         else (handlers ! nat t) env c now hdr input sk)"

definition recv_finish :: "csock_ref \<Rightarrow> msocket \<Rightarrow> msocket" where
  "recv_finish c sk = update_csock c (\<lambda>cs. cs\<lparr>has_recvr := False\<rparr>) sk"

section \<open>Properties of dispatch\<close>

lemma dispatch_simps:
  "hdr_op h = Begin_IROB i n \<Longrightarrow> dispatch env c now h input sk = reads_on (do_begin_irob c now h input sk)"
  "hdr_op h = End_IROB i b n \<Longrightarrow> dispatch env c now h input sk = leaves input (do_end_irob c now h sk)"
  "hdr_op h = IROB_chunk i sq off len \<Longrightarrow> dispatch env c now h input sk = reads_on (do_irob_chunk c now h input sk)"
  "hdr_op h = New_Interface ip d u r t \<Longrightarrow> dispatch env c now h input sk = leaves input (do_new_interface env h sk)"
  "hdr_op h = Down_Interface ip \<Longrightarrow> dispatch env c now h input sk = leaves input (do_down_interface h sk)"
  "hdr_op h = Ack n i s q \<Longrightarrow> dispatch env c now h input sk = do_ack env c h input sk"
  "hdr_op h = Goodbye \<Longrightarrow> dispatch env c now h input sk = do_goodbye env h input sk"
  "hdr_op h = Resend_Request i req sq nc \<Longrightarrow> dispatch env c now h input sk = leaves input (do_request_resend h sk)"
  "hdr_op h = Data_Check i \<Longrightarrow> dispatch env c now h input sk = leaves input (do_data_check h sk)"
  by (simp_all add: dispatch_def handlers_def sizeof_handlers_def numeral_eq_Suc)

end
