(* ===== verification/End_To_End.thy ===== *)
theory End_To_End
  imports Sender_Run Delivery_Run Receiver_Dispatch
begin

text \<open>
  The two ends of a multisocket together: what the sending threads of one end write is what the
  receiving threads of the other end read. The handlers leave exactly what follows the message on the
  connection, and the bytes the application at one end put into its IROBs are those that the
  application at the other end reads.
\<close>

section \<open>Framing\<close>

lemma read_bytes_exact: "n = length bs \<Longrightarrow> read_bytes n (bs @ rest) = Some (bs, rest)"
  by (simp add: read_bytes_def)

lemma read_deps_rest:
  assumes "int (length bs) = 8 * n" and "length bs < 2 ^ 31" and "read_deps_array n (bs @ rest) = Inr (r, rest')"
  shows "rest' = rest"
proof (cases "n > 0")
  case True
  have "to_int (n * int sizeof_irob_id) = n * 8" using assms(1,2) by (simp add: sizeof_irob_id_def)
  moreover have "nat (n * 8) = length bs" using assms(1) by linarith
  ultimately show ?thesis using assms(3) True by (auto simp: read_deps_array_def Let_def sizeof_irob_id_def read_bytes_def split: if_splits)
next
  case False
  then have "length bs = 0" using assms(1) by linarith
  then show ?thesis using assms(3) False by (simp add: read_deps_array_def)
qed

lemma begin_rest:
  assumes h: "hdr_op h = Begin_IROB nid nn" "int (length bs) = 8 * ntohl nn" "length bs < 2 ^ 31"
    and r: "do_begin_irob c now h (bs @ rest) sk = Inr (rest', sk')"
  shows "rest' = rest"
proof -
  have n: "to_int (ntohl nn) = ntohl nn" using h(2,3) by simp
  obtain da rest1 where d: "read_deps_array (ntohl nn) (bs @ rest) = Inr (da, rest1)"
    using r by (cases "read_deps_array (ntohl nn) (bs @ rest)") (auto simp: do_begin_irob_def h(1) n)
  then have "rest' = rest1"
    using r by (auto simp: do_begin_irob_def h(1) n bindE_def Let_def split: sum.splits if_splits)
  then show ?thesis using read_deps_rest [OF h(2,3) d] by simp
qed

lemma chunk_rest:
  assumes h: "hdr_op h = IROB_chunk nid sq off len" "int (length bs) = ntohl len" "length bs < 2 ^ 31"
    and r: "do_irob_chunk c now h (bs @ rest) sk = Inr (rest', sk')"
  shows "rest' = rest"
proof -
  have n: "to_int (ntohl len) = int (length bs)" using h(2,3) by simp
  obtain buf rest1 where d: "read_data_buffer (int (length bs)) (bs @ rest) = Inr (buf, rest1)"
    using r by (cases "read_data_buffer (int (length bs)) (bs @ rest)") (auto simp: do_irob_chunk_def h(1) n)
  then have "rest' = rest1"
    using r by (auto simp: do_irob_chunk_def h(1) n bindE_def Let_def split: sum.splits if_splits option.splits)
  then show ?thesis using d by (auto simp: read_data_buffer_def read_bytes_def split: if_splits)
qed

lemma ack_rest:
  assumes h: "hdr_op h = Ack nn nid s q" "int (length bs) = 8 * ntohl nn" "length bs < 2 ^ 31"
    and r: "do_ack env c h (bs @ rest) sk = Inr (Next rest', sk')"
  shows "rest' = rest"
proof (cases "ntohl nn = 0")
  case True
  then have "bs = []" using h(2) by simp
  then show ?thesis using r True by (auto simp: do_ack_def h(1) bindE_def split: sum.splits)
next
  case False
  have "to_int (ntohl nn * int sizeof_irob_id) = int (length bs)" using h(2,3) by (simp add: sizeof_irob_id_def mult.commute)
  then show ?thesis
    using r False by (auto simp: do_ack_def h(1) bindE_def Let_def read_bytes_def split: sum.splits if_splits)
qed

lemma dispatch_unknown:
  assumes "hdr_op h = Unknown t"
  shows "\<exists>e. dispatch env c now h input sk = Inl e"
proof -
  have all: "\<exists>e. f env c now h input sk = Inl e" if "f \<in> set handlers" for f
    using that assms
    by (auto simp: handlers_def unrecognized_control_msg_def reads_on_def leaves_def do_begin_irob_def do_end_irob_def do_irob_chunk_def
        do_new_interface_def do_down_interface_def do_ack_def do_goodbye_def do_request_resend_def do_data_check_def)
  show ?thesis
  proof (cases "0 \<le> t \<and> t < int (length handlers)")
    case True
    then have "handlers ! nat t \<in> set handlers" by (intro nth_mem) linarith
    then show ?thesis using all True by (auto simp: dispatch_def assms Let_def unrecognized_control_msg_def)
  qed (auto simp: dispatch_def assms Let_def unrecognized_control_msg_def)
qed

lemma dispatch_rest:
  assumes f: "framed m" and len: "length (snd m) < 2 ^ 31"
    and r: "dispatch env c now (fst m) (snd m @ rest) sk = Inr (Next rest', sk')"
  shows "rest' = rest"
proof -
  obtain h bs where m: "m = (h, bs)" by (cases m)
  have f': "int (length bs) = payload_length (hdr_op h)" and l: "length bs < 2 ^ 31" using f len by (simp_all add: framed_def m)
  have d: "dispatch env c now h (bs @ rest) sk = Inr (Next rest', sk')" using r by (simp add: m)
  show ?thesis
  proof (cases "hdr_op h")
    case (Begin_IROB nid nn)
    then show ?thesis
      using f' d begin_rest [OF Begin_IROB _ l] by (auto simp: dispatch_simps(1) [OF Begin_IROB] reads_on_def bindE_def split: sum.splits)
  next
    case (IROB_chunk nid sq off dl)
    then show ?thesis
      using f' d chunk_rest [OF IROB_chunk _ l] by (auto simp: dispatch_simps(3) [OF IROB_chunk] reads_on_def bindE_def split: sum.splits)
  next
    case (Ack nn nid s q)
    then show ?thesis using f' d ack_rest [OF Ack _ l] by (simp add: dispatch_simps(6) [OF Ack])
  next
    case (Hello a b e)
    then show ?thesis using d by (simp add: dispatch_def handlers_def sizeof_handlers_def unrecognized_control_msg_def)
  next
    case (Unknown t)
    then show ?thesis using dispatch_unknown [OF Unknown, of env c now "bs @ rest" sk] d by auto
  qed (use f' d in \<open>auto simp: dispatch_simps leaves_def do_goodbye_def bindE_def split: sum.splits if_splits\<close>)
qed

lemma irob_msgs_framed:
  assumes ok: "sender_ok p" and m: "m \<in> irob_msgs p" and len: "length (snd m) < 2 ^ 31"
  shows "framed m"
proof -
  consider "m = begin_msg p" | "m = end_msg p" | k where "k < length (sent_chunks p)" "m = sent_chunk_msg p k"
    using m by (auto simp: irob_msgs_def)
  then show ?thesis
  proof cases
    case 1
    have l: "length (snd m) = 8 * length (copy_deps_htonl p)"
      using length_le_bytes_list [where f = "\<lambda>x. x" and xs = "copy_deps_htonl p"] by (simp add: 1 begin_msg_def)
    then have "int (length (copy_deps_htonl p)) < 2 ^ 32" using len by simp
    then show ?thesis using l by (simp add: framed_def 1 begin_msg_def)
  next
    case (3 k)
    let ?c = "sent_chunks p ! k"
    have "ck_offset ?c + datalen ?c \<le> num_bytes p"
      using sender_okD(4,5) [OF ok] 3(1) total_take_Suc [OF 3(1)] total_take_le [of "Suc k" "sent_chunks p"] by (simp add: contig_def)
    then have l: "length (snd m) = datalen ?c"
      using length_sender_data [OF ok] by (simp add: 3(2) sent_chunk_msg_def Let_def)
    then show ?thesis using len by (simp add: framed_def 3(2) sent_chunk_msg_def Let_def)
  qed (simp add: framed_def end_msg_def)
qed

text \<open>
  C3. The two ends stay in step: a message that a sending thread writes, with what it writes after it,
  is read by the handler that the table of the receiving thread has for it exactly up to its end,
  whatever the state of the receiving multisocket, so that the next header is found where it was
  written.
\<close>

theorem stream_stays_in_step:
  assumes "app_run log sk" and "others_run env" and "sender_calls env c sk w sk'" and "m \<in> set w" and "length (snd m) < 2 ^ 31"
    and "dispatch renv rc now (fst m) (snd m @ rest) rsk = Inr (Next rest', rsk')"
  shows "rest' = rest"
proof (rule sender_calls_kept [OF assms(3,2,1)])
  fix log' assume "thread_inv log sk (log @ log') w sk'"
  then obtain log1 s where s: "app_steps log sk log1 s" "faithful s m" using assms(4) by (auto simp: thread_inv_def told_def)
  have "framed m"
  proof (cases "about_irob (hdr_op (fst m))")
    case True
    then obtain i p where p: "id_ok i" "find_locked (outgoing_irobs s) i = Some p" "\<not> placeholder p" "m \<in> irob_msgs p"
      using s(2) by (auto simp: faithful_def)
    have "sender_ok p" using out_run_sent(2) [OF app_run_refines [OF app_steps_run [OF s(1) assms(1)]] p(1,2)] p(3) by blast
    then show ?thesis using irob_msgs_framed p(4) assms(5) by blast
  next
    case False
    then have "framed m \<or> (\<exists>p. m \<in> irob_msgs p)" using s(2) by (auto simp: faithful_def)
    moreover have "about_irob (hdr_op (fst m))" if "m \<in> irob_msgs p" for p
      using that by (auto simp: irob_msgs_def begin_msg_def end_msg_def sent_chunk_msg_def Let_def)
    ultimately show ?thesis using False by blast
  qed
  then show ?thesis by (rule dispatch_rest [OF _ assms(5,6)])
qed

section \<open>From one application to the other\<close>

text \<open>
  The IROBs of the sending end when all of their data has been cut into chunks, and what they look like
  to the receiving end. An id that stands for no IROB gets one that is never sent.
\<close>

definition ready_irob :: "irob_id_t \<Rightarrow> sender_irob \<Rightarrow> bool" where
  "ready_irob i p \<longleftrightarrow> id_ok i \<and> pi_id p = i \<and> sender_ok p \<and> all_bytes_chunked p \<and> 0 < num_bytes p \<and> num_bytes p < 2 ^ 31 \<and>
     finite (deps p) \<and> (\<forall>d\<in>deps p. id_ok d) \<and> card (deps p) < 2 ^ 28 \<and> uint (send_labels p) < 2 ^ 32"

definition chunk_of :: "sender_irob \<Rightarrow> irob_chunk_data \<Rightarrow> irob_chunk_data" where
  "chunk_of p ck = ck\<lparr>data := Some (take (datalen ck) (drop (ck_offset ck) (sender_data p)))\<rparr>"

definition sent_of :: "(irob_id_t \<Rightarrow> sender_irob option) \<Rightarrow> irob_id_t \<Rightarrow> sent_irob" where
  "sent_of P i =
     (case P i of
        Some p \<Rightarrow> \<lparr>si_labels = send_labels p, si_deps = iter_set (deps p), si_chunks = map (chunk_of p) (sent_chunks p)\<rparr>
      | None \<Rightarrow> \<lparr>si_labels = 0, si_deps = [], si_chunks = [\<lparr>ck_id = i, seqno = 0, ck_offset = 0, datalen = 1, data = Some [0]\<rparr>]\<rparr>)"

lemma chunk_of_fields [simp]:
  "ck_id (chunk_of p ck) = ck_id ck" "seqno (chunk_of p ck) = seqno ck" "ck_offset (chunk_of p ck) = ck_offset ck"
  "datalen (chunk_of p ck) = datalen ck"
  by (simp_all add: chunk_of_def)

lemma map_datalen_chunk_of [simp]: "map (datalen \<circ> chunk_of p) cks = map datalen cks"
  by simp

lemma sent_chunk_inside:
  assumes "sender_ok p" and "k < length (sent_chunks p)"
  shows "ck_offset (sent_chunks p ! k) + datalen (sent_chunks p ! k) \<le> num_bytes p"
  using sender_okD(4,5) [OF assms(1)] assms(2) total_take_Suc [OF assms(2)] total_take_le [of "Suc k" "sent_chunks p"]
  by (simp add: contig_def)

lemma slices_join:
  assumes "contig cks" and "tot_len cks = length bs"
  shows "concat (map (\<lambda>c. take (datalen c) (drop (ck_offset c) bs)) cks) = bs"
proof -
  have "concat (map (\<lambda>c. take (datalen c) (drop (ck_offset c) bs)) (take k cks)) = take (tot_len (take k cks)) bs" if "k \<le> length cks" for k
    using that
  proof (induction k)
    case (Suc k)
    then have k: "k < length cks" by simp
    have off: "ck_offset (cks ! k) = tot_len (take k cks)" using assms(1) k by (simp add: contig_def)
    have "concat (map (\<lambda>c. take (datalen c) (drop (ck_offset c) bs)) (take (Suc k) cks)) =
        take (tot_len (take k cks)) bs @ take (datalen (cks ! k)) (drop (tot_len (take k cks)) bs)"
      using Suc k by (simp add: take_Suc_conv_app_nth off)
    also have "\<dots> = take (tot_len (take k cks) + datalen (cks ! k)) bs" by (simp add: take_add)
    also have "\<dots> = take (tot_len (take (Suc k) cks)) bs" by (simp only: total_take_Suc [OF k])
    finally show ?case .
  qed simp
  from this [of "length cks"] assms(2) show ?thesis by simp
qed

lemma sent_of_bytes:
  assumes "ready_irob i p" and "P i = Some p"
  shows "si_bytes (sent_of P i) = sender_data p"
proof -
  have ok: "sender_ok p" and all: "all_bytes_chunked p" using assms(1) by (simp_all add: ready_irob_def)
  have "tot_len (sent_chunks p) = length (sender_data p)"
    using all sum_datalen_num_bytes [OF ok] length_sender_data [OF ok] by (simp add: all_bytes_chunked_def sum_datalen_eq)
  from slices_join [OF sender_okD(4) [OF ok] this] show ?thesis
    by (simp add: sent_of_def assms(2) app_bytes_def chunk_of_def comp_def)
qed

lemma sent_of_ok:
  assumes "\<And>i p. P i = Some p \<Longrightarrow> ready_irob i p"
  shows "sent_ok (sent_of P)"
  unfolding sent_ok_def
proof (intro allI impI)
  fix i assume i: "id_ok i"
  show "sent_list (si_chunks (sent_of P i)) \<and> si_chunks (sent_of P i) \<noteq> [] \<and> tot_len (si_chunks (sent_of P i)) < 2 ^ 32 \<and>
     (\<forall>c\<in>set (si_chunks (sent_of P i)). ck_id c = i \<and> 0 < datalen c \<and> datalen c < 2 ^ 31 \<and> ck_offset c < 2 ^ 32) \<and>
     (\<forall>d\<in>set (si_deps (sent_of P i)). id_ok d) \<and> length (si_deps (sent_of P i)) < 2 ^ 28 \<and> uint (si_labels (sent_of P i)) < 2 ^ 32"
  proof (cases "P i")
    case (Some p)
    have r: "ready_irob i p" by (rule assms [OF Some])
    have ok: "sender_ok p" and n: "num_bytes p < 2 ^ 31" "0 < num_bytes p" using r by (simp_all add: ready_irob_def)
    have tot: "tot_len (sent_chunks p) = num_bytes p"
      using r sum_datalen_num_bytes [OF ok] by (simp add: ready_irob_def all_bytes_chunked_def sum_datalen_eq)
    have pos: "\<forall>c\<in>set (sent_chunks p). 0 < datalen c" using sender_okD(7) [OF ok] by blast
    have "length cks \<le> tot_len cks" if "\<forall>c\<in>set cks. 0 < datalen c" for cks using that by (induction cks) auto
    then have "length (sent_chunks p) < 2 ^ 31" using pos tot n(1) by fastforce
    moreover have inside: "ck_offset c + datalen c \<le> num_bytes p" if "c \<in> set (sent_chunks p)" for c
      using that sent_chunk_inside [OF ok] by (auto simp: in_set_conv_nth)
    have "filled (chunk_of p c)" if "c \<in> set (sent_chunks p)" for c
      using inside [OF that] length_sender_data [OF ok] by (simp add: filled_def chunk_of_def)
    ultimately have "sent_list (map (chunk_of p) (sent_chunks p))" using sender_okD(6) [OF ok] by (auto simp: sent_list_def)
    moreover have "sent_chunks p \<noteq> []" using tot n(2) by auto
    moreover have "\<forall>c\<in>set (sent_chunks p). ck_id c = i \<and> 0 < datalen c \<and> datalen c < 2 ^ 31 \<and> ck_offset c < 2 ^ 32"
      using inside n(1) sender_okD(7,8) [OF ok] r by (fastforce simp: ready_irob_def)
    ultimately show ?thesis using r tot n(1) by (simp add: sent_of_def Some ready_irob_def)
  qed (simp add: sent_of_def sent_list_def filled_def)
qed

text \<open>The messages about an IROB, by what they are.\<close>

fun wire_msg :: "sender_irob \<Rightarrow> message \<Rightarrow> control_hdr \<times> byte list" where
  "wire_msg p (MBegin i) = begin_msg p"
| "wire_msg p (MChunk i k) = sent_chunk_msg p k"
| "wire_msg p (MEnd i) = end_msg p"

fun msg_id :: "message \<Rightarrow> irob_id_t" where
  "msg_id (MBegin i) = i"
| "msg_id (MChunk i k) = i"
| "msg_id (MEnd i) = i"

fun of_irob :: "sender_irob \<Rightarrow> message \<Rightarrow> bool" where
  "of_irob p (MChunk i k) = (i = pi_id p \<and> k < length (sent_chunks p))"
| "of_irob p m = (msg_id m = pi_id p)"

lemma irob_msgs_wire: "irob_msgs p = wire_msg p ` {m. of_irob p m}"
proof
  show "irob_msgs p \<subseteq> wire_msg p ` {m. of_irob p m}"
  proof
    fix x assume "x \<in> irob_msgs p"
    then consider "x = begin_msg p" | "x = end_msg p" | k where "k < length (sent_chunks p)" "x = sent_chunk_msg p k"
      by (auto simp: irob_msgs_def)
    then show "x \<in> wire_msg p ` {m. of_irob p m}"
    proof cases
      case 1
      then show ?thesis by (intro image_eqI [of _ _ "MBegin (pi_id p)"]) simp_all
    next
      case 2
      then show ?thesis by (intro image_eqI [of _ _ "MEnd (pi_id p)"]) simp_all
    next
      case (3 k)
      then show ?thesis by (intro image_eqI [of _ _ "MChunk (pi_id p) k"]) simp_all
    qed
  qed
  have "wire_msg p m \<in> irob_msgs p" if "of_irob p m" for m using that by (cases m) (auto simp: irob_msgs_def)
  then show "wire_msg p ` {m. of_irob p m} \<subseteq> irob_msgs p" by auto
qed

lemma handle_wire:
  assumes r: "ready_irob i p" and P: "P i = Some p" and m: "of_irob p m"
  shows "handle (sent_of P) c now m sk =
    bindE (dispatch env c now (fst (wire_msg p m)) (snd (wire_msg p m)) sk) (\<lambda>(_, sk'). Inr sk')"
proof -
  have i: "pi_id p = i" and ok: "sender_ok p" and all: "all_bytes_chunked p" using r by (simp_all add: ready_irob_def)
  have fold: "bindE (reads_on r) (\<lambda>(_, s). Inr s) = bindE r (\<lambda>(_, s). Inr s)" for r
    by (cases r) (auto simp: reads_on_def)
  have keep: "bindE (leaves input r) (\<lambda>(_, s). Inr s) = r" for input r by (cases r) (auto simp: leaves_def)
  have id: "msg_id m = i" using m i by (cases m) simp_all
  have sent: "sent_of P i = \<lparr>si_labels = send_labels p, si_deps = iter_set (deps p), si_chunks = map (chunk_of p) (sent_chunks p)\<rparr>"
    by (simp add: sent_of_def P)
  show ?thesis
  proof (cases m)
    case (MBegin j)
    then have j: "j = i" using id by simp
    show ?thesis
      by (simp add: MBegin j sent begin_msg_def dispatch_simps(1) fold i copy_deps_htonl_def comp_def)
  next
    case (MChunk j k)
    then have j: "j = i" and k: "k < length (sent_chunks p)" using id m by simp_all
    have "seqno (sent_chunks p ! k) = k" by (rule sender_okD(6) [OF ok k])
    then show ?thesis
      using k by (simp add: MChunk j sent sent_chunk_msg_def dispatch_simps(3) fold i Let_def) (simp add: chunk_of_def)
  next
    case (MEnd j)
    then have j: "j = i" using id by simp
    have tot: "tot_len (sent_chunks p) = expected_bytes_sender p"
      using all by (simp add: all_bytes_chunked_def sum_datalen_eq)
    show ?thesis
      by (simp add: MEnd j sent end_msg_def dispatch_simps(2) keep i tot num_sender_chunks_def)
  qed
qed

text \<open>
  The receiving end as a state machine whose inputs are the messages of the sending end's IROBs, in the
  form in which the sending threads write them; \<open>tr\<close> are those that have arrived, on any connections, in
  any order and any number of times.
\<close>

inductive wire_run ::
  "recv_thread_env \<Rightarrow> (irob_id_t \<Rightarrow> sender_irob option) \<Rightarrow> message set \<Rightarrow> byte list \<Rightarrow> recv_call \<Rightarrow> msocket \<Rightarrow> bool"
  for env P where
  wire_start: "incoming_irobs sk = new_receiver_lattice \<Longrightarrow> no_acks sk \<Longrightarrow> wire_run env P {} [] None sk"
| wire_arrives: "wire_run env P tr out call sk \<Longrightarrow> P i = Some p \<Longrightarrow> of_irob p m \<Longrightarrow> csock_heap sk c \<noteq> None \<Longrightarrow>
    dispatch env c now (fst (wire_msg p m)) (snd (wire_msg p m)) sk = Inr (r, sk') \<Longrightarrow> wire_run env P (insert m tr) out call sk'"
| wire_other: "wire_run env P tr out call sk \<Longrightarrow> incoming_irobs sk' = incoming_irobs sk \<Longrightarrow> acks_of sk' \<subseteq> acks_of sk \<Longrightarrow>
    wire_run env P tr out call sk'"
| wire_calls: "wire_run env P tr out None sk \<Longrightarrow> \<not> MSG_PEEK flags \<Longrightarrow> wire_run env P tr out (Some (flags, len, [], None)) sk"
| wire_round: "wire_run env P tr out (Some (flags, len, buf, labels)) sk \<Longrightarrow> env_ok renv \<Longrightarrow>
    recv_loop (Suc (len - length buf)) flags renv len buf labels (incoming_irobs sk) = Inr (Some (r, R)) \<Longrightarrow>
    wire_run env P tr (out @ returned r) (after_round flags len r) (sk\<lparr>incoming_irobs := R\<rparr>)"

lemma of_irob_msg_ok:
  assumes "ready_irob i p" and "P i = Some p" and "of_irob p m"
  shows "msg_ok (sent_of P) m" "msg_id m = i"
  using assms by (cases m; auto simp: msg_ok_def ready_irob_def sent_of_def)+

lemma wire_run_recv_run:
  assumes "wire_run env P tr out call sk" and P: "\<And>i p. P i = Some p \<Longrightarrow> ready_irob i p"
  shows "recv_run (sent_of P) tr out call sk \<and> msg_id ` tr \<subseteq> dom P"
  using assms(1)
proof (induction rule: wire_run.induct)
  case (wire_arrives tr out call sk i p m c now r sk')
  note rdy = P [OF wire_arrives.hyps(2)]
  have "handle (sent_of P) c now m sk = Inr sk'"
    using handle_wire [where P = P, OF rdy wire_arrives.hyps(2,3), of c now sk env] wire_arrives.hyps(5) by simp
  note ok = of_irob_msg_ok [where P = P, OF rdy wire_arrives.hyps(2,3)]
  have "recv_run (sent_of P) (insert m tr) out call sk'"
    by (rule arrives [OF conjunct1 [OF wire_arrives.IH] ok(1) wire_arrives.hyps(4) \<open>handle (sent_of P) c now m sk = Inr sk'\<close>])
  then show ?case using wire_arrives.IH ok(2) wire_arrives.hyps(2) by auto
next
  case (wire_round tr out flags len buf labels sk renv r R)
  have "recv_run (sent_of P) tr (out @ returned r) (after_round flags len r) (sk\<lparr>incoming_irobs := R\<rparr>)"
    by (rule recv_run.round [OF conjunct1 [OF wire_round.IH] wire_round.hyps(2,3)])
  then show ?case using wire_round.IH by blast
qed (auto intro: recv_run.start recv_run.other recv_run.calls)

section \<open>Properties\<close>

lemma sent_of_deps: "P i = Some p \<Longrightarrow> ready_irob i p \<Longrightarrow> set (si_deps (sent_of P i)) = deps p"
  by (simp add: sent_of_def ready_irob_def)

lemma arrived_in_dom: "msg_id ` tr \<subseteq> dom P \<Longrightarrow> all_arrived (sent_of P) tr i \<Longrightarrow> i \<in> dom P"
  by (force simp: all_arrived_def)

text \<open>
  C1. The application at one end reads what the application at the other end has sent: of IROBs that
  the sending end has cut into chunks, whose messages arrive in the form in which the sending threads
  write them, in any order, on any connections and any number of times, the bytes that come out of the calls of \<^verbatim>\<open>recv\<close>
  are the bytes that were put into some of the IROBs, each at most once and after all those it depends on,
  and then the beginning of one more.
\<close>

theorem end_to_end_delivery:
  assumes "wire_run env P tr out call sk" and "\<And>i p. P i = Some p \<Longrightarrow> ready_irob i p"
  shows "\<exists>ids rest. out @ in_buffer call = concat (map (\<lambda>j. sender_data (the (P j))) ids) @ rest \<and>
    distinct ids \<and> set ids \<subseteq> dom P \<and> (\<forall>xs j ys. ids = xs @ j # ys \<longrightarrow> deps (the (P j)) \<subseteq> set xs) \<and>
    (rest \<noteq> [] \<longrightarrow> (\<exists>i p k. P i = Some p \<and> i \<notin> set ids \<and> deps p \<subseteq> set ids \<and> rest = take k (sender_data p)))"
proof -
  note run = wire_run_recv_run [OF assms]
  obtain ids i k where d: "out @ in_buffer call = concat (map (\<lambda>j. si_bytes (sent_of P j)) ids) @ take k (si_bytes (sent_of P i))"
    "distinct ids" "\<forall>j\<in>set ids. all_arrived (sent_of P) tr j"
    "\<forall>xs j ys. ids = xs @ j # ys \<longrightarrow> set (si_deps (sent_of P j)) \<subseteq> set xs"
    "0 < k \<longrightarrow> i \<notin> set ids \<and> all_arrived (sent_of P) tr i \<and> set (si_deps (sent_of P i)) \<subseteq> set ids"
    using delivered_in_order [OF conjunct1 [OF run] sent_of_ok [OF assms(2)]] by blast
  note bytes = sent_of_bytes [where P = P, OF assms(2)]
  have dom: "set ids \<subseteq> dom P" using d(3) arrived_in_dom [OF conjunct2 [OF run]] by blast
  then have eq: "map (\<lambda>j. si_bytes (sent_of P j)) ids = map (\<lambda>j. sender_data (the (P j))) ids"
    using bytes by (fastforce simp: map_eq_conv)
  have "deps (the (P j)) \<subseteq> set xs" if "ids = xs @ j # ys" for xs j ys
    using that d(4) dom sent_of_deps [where P = P, OF _ assms(2)] by fastforce
  moreover have "\<exists>i' p k'. P i' = Some p \<and> i' \<notin> set ids \<and> deps p \<subseteq> set ids \<and> take k (si_bytes (sent_of P i)) = take k' (sender_data p)"
    if ne: "take k (si_bytes (sent_of P i)) \<noteq> []"
  proof -
    have k: "0 < k" using ne by (cases k) auto
    then obtain p where p: "P i = Some p" using d(5) arrived_in_dom [OF conjunct2 [OF run]] by blast
    have "deps p \<subseteq> set ids" "i \<notin> set ids" using d(5) k sent_of_deps [where P = P, OF p assms(2) [OF p]] by auto
    moreover have "si_bytes (sent_of P i) = sender_data p" by (rule sent_of_bytes [where P = P, OF assms(2) [OF p] p])
    ultimately show ?thesis using p by metis
  qed
  ultimately show ?thesis using d(1) [unfolded eq] d(2) dom by (intro exI [of _ ids] exI [of _ "take k (si_bytes (sent_of P i))"]) auto
qed

text \<open>
  C2. Nothing is lost between the two ends once it has arrived: every message of an IROB that still comes
  is handled without an assertion failing or an exception, and when all messages of some IROBs and of
  those they depend on have arrived and \<^verbatim>\<open>recv\<close> finds nothing more to read, the application has read all the
  bytes that were put into them.
\<close>

theorem end_to_end_completeness:
  assumes "wire_run env P tr out call sk" and "\<And>i p. P i = Some p \<Longrightarrow> ready_irob i p"
  shows "(\<forall>i p m c now. P i = Some p \<longrightarrow> of_irob p m \<longrightarrow> csock_heap sk c \<noteq> None \<longrightarrow>
      (\<exists>r sk'. dispatch env c now (fst (wire_msg p m)) (snd (wire_msg p m)) sk = Inr (r, sk'))) \<and>
    (\<forall>S. (\<forall>i\<in>S. \<exists>p. P i = Some p \<and> deps p \<subseteq> S \<and> {m. of_irob p m} \<subseteq> tr) \<longrightarrow> wf {(d, i). i \<in> S \<and> d \<in> deps (the (P i))} \<longrightarrow>
      \<not> data_is_ready (incoming_irobs sk) \<longrightarrow>
      (\<exists>ids. out @ in_buffer call = concat (map (\<lambda>j. sender_data (the (P j))) ids) \<and> distinct ids \<and> S \<subseteq> set ids))"
proof -
  note run = wire_run_recv_run [OF assms]
  note so = sent_of_ok [OF assms(2)]
  show ?thesis
  proof (intro conjI allI impI)
    fix i p m c now assume p: "P i = Some p" "of_irob p m" and c: "csock_heap sk c \<noteq> None"
    obtain sk' where "handle (sent_of P) c now m sk = Inr sk'"
      using never_stuck [OF conjunct1 [OF run] so] c of_irob_msg_ok(1) [where P = P, OF assms(2) [OF p(1)] p] by blast
    then show "\<exists>r sk'. dispatch env c now (fst (wire_msg p m)) (snd (wire_msg p m)) sk = Inr (r, sk')"
      using handle_wire [where P = P, OF assms(2) [OF p(1)] p, of c now sk env] by (auto simp: bindE_def split: sum.splits)
  next
    fix S assume S: "\<forall>i\<in>S. \<exists>p. P i = Some p \<and> deps p \<subseteq> S \<and> {m. of_irob p m} \<subseteq> tr"
      and wf: "wf {(d, i). i \<in> S \<and> d \<in> deps (the (P i))}" and nr: "\<not> data_is_ready (incoming_irobs sk)"
    have arr: "id_ok i \<and> all_arrived (sent_of P) tr i \<and> set (si_deps (sent_of P i)) \<subseteq> S" if i: "i \<in> S" for i
    proof -
      obtain p where p: "P i = Some p" "deps p \<subseteq> S" "{m. of_irob p m} \<subseteq> tr" using S i by blast
      note rdy = assms(2) [OF p(1)]
      have "length (si_chunks (sent_of P i)) = length (sent_chunks p)" by (simp add: sent_of_def p(1))
      then have "all_arrived (sent_of P) tr i" using p(3) rdy by (auto simp: all_arrived_def ready_irob_def)
      then show ?thesis using rdy p(2) sent_of_deps [where P = P, OF p(1) rdy] by (simp add: ready_irob_def)
    qed
    have "{(d, i). i \<in> S \<and> d \<in> set (si_deps (sent_of P i))} = {(d, i). i \<in> S \<and> d \<in> deps (the (P i))}"
      using S sent_of_deps [where P = P, OF _ assms(2)] by fastforce
    then have "wf {(d, i). i \<in> S \<and> d \<in> set (si_deps (sent_of P i))}" using wf by simp
    from all_read [OF conjunct1 [OF run] so arr this nr] obtain ids where
      ids: "out @ in_buffer call = concat (map (\<lambda>j. si_bytes (sent_of P j)) ids)" "distinct ids" "S \<subseteq> set ids"
      "\<forall>j\<in>set ids. all_arrived (sent_of P) tr j" .
    have "set ids \<subseteq> dom P" using ids(4) arrived_in_dom [OF conjunct2 [OF run]] by blast
    then have "map (\<lambda>j. si_bytes (sent_of P j)) ids = map (\<lambda>j. sender_data (the (P j))) ids"
      using sent_of_bytes [where P = P, OF assms(2)] by (fastforce simp: map_eq_conv)
    then show "\<exists>ids. out @ in_buffer call = concat (map (\<lambda>j. sender_data (the (P j))) ids) \<and> distinct ids \<and> S \<subseteq> set ids"
      using ids(1-3) by metis
  qed
qed

section \<open>A run\<close>

text \<open>One byte, cut into one chunk; its messages arrive in the reverse order and the application reads it.\<close>

definition demo_irob :: "sender_irob result" where
  "demo_irob = bindE (new_sender_irob 3 0 None 1 (Some [7]) 0 None 0 (tv 0 0)) (\<lambda>p.
     bindE (get_ready_bytes 1 4096 (tv 0 0) p) (\<lambda>(_, _, _, _, p1). Inr p1))"

definition demo_recv_thread :: recv_thread_env where
  "demo_recv_thread = \<lparr>r_sys = demo_sys, measured = (\<lambda>_. False)\<rparr>"

definition demo_arrival :: "sender_irob \<Rightarrow> message \<Rightarrow> msocket \<Rightarrow> msocket result" where
  "demo_arrival p m sk =
     bindE (dispatch demo_recv_thread 0 (tv 0 0) (fst (wire_msg p m)) (snd (wire_msg p m)) sk) (\<lambda>(_, sk'). Inr sk')"

lemma demo_wire_evaluates:
  "case demo_irob of Inl _ \<Rightarrow> False
   | Inr p \<Rightarrow> all_bytes_chunked p \<and> num_bytes p = 1 \<and> deps p = {} \<and> send_labels p = 0 \<and> pi_id p = 3 \<and> sender_data p = [7] \<and> length (sent_chunks p) = 1 \<and>
      (case foldE (demo_arrival p) [MEnd 3, MChunk 3 0, MBegin 3] demo_socket of Inl _ \<Rightarrow> False
       | Inr sk \<Rightarrow> csock_heap sk 0 \<noteq> None \<and> (case recv_loop 6 \<lparr>MSG_PEEK = False, MSG_WAITALL = False\<rparr> Delivery_Run.demo_env 5 [] None (incoming_irobs sk) of
           Inr (Some (r, R)) \<Rightarrow> r = Received [7] (Some 0) \<and> \<not> data_is_ready R
         | _ \<Rightarrow> False))"
  by code_simp

lemma demo_irob_ready:
  assumes "demo_irob = Inr p" and "all_bytes_chunked p" and "num_bytes p = 1" and "deps p = {}" and "send_labels p = 0" and "pi_id p = 3"
  shows "ready_irob 3 p"
proof -
  obtain p0 dat len sq off where p0: "new_sender_irob 3 0 None 1 (Some [7]) 0 None 0 (tv 0 0) = Inr p0"
    and g: "get_ready_bytes 1 4096 (tv 0 0) p0 = Inr (dat, len, sq, off, p)"
    using assms(1) by (auto simp: demo_irob_def bindE_def split: sum.splits)
  have "sender_reach p0" by (rule reach_new [OF p0]) simp
  then have "sender_ok p" using sender_reach_ok [OF reach_step [OF _ step_ready [OF g]]] by blast
  then show ?thesis using assms by (simp add: ready_irob_def id_ok_def)
qed

lemma wire_arrival:
  assumes "wire_run demo_recv_thread P tr out call sk" and "P i = Some p" and "of_irob p m" and "csock_heap sk 0 \<noteq> None"
    and "demo_arrival p m sk = Inr sk'"
  shows "wire_run demo_recv_thread P (insert m tr) out call sk'"
proof -
  obtain r where "dispatch demo_recv_thread 0 (tv 0 0) (fst (wire_msg p m)) (snd (wire_msg p m)) sk = Inr (r, sk')"
    using assms(5) by (auto simp: demo_arrival_def bindE_def split: sum.splits)
  from wire_arrives [OF assms(1-4) this] show ?thesis .
qed

lemma demo_wire:
  obtains p sk where "wire_run demo_recv_thread [3 \<mapsto> p] {MBegin 3, MChunk 3 0, MEnd 3} [7] None sk" "ready_irob 3 p"
    "sender_data p = [7]" "deps p = {}" "length (sent_chunks p) = 1" "pi_id p = 3" "\<not> data_is_ready (incoming_irobs sk)"
proof -
  obtain p sk1 sk2 sk3 r R where e: "demo_irob = Inr p" "all_bytes_chunked p" "num_bytes p = 1" "deps p = {}" "send_labels p = 0"
      "pi_id p = 3" "sender_data p = [7]" "length (sent_chunks p) = 1"
    and a: "demo_arrival p (MEnd 3) demo_socket = Inr sk1" "demo_arrival p (MChunk 3 0) sk1 = Inr sk2"
      "demo_arrival p (MBegin 3) sk2 = Inr sk3"
    and r: "recv_loop 6 \<lparr>MSG_PEEK = False, MSG_WAITALL = False\<rparr> Delivery_Run.demo_env 5 [] None (incoming_irobs sk3) = Inr (Some (r, R))"
      "r = Received [7] (Some 0)" "\<not> data_is_ready R"
    using demo_wire_evaluates by (auto simp: bindE_def split: sum.splits option.splits simp del: recv_loop.simps)
  note rdy = demo_irob_ready [OF e(1-6)]
  let ?P = "[3 \<mapsto> p]"
  have P: "ready_irob i q" if "?P i = Some q" for i q using that rdy by (auto split: if_splits)
  have heap: "csock_heap sk' 0 \<noteq> None"
    if run: "wire_run demo_recv_thread ?P tr out call sk" "csock_heap sk 0 \<noteq> None" and "of_irob p m" and step: "demo_arrival p m sk = Inr sk'" for tr out call sk m sk'
  proof -
    note rr = conjunct1 [OF wire_run_recv_run [OF run(1) P]]
    obtain ids pre where inv: "sock_inv (sent_of ?P) tr ids pre {} sk" by (rule run_invE [OF rr sent_of_ok [OF P]])
    have "handle (sent_of ?P) 0 (tv 0 0) m sk = Inr sk'"
      using handle_wire [where P = ?P, OF rdy _ \<open>of_irob p m\<close>, of 0 "tv 0 0" sk demo_recv_thread] step by (simp add: demo_arrival_def)
    then have "dom (csock_heap sk') = dom (csock_heap sk)"
      using handle_inv [OF sent_of_ok [OF P] inv of_irob_msg_ok(1) [where P = ?P, OF rdy _ \<open>of_irob p m\<close>] run(2), of "tv 0 0"]
      by (auto simp: handled_def)
    then show ?thesis using run(2) by (metis domIff)
  qed
  have w0: "wire_run demo_recv_thread ?P {} [] None demo_socket" "csock_heap demo_socket 0 \<noteq> None"
    by (rule wire_start) (simp_all add: demo_socket_def demo_csock_def no_acks_def empty_indexes_def)
  have m: "of_irob p (MEnd 3)" "of_irob p (MChunk 3 0)" "of_irob p (MBegin 3)" "?P 3 = Some p" using e by simp_all
  note w1 = wire_arrival [OF w0(1) m(4,1) w0(2) a(1)] and h1 = heap [OF w0 m(1) a(1)]
  note w2 = wire_arrival [OF w1 m(4,2) h1 a(2)] and h2 = heap [OF w1 h1 m(2) a(2)]
  note w3 = wire_arrival [OF w2 m(4,3) h2 a(3)]
  have "wire_run demo_recv_thread ?P {MBegin 3, MChunk 3 0, MEnd 3} [] (Some (\<lparr>MSG_PEEK = False, MSG_WAITALL = False\<rparr>, 5, [], None)) sk3"
    by (rule wire_calls [OF w3]) simp
  from wire_round [OF this, of Delivery_Run.demo_env r R] r(1,2)
  have "wire_run demo_recv_thread ?P {MBegin 3, MChunk 3 0, MEnd 3} [7] None (sk3\<lparr>incoming_irobs := R\<rparr>)"
    by (simp add: env_ok_def Delivery_Run.demo_env_def del: recv_loop.simps)
  then show ?thesis using that rdy e r(3) by simp
qed

theorem end_to_end_delivery_witness:
  "\<exists>p sk (ids :: irob_id_t list) rest. wire_run demo_recv_thread [3 \<mapsto> p] {MBegin 3, MChunk 3 0, MEnd 3} [7] None sk \<and> sender_data p = [7] \<and>
     [7] = concat (map (\<lambda>j. sender_data (the ([3 \<mapsto> p] j))) ids) @ rest \<and> distinct ids \<and> set ids \<subseteq> {3}"
proof (rule demo_wire)
  fix p :: sender_irob and sk
  let ?P = "[3 \<mapsto> p] :: irob_id_t \<Rightarrow> sender_irob option"
  assume w: "wire_run demo_recv_thread ?P {MBegin 3, MChunk 3 0, MEnd 3} [7] None sk" "ready_irob 3 p" "sender_data p = [7]"
  have P: "ready_irob i q" if "?P i = Some q" for i q using that w(2) by (auto split: if_splits)
  obtain ids rest where "[7] @ in_buffer None = concat (map (\<lambda>j. sender_data (the (?P j))) ids) @ rest" "distinct ids" "set ids \<subseteq> dom ?P"
    using end_to_end_delivery [where P = ?P, OF w(1) P] by blast
  then show ?thesis using w(1,3) by (intro exI [of _ p] exI [of _ sk] exI [of _ ids] exI [of _ rest]) simp
qed

theorem end_to_end_completeness_witness:
  "\<exists>p sk (ids :: irob_id_t list). wire_run demo_recv_thread [3 \<mapsto> p] {MBegin 3, MChunk 3 0, MEnd 3} [7] None sk \<and>
     [7] = concat (map (\<lambda>j. sender_data (the ([3 \<mapsto> p] j))) ids) \<and> {3} \<subseteq> set ids"
proof (rule demo_wire)
  fix p :: sender_irob and sk
  let ?P = "[3 \<mapsto> p] :: irob_id_t \<Rightarrow> sender_irob option" and ?tr = "{MBegin 3, MChunk 3 0, MEnd 3}"
  assume w: "wire_run demo_recv_thread ?P ?tr [7] None sk" "ready_irob 3 p" "deps p = {}" "length (sent_chunks p) = 1" "pi_id p = 3"
    and nr: "\<not> data_is_ready (incoming_irobs sk)"
  have P: "ready_irob i q" if "?P i = Some q" for i q using that w(2) by (auto split: if_splits)
  have "m \<in> ?tr" if "of_irob p m" for m using that w(4,5) by (cases m) simp_all
  then have S: "\<forall>i\<in>{3}. \<exists>q. ?P i = Some q \<and> deps q \<subseteq> {3} \<and> {m. of_irob q m} \<subseteq> ?tr" using w(3) by auto
  have "wf {(d, i). i \<in> {3 :: int} \<and> d \<in> deps (the (?P i))}" using w(3) by simp
  note all = mp [OF mp [OF mp [OF spec [OF conjunct2 [OF end_to_end_completeness [where P = ?P, OF w(1) P]], of "{3}"] S] this] nr]
  have "\<exists>ids. [7] @ in_buffer None = concat (map (\<lambda>j. sender_data (the (?P j))) ids) \<and> distinct ids \<and> {3} \<subseteq> set ids" by (rule all)
  then obtain ids where "[7] @ in_buffer None = concat (map (\<lambda>j. sender_data (the (?P j))) ids)" "{3} \<subseteq> set ids"
    by (elim exE conjE)
  then show ?thesis using w(1) by (intro exI [of _ p] exI [of _ sk] exI [of _ ids]) simp
qed

definition demo_reads_on :: "wire \<Rightarrow> bool" where
  "demo_reads_on w = (case dispatch demo_recv_thread 0 (tv 0 0) (fst (w ! 1)) (snd (w ! 1) @ [1, 2]) demo_socket of
     Inr (Next _, _) \<Rightarrow> True | _ \<Rightarrow> False)"

lemma demo_stream_evaluates:
  "case demo_send of
     Inr (r1, sk1, r, w, sk2) \<Rightarrow> (case r1 of Returns rc \<Rightarrow> rc = 1 | _ \<Rightarrow> False) \<and> length w = 3 \<and> snd (w ! 1) = [7] \<and> demo_reads_on w
   | Inl _ \<Rightarrow> False"
  by code_simp

theorem stream_stays_in_step_witness:
  "\<exists>sk1 w sk2 r sk'. sender_calls Sender_Run.demo_env 1 sk1 w sk2 \<and> w ! 1 \<in> set w \<and> snd (w ! 1) = [7] \<and>
     dispatch demo_recv_thread 0 (tv 0 0) (fst (w ! 1)) (snd (w ! 1) @ [1, 2]) demo_socket = Inr (Next [1, 2], sk')"
proof -
  obtain sk1 r w sk2 where sk: "default_irob demo_sys (tv 0 0) 0 [7] CMM_LABEL_ONDEMAND None 0 demo_sender = Inr (Returns 1, sk1)"
    "sender_begin_irob Sender_Run.demo_env 1 (sched_work 0 False CMM_LABEL_ONDEMAND) sk1 = Inr (r, w, sk2)"
    and w: "length w = 3" "snd (w ! 1) = [7]" "demo_reads_on w"
    using demo_stream_evaluates by (auto simp: demo_send_def bindE_def split: sum.splits app_outcome.splits)
  note calls = demo_send_calls [OF sk]
  obtain r' sk' where d: "dispatch demo_recv_thread 0 (tv 0 0) (fst (w ! 1)) (snd (w ! 1) @ [1, 2]) demo_socket = Inr (Next r', sk')"
    using w(3) by (auto simp: demo_reads_on_def split: sum.splits recv_end.splits)
  have mem: "w ! 1 \<in> set w" using w(1) by simp
  have "r' = [1, 2]" by (rule stream_stays_in_step [OF calls mem _ d]) (simp add: w(2) del: One_nat_def)
  then show ?thesis using calls(3) mem w(2) d by blast
qed

end
