(* ===== verification/Estimates.thy ===== *)
theory Estimates
  imports Complex_Main CMM_Prelude
begin

text \<open>
  flipflop_estimate.cpp: the flip-flop filter that smooths the observations of a network's bandwidth and
  latency, and its text form. The arithmetic of \<^verbatim>\<open>double\<close> is an argument, the record \<open>fp_arith\<close>, so that
  what is shown holds for every way of rounding unless a statement names \<open>exact\<close>, the arithmetic
  without rounding. Printing and reading a \<^verbatim>\<open>double\<close> are arguments as well.
\<close>

section \<open>Floating-point arithmetic\<close>

text \<open>
  \<open>f_dec m k\<close> is the literal for \<open>m / 10 ^ k\<close>, \<open>f_flt m k\<close> that literal with the suffix \<^verbatim>\<open>f\<close> in an
  expression of type \<^verbatim>\<open>double\<close>, \<open>f_int\<close> the conversion of an integer and \<open>f_trunc\<close> that to an integer,
  which cuts off the fraction.
\<close>

record 'd fp_arith =
  f_dec :: "int \<Rightarrow> nat \<Rightarrow> 'd"
  f_flt :: "int \<Rightarrow> nat \<Rightarrow> 'd"
  f_int :: "int \<Rightarrow> 'd"
  f_add :: "'d \<Rightarrow> 'd \<Rightarrow> 'd"
  f_sub :: "'d \<Rightarrow> 'd \<Rightarrow> 'd"
  f_mul :: "'d \<Rightarrow> 'd \<Rightarrow> 'd"
  f_div :: "'d \<Rightarrow> 'd \<Rightarrow> 'd"
  f_abs :: "'d \<Rightarrow> 'd"
  f_eq :: "'d \<Rightarrow> 'd \<Rightarrow> bool"
  f_le :: "'d \<Rightarrow> 'd \<Rightarrow> bool"
  f_less :: "'d \<Rightarrow> 'd \<Rightarrow> bool"
  f_trunc :: "'d \<Rightarrow> int"

definition exact :: "real fp_arith" where
  "exact = \<lparr>f_dec = (\<lambda>m k. of_int m / 10 ^ k), f_flt = (\<lambda>m k. of_int m / 10 ^ k), f_int = of_int,
     f_add = (+), f_sub = (-), f_mul = (*), f_div = (/), f_abs = abs, f_eq = (=), f_le = (\<le>), f_less = (<),
     f_trunc = (\<lambda>x. if 0 \<le> x then \<lfloor>x\<rfloor> else \<lceil>x\<rceil>)\<rparr>"

lemma exact_simps [simp]:
  "f_dec exact m k = of_int m / 10 ^ k" "f_flt exact m k = of_int m / 10 ^ k" "f_int exact n = of_int n"
  "f_add exact = (+)" "f_sub exact = (-)" "f_mul exact = (*)" "f_div exact = (/)" "f_abs exact = abs"
  "f_eq exact = (=)" "f_le exact = (\<le>)" "f_less exact = (<)"
  "f_trunc exact x = (if 0 \<le> x then \<lfloor>x\<rfloor> else \<lceil>x\<rceil>)"
  by (simp_all add: exact_def)

definition round_nearest :: "'d fp_arith \<Rightarrow> 'd \<Rightarrow> u_long" where
  "round_nearest A v = of_int (f_trunc A (f_add A v (f_dec A 5 1)))"

section \<open>The filter\<close>

record 'd flipflop =
  ff_name :: string
  stable_estimate :: 'd
  agile_estimate :: 'd
  last_spot_value :: 'd
  moving_range :: 'd
  center_line :: 'd
  out_of_control :: bool
  ff_valid :: bool

definition flipflop_init :: "'d fp_arith \<Rightarrow> 'd flipflop \<Rightarrow> 'd flipflop" where
  "flipflop_init A e = e\<lparr>stable_estimate := f_dec A 0 1, agile_estimate := f_dec A 0 1, last_spot_value := f_dec A 0 1,
     moving_range := f_dec A 0 1, center_line := f_dec A 0 1, out_of_control := False, ff_valid := False\<rparr>"

definition new_flipflop :: "'d fp_arith \<Rightarrow> string \<Rightarrow> 'd flipflop" where
  "new_flipflop A n = \<lparr>ff_name = n, stable_estimate = f_dec A 0 1, agile_estimate = f_dec A 0 1, last_spot_value = f_dec A 0 1,
     moving_range = f_dec A 0 1, center_line = f_dec A 0 1, out_of_control = False, ff_valid = False\<rparr>"

text \<open>\<^verbatim>\<open>get_estimate(double&)\<close>: the value, or nothing where the function returns false and leaves its argument.\<close>

definition get_float_estimate :: "'d flipflop \<Rightarrow> 'd option" where
  "get_float_estimate e =
     (if \<not> ff_valid e then None
      else Some (if out_of_control e then stable_estimate e else agile_estimate e))"

text \<open>
  \<^verbatim>\<open>get_estimate(u_long&)\<close> writes to its argument in every case, also from a local variable that has not
  been set: \<open>junk\<close> is what that variable holds then.
\<close>

definition get_ulong_estimate :: "'d fp_arith \<Rightarrow> 'd \<Rightarrow> 'd flipflop \<Rightarrow> bool \<times> u_long" where
  "get_ulong_estimate A junk e =
     (case get_float_estimate e of
        None \<Rightarrow> (False, round_nearest A junk)
      | Some x \<Rightarrow> (True, round_nearest A x))"

definition STABLE_GAIN :: "'d fp_arith \<Rightarrow> 'd" where "STABLE_GAIN A = f_dec A 9 1"
definition AGILE_GAIN :: "'d fp_arith \<Rightarrow> 'd" where "AGILE_GAIN A = f_dec A 1 1"
definition MOVING_RANGE_GAIN :: "'d fp_arith \<Rightarrow> 'd" where "MOVING_RANGE_GAIN A = f_dec A 9 1"
definition CENTER_LINE_GAIN :: "'d fp_arith \<Rightarrow> 'd" where "CENTER_LINE_GAIN A = f_dec A 1 1"
definition STDDEV_ESTIMATOR :: "'d fp_arith \<Rightarrow> 'd" where "STDDEV_ESTIMATOR A = f_flt A 1128 3"

lemmas gain_defs = STABLE_GAIN_def AGILE_GAIN_def MOVING_RANGE_GAIN_def CENTER_LINE_GAIN_def STDDEV_ESTIMATOR_def

definition update_EWMA :: "'d fp_arith \<Rightarrow> 'd \<Rightarrow> 'd \<Rightarrow> 'd \<Rightarrow> 'd" where
  "update_EWMA A EWMA spot gain = f_add A (f_mul A gain EWMA) (f_mul A (f_sub A (f_int A 1) gain) spot)"

definition calc_limit_distance :: "'d fp_arith \<Rightarrow> 'd flipflop \<Rightarrow> 'd" where
  "calc_limit_distance A e = f_div A (f_mul A (f_dec A 30 1) (moving_range e)) (STDDEV_ESTIMATOR A)"

definition spot_value_within_limits :: "'d fp_arith \<Rightarrow> 'd \<Rightarrow> 'd flipflop \<Rightarrow> bool" where
  "spot_value_within_limits A spot e =
     (let limit_distance = calc_limit_distance A e;
          lower = f_sub A (center_line e) limit_distance;
          upper = f_add A (center_line e) limit_distance
      in f_le A lower spot \<and> f_le A spot upper)"

text \<open>The last line of \<^verbatim>\<open>add_observation\<close> and of \<^verbatim>\<open>load\<close>: \<^verbatim>\<open>dbg_print\<close> asserts that there is an estimate.\<close>

definition dbg_print :: "'d flipflop \<Rightarrow> 'd flipflop result" where
  "dbg_print e = ASSERT (get_float_estimate e \<noteq> None) (Inr e)"

definition observe :: "'d fp_arith \<Rightarrow> 'd \<Rightarrow> 'd flipflop \<Rightarrow> 'd flipflop" where
  "observe A new_spot_value e =
     (let new_MR_value = f_abs A (f_sub A new_spot_value (last_spot_value e));
          e1 = e\<lparr>last_spot_value := new_spot_value\<rparr>
      in if \<not> ff_valid e
         then e1\<lparr>center_line := new_spot_value, stable_estimate := new_spot_value, agile_estimate := new_spot_value, ff_valid := True\<rparr>
         else let e2 = e1\<lparr>agile_estimate := update_EWMA A (agile_estimate e) new_spot_value (AGILE_GAIN A),
                         stable_estimate := update_EWMA A (stable_estimate e) new_spot_value (STABLE_GAIN A)\<rparr>;
                  e3 = e2\<lparr>out_of_control := \<not> spot_value_within_limits A new_spot_value e2\<rparr>;
                  e4 = (if f_eq A (moving_range e3) (f_dec A 0 1) \<or> spot_value_within_limits A new_spot_value e3
                        then e3\<lparr>moving_range := update_EWMA A (moving_range e3) new_MR_value (MOVING_RANGE_GAIN A)\<rparr>
                        else e3)
              in e4\<lparr>center_line := update_EWMA A (center_line e4) new_spot_value (CENTER_LINE_GAIN A)\<rparr>)"

definition add_observation :: "'d fp_arith \<Rightarrow> 'd \<Rightarrow> 'd flipflop \<Rightarrow> 'd flipflop result" where
  "add_observation A new_spot_value e = dbg_print (observe A new_spot_value e)"

definition flipflop_reset :: "'d fp_arith \<Rightarrow> 'd \<Rightarrow> 'd flipflop \<Rightarrow> 'd flipflop result" where
  "flipflop_reset A new_spot_value e = add_observation A new_spot_value (flipflop_init A e)"

section \<open>The text form\<close>

text \<open>A stream is the list of its words, because \<^verbatim>\<open>operator>>\<close> skips white space.\<close>

definition ff_fields :: "(string \<times> ('d flipflop \<Rightarrow> 'd) \<times> ('d \<Rightarrow> 'd flipflop \<Rightarrow> 'd flipflop)) list" where
  "ff_fields =
     [(''stable_estimate'', stable_estimate, \<lambda>x e. e\<lparr>stable_estimate := x\<rparr>),
      (''agile_estimate'', agile_estimate, \<lambda>x e. e\<lparr>agile_estimate := x\<rparr>),
      (''last_spot_value'', last_spot_value, \<lambda>x e. e\<lparr>last_spot_value := x\<rparr>),
      (''moving_range'', moving_range, \<lambda>x e. e\<lparr>moving_range := x\<rparr>),
      (''center_line'', center_line, \<lambda>x e. e\<lparr>center_line := x\<rparr>)]"

text \<open>Copying: the fields one by one, then the flags and the name.\<close>

definition flipflop_assign :: "'d flipflop \<Rightarrow> 'd flipflop \<Rightarrow> 'd flipflop" where
  "flipflop_assign other this =
     (fold (\<lambda>(n, get, put) e. put (get other) e) ff_fields this)
       \<lparr>out_of_control := out_of_control other, ff_valid := ff_valid other, ff_name := ff_name other\<rparr>"

definition show_bool :: "bool \<Rightarrow> string" where
  "show_bool b = (if b then ''true'' else ''false'')"

definition read_bool :: "string \<Rightarrow> bool option" where
  "read_bool s = (if s = ''true'' then Some True else if s = ''false'' then Some False else None)"

definition save :: "('d \<Rightarrow> string) \<Rightarrow> 'd flipflop \<Rightarrow> string list" where
  "save show_double e =
     concat (map (\<lambda>(n, get, put). [n, show_double (get e)]) ff_fields) @ [''out_of_control'', show_bool (out_of_control e)]"

fun load_fields ::
  "(string \<Rightarrow> 'd option) \<Rightarrow> (string \<times> ('d flipflop \<Rightarrow> 'd) \<times> ('d \<Rightarrow> 'd flipflop \<Rightarrow> 'd flipflop)) list \<Rightarrow>
   string list \<Rightarrow> 'd flipflop \<Rightarrow> (string list \<times> 'd flipflop) result" where
  "load_fields read_double [] inp e = Inr (inp, e)"
| "load_fields read_double ((n, get, put) # fs) inp e =
     (case inp of
        field_name # w # rest \<Rightarrow>
          if field_name \<noteq> n then Inl RuntimeError
          else (case read_double w of
                  None \<Rightarrow> Inl RuntimeError
                | Some x \<Rightarrow> load_fields read_double fs rest (put x e))
      | _ \<Rightarrow> Inl RuntimeError)"

definition load :: "(string \<Rightarrow> 'd option) \<Rightarrow> string list \<Rightarrow> 'd flipflop \<Rightarrow> (string list \<times> 'd flipflop) result" where
  "load read_double inp e =
     bindE (load_fields read_double ff_fields inp e) (\<lambda>(inp1, e1).
       case inp1 of
         field_name # w # rest \<Rightarrow>
           if field_name \<noteq> ''out_of_control'' then Inl RuntimeError
           else (case read_bool w of
                   None \<Rightarrow> Inl RuntimeError
                 | Some b \<Rightarrow> bindE (dbg_print (e1\<lparr>out_of_control := b, ff_valid := True\<rparr>)) (\<lambda>e2. Inr (rest, e2)))
       | _ \<Rightarrow> Inl RuntimeError)"

section \<open>What the filter keeps\<close>

text \<open>The observations, the oldest first.\<close>

definition observe_all :: "'d fp_arith \<Rightarrow> 'd list \<Rightarrow> 'd flipflop \<Rightarrow> 'd flipflop result" where
  "observe_all A = foldE (add_observation A)"

lemma ff_valid_observe [simp]: "ff_valid (observe A x e)"
  by (simp add: observe_def Let_def)

lemma add_observation_observe: "add_observation A x e = Inr (observe A x e)"
  by (simp add: add_observation_def dbg_print_def get_float_estimate_def)

lemma observe_all_fold: "observe_all A xs e = Inr (fold (observe A) xs e)"
  by (induction xs arbitrary: e) (simp_all add: observe_all_def add_observation_observe)

lemma assign_copies: "flipflop_assign other this = other"
  by (cases other; cases this) (simp add: flipflop_assign_def ff_fields_def)

lemma reset_fresh: "flipflop_reset A x e = Inr (observe A x (new_flipflop A (ff_name e)))"
  by (cases e) (simp add: flipflop_reset_def add_observation_observe flipflop_init_def new_flipflop_def)

text \<open>An average with a gain between 0 and 1 lies between its arguments.\<close>

lemma update_EWMA_between:
  assumes "0 \<le> gain" and "gain \<le> 1" and "a \<le> x" "x \<le> b" "a \<le> s" "s \<le> b"
  shows "a \<le> update_EWMA exact x s gain \<and> update_EWMA exact x s gain \<le> b"
proof -
  have "gain * a + (1 - gain) * a \<le> gain * x + (1 - gain) * s"
    "gain * x + (1 - gain) * s \<le> gain * b + (1 - gain) * b"
    using assms by (intro add_mono mult_left_mono; simp)+
  then show ?thesis by (simp add: update_EWMA_def algebra_simps)
qed

definition between :: "real \<Rightarrow> real \<Rightarrow> real flipflop \<Rightarrow> bool" where
  "between a b e \<longleftrightarrow> ff_valid e \<and> a \<le> stable_estimate e \<and> stable_estimate e \<le> b \<and> a \<le> agile_estimate e \<and> agile_estimate e \<le> b"

lemma observe_between:
  assumes "between a b e" and "a \<le> x" "x \<le> b"
  shows "between a b (observe exact x e)"
proof -
  have "a \<le> update_EWMA exact (agile_estimate e) x (AGILE_GAIN exact) \<and> update_EWMA exact (agile_estimate e) x (AGILE_GAIN exact) \<le> b"
    "a \<le> update_EWMA exact (stable_estimate e) x (STABLE_GAIN exact) \<and> update_EWMA exact (stable_estimate e) x (STABLE_GAIN exact) \<le> b"
    using assms by (intro update_EWMA_between; simp add: between_def gain_defs)+
  then show ?thesis using assms by (simp add: between_def observe_def Let_def)
qed

lemma fold_observe_between: "between a b e \<Longrightarrow> \<forall>x\<in>set xs. a \<le> x \<and> x \<le> b \<Longrightarrow> between a b (fold (observe exact) xs e)"
  by (induction xs arbitrary: e) (simp_all add: observe_between)

section \<open>Properties\<close>

text \<open>
  The filter answers from its observations: under any arithmetic it has an estimate exactly when
  there has been an observation, no assertion of it fails, and a single observation is the estimate. In
  exact arithmetic the estimate always lies between the least and the greatest observation.
\<close>

theorem estimate_follows_observations:
  "(\<exists>e. observe_all A xs (new_flipflop A n) = Inr e \<and> (get_float_estimate e = None \<longleftrightarrow> xs = []) \<and>
      (\<forall>x. xs = [x] \<longrightarrow> get_float_estimate e = Some x)) \<and>
   (ys \<noteq> [] \<longrightarrow> (\<exists>e y. observe_all exact ys (new_flipflop exact n) = Inr e \<and> get_float_estimate e = Some y \<and>
      Min (set ys) \<le> y \<and> y \<le> Max (set ys)))"
proof -
  have "get_float_estimate (fold (observe A) xs (new_flipflop A n)) = None \<longleftrightarrow> xs = []"
  proof (cases xs rule: rev_cases)
    case Nil
    then show ?thesis by (simp add: get_float_estimate_def new_flipflop_def)
  next
    case (snoc zs z)
    then show ?thesis by (simp add: get_float_estimate_def)
  qed
  moreover have "get_float_estimate (observe A x (new_flipflop A n)) = Some x" for x
    by (simp add: get_float_estimate_def observe_def new_flipflop_def Let_def)
  moreover have "\<exists>y. get_float_estimate (fold (observe exact) ys (new_flipflop exact n)) = Some y \<and> Min (set ys) \<le> y \<and> y \<le> Max (set ys)"
    if ne: "ys \<noteq> []"
  proof -
    obtain z zs where ys: "ys = z # zs" using ne by (cases ys) auto
    have "between (Min (set ys)) (Max (set ys)) (observe exact z (new_flipflop exact n))"
      by (simp add: between_def observe_def new_flipflop_def Let_def ys)
    then have "between (Min (set ys)) (Max (set ys)) (fold (observe exact) zs (observe exact z (new_flipflop exact n)))"
      by (rule fold_observe_between) (simp add: ys)
    then show ?thesis by (auto simp: ys between_def get_float_estimate_def)
  qed
  ultimately show ?thesis by (auto simp: observe_all_fold)
qed

theorem estimate_follows_observations_witness:
  "\<exists>e y. observe_all exact [100, 300] (new_flipflop exact ''wifi_bw_up'') = Inr e \<and> get_float_estimate e = Some y \<and> 100 \<le> y \<and> y \<le> 300"
  using estimate_follows_observations [of exact "[]" "''wifi_bw_up''" "[100, 300]"] by auto

text \<open>
  An estimate that is saved and loaded is the same estimate, if the doubles in it survive printing
  with ten digits and reading, and nothing that follows in the file is read. Whether there has been an
  observation is not saved: a filter without any comes back with the estimate 0.
\<close>

theorem saved_estimate_loads_back:
  assumes "\<forall>x\<in>{stable_estimate e, agile_estimate e, last_spot_value e, moving_range e, center_line e}.
      read_double (show_double x) = Some x"
  shows "load read_double (save show_double e @ rest) e0 = Inr (rest, e\<lparr>ff_name := ff_name e0, ff_valid := True\<rparr>) \<and>
    (e = new_flipflop A n \<longrightarrow> get_float_estimate e = None \<and>
      get_float_estimate (e\<lparr>ff_name := ff_name e0, ff_valid := True\<rparr>) = Some (f_dec A 0 1))"
proof -
  have "read_bool (show_bool b) = Some b" for b by (simp add: read_bool_def show_bool_def)
  then have "load read_double (save show_double e @ rest) e0 = Inr (rest, e\<lparr>ff_name := ff_name e0, ff_valid := True\<rparr>)"
    using assms by (cases e; cases e0) (simp add: load_def save_def ff_fields_def dbg_print_def get_float_estimate_def)
  then show ?thesis by (simp add: new_flipflop_def get_float_estimate_def)
qed

definition show_unary :: "nat \<Rightarrow> string" where "show_unary n = replicate n CHR ''1''"
definition read_unary :: "string \<Rightarrow> nat option" where "read_unary s = Some (length s)"

definition demo_estimate :: "nat flipflop" where
  "demo_estimate = \<lparr>ff_name = ''x'', stable_estimate = 3, agile_estimate = 4, last_spot_value = 5, moving_range = 1, center_line = 4,
     out_of_control = True, ff_valid = True\<rparr>"

theorem saved_estimate_loads_back_witness:
  "load read_unary (save show_unary demo_estimate @ [''more'']) (demo_estimate\<lparr>ff_name := ''y''\<rparr>) =
     Inr ([''more''], demo_estimate\<lparr>ff_name := ''y''\<rparr>)"
  using saved_estimate_loads_back [of demo_estimate read_unary show_unary "[''more'']" "demo_estimate\<lparr>ff_name := ''y''\<rparr>"]
  by (simp add: show_unary_def read_unary_def demo_estimate_def)

end
