(* ===== verification/Net_Stats.thy ===== *)
theory Net_Stats
  imports Estimates Timeops Int_Set Network_Chooser "HOL-Library.AList"
begin

text \<open>
  net_stats.cpp: the passive measurement of a network. A connection reports what it sends and which IROBs
  are acknowledged; from the time an IROB takes, corrected by the time its bytes waited behind others,
  the class computes bandwidth and latency and feeds them to the filters of \<^verbatim>\<open>flipflop_estimate.cpp\<close>.
  The results of \<^verbatim>\<open>get_time\<close> are arguments, as is \<open>junk\<close>, what a local \<^verbatim>\<open>double\<close> holds that has not been set;
  calls of \<^verbatim>\<open>reportNetStats\<close> of the chooser are results. The static members of the class are the record
  \<open>stats_world\<close>. The locks are not modelled.
\<close>

abbreviation "timeradd_us \<equiv> timeradd MAX_USECS"
abbreviation "timersub_us \<equiv> timersub MAX_USECS"
abbreviation "TIMEDIFF_us \<equiv> TIMEDIFF MAX_USECS"
abbreviation "us \<equiv> units MAX_USECS"
abbreviation "normal_us \<equiv> normal MAX_USECS"

text \<open>\<^verbatim>\<open>std::map\<close> with integer keys as a list in the order of the keys.\<close>

fun map_put :: "int \<Rightarrow> 'v \<Rightarrow> (int \<times> 'v) list \<Rightarrow> (int \<times> 'v) list" where
  "map_put k v [] = [(k, v)]"
| "map_put k v ((k', v') # xs) =
     (if k < k' then (k, v) # (k', v') # xs else if k = k' then (k, v) # xs else (k', v') # map_put k v xs)"

lemma map_of_put [simp]: "map_of (map_put k v xs) = (map_of xs)(k \<mapsto> v)"
  by (induction xs) (auto simp: fun_eq_iff)

lemma map_of_delete [simp]: "map_of (AList.delete k xs) = (map_of xs)(k := None)"
  by (simp add: AList.delete_conv')

lemma set_map_put: "set (map_put k v xs) \<subseteq> insert (k, v) (set xs)"
  by (induction xs) (auto split: if_splits)

lemma set_delete: "set (AList.delete k xs) \<subseteq> set xs"
  by (auto simp: AList.delete_eq)

definition time_to_send :: "'d fp_arith \<Rightarrow> nat \<Rightarrow> u_long \<Rightarrow> timeval" where
  "time_to_send A msg_size bw_estimate =
     (let bw_seconds = f_div A (f_int A (int msg_size)) (f_int A (uint bw_estimate));
          bw_time_usecs = unat (of_int (f_trunc A (f_mul A bw_seconds (f_int A 1000000))) :: 32 word)
      in convert_to_timeval bw_time_usecs)"

section \<open>Measurement of one IROB\<close>

record irob_measurement =
  im_id :: irob_id_t
  im_total_size :: nat
  arrival_time :: timeval
  last_activity :: timeval
  ack_time :: timeval
  failure_time :: timeval
  total_delay :: timeval
  im_finished :: bool

definition new_measurement :: irob_measurement where
  "new_measurement = \<lparr>im_id = -1, im_total_size = 0, arrival_time = tv (-1) (-1), last_activity = tv (-1) (-1),
     ack_time = tv (-1) 0, failure_time = tv (-1) 0, total_delay = tv 0 0, im_finished = False\<rparr>"

definition set_id :: "irob_id_t \<Rightarrow> irob_measurement \<Rightarrow> irob_measurement" where
  "set_id i m = m\<lparr>im_id := i\<rparr>"

definition finish :: "irob_measurement \<Rightarrow> irob_measurement" where
  "finish m = m\<lparr>im_finished := True\<rparr>"

text \<open>The scheduling delay is computed (and asserted to be one), but not added.\<close>

definition add_bytes :: "'d fp_arith \<Rightarrow> timeval \<Rightarrow> nat \<Rightarrow> timeval \<Rightarrow> u_long \<Rightarrow> irob_measurement \<Rightarrow> irob_measurement result" where
  "add_bytes A now bytes queuable_time bw_est m =
     bindE (if tv_sec (arrival_time m) = -1 then Inr (m\<lparr>arrival_time := now\<rparr>)
            else let q1 = (if timer_less (last_activity m) queuable_time then queuable_time else last_activity m);
                     self = timeradd_us (arrival_time m) (time_to_send A (im_total_size m) bw_est);
                     q2 = (if timer_less self q1 then q1 else self)
                 in if timer_less q2 now then bindE (TIMEDIFF_us q2 now) (\<lambda>_. Inr m) else Inr m)
       (\<lambda>m1. Inr (m1\<lparr>last_activity := now, im_total_size := im_total_size m1 + bytes\<rparr>))"

definition add_delay :: "timeval \<Rightarrow> irob_measurement \<Rightarrow> irob_measurement" where
  "add_delay d m = m\<lparr>total_delay := timeradd_us (total_delay m) d\<rparr>"

definition measured_ack :: "timeval option \<Rightarrow> timeval \<Rightarrow> irob_measurement \<Rightarrow> irob_measurement" where
  "measured_ack real_time now m = m\<lparr>ack_time := (case real_time of Some t \<Rightarrow> t | None \<Rightarrow> now)\<rparr>"

definition mark_failed :: "timeval \<Rightarrow> irob_measurement \<Rightarrow> irob_measurement" where
  "mark_failed now m = m\<lparr>failure_time := now\<rparr>"

text \<open>\<^verbatim>\<open>RTT()\<close>; \<open>None\<close> stands for \<^verbatim>\<open>InvalidEstimateException\<close>.\<close>

definition measured_RTT :: "irob_measurement \<Rightarrow> timeval option result" where
  "measured_RTT m =
     ASSERT (tv_sec (ack_time m) \<noteq> -1 \<or> tv_sec (failure_time m) \<noteq> -1)
     (ASSERT (tv_sec (ack_time m) = -1 \<or> tv_sec (failure_time m) = -1)
      (let finish_time = (if tv_sec (ack_time m) \<noteq> -1 then ack_time m else failure_time m)
       in ASSERT (timer_le (arrival_time m) finish_time)
          (bindE (TIMEDIFF_us (arrival_time m) finish_time) (\<lambda>rtt.
             if timer_le rtt (total_delay m) then Inr None else Inr (Some (timersub_us rtt (total_delay m)))))))"

section \<open>Queuing delay\<close>

record queuing_delay =
  last_msg_time :: timeval
  last_msg_qdelay :: timeval
  last_msg_size :: nat
  last_bw_estimate :: u_long
  qd_last_irob :: irob_id_t

definition new_queuing_delay :: queuing_delay where
  "new_queuing_delay = \<lparr>last_msg_time = tv 0 0, last_msg_qdelay = tv (-1) 0, last_msg_size = 0, last_bw_estimate = 0, qd_last_irob = -1\<rparr>"

definition get_queuable_time :: "'d fp_arith \<Rightarrow> irob_id_t \<Rightarrow> queuing_delay \<Rightarrow> timeval" where
  "get_queuable_time A i q =
     (if i \<noteq> qd_last_irob q then tv 0 0
      else timeradd_us (timeradd_us (last_msg_time q) (last_msg_qdelay q)) (time_to_send A (last_msg_size q) (last_bw_estimate q)))"

definition add_message :: "'d fp_arith \<Rightarrow> timeval \<Rightarrow> nat \<Rightarrow> u_long \<Rightarrow> irob_id_t \<Rightarrow> queuing_delay \<Rightarrow> (timeval \<times> queuing_delay) result" where
  "add_message A cur_msg_time msg_size bw_estimate i q =
     (if tv_sec (last_msg_qdelay q) = -1
      then let d = (last_msg_qdelay q)\<lparr>tv_sec := 0\<rparr>
           in Inr (d, \<lparr>last_msg_time = cur_msg_time, last_msg_qdelay = d, last_msg_size = msg_size,
                       last_bw_estimate = bw_estimate, qd_last_irob = i\<rparr>)
      else if bw_estimate = 0 then Inr (tv 0 0, q)
      else if i = qd_last_irob q \<and> i \<noteq> -1
      then Inr (tv 0 0, q\<lparr>last_msg_size := last_msg_size q + msg_size, last_bw_estimate := bw_estimate\<rparr>)
      else let prev_bw_time = time_to_send A (last_msg_size q) (last_bw_estimate q);
               qdelay_calc = timeradd_us (last_msg_qdelay q) prev_bw_time
           in bindE (if timer_less (last_msg_time q) cur_msg_time then TIMEDIFF_us (last_msg_time q) cur_msg_time else Inr (tv 0 0)) (\<lambda>diff.
              let d = (if timer_less diff qdelay_calc then timersub_us qdelay_calc diff else tv 0 0)
              in Inr (d, \<lparr>last_msg_time = cur_msg_time, last_msg_qdelay = d, last_msg_size = msg_size,
                          last_bw_estimate = bw_estimate, qd_last_irob = i\<rparr>)))"

section \<open>Bytes of an IROB per network\<close>

type_synonym addr_pair = "in_addr_t \<times> in_addr_t"

record per_network =
  pn_total_bytes :: nat
  transfers_by_network :: "(addr_pair \<times> nat) list"

definition new_per_network :: per_network where
  "new_per_network = \<lparr>pn_total_bytes = 0, transfers_by_network = []\<rparr>"

definition getValueRef :: "addr_pair \<Rightarrow> per_network \<Rightarrow> nat \<times> per_network" where
  "getValueRef key p =
     (case map_of (transfers_by_network p) key of
        Some n \<Rightarrow> (n, p)
      | None \<Rightarrow> (0, p\<lparr>transfers_by_network := AList.update key 0 (transfers_by_network p)\<rparr>))"

definition pn_addTransfer :: "addr_pair \<Rightarrow> nat \<Rightarrow> per_network \<Rightarrow> per_network" where
  "pn_addTransfer key bytes p =
     (let (n, p1) = getValueRef key p in p1\<lparr>transfers_by_network := AList.update key (n + bytes) (transfers_by_network p1)\<rparr>)"

definition pn_hasAllBytes :: "addr_pair \<Rightarrow> per_network \<Rightarrow> (bool \<times> per_network) result" where
  "pn_hasAllBytes key p =
     ASSERT (pn_total_bytes p > 0) (let (n, p1) = getValueRef key p in Inr (n \<ge> pn_total_bytes p, p1))"

definition pn_reportTotalBytes :: "nat \<Rightarrow> per_network \<Rightarrow> per_network result" where
  "pn_reportTotalBytes n p =
     (let p1 = (if pn_total_bytes p = 0 then p\<lparr>pn_total_bytes := n\<rparr> else p) in ASSERT (pn_total_bytes p1 = n) (Inr p1))"

definition pn_remove :: "addr_pair \<Rightarrow> per_network \<Rightarrow> bool \<times> per_network" where
  "pn_remove key p =
     (let p1 = p\<lparr>transfers_by_network := AList.delete key (transfers_by_network p)\<rparr> in (transfers_by_network p1 = [], p1))"

type_synonym irob_transfers = "irob_id_t \<Rightarrow> per_network option"

definition transfers_of :: "irob_id_t \<Rightarrow> irob_transfers \<Rightarrow> per_network" where
  "transfers_of i T = (case T i of Some p \<Rightarrow> p | None \<Rightarrow> new_per_network)"

definition addTransfer :: "irob_id_t \<Rightarrow> addr_pair \<Rightarrow> nat \<Rightarrow> irob_transfers \<Rightarrow> irob_transfers" where
  "addTransfer i key bytes T = T(i \<mapsto> pn_addTransfer key bytes (transfers_of i T))"

definition hasAllBytes :: "irob_id_t \<Rightarrow> addr_pair \<Rightarrow> irob_transfers \<Rightarrow> (bool \<times> irob_transfers) result" where
  "hasAllBytes i key T = bindE (pn_hasAllBytes key (transfers_of i T)) (\<lambda>(b, p). Inr (b, T(i \<mapsto> p)))"

definition reportTotalBytes :: "irob_id_t \<Rightarrow> nat \<Rightarrow> irob_transfers \<Rightarrow> irob_transfers result" where
  "reportTotalBytes i n T = bindE (pn_reportTotalBytes n (transfers_of i T)) (\<lambda>p. Inr (T(i \<mapsto> p)))"

definition removeAll_transfers :: "addr_pair \<Rightarrow> irob_transfers \<Rightarrow> irob_transfers" where
  "removeAll_transfers key T = (\<lambda>i. case T i of None \<Rightarrow> None
     | Some p \<Rightarrow> (let (gone, p1) = pn_remove key p in if gone then None else Some p1))"

section \<open>The statistics of a pair of interfaces\<close>

record 'd estimate_set =
  es_estimates :: "'d flipflop list"
  es_error_estimators_initialized :: bool
  es_last_RTT :: timeval
  es_last_srv_time :: timeval
  es_last_req_size :: nat
  es_last_irob :: irob_id_t

record 'd stats_world =
  sw_cache :: "addr_pair \<Rightarrow> 'd estimate_set option"
  sw_transfers :: irob_transfers
  striped_irobs :: int_set

definition resetAll :: "'d stats_world" where
  "resetAll = \<lparr>sw_cache = Map.empty, sw_transfers = Map.empty, striped_irobs = IntSet\<rparr>"

record 'd net_stats =
  ns_addrs :: addr_pair
  outgoing_qdelay :: queuing_delay
  net_estimates :: "'d flipflop list"
  ns_last_RTT :: timeval
  ns_last_srv_time :: timeval
  ns_last_req_size :: nat
  ns_last_irob :: irob_id_t
  irob_measurements :: "(irob_id_t \<times> irob_measurement) list"
  past_irobs :: int_set
  error_estimators_initialized :: bool

text \<open>A call of \<^verbatim>\<open>reportNetStats\<close>: the network type, the new and the estimated bandwidth, and the same for the latency.\<close>

type_synonym 'd net_report = "32 word \<times> 'd \<times> 'd \<times> 'd \<times> 'd"

definition observe_est :: "'d fp_arith \<Rightarrow> nat \<Rightarrow> u_long \<Rightarrow> 'd net_stats \<Rightarrow> 'd net_stats result" where
  "observe_est A t v ns =
     bindE (add_observation A (f_int A (uint v)) (net_estimates ns ! t)) (\<lambda>e. Inr (ns\<lparr>net_estimates := (net_estimates ns)[t := e]\<rparr>))"

definition estimate :: "'d fp_arith \<Rightarrow> nat \<Rightarrow> 'd net_stats \<Rightarrow> u_long option" where
  "estimate A t ns = map_option (round_nearest A) (get_float_estimate (net_estimates ns ! t))"

definition cache_save :: "'d net_stats \<Rightarrow> 'd stats_world \<Rightarrow> 'd stats_world" where
  "cache_save ns w = w\<lparr>sw_cache := (sw_cache w)(ns_addrs ns \<mapsto>
     \<lparr>es_estimates = net_estimates ns, es_error_estimators_initialized = error_estimators_initialized ns,
      es_last_RTT = ns_last_RTT ns, es_last_srv_time = ns_last_srv_time ns, es_last_req_size = ns_last_req_size ns,
      es_last_irob = ns_last_irob ns\<rparr>)\<rparr>"

definition stats_are_cached :: "'d net_stats \<Rightarrow> 'd stats_world \<Rightarrow> bool" where
  "stats_are_cached ns w \<longleftrightarrow> sw_cache w (ns_addrs ns) \<noteq> None"

definition cache_restore :: "'d stats_world \<Rightarrow> 'd net_stats \<Rightarrow> bool \<times> 'd net_stats" where
  "cache_restore w ns =
     (case sw_cache w (ns_addrs ns) of
        None \<Rightarrow> (False, ns)
      | Some c \<Rightarrow>
          (True, ns\<lparr>net_estimates := map2 (\<lambda>cached e. if get_float_estimate cached \<noteq> None then flipflop_assign cached e else e)
                       (es_estimates c) (net_estimates ns),
                    error_estimators_initialized := es_error_estimators_initialized c,
                    ns_last_RTT := es_last_RTT c, ns_last_srv_time := es_last_srv_time c,
                    ns_last_req_size := es_last_req_size c, ns_last_irob := es_last_irob c\<rparr>))"

definition observe_iface :: "'d fp_arith \<Rightarrow> net_interface \<Rightarrow> net_interface \<Rightarrow> 'd net_stats \<Rightarrow> 'd net_stats result" where
  "observe_iface A local_iface remote_iface ns =
     (let spot_bandwidth = iface_bandwidth local_iface remote_iface;
          spot_latency = iface_RTT local_iface remote_iface div 2
      in bindE (if spot_bandwidth > 0 then observe_est A NET_STATS_BW_UP spot_bandwidth ns else Inr ns) (\<lambda>ns1.
           if spot_latency > 0 then observe_est A NET_STATS_LATENCY spot_latency ns1 else Inr ns1))"

definition blank_net_stats :: "'d fp_arith \<Rightarrow> string \<Rightarrow> addr_pair \<Rightarrow> 'd net_stats" where
  "blank_net_stats A nm key =
     \<lparr>ns_addrs = key, outgoing_qdelay = new_queuing_delay,
      net_estimates = [new_flipflop A (nm @ ''_latency''), new_flipflop A (nm @ ''_bw_up''), new_flipflop A (nm @ ''_bw_down'')],
      ns_last_RTT = tv (-1) 0, ns_last_srv_time = tv (-1) 0, ns_last_req_size = 0, ns_last_irob = -1,
      irob_measurements = [], past_irobs = IntSet, error_estimators_initialized = False\<rparr>"

text \<open>The constructor; \<open>breadcrumbs\<close> is the configuration's \<^verbatim>\<open>getUseBreadcrumbsEstimates\<close>, \<open>nm\<close> the name of the
  network type of the pair.\<close>

definition new_net_stats ::
  "'d fp_arith \<Rightarrow> bool \<Rightarrow> string \<Rightarrow> net_interface \<Rightarrow> net_interface \<Rightarrow> 'd stats_world \<Rightarrow> ('d net_stats \<times> 'd stats_world) result" where
  "new_net_stats A breadcrumbs nm local_iface remote_iface w =
     (let ns = blank_net_stats A nm (ip_addr local_iface, ip_addr remote_iface);
          (init_stats, ns1) =
            (if breadcrumbs then (True, ns)
             else if \<not> stats_are_cached ns w then (True, ns)
             else (False, snd (cache_restore w ns)))
      in bindE (if init_stats then observe_iface A local_iface remote_iface ns1 else Inr ns1) (\<lambda>ns2.
           Inr (ns2, cache_save ns2 w)))"

definition getStats :: "'d fp_arith \<Rightarrow> bool \<Rightarrow> 32 word \<Rightarrow> 'd net_stats \<Rightarrow> 'd stats_world \<Rightarrow> 'd net_report list \<times> 'd net_stats \<times> 'd stats_world" where
  "getStats A breadcrumbs network_type ns w =
     (if breadcrumbs \<or> \<not> error_estimators_initialized ns
      then case (estimate A NET_STATS_BW_UP ns, estimate A NET_STATS_LATENCY ns) of
             (Some bw_est, Some latency_est) \<Rightarrow>
               (let latency_seconds = f_div A (f_int A (uint latency_est)) (f_dec A 10000 1);
                    bw = f_int A (uint bw_est)
                in ([(network_type, bw, bw, latency_seconds, latency_seconds)],
                    if error_estimators_initialized ns then (ns, w)
                    else (ns\<lparr>error_estimators_initialized := True\<rparr>, cache_save ns w)))
           | _ \<Rightarrow> ([], ns, w)
      else ([], ns, w))"

definition stats_update :: "'d fp_arith \<Rightarrow> net_interface \<Rightarrow> net_interface \<Rightarrow> bool \<Rightarrow> 32 word \<Rightarrow> 'd net_stats \<Rightarrow> 'd stats_world \<Rightarrow>
    ('d net_report list \<times> 'd net_stats \<times> 'd stats_world) result" where
  "stats_update A local_iface remote_iface has_chooser network_type ns w =
     (let spot_bandwidth = iface_bandwidth local_iface remote_iface;
          spot_latency = iface_RTT local_iface remote_iface div 2
      in bindE (observe_iface A local_iface remote_iface ns) (\<lambda>ns1.
           let reports = (if has_chooser \<and> spot_bandwidth > 0 \<and> spot_latency > 0
                          then case (estimate A NET_STATS_BW_UP ns1, estimate A NET_STATS_LATENCY ns1) of
                                 (Some bw_est, Some latency_est) \<Rightarrow>
                                   [(network_type, f_int A (uint spot_bandwidth), f_int A (uint bw_est),
                                     f_div A (f_int A (uint spot_latency)) (f_dec A 10000 1),
                                     f_div A (f_int A (uint latency_est)) (f_dec A 10000 1))]
                               | _ \<Rightarrow> []
                          else [])
           in Inr (reports, ns1, cache_save ns1 w)))"

definition delete_net_stats :: "'d net_stats \<Rightarrow> 'd stats_world \<Rightarrow> 'd stats_world" where
  "delete_net_stats ns w =
     (let w1 = cache_save ns w in w1\<lparr>sw_transfers := removeAll_transfers (ns_addrs ns) (sw_transfers w1)\<rparr>)"

text \<open>The two \<^verbatim>\<open>get_estimate\<close>s; \<open>None\<close> is the result false.\<close>

definition cached_get_estimate :: "'d fp_arith \<Rightarrow> 'd stats_world \<Rightarrow> net_interface \<Rightarrow> net_interface \<Rightarrow> nat \<Rightarrow> u_long option" where
  "cached_get_estimate A w local_iface remote_iface t =
     (if t \<ge> NUM_ESTIMATES then None
      else case sw_cache w (ip_addr local_iface, ip_addr remote_iface) of
             Some c \<Rightarrow> map_option (round_nearest A) (get_float_estimate (es_estimates c ! t))
           | None \<Rightarrow> None)"

definition own_get_estimate :: "'d fp_arith \<Rightarrow> nat \<Rightarrow> 'd net_stats \<Rightarrow> u_long option" where
  "own_get_estimate A t ns = (if t \<ge> NUM_ESTIMATES then None else estimate A t ns)"

section \<open>Reports of the sender\<close>

definition report_total_irob_bytes :: "irob_id_t \<Rightarrow> nat \<Rightarrow> 'd stats_world \<Rightarrow> 'd stats_world result" where
  "report_total_irob_bytes i total_bytes_sent w =
     bindE (reportTotalBytes i total_bytes_sent (sw_transfers w)) (\<lambda>T. Inr (w\<lparr>sw_transfers := T\<rparr>))"

text \<open>From the estimate on; \<open>now1\<close> and \<open>now2\<close> are the times read by \<^verbatim>\<open>add_bytes\<close> and by \<^verbatim>\<open>add_message\<close>.\<close>

definition measure_send ::
  "'d fp_arith \<Rightarrow> 'd \<Rightarrow> timeval \<Rightarrow> timeval \<Rightarrow> irob_id_t \<Rightarrow> nat \<Rightarrow> 'd net_stats \<Rightarrow> 'd net_stats result" where
  "measure_send A junk now1 now2 i bytes ns =
     (let bw_est = snd (get_ulong_estimate A junk (net_estimates ns ! NET_STATS_BW_UP));
          ms1 = (if i \<noteq> ns_last_irob ns
                 then case map_of (irob_measurements ns) (ns_last_irob ns) of
                        Some m \<Rightarrow> map_put (ns_last_irob ns) (finish m) (irob_measurements ns)
                      | None \<Rightarrow> irob_measurements ns
                 else irob_measurements ns);
          measurement = set_id i (case map_of ms1 i of Some m \<Rightarrow> m | None \<Rightarrow> new_measurement)
      in if im_finished measurement
         then Inr (ns\<lparr>irob_measurements := AList.delete i ms1, ns_last_irob := i, past_irobs := insert_num (past_irobs ns) i\<rparr>)
         else bindE (add_bytes A now1 bytes (get_queuable_time A i (outgoing_qdelay ns)) bw_est measurement) (\<lambda>m1.
              bindE (add_message A now2 bytes bw_est i (outgoing_qdelay ns)) (\<lambda>(qdelay, q).
                Inr (ns\<lparr>irob_measurements := map_put i (add_delay qdelay m1) ms1, ns_last_irob := i, outgoing_qdelay := q\<rparr>))))"

definition report_irob_send_event ::
  "'d fp_arith \<Rightarrow> 'd \<Rightarrow> timeval \<Rightarrow> timeval \<Rightarrow> irob_id_t \<Rightarrow> nat \<Rightarrow> 'd net_stats \<Rightarrow> 'd stats_world \<Rightarrow>
   ('d net_stats \<times> 'd stats_world) result" where
  "report_irob_send_event A junk now1 now2 i bytes ns w =
     (let irob_was_striped = contains (striped_irobs w) i;
          w1 = (if irob_was_striped then w else w\<lparr>sw_transfers := addTransfer i (ns_addrs ns) bytes (sw_transfers w)\<rparr>)
      in if contains (past_irobs ns) i then Inr (ns, w1)
         else if irob_was_striped then Inr (ns\<lparr>irob_measurements := AList.delete i (irob_measurements ns)\<rparr>, w1)
         else bindE (measure_send A junk now1 now2 i bytes ns) (\<lambda>ns1. Inr (ns1, w1)))"

definition report_non_irob_send_event :: "'d fp_arith \<Rightarrow> 'd \<Rightarrow> timeval \<Rightarrow> nat \<Rightarrow> 'd net_stats \<Rightarrow> (timeval \<times> 'd net_stats) result" where
  "report_non_irob_send_event A junk now bytes ns =
     (let bw_est = snd (get_ulong_estimate A junk (net_estimates ns ! NET_STATS_BW_UP))
      in bindE (add_message A now bytes bw_est (-1) (outgoing_qdelay ns)) (\<lambda>(d, q). Inr (d, ns\<lparr>outgoing_qdelay := q\<rparr>)))"

section \<open>Acknowledgements\<close>

definition MIN_SIZE_FOR_BW_ESTIMATE :: nat where "MIN_SIZE_FOR_BW_ESTIMATE = 3000"

text \<open>Bandwidth and latency from a message whose size hardly counts and another whose size does.\<close>

definition calculate_bw_latency ::
  "'d fp_arith \<Rightarrow> timeval \<Rightarrow> timeval \<Rightarrow> timeval \<Rightarrow> timeval \<Rightarrow> nat \<Rightarrow> 'd \<times> 'd" where
  "calculate_bw_latency A latency_RTT bw_RTT latency_srv_time bw_srv_time bw_req_size =
     (let zero = f_dec A 0 1;
          latency = (if timer_less latency_srv_time latency_RTT
                     then f_div A (f_div A (f_int A (convert_to_useconds (timersub_us latency_RTT latency_srv_time))) (f_dec A 10000 1)) (f_dec A 20 1)
                     else zero);
          bw = (if f_less A zero latency \<and> timer_less bw_srv_time bw_RTT
                then f_div A (f_int A (int bw_req_size))
                       (f_sub A (f_div A (f_int A (convert_to_useconds (timersub_us bw_RTT bw_srv_time))) (f_dec A 10000000 1))
                                (f_div A (f_mul A (f_dec A 20 1) latency) (f_dec A 10000 1)))
                else zero)
      in (bw, latency))"

text \<open>The denominator of the bandwidth when both sizes count.\<close>

definition bw_denominator :: "timeval \<Rightarrow> timeval \<Rightarrow> timeval \<Rightarrow> timeval \<Rightarrow> timeval result" where
  "bw_denominator last_RTT rtt last_srv_time srv_time =
     (let RTT_diff_pos = timer_less last_RTT rtt;
          srv_time_diff_pos = timer_less last_srv_time srv_time
      in bindE (if RTT_diff_pos then TIMEDIFF_us last_RTT rtt else TIMEDIFF_us rtt last_RTT) (\<lambda>RTT_diff.
         bindE (if srv_time_diff_pos then TIMEDIFF_us last_srv_time srv_time else TIMEDIFF_us srv_time last_srv_time) (\<lambda>srv_time_diff.
           if RTT_diff_pos \<and> srv_time_diff_pos \<or> \<not> (RTT_diff_pos \<or> srv_time_diff_pos)
           then Inr (timeradd_us RTT_diff srv_time_diff)
           else if RTT_diff_pos then Inr (timersub_us RTT_diff srv_time_diff)
           else if srv_time_diff_pos then Inr (timersub_us RTT_diff srv_time_diff)
           else Inl AssertFailed)))"

text \<open>\<^verbatim>\<open>((RTT - srv_time)/1000 - (req_size/bw)*1000) / 2\<close> in milliseconds.\<close>

definition latency_given_bw :: "'d fp_arith \<Rightarrow> timeval \<Rightarrow> timeval \<Rightarrow> nat \<Rightarrow> 'd \<Rightarrow> 'd" where
  "latency_given_bw A rtt srv_time req_size bw =
     (let diff = (if timer_less srv_time rtt then timersub_us rtt srv_time else tv 0 0)
      in f_div A (f_sub A (f_div A (f_int A (convert_to_useconds diff)) (f_dec A 10000 1))
                          (f_mul A (f_div A (f_int A (int req_size)) bw) (f_dec A 10000 1)))
                 (f_dec A 20 1))"

record spot =
  bw_obs :: u_long
  latency_obs :: u_long
  bw_valid :: bool
  lat_valid :: bool
  valid_result :: bool

definition no_spot :: spot where
  "no_spot = \<lparr>bw_obs = 0, latency_obs = 0, bw_valid = False, lat_valid = False, valid_result = False\<rparr>"

definition spot_from :: "'d fp_arith \<Rightarrow> (bool \<Rightarrow> bool \<Rightarrow> bool) \<Rightarrow> 'd \<times> 'd \<Rightarrow> spot" where
  "spot_from A both = (\<lambda>(bw, latency).
     let bv = f_less A (f_dec A 0 1) bw; lv = f_less A (f_dec A 0 1) latency
     in \<lparr>bw_obs = round_nearest A bw, latency_obs = round_nearest A latency, bw_valid = bv, lat_valid = lv, valid_result = both bv lv\<rparr>)"

text \<open>The spot values of a new measurement, from it and the one before.\<close>

definition spot_values :: "'d fp_arith \<Rightarrow> timeval \<Rightarrow> timeval \<Rightarrow> nat \<Rightarrow> 'd net_stats \<Rightarrow> spot result" where
  "spot_values A rtt srv_time req_size ns =
     (let last_req_size = ns_last_req_size ns; last_RTT = ns_last_RTT ns; last_srv_time = ns_last_srv_time ns;
          size_diff = (if req_size > last_req_size then req_size - last_req_size else last_req_size - req_size)
      in if size_diff \<ge> MIN_SIZE_FOR_BW_ESTIMATE \<and> (req_size \<ge> MIN_SIZE_FOR_BW_ESTIMATE \<or> last_req_size \<ge> MIN_SIZE_FOR_BW_ESTIMATE)
         then if req_size < MIN_SIZE_FOR_BW_ESTIMATE
              then ASSERT (last_req_size \<ge> MIN_SIZE_FOR_BW_ESTIMATE)
                     (Inr (spot_from A (\<or>) (calculate_bw_latency A rtt last_RTT srv_time last_srv_time last_req_size)))
              else if last_req_size < MIN_SIZE_FOR_BW_ESTIMATE
              then ASSERT (req_size \<ge> MIN_SIZE_FOR_BW_ESTIMATE)
                     (Inr (spot_from A (\<or>) (calculate_bw_latency A last_RTT rtt last_srv_time srv_time req_size)))
              else bindE (bw_denominator last_RTT rtt last_srv_time srv_time) (\<lambda>denominator.
                     let bw = f_mul A (f_div A (f_int A (int size_diff)) (f_int A (convert_to_useconds denominator))) (f_dec A 10000000 1)
                     in Inr (spot_from A (\<and>) (bw, latency_given_bw A rtt srv_time req_size bw)))
         else case estimate A NET_STATS_BW_UP ns of
                Some bw_est \<Rightarrow>
                  (let latency = latency_given_bw A rtt srv_time req_size (f_int A (uint bw_est));
                       lv = f_less A (f_dec A 0 1) latency
                   in Inr \<lparr>bw_obs = 0, latency_obs = round_nearest A latency, bw_valid = False, lat_valid = lv, valid_result = lv\<rparr>)
              | None \<Rightarrow> Inr no_spot)"

definition observe_spot :: "'d fp_arith \<Rightarrow> spot \<Rightarrow> 'd net_stats \<Rightarrow> 'd net_stats result" where
  "observe_spot A s ns =
     bindE (if bw_valid s then observe_est A NET_STATS_BW_UP (bw_obs s) ns else Inr ns) (\<lambda>ns1.
       if lat_valid s then observe_est A NET_STATS_LATENCY (latency_obs s) ns1 else Inr ns1)"

text \<open>
  \<^verbatim>\<open>report_ack\<close>: the new spot values, if there is a new measurement (the result true), the statistics and
  the static members.
\<close>

definition measure_ack ::
  "'d fp_arith \<Rightarrow> timeval \<Rightarrow> irob_measurement \<Rightarrow> timeval \<Rightarrow> 'd net_stats \<Rightarrow> 'd stats_world \<Rightarrow>
   (('d \<times> 'd) option \<times> 'd net_stats \<times> 'd stats_world) result" where
  "measure_ack A srv_time measurement rtt ns w =
     (let req_size = im_total_size measurement;
          saved = (\<lambda>out ns1. let ns2 = ns1\<lparr>ns_last_RTT := rtt, ns_last_req_size := req_size, ns_last_srv_time := srv_time\<rparr>
                             in Inr (out, ns2, cache_save ns2 w))
      in if tv_sec (ns_last_RTT ns) \<noteq> -1
         then bindE (spot_values A rtt srv_time req_size ns) (\<lambda>s.
                if valid_result s
                then bindE (observe_spot A s ns)
                       (saved (Some (f_int A (uint (bw_obs s)), f_div A (f_int A (uint (latency_obs s))) (f_dec A 10000 1))))
                else saved None ns)
         else saved None ns)"

definition stats_report_ack ::
  "'d fp_arith \<Rightarrow> irob_id_t \<Rightarrow> timeval \<Rightarrow> timeval \<Rightarrow> timeval option \<Rightarrow> timeval \<Rightarrow> 'd net_stats \<Rightarrow> 'd stats_world \<Rightarrow>
   (('d \<times> 'd) option \<times> 'd net_stats \<times> 'd stats_world) result" where
  "stats_report_ack A i srv_time ack_qdelay real_time now ns w =
     (if subsec srv_time = -1 then Inr (None, ns, w)
      else if contains (striped_irobs w) i then Inr (None, ns, w)
      else bindE (hasAllBytes i (ns_addrs ns) (sw_transfers w)) (\<lambda>(all_here, T).
        let w1 = w\<lparr>sw_transfers := T\<rparr>
        in if \<not> all_here then Inr (None, ns, w1\<lparr>striped_irobs := insert_num (striped_irobs w1) i\<rparr>)
           else case map_of (irob_measurements ns) i of
                  None \<Rightarrow> Inr (None, ns, w1)
                | Some m \<Rightarrow>
                    (let ns1 = ns\<lparr>irob_measurements := AList.delete i (irob_measurements ns)\<rparr>;
                         m1 = measured_ack real_time now (add_delay ack_qdelay m)
                     in bindE (measured_RTT m1) (\<lambda>r.
                          case r of None \<Rightarrow> Inr (None, ns1, w1)
                          | Some rtt \<Rightarrow> measure_ack A srv_time m1 rtt ns1 w1))))"

section \<open>Failures\<close>

text \<open>\<open>now i\<close> is the time read for the measurement of \<open>i\<close>.\<close>

definition failure_delay :: "(irob_id_t \<Rightarrow> timeval) \<Rightarrow> irob_id_t \<times> irob_measurement \<Rightarrow> timeval \<times> bool \<Rightarrow> (timeval \<times> bool) result" where
  "failure_delay now = (\<lambda>(i, m) (max_delay, failure).
     bindE (measured_RTT (mark_failed (now i) m)) (\<lambda>r.
       case r of
         Some delay \<Rightarrow> if timer_less max_delay delay then Inr (delay, True) else Inr (max_delay, failure)
       | None \<Rightarrow> Inr (max_delay, failure)))"

definition mark_irob_failures ::
  "'d fp_arith \<Rightarrow> bool \<Rightarrow> 32 word \<Rightarrow> (irob_id_t \<Rightarrow> timeval) \<Rightarrow> 'd net_stats \<Rightarrow> ('d option \<times> 'd net_report list \<times> 'd net_stats) result" where
  "mark_irob_failures A record_failover_latency network_type now ns =
     bindE (foldE (failure_delay now) (irob_measurements ns) (tv 0 0, False)) (\<lambda>(max_delay, failure).
       let ns1 = ns\<lparr>irob_measurements := []\<rparr>
       in if failure
          then let latency_ms = f_div A (f_div A (f_int A (convert_to_useconds max_delay)) (f_dec A 10000 1)) (f_dec A 20 1);
                   latency_seconds = f_div A latency_ms (f_dec A 10000 1)
               in if record_failover_latency
                  then bindE (observe_est A NET_STATS_LATENCY (round_nearest A latency_ms) ns1) (\<lambda>ns2.
                         Inr (Some latency_seconds,
                              (case estimate A NET_STATS_LATENCY ns2 of
                                 Some new_latency_est \<Rightarrow>
                                   [(network_type, f_dec A 0 1, f_dec A 0 1, latency_seconds,
                                     f_div A (f_int A (uint new_latency_est)) (f_dec A 10000 1))]
                               | None \<Rightarrow> []),
                              ns2))
                  else Inr (Some latency_seconds, [], ns1)
          else Inr (None, [], ns1))"

definition stats_remove :: "irob_id_t \<Rightarrow> 'd net_stats \<Rightarrow> 'd net_stats" where
  "stats_remove i ns = ns\<lparr>irob_measurements := AList.delete i (irob_measurements ns)\<rparr>"

section \<open>The queue of messages\<close>

lemma convert_to_timeval_normal: "normal_us (convert_to_timeval n)" "us (convert_to_timeval n) = int n"
proof -
  have "int n - int (n div 1000000) * 1000000 = int (n mod 1000000)"
    by (simp add: minus_div_mult_eq_mod [symmetric] of_nat_diff zdiv_int)
  then show "normal_us (convert_to_timeval n)" "us (convert_to_timeval n) = int n"
    by (simp_all add: convert_to_timeval_def normal_def units_def Let_def MAX_USECS_def)
qed

lemma time_to_send_normal [simp]: "normal_us (time_to_send A n b)" "0 \<le> us (time_to_send A n b)"
  by (simp_all add: time_to_send_def Let_def convert_to_timeval_normal)

lemma normal_nonneg: "normal_us t \<Longrightarrow> 0 \<le> us t \<longleftrightarrow> 0 \<le> tv_sec t"
  by (auto simp: normal_def units_def MAX_USECS_def)

text \<open>
  The reference: a queue served in order. The message served last began at \<open>start\<close>; \<open>send n b\<close> is the time
  that \<open>n\<close> bytes take at bandwidth \<open>b\<close>. A message waits until the one before it has been sent; the parts of
  an IROB count as one message; a message without an estimate is not counted.
\<close>

type_synonym queue_state = "(int \<times> nat \<times> u_long \<times> irob_id_t) option"

fun fifo_step :: "(nat \<Rightarrow> u_long \<Rightarrow> int) \<Rightarrow> int \<times> nat \<times> u_long \<times> irob_id_t \<Rightarrow> queue_state \<Rightarrow> int \<times> queue_state" where
  "fifo_step send (t, n, b, i) None = (0, Some (t, n, b, i))"
| "fifo_step send (t, n, b, i) (Some (start, n0, b0, i0)) =
     (if b = 0 then (0, Some (start, n0, b0, i0))
      else if i = i0 \<and> i \<noteq> -1 then (0, Some (start, n0 + n, b, i0))
      else let wait = max (start + send n0 b0 - t) 0 in (wait, Some (t + wait, n, b, i)))"

fun fifo_delays :: "(nat \<Rightarrow> u_long \<Rightarrow> int) \<Rightarrow> (int \<times> nat \<times> u_long \<times> irob_id_t) list \<Rightarrow> queue_state \<Rightarrow> int list" where
  "fifo_delays send [] s = []"
| "fifo_delays send (m # ms) s = (let (d, s1) = fifo_step send m s in d # fifo_delays send ms s1)"

text \<open>The calls of \<^verbatim>\<open>add_message\<close> one after the other.\<close>

fun message_delays :: "'d fp_arith \<Rightarrow> (timeval \<times> nat \<times> u_long \<times> irob_id_t) list \<Rightarrow> queuing_delay \<Rightarrow> timeval list result" where
  "message_delays A [] q = Inr []"
| "message_delays A ((t, n, b, i) # ms) q =
     bindE (add_message A t n b i q) (\<lambda>(d, q1). bindE (message_delays A ms q1) (\<lambda>ds. Inr (d # ds)))"

fun queue_rel :: "queue_state \<Rightarrow> queuing_delay \<Rightarrow> bool" where
  "queue_rel None q = (last_msg_qdelay q = tv (-1) 0)"
| "queue_rel (Some (start, n, b, i)) q =
     (normal_us (last_msg_time q) \<and> normal_us (last_msg_qdelay q) \<and> 0 \<le> us (last_msg_qdelay q) \<and>
      start = us (last_msg_time q) + us (last_msg_qdelay q) \<and> n = last_msg_size q \<and> b = last_bw_estimate q \<and> i = qd_last_irob q)"

fun not_before :: "queue_state \<Rightarrow> queuing_delay \<Rightarrow> timeval \<Rightarrow> bool" where
  "not_before None q t = True"
| "not_before (Some s) q t = (us (last_msg_time q) \<le> us t)"

lemma zero_time [simp]: "normal_us (tv 0 0)" "us (tv 0 0) = 0"
  by (simp_all add: normal_def units_def MAX_USECS_def)

lemma add_message_fifo:
  assumes rel: "queue_rel s q" and t: "normal_us t" "not_before s q t"
  obtains d q1 s1 where "add_message A t n b i q = Inr (d, q1)"
    and "fifo_step (\<lambda>n b. us (time_to_send A n b)) (us t, n, b, i) s = (us d, s1)"
    and "queue_rel s1 q1" and "\<And>t'. us t \<le> us t' \<Longrightarrow> not_before s1 q1 t'" and "normal_us d"
proof (cases s)
  case None
  then have "last_msg_qdelay q = tv (-1) 0" using rel by simp
  then have am: "add_message A t n b i q =
      Inr (tv 0 0, \<lparr>last_msg_time = t, last_msg_qdelay = tv 0 0, last_msg_size = n, last_bw_estimate = b, qd_last_irob = i\<rparr>)"
    by (simp add: add_message_def Let_def)
  have st: "fifo_step (\<lambda>n b. us (time_to_send A n b)) (us t, n, b, i) s = (us (tv 0 0), Some (us t, n, b, i))" by (simp add: None)
  show thesis by (rule that [OF am st]) (simp_all add: t(1))
next
  case (Some c)
  obtain start n0 b0 i0 where c: "c = (start, n0, b0, i0)" by (cases c) auto
  have q: "normal_us (last_msg_time q)" "normal_us (last_msg_qdelay q)" "0 \<le> us (last_msg_qdelay q)"
      "start = us (last_msg_time q) + us (last_msg_qdelay q)" "n0 = last_msg_size q" "b0 = last_bw_estimate q" "i0 = qd_last_irob q"
    and le: "us (last_msg_time q) \<le> us t"
    using rel t(2) by (simp_all add: Some c)
  have ne: "tv_sec (last_msg_qdelay q) \<noteq> -1" using normal_nonneg [OF q(2)] q(3) by linarith
  let ?p = "time_to_send A (last_msg_size q) (last_bw_estimate q)"
  consider (ignored) "b = 0" | (part) "b \<noteq> 0" "i = i0" "i \<noteq> -1" | (queued) "b \<noteq> 0" "\<not> (i = i0 \<and> i \<noteq> -1)" by blast
  then show thesis
  proof cases
    case ignored
    have am: "add_message A t n b i q = Inr (tv 0 0, q)" using ne ignored by (simp add: add_message_def)
    have st: "fifo_step (\<lambda>n b. us (time_to_send A n b)) (us t, n, b, i) s = (us (tv 0 0), s)" by (simp add: Some c ignored)
    show thesis by (rule that [OF am st]) (use q le in \<open>simp_all add: Some c\<close>)
  next
    case part
    have am: "add_message A t n b i q = Inr (tv 0 0, q\<lparr>last_msg_size := last_msg_size q + n, last_bw_estimate := b\<rparr>)"
      using ne part q(7) by (simp add: add_message_def)
    have st: "fifo_step (\<lambda>n b. us (time_to_send A n b)) (us t, n, b, i) s = (us (tv 0 0), Some (start, n0 + n, b, i0))" using part by (simp add: Some c)
    show thesis by (rule that [OF am st]) (use q le in simp_all)
  next
    case queued
    let ?calc = "timeradd_us (last_msg_qdelay q) ?p"
    have calc: "us ?calc = us (last_msg_qdelay q) + us ?p" "normal_us ?calc"
      by (simp_all add: timeradd_units q(2))
    obtain diff where diff: "(if timer_less (last_msg_time q) t then TIMEDIFF_us (last_msg_time q) t else Inr (tv 0 0)) = Inr diff"
        "normal_us diff" "us diff = us t - us (last_msg_time q)"
      using TIMEDIFF_units [OF q(1) t(1) le] timer_less_units [OF q(1) t(1)] le by (cases "timer_less (last_msg_time q) t") auto
    let ?d = "if timer_less diff ?calc then timersub_us ?calc diff else tv 0 0"
    have d: "normal_us ?d" "us ?d = max (start + us ?p - us t) 0"
      using timer_less_units [OF diff(2) calc(2)] timersub_units [OF calc(2) diff(2)] calc(1) diff(3) q(4) by auto
    have am: "add_message A t n b i q =
        Inr (?d, \<lparr>last_msg_time = t, last_msg_qdelay = ?d, last_msg_size = n, last_bw_estimate = b, qd_last_irob = i\<rparr>)"
      using ne queued q(7) diff(1) by (auto simp: add_message_def Let_def)
    have st: "fifo_step (\<lambda>n b. us (time_to_send A n b)) (us t, n, b, i) s = (us ?d, Some (us t + us ?d, n, b, i))"
      using queued d(2) q(5,6) by (auto simp: Some c Let_def)
    show thesis by (rule that [OF am st]) (use t(1) d in simp_all)
  qed
qed

lemma message_delays_fifo:
  assumes "queue_rel s q" and "sorted (map (us \<circ> fst) ms)" and "\<forall>m\<in>set ms. normal_us (fst m) \<and> not_before s q (fst m)"
  shows "\<exists>ds. message_delays A ms q = Inr ds \<and>
    map us ds = fifo_delays (\<lambda>n b. us (time_to_send A n b)) (map (\<lambda>(t, n, b, i). (us t, n, b, i)) ms) s"
  using assms
proof (induction ms arbitrary: s q)
  case (Cons m ms)
  obtain t n b i where m: "m = (t, n, b, i)" by (cases m) auto
  have pre: "normal_us t" "not_before s q t" using Cons.prems(3) by (simp_all add: m)
  obtain d q1 s1 where st: "add_message A t n b i q = Inr (d, q1)"
      "fifo_step (\<lambda>n b. us (time_to_send A n b)) (us t, n, b, i) s = (us d, s1)" "queue_rel s1 q1"
      "\<And>t'. us t \<le> us t' \<Longrightarrow> not_before s1 q1 t'"
    by (rule add_message_fifo [OF Cons.prems(1) pre, of A n b i]) blast
  have "\<forall>m\<in>set ms. normal_us (fst m) \<and> not_before s1 q1 (fst m)"
    using Cons.prems(2,3) st(4) by (simp add: m)
  then obtain ds where "message_delays A ms q1 = Inr ds"
      "map us ds = fifo_delays (\<lambda>n b. us (time_to_send A n b)) (map (\<lambda>(t, n, b, i). (us t, n, b, i)) ms) s1"
    using Cons.IH [OF st(3)] Cons.prems(2) by auto
  then show ?case using st(1,2) by (simp add: m)
qed simp

section \<open>Properties\<close>



section \<open>Runs\<close>

text \<open>
  What can happen to the statistics of a connection: its own reports, with times that do not decrease, and
  changes of the static members by the statistics of other connections, about which nothing is assumed.
\<close>

definition later :: "timeval \<Rightarrow> timeval \<Rightarrow> bool" where
  "later t t' \<longleftrightarrow> normal_us t' \<and> us t \<le> us t'"

type_synonym 'd stats_state = "timeval \<times> 'd net_stats \<times> 'd stats_world"

inductive stats_step :: "'d fp_arith \<Rightarrow> 'd stats_state \<Rightarrow> 'd stats_state \<Rightarrow> bool" for A where
  step_sent: "later t t1 \<Longrightarrow> later t1 t2 \<Longrightarrow> report_irob_send_event A junk t1 t2 i n ns w = Inr (ns', w') \<Longrightarrow>
    stats_step A (t, ns, w) (t2, ns', w')"
| step_other: "later t t1 \<Longrightarrow> report_non_irob_send_event A junk t1 n ns = Inr (d, ns') \<Longrightarrow>
    stats_step A (t, ns, w) (t1, ns', w)"
| step_acked: "later t t1 \<Longrightarrow> normal_us qd \<Longrightarrow>
    stats_report_ack A i srv qd rt now ns w = Inr (out, ns', w') \<Longrightarrow> (case rt of Some r \<Rightarrow> r | None \<Rightarrow> now) = t1 \<Longrightarrow>
    stats_step A (t, ns, w) (t1, ns', w')"
| step_failed: "mark_irob_failures A rec nt now ns = Inr (out, reports, ns') \<Longrightarrow> \<forall>i. later t (now i) \<and> us (now i) \<le> us t1 \<Longrightarrow> later t t1 \<Longrightarrow>
    stats_step A (t, ns, w) (t1, ns', w)"
| step_removed: "stats_step A (t, ns, w) (t, stats_remove i ns, w)"
| step_updated: "stats_update A li ri ch nt ns w = Inr (reports, ns', w') \<Longrightarrow> stats_step A (t, ns, w) (t, ns', w')"
| step_read: "getStats A bc nt ns w = (reports, ns', w') \<Longrightarrow> stats_step A (t, ns, w) (t, ns', w')"
| step_world: "stats_step A (t, ns, w) (t, ns, w')"

inductive stats_run :: "'d fp_arith \<Rightarrow> 'd stats_state \<Rightarrow> bool" for A where
  run_new: "normal_us t \<Longrightarrow> 0 \<le> us t \<Longrightarrow> new_net_stats A bc nm li ri w = Inr (ns, w') \<Longrightarrow> stats_run A (t, ns, w')"
| run_step: "stats_run A s \<Longrightarrow> stats_step A s s' \<Longrightarrow> stats_run A s'"

text \<open>What holds of a measurement at time \<open>t\<close>, and of all the statistics.\<close>

definition measuring :: "timeval \<Rightarrow> irob_measurement \<Rightarrow> bool" where
  "measuring t m \<longleftrightarrow> normal_us (arrival_time m) \<and> 0 \<le> us (arrival_time m) \<and> us (arrival_time m) \<le> us t \<and>
     tv_sec (ack_time m) = -1 \<and> tv_sec (failure_time m) = -1 \<and> normal_us (total_delay m)"

definition clocked :: "timeval \<Rightarrow> queuing_delay \<Rightarrow> bool" where
  "clocked t q \<longleftrightarrow> (\<exists>s. queue_rel s q \<and> not_before s q t)"

definition stats_inv :: "timeval \<Rightarrow> 'd net_stats \<Rightarrow> bool" where
  "stats_inv t ns \<longleftrightarrow> normal_us t \<and> 0 \<le> us t \<and> clocked t (outgoing_qdelay ns) \<and>
     (\<forall>(i, m)\<in>set (irob_measurements ns). measuring t m) \<and>
     (\<forall>i m. map_of (irob_measurements ns) i = Some m \<longrightarrow>
        \<not> contains (past_irobs ns) i \<and> (\<not> im_finished m \<longrightarrow> i = ns_last_irob ns))"

lemma stats_invD:
  assumes "stats_inv t ns"
  shows "normal_us t" "0 \<le> us t" "clocked t (outgoing_qdelay ns)" "\<And>i m. (i, m) \<in> set (irob_measurements ns) \<Longrightarrow> measuring t m"
    "\<And>i m. map_of (irob_measurements ns) i = Some m \<Longrightarrow> \<not> contains (past_irobs ns) i"
    "\<And>i m. map_of (irob_measurements ns) i = Some m \<Longrightarrow> \<not> im_finished m \<Longrightarrow> i = ns_last_irob ns"
    "\<And>i m. map_of (irob_measurements ns) i = Some m \<Longrightarrow> measuring t m"
  using assms by (auto simp: stats_inv_def dest: map_of_SomeD)

lemma laterD: "later t t' \<Longrightarrow> normal_us t'" "later t t' \<Longrightarrow> us t \<le> us t'"
  by (simp_all add: later_def)

lemma later_trans: "later t t1 \<Longrightarrow> later t1 t2 \<Longrightarrow> later t t2"
  by (simp add: later_def)

lemma measuring_later: "measuring t m \<Longrightarrow> us t \<le> us t' \<Longrightarrow> measuring t' m"
  by (auto simp: measuring_def)

lemma clocked_later: "clocked t q \<Longrightarrow> us t \<le> us t' \<Longrightarrow> clocked t' q"
  unfolding clocked_def
proof (elim exE conjE)
  fix s assume "queue_rel s q" "not_before s q t" "us t \<le> us t'"
  then have "not_before s q t'" by (cases s) auto
  then show "\<exists>s. queue_rel s q \<and> not_before s q t'" using \<open>queue_rel s q\<close> by blast
qed

lemma stats_inv_later: "stats_inv t ns \<Longrightarrow> later t t' \<Longrightarrow> stats_inv t' ns"
  unfolding stats_inv_def later_def by (fastforce intro: clocked_later measuring_later)

text \<open>No operation on a measurement fails.\<close>

definition unsent :: "irob_measurement \<Rightarrow> bool" where
  "unsent m \<longleftrightarrow> tv_sec (arrival_time m) = -1 \<and> tv_sec (ack_time m) = -1 \<and> tv_sec (failure_time m) = -1 \<and> normal_us (total_delay m)"

lemma add_bytes_ok:
  assumes "measuring t m \<or> unsent m" and "later t t1" "0 \<le> us t"
  obtains m1 where "add_bytes A t1 n q b m = Inr m1" "measuring t1 m1" "im_finished m1 = im_finished m" "im_total_size m1 = im_total_size m + n"
proof (cases "tv_sec (arrival_time m) = -1")
  case True
  then have u: "unsent m" using assms(1) normal_nonneg by (auto simp: measuring_def)
  let ?m = "m\<lparr>arrival_time := t1, last_activity := t1, im_total_size := im_total_size m + n\<rparr>"
  have "add_bytes A t1 n q b m = Inr ?m" using True by (simp add: add_bytes_def)
  moreover have "measuring t1 ?m" using u assms(2,3) by (simp add: unsent_def measuring_def later_def)
  ultimately show thesis by (rule that) simp_all
next
  case False
  have m: "measuring t m" using assms(1) False by (auto simp: unsent_def)
  have skip: "bindE (TIMEDIFF_us x t1) (\<lambda>_. r) = r" if "timer_less x t1" for x and r :: "irob_measurement result"
    using that by (auto simp: TIMEDIFF_def timer_less_def split: if_splits)
  have "add_bytes A t1 n q b m = Inr (m\<lparr>last_activity := t1, im_total_size := im_total_size m + n\<rparr>)"
    using False by (simp add: add_bytes_def Let_def skip)
  moreover have "measuring t1 (m\<lparr>last_activity := t1, im_total_size := im_total_size m + n\<rparr>)"
    using measuring_later [OF m laterD(2) [OF assms(2)]] by (simp add: measuring_def)
  ultimately show thesis by (rule that) simp_all
qed

lemma add_message_ok:
  assumes "clocked t q" and "later t t1"
  obtains d q1 where "add_message A t1 n b i q = Inr (d, q1)" "normal_us d" "clocked t1 q1"
proof -
  obtain s where s: "queue_rel s q" "not_before s q t" using assms(1) by (auto simp: clocked_def)
  have "normal_us t1" "not_before s q t1" using s(2) assms(2) by (cases s; auto simp: later_def)+
  then obtain d q1 s1 where "add_message A t1 n b i q = Inr (d, q1)" "normal_us d" "queue_rel s1 q1" "not_before s1 q1 t1"
    by (rule add_message_fifo [OF s(1), of t1 A n b i]) blast
  then show thesis by (intro that) (auto simp: clocked_def)
qed

lemma measured_RTT_ok:
  assumes m: "measuring t m" and t1: "later t t1" "0 \<le> us t" and m1: "m1 = m\<lparr>total_delay := d, ack_time := t1\<rparr> \<or> m1 = m\<lparr>total_delay := d, failure_time := t1\<rparr>"
    and d: "normal_us d"
  shows "measured_RTT m1 = Inr (if us t1 - us (arrival_time m) \<le> us d then None
     else Some (timersub_us (the (case TIMEDIFF_us (arrival_time m) t1 of Inr x \<Rightarrow> Some x | Inl _ \<Rightarrow> None)) d))"
    and "measured_RTT m1 = Inr (Some rtt) \<Longrightarrow> normal_us rtt \<and> us rtt = us t1 - us (arrival_time m) - us d \<and> 0 < us rtt"
proof -
  have a: "normal_us (arrival_time m)" "us (arrival_time m) \<le> us t1" "normal_us t1"
    using m t1 by (auto simp: measuring_def later_def)
  have "0 \<le> tv_sec t1" using normal_nonneg [OF a(3)] t1 laterD(2) by force
  then have n1: "tv_sec t1 \<noteq> -1" by simp
  obtain x where x: "TIMEDIFF_us (arrival_time m) t1 = Inr x" "normal_us x" "us x = us t1 - us (arrival_time m)"
    using TIMEDIFF_units [OF a(1,3,2)] by blast
  have le: "timer_le (arrival_time m) t1" using timer_le_units [OF a(1,3)] a(2) by simp
  have le2: "timer_le x d \<longleftrightarrow> us x \<le> us d" by (rule timer_le_units [OF x(2) d])
  have fin: "tv_sec (ack_time m) = -1" "tv_sec (failure_time m) = -1" using m by (auto simp: measuring_def)
  show eq: "measured_RTT m1 = Inr (if us t1 - us (arrival_time m) \<le> us d then None
     else Some (timersub_us (the (case TIMEDIFF_us (arrival_time m) t1 of Inr x \<Rightarrow> Some x | Inl _ \<Rightarrow> None)) d))"
    using m1 n1 fin le le2 x by (auto simp: measured_RTT_def)
  show "normal_us rtt \<and> us rtt = us t1 - us (arrival_time m) - us d \<and> 0 < us rtt" if "measured_RTT m1 = Inr (Some rtt)"
    using that timersub_units [OF x(2) d] x(3) by (auto simp: eq x(1) split: if_splits)
qed

lemma bw_denominator_ok: "\<exists>d. bw_denominator a b c e = Inr d"
proof -
  have less: "\<exists>d. TIMEDIFF_us x y = Inr d" if "timer_less x y" for x y
    using that by (auto simp: TIMEDIFF_def timer_less_def split: if_splits)
  have ge: "\<exists>d. TIMEDIFF_us x y = Inr d" if "\<not> timer_less y x" for x y
    using that by (auto simp: TIMEDIFF_def timer_less_def split: if_splits)
  obtain d1 where "(if timer_less a b then TIMEDIFF_us a b else TIMEDIFF_us b a) = Inr d1"
    using less [of a b] ge [of a b] by (cases "timer_less a b") auto
  moreover obtain d2 where "(if timer_less c e then TIMEDIFF_us c e else TIMEDIFF_us e c) = Inr d2"
    using less [of c e] ge [of c e] by (cases "timer_less c e") auto
  ultimately show ?thesis by (simp add: bw_denominator_def Let_def)
qed

lemma spot_values_ok: "\<exists>s. spot_values A rtt srv n ns = Inr s"
proof -
  obtain d where "bw_denominator (ns_last_RTT ns) rtt (ns_last_srv_time ns) srv = Inr d" using bw_denominator_ok by blast
  then show ?thesis by (auto simp: spot_values_def Let_def ASSERT_def split: option.split)
qed

lemma observe_est_ok: "\<exists>es. observe_est A k v ns = Inr (ns\<lparr>net_estimates := es\<rparr>)"
  by (auto simp: observe_est_def add_observation_observe)

lemma observe_if_ok: "\<exists>es. (if c then observe_est A k v ns else Inr ns) = Inr (ns\<lparr>net_estimates := es\<rparr>)"
proof (cases c)
  case False
  then show ?thesis by (intro exI [of _ "net_estimates ns"]) simp
qed (simp add: observe_est_ok)

lemma observe_two_ok:
  "\<exists>es. bindE (if c then observe_est A k v ns else Inr ns) (\<lambda>ns1. if c' then observe_est A k' v' ns1 else Inr ns1) =
     Inr (ns\<lparr>net_estimates := es\<rparr>)"
proof -
  obtain es where "(if c then observe_est A k v ns else Inr ns) = Inr (ns\<lparr>net_estimates := es\<rparr>)" using observe_if_ok by blast
  moreover obtain es' where "(if c' then observe_est A k' v' (ns\<lparr>net_estimates := es\<rparr>) else Inr (ns\<lparr>net_estimates := es\<rparr>)) =
      Inr (ns\<lparr>net_estimates := es\<rparr>\<lparr>net_estimates := es'\<rparr>)" using observe_if_ok by blast
  ultimately show ?thesis by auto
qed

lemma observe_spot_ok: "\<exists>es. observe_spot A s ns = Inr (ns\<lparr>net_estimates := es\<rparr>)"
  unfolding observe_spot_def by (rule observe_two_ok)

lemma observe_iface_ok: "\<exists>es. observe_iface A li ri ns = Inr (ns\<lparr>net_estimates := es\<rparr>)"
  unfolding observe_iface_def Let_def by (rule observe_two_ok)

lemma measure_ack_ok:
  "\<exists>out es w'. measure_ack A srv m rtt ns w = Inr (out,
     ns\<lparr>net_estimates := es, ns_last_RTT := rtt, ns_last_req_size := im_total_size m, ns_last_srv_time := srv\<rparr>, w')"
    (is "\<exists>out es w'. ?m = Inr (out, ?ns es, w')")
proof -
  obtain s where s: "spot_values A rtt srv (im_total_size m) ns = Inr s" using spot_values_ok by blast
  obtain es where es: "observe_spot A s ns = Inr (ns\<lparr>net_estimates := es\<rparr>)" using observe_spot_ok by blast
  have none: "ns\<lparr>ns_last_RTT := rtt, ns_last_req_size := im_total_size m, ns_last_srv_time := srv\<rparr> = ?ns (net_estimates ns)" by simp
  consider "tv_sec (ns_last_RTT ns) = -1 \<or> \<not> valid_result s" | "tv_sec (ns_last_RTT ns) \<noteq> -1" "valid_result s" by blast
  then show ?thesis
  proof cases
    case 1
    then have "?m = Inr (None, ?ns (net_estimates ns), cache_save (?ns (net_estimates ns)) w)"
      unfolding measure_ack_def Let_def none by (auto simp: s)
    then show ?thesis by blast
  next
    case 2
    then have "\<exists>out w'. ?m = Inr (out, ?ns es, w')" unfolding measure_ack_def Let_def by (simp add: s es)
    then show ?thesis by blast
  qed
qed

section \<open>The invariant of a run\<close>

lemma contains_insert_num: "contains (insert_num s k) i \<longleftrightarrow> i = k \<or> contains s i"
  by (simp add: contains_elems elems_insert_num)

text \<open>What a message of an IROB does to the measurements: the other IROB under way is finished.\<close>

definition closed_others :: "irob_id_t \<Rightarrow> 'd net_stats \<Rightarrow> (irob_id_t \<times> irob_measurement) list" where
  "closed_others i ns =
     (if i \<noteq> ns_last_irob ns
      then case map_of (irob_measurements ns) (ns_last_irob ns) of
             Some m \<Rightarrow> map_put (ns_last_irob ns) (finish m) (irob_measurements ns)
           | None \<Rightarrow> irob_measurements ns
      else irob_measurements ns)"

lemma closed_others:
  assumes "stats_inv t ns"
  shows "(k, m) \<in> set (closed_others i ns) \<Longrightarrow> measuring t m"
    and "map_of (closed_others i ns) k = None \<longleftrightarrow> map_of (irob_measurements ns) k = None"
    and "map_of (closed_others i ns) k = Some m \<Longrightarrow> im_finished m \<or> k = i"
    and "map_of (irob_measurements ns) k = Some m0 \<Longrightarrow> map_of (closed_others i ns) k = Some m \<Longrightarrow> k \<noteq> i \<Longrightarrow> im_finished m"
    and "map_of (irob_measurements ns) i = Some m0 \<Longrightarrow> map_of (closed_others i ns) i = Some m0"
proof -
  note inv = stats_invD [OF assms]
  have fin: "measuring t (finish m)" if "measuring t m" for m using that by (simp add: measuring_def finish_def)
  show "measuring t m" if "(k, m) \<in> set (closed_others i ns)"
  proof (cases "map_of (irob_measurements ns) (ns_last_irob ns)")
    case None
    then show ?thesis using that inv(4) by (auto simp: closed_others_def split: if_splits)
  next
    case (Some m1)
    then show ?thesis using that inv(4) fin [OF inv(7) [OF Some]] set_map_put [of "ns_last_irob ns" "finish m1" "irob_measurements ns"]
      by (auto simp: closed_others_def split: if_splits)
  qed
  show "map_of (closed_others i ns) k = None \<longleftrightarrow> map_of (irob_measurements ns) k = None"
    by (auto simp: closed_others_def split: option.splits)
  show closed: "im_finished m \<or> k = i" if "map_of (closed_others i ns) k = Some m" for k m
    using that inv(6) [of k m] by (cases "im_finished m") (auto simp: closed_others_def finish_def split: option.splits if_splits)
  show "im_finished m" if "map_of (irob_measurements ns) k = Some m0" "map_of (closed_others i ns) k = Some m" "k \<noteq> i"
    using closed [OF that(2)] that(3) by blast
  show "map_of (closed_others i ns) i = Some m0" if "map_of (irob_measurements ns) i = Some m0"
    using that by (auto simp: closed_others_def split: option.splits)
qed

lemma measure_send_cases:
  assumes inv: "stats_inv t ns" and i: "\<not> contains (past_irobs ns) i" and t: "later t t1" "later t1 t2"
  obtains m where "map_of (closed_others i ns) i = Some m" "im_finished m"
      "measure_send A junk t1 t2 i n ns =
        Inr (ns\<lparr>irob_measurements := AList.delete i (closed_others i ns), ns_last_irob := i, past_irobs := insert_num (past_irobs ns) i\<rparr>)"
  | m q where "\<forall>m. map_of (closed_others i ns) i = Some m \<longrightarrow> \<not> im_finished m" "measuring t2 m" "clocked t2 q" "\<not> im_finished m"
      "measure_send A junk t1 t2 i n ns =
        Inr (ns\<lparr>irob_measurements := map_put i m (closed_others i ns), ns_last_irob := i, outgoing_qdelay := q\<rparr>)"
proof -
  note d = stats_invD [OF inv]
  let ?m = "set_id i (case map_of (closed_others i ns) i of Some m \<Rightarrow> m | None \<Rightarrow> new_measurement)"
  let ?b = "snd (get_ulong_estimate A junk (net_estimates ns ! NET_STATS_BW_UP))"
  have eq: "measure_send A junk t1 t2 i n ns =
      (if im_finished ?m
       then Inr (ns\<lparr>irob_measurements := AList.delete i (closed_others i ns), ns_last_irob := i, past_irobs := insert_num (past_irobs ns) i\<rparr>)
       else bindE (add_bytes A t1 n (get_queuable_time A i (outgoing_qdelay ns)) ?b ?m) (\<lambda>m1.
              bindE (add_message A t2 n ?b i (outgoing_qdelay ns)) (\<lambda>(qdelay, q).
                Inr (ns\<lparr>irob_measurements := map_put i (add_delay qdelay m1) (closed_others i ns), ns_last_irob := i, outgoing_qdelay := q\<rparr>))))"
    by (simp add: measure_send_def closed_others_def Let_def)
  show thesis
  proof (cases "im_finished ?m")
    case True
    then obtain m where "map_of (closed_others i ns) i = Some m" "im_finished m"
      by (cases "map_of (closed_others i ns) i") (auto simp: set_id_def new_measurement_def)
    then show thesis using True eq by (intro that(1)) auto
  next
    case False
    have "measuring t ?m \<or> unsent ?m"
    proof (cases "map_of (closed_others i ns) i")
      case None
      then show ?thesis by (simp add: unsent_def set_id_def new_measurement_def)
    next
      case (Some m)
      have "measuring t m" by (rule closed_others(1) [OF inv map_of_SomeD [OF Some]])
      then show ?thesis by (simp add: Some set_id_def measuring_def)
    qed
    then obtain m1 where m1: "add_bytes A t1 n (get_queuable_time A i (outgoing_qdelay ns)) ?b ?m = Inr m1" "measuring t1 m1" "im_finished m1 = im_finished ?m"
      by (rule add_bytes_ok [OF _ t(1) d(2)])
    obtain qd q where q: "add_message A t2 n ?b i (outgoing_qdelay ns) = Inr (qd, q)" "normal_us qd" "clocked t2 q"
      by (rule add_message_ok [OF d(3) later_trans [OF t], of A n ?b i])
    have "measuring t2 (add_delay qd m1)"
      using measuring_later [OF m1(2) laterD(2) [OF t(2)]] q(2) by (simp add: measuring_def add_delay_def timeradd_units)
    moreover have "\<not> im_finished (add_delay qd m1)" using False m1(3) by (simp add: add_delay_def)
    moreover have "\<forall>m. map_of (closed_others i ns) i = Some m \<longrightarrow> \<not> im_finished m" using False by (auto simp: set_id_def)
    ultimately show thesis using False eq m1(1) q by (intro that(2)) auto
  qed
qed

lemma stats_invI:
  assumes "normal_us t" "0 \<le> us t" "clocked t (outgoing_qdelay ns)"
    and "\<And>i m. (i, m) \<in> set (irob_measurements ns) \<Longrightarrow> measuring t m"
    and "\<And>i m. map_of (irob_measurements ns) i = Some m \<Longrightarrow> \<not> contains (past_irobs ns) i \<and> (\<not> im_finished m \<longrightarrow> i = ns_last_irob ns)"
  shows "stats_inv t ns"
  using assms by (auto simp: stats_inv_def)

text \<open>The invariant is about the measurements, the queue and what was seen; the estimates and the values of the
  last acknowledgement may be anything.\<close>

lemma stats_inv_cong:
  assumes "stats_inv t ns" and "outgoing_qdelay ns' = outgoing_qdelay ns" "irob_measurements ns' = irob_measurements ns"
    "past_irobs ns' = past_irobs ns" "ns_last_irob ns' = ns_last_irob ns"
  shows "stats_inv t ns'"
  using assms by (simp add: stats_inv_def)

lemma stats_inv_delete: "stats_inv t ns \<Longrightarrow> stats_inv t (ns\<lparr>irob_measurements := AList.delete i (irob_measurements ns)\<rparr>)"
  using set_delete [of i "irob_measurements ns"]
  by (auto intro!: stats_invI dest: stats_invD split: if_splits)

lemma send_event_inv:
  assumes inv: "stats_inv t ns" and t: "later t t1" "later t1 t2"
  obtains ns' w' where "report_irob_send_event A junk t1 t2 i n ns w = Inr (ns', w')" "stats_inv t2 ns'"
    "\<And>k. contains (past_irobs ns) k \<Longrightarrow> contains (past_irobs ns') k"
proof -
  note inv2 = stats_inv_later [OF inv later_trans [OF t]]
  note d2 = stats_invD [OF inv2] and co = closed_others [OF inv2]
  have past: "\<not> contains (past_irobs ns) k" if "map_of (closed_others i ns) k = Some m" for k m
    using that co(2) [of i k] d2(5) [of k] by (cases "map_of (irob_measurements ns) k") auto
  have fin: "im_finished m" if "map_of (closed_others i ns) k = Some m" "k \<noteq> i" for k m using co(3) that by blast
  consider (ignored) "contains (past_irobs ns) i" | (striped) "\<not> contains (past_irobs ns) i" "contains (striped_irobs w) i"
    | (measured) "\<not> contains (past_irobs ns) i" "\<not> contains (striped_irobs w) i" by blast
  then show thesis
  proof cases
    case ignored
    then have "\<exists>w'. report_irob_send_event A junk t1 t2 i n ns w = Inr (ns, w')" by (simp add: report_irob_send_event_def Let_def)
    then show thesis using inv2 that by blast
  next
    case striped
    show thesis by (rule that [OF _ stats_inv_delete [OF inv2, of i], of w]) (simp_all add: report_irob_send_event_def striped)
  next
    case measured
    have ev: "report_irob_send_event A junk t1 t2 i n ns w = Inr (ns', w\<lparr>sw_transfers := addTransfer i (ns_addrs ns) n (sw_transfers w)\<rparr>)"
      if "measure_send A junk t1 t2 i n ns = Inr ns'" for ns' using that measured by (simp add: report_irob_send_event_def Let_def)
    show thesis
    proof (rule measure_send_cases [OF inv measured(1) t, of A junk n])
      fix m
      assume ms: "measure_send A junk t1 t2 i n ns =
        Inr (ns\<lparr>irob_measurements := AList.delete i (closed_others i ns), ns_last_irob := i, past_irobs := insert_num (past_irobs ns) i\<rparr>)"
      show thesis
      proof (rule that [OF ev [OF ms]], rule stats_invI)
        fix k m assume "(k, m) \<in> set (irob_measurements (ns\<lparr>irob_measurements := AList.delete i (closed_others i ns), ns_last_irob := i, past_irobs := insert_num (past_irobs ns) i\<rparr>))"
        then show "measuring t2 m" using co(1) set_delete [of i "closed_others i ns"] by auto
      qed (use d2(1-3) in \<open>auto simp: contains_insert_num dest: past fin split: if_splits\<close>)
    next
      fix m q
      assume m: "measuring t2 m" "clocked t2 q" "\<not> im_finished m" and ms: "measure_send A junk t1 t2 i n ns =
        Inr (ns\<lparr>irob_measurements := map_put i m (closed_others i ns), ns_last_irob := i, outgoing_qdelay := q\<rparr>)"
      show thesis
      proof (rule that [OF ev [OF ms]], rule stats_invI)
        fix k m' assume "(k, m') \<in> set (irob_measurements (ns\<lparr>irob_measurements := map_put i m (closed_others i ns), ns_last_irob := i, outgoing_qdelay := q\<rparr>))"
        then show "measuring t2 m'" using co(1) m(1) set_map_put [of i m "closed_others i ns"] by auto
      qed (use d2(1,2) measured m(2) in \<open>auto dest: past fin split: if_splits\<close>)
    qed
  qed
qed

lemma ack_inv:
  assumes inv: "stats_inv t ns" and t1: "later t t1" "(case rt of Some r \<Rightarrow> r | None \<Rightarrow> now) = t1" and qd: "normal_us qd"
    and known: "subsec srv = -1 \<or> contains (striped_irobs w) i \<or> 0 < pn_total_bytes (transfers_of i (sw_transfers w))"
  obtains out ns' w' where "stats_report_ack A i srv qd rt now ns w = Inr (out, ns', w')" "stats_inv t1 ns'" "past_irobs ns' = past_irobs ns"
proof (cases "subsec srv = -1 \<or> contains (striped_irobs w) i")
  case True
  then have "stats_report_ack A i srv qd rt now ns w = Inr (None, ns, w)" by (auto simp: stats_report_ack_def)
  then show thesis using stats_inv_later [OF inv t1(1)] by (rule that) simp
next
  case False
  obtain b p where "pn_hasAllBytes (ns_addrs ns) (transfers_of i (sw_transfers w)) = Inr (b, p)"
    using known False by (cases "getValueRef (ns_addrs ns) (transfers_of i (sw_transfers w))") (auto simp: pn_hasAllBytes_def)
  then obtain T where T: "hasAllBytes i (ns_addrs ns) (sw_transfers w) = Inr (b, T)" by (simp add: hasAllBytes_def)
  note inv1 = stats_inv_later [OF inv t1(1)]
  show thesis
  proof (cases "b \<and> map_of (irob_measurements ns) i \<noteq> None")
    case none: False
    then have "\<exists>w'. stats_report_ack A i srv qd rt now ns w = Inr (None, ns, w')" using False T by (auto simp: stats_report_ack_def Let_def)
    then show thesis using inv1 that by blast
  next
    case True
    then obtain m where m: "b" "map_of (irob_measurements ns) i = Some m" by auto
    let ?m = "measured_ack rt now (add_delay qd m)" and ?ns = "ns\<lparr>irob_measurements := AList.delete i (irob_measurements ns)\<rparr>"
    note ms = stats_invD(7) [OF inv m(2)]
    have "normal_us (timeradd_us (total_delay m) qd)" using ms qd by (simp add: measuring_def timeradd_units)
    then have "\<exists>r. measured_RTT ?m = Inr r"
      using measured_RTT_ok(1) [OF ms t1(1) stats_invD(2) [OF inv], of ?m "timeradd_us (total_delay m) qd"] t1(2)
      by (simp add: measured_ack_def add_delay_def)
    then obtain r where r: "measured_RTT ?m = Inr r" by blast
    have ack: "stats_report_ack A i srv qd rt now ns w =
        (case r of None \<Rightarrow> Inr (None, ?ns, w\<lparr>sw_transfers := T\<rparr>) | Some rtt \<Rightarrow> measure_ack A srv ?m rtt ?ns (w\<lparr>sw_transfers := T\<rparr>))"
      using False T m r by (simp add: stats_report_ack_def Let_def)
    note inv_del = stats_inv_delete [OF inv1, of i]
    show thesis
    proof (cases r)
      case None
      show thesis by (rule that [OF _ inv_del]) (simp_all add: ack None)
    next
      case (Some rtt)
      obtain out es w' where "measure_ack A srv ?m rtt ?ns (w\<lparr>sw_transfers := T\<rparr>) = Inr (out,
          ?ns\<lparr>net_estimates := es, ns_last_RTT := rtt, ns_last_req_size := im_total_size ?m, ns_last_srv_time := srv\<rparr>, w')"
        using measure_ack_ok [of A srv ?m rtt ?ns "w\<lparr>sw_transfers := T\<rparr>"] by blast
      then have "stats_report_ack A i srv qd rt now ns w = Inr (out,
          ?ns\<lparr>net_estimates := es, ns_last_RTT := rtt, ns_last_req_size := im_total_size ?m, ns_last_srv_time := srv\<rparr>, w')"
        by (simp add: ack Some)
      then show thesis by (rule that) (auto intro: stats_inv_cong [OF inv_del])
    qed
  qed
qed

lemma failures_inv:
  assumes inv: "stats_inv t ns" and now: "\<forall>i. later t (now i) \<and> us (now i) \<le> us t1" "later t t1"
  obtains out reports ns' where "mark_irob_failures A rec nt now ns = Inr (out, reports, ns')" "stats_inv t1 ns'" "past_irobs ns' = past_irobs ns"
proof -
  note d = stats_invD [OF inv]
  have step: "\<exists>s'. failure_delay now x s = Inr s' \<and> True" if x: "x \<in> set (irob_measurements ns)" for x s
  proof -
    obtain i m where im: "x = (i, m)" by (cases x)
    have m: "measuring t m" using d(4) x im by blast
    have "mark_failed (now i) m = m\<lparr>total_delay := total_delay m, failure_time := now i\<rparr>" by (simp add: mark_failed_def)
    then have "\<exists>r. measured_RTT (mark_failed (now i) m) = Inr r"
      using measured_RTT_ok(1) [OF m _ d(2), of "now i" "mark_failed (now i) m" "total_delay m"] now(1) m by (auto simp: measuring_def)
    then show ?thesis by (cases s) (auto simp: failure_delay_def im split: option.split)
  qed
  obtain md f where fold: "foldE (failure_delay now) (irob_measurements ns) (tv 0 0, False) = Inr (md, f)"
    using foldE_invariant [of "\<lambda>_. True" "(tv 0 0, False)" "irob_measurements ns" "failure_delay now", OF _ step] by (metis surj_pair)
  let ?ns = "ns\<lparr>irob_measurements := []\<rparr>"
  let ?ms = "f_div A (f_div A (f_int A (convert_to_useconds md)) (f_dec A 10000 1)) (f_dec A 20 1)"
  obtain es where es: "observe_est A NET_STATS_LATENCY (round_nearest A ?ms) ?ns = Inr (?ns\<lparr>net_estimates := es\<rparr>)"
    using observe_est_ok by blast
  have inv1: "stats_inv t1 ?ns" using stats_invD(1-3) [OF stats_inv_later [OF inv now(2)]] by (intro stats_invI) auto
  show thesis
  proof (cases "f \<and> rec")
    case True
    then have "\<exists>out reports. mark_irob_failures A rec nt now ns = Inr (out, reports, ?ns\<lparr>net_estimates := es\<rparr>)"
      unfolding mark_irob_failures_def Let_def by (simp only: fold bindE_simps prod.case es simp_thms if_True) simp
    moreover have "stats_inv t1 (?ns\<lparr>net_estimates := es\<rparr>)" by (rule stats_inv_cong [OF inv1]) simp_all
    ultimately show thesis using that by auto
  next
    case False
    then have "\<exists>out reports. mark_irob_failures A rec nt now ns = Inr (out, reports, ?ns)"
      unfolding mark_irob_failures_def Let_def by (auto simp: fold)
    then show thesis using that inv1 by auto
  qed
qed

lemma other_event_inv:
  assumes inv: "stats_inv t ns" and t: "later t t1"
  obtains d q where "report_non_irob_send_event A junk t1 n ns = Inr (d, ns\<lparr>outgoing_qdelay := q\<rparr>)" "stats_inv t1 (ns\<lparr>outgoing_qdelay := q\<rparr>)"
proof -
  obtain d q where q: "add_message A t1 n (snd (get_ulong_estimate A junk (net_estimates ns ! NET_STATS_BW_UP))) (-1) (outgoing_qdelay ns) = Inr (d, q)" "clocked t1 q"
    by (rule add_message_ok [OF stats_invD(3) [OF inv] t])
  have "stats_inv t1 (ns\<lparr>outgoing_qdelay := q\<rparr>)" using stats_inv_later [OF inv t] q(2) by (simp add: stats_inv_def)
  then show thesis using q(1) by (intro that) (simp_all add: report_non_irob_send_event_def)
qed

lemma stats_step_inv:
  assumes "stats_step A (t, ns, w) (t', ns', w')" and inv: "stats_inv t ns"
  shows "stats_inv t' ns' \<and> (\<forall>k. contains (past_irobs ns) k \<longrightarrow> contains (past_irobs ns') k)"
  using assms(1)
proof cases
  case (step_sent t1 junk i n)
  then show ?thesis by (elim send_event_inv [OF inv, of t1 t' A junk i n w]) auto
next
  case (step_other junk n d)
  then show ?thesis by (elim other_event_inv [OF inv, of t' A junk n]) auto
next
  case (step_acked qd i srv rt now out)
  have known: "subsec srv = -1 \<or> contains (striped_irobs w) i \<or> 0 < pn_total_bytes (transfers_of i (sw_transfers w))"
    using step_acked(3) by (auto simp: stats_report_ack_def hasAllBytes_def pn_hasAllBytes_def ASSERT_def split: if_splits)
  obtain out2 ns2 w2 where "stats_report_ack A i srv qd rt now ns w = Inr (out2, ns2, w2)" "stats_inv t' ns2" "past_irobs ns2 = past_irobs ns"
    by (rule ack_inv [OF inv step_acked(1,4,2) known])
  then show ?thesis using step_acked(3) by simp
next
  case (step_failed rec nt now out reports)
  obtain out2 r2 ns2 where "mark_irob_failures A rec nt now ns = Inr (out2, r2, ns2)" "stats_inv t' ns2" "past_irobs ns2 = past_irobs ns"
    by (rule failures_inv [OF inv step_failed(3,4)])
  then show ?thesis using step_failed(2) by simp
next
  case (step_removed i)
  then show ?thesis using stats_inv_delete [OF inv, of i] inv by (simp add: stats_remove_def)
next
  case (step_updated li ri ch nt reports)
  obtain es where "observe_iface A li ri ns = Inr (ns\<lparr>net_estimates := es\<rparr>)" using observe_iface_ok by blast
  then have "ns' = ns\<lparr>net_estimates := es\<rparr>" using step_updated(2) by (simp add: stats_update_def Let_def)
  then show ?thesis using stats_inv_cong [OF inv, of ns'] step_updated(1) by simp
next
  case (step_read bc nt reports)
  have "ns' = ns \<or> ns' = ns\<lparr>error_estimators_initialized := True\<rparr>"
    using step_read(2) by (auto simp: getStats_def Let_def split: option.splits if_splits)
  then show ?thesis using stats_inv_cong [OF inv, of ns'] step_read(1) by auto
qed (use inv in auto)

lemma new_net_stats_inv:
  assumes "normal_us t" "0 \<le> us t" and "new_net_stats A bc nm li ri w = Inr (ns, w')"
  shows "stats_inv t ns"
proof -
  let ?b = "blank_net_stats A nm (ip_addr li, ip_addr ri)"
  have "clocked t new_queuing_delay" by (auto simp: clocked_def new_queuing_delay_def intro: exI [of _ None])
  then have blank: "stats_inv t ?b" using assms(1,2) by (intro stats_invI) (auto simp: blank_net_stats_def)
  have restored: "stats_inv t (snd (cache_restore w ?b))"
    using blank by (auto simp: cache_restore_def stats_inv_def blank_net_stats_def split: option.split)
  obtain c ns1 where c: "(if bc then (True, ?b) else if \<not> stats_are_cached ?b w then (True, ?b) else (False, snd (cache_restore w ?b))) = (c, ns1)"
    and ns1: "stats_inv t ns1"
    using blank restored by (cases "bc \<or> \<not> stats_are_cached ?b w") auto
  obtain es where "observe_iface A li ri ns1 = Inr (ns1\<lparr>net_estimates := es\<rparr>)" using observe_iface_ok by blast
  then have "ns = ns1 \<or> ns = ns1\<lparr>net_estimates := es\<rparr>"
    using assms(3) by (auto simp: new_net_stats_def Let_def c split: if_splits)
  then show ?thesis using ns1 stats_inv_cong [OF ns1, of ns] by auto
qed

lemma stats_run_inv: "stats_run A s \<Longrightarrow> stats_inv (fst s) (fst (snd s))"
proof (induction rule: stats_run.induct)
  case (run_step s s')
  then show ?case using stats_step_inv [of A "fst s" "fst (snd s)" "snd (snd s)" "fst s'" "fst (snd s')" "snd (snd s')"] by simp
qed (auto dest: new_net_stats_inv)

lemma stats_steps_inv:
  assumes "(stats_step A)\<^sup>*\<^sup>* (t, ns, w) (t', ns', w')" and "stats_inv t ns"
  shows "stats_inv t' ns' \<and> (\<forall>k. contains (past_irobs ns) k \<longrightarrow> contains (past_irobs ns') k)"
  using assms(1)
proof (induction "(t', ns', w')" arbitrary: t' ns' w' rule: rtranclp_induct)
  case (step s)
  obtain t1 ns1 w1 where s: "s = (t1, ns1, w1)" by (cases s) auto
  show ?case using step.hyps(3) [OF s] stats_step_inv [OF step.hyps(2) [unfolded s]] by blast
qed (use assms(2) in simp)



text \<open>
  An IROB whose parts were interleaved with those of another is never measured: once a message of another
  IROB (that is itself measured) has come between two of its messages, no acknowledgement of it gives a
  measurement, whatever happens before the acknowledgement.
\<close>

theorem interleaved_irobs_are_not_measured:
  assumes run: "stats_run A (t, ns, w)" and i: "map_of (irob_measurements ns) i = Some m" and "j \<noteq> i"
    and j: "\<not> contains (past_irobs ns) j" "\<not> contains (striped_irobs w) j" and t: "later t t1" "later t1 t2" "later t2 t3" "later t3 t4"
    and send_j: "report_irob_send_event A x1 t1 t2 j n1 ns w = Inr (ns1, w1)" and i2: "\<not> contains (striped_irobs w2) i"
    and send_i: "report_irob_send_event A x2 t3 t4 i n2 ns1 w2 = Inr (ns2, w3)"
    and steps: "(stats_step A)\<^sup>*\<^sup>* (t4, ns2, w3) (t5, ns3, w4)"
    and ack: "stats_report_ack A i srv qd rt now ns3 w4 = Inr (out, ns4, w5)"
  shows "out = None"
proof -
  have inv: "stats_inv t ns" using stats_run_inv [OF run] by simp
  have inv1: "stats_inv t2 ns1" by (rule send_event_inv [OF inv t(1,2), of A x1 j n1 w]) (use send_j in auto)
  have inv2: "stats_inv t4 ns2" by (rule send_event_inv [OF inv1 t(3,4), of A x2 i n2 w2]) (use send_i in auto)
  have ms: "measure_send A x1 t1 t2 j n1 ns = Inr ns1" using send_j j by (auto simp: report_irob_send_event_def Let_def bindE_eq_Inr)
  obtain m' where "map_of (closed_others j ns) i = Some m'" "im_finished m'"
    using closed_others(2,3) [OF inv, of j i] i \<open>j \<noteq> i\<close> by (cases "map_of (closed_others j ns) i") auto
  then have m1: "map_of (irob_measurements ns1) i = Some m'" "im_finished m'"
    by - (rule measure_send_cases [OF inv j(1) t(1,2), of A x1 n1]; use ms \<open>j \<noteq> i\<close> in auto)+
  have p1: "\<not> contains (past_irobs ns1) i" using stats_invD(5) [OF inv1 m1(1)] .
  have "measure_send A x2 t3 t4 i n2 ns1 = Inr ns2" using send_i p1 i2 by (auto simp: report_irob_send_event_def Let_def bindE_eq_Inr)
  then have "contains (past_irobs ns2) i"
    by - (rule measure_send_cases [OF inv1 p1 t(3,4), of A x2 n2]; use m1 closed_others(5) [OF inv1 m1(1)] in \<open>auto simp: contains_insert_num\<close>)
  then have inv3: "stats_inv t5 ns3" "contains (past_irobs ns3) i" using stats_steps_inv [OF steps inv2] by auto
  then have "map_of (irob_measurements ns3) i = None" using stats_invD(5) [OF inv3(1), of i] by (cases "map_of (irob_measurements ns3) i") auto
  then show ?thesis using ack by (auto simp: stats_report_ack_def Let_def bindE_eq_Inr split: if_splits prod.splits)
qed

text \<open>
  An acknowledgement of an IROB whose size is not recorded fails an assertion. This is so for an IROB
  that was never sent, because the acknowledgement is measured before its id is looked up, and for one that
  was sent when the statistics of the only connection it was sent on have been destroyed, although the
  acknowledgement may come on another connection.
\<close>

theorem unrecorded_ack_traps:
  assumes "subsec srv \<noteq> -1" and "\<not> contains (striped_irobs w) i"
    and "sw_transfers w i = None \<or>
      (\<exists>old p. sw_transfers w i = Some p \<and> fst ` set (transfers_by_network p) \<subseteq> {ns_addrs old} \<and> w' = delete_net_stats old w)"
  shows "stats_report_ack A i srv qd rt now ns (if sw_transfers w i = None then w else w') = Inl AssertFailed"
proof -
  let ?w = "if sw_transfers w i = None then w else w'"
  have "sw_transfers ?w i = None"
  proof (cases "sw_transfers w i")
    case (Some p)
    then obtain old where old: "fst ` set (transfers_by_network p) \<subseteq> {ns_addrs old}" "w' = delete_net_stats old w" using assms(3) by auto
    then have "AList.delete (ns_addrs old) (transfers_by_network p) = []"
      by (force simp: AList.delete_eq filter_empty_conv)
    then show ?thesis using Some old(2) by (simp add: delete_net_stats_def cache_save_def Let_def removeAll_transfers_def pn_remove_def)
  qed simp
  moreover have "striped_irobs ?w = striped_irobs w" using assms(3) by (auto simp: delete_net_stats_def cache_save_def Let_def)
  ultimately show ?thesis
    using assms(1,2) by (simp add: stats_report_ack_def hasAllBytes_def pn_hasAllBytes_def transfers_of_def new_per_network_def)
qed

text \<open>
  The denominator of the bandwidth of two large messages has the service time with the wrong sign. Where the
  comment asks for \<^verbatim>\<open>RTT - last_RTT + last_srv_time - srv_time\<close>, the code computes, up to the sign of the
  whole, \<^verbatim>\<open>RTT - last_RTT + srv_time - last_srv_time\<close>: it agrees with the comment exactly when the two
  service times or the two round-trip times are equal.
\<close>

theorem bw_denominator_wrong_sign:
  assumes "normal_us last_RTT" "normal_us rtt" "normal_us last_srv_time" "normal_us srv_time"
  shows "\<exists>d. bw_denominator last_RTT rtt last_srv_time srv_time = Inr d \<and>
    \<bar>us d\<bar> = \<bar>us rtt - us last_RTT + us srv_time - us last_srv_time\<bar> \<and>
    (\<bar>us d\<bar> = \<bar>us rtt - us last_RTT + us last_srv_time - us srv_time\<bar> \<longleftrightarrow> us srv_time = us last_srv_time \<or> us rtt = us last_RTT)"
proof -
  have diff: "\<exists>d. (if timer_less a b then TIMEDIFF_us a b else TIMEDIFF_us b a) = Inr d \<and> normal_us d \<and> us d = \<bar>us b - us a\<bar> \<and> (timer_less a b \<longleftrightarrow> us a < us b)"
    if "normal_us a" "normal_us b" for a b
    using TIMEDIFF_units [of MAX_USECS a b] TIMEDIFF_units [of MAX_USECS b a] timer_less_units [OF that] that
    by (cases "timer_less a b") auto
  obtain d1 where d1: "(if timer_less last_RTT rtt then TIMEDIFF_us last_RTT rtt else TIMEDIFF_us rtt last_RTT) = Inr d1"
      "normal_us d1" "us d1 = \<bar>us rtt - us last_RTT\<bar>" "timer_less last_RTT rtt \<longleftrightarrow> us last_RTT < us rtt" using diff [OF assms(1,2)] by blast
  obtain d2 where d2: "(if timer_less last_srv_time srv_time then TIMEDIFF_us last_srv_time srv_time else TIMEDIFF_us srv_time last_srv_time) = Inr d2"
      "normal_us d2" "us d2 = \<bar>us srv_time - us last_srv_time\<bar>" "timer_less last_srv_time srv_time \<longleftrightarrow> us last_srv_time < us srv_time"
    using diff [OF assms(3,4)] by blast
  have "bw_denominator last_RTT rtt last_srv_time srv_time =
      Inr (if (us last_RTT < us rtt) = (us last_srv_time < us srv_time) then timeradd_us d1 d2 else timersub_us d1 d2)"
    unfolding bw_denominator_def Let_def using d1(1,4) d2(1,4) by (auto simp: result_simps)
  then show ?thesis using timeradd_units [OF d1(2) d2(2)] timersub_units [OF d1(2) d2(2)] d1(3) d2(3) by auto
qed

theorem bw_denominator_wrong_sign_witness:
  "\<exists>d. bw_denominator (tv 1 0) (tv 3 0) (tv 0 0) (tv 1 0) = Inr d \<and> \<bar>us d\<bar> = 3000000"
  using bw_denominator_wrong_sign [of "tv 1 0" "tv 3 0" "tv 0 0" "tv 1 0"]
  by (auto simp: normal_def units_def MAX_USECS_def)

section \<open>Concrete runs\<close>

definition demo_iface :: net_interface where
  "demo_iface = \<lparr>ip_addr = 1, bandwidth_down = 0, bandwidth_up = 0, RTT = 0, type = 0\<rparr>"

definition demo_flipflop :: "real flipflop" where
  "demo_flipflop = observe exact 1000 (new_flipflop exact ''x_bw_up'')"

definition demo_stats_world :: "real stats_world" where
  "demo_stats_world = \<lparr>sw_cache = [(1, 1) \<mapsto> \<lparr>es_estimates = [new_flipflop exact ''x_latency'', demo_flipflop, new_flipflop exact ''x_bw_down''],
      es_error_estimators_initialized = False, es_last_RTT = tv 1 0, es_last_srv_time = tv 0 0, es_last_req_size = 100, es_last_irob = -1\<rparr>],
    sw_transfers = [1 \<mapsto> \<lparr>pn_total_bytes = 100, transfers_by_network = []\<rparr>], striped_irobs = IntSet\<rparr>"

definition demo_stats :: "real net_stats" where
  "demo_stats = (blank_net_stats exact ''x'' (1, 1))\<lparr>
     net_estimates := [new_flipflop exact ''x_latency'', demo_flipflop, new_flipflop exact ''x_bw_down''],
     ns_last_RTT := tv 1 0, ns_last_srv_time := tv 0 0, ns_last_req_size := 100\<rparr>"

lemma demo_run: "stats_run exact (tv 0 0, demo_stats, demo_stats_world)"
proof -
  have "new_net_stats exact False ''x'' demo_iface demo_iface demo_stats_world = Inr (demo_stats, cache_save demo_stats demo_stats_world)"
    by (simp add: new_net_stats_def Let_def stats_are_cached_def cache_restore_def demo_stats_def demo_stats_world_def demo_iface_def
        blank_net_stats_def assign_copies get_float_estimate_def demo_flipflop_def new_flipflop_def observe_def)
  then have "stats_run exact (tv 0 0, demo_stats, cache_save demo_stats demo_stats_world)" by (rule run_new [rotated 2]) simp_all
  then show ?thesis by (rule run_step) (rule step_world)
qed

lemma demo_later: "later (tv 0 0) (tv 1 0)" "later (tv 1 0) (tv 1 0)" "later (tv 1 0) (tv 2 0)" "later (tv 2 0) (tv 2 0)"
  by (simp_all add: later_def normal_def units_def MAX_USECS_def)


lemma demo_fresh: "\<not> contains IntSet i"
  by (simp add: contains_elems)

text \<open>The statistics after the first part of IROB 1.\<close>

definition demo_sent :: "real net_stats" where
  "demo_sent = demo_stats\<lparr>irob_measurements := [(1, \<lparr>im_id = 1, im_total_size = 100, arrival_time = tv 1 0, last_activity = tv 1 0,
     ack_time = tv (-1) 0, failure_time = tv (-1) 0, total_delay = tv 0 0, im_finished = False\<rparr>)], ns_last_irob := 1,
     outgoing_qdelay := \<lparr>last_msg_time = tv 1 0, last_msg_qdelay = tv 0 0, last_msg_size = 100, last_bw_estimate = 1000, qd_last_irob = 1\<rparr>\<rparr>"

definition demo_sent_world :: "real stats_world" where
  "demo_sent_world = demo_stats_world\<lparr>sw_transfers := [1 \<mapsto> \<lparr>pn_total_bytes = 100, transfers_by_network = [((1, 1), 100)]\<rparr>]\<rparr>"

lemma demo_sent_run: "stats_run exact (tv 1 0, demo_sent, demo_sent_world)"
proof -
  have bw: "snd (get_ulong_estimate exact 0 demo_flipflop) = 1000"
    by (simp add: get_ulong_estimate_def get_float_estimate_def demo_flipflop_def observe_def new_flipflop_def Let_def round_nearest_def)
  have "\<exists>w'. report_irob_send_event exact 0 (tv 1 0) (tv 1 0) 1 100 demo_stats demo_stats_world = Inr (demo_sent, w')"
    by (simp add: report_irob_send_event_def measure_send_def Let_def demo_stats_world_def demo_fresh demo_stats_def demo_sent_def
        blank_net_stats_def NET_STATS_BW_UP_def bw new_measurement_def set_id_def add_bytes_def add_message_def get_queuable_time_def
        new_queuing_delay_def add_delay_def timeradd_def MAX_USECS_def)
  then obtain w' where w': "report_irob_send_event exact 0 (tv 1 0) (tv 1 0) 1 100 demo_stats demo_stats_world = Inr (demo_sent, w')" by blast
  have "stats_run exact (tv 1 0, demo_sent, w')" by (rule run_step [OF demo_run step_sent [OF demo_later(1,2) w']])
  then show ?thesis by (rule run_step) (rule step_world)
qed

lemma demo_sent_ack:
  obtains v ns' w' where "stats_report_ack exact 1 (tv 0 0) (tv 0 0) (Some (tv 2 0)) (tv 2 0) demo_sent demo_sent_world = Inr (Some v, ns', w')"
proof -
  let ?ns = "demo_sent\<lparr>irob_measurements := []\<rparr>"
  define m where "m = \<lparr>im_id = 1, im_total_size = 100, arrival_time = tv 1 0, last_activity = tv 1 0,
     ack_time = tv 2 0, failure_time = tv (-1) 0, total_delay = tv 0 0, im_finished = False\<rparr>"
  have m: "im_total_size m = 100" by (simp add: m_def)
  have all: "stats_report_ack exact 1 (tv 0 0) (tv 0 0) (Some (tv 2 0)) (tv 2 0) demo_sent demo_sent_world =
      measure_ack exact (tv 0 0) m (tv 1 0) ?ns demo_sent_world"
    by (simp add: m_def stats_report_ack_def demo_sent_def demo_sent_world_def demo_stats_world_def demo_stats_def blank_net_stats_def
        demo_fresh hasAllBytes_def pn_hasAllBytes_def getValueRef_def transfers_of_def Let_def measured_RTT_def measured_ack_def add_delay_def
        TIMEDIFF_def timer_le_def timeradd_def timersub_def MAX_USECS_def)
  have est: "estimate exact NET_STATS_BW_UP ?ns = Some 1000"
    by (simp add: estimate_def NET_STATS_BW_UP_def demo_sent_def demo_stats_def get_float_estimate_def demo_flipflop_def observe_def
        new_flipflop_def Let_def round_nearest_def)
  have last: "tv_sec (ns_last_RTT demo_sent) \<noteq> -1" by (simp add: demo_sent_def demo_stats_def)
  have size: "ns_last_req_size demo_sent = 100" by (simp add: demo_sent_def demo_stats_def)
  have lat: "latency_given_bw exact (tv 1 0) (tv 0 0) 100 1000 = 450"
    by (simp add: latency_given_bw_def timer_less_def timersub_def convert_to_useconds_def Let_def)
  obtain s where s: "spot_values exact (tv 1 0) (tv 0 0) 100 ?ns = Inr s" "valid_result s"
    using lat by (simp add: spot_values_def est MIN_SIZE_FOR_BW_ESTIMATE_def size Let_def)
  obtain es where "observe_spot exact s ?ns = Inr (?ns\<lparr>net_estimates := es\<rparr>)" using observe_spot_ok by blast
  then have "\<exists>v ns' w'. measure_ack exact (tv 0 0) m (tv 1 0) ?ns demo_sent_world = Inr (Some v, ns', w')"
    using last by (auto simp: measure_ack_def m s Let_def simp del: exact_simps)
  then show thesis using that all by auto
qed


theorem interleaved_irobs_are_not_measured_witness:
  "\<exists>ns1 w1 ns2 w3 out ns4 w5. report_irob_send_event exact 0 (tv 1 0) (tv 1 0) 2 50 demo_sent demo_sent_world = Inr (ns1, w1) \<and>
     report_irob_send_event exact 0 (tv 2 0) (tv 2 0) 1 10 ns1 demo_sent_world = Inr (ns2, w3) \<and>
     stats_report_ack exact 1 (tv 0 0) (tv 0 0) (Some (tv 2 0)) (tv 2 0) ns2 demo_sent_world = Inr (out, ns4, w5) \<and> out = None"
proof -
  have inv: "stats_inv (tv 1 0) demo_sent" using stats_run_inv [OF demo_sent_run] by simp
  obtain ns1 w1 where s1: "report_irob_send_event exact 0 (tv 1 0) (tv 1 0) 2 50 demo_sent demo_sent_world = Inr (ns1, w1)" "stats_inv (tv 1 0) ns1"
    by (rule send_event_inv [OF inv demo_later(2,2)])
  obtain ns2 w3 where s2: "report_irob_send_event exact 0 (tv 2 0) (tv 2 0) 1 10 ns1 demo_sent_world = Inr (ns2, w3)" "stats_inv (tv 2 0) ns2"
    by (rule send_event_inv [OF s1(2) demo_later(3,4)])
  have known: "0 < pn_total_bytes (transfers_of 1 (sw_transfers demo_sent_world))" by (simp add: demo_sent_world_def transfers_of_def)
  obtain out ns4 w5 where s3: "stats_report_ack exact 1 (tv 0 0) (tv 0 0) (Some (tv 2 0)) (tv 2 0) ns2 demo_sent_world = Inr (out, ns4, w5)"
    by (rule ack_inv [OF s2(2) demo_later(4), where A = exact and rt = "Some (tv 2 0)" and now = "tv 2 0" and qd = "tv 0 0" and srv = "tv 0 0" and w = demo_sent_world and i = 1])
      (use known in auto)
  have steps: "(stats_step exact)\<^sup>*\<^sup>* (tv 2 0, ns2, w3) (tv 2 0, ns2, demo_sent_world)" by (intro r_into_rtranclp step_world)
  have fresh: "\<not> contains (past_irobs demo_sent) 2" "\<not> contains (striped_irobs demo_sent_world) i" for i
    by (simp_all add: demo_sent_def demo_stats_def blank_net_stats_def demo_sent_world_def demo_stats_world_def demo_fresh)
  obtain m where m: "map_of (irob_measurements demo_sent) 1 = Some m" by (simp add: demo_sent_def)
  have "out = None"
    by (rule interleaved_irobs_are_not_measured [OF demo_sent_run m _ fresh demo_later(2,2,3,4) s1(1) fresh(2) s2(1) steps s3]) simp
  then show ?thesis using s1(1) s2(1) s3 by blast
qed

theorem unrecorded_ack_traps_witness:
  "stats_report_ack exact 7 (tv 0 0) (tv 0 0) None (tv 2 0) demo_stats (delete_net_stats demo_stats demo_sent_world) = Inl AssertFailed \<and>
   stats_report_ack exact 1 (tv 0 0) (tv 0 0) None (tv 2 0) demo_stats (delete_net_stats demo_stats demo_sent_world) = Inl AssertFailed"
proof -
  let ?w = "delete_net_stats demo_stats demo_sent_world"
  have w: "sw_transfers ?w 7 = None" "\<not> contains (striped_irobs ?w) 7" "\<not> contains (striped_irobs demo_sent_world) 1"
    "sw_transfers demo_sent_world 1 = Some \<lparr>pn_total_bytes = 100, transfers_by_network = [((1, 1), 100)]\<rparr>" "ns_addrs demo_stats = (1, 1)"
    by (simp_all add: delete_net_stats_def cache_save_def removeAll_transfers_def Let_def demo_sent_world_def demo_stats_world_def demo_fresh
        demo_stats_def blank_net_stats_def)
  have one: "\<exists>old p. sw_transfers demo_sent_world 1 = Some p \<and> fst ` set (transfers_by_network p) \<subseteq> {ns_addrs old} \<and> ?w = delete_net_stats old demo_sent_world"
    using w(4,5) by (intro exI [of _ demo_stats] exI) auto
  have "stats_report_ack exact 7 (tv 0 0) (tv 0 0) None (tv 2 0) demo_stats (if sw_transfers ?w 7 = None then ?w else ?w) = Inl AssertFailed"
    by (rule unrecorded_ack_traps) (use w(1,2) in simp_all)
  moreover have "stats_report_ack exact 1 (tv 0 0) (tv 0 0) None (tv 2 0) demo_stats (if sw_transfers demo_sent_world 1 = None then demo_sent_world else ?w) = Inl AssertFailed"
    by (rule unrecorded_ack_traps) (use w(3) one in simp_all)
  ultimately show ?thesis using w(4) by simp
qed

section \<open>The cache\<close>

text \<open>The choosers see the cache as the values its filters return.\<close>

definition cache_view :: "'d fp_arith \<Rightarrow> 'd stats_world \<Rightarrow> stats_cache" where
  "cache_view A w key = map_option (\<lambda>c.
     let est = (\<lambda>t. map_option (round_nearest A) (get_float_estimate (es_estimates c ! t)))
     in \<lparr>est_latency = est 0, est_bw_up = est 1, est_bw_down = est 2\<rparr>) (sw_cache w key)"

lemma cache_view_estimates: "get_estimate (cache_view A w) li ri t = cached_get_estimate A w li ri t"
proof -
  have "t = 0 \<or> t = 1 \<or> t = 2 \<or> NUM_ESTIMATES \<le> t" by (auto simp: NUM_ESTIMATES_def)
  then show ?thesis by (auto simp: get_estimate_def cached_get_estimate_def cache_view_def Let_def NUM_ESTIMATES_def split: option.split)
qed

text \<open>That the error estimators have been initialised is saved before it is noted: the cache never learns it.\<close>

lemma initialisation_not_saved:
  assumes "getStats A bc nt ns w = (r # reports, ns', w')" and "\<not> error_estimators_initialized ns"
  shows "error_estimators_initialized ns' \<and>
    (\<exists>c. sw_cache w' (ns_addrs ns) = Some c \<and> \<not> es_error_estimators_initialized c)"
  using assms by (auto simp: getStats_def Let_def cache_save_def split: option.splits)

end
