(* ===== verification/Bootstrap.thy ===== *)
theory Bootstrap
  imports App_Operations
begin

text \<open>
  How a multisocket comes to be connected: the exchange of greetings and interfaces in
  cmm_socket_impl.cpp, the bootstrapper of cmm_conn_bootstrapper.cpp that runs it on either side and
  starts again when its interface goes away, the thread of cmm_internal_listener.cpp that accepts the
  connections of the peer, and the confirmation of a single connection in csocket.cpp.

  Headers cross the bootstrap socket whole or not at all: \<open>bt_in\<close> are those that will still arrive,
  after which a read fails, and \<open>bt_out\<close> those written. A C++ \<^verbatim>\<open>throw\<close> of an integer is \<open>Thrown\<close>; it
  keeps the changes made before it. \<open>Instruments\<close> marks that the peer has asked for the network
  chooser of the instruments library, beyond which the model does not go. What comes from outside an
  attempt is in \<open>boot_env\<close>: the results of the system calls with their \<^verbatim>\<open>errno\<close>, which writes succeed,
  the headers that arrive, the multisocket after the other threads have worked while the bootstrapper
  waits for its connections, and the interfaces that the scout takes down meanwhile.
\<close>

section \<open>State\<close>

datatype 'a boot_result = Finished 'a | Thrown int | Instruments

record boot =
  bt_sk :: msocket
  bt_listener :: "16 word option"
  bt_in :: "control_hdr list"
  bt_out :: "control_hdr list"

record boot_env =
  b_sys :: sys_env
  b_socket :: int
  b_bind :: "int option"
  b_connect :: "int option"
  b_arrives :: "control_hdr list"
  b_writes :: "nat \<Rightarrow> bool"
  b_ready :: "msocket \<Rightarrow> msocket"
  b_bound :: "in_addr_t option"
  b_down :: "net_interface list"

type_synonym 'a booting = "('a boot_result \<times> boot) result"

definition bindB :: "'a booting \<Rightarrow> ('a \<Rightarrow> boot \<Rightarrow> 'b booting) \<Rightarrow> 'b booting" where
  "bindB m f = bindE m (\<lambda>(r, b).
     case r of Finished x \<Rightarrow> f x b | Thrown rc \<Rightarrow> Inr (Thrown rc, b) | Instruments \<Rightarrow> Inr (Instruments, b))"

definition EINPROGRESS :: int where "EINPROGRESS = 115"
definition ECONNREFUSED :: int where "ECONNREFUSED = 111"
definition EALREADY :: int where "EALREADY = 114"
definition EISCONN :: int where "EISCONN = 106"
definition ENOTCONN :: int where "ENOTCONN = 107"
definition EAGAIN :: int where "EAGAIN = 11"
definition EINVAL :: int where "EINVAL = 22"

lemmas errno_defs = EINPROGRESS_def ECONNREFUSED_def EALREADY_def EISCONN_def ENOTCONN_def EAGAIN_def EINVAL_def

section \<open>A new multisocket\<close>

text \<open>The constructors of \<^verbatim>\<open>CMMSocketImpl\<close> and \<^verbatim>\<open>CSockMapping\<close>, with the tables of the process.\<close>

definition new_msocket :: "int \<Rightarrow> stats_cache \<Rightarrow> thunk_hash \<Rightarrow> msocket" where
  "new_msocket s stats thunks =
     \<lparr>sock = s, accepting_side = False, bootstrapped = False, remote_listener_port = 0, sk_non_blocking = False,
      csock_heap = Map.empty, available_csocks = [],
      network_chooser_of = \<lparr>impl = LabelMatcher (lm_reset new_label_matcher), redundancyStrategy = NeverRedundant\<rparr>,
      redundancy_strategy_type = INTNW_NEVER_REDUNDANT, stats_cache_of = stats, thunk_hash_of = thunks,
      local_ifaces = [], remote_ifaces = [], changed_local_ifaces = [], down_local_ifaces = [],
      sk_shutting_down = False, remote_shutdown = False, goodbye_sent = False, sending_goodbye = False,
      outgoing_irobs = new_lattice, incoming_irobs = new_receiver_lattice, irob_indexes = empty_indexes,
      receive_timeout = tv 0 0, failure_timeouts = Map.empty, restriction_stats = Map.empty\<rparr>"

section \<open>Greetings and interfaces\<close>

definition recv_hdr :: "boot \<Rightarrow> control_hdr booting" where
  "recv_hdr b = (case bt_in b of
     [] \<Rightarrow> Inr (Thrown (-1), b)
   | h # rest \<Rightarrow> Inr (Finished h, b\<lparr>bt_in := rest\<rparr>))"

definition send_hdr :: "(nat \<Rightarrow> bool) \<Rightarrow> control_hdr \<Rightarrow> boot \<Rightarrow> unit booting" where
  "send_hdr writes h b =
     (if writes (length (bt_out b)) then Inr (Finished (), b\<lparr>bt_out := bt_out b @ [h]\<rparr>) else Inr (Thrown (-1), b))"

definition recv_hello :: "boot \<Rightarrow> int booting" where
  "recv_hello b = bindB (recv_hdr b) (\<lambda>h b1.
     case hdr_op h of
       Hello port num_ifaces strategy \<Rightarrow>
         let sk = (bt_sk b1)\<lparr>remote_listener_port := word_of_int port\<rparr>; n = to_int (ntohl num_ifaces)
         in if accepting_side sk
            then bindE (set_redundancy_strategy (to_int (ntohl strategy)) sk) (\<lambda>r.
                   Inr (case r of Some sk1 \<Rightarrow> (Finished n, b1\<lparr>bt_sk := sk1\<rparr>) | None \<Rightarrow> (Instruments, b1\<lparr>bt_sk := sk\<rparr>)))
            else Inr (Finished n, b1\<lparr>bt_sk := sk\<rparr>)
     | _ \<Rightarrow> Inr (Thrown (-1), b1))"

definition hello_msg :: "16 word \<Rightarrow> msocket \<Rightarrow> control_hdr" where
  "hello_msg port sk = \<lparr>hdr_labels = 0, hdr_op = Hello (uint port) (htonl (int (length (local_ifaces sk))))
     (htonl (get_redundancy_strategy sk))\<rparr>"

definition send_hello :: "(nat \<Rightarrow> bool) \<Rightarrow> boot \<Rightarrow> unit booting" where
  "send_hello writes b =
     (case bt_listener b of None \<Rightarrow> Inl AssertFailed | Some port \<Rightarrow> send_hdr writes (hello_msg port (bt_sk b)) b)"

definition new_interface_msg :: "net_interface \<Rightarrow> control_hdr" where
  "new_interface_msg iface = \<lparr>hdr_labels = 0, hdr_op = New_Interface (ip_addr iface) (htonl (uint (bandwidth_down iface)))
     (htonl (uint (bandwidth_up iface))) (htonl (uint (RTT iface))) (htonl (uint (type iface)))\<rparr>"

definition send_local_listener :: "(nat \<Rightarrow> bool) \<Rightarrow> net_interface \<Rightarrow> boot \<Rightarrow> unit booting" where
  "send_local_listener writes iface b = send_hdr writes (new_interface_msg iface) b"

definition no_interface :: net_interface where
  "no_interface = \<lparr>ip_addr = 0, bandwidth_down = 0, bandwidth_up = 0, RTT = 0, type = 0\<rparr>"

fun send_listeners :: "(nat \<Rightarrow> bool) \<Rightarrow> net_interface list \<Rightarrow> boot \<Rightarrow> unit booting" where
  "send_listeners writes [] b = send_local_listener writes no_interface b"
| "send_listeners writes (i # is) b = bindB (send_local_listener writes i b) (\<lambda>_. send_listeners writes is)"

definition send_local_listeners :: "(nat \<Rightarrow> bool) \<Rightarrow> boot \<Rightarrow> unit booting" where
  "send_local_listeners writes b =
     ASSERT (bt_listener b \<noteq> None) (send_listeners writes (local_ifaces (bt_sk b)) b)"

definition received_iface :: "in_addr_t \<Rightarrow> int \<Rightarrow> int \<Rightarrow> int \<Rightarrow> int \<Rightarrow> net_interface" where
  "received_iface ip down up rtt t =
     \<lparr>ip_addr = ip, bandwidth_down = word_of_int (ntohl down), bandwidth_up = word_of_int (ntohl up),
      RTT = word_of_int (ntohl rtt), type = word_of_int (ntohl t)\<rparr>"

text \<open>The result is whether the end of the list has been seen. The scout is told of the new pairs of
  interfaces, which is not modelled.\<close>

definition recv_remote_listener :: "boot \<Rightarrow> bool booting" where
  "recv_remote_listener b = bindB (recv_hdr b) (\<lambda>h b1.
     case hdr_op h of
       New_Interface ip down up rtt t \<Rightarrow>
         let new_listener = received_iface ip down up rtt t; sk = bt_sk b1
         in if ip = 0 then Inr (Finished True, b1)
            else if accepting_side sk
            then Inr (Finished False, b1\<lparr>bt_sk := sk\<lparr>remote_ifaces :=
                   iface_insert new_listener (iface_erase new_listener (remote_ifaces sk))\<rparr>\<rparr>)
            else Inr (Finished False, b1)
     | _ \<Rightarrow> Inr (Thrown (-1), b1))"

text \<open>The loop reads a header in every round, so that it ends with the headers at the latest. The
  number of interfaces in the greeting is not used.\<close>

function recv_remote_listeners :: "boot \<Rightarrow> unit booting" where
  "recv_remote_listeners b = bindB (recv_remote_listener b) (\<lambda>fin b1.
     if fin then Inr (Finished (), b1)
     else if length (bt_in b1) < length (bt_in b) then recv_remote_listeners b1 else Inl OutOfFuel)"
  by auto
termination by (relation "measure (\<lambda>b. length (bt_in b))") auto

definition startup_csocks :: "sys_env \<Rightarrow> msocket \<Rightarrow> msocket result" where
  "startup_csocks sys sk =
     bindE (foldE (\<lambda>i. map_setup sys i False False False) (remote_ifaces sk) sk) (\<lambda>sk1.
       foldE (\<lambda>i. map_setup sys i True True False) (local_ifaces sk1) sk1)"

section \<open>Waiting for connections\<close>

definition wait_until_connected :: "csocket \<Rightarrow> int option" where
  "wait_until_connected cs =
     (if \<not> connected cs \<and> \<not> connection_failed cs then None else Some (if connection_failed cs then -1 else 0))"

text \<open>The number of connections that have come about when all of them have been waited for.\<close>

definition num_connections :: "csock_ref list \<Rightarrow> msocket \<Rightarrow> nat" where
  "num_connections cs sk =
     length (filter (\<lambda>c. case csock_heap sk c of Some k \<Rightarrow> wait_until_connected k = Some 0 | None \<Rightarrow> False) cs)"

definition wait_for_connections :: "(msocket \<Rightarrow> msocket) \<Rightarrow> boot \<Rightarrow> unit booting" where
  "wait_for_connections ready b =
     (let sk = ready (bt_sk b); b1 = b\<lparr>bt_sk := sk\<rparr>
      in if num_connections (available_csocks (bt_sk b)) sk = 0 then Inr (Thrown (-1), b1) else Inr (Finished (), b1))"

section \<open>The bootstrapper\<close>

text \<open>\<open>write_ready\<close> is that the byte which ends a \<^verbatim>\<open>select\<close> for writing has been put into
  \<^verbatim>\<open>write_ready_pipe\<close>.\<close>

record bootstrapper =
  bootstrap_sock :: int
  bs_status :: int
  retry :: bool
  write_ready :: bool

definition new_bootstrapper :: "int \<Rightarrow> bootstrapper" where
  "new_bootstrapper s = \<lparr>bootstrap_sock = s, bs_status = EINPROGRESS, retry = False, write_ready = False\<rparr>"

definition succeeded :: "bootstrapper \<Rightarrow> bool" where
  "succeeded bs \<longleftrightarrow> bs_status bs = 0"

definition bs_done :: "bootstrapper \<Rightarrow> bool" where
  "bs_done bs \<longleftrightarrow> bs_status bs \<noteq> EINPROGRESS"

text \<open>\<open>bound\<close> is the local address of the bootstrap socket, if \<^verbatim>\<open>getsockname\<close> tells it.\<close>

definition restart :: "bool \<Rightarrow> in_addr_t option \<Rightarrow> net_interface \<Rightarrow> bootstrapper \<Rightarrow> bootstrapper" where
  "restart accepts bound down bs =
     (if accepts \<or> bootstrap_sock bs = -1 then bs
      else if bound = Some (ip_addr down) then bs\<lparr>retry := True\<rparr> else bs)"

definition accept_handshake :: "boot_env \<Rightarrow> boot \<Rightarrow> unit booting" where
  "accept_handshake env b =
     bindB (recv_hello b) (\<lambda>_ b1.
     bindB (send_hello (b_writes env) b1) (\<lambda>_ b2.
     bindB (recv_remote_listeners b2) (\<lambda>_ b3.
     bindE (startup_csocks (b_sys env) (bt_sk b3)) (\<lambda>sk.
     bindB (wait_for_connections (b_ready env) (b3\<lparr>bt_sk := sk\<rparr>)) (\<lambda>_ b4.
       send_local_listeners (b_writes env) b4)))))"

definition connect_handshake :: "boot_env \<Rightarrow> boot \<Rightarrow> unit booting" where
  "connect_handshake env b =
     bindB (send_hello (b_writes env) b) (\<lambda>_ b1.
     bindB (recv_hello b1) (\<lambda>_ b2.
     bindE (startup_csocks (b_sys env) (bt_sk b2)) (\<lambda>sk.
     bindB (wait_for_connections (b_ready env) (b2\<lparr>bt_sk := sk\<rparr>)) (\<lambda>_ b3.
     bindB (send_local_listeners (b_writes env) b3) (\<lambda>_ b4.
       recv_remote_listeners b4)))))"

text \<open>
  The body of the loop in \<^verbatim>\<open>Run\<close> up to the \<^verbatim>\<open>catch\<close>. \<open>None\<close>: the thread has returned from the middle
  of it. The socket and the status change before the handshake.
\<close>

definition connect_attempt :: "boot_env \<Rightarrow> bootstrapper \<Rightarrow> boot \<Rightarrow> (unit boot_result option \<times> bootstrapper \<times> boot) result" where
  "connect_attempt env bs b =
     (let bs1 = bs\<lparr>bootstrap_sock := b_socket env\<rparr>
      in if b_socket env < 0 then Inr (None, bs1, b)
         else if local_ifaces (bt_sk b) = [] then Inr (None, bs1, b)
         else case b_bind env of
                Some err \<Rightarrow> Inr (Some (Thrown (-1)), bs1\<lparr>bs_status := err\<rparr>, b)
              | None \<Rightarrow>
                  (case b_connect env of
                     Some err \<Rightarrow> Inr (Some (Thrown (-1)), bs1\<lparr>bs_status := err\<rparr>, b)
                   | None \<Rightarrow> bindE (connect_handshake env b) (\<lambda>(r, b1). Inr (Some r, bs1, b1))))"

definition attempt_body :: "boot_env \<Rightarrow> bootstrapper \<Rightarrow> boot \<Rightarrow> (unit boot_result option \<times> bootstrapper \<times> boot) result" where
  "attempt_body env bs b =
     (let bs0 = bs\<lparr>retry := False\<rparr>; b0 = b\<lparr>bt_in := b_arrives env, bt_out := []\<rparr>
      in bindE (if bootstrap_sock bs0 \<noteq> -1
                then bindE (accept_handshake env b0) (\<lambda>(r, b1). Inr (Some r, bs0, b1))
                else connect_attempt env bs0 b0) (\<lambda>(r, bs1, b1).
           Inr (r, fold (restart (accepting_side (bt_sk b1)) (b_bound env)) (b_down env) bs1, b1)))"

definition after_failure :: "bootstrapper \<Rightarrow> bootstrapper" where
  "after_failure bs =
     (if retry bs then bs\<lparr>bootstrap_sock := -1, bs_status := EINPROGRESS\<rparr>
      else if bs_status bs \<noteq> EINPROGRESS then bs\<lparr>bs_status := ECONNREFUSED\<rparr> else bs)"

text \<open>
  \<^verbatim>\<open>Run\<close> and \<^verbatim>\<open>Finish\<close>, over the environments of the attempts to come; \<open>StillRunning\<close> is a bootstrapper
  that has used them all up. \<open>pipe\<close> is that the write to \<^verbatim>\<open>write_ready_pipe\<close> succeeds.
\<close>

datatype boot_end = StillRunning | Ended | OutsideModel

definition bs_finish :: "bootstrapper \<Rightarrow> bootstrapper" where
  "bs_finish bs = bs\<lparr>bootstrap_sock := -1\<rparr>"

fun bs_run :: "bool \<Rightarrow> boot_env list \<Rightarrow> bootstrapper \<Rightarrow> boot \<Rightarrow> (boot_end \<times> bootstrapper \<times> boot) result" where
  "bs_run pipe [] bs b = Inr (StillRunning, bs, b)"
| "bs_run pipe (env # envs) bs b =
     bindE (attempt_body env bs b) (\<lambda>(r, bs1, b1).
       case r of
         None \<Rightarrow> Inr (Ended, bs_finish bs1, b1)
       | Some Instruments \<Rightarrow> Inr (OutsideModel, bs1, b1)
       | Some res \<Rightarrow>
           let bs2 = (case res of Thrown rc \<Rightarrow> after_failure bs1 | _ \<Rightarrow> bs1\<lparr>bs_status := 0\<rparr>)
           in if retry bs2 then bs_run pipe envs bs2 b1
              else ASSERT pipe (Inr (Ended, bs_finish (bs2\<lparr>write_ready := True\<rparr>), b1)))"

section \<open>Connecting\<close>

text \<open>
  The interfaces at the start: a loopback multisocket has only the loopback interface, any other the
  interfaces \<open>ifaces\<close> of the process, and the connecting side the address it connects to.
\<close>

definition localhost :: net_interface where
  "localhost = \<lparr>ip_addr = word_of_int (htonl INADDR_LOOPBACK), bandwidth_down = 100000000, bandwidth_up = 100000000,
     RTT = 0, type = 0\<rparr>"

definition boot_ifaces :: "bool \<Rightarrow> net_interface list \<Rightarrow> in_addr_t \<Rightarrow> msocket \<Rightarrow> msocket" where
  "boot_ifaces connecting ifaces addr sk =
     (if addr = word_of_int (htonl INADDR_LOOPBACK)
      then sk\<lparr>local_ifaces := iface_insert localhost (local_ifaces sk), remote_ifaces := iface_insert localhost (remote_ifaces sk)\<rparr>
      else let sk1 = sk\<lparr>local_ifaces := ifaces\<rparr>
           in if connecting
              then sk1\<lparr>remote_ifaces := iface_insert \<lparr>ip_addr = addr, bandwidth_down = 1250000, bandwidth_up = 1250000,
                          RTT = 0, type = 0\<rparr> (remote_ifaces sk1)\<rparr>
              else sk1)"

text \<open>
  A multisocket with its bootstrapper and listener. \<open>listener\<close> is the outcome of making the listener
  thread: \<open>Inl rc\<close> when its constructor throws, otherwise its port and the result of starting it. A
  thread that did not start is deleted, but the pointer to it is kept and used by the \<^verbatim>\<open>catch\<close>, which
  is undefined. The result is the return code and the value left in \<^verbatim>\<open>errno\<close>.
\<close>

record conn =
  cn_sk :: msocket
  cn_boot :: "bootstrapper option"
  cn_listener :: "16 word option"

record connect_env =
  c_listener :: "int + (16 word \<times> int)"
  c_ifaces :: "net_interface list"
  c_attempts :: "boot_env list"
  c_pipe :: bool

datatype connect_outcome = ConnReturns int "int option" | ConnWaits | ConnOutside

definition connect_status :: "conn \<Rightarrow> int" where
  "connect_status cn = (case cn_boot cn of Some bs \<Rightarrow> bs_status bs | None \<Rightarrow> ENOTCONN)"

definition with_boot :: "bootstrapper \<Rightarrow> msocket \<Rightarrow> conn \<Rightarrow> conn" where
  "with_boot bs sk cn = cn\<lparr>cn_boot := Some bs, cn_sk := sk\<lparr>bootstrapped := (bs_status bs = 0)\<rparr>\<rparr>"

text \<open>A non-blocking multisocket does not wait for its bootstrapper: \<open>c_attempts\<close> are then the attempts
  made before the status is read.\<close>

definition connection_bootstrap ::
  "connect_env \<Rightarrow> in_addr_t \<Rightarrow> int \<Rightarrow> conn \<Rightarrow> (connect_outcome \<times> conn) result" where
  "connection_bootstrap env addr boot_sock cn =
     (let cn1 = cn\<lparr>cn_sk := (cn_sk cn)\<lparr>accepting_side := (boot_sock \<noteq> -1)\<rparr>\<rparr>
      in case c_listener env of
           Inl rc \<Rightarrow> Inr (ConnReturns rc None, cn1)
         | Inr (port, rc) \<Rightarrow>
             if rc \<noteq> 0 then Inl OutOfBounds
             else let sk = boot_ifaces (boot_sock = -1) (c_ifaces env) addr (cn_sk cn1);
                      cn2 = with_boot (new_bootstrapper boot_sock) sk (cn1\<lparr>cn_listener := Some port\<rparr>)
                  in bindE (bs_run (c_pipe env) (c_attempts env) (new_bootstrapper boot_sock)
                              \<lparr>bt_sk = sk, bt_listener = Some port, bt_in = [], bt_out = []\<rparr>) (\<lambda>(e, bs, b).
                       let cn3 = with_boot bs (bt_sk b) cn2
                       in Inr (if sk_non_blocking sk then (ConnReturns 0 (Some (bs_status bs)), cn3)
                               else case e of
                                      StillRunning \<Rightarrow> (ConnWaits, cn3)
                                    | OutsideModel \<Rightarrow> (ConnOutside, cn3)
                                    | Ended \<Rightarrow> (ConnReturns (if succeeded bs then 0 else -1) None, cn3))))"

definition mc_connect :: "connect_env \<Rightarrow> in_addr_t option \<Rightarrow> conn \<Rightarrow> (connect_outcome \<times> conn) result" where
  "mc_connect env addr cn =
     (case cn_boot cn of
        Some bs \<Rightarrow>
          Inr (ConnReturns CMM_FAILED
                 (if bs_status bs = 0 then Some EISCONN else if bs_status bs = EINPROGRESS then Some EALREADY else None), cn)
      | None \<Rightarrow>
          (case addr of
             None \<Rightarrow> Inr (ConnReturns CMM_FAILED (Some EINVAL), cn)
           | Some a \<Rightarrow> connection_bootstrap env a (-1) cn))"

section \<open>One connection\<close>

text \<open>
  The connecting end of a connection announces its interface and waits for a confirmation; the
  accepting end confirms. \<open>pc_reply\<close> is the header received, if it arrives whole. Closing the file
  descriptor and the time stamps are not modelled, and the choosers of the model ignore that a
  network has been set up.
\<close>

record phys_env =
  pc_bind :: bool
  pc_connect :: bool
  pc_send :: bool
  pc_reply :: "control_hdr option"
  pc_waited :: "msocket \<Rightarrow> msocket"

definition confirmed :: "phys_env \<Rightarrow> bool" where
  "confirmed env \<longleftrightarrow> pc_bind env \<and> pc_connect env \<and> pc_send env \<and>
     (case pc_reply env of Some h \<Rightarrow> type_code (hdr_op h) = 0 | None \<Rightarrow> False)"

definition announces :: "phys_env \<Rightarrow> bool" where
  "announces env \<longleftrightarrow> pc_bind env \<and> pc_connect env \<and> pc_send env"

definition phys_connect :: "phys_env \<Rightarrow> csock_ref \<Rightarrow> msocket \<Rightarrow> (int \<times> control_hdr list \<times> msocket) result" where
  "phys_connect env c sk =
     (case csock_heap sk c of
        None \<Rightarrow> Inl OutOfBounds
      | Some cs \<Rightarrow>
          if accepting cs
          then let sk1 = pc_waited env sk
               in case map_option wait_until_connected (csock_heap sk1 c) of
                    Some (Some rc) \<Rightarrow> Inr (rc, [], sk1)
                  | _ \<Rightarrow> Inl OutOfFuel
          else let sent = (if announces env then [new_interface_msg (local_iface cs)] else [])
               in if \<not> confirmed env
                  then Inr (-1, sent, update_csock c (\<lambda>cs. cs\<lparr>connection_failed := True\<rparr>) sk)
                  else bindE (csock_network_type (local_iface cs) (remote_iface cs)) (\<lambda>_.
                         Inr (0, sent, update_csock c (\<lambda>cs. cs\<lparr>connected := True\<rparr>) sk)))"

definition confirmation :: control_hdr where
  "confirmation = \<lparr>hdr_labels = 0, hdr_op = Hello 0 0 0\<rparr>"

definition send_confirmation :: "bool \<Rightarrow> csock_ref \<Rightarrow> msocket \<Rightarrow> int \<times> control_hdr list \<times> msocket" where
  "send_confirmation written c sk =
     (if written then (0, [confirmation], update_csock c (\<lambda>cs. cs\<lparr>connected := True\<rparr>) sk)
      else (-1, [], update_csock c (\<lambda>cs. cs\<lparr>connection_failed := True\<rparr>) sk))"

section \<open>The listener\<close>

text \<open>
  \<^verbatim>\<open>CSockMapping::add_connection\<close>. Where the local interface is not known, \<^verbatim>\<open>interface_up\<close> tells every
  multisocket of the process of it; here it is what this one does about it. All fields of \<open>unset\<close> but
  the address are then uninitialised memory. The result is whether the connection could be made; if
  not, \<^verbatim>\<open>std::runtime_error\<close> is thrown.
\<close>

definition add_connection ::
  "sys_env \<Rightarrow> net_interface \<Rightarrow> int \<Rightarrow> in_addr_t \<Rightarrow> net_interface \<Rightarrow> msocket \<Rightarrow> (bool \<times> msocket) result" where
  "add_connection sys unset s local_addr remote sk =
     (let found = get_iface_by_addr (local_ifaces sk) local_addr;
          loc = (case found of Some i \<Rightarrow> i | None \<Rightarrow> unset\<lparr>ip_addr := local_addr\<rparr>)
      in bindE (if found = None then sk_setup sys loc True sk else Inr sk) (\<lambda>sk1.
         bindE (if get_iface_by_addr (remote_ifaces sk1) (ip_addr remote) = None
                then sk_setup sys remote False sk1 else Inr sk1) (\<lambda>sk2.
         bindE (make_new_csocket sys loc remote s sk2) (\<lambda>(a, sk3).
           Inr (a \<noteq> Throws, sk3)))))"

text \<open>
  One round of the listener thread with a connection \<open>s\<close> that has been accepted: \<open>local_addr\<close> is the
  answer of \<^verbatim>\<open>getsockname\<close> and \<open>hdr\<close> the first header, where they come. The result is whether the
  connection was kept; the exception of \<^verbatim>\<open>add_connection\<close> is caught.
\<close>

definition listener_round ::
  "sys_env \<Rightarrow> net_interface \<Rightarrow> int \<Rightarrow> in_addr_t option \<Rightarrow> control_hdr option \<Rightarrow> msocket \<Rightarrow> (bool \<times> msocket) result" where
  "listener_round sys unset s local_addr hdr sk =
     (case local_addr of
        None \<Rightarrow> Inr (False, sk)
      | Some addr \<Rightarrow>
          if get_iface_by_addr (local_ifaces sk) addr = None then Inr (False, sk)
          else case hdr of
                 None \<Rightarrow> Inr (False, sk)
               | Some h \<Rightarrow>
                   (case hdr_op h of
                      New_Interface ip down up rtt t \<Rightarrow>
                        add_connection sys unset s addr (received_iface ip down up rtt t) sk
                    | _ \<Rightarrow> Inr (False, sk)))"

section \<open>The exchange of interfaces\<close>

interpretation iface_set: keyed_order iface_less ip_addr "\<lambda>_. True"
  by unfold_locales (simp add: iface_less_def)

lemma bindB_simps [simp]:
  "bindB (Inr (Finished x, b)) f = f x b"
  "bindB (Inr (Thrown rc, b)) f = Inr (Thrown rc, b)"
  "bindB (Inr (Instruments, b)) f = Inr (Instruments, b)"
  "bindB (Inl e) f = Inl e"
  by (simp_all add: bindB_def)

declare recv_remote_listeners.simps [simp del]

text \<open>What is left of an interface on the way: its numbers are cut to 32 bits.\<close>

definition narrowed :: "net_interface \<Rightarrow> net_interface" where
  "narrowed i = i\<lparr>bandwidth_down := take_bit 32 (bandwidth_down i), bandwidth_up := take_bit 32 (bandwidth_up i),
     RTT := take_bit 32 (RTT i)\<rparr>"

definition renewed :: "net_interface \<Rightarrow> net_interface list \<Rightarrow> net_interface list" where
  "renewed i is = iface_insert i (iface_erase i is)"

definition listener_msgs :: "net_interface list \<Rightarrow> control_hdr list" where
  "listener_msgs is = map new_interface_msg is @ [new_interface_msg no_interface]"

lemma narrow64: "word_of_int (uint (w :: u_long) mod 4294967296) = take_bit 32 w"
proof -
  have "uint (take_bit 32 w) = take_bit 32 (uint w)" by (rule unsigned_take_bit_eq)
  moreover have "take_bit 32 (uint w) = uint w mod 4294967296" by (simp add: take_bit_eq_mod)
  ultimately show ?thesis by (metis word_of_int_uint)
qed

lemma received_sent: "received_iface (ip_addr i) (htonl (uint (bandwidth_down i))) (htonl (uint (bandwidth_up i)))
    (htonl (uint (RTT i))) (htonl (uint (type i))) = narrowed i"
proof -
  have t: "word_of_int (ntohl (htonl (uint (type i)))) = type i" using uint_bounded [of "type i"] by simp
  show ?thesis unfolding received_iface_def narrowed_def t by (cases i) (simp add: ntohl_htonl narrow64)
qed

lemma send_listeners_all:
  assumes "\<forall>n. writes n"
  shows "send_listeners writes is b = Inr (Finished (), b\<lparr>bt_out := bt_out b @ listener_msgs is\<rparr>)"
  using assms
  by (induction "is" arbitrary: b) (simp_all add: send_local_listener_def send_hdr_def listener_msgs_def)

lemma recv_listeners_round:
  assumes "bt_in b = new_interface_msg i # rest" and "ip_addr i \<noteq> 0"
  shows "recv_remote_listeners b =
    recv_remote_listeners (b\<lparr>bt_in := rest, bt_sk := (if accepting_side (bt_sk b)
      then (bt_sk b)\<lparr>remote_ifaces := renewed (narrowed i) (remote_ifaces (bt_sk b))\<rparr> else bt_sk b)\<rparr>)"
  using assms
  by (subst recv_remote_listeners.simps)
     (simp add: recv_remote_listener_def recv_hdr_def new_interface_msg_def received_sent renewed_def Let_def)

lemma recv_listeners_end:
  assumes "bt_in b = new_interface_msg no_interface # rest"
  shows "recv_remote_listeners b = Inr (Finished (), b\<lparr>bt_in := rest\<rparr>)"
  using assms
  by (subst recv_remote_listeners.simps)
     (simp add: recv_remote_listener_def recv_hdr_def new_interface_msg_def no_interface_def)

lemma recv_listeners_all:
  assumes "bt_in b = listener_msgs is @ rest" and "\<forall>i\<in>set is. ip_addr i \<noteq> 0" and "accepting_side (bt_sk b)"
  shows "recv_remote_listeners b = Inr (Finished (), b\<lparr>bt_in := rest, bt_sk := (bt_sk b)\<lparr>remote_ifaces :=
    fold renewed (map narrowed is) (remote_ifaces (bt_sk b))\<rparr>\<rparr>)"
  using assms
proof (induction "is" arbitrary: b)
  case Nil
  then show ?case by (simp add: recv_listeners_end listener_msgs_def)
next
  case (Cons i "is")
  then have "bt_in b = new_interface_msg i # (listener_msgs is @ rest)" by (simp add: listener_msgs_def)
  from recv_listeners_round [OF this] Cons show ?case by simp
qed

text \<open>The loop over the peer's interfaces always ends.\<close>

lemma recv_hdr_shorter: "recv_hdr b = Inr (Finished h, b') \<Longrightarrow> length (bt_in b') < length (bt_in b)"
  by (auto simp: recv_hdr_def split: list.splits)

lemma recv_remote_listener_shorter:
  assumes "recv_remote_listener b = Inr (Finished x, b')"
  shows "length (bt_in b') < length (bt_in b)"
proof (cases "bt_in b")
  case Nil
  then show ?thesis using assms by (simp add: recv_remote_listener_def recv_hdr_def)
next
  case (Cons h rest)
  then have "bt_in b' = rest"
    using assms by (auto simp: recv_remote_listener_def recv_hdr_def Let_def split: control_op.splits if_splits)
  then show ?thesis using Cons by simp
qed

lemma recv_remote_listeners_loop:
  "recv_remote_listeners b = bindB (recv_remote_listener b) (\<lambda>fin b1.
     if fin then Inr (Finished (), b1) else recv_remote_listeners b1)"
proof (cases "recv_remote_listener b")
  case (Inr r)
  obtain x b1 where r: "r = (x, b1)" by (cases r)
  then show ?thesis
    using Inr recv_remote_listener_shorter [of b _ b1]
    by (cases x) (simp_all add: recv_remote_listeners.simps [of b])
qed (simp add: recv_remote_listeners.simps [of b])

text \<open>The first header that does not announce an interface is the end of the list.\<close>

fun list_ends :: "control_hdr list \<Rightarrow> bool" where
  "list_ends [] \<longleftrightarrow> False"
| "list_ends (h # hs) \<longleftrightarrow> (case hdr_op h of New_Interface ip _ _ _ _ \<Rightarrow> ip = 0 \<or> list_ends hs | _ \<Rightarrow> False)"

lemma listener_kinds:
  assumes "bt_in b = h # rest"
  obtains (interface) sk where "recv_remote_listener b = Inr (Finished False, b\<lparr>bt_in := rest, bt_sk := sk\<rparr>)"
      "list_ends (h # rest) = list_ends rest"
    | (sentinel) "recv_remote_listener b = Inr (Finished True, b\<lparr>bt_in := rest\<rparr>)" "list_ends (h # rest)"
    | (other) "recv_remote_listener b = Inr (Thrown (-1), b\<lparr>bt_in := rest\<rparr>)" "\<not> list_ends (h # rest)"
proof (cases "\<exists>ip down up rtt t. hdr_op h = New_Interface ip down up rtt t")
  case True
  then obtain ip down up rtt t where op: "hdr_op h = New_Interface ip down up rtt t" by blast
  show ?thesis
  proof (cases "ip = 0")
    case True
    then show ?thesis using sentinel assms op by (simp add: recv_remote_listener_def recv_hdr_def)
  next
    case False
    then have "\<exists>sk. recv_remote_listener b = Inr (Finished False, b\<lparr>bt_in := rest, bt_sk := sk\<rparr>)"
      using assms op by (cases "accepting_side (bt_sk b)")
        (auto simp: recv_remote_listener_def recv_hdr_def Let_def intro: exI [of _ "bt_sk b"])
    then show ?thesis using interface False op by auto
  qed
next
  case False
  then show ?thesis
    using other assms by (cases "hdr_op h") (simp_all add: recv_remote_listener_def recv_hdr_def)
qed

lemma listeners_outcome:
  "\<exists>r b'. recv_remote_listeners b = Inr (r, b') \<and> (\<exists>seen. bt_in b = seen @ bt_in b') \<and>
     r = (if list_ends (bt_in b) then Finished () else Thrown (-1))"
proof (induction "bt_in b" arbitrary: b)
  case Nil
  then show ?case by (subst recv_remote_listeners_loop) (simp add: recv_remote_listener_def recv_hdr_def)
next
  case (Cons h rest)
  note loop = recv_remote_listeners_loop [of b]
  from Cons.hyps(2) [symmetric] show ?case
  proof (cases rule: listener_kinds)
    case (interface sk)
    let ?b1 = "b\<lparr>bt_in := rest, bt_sk := sk\<rparr>"
    obtain r b' seen where "recv_remote_listeners ?b1 = Inr (r, b')" "rest = seen @ bt_in b'"
      "r = (if list_ends rest then Finished () else Thrown (-1))" using Cons.hyps(1) [of ?b1] by auto
    moreover from this have "h # rest = (h # seen) @ bt_in b'" by simp
    ultimately show ?thesis using interface loop Cons.hyps(2) [symmetric] by (simp only:) fastforce
  next
    case sentinel
    then show ?thesis using loop Cons.hyps(2) [symmetric] by simp
  next
    case other
    then show ?thesis using loop Cons.hyps(2) [symmetric] by simp
  qed
qed

text \<open>
  C16. The bootstrapper never hangs over a peer that talks nonsense: the loop that reads the peer's
  interfaces ends on every input. It ends normally if, and only if, nothing but interfaces comes
  before the end of the list, whatever number of interfaces was announced; otherwise it throws.
\<close>

theorem listeners_loop_ends:
  "recv_remote_listeners b = bindB (recv_remote_listener b) (\<lambda>fin b1.
     if fin then Inr (Finished (), b1) else recv_remote_listeners b1) \<and>
   (\<exists>r b'. recv_remote_listeners b = Inr (r, b') \<and> (\<exists>seen. bt_in b = seen @ bt_in b') \<and>
     r = (if list_ends (bt_in b) then Finished () else Thrown (-1)))"
  using recv_remote_listeners_loop listeners_outcome by blast

lemma renewed_all:
  assumes "iface_set.ordered R" and "distinct (map ip_addr is)"
  shows "set (fold renewed is R) = set is \<union> {x \<in> set R. ip_addr x \<notin> ip_addr ` set is} \<and> iface_set.ordered (fold renewed is R)"
  using assms
proof (induction "is" arbitrary: R)
  case (Cons i "is")
  have ord: "iface_set.ordered (renewed i R)"
    using Cons.prems(1) by (simp add: renewed_def iface_insert_def iface_erase_def iface_set.ordered_set_insert iface_set.ordered_set_erase)
  have "set (renewed i R) = insert i {x \<in> set R. ip_addr x \<noteq> ip_addr i}"
    using Cons.prems(1)
    by (auto simp: renewed_def iface_insert_def iface_erase_def iface_set.set_set_insert iface_set.set_set_erase
        iface_set.ordered_set_erase)
  then show ?case using Cons.IH [OF ord] Cons.prems(2) by auto
qed simp

lemma narrowed_ip [simp]: "ip_addr (narrowed i) = ip_addr i"
  by (simp add: narrowed_def)

text \<open>
  C11. What one end of a multisocket announces is what the other end learns: the greeting and the
  interfaces written by the connecting end, read by the accepting end, leave it with the port of the
  connecting end's listener, with its redundancy strategy, and with its interfaces in place of those
  it knew under the same addresses, their numbers cut to 32 bits; nothing that follows on the socket
  is read.
\<close>

theorem greeting_reaches_the_peer:
  assumes "\<forall>n. writes n" and "bt_listener c = Some port" and "bt_out c = []"
    and "\<forall>i\<in>set (local_ifaces (bt_sk c)). ip_addr i \<noteq> 0" and "iface_set.ordered (local_ifaces (bt_sk c))"
    and "accepting_side (bt_sk s)" and "iface_set.ordered (remote_ifaces (bt_sk s))"
    and "redundancy_strategy_type (bt_sk c) \<in> {INTNW_NEVER_REDUNDANT, ALWAYS_REDUNDANT, CELLULAR_ONLY, WIFI_PREFERRED}"
    and "bindB (send_hello writes c) (\<lambda>_. send_local_listeners writes) = Inr (Finished (), c')"
    and "bt_in s = bt_out c' @ rest"
  shows "\<exists>n s'. bindB (recv_hello s) (\<lambda>n b. bindB (recv_remote_listeners b) (\<lambda>_ b. Inr (Finished n, b))) = Inr (Finished n, s') \<and>
    bt_in s' = rest \<and> remote_listener_port (bt_sk s') = port \<and>
    redundancy_strategy_type (bt_sk s') = redundancy_strategy_type (bt_sk c) \<and>
    set (remote_ifaces (bt_sk s')) = narrowed ` set (local_ifaces (bt_sk c)) \<union>
      {x \<in> set (remote_ifaces (bt_sk s)). ip_addr x \<notin> ip_addr ` set (local_ifaces (bt_sk c))}"
proof -
  let ?L = "local_ifaces (bt_sk c)"
  define t where "t = redundancy_strategy_type (bt_sk c)"
  have out: "bt_out c' = hello_msg port (bt_sk c) # listener_msgs ?L"
    using assms(1-3,9) by (auto simp: send_hello_def send_hdr_def send_local_listeners_def send_listeners_all)
  have t: "to_int (ntohl (htonl t)) = t" "\<exists>ch. create_chooser t = Inr (Some ch)"
    using assms(8) by (auto simp: t_def create_chooser_def create_strategy_def INTNW_NEVER_REDUNDANT_def
      INTNW_REDUNDANT_def ALWAYS_REDUNDANT_def CELLULAR_ONLY_def WIFI_PREFERRED_def)
  define sk1 where "sk1 = (bt_sk s)\<lparr>remote_listener_port := port\<rparr>"
  obtain ch where ch: "create_chooser t = Inr (Some ch)" using t(2) by blast
  define b1 where "b1 = s\<lparr>bt_in := listener_msgs ?L @ rest, bt_sk := sk1\<lparr>network_chooser_of := ch, redundancy_strategy_type := t\<rparr>\<rparr>"
  obtain n where "recv_hello s = Inr (Finished n, b1)"
    using assms(6,10) out t(1) ch
    by (auto simp: recv_hello_def recv_hdr_def hello_msg_def get_redundancy_strategy_def set_redundancy_strategy_def
        b1_def sk1_def t_def)
  moreover have "recv_remote_listeners b1 = Inr (Finished (), b1\<lparr>bt_in := rest, bt_sk := (bt_sk b1)\<lparr>remote_ifaces :=
    fold renewed (map narrowed ?L) (remote_ifaces (bt_sk b1))\<rparr>\<rparr>)"
    using assms(4,6) by (intro recv_listeners_all) (simp_all add: b1_def sk1_def)
  moreover have "distinct (map ip_addr (map narrowed ?L))"
    using assms(5) strict_sorted_iff by (auto simp: iface_set.ordered_def comp_def simp flip: sorted_wrt_map)
  ultimately show ?thesis
    using renewed_all [OF assms(7), of "map narrowed ?L"] by (auto simp: b1_def sk1_def t_def image_comp)
qed

section \<open>An example\<close>

text \<open>A multisocket with two interfaces that connects, and one that accepts.\<close>

definition demo_ifaces :: "net_interface list" where
  "demo_ifaces = [\<lparr>ip_addr = 1, bandwidth_down = 2 ^ 32 + 7, bandwidth_up = 100, RTT = 10, type = 1\<rparr>,
     \<lparr>ip_addr = 2, bandwidth_down = 50, bandwidth_up = 50, RTT = 80, type = 2\<rparr>]"

definition demo_client :: boot where
  "demo_client = \<lparr>bt_sk = (new_msocket 5 Map.empty [])\<lparr>local_ifaces := demo_ifaces\<rparr>, bt_listener = Some 42424, bt_in = [], bt_out = []\<rparr>"

definition demo_server :: boot where
  "demo_server = \<lparr>bt_sk = (new_msocket 6 Map.empty [])\<lparr>accepting_side := True\<rparr>, bt_listener = Some 42425,
     bt_in = hello_msg 42424 (bt_sk demo_client) # listener_msgs demo_ifaces, bt_out = []\<rparr>"

lemmas demo_boot_defs = demo_ifaces_def demo_client_def demo_server_def new_msocket_def

text \<open>Witness: the two interfaces arrive, the bandwidth of the first without its upper bits.\<close>

theorem greeting_reaches_the_peer_witness:
  "\<exists>n s'. bindB (recv_hello demo_server) (\<lambda>n b. bindB (recv_remote_listeners b) (\<lambda>_ b. Inr (Finished n, b))) = Inr (Finished n, s') \<and>
    bt_in s' = [] \<and> remote_listener_port (bt_sk s') = 42424 \<and>
    set (remote_ifaces (bt_sk s')) = narrowed ` set demo_ifaces \<and> (demo_ifaces ! 0)\<lparr>bandwidth_down := 7\<rparr> \<in> narrowed ` set demo_ifaces"
proof -
  let ?w = "\<lambda>n :: nat. True" and ?L = "local_ifaces (bt_sk demo_client)"
  define c' where "c' = demo_client\<lparr>bt_out := hello_msg 42424 (bt_sk demo_client) # listener_msgs demo_ifaces\<rparr>"
  have sent: "bindB (send_hello ?w demo_client) (\<lambda>_. send_local_listeners ?w) = Inr (Finished (), c')"
    by (simp add: send_hello_def send_hdr_def send_local_listeners_def send_listeners_all c'_def demo_client_def)
  have ok: "\<forall>i\<in>set ?L. ip_addr i \<noteq> 0" "iface_set.ordered ?L" "iface_set.ordered (remote_ifaces (bt_sk demo_server))"
    by (simp_all add: demo_boot_defs iface_set.ordered_def)
  have "narrowed (demo_ifaces ! 0) = (demo_ifaces ! 0)\<lparr>bandwidth_down := 7\<rparr>"
    by (simp add: demo_ifaces_def narrowed_def take_bit_eq_mod) 
  moreover have "demo_ifaces ! 0 \<in> set demo_ifaces" by (simp add: demo_ifaces_def)
  ultimately have "(demo_ifaces ! 0)\<lparr>bandwidth_down := 7\<rparr> \<in> narrowed ` set demo_ifaces" by (metis imageI)
  then show ?thesis
    using greeting_reaches_the_peer [OF _ _ _ ok(1,2) _ ok(3) _ sent, where rest = "[]" and port = 42424]
    by (simp add: demo_client_def demo_server_def new_msocket_def c'_def) blast
qed

section \<open>Failures of the bootstrapper\<close>

lemma run_thrown:
  assumes "attempt_body env bs b = Inr (Some (Thrown rc), bs1, b1)" and "\<not> retry bs1"
  shows "bs_run True (env # envs) bs b = Inr (Ended, bs_finish ((after_failure bs1)\<lparr>write_ready := True\<rparr>), b1)"
  using assms by (simp add: after_failure_def Let_def)

text \<open>
  A handshake that fails leaves the multisocket connecting forever: when the exchange with the
  peer throws and no interface has gone away, the bootstrapper ends with its status still
  \<^verbatim>\<open>EINPROGRESS\<close>, on either side, so that it never counts as done and a further \<^verbatim>\<open>mc_connect\<close> is told
  that a connection is on its way. Only a failing \<^verbatim>\<open>bind\<close> or \<^verbatim>\<open>connect\<close> is reported as refused.
\<close>

theorem failed_handshake_looks_pending:
  assumes "b_down env = []" and "0 \<le> b_socket env" and "local_ifaces (bt_sk b) \<noteq> []"
    and "b_bind env = None" and "b_connect env = None"
    and "b0 = b\<lparr>bt_in := b_arrives env, bt_out := []\<rparr>"
    and "s = -1 \<and> connect_handshake env b0 = Inr (Thrown rc, b1) \<or> s \<noteq> -1 \<and> accept_handshake env b0 = Inr (Thrown rc, b1)"
  shows "(\<exists>bs. bs_run True (env # envs) (new_bootstrapper s) b = Inr (Ended, bs, b1) \<and>
      \<not> bs_done bs \<and> \<not> succeeded bs \<and> write_ready bs \<and>
      (\<forall>cn cenv. mc_connect cenv addr (with_boot bs (bt_sk b1) cn) =
         Inr (ConnReturns CMM_FAILED (Some EALREADY), with_boot bs (bt_sk b1) cn))) \<and>
    (\<exists>bs. bs_run True (env\<lparr>b_connect := Some err\<rparr> # envs) (new_bootstrapper (-1)) b = Inr (Ended, bs, b0) \<and>
      (err \<noteq> EINPROGRESS \<longrightarrow> bs_status bs = ECONNREFUSED))"
proof -
  let ?bs1 = "(new_bootstrapper s)\<lparr>bootstrap_sock := if s = -1 then b_socket env else s\<rparr>"
  have "attempt_body env (new_bootstrapper s) b = Inr (Some (Thrown rc), ?bs1, b1)"
    using assms by (auto simp: attempt_body_def connect_attempt_def new_bootstrapper_def Let_def)
  from run_thrown [OF this, of envs] have run: "bs_run True (env # envs) (new_bootstrapper s) b =
      Inr (Ended, bs_finish (?bs1\<lparr>write_ready := True\<rparr>), b1)"
    by (simp add: after_failure_def new_bootstrapper_def)
  let ?env = "env\<lparr>b_connect := Some err\<rparr>" and ?bs2 = "(new_bootstrapper (-1))\<lparr>bootstrap_sock := b_socket env, bs_status := err\<rparr>"
  have "attempt_body ?env (new_bootstrapper (-1)) b = Inr (Some (Thrown (-1)), ?bs2, b0)"
    using assms(1-4,6) by (simp add: attempt_body_def connect_attempt_def new_bootstrapper_def Let_def)
  from run_thrown [OF this, of envs] have "bs_run True (?env # envs) (new_bootstrapper (-1)) b =
      Inr (Ended, bs_finish ((after_failure ?bs2)\<lparr>write_ready := True\<rparr>), b0)"
    by (simp add: new_bootstrapper_def)
  moreover have "bs_status (bs_finish ((after_failure ?bs2)\<lparr>write_ready := True\<rparr>)) = ECONNREFUSED" if "err \<noteq> EINPROGRESS"
    using that by (simp add: after_failure_def new_bootstrapper_def bs_finish_def)
  moreover have "mc_connect cenv addr (with_boot (bs_finish (?bs1\<lparr>write_ready := True\<rparr>)) (bt_sk b1) cn) =
      Inr (ConnReturns CMM_FAILED (Some EALREADY), with_boot (bs_finish (?bs1\<lparr>write_ready := True\<rparr>)) (bt_sk b1) cn)" for cn cenv
    by (simp add: mc_connect_def with_boot_def bs_finish_def new_bootstrapper_def EINPROGRESS_def)
  ultimately show ?thesis
    using run by (auto simp: bs_done_def succeeded_def bs_finish_def new_bootstrapper_def EINPROGRESS_def)
qed

text \<open>
  A bootstrapper whose interface goes away after its handshake has succeeded runs once more, and
  because its socket is still there it does so as if it were accepting a connection: on the socket
  that has been shut down nothing arrives, and the connected multisocket ends as refused.
\<close>

lemma late_restart_undoes_connection:
  assumes "connect_attempt env ((new_bootstrapper (-1))) (b\<lparr>bt_in := b_arrives env, bt_out := []\<rparr>) =
      Inr (Some (Finished ()), (new_bootstrapper (-1))\<lparr>bootstrap_sock := b_socket env\<rparr>, b1)"
    and "b_socket env \<noteq> -1" and "\<not> accepting_side (bt_sk b1)"
    and "b_down env = [down]" and "b_bound env = Some (ip_addr down)"
    and "b_arrives env2 = []" and "b_down env2 = []"
  shows "\<exists>bs. bs_run True [env, env2] (new_bootstrapper (-1)) b = Inr (Ended, bs, b1\<lparr>bt_in := [], bt_out := []\<rparr>) \<and>
    bs_status bs = ECONNREFUSED"
proof -
  have first: "attempt_body env (new_bootstrapper (-1)) b =
      Inr (Some (Finished ()), (new_bootstrapper (-1))\<lparr>bootstrap_sock := b_socket env, retry := True\<rparr>, b1)"
    using assms(1-5) by (simp add: attempt_body_def new_bootstrapper_def restart_def)
  let ?bs = "(new_bootstrapper (-1))\<lparr>bootstrap_sock := b_socket env, retry := True, bs_status := 0\<rparr>"
  have "accept_handshake env2 (b1\<lparr>bt_in := [], bt_out := []\<rparr>) = Inr (Thrown (-1), b1\<lparr>bt_in := [], bt_out := []\<rparr>)"
    by (simp add: accept_handshake_def recv_hello_def recv_hdr_def)
  then have "attempt_body env2 ?bs b1 = Inr (Some (Thrown (-1)), ?bs\<lparr>retry := False\<rparr>, b1\<lparr>bt_in := [], bt_out := []\<rparr>)"
    using assms(2,6,7) by (simp add: attempt_body_def new_bootstrapper_def)
  from run_thrown [OF this, of "[]"] show ?thesis
    using first by (simp add: after_failure_def bs_finish_def new_bootstrapper_def EINPROGRESS_def)
qed

definition demo_silent :: boot_env where
  "demo_silent = \<lparr>b_sys = \<lparr>alloc = \<lambda>_. None, unsent_bytes = \<lambda>_. 0, breq = 0, stats_update = \<lambda>_ c. c\<rparr>, b_socket = 9,
     b_bind = None, b_connect = None, b_arrives = [], b_writes = \<lambda>_. True, b_ready = \<lambda>sk. sk, b_bound = Some 1, b_down = []\<rparr>"

text \<open>Witness: the peer accepts the connection and closes it without a greeting.\<close>

theorem failed_handshake_looks_pending_witness:
  "\<exists>bs b1. bs_run True [demo_silent] (new_bootstrapper (-1)) demo_client = Inr (Ended, bs, b1) \<and> \<not> bs_done bs \<and> write_ready bs"
proof -
  let ?b0 = "demo_client\<lparr>bt_in := b_arrives demo_silent, bt_out := []\<rparr>"
  have "\<exists>b1. connect_handshake demo_silent ?b0 = Inr (Thrown (-1), b1)"
    by (simp add: connect_handshake_def send_hello_def send_hdr_def recv_hello_def recv_hdr_def demo_silent_def demo_client_def)
  then obtain b1 where "connect_handshake demo_silent ?b0 = Inr (Thrown (-1), b1)" by blast
  then show ?thesis
    using failed_handshake_looks_pending [of demo_silent demo_client ?b0 "-1" "-1" b1 "[]" None 0]
    by (auto simp: demo_silent_def demo_client_def demo_ifaces_def)
qed

end
