(* ===== verification/Scout.thy ===== *)
theory Scout
  imports Bootstrap Timeops
begin

text \<open>
  scout/libcmm_scout.cpp: the process that knows the network interfaces of the host and tells the
  applications about them. One thread (\<^verbatim>\<open>IPC_Listener\<close>) accepts subscriptions and notices
  when subscribers go away; the other one changes the table of interfaces and notifies the
  subscribers. The local sockets between the scout and the applications are part of the state: what
  has been written to each, and whether the other end is still open; a write of a whole message
  succeeds while it is, and fails otherwise. Which descriptors \<^verbatim>\<open>select\<close> reports, what \<^verbatim>\<open>accept\<close>
  returns and what is read from a new connection are arguments. The functions are composed from
  the stretches of code between which the other thread can run.
\<close>

section \<open>Messages and state\<close>

datatype MsgOpcode =
    CMM_MSG_SUBSCRIBE
  | CMM_MSG_UNSUBSCRIBE
  | CMM_MSG_IFACE_LABELS
  | CMM_MSG_IFACE_DOWN
  | CMM_MSG_GET_IFACES
  | CMM_MSG_IS_IP_CONNECTED

record cmm_msg =
  opcode :: MsgOpcode
  msg_rc :: int
  msg_pid :: int
  msg_iface :: net_interface

text \<open>\<^verbatim>\<open>memset\<close> of an interface; \<^verbatim>\<open>get_local_interfaces\<close> takes it as the end of the list.\<close>

definition sentinel :: net_interface where
  "sentinel = \<lparr>ip_addr = 0, bandwidth_down = 0, bandwidth_up = 0, RTT = 0, type = 0\<rparr>"

record ipc_chan =
  ch_sent :: "cmm_msg list"
  ch_open :: bool

record subscriber_proc =
  ipc_sock :: int
  sub_pid :: int

text \<open>\<^verbatim>\<open>net_interfaces\<close> is a map by address whose values carry their key, kept as the ordered list of
  its values; \<^verbatim>\<open>subscriber_procs\<close> is ordered by descriptor. \<open>listening\<close> says that the
  thread \<^verbatim>\<open>IPC_Listener\<close> is in its loop.\<close>

record scout =
  net_interfaces :: "net_interface list"
  subscriber_procs :: "(int \<times> subscriber_proc) list"
  sc_running :: bool
  listening :: bool
  scout_control_ipc_sock :: int
  active_fds :: "int set"
  maxfd :: int
  sc_chans :: "int \<Rightarrow> ipc_chan option"

section \<open>Notifications\<close>

definition ipc_write :: "int \<Rightarrow> cmm_msg \<Rightarrow> scout \<Rightarrow> bool \<times> scout" where
  "ipc_write fd msg s =
     (case sc_chans s fd of
        None \<Rightarrow> (False, s)
      | Some c \<Rightarrow> if ch_open c then (True, s\<lparr>sc_chans := (sc_chans s)(fd \<mapsto> c\<lparr>ch_sent := ch_sent c @ [msg]\<rparr>)\<rparr>)
                  else (False, s))"

definition close_fd :: "int \<Rightarrow> scout \<Rightarrow> scout" where
  "close_fd fd s = s\<lparr>sc_chans := (sc_chans s)(fd := None)\<rparr>"

definition event_msg :: "net_interface \<Rightarrow> MsgOpcode \<Rightarrow> cmm_msg" where
  "event_msg iface op = \<lparr>opcode = op, msg_rc = 0, msg_pid = 0, msg_iface = iface\<rparr>"

definition notify_subscriber_of_event :: "int \<Rightarrow> net_interface \<Rightarrow> MsgOpcode \<Rightarrow> scout \<Rightarrow> bool \<times> scout" where
  "notify_subscriber_of_event fd iface op s = ipc_write fd (event_msg iface op) s"

text \<open>A loop that ends at the first failure.\<close>

fun notify_loop :: "int \<Rightarrow> MsgOpcode \<Rightarrow> net_interface list \<Rightarrow> scout \<Rightarrow> bool \<times> scout" where
  "notify_loop fd op [] s = (True, s)"
| "notify_loop fd op (i # is) s =
     (let (ok, s1) = notify_subscriber_of_event fd i op s in if ok then notify_loop fd op is s1 else (False, s1))"

definition notify_subscriber :: "int \<Rightarrow> net_interface list \<Rightarrow> net_interface list \<Rightarrow> scout \<Rightarrow> bool \<times> scout" where
  "notify_subscriber fd changed down s =
     (let (ok, s1) = notify_loop fd CMM_MSG_IFACE_LABELS changed s
      in if ok then notify_loop fd CMM_MSG_IFACE_DOWN down s1 else (False, s1))"

definition init_subscriber :: "int \<Rightarrow> scout \<Rightarrow> bool \<times> scout" where
  "init_subscriber fd s = notify_subscriber fd (net_interfaces s) [] s"

definition sub_erase :: "int \<Rightarrow> scout \<Rightarrow> scout" where
  "sub_erase k s = s\<lparr>subscriber_procs := filter (\<lambda>e. fst e \<noteq> k) (subscriber_procs s)\<rparr>"

definition remove_subscriber :: "int \<Rightarrow> scout \<Rightarrow> scout" where
  "remove_subscriber k s =
     (case map_of (subscriber_procs s) k of
        None \<Rightarrow> s
      | Some sub \<Rightarrow> sub_erase k (close_fd (ipc_sock sub) s))"

text \<open>\<^verbatim>\<open>notify_all_subscribers\<close>: the iteration takes no locks; those that could not be notified are
  removed afterwards.\<close>

fun notify_each ::
    "(int \<times> subscriber_proc) list \<Rightarrow> net_interface list \<Rightarrow> net_interface list \<Rightarrow> scout \<Rightarrow> int list \<times> scout" where
  "notify_each [] changed down s = ([], s)"
| "notify_each ((k, sub) # subs) changed down s =
     (let (ok, s1) = notify_subscriber (ipc_sock sub) changed down s;
          (failed, s2) = notify_each subs changed down s1
      in (if ok then failed else k # failed, s2))"

definition notify_all_subscribers :: "net_interface list \<Rightarrow> net_interface list \<Rightarrow> scout \<Rightarrow> scout" where
  "notify_all_subscribers changed down s =
     (let (failed, s1) = notify_each (subscriber_procs s) changed down s in fold remove_subscriber failed s1)"

section \<open>Changes of the interfaces\<close>

text \<open>The assignment \<^verbatim>\<open>net_interfaces[ip] = iface\<close> and the erasure, under \<^verbatim>\<open>ifaces_lock\<close>; then, without the
  lock, the notification. \<^verbatim>\<open>updateNetwork\<close>, the commands of the control socket and the loop that takes
  the background interface up and down all have this form.\<close>

definition set_iface :: "net_interface \<Rightarrow> bool \<Rightarrow> scout \<Rightarrow> scout" where
  "set_iface iface down s =
     s\<lparr>net_interfaces := (if down then iface_erase iface (net_interfaces s) else renewed iface (net_interfaces s))\<rparr>"

definition announce :: "net_interface \<Rightarrow> bool \<Rightarrow> scout \<Rightarrow> scout" where
  "announce iface down s = notify_all_subscribers (if down then [] else [iface]) (if down then [iface] else []) s"

text \<open>\<open>addr\<close> is what \<^verbatim>\<open>inet_aton\<close> makes of the string with the address.\<close>

definition updateNetwork ::
    "in_addr_t option \<Rightarrow> u_long \<Rightarrow> u_long \<Rightarrow> u_long \<Rightarrow> bool \<Rightarrow> 32 word \<Rightarrow> scout \<Rightarrow> scout" where
  "updateNetwork addr bw_down bw_up rtt down networkType s =
     (case addr of
        None \<Rightarrow> s
      | Some a \<Rightarrow>
          (let iface = \<lparr>ip_addr = a, bandwidth_down = bw_down, bandwidth_up = bw_up, RTT = rtt, type = networkType\<rparr>
           in announce iface down (set_iface iface down s)))"

definition socket_command :: "string \<Rightarrow> net_interface \<Rightarrow> scout \<Rightarrow> scout" where
  "socket_command cmd bg s =
     (if cmd = ''bg_down'' then announce bg True (set_iface bg True s)
      else if cmd = ''bg_up'' then announce bg False (set_iface bg False s)
      else s)"

text \<open>One round of the loop with given times: \<open>awake\<close> says whether the scout is still running after
  the first sleep.\<close>

definition up_down_round :: "bool \<Rightarrow> net_interface \<Rightarrow> scout \<Rightarrow> scout" where
  "up_down_round awake bg s =
     (let s1 = announce bg False (set_iface bg False s)
      in if awake then announce bg True (set_iface bg True s1) else s1\<lparr>sc_running := False\<rparr>)"

section \<open>Replaying a trace\<close>

record trace_slice =
  ts_start :: timeval
  wifi_bw_down :: u_long
  wifi_bw_up :: u_long
  wifi_RTT :: u_long
  cellular_bw_down :: u_long
  cellular_bw_up :: u_long
  cellular_RTT :: u_long
  gps_lat :: u_long
  gps_long :: u_long
  wifi_rssi :: u_long

text \<open>\<^verbatim>\<open>ntohl\<close> of a 64-bit field keeps the bytes of its low half only.\<close>

definition ntohl_word :: "u_long \<Rightarrow> u_long" where
  "ntohl_word w = word_of_int (ntohl (uint w))"

definition ntohl_time :: "timeval \<Rightarrow> timeval" where
  "ntohl_time t = tv (ntohl (tv_sec t)) (ntohl (subsec t))"

definition ntohl_all :: "trace_slice \<Rightarrow> trace_slice" where
  "ntohl_all sl =
     \<lparr>ts_start = ntohl_time (ts_start sl), wifi_bw_down = ntohl_word (wifi_bw_down sl), wifi_bw_up = ntohl_word (wifi_bw_up sl),
      wifi_RTT = ntohl_word (wifi_RTT sl), cellular_bw_down = ntohl_word (cellular_bw_down sl),
      cellular_bw_up = ntohl_word (cellular_bw_up sl), cellular_RTT = ntohl_word (cellular_RTT sl),
      gps_lat = ntohl_word (gps_lat sl), gps_long = ntohl_word (gps_long sl), wifi_rssi = ntohl_word (wifi_rssi sl)\<rparr>"

text \<open>\<^verbatim>\<open>get_trace\<close>: the number of slices and the slices as they are received; \<open>None\<close> is a read that fails or
  is short. \<open>FatalError\<close> stands for the exit of the process.\<close>

fun get_slices :: "nat \<Rightarrow> timeval \<Rightarrow> timeval \<Rightarrow> trace_slice option list \<Rightarrow> trace_slice list result" where
  "get_slices 0 trace_start prev rs = Inr []"
| "get_slices (Suc n) trace_start prev [] = Inl FatalError"
| "get_slices (Suc n) trace_start prev (None # rs) = Inl FatalError"
| "get_slices (Suc n) trace_start prev (Some r # rs) =
     (let sl = ntohl_all r
      in if tv_sec (ts_start sl) < 0 then Inl FatalError
         else if tv_sec trace_start = -1
         then bindE (get_slices n (ts_start sl) prev rs) (\<lambda>t. Inr (sl\<lparr>ts_start := tv 0 0\<rparr> # t))
         else let st = timersub MAX_USECS (ts_start sl) trace_start
              in if \<not> timer_less prev st then Inl FatalError
                 else bindE (get_slices n trace_start st rs) (\<lambda>t. Inr (sl\<lparr>ts_start := st\<rparr> # t)))"

definition get_trace :: "int option \<Rightarrow> trace_slice option list \<Rightarrow> trace_slice list result" where
  "get_trace num rs =
     (case num of
        None \<Rightarrow> Inl FatalError
      | Some x \<Rightarrow>
          (let trace_size = to_int (ntohl x)
           in if trace_size \<le> 0 then Inl FatalError else get_slices (nat trace_size) (tv (-1) 0) (tv 0 0) rs))"

text \<open>\<^verbatim>\<open>emulate_slice\<close>; \<open>emu\<close> is the start that the emulation box sends. Its argument \<^verbatim>\<open>end\<close>, the start of
  the next slice, is only printed and compared with \<open>-1\<close>.\<close>

definition slice_ifaces :: "trace_slice \<Rightarrow> net_interface \<Rightarrow> net_interface \<Rightarrow> net_interface \<times> net_interface" where
  "slice_ifaces sl cellular wifi =
     (cellular\<lparr>bandwidth_down := cellular_bw_down sl, bandwidth_up := cellular_bw_up sl, RTT := cellular_RTT sl\<rparr>,
      wifi\<lparr>bandwidth_down := wifi_bw_down sl, bandwidth_up := wifi_bw_up sl, RTT := wifi_RTT sl\<rparr>)"

definition emulate_slice ::
    "trace_slice \<Rightarrow> timeval option \<Rightarrow> net_interface \<Rightarrow> net_interface \<Rightarrow> scout \<Rightarrow> scout result" where
  "emulate_slice sl emu cellular wifi s =
     (case emu of
        None \<Rightarrow> if sc_running s then Inl FatalError else Inr s
      | Some t \<Rightarrow>
          if ntohl_time t \<noteq> ts_start sl then Inr (s\<lparr>sc_running := False\<rparr>)
          else
            (let (c, w) = slice_ifaces sl cellular wifi;
                 gone = bandwidth_up w = 0 \<and> (\<exists>i\<in>set (net_interfaces s). ip_addr i = ip_addr w);
                 s1 = (if bandwidth_up w = 0 then if gone then set_iface w True s else s else set_iface w False s);
                 s2 = set_iface c False s1
             in Inr (notify_all_subscribers (if bandwidth_up w = 0 then [c] else [w, c]) (if gone then [w] else []) s2)))"

text \<open>A round of the main loop when a trace is replayed, with \<^verbatim>\<open>cur_trace_slice\<close>.\<close>

definition replay_round ::
    "trace_slice list \<Rightarrow> timeval option \<Rightarrow> net_interface \<Rightarrow> net_interface \<Rightarrow> nat \<times> scout \<Rightarrow> (nat \<times> scout) result" where
  "replay_round trace emu cellular wifi = (\<lambda>(cur, s).
     if cur + 1 = length trace then Inr (0, s)
     else ASSERT (cur + 1 < length trace)
            (bindE (emulate_slice (trace ! cur) emu cellular wifi s) (\<lambda>s. Inr (cur + 1, s))))"

section \<open>The listener\<close>

text \<open>Only the type of the interface is looked at, and it does not matter.\<close>

definition is_network_usable :: "net_interface \<Rightarrow> int" where
  "is_network_usable iface = 1"

text \<open>A subscription. The lookup is by process id, although the table is by descriptor; a new entry
  has the descriptor 0 until the table of interfaces has been written to the new connection. The result
  is the key of the entry.\<close>

definition sub_put :: "int \<Rightarrow> subscriber_proc \<Rightarrow> scout \<Rightarrow> scout" where
  "sub_put k sub s = s\<lparr>subscriber_procs := insort_key fst (k, sub) (filter (\<lambda>e. fst e \<noteq> k) (subscriber_procs s))\<rparr>"

definition subscribe_enter :: "int \<Rightarrow> int \<Rightarrow> scout \<Rightarrow> (int \<times> scout) result" where
  "subscribe_enter fd pid s =
     (case map_of (subscriber_procs s) pid of
        Some sub \<Rightarrow> Inr (pid, close_fd (ipc_sock sub) s)
      | None \<Rightarrow> ASSERT (map_of (subscriber_procs s) fd = None)
                  (Inr (fd, sub_put fd \<lparr>ipc_sock = 0, sub_pid = pid\<rparr> s)))"

definition subscribe_finish :: "int \<Rightarrow> int \<Rightarrow> net_interface list \<Rightarrow> scout \<Rightarrow> scout" where
  "subscribe_finish k fd up_ifaces s =
     (let (ok, s1) = notify_subscriber fd up_ifaces [] s
      in if \<not> ok then sub_erase k (close_fd fd s1)
         else (sub_put k ((the (map_of (subscriber_procs s1) k))\<lparr>ipc_sock := fd\<rparr>) s1)\<lparr>
                maxfd := max (maxfd s1) fd, active_fds := insert fd (active_fds s1)\<rparr>)"

definition subscribe :: "int \<Rightarrow> int \<Rightarrow> scout \<Rightarrow> scout result" where
  "subscribe fd pid s = bindE (subscribe_enter fd pid s) (\<lambda>(k, s1). Inr (subscribe_finish k fd (net_interfaces s1) s1))"

text \<open>What the first message on a new connection asks for.\<close>

definition answer_ifaces :: "int \<Rightarrow> scout \<Rightarrow> scout" where
  "answer_ifaces fd s =
     (let (ok, s1) = init_subscriber fd s
      in if ok then snd (notify_subscriber_of_event fd sentinel CMM_MSG_IFACE_LABELS s1) else s1)"

definition send_ifaces :: "int \<Rightarrow> scout \<Rightarrow> scout" where
  "send_ifaces fd s = close_fd fd (answer_ifaces fd s)"

definition ip_connected_reply :: "cmm_msg \<Rightarrow> scout \<Rightarrow> cmm_msg" where
  "ip_connected_reply msg s =
     msg\<lparr>msg_rc := (case find (\<lambda>i. ip_addr i = ip_addr (msg_iface msg)) (net_interfaces s) of
                        None \<Rightarrow> -1
                      | Some i \<Rightarrow> if ip_addr i = 0 then -1 else is_network_usable i)\<rparr>"

definition send_ip_connected :: "int \<Rightarrow> cmm_msg \<Rightarrow> scout \<Rightarrow> scout" where
  "send_ip_connected fd msg s = close_fd fd (snd (ipc_write fd (ip_connected_reply msg s) s))"

definition serve :: "int \<Rightarrow> cmm_msg \<Rightarrow> scout \<Rightarrow> scout result" where
  "serve fd msg s =
     (case opcode msg of
        CMM_MSG_GET_IFACES \<Rightarrow> Inr (send_ifaces fd s)
      | CMM_MSG_IS_IP_CONNECTED \<Rightarrow> Inr (send_ip_connected fd msg s)
      | _ \<Rightarrow> subscribe fd (msg_pid msg) s)"

text \<open>The loop over the descriptors, with the number of ready ones that are left. Whatever is read from a
  subscriber, it is removed.\<close>

fun fd_loop :: "int set \<Rightarrow> int list \<Rightarrow> nat \<Rightarrow> scout \<Rightarrow> scout result" where
  "fd_loop fds [] ready_fds s = Inr s"
| "fd_loop fds (x # xs) ready_fds s =
     (if ready_fds = 0 then Inr s
      else if x \<in> fds
      then ASSERT (map_of (subscriber_procs s) x \<noteq> None)
             (let s1 = remove_subscriber x s
              in fd_loop fds xs (ready_fds - 1) (s1\<lparr>active_fds := active_fds s1 - {x}\<rparr>))
      else fd_loop fds xs ready_fds s)"

datatype accept_result = AcceptFailed bool | Accepted int bool

text \<open>A round: the descriptors that \<^verbatim>\<open>select\<close> reports (\<open>None\<close>: it was interrupted), the result of
  \<^verbatim>\<open>accept\<close> (a failure with \<^verbatim>\<open>EINVAL\<close> or another one; a descriptor, and whether the other end is open), and
  the message read from the new connection, \<open>None\<close> when it is not whole.\<close>

record listener_env =
  selected :: "int list option"
  accepted :: accept_result
  first_msg :: "cmm_msg option"

text \<open>A descriptor of the set that has been closed, which \<^verbatim>\<open>select\<close> refuses.\<close>

definition stale :: "scout \<Rightarrow> bool" where
  "stale s \<longleftrightarrow> (\<exists>fd\<in>active_fds s - {scout_control_ipc_sock s}. sc_chans s fd = None)"

definition listener_exit :: "scout \<Rightarrow> scout" where
  "listener_exit s = (fold (\<lambda>e. close_fd (ipc_sock (snd e))) (subscriber_procs s) s)\<lparr>listening := False\<rparr>"

definition connected_at :: "int \<Rightarrow> bool \<Rightarrow> scout \<Rightarrow> scout" where
  "connected_at fd peer s = s\<lparr>sc_chans := (sc_chans s)(fd \<mapsto> \<lparr>ch_sent = [], ch_open = peer\<rparr>)\<rparr>"

definition all_fds :: "scout \<Rightarrow> int list" where
  "all_fds s = [0..maxfd s]"

definition listener_ready :: "listener_env \<Rightarrow> int list \<Rightarrow> scout \<Rightarrow> scout result" where
  "listener_ready env ready s =
     (let fds = set ready; n = length ready
      in if scout_control_ipc_sock s \<notin> fds then fd_loop fds (all_fds s) n s
         else case accepted env of
                AcceptFailed einval \<Rightarrow> if einval then Inr (listener_exit s) else fd_loop fds (all_fds s) (n - 1) s
              | Accepted fd peer \<Rightarrow>
                  (case first_msg env of
                     None \<Rightarrow> fd_loop fds (all_fds s) n s
                   | Some msg \<Rightarrow>
                       bindE (serve fd msg (connected_at fd peer s)) (\<lambda>s1. fd_loop fds (all_fds s1) (n - 1) s1)))"

definition IPC_round :: "listener_env \<Rightarrow> scout \<Rightarrow> scout result" where
  "IPC_round env s =
     (if \<not> listening s then Inr s
      else if \<not> sc_running s then Inr (listener_exit s)
      else if stale s then Inr (listener_exit (s\<lparr>sc_running := False\<rparr>))
      else case selected env of None \<Rightarrow> Inr s | Some ready \<Rightarrow> listener_ready env ready s)"

text \<open>The scout when its listener is ready: the interfaces given to it, and no subscribers.\<close>

definition scout_start :: "net_interface list \<Rightarrow> int \<Rightarrow> scout" where
  "scout_start ifs control =
     \<lparr>net_interfaces = fold renewed ifs [], subscriber_procs = [], sc_running = True, listening = True,
      scout_control_ipc_sock = control, active_fds = {control}, maxfd = control, sc_chans = Map.empty\<rparr>"

section \<open>What an application has been told\<close>

text \<open>The interfaces that follow from the messages on a connection, the last word on each address.\<close>

definition tell :: "cmm_msg \<Rightarrow> net_interface list \<Rightarrow> net_interface list" where
  "tell m known =
     (case opcode m of
        CMM_MSG_IFACE_LABELS \<Rightarrow> renewed (msg_iface m) known
      | CMM_MSG_IFACE_DOWN \<Rightarrow> iface_erase (msg_iface m) known
      | _ \<Rightarrow> known)"

definition told :: "cmm_msg list \<Rightarrow> net_interface list" where
  "told msgs = fold tell msgs []"

definition event_msgs :: "net_interface list \<Rightarrow> net_interface list \<Rightarrow> cmm_msg list" where
  "event_msgs changed down =
     map (\<lambda>i. event_msg i CMM_MSG_IFACE_LABELS) changed @ map (\<lambda>i. event_msg i CMM_MSG_IFACE_DOWN) down"

abbreviation sub_keys :: "scout \<Rightarrow> int set" where
  "sub_keys s \<equiv> fst ` set (subscriber_procs s)"

definition alive :: "scout \<Rightarrow> int \<Rightarrow> bool" where
  "alive s fd \<longleftrightarrow> (\<exists>c. sc_chans s fd = Some c \<and> ch_open c)"

definition deliver :: "cmm_msg list \<Rightarrow> ipc_chan \<Rightarrow> ipc_chan" where
  "deliver msgs c = c\<lparr>ch_sent := ch_sent c @ msgs\<rparr>"

text \<open>Everything written to a subscriber amounts to the table of interfaces; a descriptor in the set for
  \<^verbatim>\<open>select\<close> that belongs to no subscriber is closed.\<close>

definition sub_ok :: "scout \<Rightarrow> int \<times> subscriber_proc \<Rightarrow> bool" where
  "sub_ok s e \<longleftrightarrow> ipc_sock (snd e) = fst e \<and> fst e \<in> active_fds s \<and> fst e \<noteq> scout_control_ipc_sock s \<and>
     (\<exists>c. sc_chans s (fst e) = Some c \<and> told (ch_sent c) = net_interfaces s)"

definition scout_ok :: "scout \<Rightarrow> bool" where
  "scout_ok s \<longleftrightarrow> iface_set.ordered (net_interfaces s) \<and> distinct (map fst (subscriber_procs s)) \<and>
     (\<forall>e\<in>set (subscriber_procs s). sub_ok s e) \<and>
     scout_control_ipc_sock s \<in> active_fds s \<and> active_fds s \<subseteq> {0..maxfd s} \<and>
     (\<forall>fd\<in>active_fds s - {scout_control_ipc_sock s} - sub_keys s. sc_chans s fd = None)"

subsection \<open>Tables of interfaces\<close>

lemma iface_ordered_eq:
  assumes "iface_set.ordered xs" and "iface_set.ordered ys" and "set xs = set ys"
  shows "xs = ys"
proof -
  have s: "sorted_wrt (<) (map ip_addr zs)" if "iface_set.ordered zs" for zs
    using that by (simp add: iface_set.ordered_def sorted_wrt_map)
  have m: "map ip_addr xs = map ip_addr ys"
    by (rule strict_sorted_equal) (use s assms in \<open>auto simp: strict_sorted_iff\<close>)
  then have l: "length xs = length ys" by (metis length_map)
  moreover have "xs ! i = ys ! i" if "i < length xs" for i
  proof (rule iface_set.key_inj [OF assms(1)])
    show "xs ! i \<in> set xs" using that by (rule nth_mem)
    show "ys ! i \<in> set xs" unfolding assms(3) using that l by simp
    show "ip_addr (xs ! i) = ip_addr (ys ! i)" using m that l by (metis nth_map)
  qed
  ultimately show ?thesis by (rule nth_equalityI)
qed

lemma renewed_ordered: "iface_set.ordered is \<Longrightarrow> iface_set.ordered (renewed i is)"
  using renewed_all [of "is" "[i]"] by simp

lemma set_renewed: "iface_set.ordered is \<Longrightarrow> set (renewed i is) = insert i {x \<in> set is. ip_addr x \<noteq> ip_addr i}"
  using renewed_all [of "is" "[i]"] by auto

lemma iface_erase_ordered: "iface_set.ordered is \<Longrightarrow> iface_set.ordered (iface_erase i is)"
  by (simp add: iface_erase_def iface_set.ordered_set_erase)

lemma set_iface_erase: "iface_set.ordered is \<Longrightarrow> set (iface_erase i is) = {x \<in> set is. ip_addr x \<noteq> ip_addr i}"
  by (simp add: iface_erase_def iface_set.set_set_erase)

lemma ordered_addrs_distinct: "iface_set.ordered is \<Longrightarrow> distinct (map ip_addr is)"
  by (induction "is") (auto simp: iface_set.ordered_Cons)

lemma told_snapshot: "iface_set.ordered is \<Longrightarrow> fold renewed is [] = is"
  using renewed_all [of "[]" "is"] by (intro iface_ordered_eq) (simp_all add: ordered_addrs_distinct)

lemma erase_renewed_commute:
  "iface_set.ordered is \<Longrightarrow> ip_addr c \<noteq> ip_addr w \<Longrightarrow> iface_erase w (renewed c is) = renewed c (iface_erase w is)"
  by (intro iface_ordered_eq)
    (auto simp: renewed_ordered iface_erase_ordered set_renewed set_iface_erase)

lemma tell_event [simp]:
  "tell (event_msg i CMM_MSG_IFACE_LABELS) = renewed i"
  "tell (event_msg i CMM_MSG_IFACE_DOWN) = iface_erase i"
  by (rule ext; simp add: tell_def event_msg_def)+

lemma fold_tell_event_msgs: "fold tell (event_msgs changed down) known = fold iface_erase down (fold renewed changed known)"
  by (simp add: event_msgs_def fold_map o_def)

lemma told_append: "told (xs @ ys) = fold tell ys (told xs)"
  by (simp add: told_def)

lemma told_deliver: "told (ch_sent (deliver msgs c)) = fold tell msgs (told (ch_sent c))"
  by (simp add: deliver_def told_append)

subsection \<open>What the notifications do\<close>

lemma notify_loop_eq:
  "notify_loop fd op is s =
     (if alive s fd then (True, s\<lparr>sc_chans := (sc_chans s)(fd := map_option (deliver (map (\<lambda>i. event_msg i op) is)) (sc_chans s fd))\<rparr>)
      else (is = [], s))"
proof (induction "is" arbitrary: s)
  case Nil
  have "deliver [] = (\<lambda>c. c)" by (rule ext) (simp add: deliver_def)
  then show ?case by (simp add: option.map_ident)
next
  case (Cons i "is")
  have d: "deliver ys (deliver xs c) = deliver (xs @ ys) c" for xs ys c by (simp add: deliver_def)
  show ?case
  proof (cases "alive s fd")
    case True
    then obtain c where c: "sc_chans s fd = Some c" "ch_open c" by (auto simp: alive_def)
    let ?s1 = "s\<lparr>sc_chans := (sc_chans s)(fd \<mapsto> deliver [event_msg i op] c)\<rparr>"
    have "notify_subscriber_of_event fd i op s = (True, ?s1)"
      using c by (simp add: notify_subscriber_of_event_def ipc_write_def deliver_def)
    moreover have "alive ?s1 fd" using c by (simp add: alive_def deliver_def)
    ultimately show ?thesis using True Cons.IH [of ?s1] c(1) by (simp add: d)
  next
    case False
    then show ?thesis by (auto simp: alive_def notify_subscriber_of_event_def ipc_write_def split: option.splits)
  qed
qed

lemma notify_subscriber_eq:
  "notify_subscriber fd changed down s =
     (if alive s fd then (True, s\<lparr>sc_chans := (sc_chans s)(fd := map_option (deliver (event_msgs changed down)) (sc_chans s fd))\<rparr>)
      else (changed = [] \<and> down = [], s))"
  by (auto simp: notify_subscriber_def notify_loop_eq alive_def deliver_def event_msgs_def)

lemma notify_each_eq:
  assumes "\<forall>(k, sub)\<in>set subs. ipc_sock sub = k" and "distinct (map fst subs)"
  shows "notify_each subs changed down s =
     (if changed = [] \<and> down = [] then [] else filter (\<lambda>k. \<not> alive s k) (map fst subs),
      s\<lparr>sc_chans := \<lambda>fd. if fd \<in> fst ` set subs \<and> alive s fd then map_option (deliver (event_msgs changed down)) (sc_chans s fd)
                          else sc_chans s fd\<rparr>)"
  using assms
proof (induction subs arbitrary: s)
  case (Cons e subs)
  obtain k sub where e: "e = (k, sub)" by (cases e)
  let ?s1 = "snd (notify_subscriber k changed down s)"
  have alive: "alive ?s1 fd \<longleftrightarrow> alive s fd" for fd
    by (auto simp: notify_subscriber_eq alive_def deliver_def)
  have IH: "notify_each subs changed down ?s1 =
     (if changed = [] \<and> down = [] then [] else filter (\<lambda>k. \<not> alive s k) (map fst subs),
      ?s1\<lparr>sc_chans := \<lambda>fd. if fd \<in> fst ` set subs \<and> alive s fd then map_option (deliver (event_msgs changed down)) (sc_chans ?s1 fd)
                          else sc_chans ?s1 fd\<rparr>)"
    unfolding alive [symmetric] by (rule Cons.IH) (use Cons.prems e in auto)
  have "ipc_sock sub = k" "k \<notin> fst ` set subs" using Cons.prems e by auto
  moreover have "fst (notify_subscriber k changed down s) \<longleftrightarrow> alive s k \<or> changed = [] \<and> down = []"
    by (simp add: notify_subscriber_eq)
  moreover have "sc_chans ?s1 fd = (if fd = k \<and> alive s k then map_option (deliver (event_msgs changed down)) (sc_chans s k)
      else sc_chans s fd)" for fd
    by (simp add: notify_subscriber_eq)
  moreover have "?s1\<lparr>sc_chans := f\<rparr> = s\<lparr>sc_chans := f\<rparr>" for f by (simp add: notify_subscriber_eq)
  ultimately show ?case using IH by (auto simp: e Let_def split_beta fun_eq_iff intro!: arg_cong [where f = "\<lambda>f. s\<lparr>sc_chans := f\<rparr>"])
qed simp

lemma remove_all_eq:
  assumes "\<forall>(k, sub)\<in>set (subscriber_procs s). ipc_sock sub = k" and "distinct (map fst (subscriber_procs s))"
  shows "fold remove_subscriber vs s =
     s\<lparr>subscriber_procs := filter (\<lambda>e. fst e \<notin> set vs) (subscriber_procs s),
       sc_chans := \<lambda>fd. if fd \<in> set vs \<and> fd \<in> sub_keys s then None else sc_chans s fd\<rparr>"
  using assms
proof (induction vs arbitrary: s)
  case (Cons v vs)
  have r: "remove_subscriber v s = s\<lparr>subscriber_procs := filter (\<lambda>e. fst e \<noteq> v) (subscriber_procs s),
      sc_chans := \<lambda>fd. if fd = v \<and> fd \<in> sub_keys s then None else sc_chans s fd\<rparr>"
  proof (cases "map_of (subscriber_procs s) v")
    case None
    then have v: "v \<notin> sub_keys s" by (simp add: map_of_eq_None_iff)
    then have "filter (\<lambda>e. fst e \<noteq> v) (subscriber_procs s) = subscriber_procs s" by (auto simp: filter_id_conv)
    moreover have "(\<lambda>fd. if fd = v \<and> fd \<in> sub_keys s then None else sc_chans s fd) = sc_chans s" using v by auto
    ultimately show ?thesis using None by (simp add: remove_subscriber_def)
  next
    case (Some sub)
    then have "(v, sub) \<in> set (subscriber_procs s)" by (rule map_of_SomeD)
    then have "ipc_sock sub = v" "v \<in> sub_keys s" using Cons.prems by force+
    then show ?thesis using Some by (auto simp: remove_subscriber_def sub_erase_def close_fd_def fun_eq_iff)
  qed
  have "fold remove_subscriber vs (remove_subscriber v s) = (remove_subscriber v s)\<lparr>
      subscriber_procs := filter (\<lambda>e. fst e \<notin> set vs) (subscriber_procs (remove_subscriber v s)),
      sc_chans := \<lambda>fd. if fd \<in> set vs \<and> fd \<in> sub_keys (remove_subscriber v s) then None else sc_chans (remove_subscriber v s) fd\<rparr>"
    by (rule Cons.IH) (use Cons.prems in \<open>auto simp: r distinct_map_filter\<close>)
  moreover have "sub_keys (remove_subscriber v s) = sub_keys s - {v}" by (force simp: r)
  moreover have "sc_chans (remove_subscriber v s) fd = (if fd = v \<and> fd \<in> sub_keys s then None else sc_chans s fd)" for fd
    by (simp add: r)
  moreover have "(remove_subscriber v s)\<lparr>subscriber_procs := a, sc_chans := b\<rparr> = s\<lparr>subscriber_procs := a, sc_chans := b\<rparr>"
    "subscriber_procs (remove_subscriber v s) = filter (\<lambda>e. fst e \<noteq> v) (subscriber_procs s)" for a b
    by (simp_all add: r)
  ultimately show ?case
    by (auto simp: fun_eq_iff conj_commute intro!: arg_cong2 [where f = "\<lambda>a b. s\<lparr>subscriber_procs := a, sc_chans := b\<rparr>"])
qed (auto simp: fun_eq_iff)

lemma notify_all_eq:
  assumes "\<forall>(k, sub)\<in>set (subscriber_procs s). ipc_sock sub = k" and "distinct (map fst (subscriber_procs s))"
    and "changed \<noteq> [] \<or> down \<noteq> []"
  shows "notify_all_subscribers changed down s =
     s\<lparr>subscriber_procs := filter (\<lambda>e. alive s (fst e)) (subscriber_procs s),
       sc_chans := \<lambda>fd. if fd \<in> sub_keys s then if alive s fd then map_option (deliver (event_msgs changed down)) (sc_chans s fd) else None
                         else sc_chans s fd\<rparr>"
proof -
  let ?s1 = "snd (notify_each (subscriber_procs s) changed down s)"
  have e: "notify_each (subscriber_procs s) changed down s = (filter (\<lambda>k. \<not> alive s k) (map fst (subscriber_procs s)), ?s1)"
    and s1: "subscriber_procs ?s1 = subscriber_procs s"
    using notify_each_eq [OF assms(1,2), of changed down s] assms(3) by auto
  have "notify_all_subscribers changed down s = fold remove_subscriber (filter (\<lambda>k. \<not> alive s k) (map fst (subscriber_procs s))) ?s1"
    unfolding notify_all_subscribers_def by (subst e) simp
  also have "\<dots> = ?s1\<lparr>subscriber_procs := filter (\<lambda>e. fst e \<notin> set (filter (\<lambda>k. \<not> alive s k) (map fst (subscriber_procs s)))) (subscriber_procs ?s1),
       sc_chans := \<lambda>fd. if fd \<in> set (filter (\<lambda>k. \<not> alive s k) (map fst (subscriber_procs s))) \<and> fd \<in> sub_keys ?s1 then None else sc_chans ?s1 fd\<rparr>"
    by (rule remove_all_eq) (use assms in \<open>simp_all add: s1\<close>)
  also have "filter (\<lambda>e. fst e \<notin> set (filter (\<lambda>k. \<not> alive s k) (map fst (subscriber_procs s)))) (subscriber_procs ?s1) =
      filter (\<lambda>e. alive s (fst e)) (subscriber_procs s)"
    unfolding s1 by (intro filter_cong) auto
  finally show ?thesis using notify_each_eq [OF assms(1,2), of changed down s]
    by (auto simp: fun_eq_iff intro!: arg_cong2 [where f = "\<lambda>a b. s\<lparr>subscriber_procs := a, sc_chans := b\<rparr>"])
qed

subsection \<open>The steps keep the invariant\<close>

lemma scout_okD:
  assumes "scout_ok s"
  shows "\<forall>(k, sub)\<in>set (subscriber_procs s). ipc_sock sub = k" and "distinct (map fst (subscriber_procs s))"
    and "iface_set.ordered (net_interfaces s)" and "scout_control_ipc_sock s \<notin> sub_keys s"
    and "k \<in> sub_keys s \<Longrightarrow> \<exists>c. sc_chans s k = Some c \<and> told (ch_sent c) = net_interfaces s"
    and "k \<in> sub_keys s \<Longrightarrow> k \<in> active_fds s"
  using assms by (auto simp: scout_ok_def sub_ok_def)

lemma notify_ok:
  assumes "scout_ok s" and "N' = fold tell (event_msgs changed down) (net_interfaces s)" and "iface_set.ordered N'"
    and "changed \<noteq> [] \<or> down \<noteq> []"
  shows "scout_ok (notify_all_subscribers changed down (s\<lparr>net_interfaces := N'\<rparr>))"
proof -
  let ?s = "s\<lparr>net_interfaces := N'\<rparr>"
  let ?s' = "notify_all_subscribers changed down ?s"
  have al: "alive ?s fd = alive s fd" for fd by (simp add: alive_def)
  have eq: "?s' = ?s\<lparr>subscriber_procs := filter (\<lambda>e. alive s (fst e)) (subscriber_procs s),
       sc_chans := \<lambda>fd. if fd \<in> sub_keys s then if alive s fd then map_option (deliver (event_msgs changed down)) (sc_chans s fd) else None
                         else sc_chans s fd\<rparr>"
    using notify_all_eq [of ?s changed down] scout_okD(1,2) [OF assms(1)] assms(4) by (simp add: al cong: if_cong)
  have "sub_ok ?s' e" if "e \<in> set (subscriber_procs ?s')" for e
  proof -
    have e: "e \<in> set (subscriber_procs s)" "alive s (fst e)" "fst e \<in> sub_keys s" using that by (auto simp: eq)
    then have ok: "sub_ok s e" using assms(1) by (simp add: scout_ok_def)
    then obtain c where "sc_chans s (fst e) = Some c" "told (ch_sent c) = net_interfaces s" by (auto simp: sub_ok_def)
    then have "\<exists>c. sc_chans ?s' (fst e) = Some c \<and> told (ch_sent c) = net_interfaces ?s'"
      using e by (simp add: eq told_deliver assms(2) [symmetric])
    then show ?thesis using ok by (simp add: sub_ok_def eq)
  qed
  moreover have "\<forall>fd\<in>active_fds ?s' - {scout_control_ipc_sock ?s'} - sub_keys ?s'. sc_chans ?s' fd = None"
  proof
    fix fd
    assume fd: "fd \<in> active_fds ?s' - {scout_control_ipc_sock ?s'} - sub_keys ?s'"
    show "sc_chans ?s' fd = None"
    proof (cases "fd \<in> sub_keys s")
      case True
      then have "\<not> alive s fd" using fd by (force simp: eq)
      then show ?thesis using True by (simp add: eq)
    next
      case False
      then show ?thesis using fd assms(1) by (simp add: eq scout_ok_def)
    qed
  qed
  ultimately show ?thesis using assms(1,3) unfolding scout_ok_def by (auto simp: eq distinct_map_filter)
qed

lemma announce_ok: "scout_ok s \<Longrightarrow> scout_ok (announce i down (set_iface i down s))"
  unfolding announce_def set_iface_def
  by (cases down; simp; rule notify_ok)
    (simp_all add: fold_tell_event_msgs renewed_ordered iface_erase_ordered scout_okD(3))

lemma emulate_slice_ok:
  assumes "scout_ok s" and "ip_addr cellular \<noteq> ip_addr wifi" and "emulate_slice sl emu cellular wifi s = Inr s'"
  shows "scout_ok s'"
proof -
  obtain c w where cw: "slice_ifaces sl cellular wifi = (c, w)" by fastforce
  then have ip: "ip_addr c \<noteq> ip_addr w" using assms(2) by (auto simp: slice_ifaces_def)
  let ?gone = "bandwidth_up w = 0 \<and> (\<exists>i\<in>set (net_interfaces s). ip_addr i = ip_addr w)"
  have o: "iface_set.ordered (net_interfaces s)" by (rule scout_okD(3) [OF assms(1)])
  have "scout_ok (notify_all_subscribers (if bandwidth_up w = 0 then [c] else [w, c]) (if ?gone then [w] else [])
    (s\<lparr>net_interfaces := fold tell (event_msgs (if bandwidth_up w = 0 then [c] else [w, c]) (if ?gone then [w] else [])) (net_interfaces s)\<rparr>))"
    by (rule notify_ok [OF assms(1) refl]) (simp_all add: fold_tell_event_msgs o renewed_ordered iface_erase_ordered)
  moreover have "scout_ok (s\<lparr>sc_running := False\<rparr>)" using assms(1) by (simp add: scout_ok_def sub_ok_def)
  ultimately show ?thesis
    using assms(1,3) ip o
    by (auto simp: emulate_slice_def cw set_iface_def fold_tell_event_msgs erase_renewed_commute split: option.splits if_splits)
qed

text \<open>Steps that change one connection of nobody, or one subscriber.\<close>

lemma chans_ok:
  assumes "scout_ok s" and "fd \<notin> sub_keys s" and "fd \<in> active_fds s \<longrightarrow> fd = scout_control_ipc_sock s \<or> v = None"
  shows "scout_ok (s\<lparr>sc_chans := (sc_chans s)(fd := v)\<rparr>)"
proof -
  have "sub_ok (s\<lparr>sc_chans := (sc_chans s)(fd := v)\<rparr>) e" if "e \<in> set (subscriber_procs s)" for e
    using assms(1,2) that by (auto simp: scout_ok_def sub_ok_def)
  then show ?thesis using assms(1,3) by (auto simp: scout_ok_def)
qed

lemma remove_ok:
  assumes "scout_ok s" and "k \<in> sub_keys s"
  shows "scout_ok ((remove_subscriber k s)\<lparr>active_fds := active_fds (remove_subscriber k s) - {k}\<rparr>)"
    and "subscriber_procs (remove_subscriber k s) = filter (\<lambda>e. fst e \<noteq> k) (subscriber_procs s)"
proof -
  have r: "remove_subscriber k s = s\<lparr>subscriber_procs := filter (\<lambda>e. fst e \<noteq> k) (subscriber_procs s),
      sc_chans := (sc_chans s)(k := None)\<rparr>"
    using remove_all_eq [OF scout_okD(1,2) [OF assms(1)], of "[k]"] assms(2)
    by (auto simp: fun_eq_iff intro!: arg_cong [where f = "\<lambda>f. s\<lparr>subscriber_procs := _, sc_chans := f\<rparr>"])
  have "k \<noteq> scout_control_ipc_sock s" using scout_okD(4) [OF assms(1)] assms(2) by metis
  moreover have "sub_ok (s\<lparr>subscriber_procs := filter (\<lambda>e. fst e \<noteq> k) (subscriber_procs s),
      sc_chans := (sc_chans s)(k := None), active_fds := active_fds s - {k}\<rparr>) e"
    if "e \<in> set (subscriber_procs s)" "fst e \<noteq> k" for e
    using assms(1) that by (simp add: scout_ok_def sub_ok_def)
  moreover have "fst ` set (filter (\<lambda>e. fst e \<noteq> k) (subscriber_procs s)) = sub_keys s - {k}" by force
  ultimately show "scout_ok ((remove_subscriber k s)\<lparr>active_fds := active_fds (remove_subscriber k s) - {k}\<rparr>)"
    using assms(1) unfolding r scout_ok_def by (auto simp: distinct_map_filter simp del: set_filter) auto
  show "subscriber_procs (remove_subscriber k s) = filter (\<lambda>e. fst e \<noteq> k) (subscriber_procs s)" by (simp add: r)
qed

lemma fd_loop_ok: "scout_ok s \<Longrightarrow> fd_loop fds xs n s = Inr s' \<Longrightarrow> scout_ok s'"
proof (induction fds xs n s rule: fd_loop.induct)
  case (2 fds x xs n s)
  show ?case
  proof (cases "n \<noteq> 0 \<and> x \<in> fds")
    case True
    then have "map_of (subscriber_procs s) x \<noteq> None" using "2.prems"(2) by (simp add: ASSERT_eq_Inr)
    then have "x \<in> sub_keys s" by (auto simp: map_of_eq_None_iff)
    then show ?thesis using "2.IH"(1) remove_ok(1) [OF "2.prems"(1)] "2.prems"(2) True by (simp add: ASSERT_eq_Inr Let_def)
  next
    case False
    then show ?thesis using "2.IH"(2) "2.prems" by (auto split: if_splits)
  qed
qed simp

text \<open>Requests that are answered and closed leave nothing behind but the closed connection.\<close>

lemma send_ifaces_eq: "send_ifaces fd s = s\<lparr>sc_chans := (sc_chans s)(fd := None)\<rparr>"
  by (auto simp: send_ifaces_def answer_ifaces_def init_subscriber_def notify_subscriber_eq notify_subscriber_of_event_def ipc_write_def close_fd_def
      Let_def split: option.splits)

lemma send_ip_connected_eq: "send_ip_connected fd msg s = s\<lparr>sc_chans := (sc_chans s)(fd := None)\<rparr>"
  by (auto simp: send_ip_connected_def ipc_write_def close_fd_def split: option.splits)

text \<open>A subscription on a new connection; \<open>c\<close> is the connection with nothing written to it.\<close>

lemma subscribe_eq:
  assumes "sc_chans s fd = Some c" and "fd \<notin> sub_keys s" and "pid \<notin> sub_keys s"
  shows "subscribe fd pid s = Inr
    (if ch_open c \<or> net_interfaces s = []
     then s\<lparr>subscriber_procs := insort_key fst (fd, \<lparr>ipc_sock = fd, sub_pid = pid\<rparr>) (subscriber_procs s),
            sc_chans := (sc_chans s)(fd \<mapsto> if ch_open c then deliver (event_msgs (net_interfaces s) []) c else c),
            maxfd := max (maxfd s) fd, active_fds := insert fd (active_fds s)\<rparr>
     else s\<lparr>sc_chans := (sc_chans s)(fd := None)\<rparr>)"
proof -
  have f: "filter (\<lambda>e. fst e \<noteq> fd) (subscriber_procs s) = subscriber_procs s" using assms(2) by (force simp: filter_id_conv)
  have i: "filter (\<lambda>e. fst e \<noteq> fd) (insort_key fst (fd, x) (subscriber_procs s)) = subscriber_procs s" for x
  proof -
    have "filter (\<lambda>e. fst e \<noteq> fd) (insort_key fst (fd, x) xs) = filter (\<lambda>e. fst e \<noteq> fd) xs" for xs
      by (induction xs) auto
    then show ?thesis using f by simp
  qed
  have m: "map_of (insort_key fst (fd, x) (subscriber_procs s)) fd = Some x" for x
  proof -
    have "map_of (insort_key fst (fd, x) xs) fd = Some x" if "fd \<notin> fst ` set xs" for xs
      using that by (induction xs) auto
    then show ?thesis using assms(2) by simp
  qed
  have n: "map_of (subscriber_procs s) fd = None" "map_of (subscriber_procs s) pid = None"
    using assms(2,3) by (simp_all add: map_of_eq_None_iff)
  have u: "(sc_chans s)(fd \<mapsto> c) = sc_chans s" using assms(1) by (rule fun_upd_idem)
  show ?thesis
    by (auto simp: u subscribe_def subscribe_enter_def n sub_put_def f subscribe_finish_def notify_subscriber_eq alive_def assms(1)
        i m sub_erase_def close_fd_def)
qed

lemma subscribe_ok:
  assumes "scout_ok s" and "sc_chans s fd = Some \<lparr>ch_sent = [], ch_open = peer\<rparr>" and "fd \<notin> active_fds s" and "0 \<le> fd"
    and "pid \<notin> sub_keys s" and "subscribe fd pid s = Inr s'"
  shows "scout_ok s'"
proof -
  have fd: "fd \<notin> sub_keys s" using scout_okD(6) [OF assms(1)] assms(3) by blast
  let ?c = "\<lparr>ch_sent = [], ch_open = peer\<rparr>"
  let ?new = "(fd, \<lparr>ipc_sock = fd, sub_pid = pid\<rparr>)"
  show ?thesis
  proof (cases "peer \<or> net_interfaces s = []")
    case True
    let ?c' = "if peer then deliver (event_msgs (net_interfaces s) []) ?c else ?c"
    have s': "s' = s\<lparr>subscriber_procs := insort_key fst ?new (subscriber_procs s), sc_chans := (sc_chans s)(fd \<mapsto> ?c'),
        maxfd := max (maxfd s) fd, active_fds := insert fd (active_fds s)\<rparr>"
      using subscribe_eq [OF assms(2) fd assms(5)] assms(6) True by simp
    have "told (ch_sent ?c') = net_interfaces s"
      using True told_snapshot [OF scout_okD(3) [OF assms(1)]]
      by (auto simp: told_deliver fold_tell_event_msgs) (simp_all add: told_def)
    moreover have "fd \<noteq> scout_control_ipc_sock s" using assms(1,3) by (auto simp: scout_ok_def)
    ultimately have "sub_ok s' ?new" by (simp add: s' sub_ok_def)
    moreover have "sub_ok s' e" if "e \<in> set (subscriber_procs s)" for e
    proof -
      have "fst e \<noteq> fd" "sub_ok s e" using that fd assms(1) by (auto simp: scout_ok_def)
      then show ?thesis by (simp add: s' sub_ok_def)
    qed
    moreover have "distinct (map fst (insort_key fst ?new (subscriber_procs s)))"
      by (rule distinct_keys_insort) (use fd scout_okD(2) [OF assms(1)] in simp_all)
    moreover have "sub_keys s' = insert fd (sub_keys s)" "set (subscriber_procs s') = insert ?new (set (subscriber_procs s))"
      by (simp_all add: s' set_insort_key)
    moreover have "active_fds s' \<subseteq> {0..maxfd s'}" using assms(1,4) by (fastforce simp: s' scout_ok_def)
    moreover have "sc_chans s' fd' = None" if "fd' \<in> active_fds s' - {scout_control_ipc_sock s'} - insert fd (sub_keys s)" for fd'
      using assms(1) that by (auto simp: s' scout_ok_def)
    moreover have "net_interfaces s' = net_interfaces s" "scout_control_ipc_sock s' \<in> active_fds s'"
      "subscriber_procs s' = insort_key fst ?new (subscriber_procs s)"
      using assms(1) by (simp_all add: s' scout_ok_def)
    ultimately show ?thesis using scout_okD(3) [OF assms(1)] unfolding scout_ok_def by auto
  next
    case False
    then have "s' = s\<lparr>sc_chans := (sc_chans s)(fd := None)\<rparr>" using subscribe_eq [OF assms(2) fd assms(5)] assms(6) by simp
    then show ?thesis using chans_ok [OF assms(1) fd, of None] by simp
  qed
qed

lemma connected_at_ok:
  assumes "scout_ok s" and "fd \<notin> active_fds s"
  shows "scout_ok (connected_at fd peer s)"
  unfolding connected_at_def using assms scout_okD(6) [OF assms(1), of fd] by (intro chans_ok) auto

lemma serve_ok:
  assumes "scout_ok s" and "fd \<notin> active_fds s" and "0 \<le> fd" and "msg_pid msg \<notin> sub_keys s"
    and "serve fd msg (connected_at fd peer s) = Inr s'"
  shows "scout_ok s'"
proof -
  let ?s = "connected_at fd peer s"
  have ok: "scout_ok ?s" by (rule connected_at_ok [OF assms(1,2)])
  have fd: "fd \<notin> sub_keys ?s" using scout_okD(6) [OF assms(1)] assms(2) by (auto simp: connected_at_def)
  have "scout_ok s'" if "subscribe fd (msg_pid msg) ?s = Inr s'"
    by (rule subscribe_ok [OF ok _ _ assms(3) _ that]) (use assms(2,4) in \<open>simp_all add: connected_at_def\<close>)
  moreover have "scout_ok (?s\<lparr>sc_chans := (sc_chans ?s)(fd := None)\<rparr>)" by (rule chans_ok [OF ok fd]) simp
  ultimately show ?thesis using assms(5)
    by (auto simp: serve_def send_ifaces_eq send_ip_connected_eq split: MsgOpcode.splits)
qed

section \<open>Runs\<close>

text \<open>What the operating system and the applications may do in a round: a new connection has a free
  descriptor, the ready ones are in the set, each once. No process id is a descriptor of a
  subscriber; the code takes the one for the other.\<close>

definition fair_round :: "listener_env \<Rightarrow> scout \<Rightarrow> bool" where
  "fair_round env s \<longleftrightarrow>
     (case selected env of None \<Rightarrow> True | Some ready \<Rightarrow> distinct ready \<and> set ready \<subseteq> active_fds s) \<and>
     (case accepted env of
        AcceptFailed _ \<Rightarrow> True
      | Accepted fd _ \<Rightarrow> 0 \<le> fd \<and> fd \<noteq> scout_control_ipc_sock s \<and> sc_chans s fd = None) \<and>
     (case first_msg env of None \<Rightarrow> True | Some msg \<Rightarrow> msg_pid msg \<notin> sub_keys s)"

definition peer_closes :: "int \<Rightarrow> scout \<Rightarrow> scout" where
  "peer_closes fd s = s\<lparr>sc_chans := (sc_chans s)(fd := map_option (\<lambda>c. c\<lparr>ch_open := False\<rparr>) (sc_chans s fd))\<rparr>"

text \<open>Runs in which each function of a thread is done before the other thread goes on.\<close>

inductive scout_run :: "scout \<Rightarrow> bool" where
  run_start: "0 \<le> control \<Longrightarrow> distinct (map ip_addr ifs) \<Longrightarrow> scout_run (scout_start ifs control)"
| run_update: "scout_run s \<Longrightarrow> scout_run (announce i down (set_iface i down s))"
| run_slice: "scout_run s \<Longrightarrow> ip_addr cellular \<noteq> ip_addr wifi \<Longrightarrow> emulate_slice sl emu cellular wifi s = Inr s' \<Longrightarrow> scout_run s'"
| run_stop: "scout_run s \<Longrightarrow> scout_run (s\<lparr>sc_running := False\<rparr>)"
| run_closed: "scout_run s \<Longrightarrow> scout_run (peer_closes fd s)"
| run_round: "scout_run s \<Longrightarrow> fair_round env s \<Longrightarrow> IPC_round env s = Inr s' \<Longrightarrow> scout_run s'"

lemma fair_accept:
  assumes "fair_round env s" and "\<not> stale s" and "accepted env = Accepted fd peer"
  shows "fd \<notin> active_fds s" and "0 \<le> fd"
proof -
  have "sc_chans s fd = None" "fd \<noteq> scout_control_ipc_sock s" and z: "0 \<le> fd" using assms(1,3) by (simp_all add: fair_round_def)
  then show "fd \<notin> active_fds s" using assms(2) unfolding stale_def by blast
  show "0 \<le> fd" by (rule z)
qed

lemma listener_ready_ok:
  assumes "scout_ok s" and "fair_round env s" and "\<not> stale s" and "selected env = Some ready"
    and "listener_ready env ready s = Inr s'"
  shows "scout_ok s' \<or> \<not> listening s'"
proof -
  note fair_accept [OF assms(2,3)]
  moreover have "\<not> listening (listener_exit s)" by (simp add: listener_exit_def)
  ultimately show ?thesis using assms(1,2,5) fd_loop_ok [OF assms(1)]
    by (auto simp: listener_ready_def Let_def bindE_eq_Inr fair_round_def split: if_splits accept_result.splits option.splits
        dest!: serve_ok [OF assms(1)] dest: fd_loop_ok)
qed

lemma IPC_round_ok: "scout_ok s \<Longrightarrow> fair_round env s \<Longrightarrow> IPC_round env s = Inr s' \<Longrightarrow> scout_ok s' \<or> \<not> listening s'"
  using listener_ready_ok [of s env]
  by (auto simp: IPC_round_def listener_exit_def split: if_splits option.splits)

lemma notify_all_listening: "listening (notify_all_subscribers changed down s) = listening s"
proof -
  have "listening (remove_subscriber v s) = listening s" for v s
    by (simp add: remove_subscriber_def sub_erase_def close_fd_def split: option.split)
  then have "listening (fold remove_subscriber vs s) = listening s" for vs s
    by (induction vs arbitrary: s) simp_all
  moreover have n: "listening (snd (notify_subscriber fd changed down s)) = listening s" for fd s
    by (simp add: notify_subscriber_eq)
  have "listening (snd (notify_each subs changed down s)) = listening s" for subs s
  proof (induction subs arbitrary: s)
    case (Cons e subs)
    then show ?case by (cases e) (simp add: split_beta n)
  qed simp
  ultimately show ?thesis by (simp add: notify_all_subscribers_def split_beta)
qed

lemma peer_closes_ok:
  assumes "scout_ok s"
  shows "scout_ok (peer_closes fd s)"
proof -
  have "sub_ok (peer_closes fd s) e" if "sub_ok s e" for e using that by (auto simp: sub_ok_def peer_closes_def)
  then show ?thesis using assms unfolding scout_ok_def by (auto simp: peer_closes_def)
qed

lemma scout_run_ok: "scout_run s \<Longrightarrow> listening s \<Longrightarrow> scout_ok s"
proof (induction rule: scout_run.induct)
  case (run_start control ifs)
  then show ?case using renewed_all [of "[]" ifs] by (simp add: scout_start_def scout_ok_def)
next
  case (run_update s i down)
  have "listening (announce i down (set_iface i down s)) = listening s"
    by (simp add: announce_def set_iface_def notify_all_listening)
  then show ?case using run_update by (simp add: announce_ok)
next
  case (run_slice s cellular wifi sl emu s')
  have "listening s' = listening s"
    using run_slice.hyps by (auto simp: emulate_slice_def slice_ifaces_def set_iface_def notify_all_listening Let_def split: option.splits if_splits)
  then show ?case using run_slice by (auto intro: emulate_slice_ok)
next
  case (run_stop s)
  then show ?case by (simp add: scout_ok_def sub_ok_def)
next
  case (run_closed s fd)
  have "listening (peer_closes fd s) = listening s" by (simp add: peer_closes_def)
  then show ?case using run_closed by (simp add: peer_closes_ok)
next
  case (run_round s env s')
  have "listening s" using run_round.hyps(3) run_round.prems by (auto simp: IPC_round_def split: if_splits)
  then show ?case using IPC_round_ok run_round by blast
qed

section \<open>Properties\<close>

text \<open>In every state in which the scout listens, the messages written to a subscriber amount to its table.\<close>

theorem subscribers_are_told:
  assumes "scout_run s" and "listening s" and "(fd, sub) \<in> set (subscriber_procs s)"
  shows "ipc_sock sub = fd \<and> (\<exists>c. sc_chans s fd = Some c \<and> told (ch_sent c) = net_interfaces s)"
  using scout_run_ok [OF assms(1,2)] assms(3) by (fastforce simp: scout_ok_def sub_ok_def)

subsection \<open>Assertions in the listener\<close>

lemma fd_loop_traps:
  assumes "sorted_wrt (<) xs" and "fds \<inter> set xs - {ctl} \<subseteq> sub_keys s" and "ctl \<notin> sub_keys s"
  shows "(\<exists>e. fd_loop fds xs n s = Inl e) \<longleftrightarrow> ctl \<in> fds \<inter> set xs \<and> card {x \<in> fds \<inter> set xs. x < ctl} < n"
  using assms
proof (induction xs arbitrary: n s)
  case (Cons x xs)
  have x: "x \<notin> set xs" "\<forall>y\<in>set xs. x < y" using Cons.prems(1) by auto
  consider "n = 0" | "n > 0" "x \<notin> fds" | "n > 0" "x \<in> fds" "x = ctl" | "n > 0" "x \<in> fds" "x \<noteq> ctl" by blast
  then show ?case
  proof cases
    case 2
    then have "fds \<inter> set (x # xs) = fds \<inter> set xs" by auto
    then show ?thesis using 2 Cons.IH [of s n] Cons.prems by simp
  next
    case 3
    then have "map_of (subscriber_procs s) x = None" using Cons.prems(3) by (simp add: map_of_eq_None_iff)
    then have "fd_loop fds (x # xs) n s = Inl AssertFailed" using 3 by simp
    moreover have "ctl \<in> fds \<inter> set (x # xs)" using 3 by simp
    moreover have "card {y \<in> fds \<inter> set (x # xs). y < ctl} = 0" using 3 x by (simp add: card_eq_0_iff) force
    ultimately show ?thesis using 3(1) by metis
  next
    case 4
    let ?s = "(remove_subscriber x s)\<lparr>active_fds := active_fds (remove_subscriber x s) - {x}\<rparr>"
    have k: "x \<in> sub_keys s" using Cons.prems(2) 4 by auto
    then have m: "map_of (subscriber_procs s) x \<noteq> None" by (simp add: map_of_eq_None_iff)
    then have keys: "sub_keys (remove_subscriber x s) = sub_keys s - {x}" by (force simp: remove_subscriber_def sub_erase_def close_fd_def)
    have IH: "(\<exists>e. fd_loop fds xs (n - 1) ?s = Inl e) \<longleftrightarrow> ctl \<in> fds \<inter> set xs \<and> card {y \<in> fds \<inter> set xs. y < ctl} < n - 1"
      by (rule Cons.IH) (use Cons.prems x keys in \<open>auto\<close>)
    have "card {y \<in> fds \<inter> set (x # xs). y < ctl} = Suc (card {y \<in> fds \<inter> set xs. y < ctl})" if "ctl \<in> set xs"
    proof -
      have "{y \<in> fds \<inter> set (x # xs). y < ctl} = insert x {y \<in> fds \<inter> set xs. y < ctl}" using that x 4 by auto
      then show ?thesis using x by simp
    qed
    then show ?thesis using IH 4 m by (auto simp: Let_def)
  qed simp_all
qed simp

lemma count_below:
  fixes ready :: "int list"
  assumes "distinct ready" and "ctl \<in> set ready"
  shows "card {x \<in> set ready. x < ctl} < length ready"
    and "card {x \<in> set ready. x < ctl} < length ready - 1 \<longleftrightarrow> (\<exists>x\<in>set ready. ctl < x)"
proof -
  let ?L = "{x \<in> set ready. x < ctl}" and ?R = "{x \<in> set ready. ctl < x}"
  have "set ready = insert ctl (?L \<union> ?R)" using assms(2) by auto
  then have "card (set ready) = Suc (card (?L \<union> ?R))" by (metis (no_types, lifting) card_insert_disjoint finite_set
      List.finite_set Un_iff finite_insert less_irrefl mem_Collect_eq rev_finite_subset subset_insertI)
  moreover have "card (?L \<union> ?R) = card ?L + card ?R" by (intro card_Un_disjoint) auto
  ultimately have "length ready = Suc (card ?L + card ?R)" using distinct_card [OF assms(1)] by simp
  moreover have "0 < card ?R \<longleftrightarrow> (\<exists>x\<in>set ready. ctl < x)" by (auto simp: card_gt_0_iff)
  ultimately show "card ?L < length ready" "card ?L < length ready - 1 \<longleftrightarrow> (\<exists>x\<in>set ready. ctl < x)" by linarith+
qed

lemma serve_returns:
  assumes "scout_ok s" and "fd \<notin> active_fds s" and "0 \<le> fd" and "msg_pid msg \<notin> sub_keys s"
  shows "\<exists>s'. serve fd msg (connected_at fd peer s) = Inr s' \<and> sub_keys s \<subseteq> sub_keys s' \<and> maxfd s \<le> maxfd s' \<and>
    scout_control_ipc_sock s' = scout_control_ipc_sock s"
proof -
  have "fd \<notin> sub_keys s" using scout_okD(6) [OF assms(1)] assms(2) by blast
  then have "\<exists>s'. subscribe fd (msg_pid msg) (connected_at fd peer s) = Inr s' \<and> sub_keys s \<subseteq> sub_keys s' \<and> maxfd s \<le> maxfd s' \<and>
      scout_control_ipc_sock s' = scout_control_ipc_sock s"
    using subscribe_eq [of "connected_at fd peer s" fd _ "msg_pid msg"] assms(4) by (auto simp: connected_at_def set_insort_key)
  then show ?thesis
    by (cases "opcode msg") (auto simp: serve_def send_ifaces_eq send_ip_connected_eq connected_at_def)
qed

text \<open>
  After \<^verbatim>\<open>accept\<close> the loop of the listener over the descriptors meets the listening socket again and
  asserts that it is a subscriber: \<^verbatim>\<open>ASSERT(0)\<close> after ``never happens''. A round ends the scout exactly
  when the listening socket is ready and either the first message of the new connection is not
  whole, or some subscriber with a higher descriptor is ready as well and \<^verbatim>\<open>accept\<close> has not failed
  with \<^verbatim>\<open>EINVAL\<close>; every other round goes through.
\<close>

theorem listener_traps_iff:
  assumes "scout_run s" and "listening s" and "sc_running s" and "\<not> stale s" and "fair_round env s"
    and "selected env = Some ready"
  shows "(\<exists>e. IPC_round env s = Inl e) \<longleftrightarrow> scout_control_ipc_sock s \<in> set ready \<and>
    (case accepted env of
       AcceptFailed einval \<Rightarrow> \<not> einval \<and> (\<exists>fd\<in>set ready. scout_control_ipc_sock s < fd)
     | Accepted _ _ \<Rightarrow> first_msg env = None \<or> (\<exists>fd\<in>set ready. scout_control_ipc_sock s < fd))"
proof -
  let ?ctl = "scout_control_ipc_sock s"
  have ok: "scout_ok s" by (rule scout_run_ok [OF assms(1,2)])
  have ready: "distinct ready" "set ready \<subseteq> active_fds s" using assms(5,6) by (simp_all add: fair_round_def)
  have fds: "active_fds s \<subseteq> set (all_fds s)" using ok by (auto simp: scout_ok_def all_fds_def)
  have keys: "set ready - {?ctl} \<subseteq> sub_keys s"
    using ok ready(2) assms(4) unfolding scout_ok_def stale_def by blast
  have trap: "(\<exists>e. fd_loop (set ready) (all_fds s1) n s1 = Inl e) \<longleftrightarrow> ?ctl \<in> set ready \<and> card {x \<in> set ready. x < ?ctl} < n"
    if "sub_keys s \<subseteq> sub_keys s1" "?ctl \<notin> sub_keys s1" "maxfd s \<le> maxfd s1" for s1 n
  proof -
    have "set ready \<inter> set (all_fds s1) = set ready" using ready(2) fds that(3) by (auto simp: all_fds_def)
    moreover have "sorted_wrt (<) (all_fds s1)" by (simp add: all_fds_def strict_sorted_iff)
    ultimately show ?thesis using fd_loop_traps [of "all_fds s1" "set ready" ?ctl s1 n] keys that by auto
  qed
  have ctl: "?ctl \<notin> sub_keys s" by (rule scout_okD(4) [OF ok])
  note here = trap [OF order_refl ctl order_refl]
  have round: "IPC_round env s = listener_ready env ready s" using assms(2-4,6) by (simp add: IPC_round_def)
  show ?thesis
  proof (cases "?ctl \<in> set ready")
    case False
    then show ?thesis using here by (simp add: round listener_ready_def)
  next
    case True
    note below = count_below [OF ready(1) True]
    show ?thesis
    proof (cases "accepted env")
      case (AcceptFailed einval)
      then show ?thesis using True here [of "length ready - 1"] below by (simp add: round listener_ready_def)
    next
      case (Accepted fd peer)
      show ?thesis
      proof (cases "first_msg env")
        case None
        then show ?thesis using True here [of "length ready"] below Accepted by (simp add: round listener_ready_def)
      next
        case (Some msg)
        have fd: "fd \<notin> active_fds s" "0 \<le> fd" "msg_pid msg \<notin> sub_keys s"
          using fair_accept [OF assms(5,4) Accepted] assms(5) Some by (simp_all add: fair_round_def)
        obtain s1 where s1: "serve fd msg (connected_at fd peer s) = Inr s1" "sub_keys s \<subseteq> sub_keys s1" "maxfd s \<le> maxfd s1"
          "scout_control_ipc_sock s1 = ?ctl"
          using serve_returns [OF ok fd] by blast
        have "?ctl \<notin> sub_keys s1" using scout_okD(4) [OF serve_ok [OF ok fd s1(1)]] s1(4) by simp
        then show ?thesis using True trap [OF s1(2) _ s1(3), of "length ready - 1"] below Accepted Some s1(1)
          by (simp add: round listener_ready_def)
      qed
    qed
  qed
qed

subsection \<open>Dead subscribers and races\<close>

lemma close_all:
  "sc_chans (fold (\<lambda>e. close_fd (ipc_sock (snd e))) es t) k = (if k \<in> (ipc_sock \<circ> snd) ` set es then None else sc_chans t k)"
  "subscriber_procs (fold (\<lambda>e. close_fd (ipc_sock (snd e))) es t) = subscriber_procs t"
  "sc_running (fold (\<lambda>e. close_fd (ipc_sock (snd e))) es t) = sc_running t"
  by (induction es arbitrary: t) (auto simp: close_fd_def)

text \<open>
  C37. A subscriber whose end is closed is removed by the next notification, if the listener has not seen it
  before. Its descriptor is closed then but stays in the set for \<^verbatim>\<open>select\<close>: the next round of the listener
  fails with \<^verbatim>\<open>EBADF\<close> and ends the whole scout, with the connections of all other subscribers.
\<close>

theorem dead_subscriber_ends_the_scout:
  assumes "scout_run s" and "listening s" and "sc_running s" and "fd \<in> sub_keys s" and "\<not> alive s fd"
    and "IPC_round env (announce i down (set_iface i down s)) = Inr s'"
  shows "\<not> sc_running s' \<and> \<not> listening s' \<and> (\<forall>k\<in>sub_keys s'. sc_chans s' k = None)"
proof -
  have ok: "scout_ok s" by (rule scout_run_ok [OF assms(1,2)])
  let ?s0 = "set_iface i down s"
  let ?s1 = "announce i down ?s0"
  have al: "alive ?s0 k = alive s k" for k by (simp add: set_iface_def alive_def)
  have f: "subscriber_procs ?s0 = subscriber_procs s" "sc_chans ?s0 = sc_chans s" "active_fds ?s0 = active_fds s"
    "scout_control_ipc_sock ?s0 = scout_control_ipc_sock s" "listening ?s0 = listening s" "sc_running ?s0 = sc_running s"
    by (simp_all add: set_iface_def)
  have eq: "?s1 = ?s0\<lparr>subscriber_procs := filter (\<lambda>e. alive s (fst e)) (subscriber_procs s),
       sc_chans := \<lambda>fd. if fd \<in> sub_keys s then if alive s fd
          then map_option (deliver (event_msgs (if down then [] else [i]) (if down then [i] else []))) (sc_chans s fd) else None
          else sc_chans s fd\<rparr>"
    unfolding announce_def
    using notify_all_eq [of ?s0 "if down then [] else [i]" "if down then [i] else []"] scout_okD(1,2) [OF ok]
    by (simp add: al f cong: if_cong)
  have "active_fds ?s1 = active_fds s" "scout_control_ipc_sock ?s1 = scout_control_ipc_sock s" by (simp_all add: eq f)
  moreover have "fd \<noteq> scout_control_ipc_sock s" using scout_okD(4) [OF ok] assms(4) by blast
  ultimately have active: "fd \<in> active_fds ?s1 - {scout_control_ipc_sock ?s1}" using scout_okD(6) [OF ok assms(4)] by simp
  have st: "stale ?s1"
    unfolding stale_def
  proof (rule bexI)
    show "sc_chans ?s1 fd = None" using assms(4,5) by (simp add: eq)
    show "fd \<in> active_fds ?s1 - {scout_control_ipc_sock ?s1}" by (rule active)
  qed
  have "listening ?s1" "sc_running ?s1" using assms(2,3) by (simp_all add: eq f)
  then have s': "s' = listener_exit (?s1\<lparr>sc_running := False\<rparr>)" using assms(6) st by (simp add: IPC_round_def)
  have "k \<in> (ipc_sock \<circ> snd) ` set (subscriber_procs ?s1)" if "k \<in> sub_keys s'" for k
  proof -
    have "k \<in> sub_keys ?s1" using that by (simp add: s' listener_exit_def close_all)
    moreover have "\<forall>e\<in>set (subscriber_procs ?s1). ipc_sock (snd e) = fst e" using scout_okD(1) [OF ok] by (auto simp: eq)
    ultimately show ?thesis by force
  qed
  then show ?thesis by (simp add: s' listener_exit_def close_all)
qed

text \<open>
  The subscription of an application and the notification of a change are not one step each. An
  interface that goes away between the copy of the table for a new subscriber and the entry of the
  subscriber's descriptor is announced to descriptor 0, which the entry has until then: the application
  is registered, has been told that the interface is there, and is not told that it is gone.
\<close>

theorem subscription_race:
  assumes "fd \<noteq> 0" and "s0 = (scout_start [i] control)\<lparr>sc_chans := [0 \<mapsto> \<lparr>ch_sent = [], ch_open = True\<rparr>]\<rparr>"
    and "subscribe_enter fd pid (connected_at fd True s0) = Inr (k, s1)"
    and "s2 = announce i True (set_iface i True s1)" and "s3 = subscribe_finish k fd (net_interfaces s1) s2"
  shows "net_interfaces s3 = [] \<and> map_of (subscriber_procs s3) fd = Some \<lparr>ipc_sock = fd, sub_pid = pid\<rparr> \<and>
    (\<exists>c. sc_chans s3 fd = Some c \<and> ch_open c \<and> told (ch_sent c) = [i])"
proof -
  have k: "k = fd" and s1: "s1 = sub_put fd \<lparr>ipc_sock = 0, sub_pid = pid\<rparr> (connected_at fd True s0)"
    using assms(2,3) by (auto simp: subscribe_enter_def scout_start_def connected_at_def)
  have one: "fold renewed [i] [] = [i]" by (rule told_snapshot) (simp add: iface_set.ordered_def)
  have e: "iface_erase i [i] = []" by (simp add: iface_erase_def set_erase_def iface_less_def)
  have t: "told (event_msgs [i] []) = [i]" using one by (simp add: told_def event_msgs_def)
  show ?thesis
    using assms(1) one e t
    by (simp add: assms(5,4) k s1 sub_put_def connected_at_def assms(2) scout_start_def set_iface_def announce_def notify_all_subscribers_def
        notify_subscriber_eq alive_def subscribe_finish_def deliver_def)
qed

subsection \<open>Traces\<close>

lemma timer_less_trans: "timer_less a b \<Longrightarrow> timer_less b c \<Longrightarrow> timer_less a c"
  by (auto simp: timer_less_def split: if_splits)

lemma get_slices_ordered:
  "get_slices n st prev rs = Inr t \<Longrightarrow> tv_sec st \<noteq> -1 \<Longrightarrow>
   length t = n \<and> sorted_wrt timer_less (prev # map ts_start t)"
proof (induction n st prev rs arbitrary: t rule: get_slices.induct)
  case (4 n st prev r rs)
  then obtain t' where "timer_less prev (timersub MAX_USECS (ts_start (ntohl_all r)) st)"
    "get_slices n st (timersub MAX_USECS (ts_start (ntohl_all r)) st) rs = Inr t'"
    "t = (ntohl_all r)\<lparr>ts_start := timersub MAX_USECS (ts_start (ntohl_all r)) st\<rparr> # t'"
    by (auto simp: Let_def bindE_eq_Inr split: if_splits)
  then show ?case using "4.IH"(2) [OF refl] "4.prems" by (auto simp: Let_def split: if_splits intro: timer_less_trans)
qed simp_all

text \<open>The slices of a trace that is accepted start at 0 and their starts increase.\<close>

theorem get_trace_ordered:
  assumes "get_trace num rs = Inr trace"
  shows "\<exists>x. num = Some x \<and> int (length trace) = to_int (ntohl x) \<and> trace \<noteq> [] \<and> ts_start (hd trace) = tv 0 0 \<and>
    sorted_wrt timer_less (map ts_start trace)"
proof -
  obtain x where x: "num = Some x" "0 < to_int (ntohl x)" and g: "get_slices (nat (to_int (ntohl x))) (tv (-1) 0) (tv 0 0) rs = Inr trace"
    using assms by (auto simp: get_trace_def Let_def split: option.splits if_splits)
  obtain n where n: "nat (to_int (ntohl x)) = Suc n" using x(2) by (metis gr0_implies_Suc zero_less_nat_eq)
  obtain r rs' t' where r: "rs = Some r # rs'" "get_slices n (ts_start (ntohl_all r)) (tv 0 0) rs' = Inr t'"
    "trace = (ntohl_all r)\<lparr>ts_start := tv 0 0\<rparr> # t'" "0 \<le> tv_sec (ts_start (ntohl_all r))"
    using g n by (cases "(Suc n, tv (-1) 0, tv 0 0, rs)" rule: get_slices.cases) (auto simp: Let_def bindE_eq_Inr split: if_splits)
  then have "length t' = n \<and> sorted_wrt timer_less (tv 0 0 # map ts_start t')" by (intro get_slices_ordered) auto
  then show ?thesis using x r(3) n by auto
qed

text \<open>The last slice of a trace is only the end of the one before it; a trace of one slice is looped over
  without a wait and without any effect.\<close>

lemma single_slice_is_not_replayed: "length trace = 1 \<Longrightarrow> replay_round trace emu cellular wifi (0, s) = Inr (0, s)"
  by (simp add: replay_round_def)

section \<open>Examples\<close>

definition demo_iface :: net_interface where
  "demo_iface = \<lparr>ip_addr = 10, bandwidth_down = 100, bandwidth_up = 100, RTT = 20, type = 1\<rparr>"

definition demo_scout :: scout where
  "demo_scout = scout_start [demo_iface] 3"

definition demo_round :: "cmm_msg option \<Rightarrow> listener_env" where
  "demo_round m = \<lparr>selected = Some [3], accepted = Accepted 5 True, first_msg = m\<rparr>"

definition demo_subscription :: cmm_msg where
  "demo_subscription = \<lparr>opcode = CMM_MSG_SUBSCRIBE, msg_rc = 0, msg_pid = 100, msg_iface = sentinel\<rparr>"

definition demo_subscribed :: scout where
  "demo_subscribed = demo_scout\<lparr>subscriber_procs := [(5, \<lparr>ipc_sock = 5, sub_pid = 100\<rparr>)],
     sc_chans := [5 \<mapsto> \<lparr>ch_sent = [event_msg demo_iface CMM_MSG_IFACE_LABELS], ch_open = True\<rparr>], maxfd := 5, active_fds := {5, 3}\<rparr>"

lemma demo_scout_run: "scout_run demo_scout"
  unfolding demo_scout_def by (rule run_start) simp_all

lemma demo_table: "net_interfaces demo_scout = [demo_iface]"
  using told_snapshot [of "[demo_iface]"] by (simp add: demo_scout_def scout_start_def iface_set.ordered_def)

lemma demo_fair: "fair_round (demo_round m) demo_scout \<longleftrightarrow> True"
  by (simp add: fair_round_def demo_round_def demo_scout_def scout_start_def split: option.splits)

lemma demo_state: "listening demo_scout" "sc_running demo_scout" "\<not> stale demo_scout" "scout_control_ipc_sock demo_scout = 3"
  by (simp_all add: demo_scout_def scout_start_def stale_def)

lemma demo_subscribed_run: "scout_run demo_subscribed"
proof -
  have "subscribe 5 100 (connected_at 5 True demo_scout) = Inr demo_subscribed"
    using subscribe_eq [of "connected_at 5 True demo_scout" 5 "\<lparr>ch_sent = [], ch_open = True\<rparr>" 100] demo_table
    by (simp add: connected_at_def demo_subscribed_def demo_scout_def scout_start_def deliver_def event_msgs_def)
  then have "IPC_round (demo_round (Some demo_subscription)) demo_scout = Inr demo_subscribed"
    using demo_state by (simp add: IPC_round_def demo_round_def listener_ready_def serve_def demo_subscription_def all_fds_def demo_subscribed_def
        demo_scout_def scout_start_def upto.simps)
  then show ?thesis using run_round [OF demo_scout_run] demo_fair by blast
qed

lemma listener_traps_iff_witness: "\<exists>e. IPC_round (demo_round None) demo_scout = Inl e"
  using listener_traps_iff [OF demo_scout_run demo_state(1-3), of "demo_round None" "[3]"] demo_fair
  by (simp add: demo_round_def demo_state)

lemma subscribers_are_told_witness:
  "ipc_sock \<lparr>ipc_sock = 5, sub_pid = 100\<rparr> = 5 \<and> (\<exists>c. sc_chans demo_subscribed 5 = Some c \<and> told (ch_sent c) = [demo_iface])"
  using subscribers_are_told [OF demo_subscribed_run, of 5 "\<lparr>ipc_sock = 5, sub_pid = 100\<rparr>"] demo_table
  by (simp add: demo_subscribed_def demo_state)

definition demo_dead :: scout where
  "demo_dead = peer_closes 5 demo_subscribed"

lemma dead_subscriber_ends_the_scout_witness:
  "\<exists>s'. IPC_round (demo_round None) (announce demo_iface True (set_iface demo_iface True demo_dead)) = Inr s' \<and> \<not> sc_running s'"
proof -
  have run: "scout_run demo_dead" unfolding demo_dead_def by (rule run_closed [OF demo_subscribed_run])
  have d: "listening demo_dead" "sc_running demo_dead" "5 \<in> sub_keys demo_dead" "\<not> alive demo_dead 5"
    by (simp_all add: demo_dead_def peer_closes_def demo_subscribed_def demo_state alive_def)
  have "IPC_round (demo_round None) (announce demo_iface True (set_iface demo_iface True demo_dead)) =
      Inr (listener_exit ((announce demo_iface True (set_iface demo_iface True demo_dead))\<lparr>sc_running := False\<rparr>))"
    by (simp add: IPC_round_def announce_def set_iface_def notify_all_subscribers_def notify_subscriber_eq alive_def demo_dead_def
        peer_closes_def demo_subscribed_def demo_state remove_subscriber_def sub_erase_def close_fd_def stale_def)
      (intro impI, drule spec [of _ 5], simp)
  with dead_subscriber_ends_the_scout [OF run d this] show ?thesis by blast
qed

lemma subscription_race_witness:
  "\<exists>s0 s1 s2 s3. subscribe_enter 5 100 (connected_at 5 True s0) = Inr (5, s1) \<and>
    s2 = announce demo_iface True (set_iface demo_iface True s1) \<and> s3 = subscribe_finish 5 5 (net_interfaces s1) s2 \<and>
    net_interfaces s3 = []"
proof -
  let ?s0 = "(scout_start [demo_iface] 3)\<lparr>sc_chans := [0 \<mapsto> \<lparr>ch_sent = [], ch_open = True\<rparr>]\<rparr>"
  let ?s1 = "sub_put 5 \<lparr>ipc_sock = 0, sub_pid = 100\<rparr> (connected_at 5 True ?s0)"
  have e: "subscribe_enter 5 100 (connected_at 5 True ?s0) = Inr (5, ?s1)"
    by (simp add: subscribe_enter_def scout_start_def connected_at_def)
  then show ?thesis using subscription_race [OF _ refl e refl refl] by (intro exI conjI refl) auto
qed

end
