(* ===== verification/Select_Poll.thy ===== *)
theory Select_Poll
  imports Bootstrap
begin

text \<open>
  \<^verbatim>\<open>select\<close> and \<^verbatim>\<open>poll\<close> on multisockets (cmm_socket_impl.cpp). The descriptor of a multisocket is a
  dummy: reading is waited for on one end of its \<^verbatim>\<open>select_pipe\<close>, into which a byte is written when data
  is ready, writing on its \<^verbatim>\<open>write_ready_pipe\<close>, and exceptions on the sockets of its connections. The
  descriptors of the application are translated to these before the system call and back after it. An
  \<^verbatim>\<open>fd_set\<close> is a set of descriptors; the number of bytes in the two pipes is part of the state. The
  system call is a parameter: it gets the sets and returns its result with the sets it leaves. Calls
  through a null pointer, such as for the status of a bootstrapper that has not been made, are
  \<open>OutOfBounds\<close>.
\<close>

section \<open>The table of multisockets\<close>

record mc_entry =
  me_conn :: conn
  select_pipe0 :: int
  write_ready_pipe0 :: int
  select_bytes :: nat
  write_ready_bytes :: nat
  osfd_of :: "csock_ref \<Rightarrow> int"

type_synonym sock_table = "int \<Rightarrow> mc_entry option"

abbreviation me_sk :: "mc_entry \<Rightarrow> msocket" where
  "me_sk e \<equiv> cn_sk (me_conn e)"

definition EINTR :: int where "EINTR = 4"

definition clear_select_pipe :: "mc_entry \<Rightarrow> mc_entry" where
  "clear_select_pipe e = e\<lparr>select_bytes := 0\<rparr>"

definition clear_write_ready_pipe :: "mc_entry \<Rightarrow> mc_entry" where
  "clear_write_ready_pipe e = e\<lparr>write_ready_bytes := 0\<rparr>"

definition mc_interrupt_waiters :: "mc_entry \<Rightarrow> mc_entry" where
  "mc_interrupt_waiters e = e\<lparr>select_bytes := select_bytes e + 1\<rparr>"

definition will_block_on_read :: "msocket \<Rightarrow> bool" where
  "will_block_on_read sk \<longleftrightarrow> \<not> data_is_ready (incoming_irobs sk) \<and> \<not> sk_shutting_down sk"

definition get_real_fds :: "mc_entry \<Rightarrow> (int \<times> int) list result" where
  "get_real_fds e =
     (let osfds = map (osfd_of e) (available_csocks (me_sk e))
      in ASSERT (\<forall>fd\<in>set osfds. 0 < fd) (Inr (map (Pair (sock (me_sk e))) osfds)))"

text \<open>The pairs of a multisocket and a descriptor to wait on that are added to the list.\<close>

definition get_fds_for_select :: "bool \<Rightarrow> bool \<Rightarrow> mc_entry \<Rightarrow> ((int \<times> int) list \<times> mc_entry) result" where
  "get_fds_for_select reading writing e =
     (if reading
      then ASSERT (\<not> writing)
             (let e1 = clear_select_pipe e
              in Inr ([(sock (me_sk e), select_pipe0 e)],
                      if data_is_ready (incoming_irobs (me_sk e)) then mc_interrupt_waiters e1 else e1))
      else if writing
      then case cn_boot (me_conn e) of
             None \<Rightarrow> Inl OutOfBounds
           | Some bs \<Rightarrow>
               Inr ([(sock (me_sk e), write_ready_pipe0 e)],
                    if bs_status bs \<noteq> EINPROGRESS then e\<lparr>write_ready_bytes := write_ready_bytes e + 1\<rparr> else e)
      else bindE (get_real_fds e) (\<lambda>l. Inr (l, e)))"

section \<open>Translating sets of descriptors\<close>

definition scan_fd :: "bool \<Rightarrow> bool \<Rightarrow> int \<Rightarrow> int set \<times> (int \<times> int) list \<times> sock_table \<Rightarrow>
    (int set \<times> (int \<times> int) list \<times> sock_table) result" where
  "scan_fd reading writing s st =
     (let (fds, l, tab) = st
      in if s \<notin> fds then Inr st
         else case tab s of
                None \<Rightarrow> Inr st
              | Some e \<Rightarrow> bindE (get_fds_for_select reading writing e) (\<lambda>(new, e1).
                  Inr (fds - {s}, l @ new, tab(s \<mapsto> e1))))"

definition swap_fds :: "(int \<times> int) list \<Rightarrow> int set \<times> int \<Rightarrow> int set \<times> int" where
  "swap_fds = fold (\<lambda>(m, fd) (fds, maxosfd). (insert fd (fds - {m}), max fd maxosfd))"

definition make_real_fd_set :: "int \<Rightarrow> bool \<Rightarrow> bool \<Rightarrow> int set \<Rightarrow> int \<Rightarrow> sock_table \<Rightarrow>
    (int set \<times> (int \<times> int) list \<times> int \<times> sock_table) result" where
  "make_real_fd_set nfds reading writing fds maxosfd tab =
     bindE (foldE (scan_fd reading writing) (rev [0..nfds - 1]) (fds, [], tab)) (\<lambda>(fds1, l, tab1).
       let (fds2, maxosfd1) = swap_fds l (fds1, maxosfd) in Inr (fds2, l, maxosfd1, tab1))"

text \<open>Back to multisockets, with the number of multisockets that were met again.\<close>

definition make_mc_fd_set :: "(int \<times> int) list \<Rightarrow> int set \<Rightarrow> int \<times> int set" where
  "make_mc_fd_set l fds =
     fold (\<lambda>(m, fd) (dups, fds).
         if fd \<in> fds then let fds1 = fds - {fd} in if m \<in> fds1 then (dups + 1, fds1) else (dups, insert m fds1)
         else (dups, fds)) l (0, fds)"

section \<open>select\<close>

text \<open>A null pointer for a set is \<open>None\<close>. The system call returns its result, the sets and \<^verbatim>\<open>errno\<close>.\<close>

type_synonym select_call = "int \<Rightarrow> int set \<Rightarrow> int set \<Rightarrow> int set \<Rightarrow> int \<times> int set \<times> int set \<times> int set \<times> int"

definition real_fds :: "int \<Rightarrow> bool \<Rightarrow> bool \<Rightarrow> int set option \<Rightarrow> int \<Rightarrow> sock_table \<Rightarrow>
    (int set \<times> (int \<times> int) list \<times> int \<times> sock_table) result" where
  "real_fds nfds reading writing fds maxosfd tab =
     (case fds of None \<Rightarrow> Inr ({}, [], maxosfd, tab) | Some s \<Rightarrow> make_real_fd_set nfds reading writing s maxosfd tab)"

text \<open>What has been reported is cleared from the pipes; a multisocket that is reported as readable but
  has nothing to read was interrupted.\<close>

definition check_fd :: "int set \<Rightarrow> int set \<Rightarrow> int \<Rightarrow> int \<times> int \<times> sock_table \<Rightarrow> int \<times> int \<times> sock_table" where
  "check_fd r w i st =
     (let (rc, err, tab) = st
      in if i \<notin> r \<and> i \<notin> w then st
         else case tab i of
                None \<Rightarrow> st
              | Some e \<Rightarrow>
                  let e1 = (if i \<in> r then clear_select_pipe e else e);
                      e2 = (if i \<in> w then clear_write_ready_pipe e1 else e1);
                      blocked = (i \<in> r \<and> will_block_on_read (me_sk e))
                  in (if blocked then -1 else rc, if blocked then EINTR else err, tab(i \<mapsto> e2)))"

text \<open>The ends of the write pipes are waited for as readable, and counted as writable again after it.\<close>

definition lend_fds :: "(int \<times> int) list \<Rightarrow> int set \<times> int set \<Rightarrow> (int set \<times> int set) result" where
  "lend_fds = foldE (\<lambda>(m, fd) (w, r). ASSERT (fd \<in> w) (Inr (w - {fd}, insert fd r)))"

definition return_fds :: "(int \<times> int) list \<Rightarrow> int set \<times> int set \<Rightarrow> int set \<times> int set" where
  "return_fds = fold (\<lambda>(m, fd) (w, r). if fd \<in> r then (insert fd w, r - {fd}) else (w, r))"

definition mc_select :: "select_call \<Rightarrow> int \<Rightarrow> int set option \<Rightarrow> int set option \<Rightarrow> int set option \<Rightarrow> sock_table \<Rightarrow>
    (int \<times> int \<times> int set option \<times> int set option \<times> int set option \<times> sock_table) result" where
  "mc_select select_sys nfds readfds writefds exceptfds tab =
     bindE (real_fds nfds False False exceptfds (nfds - 1) tab) (\<lambda>(te, le, max1, tab1).
     bindE (real_fds nfds False True writefds max1 tab1) (\<lambda>(tw, lw, max2, tab2).
     bindE (real_fds nfds True False readfds max2 tab2) (\<lambda>(tr, lr, maxosfd, tab3).
     bindE (lend_fds lw (tw, tr)) (\<lambda>(w0, r0).
       let (rc, r, w, x, err) = select_sys (maxosfd + 1) r0 w0 te
       in if rc \<le> 0 then Inr (rc, err, readfds, writefds, exceptfds, tab3)
          else let (w1, r1) = return_fds lw (w, r);
                   (dr, r2) = make_mc_fd_set lr r1;
                   (dw, w2) = make_mc_fd_set lw w1;
                   (dx, x2) = make_mc_fd_set le x;
                   (rc2, err2, tab4) = fold (check_fd r2 w2) [0..nfds - 1] (rc - dr - dw - dx, err, tab3)
               in Inr (rc2, err2, map_option (\<lambda>_. r2) readfds, map_option (\<lambda>_. w2) writefds,
                       map_option (\<lambda>_. x2) exceptfds, tab4)))))"

section \<open>The translation is faithful\<close>

text \<open>What the table promises: a multisocket is found under its own descriptor, its pipes are not
  descriptors of the application, no two pipes are the same, and it has begun to connect.\<close>

definition table_ok :: "sock_table \<Rightarrow> int set \<Rightarrow> bool" where
  "table_ok tab A \<longleftrightarrow>
     (\<forall>s e. tab s = Some e \<longrightarrow> sock (me_sk e) = s \<and> select_pipe0 e \<notin> A \<union> dom tab \<and> write_ready_pipe0 e \<notin> A \<union> dom tab \<and>
        cn_boot (me_conn e) \<noteq> None) \<and>
     (\<forall>s e s' e'. tab s = Some e \<longrightarrow> tab s' = Some e' \<longrightarrow> select_pipe0 e \<noteq> write_ready_pipe0 e' \<and>
        (select_pipe0 e = select_pipe0 e' \<or> write_ready_pipe0 e = write_ready_pipe0 e' \<longrightarrow> s = s'))"

text \<open>The loop over the descriptors, when every multisocket contributes the one descriptor \<open>p\<close>.\<close>

lemma scan_fds_eq:
  assumes "distinct xs"
    and "\<And>s e. s \<in> set xs \<Longrightarrow> tab s = Some e \<Longrightarrow> get_fds_for_select rd wr e = Inr ([(s, p s)], upd e)"
  shows "foldE (scan_fd rd wr) xs (fds, l, tab) =
    Inr (fds - {s \<in> set xs. tab s \<noteq> None}, l @ map (\<lambda>s. (s, p s)) (filter (\<lambda>s. s \<in> fds \<and> tab s \<noteq> None) xs),
         \<lambda>s. if s \<in> set xs \<and> s \<in> fds then map_option upd (tab s) else tab s)"
  using assms
proof (induction xs arbitrary: fds l tab)
  case (Cons x xs)
  show ?case
  proof (cases "x \<in> fds \<and> tab x \<noteq> None")
    case False
    then have "scan_fd rd wr x (fds, l, tab) = Inr (fds, l, tab)" by (auto simp: scan_fd_def split: option.splits)
    moreover have "(\<lambda>s. if s \<in> set (x # xs) \<and> s \<in> fds then map_option upd (tab s) else tab s) =
        (\<lambda>s. if s \<in> set xs \<and> s \<in> fds then map_option upd (tab s) else tab s)" by (rule ext) (use False in auto)
    moreover have "fds - {s \<in> set (x # xs). tab s \<noteq> None} = fds - {s \<in> set xs. tab s \<noteq> None}" using False by auto
    ultimately show ?thesis using False Cons by simp
  next
    case True
    then obtain e where e: "tab x = Some e" by blast
    let ?tab = "tab(x \<mapsto> upd e)"
    have "scan_fd rd wr x (fds, l, tab) = Inr (fds - {x}, l @ [(x, p x)], ?tab)"
      using True e Cons.prems(2) [of x e] by (simp add: scan_fd_def)
    moreover have "foldE (scan_fd rd wr) xs (fds - {x}, l @ [(x, p x)], ?tab) =
      Inr (fds - {x} - {s \<in> set xs. ?tab s \<noteq> None},
        (l @ [(x, p x)]) @ map (\<lambda>s. (s, p s)) (filter (\<lambda>s. s \<in> fds - {x} \<and> ?tab s \<noteq> None) xs),
        \<lambda>s. if s \<in> set xs \<and> s \<in> fds - {x} then map_option upd (?tab s) else ?tab s)"
      using Cons.prems by (intro Cons.IH) (auto split: if_splits)
    moreover have "filter (\<lambda>s. s \<in> fds - {x} \<and> ?tab s \<noteq> None) xs = filter (\<lambda>s. s \<in> fds \<and> tab s \<noteq> None) xs"
      using Cons.prems(1) by (intro filter_cong) auto
    moreover have "fds - {x} - {s \<in> set xs. ?tab s \<noteq> None} = fds - {s \<in> set (x # xs). tab s \<noteq> None}" using e by auto
    moreover have "(\<lambda>s. if s \<in> set xs \<and> s \<in> fds - {x} then map_option upd (?tab s) else ?tab s) =
      (\<lambda>s. if s \<in> set (x # xs) \<and> s \<in> fds then map_option upd (tab s) else tab s)" using True e by auto
    ultimately show ?thesis using True by simp
  qed
qed simp

lemma swap_fds_eq:
  assumes "p ` set ms \<inter> set ms = {}"
  shows "fst (swap_fds (map (\<lambda>s. (s, p s)) ms) (fds, m)) = fds - set ms \<union> p ` set ms"
proof -
  have "fst (swap_fds (map (\<lambda>s. (s, p s)) ms) (fds, m)) = fds - set ms \<union> p ` set ms"
    if "p ` N \<inter> N = {}" "set ms \<subseteq> N" for N
    using that(2)
  proof (induction ms arbitrary: fds m)
    case (Cons s ms)
    have "p s \<notin> set ms" using that(1) Cons.prems by auto
    then show ?case using Cons.IH [of "insert (p s) (fds - {s})" "max (p s) m"] Cons.prems
      by (auto simp: swap_fds_def)
  qed (simp add: swap_fds_def)
  then show ?thesis using assms by blast
qed

lemma make_mc_fd_set_eq:
  assumes "distinct ms" and "inj_on p (set ms)" and "p ` set ms \<inter> set ms = {}" and "fds \<inter> set ms = {}"
  shows "make_mc_fd_set (map (\<lambda>s. (s, p s)) ms) fds = (0, fds - p ` set ms \<union> {s \<in> set ms. p s \<in> fds})"
proof -
  let ?f = "\<lambda>(m, fd) (dups, fds).
      if fd \<in> fds then let fds1 = fds - {fd} in if m \<in> fds1 then (dups + 1, fds1) else (dups, insert m fds1) else (dups, fds)"
  have "fold ?f (map (\<lambda>s. (s, p s)) ms) (d :: int, fds) = (d, fds - p ` set ms \<union> {s \<in> set ms. p s \<in> fds})"
    if "p ` N \<inter> N = {}" "set ms \<subseteq> N" "fds \<inter> set ms = {}" for N d
    using that(2,3) assms(1,2)
  proof (induction ms arbitrary: fds)
    case (Cons s ms)
    let ?fds = "if p s \<in> fds then insert s (fds - {p s}) else fds"
    have "p s \<noteq> s" using that(1) Cons.prems by auto
    then have step: "?f (s, p s) (d, fds) = (d, ?fds)" using Cons.prems by (auto simp: Let_def)
    have p: "\<And>x. x \<in> set ms \<Longrightarrow> p x \<noteq> p s \<and> p x \<noteq> s" using Cons.prems that(1) by (auto simp: inj_on_def)
    have "?fds \<inter> set ms = {}" using Cons.prems by auto
    then have "fold ?f (map (\<lambda>s. (s, p s)) ms) (d, ?fds) = (d, ?fds - p ` set ms \<union> {x \<in> set ms. p x \<in> ?fds})"
      using Cons.IH Cons.prems by auto
    moreover have "?fds - p ` set ms \<union> {x \<in> set ms. p x \<in> ?fds} = fds - p ` set (s # ms) \<union> {x \<in> set (s # ms). p x \<in> fds}"
      using p by (cases "p s \<in> fds") auto
    ultimately show ?case using step by simp
  qed simp
  then show ?thesis using assms by (simp add: make_mc_fd_set_def)
qed

lemma lend_fds_eq:
  assumes "distinct ms" and "inj_on p (set ms)" and "p ` set ms \<subseteq> w"
  shows "lend_fds (map (\<lambda>s. (s, p s)) ms) (w, r) = Inr (w - p ` set ms, r \<union> p ` set ms)"
  using assms
proof (induction ms arbitrary: w r)
  case (Cons s ms)
  have "p ` set ms \<subseteq> w - {p s}" using Cons.prems by (auto simp: inj_on_def)
  from Cons.IH [OF _ _ this] Cons.prems show ?case by (auto simp: lend_fds_def)
qed (simp add: lend_fds_def)

lemma return_fds_eq:
  "return_fds (map (\<lambda>s. (s, p s)) ms) (w, r) = (w \<union> (r \<inter> p ` set ms), r - p ` set ms)"
proof (induction ms arbitrary: w r)
  case (Cons s ms)
  have "return_fds (map (\<lambda>s. (s, p s)) (s # ms)) (w, r) =
      return_fds (map (\<lambda>s. (s, p s)) ms) (if p s \<in> r then (insert (p s) w, r - {p s}) else (w, r))"
    by (simp add: return_fds_def)
  then show ?case using Cons.IH by auto
qed (simp add: return_fds_def)

lemma check_fds_loop:
  assumes "distinct xs"
  shows "\<exists>tab'. fold (check_fd r w) xs (rc, err, tab) =
    (let b = (\<exists>i\<in>set xs. i \<in> r \<and> (\<exists>e. tab i = Some e \<and> will_block_on_read (me_sk e)))
     in (if b then -1 else rc, if b then EINTR else err, tab'))"
  using assms
proof (induction xs arbitrary: rc err tab)
  case (Cons x xs)
  define b where "b = (x \<in> r \<and> (\<exists>e. tab x = Some e \<and> will_block_on_read (me_sk e)))"
  have "\<exists>tab1. check_fd r w x (rc, err, tab) = (if b then -1 else rc, if b then EINTR else err, tab1) \<and> (\<forall>y. y \<noteq> x \<longrightarrow> tab1 y = tab y)"
    by (auto simp: check_fd_def b_def Let_def split: option.splits)
  then obtain tab1 where t1: "check_fd r w x (rc, err, tab) = (if b then -1 else rc, if b then EINTR else err, tab1)"
    "\<forall>y. y \<noteq> x \<longrightarrow> tab1 y = tab y" by blast
  obtain tab2 where "fold (check_fd r w) xs (if b then -1 else rc, if b then EINTR else err, tab1) =
    (let c = (\<exists>i\<in>set xs. i \<in> r \<and> (\<exists>e. tab1 i = Some e \<and> will_block_on_read (me_sk e)))
     in (if c then -1 else if b then -1 else rc, if c then EINTR else if b then EINTR else err, tab2))"
    using Cons.IH [of "if b then -1 else rc" "if b then EINTR else err" tab1] Cons.prems by auto
  moreover have "(\<exists>i\<in>set xs. i \<in> r \<and> (\<exists>e. tab1 i = Some e \<and> will_block_on_read (me_sk e))) =
      (\<exists>i\<in>set xs. i \<in> r \<and> (\<exists>e. tab i = Some e \<and> will_block_on_read (me_sk e)))"
    using t1(2) Cons.prems by fastforce
  ultimately show ?case using t1(1) by (auto simp: b_def Let_def)
qed simp

lemma check_fds_eq:
  assumes "distinct xs" and "(\<exists>i\<in>set xs. i \<in> r \<and> (\<exists>e. tab i = Some e \<and> will_block_on_read (me_sk e))) = b"
  obtains tab' where "fold (check_fd r w) xs (rc, err, tab) = (if b then -1 else rc, if b then EINTR else err, tab')"
proof -
  from check_fds_loop [OF assms(1), of r w rc err tab] obtain tab' where
    "fold (check_fd r w) xs (rc, err, tab) = (if b then -1 else rc, if b then EINTR else err, tab')"
    unfolding assms(2) Let_def ..
  then show ?thesis by (rule that)
qed

text \<open>A \<^verbatim>\<open>select\<close> that finds the descriptors \<open>Rd\<close> readable and \<open>Wd\<close> writable.\<close>

definition select_ready :: "int set \<Rightarrow> int set \<Rightarrow> int \<Rightarrow> select_call" where
  "select_ready Rd Wd err n r w x = (int (card (r \<inter> Rd) + card (w \<inter> Wd)), r \<inter> Rd, w \<inter> Wd, {}, err)"

text \<open>What the application should be told.\<close>

definition read_reported :: "sock_table \<Rightarrow> int set \<Rightarrow> int set \<Rightarrow> int set" where
  "read_reported tab R Rd = {s \<in> R. (case tab s of Some e \<Rightarrow> select_pipe0 e | None \<Rightarrow> s) \<in> Rd}"

definition write_reported :: "sock_table \<Rightarrow> int set \<Rightarrow> int set \<Rightarrow> int set \<Rightarrow> int set" where
  "write_reported tab W Rd Wd = {s \<in> W. case tab s of Some e \<Rightarrow> write_ready_pipe0 e \<in> Rd | None \<Rightarrow> s \<in> Wd}"

definition same_entries :: "sock_table \<Rightarrow> sock_table \<Rightarrow> bool" where
  "same_entries tab tab' \<longleftrightarrow> (\<forall>s. map_option (\<lambda>e. (me_conn e, select_pipe0 e, write_ready_pipe0 e)) (tab' s) =
     map_option (\<lambda>e. (me_conn e, select_pipe0 e, write_ready_pipe0 e)) (tab s))"

lemma real_fd_set_eq:
  assumes get: "\<And>s e. tab s = Some e \<Longrightarrow> get_fds_for_select rd wr e = Inr ([(s, p e)], upd e)"
    and priv: "\<And>s e. tab s = Some e \<Longrightarrow> p e \<notin> dom tab"
    and upd: "\<And>e. me_conn (upd e) = me_conn e \<and> select_pipe0 (upd e) = select_pipe0 e \<and> write_ready_pipe0 (upd e) = write_ready_pipe0 e"
    and fds: "fds \<subseteq> {0..<nfds}"
  obtains m tab' where "make_real_fd_set nfds rd wr fds mx tab =
      Inr (fds - dom tab \<union> (\<lambda>s. p (the (tab s))) ` (fds \<inter> dom tab),
           map (\<lambda>s. (s, p (the (tab s)))) (filter (\<lambda>s. s \<in> fds \<and> tab s \<noteq> None) (rev [0..nfds - 1])), m, tab')"
    "same_entries tab tab'"
proof -
  let ?p = "\<lambda>s. p (the (tab s))" and ?xs = "rev [0..nfds - 1]"
  let ?ms = "filter (\<lambda>s. s \<in> fds \<and> tab s \<noteq> None) ?xs"
  define tab' where "tab' = (\<lambda>s. if s \<in> set ?xs \<and> s \<in> fds then map_option upd (tab s) else tab s)"
  have ms: "set ?ms = fds \<inter> dom tab" using fds by auto
  have scan: "foldE (scan_fd rd wr) ?xs (fds, [], tab) =
      Inr (fds - {s \<in> set ?xs. tab s \<noteq> None}, map (\<lambda>s. (s, ?p s)) ?ms, tab')"
    unfolding tab'_def by (subst scan_fds_eq [where p = ?p and upd = upd]) (simp_all add: get)
  have "?p ` set ?ms \<inter> set ?ms = {}" using priv unfolding ms by fastforce
  from swap_fds_eq [OF this, of "fds - {s \<in> set ?xs. tab s \<noteq> None}" mx]
  have "fst (swap_fds (map (\<lambda>s. (s, ?p s)) ?ms) (fds - {s \<in> set ?xs. tab s \<noteq> None}, mx)) =
      fds - dom tab \<union> ?p ` (fds \<inter> dom tab)"
    using fds unfolding ms by auto
  then obtain m where "make_real_fd_set nfds rd wr fds mx tab =
      Inr (fds - dom tab \<union> ?p ` (fds \<inter> dom tab), map (\<lambda>s. (s, ?p s)) ?ms, m, tab')"
    using scan by (cases "swap_fds (map (\<lambda>s. (s, ?p s)) ?ms) (fds - {s \<in> set ?xs. tab s \<noteq> None}, mx)")
      (auto simp: make_real_fd_set_def)
  moreover have "same_entries tab tab'" using upd by (auto simp: same_entries_def tab'_def option.map_comp comp_def)
  ultimately show ?thesis using that by blast
qed

lemma same_entriesD:
  assumes "same_entries tab tab'"
  shows "dom tab' = dom tab" "select_pipe0 (the (tab' s)) = select_pipe0 (the (tab s))"
    "write_ready_pipe0 (the (tab' s)) = write_ready_pipe0 (the (tab s))" "map_option me_conn (tab' s) = map_option me_conn (tab s)"
proof -
  have eq: "map_option (\<lambda>e. (me_conn e, select_pipe0 e, write_ready_pipe0 e)) (tab' s) =
      map_option (\<lambda>e. (me_conn e, select_pipe0 e, write_ready_pipe0 e)) (tab s)" for s
    using assms by (simp add: same_entries_def)
  show "dom tab' = dom tab" using eq by (metis (no_types, lifting) domIff map_option_is_None subset_antisym subsetI)
  show "select_pipe0 (the (tab' s)) = select_pipe0 (the (tab s))"
    "write_ready_pipe0 (the (tab' s)) = write_ready_pipe0 (the (tab s))" "map_option me_conn (tab' s) = map_option me_conn (tab s)"
    using eq [of s] by (cases "tab s"; cases "tab' s"; simp)+
qed

lemma table_okD:
  assumes "table_ok tab A" and "tab s = Some e"
  shows "sock (me_sk e) = s" "select_pipe0 e \<notin> A" "select_pipe0 e \<notin> dom tab" "write_ready_pipe0 e \<notin> A"
    "write_ready_pipe0 e \<notin> dom tab" "cn_boot (me_conn e) \<noteq> None"
  using assms unfolding table_ok_def by blast+

lemma same_entries_Some:
  assumes "same_entries tab tab'" and "tab' s = Some e"
  obtains e0 where "tab s = Some e0" "me_conn e = me_conn e0" "select_pipe0 e = select_pipe0 e0" "write_ready_pipe0 e = write_ready_pipe0 e0"
proof -
  have "map_option (\<lambda>e. (me_conn e, select_pipe0 e, write_ready_pipe0 e)) (tab s) = Some (me_conn e, select_pipe0 e, write_ready_pipe0 e)"
    using assms(1) [unfolded same_entries_def, rule_format, of s] assms(2) by simp
  then show ?thesis using that by auto
qed

lemma table_ok_same:
  assumes same: "same_entries tab tab'" and ok: "table_ok tab A"
  shows "table_ok tab' A"
proof -
  note dom = same_entriesD(1) [OF same]
  have "sock (me_sk e) = s \<and> select_pipe0 e \<notin> A \<union> dom tab' \<and> write_ready_pipe0 e \<notin> A \<union> dom tab' \<and> cn_boot (me_conn e) \<noteq> None"
    if "tab' s = Some e" for s e
    using same_entries_Some [OF same that] table_okD [OF ok] unfolding dom by (metis Un_iff)
  moreover have "select_pipe0 e \<noteq> write_ready_pipe0 e' \<and>
      (select_pipe0 e = select_pipe0 e' \<or> write_ready_pipe0 e = write_ready_pipe0 e' \<longrightarrow> s = s')"
    if e: "tab' s = Some e" and e': "tab' s' = Some e'" for s e s' e'
  proof -
    obtain e0 where 0: "tab s = Some e0" "select_pipe0 e = select_pipe0 e0" "write_ready_pipe0 e = write_ready_pipe0 e0"
      using same_entries_Some [OF same e] by blast
    obtain e1 where 1: "tab s' = Some e1" "select_pipe0 e' = select_pipe0 e1" "write_ready_pipe0 e' = write_ready_pipe0 e1"
      using same_entries_Some [OF same e'] by blast
    show ?thesis using ok 0(1) 1(1) unfolding table_ok_def 0(2,3) 1(2,3) by blast
  qed
  ultimately show ?thesis unfolding table_ok_def by blast
qed

lemma ready_sets:
  assumes ok: "table_ok tab (R \<union> W)" and R: "R \<subseteq> {0..<nfds}" and W: "W \<subseteq> {0..<nfds}"
  obtains lw lr m tab2 tab3 m1 where
    "real_fds nfds False True (Some W) (nfds - 1) tab = Inr (W - dom tab \<union> (\<lambda>s. write_ready_pipe0 (the (tab s))) ` (W \<inter> dom tab), lw, m1, tab2)"
    "real_fds nfds True False (Some R) m1 tab2 = Inr (R - dom tab \<union> (\<lambda>s. select_pipe0 (the (tab s))) ` (R \<inter> dom tab), lr, m, tab3)"
    "lw = map (\<lambda>s. (s, write_ready_pipe0 (the (tab s)))) (filter (\<lambda>s. s \<in> W \<and> tab s \<noteq> None) (rev [0..nfds - 1]))"
    "lr = map (\<lambda>s. (s, select_pipe0 (the (tab s)))) (filter (\<lambda>s. s \<in> R \<and> tab s \<noteq> None) (rev [0..nfds - 1]))"
    "same_entries tab tab3"
proof -
  let ?uw = "\<lambda>e. if (case cn_boot (me_conn e) of Some bs \<Rightarrow> bs_status bs \<noteq> EINPROGRESS | None \<Rightarrow> False)
      then e\<lparr>write_ready_bytes := write_ready_bytes e + 1\<rparr> else e"
  let ?ur = "\<lambda>e. if data_is_ready (incoming_irobs (me_sk e)) then mc_interrupt_waiters (clear_select_pipe e) else clear_select_pipe e"
  have "get_fds_for_select False True e = Inr ([(s, write_ready_pipe0 e)], ?uw e)" if "tab s = Some e" for s e
    using table_okD(1,6) [OF ok that] by (auto simp: get_fds_for_select_def)
  then obtain m1 tab2 where 1: "make_real_fd_set nfds False True W (nfds - 1) tab =
      Inr (W - dom tab \<union> (\<lambda>s. write_ready_pipe0 (the (tab s))) ` (W \<inter> dom tab),
        map (\<lambda>s. (s, write_ready_pipe0 (the (tab s)))) (filter (\<lambda>s. s \<in> W \<and> tab s \<noteq> None) (rev [0..nfds - 1])), m1, tab2)"
    "same_entries tab tab2"
    using W table_okD(5) [OF ok] by (rule_tac real_fd_set_eq [of tab False True write_ready_pipe0 ?uw W nfds "nfds - 1"]) auto
  note same = same_entriesD [OF 1(2)] and ok2 = table_ok_same [OF 1(2) ok]
  have none: "tab2 s = None \<longleftrightarrow> tab s = None" for s using same(1) by blast
  have "get_fds_for_select True False e = Inr ([(s, select_pipe0 e)], ?ur e)" if "tab2 s = Some e" for s e
    using table_okD(1) [OF ok2 that] by (simp add: get_fds_for_select_def Let_def)
  then obtain m tab3 where 2: "make_real_fd_set nfds True False R m1 tab2 =
      Inr (R - dom tab2 \<union> (\<lambda>s. select_pipe0 (the (tab2 s))) ` (R \<inter> dom tab2),
        map (\<lambda>s. (s, select_pipe0 (the (tab2 s)))) (filter (\<lambda>s. s \<in> R \<and> tab2 s \<noteq> None) (rev [0..nfds - 1])), m, tab3)"
    "same_entries tab2 tab3"
    using R table_okD(3) [OF ok2] by (rule_tac real_fd_set_eq [of tab2 True False select_pipe0 ?ur R nfds m1])
      (auto simp: mc_interrupt_waiters_def clear_select_pipe_def)
  have "same_entries tab tab3" using 1(2) 2(2) by (simp add: same_entries_def)
  then show ?thesis using that 1(1) 2(1) by (simp add: real_fds_def same(1,2) none)
qed

lemma card_split:
  assumes "finite N" and "finite M" and "inj_on p M" and "p ` M \<inter> N = {}" and "N \<inter> M = {}"
  shows "card ((N \<union> p ` M) \<inter> Rd) = card ((N \<inter> Rd) \<union> {s \<in> M. p s \<in> Rd})"
proof -
  have img: "p ` M \<inter> Rd = p ` {s \<in> M. p s \<in> Rd}" by auto
  have "card (p ` M \<inter> Rd) = card {s \<in> M. p s \<in> Rd}"
    unfolding img by (rule card_image) (rule inj_on_subset [OF assms(3)], auto)
  moreover have "card ((N \<union> p ` M) \<inter> Rd) = card (N \<inter> Rd) + card (p ` M \<inter> Rd)"
    using assms by (subst card_Un_disjoint [symmetric]) (auto simp: Int_Un_distrib2)
  moreover have "card ((N \<inter> Rd) \<union> {s \<in> M. p s \<in> Rd}) = card (N \<inter> Rd) + card {s \<in> M. p s \<in> Rd}"
    using assms by (intro card_Un_disjoint) auto
  ultimately show ?thesis by simp
qed

lemma reported_split:
  "read_reported tab R Rd = ((R - dom tab) \<inter> Rd) \<union> {s \<in> R \<inter> dom tab. select_pipe0 (the (tab s)) \<in> Rd}"
  "write_reported tab W Rd Wd = ((W - dom tab) \<inter> Wd) \<union> {s \<in> W \<inter> dom tab. write_ready_pipe0 (the (tab s)) \<in> Rd}"
  by (auto simp: read_reported_def write_reported_def split: option.splits)

lemma reported_count:
  fixes R W :: "int set"
  assumes pr: "inj_on pr (R \<inter> M)" "pr ` (R \<inter> M) \<inter> (R \<union> W \<union> M) = {}" and pw: "inj_on pw (W \<inter> M)" "pw ` (W \<inter> M) \<inter> (R \<union> W \<union> M) = {}"
    and "pr ` (R \<inter> M) \<inter> pw ` (W \<inter> M) = {}" and "finite R" and "finite W"
  shows "card ((R - M \<union> pr ` (R \<inter> M) \<union> pw ` (W \<inter> M)) \<inter> Rd) + card ((W - M) \<inter> Wd) =
    card (((R - M) \<inter> Rd) \<union> {s \<in> R \<inter> M. pr s \<in> Rd}) + card (((W - M) \<inter> Wd) \<union> {s \<in> W \<inter> M. pw s \<in> Rd})"
proof -
  have "card ((R - M \<union> pr ` (R \<inter> M) \<union> pw ` (W \<inter> M)) \<inter> Rd) = card ((R - M \<union> pr ` (R \<inter> M)) \<inter> Rd) + card (pw ` (W \<inter> M) \<inter> Rd)"
    using assms by (subst card_Un_disjoint [symmetric]) (auto simp: Int_Un_distrib2)
  moreover have "card ((R - M \<union> pr ` (R \<inter> M)) \<inter> Rd) = card (((R - M) \<inter> Rd) \<union> {s \<in> R \<inter> M. pr s \<in> Rd})"
    using assms by (intro card_split) auto
  moreover have "card (({} \<union> pw ` (W \<inter> M)) \<inter> Rd) = card (({} \<inter> Rd) \<union> {s \<in> W \<inter> M. pw s \<in> Rd})"
    using assms by (intro card_split) auto
  moreover have "card (((W - M) \<inter> Wd) \<union> {s \<in> W \<inter> M. pw s \<in> Rd}) = card ((W - M) \<inter> Wd) + card {s \<in> W \<inter> M. pw s \<in> Rd}"
    using assms by (intro card_Un_disjoint) auto
  ultimately show ?thesis by simp
qed

lemma reported_sets:
  fixes R W :: "int set"
  assumes pr: "pr ` (R \<inter> M) \<inter> (R \<union> W \<union> M) = {}" and pw: "pw ` (W \<inter> M) \<inter> (R \<union> W \<union> M) = {}"
    and dj: "pr ` (R \<inter> M) \<inter> pw ` (W \<inter> M) = {}" and r: "r = (R - M \<union> pr ` (R \<inter> M) \<union> pw ` (W \<inter> M)) \<inter> Rd"
  shows "r - pw ` (W \<inter> M) - pr ` (R \<inter> M) \<union> {s \<in> R \<inter> M. pr s \<in> r - pw ` (W \<inter> M)} =
      ((R - M) \<inter> Rd) \<union> {s \<in> R \<inter> M. pr s \<in> Rd}"
    "(W - M) \<inter> Wd \<union> (r \<inter> pw ` (W \<inter> M)) - pw ` (W \<inter> M) \<union> {s \<in> W \<inter> M. pw s \<in> (W - M) \<inter> Wd \<union> (r \<inter> pw ` (W \<inter> M))} =
      ((W - M) \<inter> Wd) \<union> {s \<in> W \<inter> M. pw s \<in> Rd}"
    "(r - pw ` (W \<inter> M)) \<inter> (R \<inter> M) = {}" "((W - M) \<inter> Wd \<union> (r \<inter> pw ` (W \<inter> M))) \<inter> (W \<inter> M) = {}"
proof -
  let ?P = "pw ` (W \<inter> M)"
  have 1: "r - ?P = (R - M \<union> pr ` (R \<inter> M)) \<inter> Rd" unfolding r using pw dj by blast
  have 2: "r \<inter> ?P = ?P \<inter> Rd" unfolding r by blast
  have 3: "s \<in> R \<inter> M \<Longrightarrow> pr s \<in> (R - M \<union> pr ` (R \<inter> M)) \<inter> Rd \<longleftrightarrow> pr s \<in> Rd" for s by blast
  have 4: "s \<in> W \<inter> M \<Longrightarrow> pw s \<in> (W - M) \<inter> Wd \<union> (?P \<inter> Rd) \<longleftrightarrow> pw s \<in> Rd" for s using pw by blast
  show "r - ?P - pr ` (R \<inter> M) \<union> {s \<in> R \<inter> M. pr s \<in> r - ?P} = ((R - M) \<inter> Rd) \<union> {s \<in> R \<inter> M. pr s \<in> Rd}"
    unfolding 1 using 3 pr by blast
  show "(W - M) \<inter> Wd \<union> (r \<inter> ?P) - ?P \<union> {s \<in> W \<inter> M. pw s \<in> (W - M) \<inter> Wd \<union> (r \<inter> ?P)} =
      ((W - M) \<inter> Wd) \<union> {s \<in> W \<inter> M. pw s \<in> Rd}" unfolding 2 using 4 pw by blast
  show "(r - ?P) \<inter> (R \<inter> M) = {}" unfolding 1 using pr by blast
  show "((W - M) \<inter> Wd \<union> (r \<inter> ?P)) \<inter> (W \<inter> M) = {}" unfolding 2 using pw by blast
qed

lemma table_ok_distinct:
  assumes "table_ok tab A" and "tab s = Some e" and "tab s' = Some e'"
  shows "select_pipe0 e \<noteq> write_ready_pipe0 e'" "select_pipe0 e = select_pipe0 e' \<Longrightarrow> s = s'"
    "write_ready_pipe0 e = write_ready_pipe0 e' \<Longrightarrow> s = s'"
  using assms unfolding table_ok_def by blast+

lemma table_pipes:
  assumes ok: "table_ok tab (R \<union> W)"
  defines "pr \<equiv> \<lambda>s. select_pipe0 (the (tab s))" and "pw \<equiv> \<lambda>s. write_ready_pipe0 (the (tab s))"
  shows "inj_on pr (R \<inter> dom tab)" "pr ` (R \<inter> dom tab) \<inter> (R \<union> W \<union> dom tab) = {}" "inj_on pw (W \<inter> dom tab)"
    "pw ` (W \<inter> dom tab) \<inter> (R \<union> W \<union> dom tab) = {}" "pr ` (R \<inter> dom tab) \<inter> pw ` (W \<inter> dom tab) = {}"
proof -
  show "inj_on pr (R \<inter> dom tab)" using table_ok_distinct(2) [OF ok] by (fastforce simp: inj_on_def pr_def)
  show "inj_on pw (W \<inter> dom tab)" using table_ok_distinct(3) [OF ok] by (fastforce simp: inj_on_def pw_def)
  show "pr ` (R \<inter> dom tab) \<inter> pw ` (W \<inter> dom tab) = {}" using table_ok_distinct(1) [OF ok] by (fastforce simp: pr_def pw_def)
  show "pr ` (R \<inter> dom tab) \<inter> (R \<union> W \<union> dom tab) = {}" "pw ` (W \<inter> dom tab) \<inter> (R \<union> W \<union> dom tab) = {}"
    using table_okD(2-5) [OF ok] by (fastforce simp: pr_def pw_def)+
qed

lemma blocked_same:
  assumes "same_entries tab tab'" and "R \<subseteq> {0..<nfds}"
  shows "(\<exists>i\<in>set [0..nfds - 1]. i \<in> read_reported tab R Rd \<and> (\<exists>e. tab' i = Some e \<and> will_block_on_read (me_sk e))) =
    (\<exists>s\<in>read_reported tab R Rd. \<exists>e. tab s = Some e \<and> will_block_on_read (me_sk e))"
proof -
  have "(\<exists>e. tab' i = Some e \<and> will_block_on_read (me_sk e)) = (\<exists>e. tab i = Some e \<and> will_block_on_read (me_sk e))" for i
    using same_entriesD(4) [OF assms(1), of i] by (cases "tab i"; cases "tab' i") simp_all
  moreover have "i \<in> set [0..nfds - 1]" if "i \<in> read_reported tab R Rd" for i using that assms(2) by (auto simp: read_reported_def)
  ultimately show ?thesis by auto
qed

text \<open>The sets that the system call leaves, with the multisockets put back for their descriptors.\<close>

lemma mapped_back:
  fixes tab :: sock_table
  defines "M \<equiv> dom tab" and "pr \<equiv> \<lambda>s. select_pipe0 (the (tab s))" and "pw \<equiv> \<lambda>s. write_ready_pipe0 (the (tab s))"
  assumes ok: "table_ok tab (R \<union> W)" and ms: "set mr = R \<inter> M" "set mw = W \<inter> M" "distinct mr" "distinct mw"
    and r: "r = (R - M \<union> pr ` (R \<inter> M) \<union> pw ` (W \<inter> M)) \<inter> Rd"
  shows "make_mc_fd_set (map (\<lambda>s. (s, pr s)) mr) (r - pw ` (W \<inter> M)) = (0, read_reported tab R Rd)"
    and "make_mc_fd_set (map (\<lambda>s. (s, pw s)) mw) ((W - M) \<inter> Wd \<union> (r \<inter> pw ` (W \<inter> M))) = (0, write_reported tab W Rd Wd)"
proof -
  note pipes = table_pipes [OF ok, folded M_def pr_def pw_def]
  note rep = reported_sets [OF pipes(2,4,5) r]
  have "make_mc_fd_set (map (\<lambda>s. (s, pr s)) mr) (r - pw ` (W \<inter> M)) = (0, r - pw ` (W \<inter> M) - pr ` set mr \<union> {s \<in> set mr. pr s \<in> r - pw ` (W \<inter> M)})"
    by (rule make_mc_fd_set_eq [OF ms(3)], unfold ms) (use pipes(1,2) rep(3) in blast)+
  then show "make_mc_fd_set (map (\<lambda>s. (s, pr s)) mr) (r - pw ` (W \<inter> M)) = (0, read_reported tab R Rd)"
    unfolding ms rep(1) unfolding reported_split M_def pr_def pw_def .
  let ?w = "(W - M) \<inter> Wd \<union> (r \<inter> pw ` (W \<inter> M))"
  have "make_mc_fd_set (map (\<lambda>s. (s, pw s)) mw) ?w = (0, ?w - pw ` set mw \<union> {s \<in> set mw. pw s \<in> ?w})"
    by (rule make_mc_fd_set_eq [OF ms(4)], unfold ms) (use pipes(3,4) rep(4) in blast)+
  then show "make_mc_fd_set (map (\<lambda>s. (s, pw s)) mw) ?w = (0, write_reported tab W Rd Wd)"
    unfolding ms rep(2) unfolding reported_split M_def pr_def pw_def .
qed


section \<open>poll\<close>

record pollfd =
  pfd :: int
  events :: "16 word"
  revents :: "16 word"

definition POLLIN :: "16 word" where "POLLIN = 0x1"
definition POLLOUT :: "16 word" where "POLLOUT = 0x4"

text \<open>
  The real descriptors to poll, and for each of them the entry of the application that it stands for:
  \<^verbatim>\<open>osfds_to_pollfds\<close> holds indexes in place of pointers.
\<close>

type_synonym poll_state = "pollfd list \<times> (int \<Rightarrow> nat option) \<times> sock_table"

definition real_pollfd :: "mc_entry \<Rightarrow> pollfd \<Rightarrow> int \<Rightarrow> pollfd result" where
  "real_pollfd e p fd =
     (if fd = select_pipe0 e then ASSERT (events p AND POLLIN \<noteq> 0) (Inr (p\<lparr>pfd := fd, events := POLLIN\<rparr>))
      else if fd = write_ready_pipe0 e then ASSERT (events p AND POLLOUT \<noteq> 0) (Inr (p\<lparr>pfd := fd, events := POLLIN\<rparr>))
      else Inr (p\<lparr>pfd := fd\<rparr>))"

definition add_real :: "mc_entry \<Rightarrow> pollfd \<Rightarrow> nat \<Rightarrow> int \<times> int \<Rightarrow> pollfd list \<times> (int \<Rightarrow> nat option) \<Rightarrow>
    (pollfd list \<times> (int \<Rightarrow> nat option)) result" where
  "add_real e p i mf st =
     (let (reals, origs) = st
      in bindE (real_pollfd e p (snd mf)) (\<lambda>q. Inr (reals @ [q], origs(snd mf \<mapsto> i))))"

text \<open>One round of the loop over the application's entries; the result \<open>False\<close> is the return with \<^verbatim>\<open>ENOTCONN\<close>.\<close>

definition poll_entry :: "nat \<times> pollfd \<Rightarrow> poll_state \<Rightarrow> (bool \<times> poll_state) result" where
  "poll_entry ip st =
     (let (i, p) = ip; (reals, origs, tab) = st
      in case tab (pfd p) of
           None \<Rightarrow> Inr (True, reals @ [p], origs(pfd p \<mapsto> i), tab)
         | Some e \<Rightarrow>
             bindE (if events p AND POLLIN \<noteq> 0 then get_fds_for_select True False e else Inr ([], e)) (\<lambda>(l1, e1).
             bindE (if events p AND POLLOUT \<noteq> 0 then get_fds_for_select False True e1 else Inr ([], e1)) (\<lambda>(l2, e2).
               if l1 @ l2 = [] then Inr (False, st)
               else bindE (foldE (add_real e p i) (l1 @ l2) (reals, origs)) (\<lambda>(reals1, origs1).
                      Inr (True, reals1, origs1, tab(pfd p \<mapsto> e2))))))"

fun poll_entries :: "(nat \<times> pollfd) list \<Rightarrow> poll_state \<Rightarrow> (bool \<times> poll_state) result" where
  "poll_entries [] st = Inr (True, st)"
| "poll_entries (ip # ips) st =
     bindE (poll_entry ip st) (\<lambda>(go, st1). if go then poll_entries ips st1 else Inr (False, st1))"

text \<open>
  One round of the loop over the results. The entry \<open>i\<close> of the real descriptors is looked up with the
  entry \<open>i\<close> of the application's array, which may be another one or beyond its end.
\<close>

type_synonym poll_result = "int \<times> pollfd list \<times> int set \<times> sock_table"

definition poll_back :: "(int \<Rightarrow> nat option) \<Rightarrow> nat \<times> pollfd \<Rightarrow> poll_result \<Rightarrow> poll_result result" where
  "poll_back origs iq st =
     (let (i, q) = iq; (rc, fds, seen, tab) = st
      in case origs (pfd q) of
           None \<Rightarrow> Inl AssertFailed
         | Some k \<Rightarrow>
             if i \<ge> length fds \<or> k \<ge> length fds then Inl OutOfBounds
             else let (orig, tab1) =
                        (case tab (pfd (fds ! i)) of
                           None \<Rightarrow> ((fds ! k)\<lparr>revents := revents q\<rparr>, tab)
                         | Some e \<Rightarrow>
                             let re = (if pfd q = write_ready_pipe0 e \<and> revents q AND POLLIN \<noteq> 0 then POLLOUT else revents q);
                                 o1 = (fds ! k)\<lparr>revents := revents (fds ! k) OR re\<rparr>;
                                 e1 = (if revents o1 AND POLLIN \<noteq> 0 then clear_select_pipe e else e);
                                 e2 = (if revents o1 AND POLLOUT \<noteq> 0 then clear_write_ready_pipe e1 else e1)
                             in (o1, tab(pfd (fds ! i) \<mapsto> e2)));
                      hit = revents orig AND (POLLIN OR POLLOUT) \<noteq> 0
                  in Inr (if hit \<and> pfd orig \<in> seen then rc - 1 else rc, fds[k := orig],
                          if hit then insert (pfd orig) seen else seen, tab1))"

text \<open>The result is the return code, \<^verbatim>\<open>errno\<close> where it is set, the array and the multisockets.\<close>

definition mc_poll :: "(pollfd list \<Rightarrow> int \<times> pollfd list) \<Rightarrow> pollfd list \<Rightarrow> sock_table \<Rightarrow>
    (int \<times> int option \<times> pollfd list \<times> sock_table) result" where
  "mc_poll poll_sys fds tab =
     (let fds0 = map (\<lambda>p. p\<lparr>revents := 0\<rparr>) fds
      in bindE (poll_entries (enumerate 0 fds0) ([], Map.empty, tab)) (\<lambda>(go, reals, origs, tab1).
           if \<not> go then Inr (-1, Some ENOTCONN, fds0, tab1)
           else let (rc, polled) = poll_sys reals
                in if rc \<le> 0 then Inr (rc, None, fds0, tab1)
                   else bindE (foldE (poll_back origs) (enumerate 0 polled) (rc, fds0, {}, tab1)) (\<lambda>(rc2, fds2, _, tab2).
                          Inr (rc2, None, fds2, tab2))))"

lemma poll_bits [simp]: "POLLIN \<noteq> 0" "POLLOUT \<noteq> 0"
  by (simp_all add: POLLIN_def POLLOUT_def)

text \<open>
  Polling a multisocket for reading and writing at once reads beyond the caller's array: it stands
  for two real descriptors, and when \<^verbatim>\<open>poll\<close> finds one of them ready, the second result is looked up with
  the second entry of an array that has only one. (Where the array is longer, it is looked up
  with the entry of another descriptor.)
\<close>

theorem poll_both_events_past_the_end:
  assumes "table_ok tab {s}" and "tab s = Some e" and "events p = POLLIN OR POLLOUT" and "pfd p = s"
    and "poll_sys [p\<lparr>pfd := select_pipe0 e, events := POLLIN, revents := 0\<rparr>,
        p\<lparr>pfd := write_ready_pipe0 e, events := POLLIN, revents := 0\<rparr>] =
      (rc, [p\<lparr>pfd := select_pipe0 e, events := POLLIN, revents := r1\<rparr>,
        p\<lparr>pfd := write_ready_pipe0 e, events := POLLIN, revents := r2\<rparr>])" and "0 < rc"
  shows "mc_poll poll_sys [p] tab = Inl OutOfBounds"
proof -
  let ?p = "p\<lparr>revents := 0\<rparr>"
  note d = table_okD [OF assms(1,2)] and ne = table_ok_distinct(1) [OF assms(1,2,2)]
  obtain bs where bs: "cn_boot (me_conn e) = Some bs" using d(6) by blast
  obtain e1 where e1: "get_fds_for_select True False e = Inr ([(s, select_pipe0 e)], e1)"
      "me_conn e1 = me_conn e" "write_ready_pipe0 e1 = write_ready_pipe0 e"
    using d(1) by (auto simp: get_fds_for_select_def Let_def mc_interrupt_waiters_def clear_select_pipe_def)
  obtain e2 where e2: "get_fds_for_select False True e1 = Inr ([(s, write_ready_pipe0 e)], e2)"
    using d(1) bs e1(2,3) by (auto simp: get_fds_for_select_def)
  let ?q1 = "p\<lparr>pfd := select_pipe0 e, events := POLLIN, revents := 0\<rparr>"
    and ?q2 = "p\<lparr>pfd := write_ready_pipe0 e, events := POLLIN, revents := 0\<rparr>"
  have "real_pollfd e ?p (select_pipe0 e) = Inr ?q1" "real_pollfd e ?p (write_ready_pipe0 e) = Inr ?q2"
    using ne assms(3) by (cases p; simp add: real_pollfd_def)+
  then have "poll_entry (0, ?p) ([], Map.empty, tab) =
      Inr (True, [?q1, ?q2], [select_pipe0 e \<mapsto> 0, write_ready_pipe0 e \<mapsto> 0], tab(s \<mapsto> e2))"
    using assms(2-4) e1(1) e2 by (simp add: poll_entry_def add_real_def)
  moreover have "\<exists>st. poll_back [select_pipe0 e \<mapsto> 0, write_ready_pipe0 e \<mapsto> 0]
      (0, p\<lparr>pfd := select_pipe0 e, events := POLLIN, revents := r1\<rparr>) (rc, [?p], {}, tab(s \<mapsto> e2)) = Inr st \<and> length (fst (snd st)) = 1"
    using ne by (auto simp: poll_back_def Let_def split: prod.splits)
  moreover have "poll_back [select_pipe0 e \<mapsto> 0, write_ready_pipe0 e \<mapsto> 0] (1, q) st = Inl OutOfBounds"
    if "pfd q = write_ready_pipe0 e" "length (fst (snd st)) = 1" for q st
    using that by (cases st) (simp add: poll_back_def)
  ultimately show ?thesis using assms(5,6) by (auto simp: mc_poll_def)
qed

section \<open>Examples\<close>

text \<open>A multisocket with descriptor 5, which has connected.\<close>

definition demo_entry :: mc_entry where
  "demo_entry = \<lparr>me_conn = \<lparr>cn_sk = new_msocket 5 Map.empty [], cn_boot = Some ((new_bootstrapper (-1))\<lparr>bs_status := 0\<rparr>),
     cn_listener = Some 42424\<rparr>, select_pipe0 = 10, write_ready_pipe0 = 12, select_bytes = 0, write_ready_bytes = 0,
     osfd_of = \<lambda>_. 14\<rparr>"

definition demo_table :: sock_table where
  "demo_table = [5 \<mapsto> demo_entry]"

lemma demo_table_ok: "table_ok demo_table A" if "A \<subseteq> {3, 5}" for A
  using that by (auto simp: table_ok_def demo_table_def demo_entry_def new_msocket_def split: if_splits)


text \<open>Witness: the same multisocket, polled for both.\<close>

theorem poll_both_events_past_the_end_witness:
  "mc_poll (\<lambda>l. (1, map (\<lambda>p. p\<lparr>revents := POLLIN\<rparr>) l)) [\<lparr>pfd = 5, events = POLLIN OR POLLOUT, revents = 0\<rparr>] demo_table = Inl OutOfBounds"
  using poll_both_events_past_the_end [OF demo_table_ok [of "{5}"], of demo_entry "\<lparr>pfd = 5, events = POLLIN OR POLLOUT, revents = 0\<rparr>"
      "\<lambda>l. (1, map (\<lambda>p. p\<lparr>revents := POLLIN\<rparr>) l)" 1 POLLIN POLLIN]
  by (simp add: demo_table_def)

end
