(* ===== verification/Socket_API.thy ===== *)
theory Socket_API
  imports Select_Poll Multisocket_Order CSock_Mapping_Inv
begin

text \<open>
  The interface to the application: libcmm.cpp and libcmm_irob.cpp, the operations of cmm_socket_impl.cpp
  that they call with the tables of the whole process, and cmm_socket_passthrough.cpp for descriptors
  that are no multisockets. \<^verbatim>\<open>cmm_sock_hash\<close> is a map ordered by descriptor. The cached estimates and the
  thunks, which the model keeps with a multisocket, belong to the process: they are lent to a
  multisocket while an operation runs on it. \<^verbatim>\<open>errno\<close> is part of the state. System calls on descriptors
  that are no multisockets are a parameter, with their result and the \<^verbatim>\<open>errno\<close> of a failure. A thread
  that has to wait for a network ends the model of its call with \<open>ApiWaits\<close>; it goes on in the steps
  of \<^term>\<open>app_step\<close> for a woken thread.
\<close>

section \<open>State\<close>

record process =
  cmm_sock_hash :: "(int \<times> mc_entry) list"
  cmm_listeners :: "int set"
  irob_sock_hash :: "irob_id_t \<Rightarrow> int option"
  g_next_irob :: irob_id_t
  p_ifaces :: "net_interface list"
  p_stats :: stats_cache
  p_thunks :: thunk_hash
  errno :: int

datatype sys_call =
    SysSend int "byte list" int
  | SysWritev int "byte list list"
  | SysClose int
  | SysShutdown int int
  | SysListen int int
  | SysSocket int int int
  | SysSetsockopt int int int "byte list"

type_synonym os = "sys_call \<Rightarrow> int \<times> int"

datatype api_out = Ret int | ApiWaits "sender_irob option"

type_synonym api_result = "(api_out \<times> process) result"

definition EBADF :: int where "EBADF = 9"

definition fails :: "int \<Rightarrow> process \<Rightarrow> api_result" where
  "fails e P = Inr (Ret (-1), P\<lparr>errno := e\<rparr>)"

definition call_os :: "os \<Rightarrow> sys_call \<Rightarrow> process \<Rightarrow> api_result" where
  "call_os os c P = (let (rc, e) = os c in Inr (Ret rc, if rc < 0 then P\<lparr>errno := e\<rparr> else P))"

section \<open>Finding a multisocket\<close>

definition lookup :: "int \<Rightarrow> process \<Rightarrow> mc_entry option" where
  "lookup s P = map_of (cmm_sock_hash P) s"

text \<open>\<open>Inl\<close>: a pass-through socket with this descriptor.\<close>

definition lookup_by_irob :: "irob_id_t \<Rightarrow> process \<Rightarrow> int + (int \<times> mc_entry)" where
  "lookup_by_irob i P =
     (case irob_sock_hash P i of
        None \<Rightarrow> Inl (-1)
      | Some s \<Rightarrow> (case lookup s P of None \<Rightarrow> Inl s | Some e \<Rightarrow> Inr (s, e)))"

definition lent :: "process \<Rightarrow> mc_entry \<Rightarrow> msocket" where
  "lent P e = (me_sk e)\<lparr>stats_cache_of := p_stats P, thunk_hash_of := p_thunks P\<rparr>"

definition put_sock :: "int \<Rightarrow> msocket \<Rightarrow> process \<Rightarrow> process" where
  "put_sock s sk P =
     P\<lparr>cmm_sock_hash := map (\<lambda>(k, e). (k, if k = s then e\<lparr>me_conn := (me_conn e)\<lparr>cn_sk := sk\<rparr>\<rparr> else e)) (cmm_sock_hash P),
       p_stats := stats_cache_of sk, p_thunks := thunk_hash_of sk\<rparr>"

definition finish_call :: "int \<Rightarrow> (app_outcome \<times> msocket) result \<Rightarrow> process \<Rightarrow> api_result" where
  "finish_call s r P =
     bindE r (\<lambda>(out, sk). Inr (case out of Returns rc \<Rightarrow> Ret rc | Waits p \<Rightarrow> ApiWaits p, put_sock s sk P))"

text \<open>\<^verbatim>\<open>mc_send\<close>, \<^verbatim>\<open>mc_writev\<close> and \<^verbatim>\<open>mc_recv\<close> start with the same test of the connection.\<close>

definition if_connected :: "mc_entry \<Rightarrow> (process \<Rightarrow> api_result) \<Rightarrow> process \<Rightarrow> api_result" where
  "if_connected e f P =
     (let st = connect_status (me_conn e)
      in if st \<noteq> 0 then fails (if st = EINPROGRESS then EAGAIN else ENOTCONN) P else f P)"

definition next_irob :: "process \<Rightarrow> process" where
  "next_irob P = P\<lparr>g_next_irob := g_next_irob P + 1\<rparr>"

section \<open>Sending\<close>

definition mc_send :: "sys_env \<Rightarrow> timeval \<Rightarrow> int \<Rightarrow> mc_entry \<Rightarrow> byte list \<Rightarrow> u_long \<Rightarrow> nat option \<Rightarrow> nat \<Rightarrow> process \<Rightarrow> api_result" where
  "mc_send sys now s e buf labels handler arg P =
     (if length buf \<ge> 2 ^ 63 then fails EINVAL P
      else if_connected e (\<lambda>P. finish_call s
             (default_irob sys now (g_next_irob P) buf labels handler arg (lent P e)) (next_irob P)) P)"

definition cmm_send :: "os \<Rightarrow> sys_env \<Rightarrow> timeval \<Rightarrow> int \<Rightarrow> byte list \<Rightarrow> int \<Rightarrow> u_long \<Rightarrow> nat option \<Rightarrow> nat \<Rightarrow> process \<Rightarrow> api_result" where
  "cmm_send os sys now s buf flags labels handler arg P =
     (case lookup s P of
        None \<Rightarrow> call_os os (SysSend s buf flags) P
      | Some e \<Rightarrow> mc_send sys now s e buf labels handler arg P)"

definition cmm_write :: "os \<Rightarrow> sys_env \<Rightarrow> timeval \<Rightarrow> int \<Rightarrow> byte list \<Rightarrow> u_long \<Rightarrow> nat option \<Rightarrow> nat \<Rightarrow> process \<Rightarrow> api_result" where
  "cmm_write os sys now s buf labels handler arg P = cmm_send os sys now s buf 0 labels handler arg P"

text \<open>The sum of the lengths as a \<^verbatim>\<open>ssize_t\<close>, with the test for overflow after every addition.\<close>

fun total_bytes :: "int \<Rightarrow> byte list list \<Rightarrow> int option" where
  "total_bytes acc [] = Some acc"
| "total_bytes acc (v # vec) =
     (let acc1 = to_long (acc + int (length v)) in if acc1 < acc then None else total_bytes acc1 vec)"

text \<open>\<open>None\<close> stands for a negative \<^verbatim>\<open>count\<close>, otherwise \<open>vec\<close> has \<^verbatim>\<open>count\<close> entries.\<close>

definition mc_writev :: "sys_env \<Rightarrow> timeval \<Rightarrow> int \<Rightarrow> mc_entry \<Rightarrow> byte list list option \<Rightarrow> u_long \<Rightarrow> nat option \<Rightarrow> nat \<Rightarrow> process \<Rightarrow>
    api_result" where
  "mc_writev sys now s e vec labels handler arg P =
     (case vec of
        None \<Rightarrow> fails EINVAL P
      | Some [] \<Rightarrow> Inr (Ret 0, P)
      | Some vs \<Rightarrow> if_connected e (\<lambda>P.
          case total_bytes 0 vs of
            None \<Rightarrow> fails EINVAL P
          | Some n \<Rightarrow> finish_call s
              (default_irob_writev sys now (g_next_irob P) vs (nat n) labels handler arg (lent P e)) (next_irob P)) P)"

definition cmm_writev :: "os \<Rightarrow> sys_env \<Rightarrow> timeval \<Rightarrow> int \<Rightarrow> byte list list option \<Rightarrow> u_long \<Rightarrow> nat option \<Rightarrow> nat \<Rightarrow> process \<Rightarrow>
    api_result" where
  "cmm_writev os sys now s vec labels handler arg P =
     (case lookup s P of
        None \<Rightarrow> call_os os (SysWritev s (case vec of Some vs \<Rightarrow> vs | None \<Rightarrow> [])) P
      | Some e \<Rightarrow> mc_writev sys now s e vec labels handler arg P)"

section \<open>IROBs\<close>

definition register_irob :: "irob_id_t \<Rightarrow> int \<Rightarrow> process \<Rightarrow> process result" where
  "register_irob i s P = ASSERT (irob_sock_hash P i = None) (Inr (P\<lparr>irob_sock_hash := (irob_sock_hash P)(i \<mapsto> s)\<rparr>))"

definition mc_begin_irob ::
  "sys_env \<Rightarrow> timeval \<Rightarrow> int \<Rightarrow> mc_entry \<Rightarrow> nat \<Rightarrow> int list option \<Rightarrow> u_long \<Rightarrow> nat option \<Rightarrow> nat \<Rightarrow> process \<Rightarrow> api_result" where
  "mc_begin_irob sys now s e numdeps deps_array labels handler arg P =
     (let i = g_next_irob P
      in bindE (finish_call s (begin_irob sys now i numdeps deps_array labels handler arg (lent P e)) (next_irob P)) (\<lambda>(r, P1).
           case r of
             ApiWaits p \<Rightarrow> Inr (ApiWaits p, P1)
           | Ret rc \<Rightarrow> if rc < 0 then Inr (Ret rc, P1) else bindE (register_irob i s P1) (\<lambda>P2. Inr (Ret i, P2))))"

definition api_begin_irob ::
  "sys_env \<Rightarrow> timeval \<Rightarrow> int \<Rightarrow> nat \<Rightarrow> int list option \<Rightarrow> u_long \<Rightarrow> nat option \<Rightarrow> nat \<Rightarrow> process \<Rightarrow> api_result" where
  "api_begin_irob sys now s numdeps deps_array labels handler arg P =
     (case lookup s P of
        None \<Rightarrow> fails EBADF P
      | Some e \<Rightarrow> mc_begin_irob sys now s e numdeps deps_array labels handler arg P)"

definition mc_end_irob :: "sys_env \<Rightarrow> int \<Rightarrow> mc_entry \<Rightarrow> irob_id_t \<Rightarrow> process \<Rightarrow> api_result" where
  "mc_end_irob sys s e i P =
     bindE (finish_call s (end_irob sys i (lent P e)) P) (\<lambda>(r, P1).
       Inr (r, if r = Ret 0 then P1\<lparr>irob_sock_hash := (irob_sock_hash P1)(i := None)\<rparr> else P1))"

definition api_end_irob :: "sys_env \<Rightarrow> irob_id_t \<Rightarrow> process \<Rightarrow> api_result" where
  "api_end_irob sys i P =
     (case lookup_by_irob i P of Inl _ \<Rightarrow> fails EBADF P | Inr (s, e) \<Rightarrow> mc_end_irob sys s e i P)"

definition mc_irob_send :: "sys_env \<Rightarrow> int \<Rightarrow> mc_entry \<Rightarrow> irob_id_t \<Rightarrow> byte list \<Rightarrow> process \<Rightarrow> api_result" where
  "mc_irob_send sys s e i buf P = finish_call s (irob_chunk sys i buf (lent P e)) P"

definition irob_send :: "sys_env \<Rightarrow> irob_id_t \<Rightarrow> byte list \<Rightarrow> process \<Rightarrow> api_result" where
  "irob_send sys i buf P =
     (case lookup_by_irob i P of Inl _ \<Rightarrow> fails EBADF P | Inr (s, e) \<Rightarrow> mc_irob_send sys s e i buf P)"

text \<open>The length of the copy is an \<^verbatim>\<open>int\<close>: where it is not the sum of the lengths, the copy runs out of its
  buffer.\<close>

definition mc_irob_writev :: "sys_env \<Rightarrow> int \<Rightarrow> mc_entry \<Rightarrow> irob_id_t \<Rightarrow> byte list list option \<Rightarrow> process \<Rightarrow> api_result" where
  "mc_irob_writev sys s e i vec P =
     (case vec of
        None \<Rightarrow> fails EINVAL P
      | Some vs \<Rightarrow>
          if vs = [] \<or> [] \<in> set vs then fails EINVAL P
          else if to_int (int (length (concat vs))) \<noteq> int (length (concat vs)) then Inl OutOfBounds
          else mc_irob_send sys s e i (concat vs) P)"

definition irob_writev :: "sys_env \<Rightarrow> irob_id_t \<Rightarrow> byte list list option \<Rightarrow> process \<Rightarrow> api_result" where
  "irob_writev sys i vec P =
     (case lookup_by_irob i P of Inl _ \<Rightarrow> fails EBADF P | Inr (s, e) \<Rightarrow> mc_irob_writev sys s e i vec P)"

definition api_irob_relabel :: "irob_id_t \<Rightarrow> u_long \<Rightarrow> process \<Rightarrow> api_result" where
  "api_irob_relabel i labels P =
     (case lookup_by_irob i P of
        Inl _ \<Rightarrow> fails EBADF P
      | Inr (s, e) \<Rightarrow> (let (rc, sk) = irob_relabel i labels (lent P e) in Inr (Ret rc, put_sock s sk P)))"

text \<open>
  One IROB with its data and dependencies. The result is the return value and, where all went well,
  the id given to the caller. The test of \<^verbatim>\<open>errno\<close> reads what the last failing call has left there.
\<close>

definition with_deps :: "(process \<Rightarrow> api_result) \<Rightarrow> (irob_id_t \<Rightarrow> process \<Rightarrow> api_result) \<Rightarrow> (process \<Rightarrow> api_result) \<Rightarrow>
    (irob_id_t \<Rightarrow> process \<Rightarrow> api_result) \<Rightarrow> process \<Rightarrow> (api_out \<times> irob_id_t option \<times> process) result" where
  "with_deps begins sends direct ends P =
     bindE (begins P) (\<lambda>(r, P1).
       case r of
         ApiWaits p \<Rightarrow> Inr (ApiWaits p, None, P1)
       | Ret i \<Rightarrow>
           if i < 0
           then if errno P1 = EBADF then bindE (direct P1) (\<lambda>(r, P2). Inr (r, None, P2)) else Inr (Ret i, None, P1)
           else bindE (sends i P1) (\<lambda>(r2, P2).
             case r2 of
               ApiWaits p \<Rightarrow> Inr (ApiWaits p, None, P2)
             | Ret n \<Rightarrow>
                 if n < 0 then Inr (Ret n, None, P2)
                 else bindE (ends i P2) (\<lambda>(r3, P3).
                   case r3 of
                     ApiWaits p \<Rightarrow> Inr (ApiWaits p, None, P3)
                   | Ret rc \<Rightarrow> if rc < 0 then Inr (Ret rc, None, P3) else Inr (Ret n, Some i, P3))))"

definition cmm_send_with_deps ::
  "os \<Rightarrow> sys_env \<Rightarrow> timeval \<Rightarrow> int \<Rightarrow> byte list \<Rightarrow> int \<Rightarrow> nat \<Rightarrow> int list option \<Rightarrow> u_long \<Rightarrow> nat option \<Rightarrow> nat \<Rightarrow> process \<Rightarrow>
   (api_out \<times> irob_id_t option \<times> process) result" where
  "cmm_send_with_deps os sys now s buf flags numdeps deps_array labels handler arg =
     with_deps (api_begin_irob sys now s numdeps deps_array labels handler arg) (\<lambda>i. irob_send sys i buf)
       (cmm_send os sys now s buf flags labels handler arg) (api_end_irob sys)"

definition cmm_write_with_deps ::
  "os \<Rightarrow> sys_env \<Rightarrow> timeval \<Rightarrow> int \<Rightarrow> byte list \<Rightarrow> nat \<Rightarrow> int list option \<Rightarrow> u_long \<Rightarrow> nat option \<Rightarrow> nat \<Rightarrow> process \<Rightarrow>
   (api_out \<times> irob_id_t option \<times> process) result" where
  "cmm_write_with_deps os sys now s buf = cmm_send_with_deps os sys now s buf 0"

definition cmm_writev_with_deps ::
  "os \<Rightarrow> sys_env \<Rightarrow> timeval \<Rightarrow> int \<Rightarrow> byte list list option \<Rightarrow> nat \<Rightarrow> int list option \<Rightarrow> u_long \<Rightarrow> nat option \<Rightarrow> nat \<Rightarrow> process \<Rightarrow>
   (api_out \<times> irob_id_t option \<times> process) result" where
  "cmm_writev_with_deps os sys now s vec numdeps deps_array labels handler arg =
     with_deps (api_begin_irob sys now s numdeps deps_array labels handler arg) (\<lambda>i. irob_writev sys i vec)
       (cmm_writev os sys now s vec labels handler arg) (api_end_irob sys)"

section \<open>Receiving\<close>

text \<open>
  \<^verbatim>\<open>mc_recv\<close> runs on the receiver's lattice of the multisocket. The result of \<^term>\<open>recv\<close> is turned into
  the return value; \<open>None\<close> in place of it means that the thread waits for data, with what it has got so
  far. A call that would block fails with \<^verbatim>\<open>EAGAIN\<close>.
\<close>

definition mc_recv :: "recv_flags \<Rightarrow> recv_env \<Rightarrow> nat \<Rightarrow> int \<Rightarrow> mc_entry \<Rightarrow> process \<Rightarrow>
    (int option \<times> byte list \<times> u_long option \<times> process) result" where
  "mc_recv flags env len s e P =
     (let st = connect_status (me_conn e)
      in if st \<noteq> 0
         then Inr (Some (-1), [], None, P\<lparr>errno := (if st = EINPROGRESS then EAGAIN else ENOTCONN)\<rparr>)
         else bindE (recv flags env len (incoming_irobs (me_sk e))) (\<lambda>r.
           case r of
             None \<Rightarrow> Inl OutOfFuel
           | Some (out, R) \<Rightarrow>
               let P1 = put_sock s ((lent P e)\<lparr>incoming_irobs := R\<rparr>) P
               in Inr (case out of
                         Received buf labels \<Rightarrow> (Some (int (length buf)), buf, labels, P1\<lparr>errno := 0\<rparr>)
                       | WouldBlock \<Rightarrow> (Some (-1), [], None, P1\<lparr>errno := EAGAIN\<rparr>)
                       | Waiting buf labels \<Rightarrow> (None, buf, labels, P1))))"

section \<open>Making and closing multisockets\<close>

definition PF_INET :: int where "PF_INET = 2"
definition SOCK_STREAM :: int where "SOCK_STREAM = 1"

text \<open>
  \<open>pipes\<close> are the reading ends of the two pairs of sockets that the constructor makes, or the result of
  the \<^verbatim>\<open>socketpair\<close> that failed, which is thrown and returned.
\<close>

definition create :: "os \<Rightarrow> int + (int \<times> int) \<Rightarrow> (csock_ref \<Rightarrow> int) \<Rightarrow> int \<Rightarrow> int \<Rightarrow> int \<Rightarrow> process \<Rightarrow> api_result" where
  "create os pipes osfds family stype protocol P =
     (if family \<noteq> PF_INET \<or> stype \<noteq> SOCK_STREAM then call_os os (SysSocket family stype protocol) P
      else let (s, e) = os (SysSocket family stype protocol)
           in if s < 0 then Inr (Ret s, P\<lparr>errno := e\<rparr>)
              else case pipes of
                     Inl rc \<Rightarrow> Inr (Ret rc, P)
                   | Inr (sp, wp) \<Rightarrow>
                       ASSERT (map_of (cmm_sock_hash P) s = None)
                         (Inr (Ret s, P\<lparr>cmm_sock_hash := insort_key fst
                            (s, \<lparr>me_conn = \<lparr>cn_sk = new_msocket s (p_stats P) (p_thunks P), cn_boot = None, cn_listener = None\<rparr>,
                                 select_pipe0 = sp, write_ready_pipe0 = wp, select_bytes = 0, write_ready_bytes = 0,
                                 osfd_of = osfds\<rparr>) (cmm_sock_hash P)\<rparr>)))"

text \<open>The multisocket is destroyed when its last user lets go of it, which is not modelled.\<close>

definition mc_close :: "os \<Rightarrow> sys_env \<Rightarrow> int \<Rightarrow> process \<Rightarrow> api_result" where
  "mc_close os sys s P =
     (case lookup s P of
        Some e \<Rightarrow>
          bindE (sk_goodbye sys False (lent P e)) (\<lambda>sk.
            let P1 = put_sock s sk P
            in Inr (Ret 0, P1\<lparr>cmm_sock_hash := filter (\<lambda>(k, _). k \<noteq> s) (cmm_sock_hash P1)\<rparr>))
      | None \<Rightarrow>
          if s \<in> cmm_listeners P
          then bindE (call_os os (SysClose s) (P\<lparr>cmm_listeners := cmm_listeners P - {s}\<rparr>)) (\<lambda>(_, P1). Inr (Ret 0, P1))
          else call_os os (SysClose s) P)"

text \<open>Shutting down the pipes is not modelled.\<close>

definition mc_shutdown :: "os \<Rightarrow> sys_env \<Rightarrow> int \<Rightarrow> int \<Rightarrow> process \<Rightarrow> api_result" where
  "mc_shutdown os sys s how P =
     (case lookup s P of
        None \<Rightarrow> call_os os (SysShutdown s how) P
      | Some e \<Rightarrow> bindE (sk_goodbye sys False (lent P e)) (\<lambda>sk. Inr (Ret 0, put_sock s sk P)))"

text \<open>\<open>family\<close> is the address family of the socket, where \<^verbatim>\<open>getsockname\<close> tells it, or else its \<^verbatim>\<open>errno\<close>.\<close>

definition ENOTSOCK :: int where "ENOTSOCK = 88"

definition mc_listen :: "os \<Rightarrow> int + int \<Rightarrow> int \<Rightarrow> int \<Rightarrow> process \<Rightarrow> api_result" where
  "mc_listen os family s backlog P =
     (case family of
        Inl e \<Rightarrow> fails (if e = ENOTSOCK then e else EBADF) P
      | Inr f \<Rightarrow> bindE (call_os os (SysListen s backlog) P) (\<lambda>(r, P1).
          case r of
            Ret rc \<Rightarrow> if rc < 0 \<or> f \<noteq> PF_INET then Inr (Ret rc, P1)
                      else Inr (Ret 0, P1\<lparr>cmm_listeners := insert s (cmm_listeners P1)\<rparr>)
          | ApiWaits p \<Rightarrow> Inr (ApiWaits p, P1)))"

section \<open>Updates from the scout\<close>

definition on_all :: "(msocket \<Rightarrow> msocket result) \<Rightarrow> process \<Rightarrow> process result" where
  "on_all f P =
     foldE (\<lambda>s P. case lookup s P of
         None \<Rightarrow> Inl AssertFailed
       | Some e \<Rightarrow> bindE (f (lent P e)) (\<lambda>sk. Inr (put_sock s sk P))) (map fst (cmm_sock_hash P)) P"

definition interface_up :: "sys_env \<Rightarrow> net_interface \<Rightarrow> process \<Rightarrow> process result" where
  "interface_up sys up P = on_all (sk_setup sys up True) (P\<lparr>p_ifaces := iface_insert up (p_ifaces P)\<rparr>)"

definition interface_down :: "net_interface \<Rightarrow> process \<Rightarrow> process result" where
  "interface_down down P = on_all (sk_teardown down True) (P\<lparr>p_ifaces := iface_erase down (p_ifaces P)\<rparr>)"

definition process_interface_update :: "sys_env \<Rightarrow> net_interface \<Rightarrow> bool \<Rightarrow> process \<Rightarrow> process result" where
  "process_interface_update sys iface down P = (if down then interface_down iface P else interface_up sys iface P)"

section \<open>Other calls\<close>

definition api_net_available :: "int \<Rightarrow> u_long \<Rightarrow> process \<Rightarrow> (bool \<times> process) result" where
  "api_net_available s labels P =
     (case lookup s P of
        None \<Rightarrow> Inr (False, P)
      | Some e \<Rightarrow> bindE (net_available labels (lent P e)) (\<lambda>(b, sk). Inr (b, put_sock s sk P)))"

definition mc_num_networks :: "int \<Rightarrow> process \<Rightarrow> nat" where
  "mc_num_networks s P = (case lookup s P of None \<Rightarrow> 1 | Some e \<Rightarrow> count (me_sk e))"

definition cmm_interrupt_waiters :: "int \<Rightarrow> process \<Rightarrow> process" where
  "cmm_interrupt_waiters s P =
     P\<lparr>cmm_sock_hash := map (\<lambda>(k, e). (k, if k = s then mc_interrupt_waiters e else e)) (cmm_sock_hash P)\<rparr>"

definition cmm_get_failure_timeout :: "int \<Rightarrow> u_long \<Rightarrow> bool \<Rightarrow> process \<Rightarrow> timeval option \<times> process" where
  "cmm_get_failure_timeout s label ts_given P =
     (case lookup s P of
        None \<Rightarrow> (None, P\<lparr>errno := EBADF\<rparr>)
      | Some e \<Rightarrow> (case mc_get_failure_timeout label ts_given (me_sk e) of
          None \<Rightarrow> (None, P\<lparr>errno := EINVAL\<rparr>)
        | Some t \<Rightarrow> (Some t, P)))"

definition cmm_set_failure_timeout :: "int \<Rightarrow> u_long \<Rightarrow> timeval option \<Rightarrow> process \<Rightarrow> api_result" where
  "cmm_set_failure_timeout s label ts P =
     (case lookup s P of
        None \<Rightarrow> fails EBADF P
      | Some e \<Rightarrow> (case mc_set_failure_timeout label ts (lent P e) of
          None \<Rightarrow> fails EINVAL P
        | Some sk \<Rightarrow> Inr (Ret 0, put_sock s sk P)))"

section \<open>Runs of the process\<close>

text \<open>
  \<open>api_run L W P\<close>: a process in the state \<open>P\<close> after any interleaving of the application's calls on any
  number of multisockets with the work of the other threads. \<open>L s\<close> are the IROBs sent so far on the
  multisocket \<open>s\<close>, and \<open>W\<close> the ids that were given to threads which now wait for a network.
\<close>

definition noted :: "app_log \<Rightarrow> irob_id_t \<Rightarrow> bool \<Rightarrow> api_out \<Rightarrow> app_log" where
  "noted log i a r = (case r of Ret rc \<Rightarrow> if rc < 0 then log else log @ [(i, a)] | ApiWaits _ \<Rightarrow> log)"

definition waiting :: "(int \<times> irob_id_t) set \<Rightarrow> int \<Rightarrow> irob_id_t \<Rightarrow> api_out \<Rightarrow> (int \<times> irob_id_t) set" where
  "waiting W s i r = (case r of Ret _ \<Rightarrow> W | ApiWaits _ \<Rightarrow> insert (s, i) W)"

inductive api_run :: "(int \<Rightarrow> app_log) \<Rightarrow> (int \<times> irob_id_t) set \<Rightarrow> process \<Rightarrow> bool" where
  api_start: "cmm_sock_hash P = [] \<Longrightarrow> irob_sock_hash P = Map.empty \<Longrightarrow> g_next_irob P = 0 \<Longrightarrow> api_run (\<lambda>_. []) {} P"
| api_create: "api_run L W P \<Longrightarrow> create os pipes osfds PF_INET SOCK_STREAM pr P = Inr (Ret s, P') \<Longrightarrow> 0 \<le> s \<Longrightarrow> pipes = Inr pp \<Longrightarrow>
    api_run (L(s := [])) {w \<in> W. fst w \<noteq> s} P'"
| api_send: "api_run L W P \<Longrightarrow> lookup s P = Some e \<Longrightarrow> id_ok (g_next_irob P) \<Longrightarrow>
    mc_send sys now s e buf labels handler arg P = Inr (r, P') \<Longrightarrow>
    api_run (L(s := noted (L s) (g_next_irob P) (buf \<noteq> []) r)) (waiting W s (g_next_irob P) r) P'"
| api_writev: "api_run L W P \<Longrightarrow> lookup s P = Some e \<Longrightarrow> id_ok (g_next_irob P) \<Longrightarrow> vec \<noteq> Some [] \<Longrightarrow>
    mc_writev sys now s e vec labels handler arg P = Inr (r, P') \<Longrightarrow>
    api_run (L(s := noted (L s) (g_next_irob P) (\<exists>vs n. vec = Some vs \<and> total_bytes 0 vs = Some n \<and> 0 < n) r)) (waiting W s (g_next_irob P) r) P'"
| api_begin: "api_run L W P \<Longrightarrow> lookup s P = Some e \<Longrightarrow> id_ok (g_next_irob P) \<Longrightarrow>
    \<forall>d\<in>set (case ds of Some l \<Rightarrow> l | None \<Rightarrow> []). id_ok d \<Longrightarrow>
    mc_begin_irob sys now s e n ds labels handler arg P = Inr (r, P') \<Longrightarrow>
    api_run (L(s := noted (L s) (g_next_irob P) False r)) (waiting W s (g_next_irob P) r) P'"
| api_chunk: "api_run L W P \<Longrightarrow> id_ok i \<Longrightarrow> irob_send sys i buf P = Inr (r, P') \<Longrightarrow> api_run L W P'"
| api_end: "api_run L W P \<Longrightarrow> id_ok i \<Longrightarrow> api_end_irob sys i P = Inr (r, P') \<Longrightarrow> api_run L W P'"
| api_close: "api_run L W P \<Longrightarrow> mc_close os sys s P = Inr (r, P') \<Longrightarrow> api_run L W P'"
| api_update: "api_run L W P \<Longrightarrow> process_interface_update sys iface down P = Inr P' \<Longrightarrow> api_run L W P'"
| api_woken: "api_run L W P \<Longrightarrow> lookup s P = Some e \<Longrightarrow> (s, i) \<in> W \<Longrightarrow> app_step (L s) (lent P e) (L s @ [(i, a)]) sk \<Longrightarrow>
    P' = (put_sock s sk P)\<lparr>irob_sock_hash := h\<rparr> \<Longrightarrow> h = irob_sock_hash P \<or> h = (irob_sock_hash P)(i \<mapsto> s) \<Longrightarrow>
    api_run (L(s := L s @ [(i, a)])) (W - {(s, i)}) P'"
| api_thread: "api_run L W P \<Longrightarrow> lookup s P = Some e \<Longrightarrow> app_step (L s) (lent P e) (L s) sk \<Longrightarrow> api_run L W (put_sock s sk P)"
| api_other: "api_run L W P \<Longrightarrow> g_next_irob P' = g_next_irob P \<Longrightarrow> irob_sock_hash P' = irob_sock_hash P \<Longrightarrow>
    map (\<lambda>(s, e). (s, outgoing_irobs (me_sk e))) (cmm_sock_hash P') = map (\<lambda>(s, e). (s, outgoing_irobs (me_sk e))) (cmm_sock_hash P) \<Longrightarrow>
    api_run L W P'"

definition socks_ok :: "(int \<Rightarrow> app_log) \<Rightarrow> process \<Rightarrow> bool" where
  "socks_ok L P \<longleftrightarrow> distinct (map fst (cmm_sock_hash P)) \<and> (\<forall>s e. lookup s P = Some e \<longrightarrow> app_run (L s) (me_sk e))"

text \<open>The ids that belong to a multisocket.\<close>

definition uses_id :: "(int \<Rightarrow> app_log) \<Rightarrow> (int \<times> irob_id_t) set \<Rightarrow> int \<Rightarrow> irob_id_t \<Rightarrow> bool" where
  "uses_id L W s i \<longleftrightarrow> i \<in> fst ` set (L s) \<or> (s, i) \<in> W"

definition ids_ok :: "(int \<Rightarrow> app_log) \<Rightarrow> (int \<times> irob_id_t) set \<Rightarrow> process \<Rightarrow> bool" where
  "ids_ok L W P \<longleftrightarrow>
     (\<forall>s i. uses_id L W s i \<longrightarrow> i < g_next_irob P) \<and>
     (\<forall>i. irob_sock_hash P i \<noteq> None \<longrightarrow> i < g_next_irob P) \<and>
     (\<forall>s s' i. uses_id L W s i \<longrightarrow> uses_id L W s' i \<longrightarrow> s = s') \<and>
     (\<forall>s i. (s, i) \<in> W \<longrightarrow> i \<notin> fst ` set (L s))"

lemma ids_okD:
  assumes "ids_ok L W P"
  shows "uses_id L W s i \<Longrightarrow> i < g_next_irob P" "irob_sock_hash P i \<noteq> None \<Longrightarrow> i < g_next_irob P"
    "uses_id L W s i \<Longrightarrow> uses_id L W s' i \<Longrightarrow> s = s'" "(s, i) \<in> W \<Longrightarrow> i \<notin> fst ` set (L s)"
  using assms unfolding ids_ok_def by simp_all

lemma ids_okI:
  assumes "\<And>s i. (s, i) \<in> W \<Longrightarrow> i \<notin> fst ` set (L s)" and "\<And>s i. uses_id L W s i \<Longrightarrow> i < g_next_irob P"
    and "\<And>i. irob_sock_hash P i \<noteq> None \<Longrightarrow> i < g_next_irob P" and "\<And>s i s'. uses_id L W s i \<Longrightarrow> uses_id L W s' i \<Longrightarrow> s = s'"
  shows "ids_ok L W P"
  using assms unfolding ids_ok_def by simp

lemma lookup_put_sock:
  "lookup s' (put_sock s sk P) = (if s' = s then map_option (\<lambda>e. e\<lparr>me_conn := (me_conn e)\<lparr>cn_sk := sk\<rparr>\<rparr>) (lookup s P) else lookup s' P)"
proof -
  have "map_of (map (\<lambda>(k, e). (k, if k = s then f e else e)) xs) s' = (if s' = s then map_option f (map_of xs s) else map_of xs s')"
    for f :: "mc_entry \<Rightarrow> mc_entry" and xs by (induction xs) auto
  then show ?thesis by (simp add: lookup_def put_sock_def)
qed

lemma put_sock_fields [simp]:
  "g_next_irob (put_sock s sk P) = g_next_irob P" "irob_sock_hash (put_sock s sk P) = irob_sock_hash P"
  "map fst (cmm_sock_hash (put_sock s sk P)) = map fst (cmm_sock_hash P)"
  by (auto simp: put_sock_def)

lemma next_irob_fields [simp]:
  "g_next_irob (next_irob P) = g_next_irob P + 1" "irob_sock_hash (next_irob P) = irob_sock_hash P"
  "cmm_sock_hash (next_irob P) = cmm_sock_hash P" "lookup s (next_irob P) = lookup s P"
  by (simp_all add: next_irob_def lookup_def)

text \<open>An operation on one multisocket that is a step of its run.\<close>

lemma app_run_same: "app_run log sk \<Longrightarrow> outgoing_irobs sk' = outgoing_irobs sk \<Longrightarrow> app_run log sk'"
  by (rule app_next [OF _ app_other])

lemma socks_ok_step:
  assumes "socks_ok L P" and "lookup s P = Some e" and "app_step (L s) (lent P e) log' sk"
    and "cmm_sock_hash P' = cmm_sock_hash P"
  shows "socks_ok (L(s := log')) (put_sock s sk P')"
proof -
  have "lookup s P' = lookup s P" for s using assms(4) by (simp add: lookup_def)
  moreover have "app_run (L s) (lent P e)"
    using assms(1,2) app_run_same [of "L s" "me_sk e"] by (simp add: socks_ok_def lent_def)
  then have "app_run log' sk" using assms(3) by (rule app_next)
  ultimately show ?thesis using assms(1,2,4) by (simp add: socks_ok_def lookup_put_sock)
qed

lemma finish_call_step:
  assumes "finish_call s res P = Inr (r, P')"
  obtains out sk where "res = Inr (out, sk)" "P' = put_sock s sk P" "\<And>log i a. noted log i a r = logged log i a out"
    "\<And>W i. waiting W s i r = (case out of Returns _ \<Rightarrow> W | Waits _ \<Rightarrow> insert (s, i) W)"
  using assms by (cases res) (auto simp: finish_call_def noted_def logged_def waiting_def split: app_outcome.splits)

lemma ids_ok_alloc:
  assumes "ids_ok L W P" and "g_next_irob P' = g_next_irob P + 1"
    and "\<And>i. irob_sock_hash P' i \<noteq> None \<Longrightarrow> irob_sock_hash P i \<noteq> None \<or> i = g_next_irob P"
  shows "ids_ok (L(s := noted (L s) (g_next_irob P) a r)) (waiting W s (g_next_irob P) r) P'"
proof -
  let ?g = "g_next_irob P" and ?L = "L(s := noted (L s) (g_next_irob P) a r)" and ?W = "waiting W s (g_next_irob P) r"
  note old = ids_okD [OF assms(1)]
  have new: "uses_id L W s' i \<or> s' = s \<and> i = ?g" if "uses_id ?L ?W s' i" for s' i
    using that by (auto simp: uses_id_def noted_def waiting_def split: api_out.splits if_splits)
  have "i \<notin> fst ` set (?L s')" if "(s', i) \<in> ?W" for s' i
    using that old(1) [of s' i] old(4) [of s' i] old(1) [of s ?g]
    by (auto simp: uses_id_def noted_def waiting_def split: api_out.splits if_splits)
  moreover have "i < g_next_irob P'" if "uses_id ?L ?W s' i" for s' i using new [OF that] old(1) [of s' i] assms(2) by auto
  moreover have "i < g_next_irob P'" if "irob_sock_hash P' i \<noteq> None" for i using assms(3) [OF that] old(2) [of i] assms(2) by auto
  moreover have "s1 = s2" if "uses_id ?L ?W s1 i" "uses_id ?L ?W s2 i" for s1 s2 i
    using new [OF that(1)] new [OF that(2)] old(3) [of s1 i s2] old(1) [of s1 i] old(1) [of s2 i] by auto
  ultimately show ?thesis by (intro ids_okI)
qed

lemma ids_ok_same:
  assumes "ids_ok L W P" and "g_next_irob P' = g_next_irob P"
    and "\<And>i. irob_sock_hash P' i \<noteq> None \<Longrightarrow> irob_sock_hash P i \<noteq> None"
  shows "ids_ok L W P'"
  using assms unfolding ids_ok_def by metis

definition api_inv :: "(int \<Rightarrow> app_log) \<Rightarrow> (int \<times> irob_id_t) set \<Rightarrow> process \<Rightarrow> bool" where
  "api_inv L W P \<longleftrightarrow> socks_ok L P \<and> ids_ok L W P"

lemma api_inv_failed:
  assumes "api_inv L W P" and "cmm_sock_hash P' = cmm_sock_hash P" "irob_sock_hash P' = irob_sock_hash P" "g_next_irob P' = g_next_irob P"
  shows "api_inv (L(s := noted (L s) i a (Ret (-1)))) (waiting W s i (Ret (-1))) P'"
  using assms ids_ok_same [of L W P P'] by (simp add: api_inv_def socks_ok_def lookup_def noted_def waiting_def)

text \<open>A call that takes a new id and runs one operation with it.\<close>

lemma api_inv_call:
  assumes inv: "api_inv L W P" and e: "lookup s P = Some e"
    and fc: "finish_call s res (next_irob P) = Inr (r, P')"
    and st: "\<And>out sk. res = Inr (out, sk) \<Longrightarrow> app_step (L s) (lent P e) (logged (L s) (g_next_irob P) a out) sk"
  shows "api_inv (L(s := noted (L s) (g_next_irob P) a r)) (waiting W s (g_next_irob P) r) P'"
proof -
  obtain out sk where o: "res = Inr (out, sk)" "P' = put_sock s sk (next_irob P)" "\<And>log i a. noted log i a r = logged log i a out"
    using finish_call_step [OF fc] by metis
  have "socks_ok (L(s := noted (L s) (g_next_irob P) a r)) P'"
    unfolding o(2,3) by (rule socks_ok_step [OF inv [unfolded api_inv_def, THEN conjunct1] e st [OF o(1)]]) simp
  moreover have "ids_ok (L(s := noted (L s) (g_next_irob P) a r)) (waiting W s (g_next_irob P) r) P'"
    using inv by (intro ids_ok_alloc) (auto simp: api_inv_def o(2))
  ultimately show ?thesis by (simp add: api_inv_def)
qed

text \<open>An operation of a multisocket that takes no id.\<close>

lemma api_inv_step:
  assumes "api_inv L W P" and "lookup s P = Some e" and "app_step (L s) (lent P e) (L s) sk"
    and "P' = put_sock s sk P \<or> P' = (put_sock s sk P)\<lparr>irob_sock_hash := (irob_sock_hash P)(i := None)\<rparr>"
  shows "api_inv L W P'"
proof -
  have "socks_ok L (put_sock s sk P)" using socks_ok_step [OF assms(1) [unfolded api_inv_def, THEN conjunct1] assms(2,3), of P] by simp
  then have "socks_ok L P'" using assms(4) by (auto simp: socks_ok_def lookup_def)
  moreover have ids: "ids_ok L W P" using assms(1) by (simp add: api_inv_def)
  have "ids_ok L W P'" by (rule ids_ok_same [OF ids]) (use assms(4) in \<open>auto split: if_splits\<close>)
  ultimately show ?thesis by (simp add: api_inv_def)
qed

lemma api_inv_parts: "api_inv L W P \<Longrightarrow> socks_ok L P" "api_inv L W P \<Longrightarrow> ids_ok L W P"
  by (simp_all add: api_inv_def)

lemma api_inv_fails:
  assumes "api_inv L W P" and "fails err P = Inr (r, P')"
  shows "api_inv (L(s := noted (L s) i a r)) (waiting W s i r) P'"
  using assms api_inv_failed [OF assms(1), of P'] by (auto simp: fails_def)

lemma api_inv_unchanged:
  assumes "api_inv L W P" and "cmm_sock_hash P' = cmm_sock_hash P" "irob_sock_hash P' = irob_sock_hash P" "g_next_irob P' = g_next_irob P"
  shows "api_inv L W P'"
  using api_inv_failed [OF assms, of undefined undefined undefined] by (simp add: noted_def waiting_def)

lemma call_os_unchanged:
  "call_os os c P = Inr (r, P') \<Longrightarrow> cmm_sock_hash P' = cmm_sock_hash P \<and> irob_sock_hash P' = irob_sock_hash P \<and> g_next_irob P' = g_next_irob P"
  by (auto simp: call_os_def split: prod.splits if_splits)

lemma create_inv:
  assumes inv: "api_inv L W P" and c: "create os (Inr pp) osfds PF_INET SOCK_STREAM pr P = Inr (Ret s, P')" and "0 \<le> s"
  shows "api_inv (L(s := [])) {w \<in> W. fst w \<noteq> s} P'"
proof -
  obtain sp wp where pp: "pp = (sp, wp)" by (cases pp)
  let ?e = "\<lparr>me_conn = \<lparr>cn_sk = new_msocket s (p_stats P) (p_thunks P), cn_boot = None, cn_listener = None\<rparr>,
     select_pipe0 = sp, write_ready_pipe0 = wp, select_bytes = 0, write_ready_bytes = 0, osfd_of = osfds\<rparr>"
  have P': "map_of (cmm_sock_hash P) s = None" "P' = P\<lparr>cmm_sock_hash := insort_key fst (s, ?e) (cmm_sock_hash P)\<rparr>"
    using c \<open>0 \<le> s\<close> by (auto simp: create_def pp ASSERT_def split: prod.splits if_splits)
  have keys: "distinct (map fst (insort_key fst x xs))" "map_of (insort_key fst x xs) = (map_of xs)(fst x \<mapsto> snd x)"
    if "distinct (map fst xs)" "fst x \<notin> fst ` set xs" for x :: "int \<times> mc_entry" and xs
    using that by (induction xs) (auto simp: set_insort_key)
  have d: "distinct (map fst (cmm_sock_hash P))" using inv by (simp add: api_inv_def socks_ok_def)
  have new: "app_run [] (new_msocket s (p_stats P) (p_thunks P))" by (rule app_start) (simp add: new_msocket_def)
  have "lookup s' P' = (if s' = s then Some ?e else lookup s' P)" for s'
    using keys(2) [of "cmm_sock_hash P" "(s, ?e)"] d P' by (simp add: lookup_def map_of_eq_None_iff)
  then have "socks_ok (L(s := [])) P'"
    using inv new keys(1) [of "cmm_sock_hash P" "(s, ?e)"] d P' by (auto simp: api_inv_def socks_ok_def map_of_eq_None_iff)
  moreover have "ids_ok (L(s := [])) {w \<in> W. fst w \<noteq> s} P'"
  proof -
    note old = ids_okD [OF api_inv_parts(2) [OF inv]]
    have sub: "uses_id L W s1 i" if "uses_id (L(s := [])) {w \<in> W. fst w \<noteq> s} s1 i" for s1 i
      using that by (auto simp: uses_id_def split: if_splits)
    have same: "g_next_irob P' = g_next_irob P" "irob_sock_hash P' = irob_sock_hash P" by (simp_all add: P'(2))
    show ?thesis
    proof (rule ids_okI)
      show "i \<notin> fst ` set ((L(s := [])) s1)" if "(s1, i) \<in> {w \<in> W. fst w \<noteq> s}" for s1 i using that old(4) [of s1 i] by simp
      show "s1 = s2" if "uses_id (L(s := [])) {w \<in> W. fst w \<noteq> s} s1 i" "uses_id (L(s := [])) {w \<in> W. fst w \<noteq> s} s2 i" for s1 s2 i
        using old(3) sub [OF that(1)] sub [OF that(2)] .
      show "i < g_next_irob P'" if "uses_id (L(s := [])) {w \<in> W. fst w \<noteq> s} s1 i" for s1 i
        unfolding same by (rule old(1) [OF sub [OF that]])
    qed (use old(2) in \<open>simp add: same\<close>)
  qed
  ultimately show ?thesis by (simp add: api_inv_def)
qed

lemma on_all_inv:
  assumes inv: "api_inv L W P" and r: "on_all f P = Inr P'"
    and f: "\<And>log sk sk'. f sk = Inr sk' \<Longrightarrow> app_step log sk log sk'"
  shows "api_inv L W P'"
proof -
  let ?g = "\<lambda>s P. case lookup s P of None \<Rightarrow> Inl AssertFailed | Some e \<Rightarrow> bindE (f (lent P e)) (\<lambda>sk. Inr (put_sock s sk P))"
  have "api_inv L W P'" if "foldE ?g ss P = Inr P'" "api_inv L W P" for ss P
    using that
  proof (induction ss arbitrary: P)
    case (Cons s ss)
    then obtain P1 where P1: "?g s P = Inr P1" "foldE ?g ss P1 = Inr P'" by (auto simp: bindE_eq_Inr)
    then obtain e sk where e: "lookup s P = Some e" "f (lent P e) = Inr sk" "P1 = put_sock s sk P"
      by (auto simp: bindE_eq_Inr split: option.splits)
    from api_inv_step [OF Cons.prems(2) e(1) f [OF e(2)], of P1] e(3) have "api_inv L W P1" by simp
    then show ?case by (rule Cons.IH [OF P1(2)])
  qed simp
  then show ?thesis using r inv by (simp add: on_all_def)
qed

lemma close_inv:
  assumes inv: "api_inv L W P" and r: "mc_close os sys s P = Inr (r, P')"
  shows "api_inv L W P'"
proof (cases "lookup s P")
  case None
  then show ?thesis
    using r api_inv_unchanged [OF inv, of P'] by (auto simp: mc_close_def bindE_eq_Inr dest: call_os_unchanged split: if_splits)
next
  case (Some e)
  then obtain sk where sk: "sk_goodbye sys False (lent P e) = Inr sk"
      "P' = (put_sock s sk P)\<lparr>cmm_sock_hash := filter (\<lambda>(k, _). k \<noteq> s) (cmm_sock_hash (put_sock s sk P))\<rparr>"
    using r by (auto simp: mc_close_def bindE_eq_Inr Let_def)
  have inv1: "api_inv L W (put_sock s sk P)" by (rule api_inv_step [OF inv Some app_goodbye [OF sk(1)]]) simp
  have m: "map_of (filter (\<lambda>(k, _). k \<noteq> s) xs) s' = (if s' = s then None else map_of xs s')" for xs :: "(int \<times> mc_entry) list" and s'
    by (induction xs) auto
  have "socks_ok L P'"
    using api_inv_parts(1) [OF inv1] by (auto simp: socks_ok_def sk(2) lookup_def m distinct_map_filter split: if_splits)
  moreover have "ids_ok L W P'" by (rule ids_ok_same [OF api_inv_parts(2) [OF inv1]]) (auto simp: sk(2))
  ultimately show ?thesis by (simp add: api_inv_def)
qed

lemma send_inv:
  assumes inv: "api_inv L W P" and e: "lookup s P = Some e" and i: "id_ok (g_next_irob P)"
    and r: "mc_send sys now s e buf labels handler arg P = Inr (r, P')"
  shows "api_inv (L(s := noted (L s) (g_next_irob P) (buf \<noteq> []) r)) (waiting W s (g_next_irob P) r) P'"
proof (cases "length buf \<ge> 2 ^ 63 \<or> connect_status (me_conn e) \<noteq> 0")
  case True
  then show ?thesis using r api_inv_fails [OF inv] by (auto simp: mc_send_def if_connected_def Let_def split: if_splits)
next
  case False
  then show ?thesis
    using r i by (intro api_inv_call [OF inv e]) (auto simp: mc_send_def if_connected_def Let_def intro: app_default)
qed

lemma writev_inv:
  assumes inv: "api_inv L W P" and e: "lookup s P = Some e" and i: "id_ok (g_next_irob P)" and ne: "vec \<noteq> Some []"
    and r: "mc_writev sys now s e vec labels handler arg P = Inr (r, P')"
  shows "api_inv (L(s := noted (L s) (g_next_irob P) (\<exists>vs n. vec = Some vs \<and> total_bytes 0 vs = Some n \<and> 0 < n) r))
    (waiting W s (g_next_irob P) r) P'"
proof (cases "\<exists>vs n. vec = Some vs \<and> vs \<noteq> [] \<and> connect_status (me_conn e) = 0 \<and> total_bytes 0 vs = Some n")
  case True
  then obtain vs n where v: "vec = Some vs" "vs \<noteq> []" "connect_status (me_conn e) = 0" "total_bytes 0 vs = Some n" by blast
  have "finish_call s (default_irob_writev sys now (g_next_irob P) vs (nat n) labels handler arg (lent P e)) (next_irob P) = Inr (r, P')"
    using r v by (cases vs) (simp_all add: mc_writev_def if_connected_def)
  from api_inv_call [OF inv e this app_writev [OF i]]
  have "api_inv (L(s := noted (L s) (g_next_irob P) (0 < nat n) r)) (waiting W s (g_next_irob P) r) P'" .
  moreover have "(\<exists>vs n. vec = Some vs \<and> total_bytes 0 vs = Some n \<and> 0 < n) = (0 < nat n)" using v by auto
  ultimately show ?thesis by simp
next
  case False
  then show ?thesis
    using r ne api_inv_fails [OF inv]
    by (auto simp: mc_writev_def if_connected_def Let_def split: option.splits list.splits if_splits)
qed

lemma api_begin_inv:
  assumes inv: "api_inv L W P" and e: "lookup s P = Some e" and i: "id_ok (g_next_irob P)"
    and ds: "\<forall>d\<in>set (case ds of Some l \<Rightarrow> l | None \<Rightarrow> []). id_ok d"
    and r: "mc_begin_irob sys now s e n ds labels handler arg P = Inr (r, P')"
  shows "api_inv (L(s := noted (L s) (g_next_irob P) False r)) (waiting W s (g_next_irob P) r) P'"
proof -
  obtain r1 P1 where c: "finish_call s (begin_irob sys now (g_next_irob P) n ds labels handler arg (lent P e)) (next_irob P) = Inr (r1, P1)"
    using r by (auto simp: mc_begin_irob_def Let_def bindE_eq_Inr)
  have inv1: "api_inv (L(s := noted (L s) (g_next_irob P) False r1)) (waiting W s (g_next_irob P) r1) P1"
    by (rule api_inv_call [OF inv e c]) (rule app_begin [OF i ds])
  show ?thesis
  proof (cases "\<exists>rc. r1 = Ret rc \<and> 0 \<le> rc")
    case False
    then have "r = r1 \<and> P' = P1" using r c by (auto simp: mc_begin_irob_def Let_def split: api_out.splits if_splits)
    then show ?thesis using inv1 by simp
  next
    case True
    then have r1: "P' = P1\<lparr>irob_sock_hash := (irob_sock_hash P1)(g_next_irob P \<mapsto> s)\<rparr>" "r = Ret (g_next_irob P)"
      using r c by (auto simp: mc_begin_irob_def Let_def register_irob_def ASSERT_eq_Inr bindE_eq_Inr)
    have same: "noted (L s) (g_next_irob P) False r = noted (L s) (g_next_irob P) False r1" "waiting W s (g_next_irob P) r = waiting W s (g_next_irob P) r1"
      using True i by (auto simp: noted_def waiting_def r1(2) id_ok_def)
    have g: "g_next_irob P1 = g_next_irob P + 1" using finish_call_step [OF c] by (metis next_irob_fields(1) put_sock_fields(1))
    have "socks_ok (L(s := noted (L s) (g_next_irob P) False r)) P'"
      using api_inv_parts(1) [OF inv1] by (simp add: same r1(1) socks_ok_def lookup_def)
    moreover have "ids_ok (L(s := noted (L s) (g_next_irob P) False r)) (waiting W s (g_next_irob P) r) P'"
      unfolding same
    proof (rule ids_okI)
      show "i < g_next_irob P'" if "irob_sock_hash P' i \<noteq> None" for i
        using that ids_okD(2) [OF api_inv_parts(2) [OF inv1], of i] g by (auto simp: r1(1) split: if_splits)
    qed (use ids_okD [OF api_inv_parts(2) [OF inv1]] in \<open>auto simp: r1(1)\<close>)
    ultimately show ?thesis by (simp add: api_inv_def)
  qed
qed

lemma by_irob_inv:
  assumes inv: "api_inv L W P" and st: "\<And>sk out sk' log. f sk = Inr (out, sk') \<Longrightarrow> app_step log sk log sk'"
    and r: "(case lookup_by_irob i P of Inl _ \<Rightarrow> fails EBADF P | Inr (s, e) \<Rightarrow> finish_call s (f (lent P e)) P) = Inr (r, P1)"
    and P': "P' = P1 \<or> P' = P1\<lparr>irob_sock_hash := (irob_sock_hash P1)(i := None)\<rparr>"
  shows "api_inv L W P'"
proof (cases "lookup_by_irob i P")
  case (Inl x)
  then have "cmm_sock_hash P1 = cmm_sock_hash P" "irob_sock_hash P1 = irob_sock_hash P" "g_next_irob P1 = g_next_irob P"
    using r by (auto simp: fails_def)
  then have inv1: "api_inv L W P1" by (rule api_inv_unchanged [OF inv])
  have "socks_ok L P'" using api_inv_parts(1) [OF inv1] P' by (auto simp: socks_ok_def lookup_def)
  moreover have "ids_ok L W P'" by (rule ids_ok_same [OF api_inv_parts(2) [OF inv1]]) (use P' in \<open>auto split: if_splits\<close>)
  ultimately show ?thesis by (simp add: api_inv_def)
next
  case (Inr se)
  then obtain s e where e: "se = (s, e)" "lookup s P = Some e" by (cases se) (auto simp: lookup_by_irob_def split: option.splits)
  with Inr r have "finish_call s (f (lent P e)) P = Inr (r, P1)" by simp
  then obtain out sk where o: "f (lent P e) = Inr (out, sk)" "P1 = put_sock s sk P" by (rule finish_call_step)
  show ?thesis using api_inv_step [OF inv e(2) st [OF o(1)], of P' i] P' by (auto simp: o(2))
qed

lemma woken_inv:
  assumes inv: "api_inv L W P" and e: "lookup s P = Some e" and w: "(s, i) \<in> W"
    and st: "app_step (L s) (lent P e) (L s @ [(i, a)]) sk"
    and P': "P' = (put_sock s sk P)\<lparr>irob_sock_hash := h\<rparr>" and h: "h = irob_sock_hash P \<or> h = (irob_sock_hash P)(i \<mapsto> s)"
  shows "api_inv (L(s := L s @ [(i, a)])) (W - {(s, i)}) P'"
proof -
  let ?L = "L(s := L s @ [(i, a)])"
  have "socks_ok ?L (put_sock s sk P)" by (rule socks_ok_step [OF api_inv_parts(1) [OF inv] e st refl])
  then have "socks_ok ?L P'" by (simp add: P' socks_ok_def lookup_def)
  moreover have "ids_ok ?L (W - {(s, i)}) P'"
  proof -
    note old = ids_okD [OF api_inv_parts(2) [OF inv]]
    have sub: "uses_id L W s' j" if "uses_id ?L (W - {(s, i)}) s' j" for s' j
      using that w by (auto simp: uses_id_def split: if_splits)
    have same: "g_next_irob P' = g_next_irob P" "irob_sock_hash P' = h" by (simp_all add: P')
    show ?thesis
    proof (rule ids_okI)
      show "j \<notin> fst ` set (?L s')" if "(s', j) \<in> W - {(s, i)}" for s' j using that old(4) [of s' j] by auto
      show "j < g_next_irob P'" if "uses_id ?L (W - {(s, i)}) s' j" for s' j unfolding same by (rule old(1) [OF sub [OF that]])
      show "j < g_next_irob P'" if "irob_sock_hash P' j \<noteq> None" for j
        using that h old(1) [of s i] old(2) [of j] w by (auto simp: same uses_id_def split: if_splits)
      show "s1 = s2" if "uses_id ?L (W - {(s, i)}) s1 j" "uses_id ?L (W - {(s, i)}) s2 j" for s1 s2 j
        using old(3) sub [OF that(1)] sub [OF that(2)] .
    qed
  qed
  ultimately show ?thesis by (simp add: api_inv_def)
qed

lemma other_inv:
  assumes inv: "api_inv L W P" and "g_next_irob P' = g_next_irob P" "irob_sock_hash P' = irob_sock_hash P"
    and eq: "map (\<lambda>(s, e). (s, outgoing_irobs (me_sk e))) (cmm_sock_hash P') = map (\<lambda>(s, e). (s, outgoing_irobs (me_sk e))) (cmm_sock_hash P)"
  shows "api_inv L W P'"
proof -
  have m: "map_of (map (\<lambda>(s, e). (s, outgoing_irobs (me_sk e))) xs) s = map_option (\<lambda>e. outgoing_irobs (me_sk e)) (map_of xs s)" for xs s
    by (induction xs) auto
  have "map fst (cmm_sock_hash P') = map fst (cmm_sock_hash P)" using arg_cong [OF eq, of "map fst"] by (simp add: comp_def case_prod_unfold)
  moreover have "app_run (L s) (me_sk e)" if "lookup s P' = Some e" for s e
  proof -
    have "map_option (\<lambda>e. outgoing_irobs (me_sk e)) (lookup s P) = Some (outgoing_irobs (me_sk e))"
      using that m [of "cmm_sock_hash P'" s] m [of "cmm_sock_hash P" s] eq by (simp add: lookup_def)
    then obtain e0 where "lookup s P = Some e0" "outgoing_irobs (me_sk e) = outgoing_irobs (me_sk e0)" by auto
    moreover from this(1) have "app_run (L s) (me_sk e0)" using api_inv_parts(1) [OF inv] by (simp add: socks_ok_def)
    ultimately show ?thesis using app_run_same by blast
  qed
  ultimately have "socks_ok L P'" using api_inv_parts(1) [OF inv] by (simp add: socks_ok_def)
  moreover have "ids_ok L W P'" by (rule ids_ok_same [OF api_inv_parts(2) [OF inv]]) (simp_all add: assms)
  ultimately show ?thesis by (simp add: api_inv_def)
qed

lemma api_run_inv: "api_run L W P \<Longrightarrow> api_inv L W P"
proof (induction rule: api_run.induct)
  case (api_start P)
  then show ?case by (auto simp: api_inv_def socks_ok_def ids_ok_def uses_id_def lookup_def)
next
  case (api_create L W P os pipes osfds pr s P' pp)
  then show ?case using create_inv by blast
next
  case (api_chunk L W P i sys buf r P')
  have "(case lookup_by_irob i P of Inl _ \<Rightarrow> fails EBADF P | Inr (s, e) \<Rightarrow> finish_call s (irob_chunk sys i buf (lent P e)) P) = Inr (r, P')"
    using api_chunk.hyps(3) unfolding irob_send_def mc_irob_send_def .
  from by_irob_inv [OF api_chunk.IH _ this] app_chunk [OF api_chunk.hyps(2)] show ?case by blast
next
  case (api_end L W P i sys r P')
  let ?c = "case lookup_by_irob i P of Inl _ \<Rightarrow> fails EBADF P | Inr (s, e) \<Rightarrow> finish_call s (end_irob sys i (lent P e)) P"
  obtain P1 where "?c = Inr (r, P1)" "P' = P1 \<or> P' = P1\<lparr>irob_sock_hash := (irob_sock_hash P1)(i := None)\<rparr>"
    using api_end.hyps(3) by (auto simp: api_end_irob_def mc_end_irob_def bindE_eq_Inr fails_def split: sum.splits if_splits prod.splits)
  from by_irob_inv [OF api_end.IH _ this] app_end [OF api_end.hyps(2)] show ?case by blast
next
  case (api_update L W P sys iface down P')
  have inv: "api_inv L W (P\<lparr>p_ifaces := x\<rparr>)" for x by (rule api_inv_unchanged [OF api_update.IH]) simp_all
  show ?case
  proof (cases down)
    case True
    then have "on_all (sk_teardown iface True) (P\<lparr>p_ifaces := iface_erase iface (p_ifaces P)\<rparr>) = Inr P'"
      using api_update.hyps(2) by (simp add: process_interface_update_def interface_down_def)
    then show ?thesis by (rule on_all_inv [OF inv]) (rule app_teardown)
  next
    case False
    then have "on_all (sk_setup sys iface True) (P\<lparr>p_ifaces := iface_insert iface (p_ifaces P)\<rparr>) = Inr P'"
      using api_update.hyps(2) by (simp add: process_interface_update_def interface_up_def)
    then show ?thesis by (rule on_all_inv [OF inv]) (rule app_setup)
  qed
next
  case (api_thread L W P s e sk)
  then show ?case by (auto intro: api_inv_step)
qed (blast intro: send_inv writev_inv api_begin_inv close_inv woken_inv other_inv)+

section \<open>Properties\<close>

text \<open>
  C5. The interface of the library keeps its multisockets apart: whatever the application calls on any
  number of multisockets, blocking or not, and whatever the other threads do meanwhile, every
  multisocket is in a state of the runs for which the order of its IROBs has been shown, its log holds
  no id twice, every id in a log has been given out, and no id is used by two multisockets.
\<close>

theorem api_keeps_multisockets_apart:
  assumes "api_run L W P"
  shows "(\<forall>s e. lookup s P = Some e \<longrightarrow> app_run (L s) (me_sk e) \<and> distinct (map fst (L s)) \<and>
      (\<exists>h. log_of h = L s \<and> sender_run h (outgoing_irobs (me_sk e)))) \<and>
    (\<forall>s. \<forall>i\<in>fst ` set (L s). i < g_next_irob P \<and> (\<forall>s'. i \<in> fst ` set (L s') \<longrightarrow> s' = s))"
proof -
  note inv = api_run_inv [OF assms]
  have "app_run (L s) (me_sk e) \<and> distinct (map fst (L s)) \<and> (\<exists>h. log_of h = L s \<and> sender_run h (outgoing_irobs (me_sk e)))"
    if "lookup s P = Some e" for s e
  proof -
    have run: "app_run (L s) (me_sk e)" using that api_inv_parts(1) [OF inv] by (simp add: socks_ok_def)
    then obtain h where h: "log_of h = L s" "sender_run h (outgoing_irobs (me_sk e))"
      using app_run_refines by (auto simp: out_run_def)
    have "map fst (log_of h) = map fst h" by (auto simp: log_of_def)
    then have "distinct (map fst (L s))" using sender_run_inv [OF h(2)] h(1) by (simp add: run_inv_def)
    then show ?thesis using run h by blast
  qed
  moreover note ids = ids_okD(1,3) [OF api_inv_parts(2) [OF inv], unfolded uses_id_def]
  ultimately show ?thesis using ids by blast
qed

lemma on_all_ifaces:
  assumes "on_all f P = Inr P'"
  shows "p_ifaces P' = p_ifaces P"
proof -
  let ?g = "\<lambda>s P. case lookup s P of None \<Rightarrow> Inl AssertFailed | Some e \<Rightarrow> bindE (f (lent P e)) (\<lambda>sk. Inr (put_sock s sk P))"
  have "p_ifaces P' = p_ifaces P1" if "foldE ?g ss P1 = Inr P'" for ss P1
    using that by (induction ss arbitrary: P1) (fastforce simp: bindE_eq_Inr put_sock_def split: option.splits)+
  then show ?thesis using assms by (simp add: on_all_def)
qed

lemma process_update_ifaces:
  "process_interface_update sys iface down P = Inr P' \<Longrightarrow>
   p_ifaces P' = (if down then iface_erase iface (p_ifaces P) else iface_insert iface (p_ifaces P))"
  by (cases down) (simp_all add: process_interface_update_def interface_up_def interface_down_def on_all_ifaces)

text \<open>
  An interface that changes is not renewed for later multisockets: when the scout reports new numbers
  for an address that is already known, the table of interfaces of the process keeps the old entry, from
  which every multisocket that connects afterwards takes its local interfaces, although the
  multisockets that exist are given the new numbers.
\<close>

theorem changed_interface_is_not_renewed:
  assumes "iface_set.ordered (p_ifaces P)" and "old \<in> set (p_ifaces P)" and "ip_addr new = ip_addr old"
    and "process_interface_update sys new False P = Inr P'"
  shows "p_ifaces P' = p_ifaces P \<and> (addr \<noteq> word_of_int (htonl INADDR_LOOPBACK) \<longrightarrow>
    old \<in> set (local_ifaces (boot_ifaces connecting (p_ifaces P') addr sk)) \<and>
    (new \<noteq> old \<longrightarrow> new \<notin> set (local_ifaces (boot_ifaces connecting (p_ifaces P') addr sk))))"
proof -
  have ins: "iface_insert new (p_ifaces P) = p_ifaces P"
    unfolding iface_insert_def using assms(1-3) by (intro iface_set.set_insert_present) (auto simp: image_iff)
  have "p_ifaces P' = p_ifaces P"
    using process_update_ifaces [OF assms(4)] by (simp add: ins)
  moreover have "new \<notin> set (p_ifaces P)" if "new \<noteq> old"
    using iface_set.key_inj [OF assms(1) _ assms(2,3)] that by blast
  ultimately show ?thesis using assms(2) by (auto simp: boot_ifaces_def Let_def)
qed

section \<open>Examples\<close>

definition demo_process :: process where
  "demo_process = \<lparr>cmm_sock_hash = [], cmm_listeners = {}, irob_sock_hash = Map.empty, g_next_irob = 0,
     p_ifaces = [net_iface 1 100 1], p_stats = Map.empty, p_thunks = [], errno = 0\<rparr>"

text \<open>A multisocket with descriptor 5 is made, gets its connections, and sends a byte.\<close>

definition demo_connected :: mc_entry where
  "demo_connected = \<lparr>me_conn = \<lparr>cn_sk = two_csocks 100 50 (LabelMatcher new_label_matcher),
     cn_boot = Some ((new_bootstrapper (-1))\<lparr>bs_status := 0\<rparr>), cn_listener = Some 1\<rparr>,
     select_pipe0 = 10, write_ready_pipe0 = 12, select_bytes = 0, write_ready_bytes = 0, osfd_of = \<lambda>_. 14\<rparr>"

definition demo_api_send :: api_result where
  "demo_api_send = mc_send demo_sys (tv 0 0) 5 demo_connected [7] 0 None 0 (demo_process\<lparr>cmm_sock_hash := [(5, demo_connected)]\<rparr>)"

lemma demo_api_send_returns:
  obtains P e where "demo_api_send = Inr (Ret 1, P)" "lookup 5 P = Some e"
proof -
  let ?sk = "two_csocks 100 50 (LabelMatcher new_label_matcher)" and ?P = "demo_process\<lparr>cmm_sock_hash := [(5, demo_connected)]\<rparr>"
  obtain sk1 where sk1: "default_irob demo_sys (tv 0 0) 0 [7] 0 None 0 ?sk = Inr (Returns 1, sk1)"
    using demo_calls_evaluate by (auto simp: demo_calls_def bindE_def split: sum.splits app_outcome.splits)
  have "lent ?P demo_connected = ?sk" by (simp add: lent_def demo_connected_def demo_process_def two_csocks_def Let_def)
  then have "demo_api_send = Inr (Ret 1, put_sock 5 sk1 (next_irob ?P))"
    using sk1 by (simp add: demo_api_send_def mc_send_def if_connected_def connect_status_def finish_call_def demo_connected_def demo_process_def)
  moreover have "\<exists>e. lookup 5 (put_sock 5 sk1 (next_irob ?P)) = Some e" unfolding lookup_put_sock by (simp add: lookup_def)
  ultimately show ?thesis using that by blast
qed

lemma demo_api_run:
  obtains L P e where "api_run L {} P" "lookup 5 P = Some e" "L 5 = [(0, True)]"
proof -
  let ?os = "\<lambda>_ :: sys_call. (5 :: int, 0 :: int)" and ?P2 = "demo_process\<lparr>cmm_sock_hash := [(5, demo_connected)]\<rparr>"
  have "api_run (\<lambda>_. []) {} demo_process" by (rule api_start) (simp_all add: demo_process_def)
  moreover obtain P1 where P1: "create ?os (Inr (10, 12)) (\<lambda>_. 14) PF_INET SOCK_STREAM 0 demo_process = Inr (Ret 5, P1)"
    "map (\<lambda>(s, e). (s, outgoing_irobs (me_sk e))) (cmm_sock_hash P1) = [(5, new_lattice)]"
    "g_next_irob P1 = 0" "irob_sock_hash P1 = Map.empty"
    by (simp add: create_def demo_process_def new_msocket_def)
  ultimately have "api_run ((\<lambda>_. [])(5 := [])) {w \<in> {}. fst w \<noteq> 5} P1" by (intro api_create) simp_all
  moreover have "((\<lambda>_. [])(5 := [])) = (\<lambda>_ :: int. [] :: app_log)" by (rule ext) simp
  ultimately have run1: "api_run (\<lambda>_. []) {} P1" by (simp del: fun_upd_apply)
  have run2: "api_run (\<lambda>_. []) {} ?P2"
    by (rule api_other [OF run1]) (simp_all add: P1 demo_process_def demo_connected_def two_csocks_def Let_def)
  obtain P e where P: "demo_api_send = Inr (Ret 1, P)" "lookup 5 P = Some e" by (rule demo_api_send_returns)
  have "api_run ((\<lambda>_. [])(5 := noted [] (g_next_irob ?P2) ([7 :: byte] \<noteq> []) (Ret 1))) (waiting {} 5 (g_next_irob ?P2) (Ret 1)) P"
    by (rule api_send [OF run2 _ _ P(1) [unfolded demo_api_send_def]]) (simp_all add: lookup_def id_ok_def demo_process_def)
  then show ?thesis using that P(2) by (simp add: noted_def waiting_def demo_process_def)
qed

theorem api_keeps_multisockets_apart_witness:
  "\<exists>L P e. api_run L {} P \<and> lookup 5 P = Some e \<and> L 5 = [(0, True)] \<and> app_run (L 5) (me_sk e) \<and> 0 < g_next_irob P"
proof -
  obtain L P e where run: "api_run L {} P" "lookup 5 P = Some e" "L 5 = [(0, True)]" by (rule demo_api_run)
  note apart = api_keeps_multisockets_apart [OF run(1)]
  have "app_run (L 5) (me_sk e)" using apart run(2) by blast
  moreover have "0 < g_next_irob P" using apart [THEN conjunct2, rule_format, of 0 5] run(3) by simp
  ultimately show ?thesis using run by blast
qed

theorem changed_interface_is_not_renewed_witness:
  "\<exists>P'. process_interface_update demo_sys (net_iface 1 200 1) False demo_process = Inr P' \<and>
     net_iface 1 100 1 \<in> set (local_ifaces (boot_ifaces True (p_ifaces P') 7 (new_msocket 5 Map.empty []))) \<and>
     net_iface 1 200 1 \<notin> set (local_ifaces (boot_ifaces True (p_ifaces P') 7 (new_msocket 5 Map.empty [])))"
proof -
  obtain P' where P': "process_interface_update demo_sys (net_iface 1 200 1) False demo_process = Inr P'"
    by (simp add: process_interface_update_def interface_up_def on_all_def demo_process_def)
  have "(7 :: in_addr_t) \<noteq> word_of_int (htonl INADDR_LOOPBACK)"
    by (simp add: htonl_def byte_swap_def INADDR_LOOPBACK_def push_bit_eq_mult take_bit_eq_mod drop_bit_eq_div)
  moreover have "iface_set.ordered (p_ifaces demo_process)" "net_iface 1 100 1 \<in> set (p_ifaces demo_process)"
    "ip_addr (net_iface 1 200 1) = ip_addr (net_iface 1 100 1)" "net_iface 1 200 1 \<noteq> net_iface 1 100 1"
    by (simp_all add: demo_process_def iface_set.ordered_def net_iface_def)
  ultimately show ?thesis using changed_interface_is_not_renewed [OF _ _ _ P'] P' by blast
qed

end
