(* ===== verification/Scout_Client.thy ===== *)
theory Scout_Client
  imports Scout Socket_API
begin

text \<open>
  libcmm_ipc.cpp and libcmm_external_ipc.cpp: the side of the application. It subscribes at the scout, and a
  thread of its own hands every message to \<^verbatim>\<open>process_interface_update\<close>; two functions ask the scout
  once, over a connection of their own. The local socket is given by what can be read from it: a
  message, or \<open>None\<close> for a read that fails or is short.
\<close>

section \<open>The subscription\<close>

text \<open>\<^verbatim>\<open>scout_ipc_fd\<close>, whether the thread \<^verbatim>\<open>IPCThread\<close> is in its loop, \<^verbatim>\<open>running\<close>, what the scout has
  written and has not been read, and what has been written to the scout.\<close>

record ipc_client =
  scout_ipc_fd :: int
  ipc_running :: bool
  ipc_thread :: bool
  ipc_in :: "cmm_msg option list"
  ipc_out :: "cmm_msg list"

definition scout_ipc_inited :: "ipc_client \<Rightarrow> bool" where
  "scout_ipc_inited c \<longleftrightarrow> scout_ipc_fd c > 0"

definition scout_recv :: "ipc_client \<Rightarrow> cmm_msg option \<times> ipc_client" where
  "scout_recv c = (case ipc_in c of [] \<Rightarrow> (None, c) | r # rs \<Rightarrow> (r, c\<lparr>ipc_in := rs\<rparr>))"

text \<open>An unexpected message is only logged. The result says whether the return value is 0.\<close>

definition net_status_change_handler :: "sys_env \<Rightarrow> ipc_client \<Rightarrow> process \<Rightarrow> (bool \<times> ipc_client \<times> process) result" where
  "net_status_change_handler sys c P =
     (case scout_recv c of
        (None, c1) \<Rightarrow> Inr (False, c1, P)
      | (Some msg, c1) \<Rightarrow>
          (case opcode msg of
             CMM_MSG_IFACE_LABELS \<Rightarrow> bindE (process_interface_update sys (msg_iface msg) False P) (\<lambda>P1. Inr (True, c1, P1))
           | CMM_MSG_IFACE_DOWN \<Rightarrow> bindE (process_interface_update sys (msg_iface msg) True P) (\<lambda>P1. Inr (True, c1, P1))
           | _ \<Rightarrow> Inr (True, c1, P)))"

definition control_message :: "MsgOpcode \<Rightarrow> int \<Rightarrow> cmm_msg" where
  "control_message op pid = \<lparr>opcode = op, msg_rc = 0, msg_pid = pid, msg_iface = sentinel\<rparr>"

text \<open>The arguments are the results of \<^verbatim>\<open>open_scout_socket\<close> (a descriptor, or negative), of the write of the
  subscription and of \<^verbatim>\<open>pthread_create\<close>. One update is waited for before the thread starts. The
  result is the return value; a subscription that cannot be sent ends with 0 as well.\<close>

definition scout_ipc_init ::
    "sys_env \<Rightarrow> int \<Rightarrow> int \<Rightarrow> bool \<Rightarrow> bool \<Rightarrow> ipc_client \<Rightarrow> process \<Rightarrow> (int \<times> ipc_client \<times> process) result" where
  "scout_ipc_init sys pid fd sent created c P =
     (let c1 = c\<lparr>scout_ipc_fd := fd\<rparr>
      in if fd < 0 then Inr (-1, c1, P)
         else if \<not> sent then Inr (0, c1\<lparr>scout_ipc_fd := -1\<rparr>, P)
         else bindE (net_status_change_handler sys (c1\<lparr>ipc_out := ipc_out c1 @ [control_message CMM_MSG_SUBSCRIBE pid]\<rparr>) P)
                (\<lambda>(ok, c2, P1).
                   if \<not> ok then Inr (-1, c2, P1)
                   else if \<not> created then Inr (-1, c2\<lparr>scout_ipc_fd := -1\<rparr>, P1)
                   else Inr (0, c2\<lparr>ipc_thread := True\<rparr>, P1)))"

text \<open>\<open>FatalError\<close>: the exit of the process.\<close>

definition lazy_scout_ipc_init ::
    "sys_env \<Rightarrow> int \<Rightarrow> int \<Rightarrow> bool \<Rightarrow> bool \<Rightarrow> ipc_client \<Rightarrow> process \<Rightarrow> (ipc_client \<times> process) result" where
  "lazy_scout_ipc_init sys pid fd sent created c P =
     (if scout_ipc_inited c then Inr (c, P)
      else bindE (scout_ipc_init sys pid fd sent created c P)
             (\<lambda>(rc, c1, P1). if rc < 0 then Inl FatalError else Inr (c1, P1)))"

text \<open>What \<^verbatim>\<open>scout_ipc_deinit\<close> does to the subscription; the cleanup of the multisockets that follows
  waits for the threads of the library.\<close>

definition scout_ipc_deinit :: "int \<Rightarrow> bool \<Rightarrow> ipc_client \<Rightarrow> ipc_client" where
  "scout_ipc_deinit pid sent c =
     (if scout_ipc_fd c > 0
      then c\<lparr>ipc_running := False, ipc_out := ipc_out c @ (if sent then [control_message CMM_MSG_UNSUBSCRIBE pid] else [])\<rparr>
      else c)"

text \<open>A round of \<^verbatim>\<open>IPCThread\<close>; \<open>sel\<close> is the result of \<^verbatim>\<open>select\<close>: \<open>None\<close> when it was interrupted, otherwise
  whether it succeeded.\<close>

definition IPC_thread_round :: "sys_env \<Rightarrow> bool option \<Rightarrow> ipc_client \<Rightarrow> process \<Rightarrow> (ipc_client \<times> process) result" where
  "IPC_thread_round sys sel c P =
     (if \<not> ipc_thread c then Inr (c, P)
      else if \<not> ipc_running c then Inr (c\<lparr>ipc_thread := False\<rparr>, P)
      else case sel of
             None \<Rightarrow> Inr (c, P)
           | Some False \<Rightarrow> Inr (c\<lparr>ipc_thread := False\<rparr>, P)
           | Some True \<Rightarrow>
               bindE (net_status_change_handler sys c P)
                 (\<lambda>(ok, c1, P1). Inr (if ok then c1 else c1\<lparr>ipc_thread := False\<rparr>, P1)))"

section \<open>Single requests\<close>

text \<open>\<^verbatim>\<open>get_local_interfaces\<close>: whether the socket could be opened and the request written, and what is read.
  The function returns a \<^verbatim>\<open>bool\<close>; its \<^verbatim>\<open>return -1\<close> is \<open>True\<close>.\<close>

fun recv_ifaces :: "cmm_msg option list \<Rightarrow> bool \<times> net_interface list" where
  "recv_ifaces [] = (False, [])"
| "recv_ifaces (None # rs) = (False, [])"
| "recv_ifaces (Some m # rs) =
     (if ip_addr (msg_iface m) \<noteq> 0
      then let (ok, is) = recv_ifaces rs in (ok, msg_iface m # is)
      else (True, []))"

definition get_local_interfaces :: "bool \<Rightarrow> bool \<Rightarrow> cmm_msg option list \<Rightarrow> net_interface list \<Rightarrow> bool \<times> net_interface list" where
  "get_local_interfaces opened sent rs ifaces =
     (if \<not> opened then (True, ifaces)
      else if \<not> sent then (False, ifaces)
      else let (ok, is) = recv_ifaces rs in (ok, ifaces @ is))"

definition is_ip_connected_request :: "int \<Rightarrow> in_addr_t \<Rightarrow> cmm_msg" where
  "is_ip_connected_request pid addr =
     \<lparr>opcode = CMM_MSG_IS_IP_CONNECTED, msg_rc = -1, msg_pid = pid, msg_iface = sentinel\<lparr>ip_addr := addr\<rparr>\<rparr>"

definition is_ip_connected :: "bool \<Rightarrow> bool \<Rightarrow> cmm_msg option \<Rightarrow> bool" where
  "is_ip_connected opened sent reply =
     (if \<not> opened then True
      else if \<not> sent then False
      else case reply of None \<Rightarrow> False | Some m \<Rightarrow> msg_rc m = 1)"

section \<open>What the application knows\<close>

text \<open>So many rounds of the thread in which a message can be read.\<close>

fun ipc_rounds :: "sys_env \<Rightarrow> nat \<Rightarrow> ipc_client \<Rightarrow> process \<Rightarrow> (ipc_client \<times> process) result" where
  "ipc_rounds sys 0 c P = Inr (c, P)"
| "ipc_rounds sys (Suc n) c P = bindE (IPC_thread_round sys (Some True) c P) (\<lambda>(c1, P1). ipc_rounds sys n c1 P1)"

definition knows :: "process \<Rightarrow> net_interface list \<Rightarrow> bool" where
  "knows P table \<longleftrightarrow> iface_set.ordered (p_ifaces P) \<and> iface_set.ordered table \<and>
     ip_addr ` set (p_ifaces P) = ip_addr ` set table"

lemma handler_knows:
  assumes "knows P table" and "ipc_in c = Some m # rs" and "net_status_change_handler sys c P = Inr (ok, c', P')"
  shows "ok \<and> c' = c\<lparr>ipc_in := rs\<rparr> \<and> knows P' (tell m table)"
proof -
  have up: "knows P' (renewed i table)" if "process_interface_update sys i False P = Inr P'" for i
    using assms(1) process_update_ifaces [OF that]
    by (auto simp: knows_def iface_insert_def iface_set.ordered_set_insert iface_set.set_set_insert renewed_ordered set_renewed image_iff)
  have down: "knows P' (iface_erase i table)" if "process_interface_update sys i True P = Inr P'" for i
  proof -
    have "ip_addr ` {x \<in> S. ip_addr x \<noteq> a} = ip_addr ` S - {a}" for S :: "net_interface set" and a by auto
    then show ?thesis using assms(1) process_update_ifaces [OF that]
      by (simp add: knows_def iface_erase_ordered set_iface_erase)
  qed
  have r: "scout_recv c = (Some m, c\<lparr>ipc_in := rs\<rparr>)" using assms(2) by (simp add: scout_recv_def)
  show ?thesis
  proof (cases "opcode m")
    case CMM_MSG_IFACE_LABELS
    then show ?thesis using assms(3) up by (auto simp: net_status_change_handler_def r tell_def bindE_eq_Inr)
  next
    case CMM_MSG_IFACE_DOWN
    then show ?thesis using assms(3) down by (auto simp: net_status_change_handler_def r tell_def bindE_eq_Inr)
  qed (use assms(1,3) in \<open>simp_all add: net_status_change_handler_def r tell_def\<close>)
qed

lemma rounds_know:
  assumes "knows P table" and "ipc_in c = map Some ms" and "ipc_thread c" and "ipc_running c"
    and "ipc_rounds sys (length ms) c P = Inr (c', P')"
  shows "ipc_thread c' \<and> knows P' (fold tell ms table)"
  using assms
proof (induction ms arbitrary: c P table)
  case (Cons m ms)
  obtain ok c1 P1 where h: "net_status_change_handler sys c P = Inr (ok, c1, P1)"
    using Cons.prems(3-5) by (auto simp: IPC_thread_round_def bindE_eq_Inr)
  have k: "ok \<and> c1 = c\<lparr>ipc_in := map Some ms\<rparr> \<and> knows P1 (tell m table)"
    by (rule handler_knows [OF Cons.prems(1) _ h]) (simp add: Cons.prems(2))
  then have "ipc_rounds sys (length ms) c1 P1 = Inr (c', P')"
    using Cons.prems(3-5) h by (simp add: IPC_thread_round_def)
  then show ?case using Cons.IH [of P1 "tell m table" c1] k Cons.prems(3,4) by simp
qed simp

text \<open>Without multisockets there is nothing to fail.\<close>

lemma update_returns:
  "cmm_sock_hash P = [] \<Longrightarrow> \<exists>P'. process_interface_update sys i down P = Inr P' \<and> cmm_sock_hash P' = []"
  by (cases down) (simp_all add: process_interface_update_def interface_up_def interface_down_def on_all_def)

lemma handler_returns:
  assumes "cmm_sock_hash P = []" and "ipc_in c = Some m # rs"
  shows "\<exists>P'. net_status_change_handler sys c P = Inr (True, c\<lparr>ipc_in := rs\<rparr>, P') \<and> cmm_sock_hash P' = []"
proof -
  have r: "scout_recv c = (Some m, c\<lparr>ipc_in := rs\<rparr>)" using assms(2) by (simp add: scout_recv_def)
  obtain P1 P2 where "process_interface_update sys (msg_iface m) False P = Inr P1" "cmm_sock_hash P1 = []"
    "process_interface_update sys (msg_iface m) True P = Inr P2" "cmm_sock_hash P2 = []"
    using update_returns [OF assms(1)] by meson
  then show ?thesis using assms(1) by (cases "opcode m") (simp_all add: net_status_change_handler_def r)
qed

lemma rounds_return:
  assumes "cmm_sock_hash P = []" and "ipc_in c = map Some ms" and "ipc_thread c" and "ipc_running c"
  shows "\<exists>c' P'. ipc_rounds sys (length ms) c P = Inr (c', P')"
  using assms
proof (induction ms arbitrary: c P)
  case (Cons m ms)
  obtain P1 where "net_status_change_handler sys c P = Inr (True, c\<lparr>ipc_in := map Some ms\<rparr>, P1)" "cmm_sock_hash P1 = []"
    using handler_returns [OF Cons.prems(1), of c m "map Some ms"] Cons.prems(2) by auto
  then show ?case using Cons.IH [of P1 "c\<lparr>ipc_in := map Some ms\<rparr>"] Cons.prems(3,4) by (simp add: IPC_thread_round_def)
qed simp

section \<open>Properties\<close>

text \<open>
  C12. From the scout to the application: in every run of the scout in which updates and subscriptions do
  not overlap, an application that subscribed without knowing any interface, and whose thread has
  read what the scout wrote to it, knows exactly the addresses in the scout's table. As long as the
  application has no multisockets, reading the messages does not fail.
\<close>

theorem application_knows_the_interfaces:
  assumes "scout_run s" and "listening s" and "(fd, sub) \<in> set (subscriber_procs s)" and "sc_chans s fd = Some ch"
    and "ch_sent ch \<noteq> []" and "ipc_in c = map Some (ch_sent ch)" and "ipc_running c" and "p_ifaces P = []" and "0 \<le> s_fd"
    and "run = bindE (scout_ipc_init sys pid s_fd True True c P) (\<lambda>(rc, c1, P1). ipc_rounds sys (length (ch_sent ch) - 1) c1 P1)"
  shows "(\<forall>c' P'. run = Inr (c', P') \<longrightarrow> ipc_thread c' \<and> ip_addr ` set (p_ifaces P') = ip_addr ` set (net_interfaces s)) \<and>
    (cmm_sock_hash P = [] \<longrightarrow> (\<exists>c' P'. run = Inr (c', P')))"
proof -
  obtain m ms where ms: "ch_sent ch = m # ms" using assms(5) by (cases "ch_sent ch") auto
  let ?c = "c\<lparr>scout_ipc_fd := s_fd, ipc_out := ipc_out c @ [control_message CMM_MSG_SUBSCRIBE pid]\<rparr>"
  have run: "run = bindE (net_status_change_handler sys ?c P)
      (\<lambda>(ok, c2, P1). if \<not> ok then ipc_rounds sys (length ms) c2 P1 else ipc_rounds sys (length ms) (c2\<lparr>ipc_thread := True\<rparr>) P1)"
    using assms(9) by (auto simp: assms(10) scout_ipc_init_def ms bindE_def Let_def split: sum.splits)
  have told: "told (ch_sent ch) = net_interfaces s" using subscribers_are_told [OF assms(1-3)] assms(4) by auto
  have "ipc_thread c' \<and> ip_addr ` set (p_ifaces P') = ip_addr ` set (net_interfaces s)" if r: "run = Inr (c', P')" for c' P'
  proof -
    obtain ok c2 P1 where h: "net_status_change_handler sys ?c P = Inr (ok, c2, P1)" using r run by (auto simp: bindE_eq_Inr)
    have "knows P []" using assms(8) by (simp add: knows_def)
    then have k: "ok \<and> c2 = ?c\<lparr>ipc_in := map Some ms\<rparr> \<and> knows P1 (tell m [])"
      by (rule handler_knows [OF _ _ h]) (simp add: assms(6) ms)
    then have "ipc_thread c' \<and> knows P' (fold tell ms (tell m []))"
      using r run h assms(7) by (intro rounds_know [of P1 _ "c2\<lparr>ipc_thread := True\<rparr>" ms sys]) simp_all
    then show ?thesis using told by (simp add: knows_def told_def ms)
  qed
  moreover have "\<exists>c' P'. run = Inr (c', P')" if empty: "cmm_sock_hash P = []"
  proof -
    obtain P1 where P1: "net_status_change_handler sys ?c P = Inr (True, ?c\<lparr>ipc_in := map Some ms\<rparr>, P1)" "cmm_sock_hash P1 = []"
      using handler_returns [OF empty, of ?c m "map Some ms"] by (auto simp: assms(6) ms)
    then show ?thesis using rounds_return [OF P1(2), of "?c\<lparr>ipc_in := map Some ms, ipc_thread := True\<rparr>" ms] assms(7)
      by (simp add: run)
  qed
  ultimately show ?thesis by blast
qed

definition demo_client :: ipc_client where
  "demo_client = \<lparr>scout_ipc_fd = 0, ipc_running = True, ipc_thread = False,
     ipc_in = [Some (event_msg demo_iface CMM_MSG_IFACE_LABELS)], ipc_out = []\<rparr>"

lemma application_knows_the_interfaces_witness:
  "\<exists>c' P'. bindE (scout_ipc_init demo_sys 100 7 True True demo_client (demo_process\<lparr>p_ifaces := []\<rparr>))
     (\<lambda>(rc, c1, P1). ipc_rounds demo_sys 0 c1 P1) = Inr (c', P') \<and> ipc_thread c' \<and> ip_addr ` set (p_ifaces P') = {10}"
  using application_knows_the_interfaces [OF demo_subscribed_run, of 5 "\<lparr>ipc_sock = 5, sub_pid = 100\<rparr>"
      "\<lparr>ch_sent = [event_msg demo_iface CMM_MSG_IFACE_LABELS], ch_open = True\<rparr>" demo_client
      "demo_process\<lparr>p_ifaces := []\<rparr>" 7 _ demo_sys 100, OF _ _ _ _ _ _ _ _ refl] demo_table
  by (simp add: demo_subscribed_def demo_state demo_client_def demo_process_def demo_iface_def) blast

text \<open>
  The single requests report the scout's table: the messages that answer \<^verbatim>\<open>CMM_MSG_GET_IFACES\<close> are
  read as the interfaces of the table in its order, when none of them has the address 0 with which
  the list ends (else as none at all, since 0 comes first); and an address is reported as connected
  exactly when it is in the table and not 0.
\<close>

theorem requests_report_the_table:
  assumes "iface_set.ordered (net_interfaces s)"
    and "sc_chans (answer_ifaces fd (connected_at fd True s)) fd = Some ch"
  shows "get_local_interfaces True True (map Some (ch_sent ch)) [] =
      (True, if \<exists>i\<in>set (net_interfaces s). ip_addr i = 0 then [] else net_interfaces s) \<and>
    is_ip_connected True True (Some (ip_connected_reply (is_ip_connected_request pid addr) s)) =
      (addr \<noteq> 0 \<and> addr \<in> ip_addr ` set (net_interfaces s))"
proof
  let ?t = "net_interfaces s"
  have ch: "ch_sent ch = event_msgs ?t [] @ [event_msg sentinel CMM_MSG_IFACE_LABELS]"
    using assms(2) by (auto simp: answer_ifaces_def init_subscriber_def notify_subscriber_eq notify_subscriber_of_event_def
        ipc_write_def connected_at_def alive_def deliver_def)
  have all: "recv_ifaces (map Some (event_msgs is [] @ [event_msg sentinel op])) = (True, is)" if "\<forall>i\<in>set is. ip_addr i \<noteq> 0" for "is" op
    using that by (induction "is") (simp_all add: event_msgs_def event_msg_def sentinel_def)
  have none: "recv_ifaces (map Some (event_msgs ?t [] @ rest)) = (True, [])" if zero: "\<exists>i\<in>set ?t. ip_addr i = 0" for rest
  proof -
    obtain j t where t: "?t = j # t" using zero by (cases ?t) auto
    then have "ip_addr j = 0" using zero assms(1) by (fastforce simp: iface_set.ordered_Cons)
    then show ?thesis by (simp add: t event_msgs_def event_msg_def)
  qed
  show "get_local_interfaces True True (map Some (ch_sent ch)) [] =
      (True, if \<exists>i\<in>set ?t. ip_addr i = 0 then [] else ?t)"
    using all none by (auto simp: get_local_interfaces_def ch simp del: map_append)
  show "is_ip_connected True True (Some (ip_connected_reply (is_ip_connected_request pid addr) s)) =
      (addr \<noteq> 0 \<and> addr \<in> ip_addr ` set ?t)"
  proof (cases "find (\<lambda>i. ip_addr i = addr) ?t")
    case None
    then have "addr \<notin> ip_addr ` set ?t" by (auto simp: find_None_iff)
    then show ?thesis using None by (simp add: is_ip_connected_def ip_connected_reply_def is_ip_connected_request_def)
  next
    case (Some i)
    then have "ip_addr i = addr" "i \<in> set ?t" by (auto simp: find_Some_iff)
    then show ?thesis using Some
      by (auto simp: is_ip_connected_def ip_connected_reply_def is_ip_connected_request_def is_network_usable_def)
  qed
qed

lemma requests_report_the_table_witness:
  "get_local_interfaces True True (map Some (ch_sent \<lparr>ch_sent = [event_msg demo_iface CMM_MSG_IFACE_LABELS,
     event_msg sentinel CMM_MSG_IFACE_LABELS], ch_open = True\<rparr>)) [] = (True, [demo_iface]) \<and>
   is_ip_connected True True (Some (ip_connected_reply (is_ip_connected_request 100 10) demo_scout))"
  using requests_report_the_table [of demo_scout 5 "\<lparr>ch_sent = [event_msg demo_iface CMM_MSG_IFACE_LABELS,
     event_msg sentinel CMM_MSG_IFACE_LABELS], ch_open = True\<rparr>" 100 10] demo_table
  by (simp add: iface_set.ordered_def answer_ifaces_def init_subscriber_def notify_subscriber_eq notify_subscriber_of_event_def
        ipc_write_def connected_at_def alive_def deliver_def event_msgs_def demo_iface_def)

text \<open>When the scout cannot be reached both functions return \<open>-1\<close> from a \<^verbatim>\<open>bool\<close>: success, and a
  connected address.\<close>

lemma unreachable_scout_is_success:
  "get_local_interfaces False sent rs ifaces = (True, ifaces)" "is_ip_connected False sent reply"
  by (simp_all add: get_local_interfaces_def is_ip_connected_def)

text \<open>A subscription that cannot be written is reported as success by \<^verbatim>\<open>scout_ipc_init\<close>, so that
  \<^verbatim>\<open>lazy_scout_ipc_init\<close> goes on without a subscription.\<close>

lemma unsent_subscription_is_success:
  "\<not> scout_ipc_inited c \<Longrightarrow> 0 \<le> fd \<Longrightarrow> lazy_scout_ipc_init sys pid fd False created c P = Inr (c\<lparr>scout_ipc_fd := -1\<rparr>, P)"
  by (simp add: lazy_scout_ipc_init_def scout_ipc_init_def)

end
