(* ===== verification/Locking_Map.thy ===== *)
theory Locking_Map
  imports CMM_Prelude
begin

text \<open>
  pthread_util.h: the containers that threads share. \<^verbatim>\<open>LockWrappedQueue\<close> and \<^verbatim>\<open>LockWrappedMap\<close> do
  every call under one lock and are functions on their content. \<^verbatim>\<open>LockingMap\<close> gives out accessors:
  a call first finds or makes the node of a key under the lock of the membership, gives that lock up,
  and then waits for the lock of the node. Between the two any other thread can run, so the map is
  modelled by the actions of its users, one for each stretch of code between two waits, and the
  runs are all their interleavings. \<open>None\<close> as the outcome of an action means that the thread waits.
\<close>

section \<open>Locks\<close>

text \<open>\<^verbatim>\<open>pthread_rwlock_t\<close>: how many readers hold it and whether a writer does.\<close>

record rwlock =
  rw_writer :: bool
  rw_readers :: nat

definition RWLOCK_INIT :: rwlock where
  "RWLOCK_INIT = \<lparr>rw_writer = False, rw_readers = 0\<rparr>"

definition RWLOCK_ACQUIRE :: "bool \<Rightarrow> rwlock \<Rightarrow> rwlock option" where
  "RWLOCK_ACQUIRE writer l =
     (if writer then if rw_writer l \<or> rw_readers l > 0 then None else Some (l\<lparr>rw_writer := True\<rparr>)
      else if rw_writer l then None else Some (l\<lparr>rw_readers := rw_readers l + 1\<rparr>))"

definition RWLOCK_UNLOCK :: "bool \<Rightarrow> rwlock \<Rightarrow> rwlock" where
  "RWLOCK_UNLOCK writer l = (if writer then l\<lparr>rw_writer := False\<rparr> else l\<lparr>rw_readers := rw_readers l - 1\<rparr>)"

section \<open>The containers with one lock\<close>

definition lwq_push :: "'a \<Rightarrow> 'a list \<Rightarrow> 'a list" where
  "lwq_push v q = q @ [v]"

text \<open>\<open>None\<close>: the thread waits on the condition variable.\<close>

definition lwq_pop :: "'a list \<Rightarrow> ('a \<times> 'a list) option" where
  "lwq_pop q = (case q of [] \<Rightarrow> None | v # q' \<Rightarrow> Some (v, q'))"

definition lwm_insert :: "'k \<Rightarrow> 'v \<Rightarrow> ('k \<rightharpoonup> 'v) \<Rightarrow> bool \<times> ('k \<rightharpoonup> 'v)" where
  "lwm_insert k v m = (if k \<in> dom m then (False, m) else (True, m(k \<mapsto> v)))"

definition lwm_find :: "'k \<Rightarrow> ('k \<rightharpoonup> 'v) \<Rightarrow> 'v option" where
  "lwm_find k m = m k"

definition lwm_erase :: "'k \<Rightarrow> ('k \<rightharpoonup> 'v) \<Rightarrow> bool \<times> ('k \<rightharpoonup> 'v)" where
  "lwm_erase k m = (k \<in> dom m, m(k := None))"

lemma lwq_fifo: "lwq_pop (fold lwq_push (v # vs) []) = Some (v, vs)"
proof -
  have "fold lwq_push xs q = q @ xs" for xs q :: "'a list"
    by (induction xs arbitrary: q) (simp_all add: lwq_push_def)
  then show ?thesis by (simp add: lwq_pop_def lwq_push_def)
qed

lemma lwm_find_insert:
  "lwm_find k' (snd (lwm_insert k v m)) = (if k' = k \<and> k \<notin> dom m then Some v else lwm_find k' m)"
  by (auto simp: lwm_find_def lwm_insert_def)

section \<open>LockingMap\<close>

text \<open>The nodes are numbered in the order of their creation; \<^verbatim>\<open>the_map\<close> is kept in the order of
  its keys. A node that has been erased stays in the list, as it does in memory while a
  \<^verbatim>\<open>shared_ptr\<close> leads to it.\<close>

record ('k, 'v) node =
  nd_key :: 'k
  nd_val :: 'v
  nd_lock :: rwlock

text \<open>\<open>ac_call\<close> is the local variable \<^verbatim>\<open>target\<close> of a call of \<^verbatim>\<open>find\<close> or \<^verbatim>\<open>insert\<close> on its way from the
  one lock to the other.\<close>

record accessor =
  ac_writer :: bool
  my_node :: "nat option"
  ac_call :: "nat option"

text \<open>An iterator made by \<^verbatim>\<open>begin(true, writer)\<close>: the nodes it has locked, and those whose locks its
  constructor still has to take.\<close>

record iterator =
  it_writer :: bool
  it_active :: bool
  member_locks :: "nat list"
  it_todo :: "nat list"

record ('k, 'v) locking_map =
  the_map :: "('k \<times> nat) list"
  nodes :: "('k, 'v) node list"
  membership_lock :: rwlock
  accessors :: "accessor list"
  iterators :: "iterator list"

text \<open>The actions, each by the accessor or iterator with the number that comes first.\<close>

datatype ('k, 'v) action =
    Find nat 'k
  | Insert nat 'k
  | LockNode nat
  | Release nat
  | Erase 'k
  | EraseAt nat
  | Assign nat 'v
  | BeginLocked nat
  | LockMember nat
  | EndIteration nat

definition new_node :: "'k \<Rightarrow> 'v \<Rightarrow> ('k, 'v) node" where
  "new_node k v = \<lparr>nd_key = k, nd_val = v, nd_lock = RWLOCK_INIT\<rparr>"

definition set_lock :: "nat \<Rightarrow> rwlock \<Rightarrow> ('k, 'v) locking_map \<Rightarrow> ('k, 'v) locking_map" where
  "set_lock r l m = m\<lparr>nodes := (nodes m)[r := (nodes m ! r)\<lparr>nd_lock := l\<rparr>]\<rparr>"

abbreviation lock_of :: "('k, 'v) locking_map \<Rightarrow> nat \<Rightarrow> rwlock" where
  "lock_of m r \<equiv> nd_lock (nodes m ! r)"

definition set_accessor :: "nat \<Rightarrow> accessor \<Rightarrow> ('k, 'v) locking_map \<Rightarrow> ('k, 'v) locking_map" where
  "set_accessor i a m = m\<lparr>accessors := (accessors m)[i := a]\<rparr>"

text \<open>The first halves of \<^verbatim>\<open>find\<close> and \<^verbatim>\<open>insert\<close>. The result says whether the call goes on; when it
  does not, the call has returned \<^verbatim>\<open>false\<close>. \<open>dflt\<close> is \<^verbatim>\<open>ValueType()\<close>.\<close>

definition find_enter :: "nat \<Rightarrow> 'k \<Rightarrow> ('k, 'v) locking_map \<Rightarrow> bool \<times> ('k, 'v) locking_map" where
  "find_enter i k m =
     (case map_of (the_map m) k of
        None \<Rightarrow> (False, m)
      | Some r \<Rightarrow> (True, set_accessor i ((accessors m ! i)\<lparr>ac_call := Some r\<rparr>) m))"

definition insert_enter ::
    "'v \<Rightarrow> nat \<Rightarrow> 'k::linorder \<Rightarrow> ('k, 'v) locking_map \<Rightarrow> (bool \<times> ('k, 'v) locking_map) option" where
  "insert_enter dflt i k m =
     (case RWLOCK_ACQUIRE True (membership_lock m) of
        None \<Rightarrow> None
      | Some _ \<Rightarrow>
          Some (if map_of (the_map m) k \<noteq> None then (False, m)
                else let r = length (nodes m)
                     in (True, set_accessor i ((accessors m ! i)\<lparr>ac_call := Some r\<rparr>)
                           (m\<lparr>the_map := insort_key fst (k, r) (the_map m),
                              nodes := nodes m @ [new_node k dflt]\<rparr>))))"

text \<open>Their second half: the lock of the node, then the accessor refers to the node. What it referred
  to before is forgotten with its lock still taken.\<close>

definition lock_node :: "nat \<Rightarrow> ('k, 'v) locking_map \<Rightarrow> ('k, 'v) locking_map option" where
  "lock_node i m =
     (let a = accessors m ! i
      in case ac_call a of
           None \<Rightarrow> None
         | Some r \<Rightarrow>
             (case RWLOCK_ACQUIRE (ac_writer a) (lock_of m r) of
                None \<Rightarrow> None
              | Some l \<Rightarrow> Some (set_accessor i (a\<lparr>my_node := Some r, ac_call := None\<rparr>) (set_lock r l m))))"

definition accessor_release :: "nat \<Rightarrow> ('k, 'v) locking_map \<Rightarrow> ('k, 'v) locking_map" where
  "accessor_release i m =
     (let a = accessors m ! i
      in case my_node a of
           None \<Rightarrow> m
         | Some r \<Rightarrow> set_accessor i (a\<lparr>my_node := None\<rparr>)
                       (set_lock r (RWLOCK_UNLOCK (ac_writer a) (lock_of m r)) m))"

definition erase_key :: "'k \<Rightarrow> ('k, 'v) locking_map \<Rightarrow> (bool \<times> ('k, 'v) locking_map) option" where
  "erase_key k m =
     (case RWLOCK_ACQUIRE True (membership_lock m) of
        None \<Rightarrow> None
      | Some _ \<Rightarrow> Some (if map_of (the_map m) k = None then (False, m)
                        else (True, m\<lparr>the_map := filter (\<lambda>e. fst e \<noteq> k) (the_map m)\<rparr>)))"

definition erase_accessor :: "nat \<Rightarrow> ('k, 'v) locking_map \<Rightarrow> (bool \<times> ('k, 'v) locking_map) option result" where
  "erase_accessor i m =
     (case my_node (accessors m ! i) of
        None \<Rightarrow> Inl AssertFailed
      | Some r \<Rightarrow> Inr (erase_key (nd_key (nodes m ! r)) m))"

text \<open>\<^verbatim>\<open>operator->\<close> asserts that the accessor refers to a node; it does not ask whether it is a writer.\<close>

definition access :: "nat \<Rightarrow> ('k, 'v) locking_map \<Rightarrow> 'v result" where
  "access i m = (case my_node (accessors m ! i) of None \<Rightarrow> Inl AssertFailed | Some r \<Rightarrow> Inr (nd_val (nodes m ! r)))"

definition assign :: "nat \<Rightarrow> 'v \<Rightarrow> ('k, 'v) locking_map \<Rightarrow> ('k, 'v) locking_map result" where
  "assign i v m =
     (case my_node (accessors m ! i) of
        None \<Rightarrow> Inl AssertFailed
      | Some r \<Rightarrow> Inr (m\<lparr>nodes := (nodes m)[r := (nodes m ! r)\<lparr>nd_val := v\<rparr>]\<rparr>))"

text \<open>The constructor of a locked iterator takes the lock of the membership as a reader, and then
  the locks of all nodes in the order of the keys; its destructor gives all of them up.\<close>

definition begin_locked :: "nat \<Rightarrow> ('k, 'v) locking_map \<Rightarrow> ('k, 'v) locking_map option" where
  "begin_locked i m =
     (case RWLOCK_ACQUIRE False (membership_lock m) of
        None \<Rightarrow> None
      | Some l \<Rightarrow> Some (m\<lparr>membership_lock := l,
          iterators := (iterators m)[i := (iterators m ! i)\<lparr>it_active := True, it_todo := map snd (the_map m)\<rparr>]\<rparr>))"

definition lock_member :: "nat \<Rightarrow> ('k, 'v) locking_map \<Rightarrow> ('k, 'v) locking_map option" where
  "lock_member i m =
     (let it = iterators m ! i
      in case it_todo it of
           [] \<Rightarrow> None
         | r # rs \<Rightarrow>
             (case RWLOCK_ACQUIRE (it_writer it) (lock_of m r) of
                None \<Rightarrow> None
              | Some l \<Rightarrow> Some ((set_lock r l m)\<lparr>
                  iterators := (iterators m)[i := it\<lparr>member_locks := member_locks it @ [r], it_todo := rs\<rparr>]\<rparr>)))"

text \<open>The locks are given up from the last to the first (\<^verbatim>\<open>member_locks.pop_back()\<close>), and then the lock
  of the membership.\<close>

definition end_iteration :: "nat \<Rightarrow> ('k, 'v) locking_map \<Rightarrow> ('k, 'v) locking_map" where
  "end_iteration i m =
     (let it = iterators m ! i;
          m1 = fold (\<lambda>r m. set_lock r (RWLOCK_UNLOCK (it_writer it) (lock_of m r)) m) (rev (member_locks it)) m
      in m1\<lparr>membership_lock := RWLOCK_UNLOCK False (membership_lock m1),
            iterators := (iterators m1)[i := it\<lparr>it_active := False, member_locks := []\<rparr>]\<rparr>)"

section \<open>Interleavings\<close>

text \<open>What its user may do with an accessor: nothing else while a call on it is under way. An iterator
  is begun once at a time and is used when its constructor has all the locks.\<close>

abbreviation free :: "('k, 'v) locking_map \<Rightarrow> nat \<Rightarrow> bool" where
  "free m i \<equiv> i < length (accessors m) \<and> ac_call (accessors m ! i) = None"

fun lm_exec :: "'v \<Rightarrow> ('k::linorder, 'v) action \<Rightarrow> ('k, 'v) locking_map \<Rightarrow> ('k, 'v) locking_map option result" where
  "lm_exec dflt (Find i k) m = Inr (if free m i then Some (snd (find_enter i k m)) else None)"
| "lm_exec dflt (Insert i k) m =
     Inr (if free m i \<and> ac_writer (accessors m ! i) then map_option snd (insert_enter dflt i k m) else None)"
| "lm_exec dflt (LockNode i) m = Inr (if i < length (accessors m) then lock_node i m else None)"
| "lm_exec dflt (Release i) m = Inr (if free m i then Some (accessor_release i m) else None)"
| "lm_exec dflt (Erase k) m = Inr (map_option snd (erase_key k m))"
| "lm_exec dflt (EraseAt i) m =
     (if free m i then bindE (erase_accessor i m) (\<lambda>r. Inr (map_option snd r)) else Inr None)"
| "lm_exec dflt (Assign i v) m = (if free m i then bindE (assign i v m) (\<lambda>m. Inr (Some m)) else Inr None)"
| "lm_exec dflt (BeginLocked i) m =
     Inr (if i < length (iterators m) \<and> \<not> it_active (iterators m ! i) then begin_locked i m else None)"
| "lm_exec dflt (LockMember i) m = Inr (if i < length (iterators m) then lock_member i m else None)"
| "lm_exec dflt (EndIteration i) m =
     Inr (if i < length (iterators m) \<and> it_active (iterators m ! i) \<and> it_todo (iterators m ! i) = []
          then Some (end_iteration i m) else None)"

definition new_accessor :: "bool \<Rightarrow> accessor" where
  "new_accessor w = \<lparr>ac_writer = w, my_node = None, ac_call = None\<rparr>"

definition new_iterator :: "bool \<Rightarrow> iterator" where
  "new_iterator w = \<lparr>it_writer = w, it_active = False, member_locks = [], it_todo = []\<rparr>"

text \<open>An empty map with its users: the accessors and iterators, readers and writers, of all threads.\<close>

definition LockingMap :: "bool list \<Rightarrow> bool list \<Rightarrow> ('k, 'v) locking_map" where
  "LockingMap ws its = \<lparr>the_map = [], nodes = [], membership_lock = RWLOCK_INIT,
     accessors = map new_accessor ws, iterators = map new_iterator its\<rparr>"

inductive lm_reach :: "'v \<Rightarrow> ('k::linorder, 'v) locking_map \<Rightarrow> bool" for dflt where
  lm_start: "lm_reach dflt (LockingMap ws its)"
| lm_step: "lm_reach dflt m \<Longrightarrow> lm_exec dflt a m = Inr (Some m') \<Longrightarrow> lm_reach dflt m'"

text \<open>A given schedule; \<open>None\<close> when a thread is scheduled that waits.\<close>

fun lm_run :: "'v \<Rightarrow> ('k::linorder, 'v) action list \<Rightarrow> ('k, 'v) locking_map \<Rightarrow> ('k, 'v) locking_map option result" where
  "lm_run dflt [] m = Inr (Some m)"
| "lm_run dflt (a # as) m =
     bindE (lm_exec dflt a m) (\<lambda>r. case r of None \<Rightarrow> Inr None | Some m' \<Rightarrow> lm_run dflt as m')"

section \<open>The locks count their holders\<close>

definition acc_holds :: "bool \<Rightarrow> nat \<Rightarrow> accessor \<Rightarrow> nat" where
  "acc_holds w r a = of_bool (ac_writer a = w \<and> my_node a = Some r)"

definition it_holds :: "bool \<Rightarrow> nat \<Rightarrow> iterator \<Rightarrow> nat" where
  "it_holds w r it = (if it_writer it = w then count_list (member_locks it) r else 0)"

definition holders :: "bool \<Rightarrow> nat \<Rightarrow> ('k, 'v) locking_map \<Rightarrow> nat" where
  "holders w r m = sum_list (map (acc_holds w r) (accessors m)) + sum_list (map (it_holds w r) (iterators m))"

text \<open>A lock with at least so many writers and readers. More is possible: the lock of an accessor that
  was used again without being released is held by nobody.\<close>

definition covers :: "rwlock \<Rightarrow> nat \<Rightarrow> nat \<Rightarrow> bool" where
  "covers l nw nr \<longleftrightarrow> nw \<le> of_bool (rw_writer l) \<and> nr \<le> rw_readers l \<and> (rw_writer l \<longrightarrow> rw_readers l = 0)"

text \<open>Everything leads to nodes that exist.\<close>

definition acc_ok :: "nat \<Rightarrow> accessor \<Rightarrow> bool" where
  "acc_ok n a \<longleftrightarrow> (\<forall>r. my_node a = Some r \<or> ac_call a = Some r \<longrightarrow> r < n)"

definition it_ok :: "nat \<Rightarrow> iterator \<Rightarrow> bool" where
  "it_ok n it \<longleftrightarrow> set (member_locks it) \<union> set (it_todo it) \<subseteq> {..<n} \<and>
     (\<not> it_active it \<longrightarrow> member_locks it = [] \<and> it_todo it = [])"

definition map_ok :: "('k, 'v) locking_map \<Rightarrow> bool" where
  "map_ok m \<longleftrightarrow> distinct (map fst (the_map m)) \<and>
     (\<forall>(k, r)\<in>set (the_map m). r < length (nodes m) \<and> nd_key (nodes m ! r) = k)"

definition lm_inv :: "('k, 'v) locking_map \<Rightarrow> bool" where
  "lm_inv m \<longleftrightarrow> map_ok m \<and> (\<forall>a\<in>set (accessors m). acc_ok (length (nodes m)) a) \<and>
     (\<forall>it\<in>set (iterators m). it_ok (length (nodes m)) it) \<and>
     (\<forall>r<length (nodes m). covers (lock_of m r) (holders True r m) (holders False r m)) \<and>
     membership_lock m = \<lparr>rw_writer = False, rw_readers = length (filter it_active (iterators m))\<rparr>"

lemma ball_update: "\<forall>x\<in>set xs. P x \<Longrightarrow> P y \<Longrightarrow> \<forall>x\<in>set (xs[i := y]). P x"
  using set_update_subset_insert [of xs i y] by auto

lemma covers_acquire:
  "covers l nw nr \<Longrightarrow> RWLOCK_ACQUIRE w l = Some l' \<Longrightarrow> covers l' (nw + of_bool w) (nr + of_bool (\<not> w))"
  by (auto simp: covers_def RWLOCK_ACQUIRE_def split: if_splits)

lemma covers_unlock: "covers l (nw + of_bool w) (nr + of_bool (\<not> w)) \<Longrightarrow> covers (RWLOCK_UNLOCK w l) nw nr"
  by (cases w; cases "rw_writer l") (auto simp: covers_def RWLOCK_UNLOCK_def)

lemma covers_excludes: "covers l nw nr \<Longrightarrow> nw \<le> 1 \<and> (nw > 0 \<longrightarrow> nr = 0)"
  by (cases "rw_writer l") (auto simp: covers_def)

lemma covers_mono: "covers l nw nr \<Longrightarrow> nw' \<le> nw \<Longrightarrow> nr' \<le> nr \<Longrightarrow> covers l nw' nr'"
  by (auto simp: covers_def)

text \<open>How an update of one user changes a sum over all.\<close>

lemma sum_update_plus:
  fixes f :: "'a \<Rightarrow> nat"
  assumes "i < length xs"
  shows "sum_list (map f (xs[i := y])) + f (xs ! i) = sum_list (map f xs) + f y"
proof -
  have "f (xs ! i) \<le> sum_list (map f xs)" using assms by (simp add: elem_le_sum_list [of i "map f xs", simplified])
  then show ?thesis using assms by (simp add: map_update sum_list_update)
qed

lemma holders_accessor:
  assumes "i < length (accessors m)" and "accessors m' = (accessors m)[i := a]" and "iterators m' = iterators m"
  shows "holders w r m' + acc_holds w r (accessors m ! i) = holders w r m + acc_holds w r a"
  using sum_update_plus [OF assms(1), of "acc_holds w r" a] assms by (simp add: holders_def)

lemma holders_iterator:
  assumes "i < length (iterators m)" and "iterators m' = (iterators m)[i := it]" and "accessors m' = accessors m"
  shows "holders w r m' + it_holds w r (iterators m ! i) = holders w r m + it_holds w r it"
  using sum_update_plus [OF assms(1), of "it_holds w r" it] assms by (simp add: holders_def)

lemma set_lock_simps [simp]:
  "the_map (set_lock r l m) = the_map m" "accessors (set_lock r l m) = accessors m"
  "iterators (set_lock r l m) = iterators m" "membership_lock (set_lock r l m) = membership_lock m"
  "length (nodes (set_lock r l m)) = length (nodes m)"
  by (simp_all add: set_lock_def)

lemma set_lock_nth:
  "r < length (nodes m) \<Longrightarrow> r' < length (nodes m) \<Longrightarrow> nodes (set_lock r l m) ! r' =
    (if r' = r then (nodes m ! r)\<lparr>nd_lock := l\<rparr> else nodes m ! r')"
  by (simp add: set_lock_def nth_list_update)

lemma set_accessor_simps [simp]:
  "the_map (set_accessor i a m) = the_map m" "nodes (set_accessor i a m) = nodes m"
  "iterators (set_accessor i a m) = iterators m" "membership_lock (set_accessor i a m) = membership_lock m"
  "accessors (set_accessor i a m) = (accessors m)[i := a]"
  by (simp_all add: set_accessor_def)

lemma lm_invD:
  assumes "lm_inv m"
  shows "map_of (the_map m) k = Some r \<Longrightarrow> r < length (nodes m) \<and> nd_key (nodes m ! r) = k"
    and "i < length (accessors m) \<Longrightarrow> acc_ok (length (nodes m)) (accessors m ! i)"
    and "i < length (iterators m) \<Longrightarrow> it_ok (length (nodes m)) (iterators m ! i)"
    and "r < length (nodes m) \<Longrightarrow> covers (lock_of m r) (holders True r m) (holders False r m)"
  using assms by (auto simp: lm_inv_def map_ok_def dest!: map_of_SomeD)

text \<open>An accessor that only starts a call; one that gets or loses the lock of a node; the same for an iterator.\<close>

lemma inv_new_call:
  assumes "lm_inv m" and "i < length (accessors m)" and "r < length (nodes m)"
  shows "lm_inv (set_accessor i ((accessors m ! i)\<lparr>ac_call := Some r\<rparr>) m)"
proof -
  let ?a = "(accessors m ! i)\<lparr>ac_call := Some r\<rparr>"
  let ?m = "set_accessor i ?a m"
  have "holders w r' ?m = holders w r' m" for w r'
    using holders_accessor [OF assms(2), of ?m ?a w r'] by (simp add: acc_holds_def)
  moreover have "acc_ok (length (nodes m)) ?a" using lm_invD(2) [OF assms(1,2)] assms(3) by (auto simp: acc_ok_def)
  ultimately show ?thesis using assms(1) ball_update [of "accessors m" "acc_ok (length (nodes m))" ?a i]
    by (simp add: lm_inv_def map_ok_def)
qed

lemma inv_set_lock:
  assumes "lm_inv m" and "r < length (nodes m)" and "the_map m' = the_map m" and "nodes m' = nodes (set_lock r l m)"
    and "covers l (holders True r m') (holders False r m')"
    and "\<And>r'. r' < length (nodes m) \<Longrightarrow> r' \<noteq> r \<Longrightarrow> covers (lock_of m r') (holders True r' m') (holders False r' m')"
    and "\<forall>a\<in>set (accessors m'). acc_ok (length (nodes m)) a" and "\<forall>it\<in>set (iterators m'). it_ok (length (nodes m)) it"
    and "membership_lock m' = \<lparr>rw_writer = False, rw_readers = length (filter it_active (iterators m'))\<rparr>"
  shows "lm_inv m'"
proof -
  have "\<forall>r'<length (nodes m'). covers (lock_of m' r') (holders True r' m') (holders False r' m')"
    using assms(5,6) unfolding assms(4) by (simp add: set_lock_nth [OF assms(2)])
  moreover have "map_ok m'" using assms(1) unfolding map_ok_def lm_inv_def assms(3,4)
    by (auto simp: set_lock_nth [OF assms(2)])
  ultimately show ?thesis using assms(7-9) unfolding lm_inv_def by (simp add: assms(4))
qed

lemma inv_lock_node:
  assumes "lm_inv m" and "i < length (accessors m)" and "lock_node i m = Some m'"
  shows "lm_inv m'"
proof -
  let ?a = "accessors m ! i"
  obtain r l where r: "ac_call ?a = Some r" and l: "RWLOCK_ACQUIRE (ac_writer ?a) (lock_of m r) = Some l"
    and m': "m' = set_accessor i (?a\<lparr>my_node := Some r, ac_call := None\<rparr>) (set_lock r l m)"
    using assms(3) by (auto simp: lock_node_def Let_def split: option.splits)
  let ?b = "?a\<lparr>my_node := Some r, ac_call := None\<rparr>"
  have n: "r < length (nodes m)" using lm_invD(2) [OF assms(1,2)] r by (simp add: acc_ok_def)
  have h: "holders w r' m' + acc_holds w r' ?a = holders w r' m + acc_holds w r' ?b" for w r'
    by (rule holders_accessor [OF assms(2)]) (simp_all add: m')
  show ?thesis
  proof (rule inv_set_lock [OF assms(1) n, where l = l])
    have "holders w r m' \<le> holders w r m + of_bool (ac_writer ?a = w)" for w
      using h [of w r] by (simp add: acc_holds_def)
    from this [of True] this [of False] show "covers l (holders True r m') (holders False r m')"
      by (intro covers_mono [OF covers_acquire [OF lm_invD(4) [OF assms(1) n] l]]) simp_all
    show "covers (lock_of m r') (holders True r' m') (holders False r' m')" if "r' < length (nodes m)" "r' \<noteq> r" for r'
      using covers_mono [OF lm_invD(4) [OF assms(1) that(1)]] h [of True r'] h [of False r'] that(2)
      by (simp add: acc_holds_def)
    show "\<forall>a\<in>set (accessors m'). acc_ok (length (nodes m)) a"
      unfolding m' set_accessor_simps set_lock_simps
      by (rule ball_update) (use assms(1) n in \<open>simp_all add: lm_inv_def acc_ok_def\<close>)
  qed (use assms(1) in \<open>auto simp: m' lm_inv_def\<close>)
qed

lemma inv_release:
  assumes "lm_inv m" and "i < length (accessors m)"
  shows "lm_inv (accessor_release i m)"
proof (cases "my_node (accessors m ! i)")
  case (Some r)
  let ?a = "accessors m ! i"
  let ?l = "RWLOCK_UNLOCK (ac_writer ?a) (lock_of m r)"
  let ?b = "?a\<lparr>my_node := None\<rparr>"
  define m' where "m' = set_accessor i ?b (set_lock r ?l m)"
  have n: "r < length (nodes m)" using lm_invD(2) [OF assms(1,2)] Some by (simp add: acc_ok_def)
  have h: "holders w r' m' + acc_holds w r' ?a = holders w r' m + acc_holds w r' ?b" for w r'
    by (rule holders_accessor [OF assms(2)]) (simp_all add: m'_def)
  have "lm_inv m'"
  proof (rule inv_set_lock [OF assms(1) n, where l = ?l])
    have "holders w r m = holders w r m' + of_bool (ac_writer ?a = w)" for w
      using h [of w r] Some by (simp add: acc_holds_def)
    then show "covers ?l (holders True r m') (holders False r m')"
      using lm_invD(4) [OF assms(1) n] by (intro covers_unlock) simp
    show "covers (lock_of m r') (holders True r' m') (holders False r' m')" if "r' < length (nodes m)" "r' \<noteq> r" for r'
      using covers_mono [OF lm_invD(4) [OF assms(1) that(1)]] h [of True r'] h [of False r'] that(2)
      by (simp add: acc_holds_def)
    show "\<forall>a\<in>set (accessors m'). acc_ok (length (nodes m)) a"
      unfolding m'_def set_accessor_simps set_lock_simps
      by (rule ball_update) (use assms(1) lm_invD(2) [OF assms(1,2)] in \<open>simp_all add: lm_inv_def acc_ok_def\<close>)
  qed (use assms(1) in \<open>auto simp: m'_def lm_inv_def\<close>)
  then show ?thesis using Some by (simp add: accessor_release_def m'_def Let_def)
qed (simp add: accessor_release_def assms(1))

lemma inv_insert:
  fixes m :: "('k::linorder, 'v) locking_map"
  assumes "lm_inv m" and "i < length (accessors m)" and "insert_enter dflt i k m = Some (b, m')"
  shows "lm_inv m'"
proof (cases "map_of (the_map m) k")
  case None
  let ?r = "length (nodes m)"
  let ?m = "m\<lparr>the_map := insort_key fst (k, ?r) (the_map m), nodes := nodes m @ [new_node k dflt]\<rparr>"
  have "acc_holds w ?r a = 0" if "a \<in> set (accessors m)" for w a
    using assms(1) that by (auto simp: lm_inv_def acc_ok_def acc_holds_def)
  moreover have "it_holds w ?r it = 0" if "it \<in> set (iterators m)" for w it
  proof -
    have "?r \<notin> set (member_locks it)" using assms(1) that by (auto simp: lm_inv_def it_ok_def)
    then show ?thesis by (simp add: it_holds_def)
  qed
  ultimately have zero: "holders w ?r m = 0" for w by (simp add: holders_def)
  have "k \<notin> fst ` set (the_map m)" using None by (simp add: map_of_eq_None_iff)
  then have "map_ok ?m"
    using assms(1) distinct_keys_insort [of "the_map m" "(k, ?r)"]
    by (auto simp: map_ok_def lm_inv_def set_insort_key nth_append new_node_def)
  moreover have "covers (lock_of ?m r) (holders True r ?m) (holders False r ?m)" if "r < Suc ?r" for r
  proof -
    have "holders w r ?m = holders w r m" for w by (simp add: holders_def)
    then show ?thesis using that lm_invD(4) [OF assms(1), of r] zero
      by (cases "r = ?r") (simp_all add: nth_append new_node_def covers_def RWLOCK_INIT_def)
  qed
  moreover have "acc_ok (Suc ?r) a" if "acc_ok ?r a" for a using that by (auto simp: acc_ok_def less_SucI)
  moreover have "it_ok (Suc ?r) it" if "it_ok ?r it" for it using that by (fastforce simp: it_ok_def less_SucI)
  ultimately have "lm_inv ?m" using assms(1) unfolding lm_inv_def by simp
  then have "lm_inv (set_accessor i ((accessors ?m ! i)\<lparr>ac_call := Some ?r\<rparr>) ?m)"
    by (rule inv_new_call) (use assms(2) in simp_all)
  then show ?thesis using assms(3) None by (auto simp: insert_enter_def Let_def split: option.splits)
qed (use assms in \<open>auto simp: insert_enter_def split: option.splits\<close>)

lemma inv_erase: "lm_inv m \<Longrightarrow> erase_key k m = Some (b, m') \<Longrightarrow> lm_inv m'"
  by (auto simp: erase_key_def lm_inv_def map_ok_def holders_def distinct_map_filter split: option.splits if_splits)

lemma inv_assign:
  assumes "lm_inv m" and "assign i v m = Inr m'"
  shows "lm_inv m'"
proof -
  obtain r where m': "m' = m\<lparr>nodes := (nodes m)[r := (nodes m ! r)\<lparr>nd_val := v\<rparr>]\<rparr>"
    using assms(2) by (auto simp: assign_def split: option.splits)
  have n: "nd_key (nodes m' ! r') = nd_key (nodes m ! r') \<and> lock_of m' r' = lock_of m r'" for r'
    by (cases "r < length (nodes m)") (auto simp: m' nth_list_update list_update_beyond)
  have h: "holders w r' m' = holders w r' m" for w r' by (simp add: holders_def m')
  have l: "the_map m' = the_map m" "accessors m' = accessors m" "iterators m' = iterators m"
    "membership_lock m' = membership_lock m" "length (nodes m') = length (nodes m)" by (simp_all add: m')
  show ?thesis using assms(1) unfolding lm_inv_def map_ok_def l h by (simp add: n)
qed

lemma active_count:
  assumes "i < length its"
  shows "length (filter it_active (its[i := it])) + of_bool (it_active (its ! i)) =
     length (filter it_active its) + of_bool (it_active it)"
proof -
  have len: "length (filter it_active xs) = (\<Sum>it\<leftarrow>xs. of_bool (it_active it))" for xs by (induction xs) simp_all
  show ?thesis unfolding len by (rule sum_update_plus [OF assms])
qed

lemma inv_begin:
  assumes "lm_inv m" and "i < length (iterators m)" and "\<not> it_active (iterators m ! i)" and "begin_locked i m = Some m'"
  shows "lm_inv m'"
proof -
  let ?it = "(iterators m ! i)\<lparr>it_active := True, it_todo := map snd (the_map m)\<rparr>"
  have mem: "membership_lock m = \<lparr>rw_writer = False, rw_readers = length (filter it_active (iterators m))\<rparr>"
    using assms(1) by (simp add: lm_inv_def)
  have m': "m' = m\<lparr>membership_lock := \<lparr>rw_writer = False, rw_readers = Suc (length (filter it_active (iterators m)))\<rparr>,
      iterators := (iterators m)[i := ?it]\<rparr>"
    using assms(4) by (simp add: begin_locked_def RWLOCK_ACQUIRE_def mem)
  have h: "holders w r m' = holders w r m" for w r
    using holders_iterator [OF assms(2), of m' ?it w r] by (simp add: m' it_holds_def split: if_splits)
  have "it_ok (length (nodes m)) ?it"
    using lm_invD(3) [OF assms(1,2)] assms(1) by (auto simp: it_ok_def lm_inv_def map_ok_def)
  then have "\<forall>it\<in>set ((iterators m)[i := ?it]). it_ok (length (nodes m)) it"
    by (intro ball_update) (use assms(1) in \<open>simp_all add: lm_inv_def\<close>)
  then show ?thesis using assms(1) h active_count [OF assms(2), of ?it] assms(3)
    unfolding lm_inv_def map_ok_def by (simp add: m')
qed

lemma inv_lock_member:
  assumes "lm_inv m" and "i < length (iterators m)" and "lock_member i m = Some m'"
  shows "lm_inv m'"
proof -
  let ?it = "iterators m ! i"
  obtain r rs l where r: "it_todo ?it = r # rs" and l: "RWLOCK_ACQUIRE (it_writer ?it) (lock_of m r) = Some l"
    and m': "m' = (set_lock r l m)\<lparr>iterators := (iterators m)[i := ?it\<lparr>member_locks := member_locks ?it @ [r], it_todo := rs\<rparr>]\<rparr>"
    using assms(3) by (auto simp: lock_member_def Let_def split: option.splits list.splits)
  let ?new = "?it\<lparr>member_locks := member_locks ?it @ [r], it_todo := rs\<rparr>"
  have ok: "it_ok (length (nodes m)) ?it" by (rule lm_invD(3) [OF assms(1,2)])
  then have n: "r < length (nodes m)" using r by (simp add: it_ok_def)
  have h: "holders w r' m' + it_holds w r' ?it = holders w r' m + it_holds w r' ?new" for w r'
    by (rule holders_iterator [OF assms(2)]) (simp_all add: m')
  show ?thesis
  proof (rule inv_set_lock [OF assms(1) n, where l = l])
    have "holders w r m' = holders w r m + of_bool (it_writer ?it = w)" for w
      using h [of w r] by (simp add: it_holds_def split: if_splits)
    then show "covers l (holders True r m') (holders False r m')"
      using covers_acquire [OF lm_invD(4) [OF assms(1) n] l] by simp
    show "covers (lock_of m r') (holders True r' m') (holders False r' m')" if "r' < length (nodes m)" "r' \<noteq> r" for r'
      using covers_mono [OF lm_invD(4) [OF assms(1) that(1)]] h [of True r'] h [of False r'] that(2)
      by (simp add: it_holds_def split: if_splits)
    have "it_ok (length (nodes m)) ?new" using ok r by (auto simp: it_ok_def)
    then show "\<forall>it\<in>set (iterators m'). it_ok (length (nodes m)) it"
      using assms(1) by (simp add: m') (intro ball_update; simp add: lm_inv_def)
    show "membership_lock m' = \<lparr>rw_writer = False, rw_readers = length (filter it_active (iterators m'))\<rparr>"
      using active_count [OF assms(2), of ?new] assms(1) by (simp add: m' lm_inv_def)
  qed (use assms(1) in \<open>simp_all add: m' lm_inv_def\<close>)
qed

lemma inv_unlock_members:
  assumes "lm_inv (m\<lparr>iterators := its[i := it\<lparr>member_locks := xs\<rparr>]\<rparr>)" and "i < length its" and "it_active it"
  shows "lm_inv ((fold (\<lambda>r m. set_lock r (RWLOCK_UNLOCK (it_writer it) (lock_of m r)) m) (rev xs) m)\<lparr>
    iterators := its[i := it\<lparr>member_locks := []\<rparr>]\<rparr>)"
  using assms(1)
proof (induction xs arbitrary: m rule: rev_induct)
  case (snoc r xs)
  let ?m = "m\<lparr>iterators := its[i := it\<lparr>member_locks := xs @ [r]\<rparr>]\<rparr>"
  let ?l = "RWLOCK_UNLOCK (it_writer it) (lock_of m r)"
  let ?new = "it\<lparr>member_locks := xs\<rparr>"
  define m' where "m' = (set_lock r ?l m)\<lparr>iterators := its[i := ?new]\<rparr>"
  have ok: "it_ok (length (nodes m)) (it\<lparr>member_locks := xs @ [r]\<rparr>)"
    using lm_invD(3) [OF snoc.prems, of i] assms(2) by simp
  then have n: "r < length (nodes ?m)" by (simp add: it_ok_def)
  have h: "holders w r' m' + it_holds w r' (it\<lparr>member_locks := xs @ [r]\<rparr>) = holders w r' ?m + it_holds w r' ?new" for w r'
    using holders_iterator [of i ?m m' ?new w r'] assms(2) by (simp add: m'_def)
  have "lm_inv m'"
  proof (rule inv_set_lock [OF snoc.prems n, where l = ?l])
    have "holders w r ?m = holders w r m' + of_bool (it_writer it = w)" for w
      using h [of w r] by (simp add: it_holds_def split: if_splits)
    then show "covers ?l (holders True r m') (holders False r m')"
      using lm_invD(4) [OF snoc.prems n] by (intro covers_unlock) simp
    show "covers (lock_of ?m r') (holders True r' m') (holders False r' m')" if "r' < length (nodes ?m)" "r' \<noteq> r" for r'
      using covers_mono [OF lm_invD(4) [OF snoc.prems that(1)]] h [of True r'] h [of False r'] that(2)
      by (simp add: it_holds_def split: if_splits)
    have "it_ok (length (nodes m)) ?new" using ok assms(3) by (auto simp: it_ok_def)
    then have "\<forall>it\<in>set ((its[i := it\<lparr>member_locks := xs @ [r]\<rparr>])[i := ?new]). it_ok (length (nodes m)) it"
      by (rule ball_update [rotated]) (use snoc.prems in \<open>simp_all add: lm_inv_def\<close>)
    then show "\<forall>it\<in>set (iterators m'). it_ok (length (nodes ?m)) it" by (simp add: m'_def)
    show "membership_lock m' = \<lparr>rw_writer = False, rw_readers = length (filter it_active (iterators m'))\<rparr>"
      using active_count [OF assms(2), of ?new] active_count [OF assms(2), of "it\<lparr>member_locks := xs @ [r]\<rparr>"] snoc.prems
      by (simp add: m'_def lm_inv_def)
  qed (use snoc.prems in \<open>simp_all add: m'_def lm_inv_def set_lock_def\<close>)
  then show ?case using snoc.IH [of "set_lock r ?l m"] by (simp add: m'_def)
qed simp

lemma inv_end_iteration:
  assumes "lm_inv m" and "i < length (iterators m)" and "it_active (iterators m ! i)" and "it_todo (iterators m ! i) = []"
  shows "lm_inv (end_iteration i m)"
proof -
  let ?it = "iterators m ! i"
  let ?f = "fold (\<lambda>r m. set_lock r (RWLOCK_UNLOCK (it_writer ?it) (lock_of m r)) m)"
  have keep: "iterators (?f xs m1) = iterators m1 \<and> membership_lock (?f xs m1) = membership_lock m1"
    for xs and m1 :: "('a, 'b) locking_map"
    by (induction xs arbitrary: m1) simp_all
  let ?m = "?f (rev (member_locks ?it)) m"
  let ?mid = "?m\<lparr>iterators := (iterators m)[i := ?it\<lparr>member_locks := []\<rparr>]\<rparr>"
  let ?new = "?it\<lparr>it_active := False, member_locks := []\<rparr>"
  have eq: "end_iteration i m = ?mid\<lparr>membership_lock := RWLOCK_UNLOCK False (membership_lock ?mid),
      iterators := (iterators ?mid)[i := ?new]\<rparr>"
    by (simp add: end_iteration_def Let_def keep)
  have mid: "lm_inv ?mid" by (rule inv_unlock_members) (use assms in simp_all)
  have h: "holders w r (end_iteration i m) = holders w r ?mid" for w r
    using holders_iterator [of i ?mid "end_iteration i m" ?new w r] assms(2) by (simp add: eq it_holds_def split: if_splits)
  have "it_ok (length (nodes ?mid)) ?new" using assms(4) by (simp add: it_ok_def)
  then have "\<forall>it\<in>set ((iterators ?mid)[i := ?new]). it_ok (length (nodes ?mid)) it"
    by (rule ball_update [rotated]) (use mid in \<open>simp_all add: lm_inv_def\<close>)
  moreover have "RWLOCK_UNLOCK False (membership_lock ?mid) =
      \<lparr>rw_writer = False, rw_readers = length (filter it_active ((iterators ?mid)[i := ?new]))\<rparr>"
    using active_count [of i "iterators ?mid" ?new] assms(2,3) mid by (simp add: lm_inv_def RWLOCK_UNLOCK_def)
  ultimately show ?thesis using mid unfolding lm_inv_def map_ok_def h by (simp add: eq)
qed

lemma lm_exec_inv:
  assumes "lm_inv m" and "lm_exec dflt a m = Inr (Some m')"
  shows "lm_inv m'"
proof (cases a)
  case (Find i k)
  then show ?thesis using assms lm_invD(1) [OF assms(1)]
    by (auto simp: find_enter_def intro: inv_new_call split: if_splits option.splits)
next
  case (EraseAt i)
  then show ?thesis using assms
    by (auto simp: bindE_eq_Inr erase_accessor_def intro: inv_erase split: if_splits option.splits)
qed (use assms in \<open>auto simp: bindE_eq_Inr intro: inv_insert inv_lock_node inv_release inv_erase inv_assign inv_begin
    inv_lock_member inv_end_iteration split: if_splits\<close>)

lemma lm_reach_inv: "lm_reach dflt m \<Longrightarrow> lm_inv m"
proof (induction rule: lm_reach.induct)
  case (lm_start ws its)
  have "sum_list (map (\<lambda>x. 0) xs) = (0::nat)" for xs :: "bool list" by (induction xs) simp_all
  then show ?case
    by (auto simp: lm_inv_def map_ok_def LockingMap_def acc_ok_def it_ok_def new_accessor_def new_iterator_def RWLOCK_INIT_def filter_map o_def)
qed (rule lm_exec_inv)

section \<open>Properties\<close>

lemma sum_list_nth_le_pair:
  fixes f :: "'a \<Rightarrow> nat"
  assumes "i < length xs" and "j < length xs" and "i \<noteq> j"
  shows "f (xs ! i) + f (xs ! j) \<le> sum_list (map f xs)"
proof -
  have "sum_list (map f xs) = (\<Sum>k<length xs. f (xs ! k))" by (simp add: sum_list_sum_nth atLeast0LessThan)
  moreover have "(\<Sum>k\<in>{i, j}. f (xs ! k)) \<le> (\<Sum>k<length xs. f (xs ! k))"
    using assms by (intro sum_mono2) auto
  ultimately show ?thesis using assms(3) by simp
qed

lemma writer_is_alone:
  assumes "lm_inv m" and "i < length (accessors m)" and "ac_writer (accessors m ! i)" and "my_node (accessors m ! i) = Some r"
  shows "j < length (accessors m) \<Longrightarrow> j \<noteq> i \<Longrightarrow> my_node (accessors m ! j) \<noteq> Some r"
    and "it \<in> set (iterators m) \<Longrightarrow> r \<notin> set (member_locks it)"
proof -
  have r: "r < length (nodes m)" using lm_invD(2) [OF assms(1,2)] assms(4) by (simp add: acc_ok_def)
  have one: "acc_holds True r (accessors m ! i) = 1" using assms(3,4) by (simp add: acc_holds_def)
  have le: "acc_holds True r (accessors m ! i) \<le> sum_list (map (acc_holds True r) (accessors m))"
    using assms(2) elem_le_sum_list [of i "map (acc_holds True r) (accessors m)"] by simp
  then have "holders True r m > 0" using one by (simp add: holders_def)
  then have bound: "holders True r m \<le> 1" "holders False r m = 0"
    using covers_excludes [OF lm_invD(4) [OF assms(1) r]] by simp_all
  {
    assume j: "j < length (accessors m)" "j \<noteq> i"
    have "acc_holds True r (accessors m ! j) = 0"
      using sum_list_nth_le_pair [OF assms(2) j(1), of "acc_holds True r"] one bound(1) j(2) by (simp add: holders_def)
    moreover have "acc_holds False r (accessors m ! j) = 0"
      using bound(2) j(1) by (simp add: holders_def)
    ultimately show "my_node (accessors m ! j) \<noteq> Some r" by (cases "ac_writer (accessors m ! j)") (auto simp: acc_holds_def)
  next
    assume it: "it \<in> set (iterators m)"
    have "it_holds False r it = 0" using bound(2) it by (simp add: holders_def)
    moreover have "sum_list (map (it_holds True r) (iterators m)) = 0" using le one bound(1) unfolding holders_def by linarith
    then have "it_holds True r it = 0" using it by simp
    ultimately show "r \<notin> set (member_locks it)"
      by (cases "it_writer it") (auto simp: it_holds_def count_list_0_iff)
  }
qed

text \<open>Only an assignment changes the value of a node that exists.\<close>

lemma unlock_keeps_values:
  "nd_val (nodes (fold (\<lambda>r m. set_lock r (f (lock_of m r)) m) rs m) ! r) = nd_val (nodes m ! r)"
proof (induction rs arbitrary: m)
  case (Cons a rs)
  have "nd_val (nodes (set_lock a l m) ! r) = nd_val (nodes m ! r)" for l
    by (cases "a < length (nodes m)"; cases "r = a") (simp_all add: set_lock_def list_update_beyond)
  then show ?case using Cons.IH by simp
qed simp

lemma unlock_keeps_map: "the_map (fold (\<lambda>r m. set_lock r (f (lock_of m r)) m) rs m) = the_map m"
  by (induction rs arbitrary: m) simp_all

lemma set_lock_keeps_value: "nd_val (nodes (set_lock a l m) ! r) = nd_val (nodes m ! r)"
  using unlock_keeps_values [of "\<lambda>_. l" "[a]" m r] by simp

lemma lm_exec_value:
  assumes "lm_exec dflt a m = Inr (Some m')" and "r < length (nodes m)"
    and "\<And>j v. a = Assign j v \<Longrightarrow> my_node (accessors m ! j) \<noteq> Some r"
  shows "nd_val (nodes m' ! r) = nd_val (nodes m ! r)"
  using assms
  by (cases a) (auto simp: find_enter_def insert_enter_def lock_node_def accessor_release_def erase_key_def erase_accessor_def
      assign_def begin_locked_def lock_member_def end_iteration_def Let_def bindE_eq_Inr nth_append unlock_keeps_values
      set_lock_keeps_value split: if_splits option.splits list.splits)

text \<open>
  C14. In every interleaving of the users of a \<^verbatim>\<open>LockingMap\<close>, also when accessors are used again
  without being released, a write accessor has its node for itself: no other accessor and no locked
  iterator refers to it, and nothing that the others do changes the value it reads.
\<close>

theorem write_accessors_exclude:
  fixes m :: "('k::linorder, 'v) locking_map"
  assumes "lm_reach dflt m" and "i < length (accessors m)" and "ac_writer (accessors m ! i)"
    and "my_node (accessors m ! i) = Some r"
  shows "(\<forall>j<length (accessors m). j \<noteq> i \<longrightarrow> my_node (accessors m ! j) \<noteq> Some r) \<and>
    (\<forall>it\<in>set (iterators m). r \<notin> set (member_locks it)) \<and>
    (\<forall>a m'. lm_exec dflt a m = Inr (Some m') \<and> (\<forall>v. a \<noteq> Assign i v) \<longrightarrow> nd_val (nodes m' ! r) = nd_val (nodes m ! r))"
proof -
  have inv: "lm_inv m" by (rule lm_reach_inv [OF assms(1)])
  have r: "r < length (nodes m)" using lm_invD(2) [OF inv assms(2)] assms(4) by (simp add: acc_ok_def)
  have "nd_val (nodes m' ! r) = nd_val (nodes m ! r)"
    if "lm_exec dflt a m = Inr (Some m')" "\<forall>v. a \<noteq> Assign i v" for a and m' :: "('k, 'v) locking_map"
  proof (rule lm_exec_value [OF that(1) r])
    fix j v
    assume a: "a = Assign j v"
    then have "j \<noteq> i" "j < length (accessors m)" using that by (auto split: if_splits)
    then show "my_node (accessors m ! j) \<noteq> Some r" using writer_is_alone(1) [OF inv assms(2-4)] by blast
  qed
  then show ?thesis using writer_is_alone [OF inv assms(2-4)] by blast
qed

definition two_users :: "(nat, nat) locking_map" where
  "two_users = \<lparr>the_map = [(5, 0)], nodes = [\<lparr>nd_key = 5, nd_val = 0, nd_lock = \<lparr>rw_writer = True, rw_readers = 0\<rparr>\<rparr>],
     membership_lock = RWLOCK_INIT, accessors = [\<lparr>ac_writer = True, my_node = Some 0, ac_call = None\<rparr>,
       \<lparr>ac_writer = False, my_node = None, ac_call = Some 0\<rparr>], iterators = []\<rparr>"

lemma lm_run_reach: "lm_reach dflt m \<Longrightarrow> lm_run dflt as m = Inr (Some m') \<Longrightarrow> lm_reach dflt m'"
  by (induction "as" arbitrary: m) (auto simp: bindE_eq_Inr intro: lm_step split: option.splits)

lemma two_users_reached: "lm_reach 0 two_users"
  by (rule lm_run_reach [OF lm_start [of 0 "[True, False]" "[]"], of "[Insert 0 5, Find 1 5, LockNode 0]"])
    (simp add: LockingMap_def two_users_def insert_enter_def find_enter_def lock_node_def RWLOCK_ACQUIRE_def RWLOCK_INIT_def
      new_accessor_def new_node_def set_accessor_def set_lock_def Let_def)

lemma write_accessors_exclude_witness:
  "my_node (accessors two_users ! 1) \<noteq> Some 0 \<and>
   (\<exists>m'. lm_exec 0 (Insert 0 7) (two_users :: (nat, nat) locking_map) = Inr (Some m') \<and> nd_val (nodes m' ! 0) = nd_val (nodes two_users ! 0))"
proof -
  obtain m' where m': "lm_exec 0 (Insert 0 7) two_users = Inr (Some m')"
    by (simp add: two_users_def insert_enter_def RWLOCK_ACQUIRE_def RWLOCK_INIT_def)
  have "0 < length (accessors two_users)" "ac_writer (accessors two_users ! 0)" "my_node (accessors two_users ! 0) = Some 0"
    by (simp_all add: two_users_def)
  note t = write_accessors_exclude [OF two_users_reached this]
  have "my_node (accessors two_users ! 1) \<noteq> Some 0" by (rule t [THEN conjunct1, rule_format]) (simp_all add: two_users_def)
  moreover have "nd_val (nodes m' ! 0) = nd_val (nodes two_users ! 0)"
    by (rule t [THEN conjunct2, THEN conjunct2, rule_format, of "Insert 0 7"]) (rule conjI [OF m'], simp)
  ultimately show ?thesis using m' by blast
qed

text \<open>While an iterator holds the lock of the membership, keys are neither added nor removed.\<close>

lemma locked_iteration_fixes_members:
  assumes "lm_reach dflt m" and "it \<in> set (iterators m)" and "it_active it" and "lm_exec dflt a m = Inr (Some m')"
  shows "the_map m' = the_map m"
proof -
  have "filter it_active (iterators m) \<noteq> []" using assms(2,3) by (auto simp: filter_empty_conv)
  then have busy: "RWLOCK_ACQUIRE True (membership_lock m) = None"
    using lm_reach_inv [OF assms(1)] by (auto simp: lm_inv_def RWLOCK_ACQUIRE_def)
  show ?thesis using assms(4)
    by (cases a) (auto simp: find_enter_def insert_enter_def busy lock_node_def accessor_release_def erase_key_def erase_accessor_def
      assign_def begin_locked_def lock_member_def end_iteration_def Let_def bindE_eq_Inr unlock_keeps_map split: if_splits option.splits list.splits)
qed

text \<open>Two accessors for writing can be at the value of one key when the key is erased in between, since
  \<^verbatim>\<open>erase\<close> does not wait for the accessors of the node.\<close>

lemma erased_key_has_two_writers:
  fixes k :: "'k::linorder" and dflt :: 'v
  shows "\<exists>m. lm_run dflt [Insert 0 k, LockNode 0, Erase k, Insert 1 k, LockNode 1] (LockingMap [True, True] []) = Inr (Some m) \<and>
    (\<forall>i\<in>{0, 1}. ac_writer (accessors m ! i) \<and> (\<exists>r. my_node (accessors m ! i) = Some r \<and> nd_key (nodes m ! r) = k))"
  by (simp add: LockingMap_def insert_enter_def lock_node_def erase_key_def RWLOCK_ACQUIRE_def RWLOCK_INIT_def new_accessor_def
      new_node_def set_accessor_def set_lock_def Let_def)

text \<open>
  \<^verbatim>\<open>enqueue_handler\<close> of thunks.cpp looks up the queue of a socket and its labels, makes one when
  there is none, and uses the accessor without looking at the result of the insertion. When two
  threads register the first handlers for the same labels at once, the one whose insertion fails ends
  the process at the assertion of the accessor; and the one that finds the node between its insertion
  and the assignment of the queue reads a null pointer.
\<close>

theorem first_handlers_race:
  fixes k :: "'k::linorder" and q :: nat
  shows "lm_run None [Find 0 k, Find 1 k, Insert 0 k, Insert 1 k, LockNode 0, Assign 0 (Some q), Release 0, Assign 1 (Some q)]
      (LockingMap [True, True] []) = Inl AssertFailed \<and>
    (\<exists>m. lm_run None [Find 0 k, Insert 0 k, Find 1 k, LockNode 1] (LockingMap [True, True] []) = Inr (Some m) \<and>
      access 1 m = Inr None)"
  by (simp add: LockingMap_def find_enter_def insert_enter_def lock_node_def accessor_release_def assign_def access_def
      RWLOCK_ACQUIRE_def RWLOCK_UNLOCK_def RWLOCK_INIT_def new_accessor_def new_node_def set_accessor_def set_lock_def Let_def)

end
