(* ===== verification/Shared_Memory.thy ===== *)
theory Shared_Memory
  imports Ordered_Set "HOL-Library.AList" "HOL-Library.Product_Lexorder"
begin

text \<open>
  libcmm_shmem.cpp: what the processes that use the library share. A table in shared memory has the time of
  the last foreground data for each pair of interfaces, and a set the ids of the processes. Each process
  keeps, for each pair, the sockets of all processes, with descriptors of its own for those of the others:
  they are passed over a datagram socket, first a packet that says what follows, then the descriptor
  (libancillary/fd_recv.c and fd_send.c). A datagram is received whole and in order. The descriptors of
  a process lead to open files, which are numbers; the bytes that wait in a socket are a function of its
  file. A descriptor that is closed without being open is counted in \<open>ebadf\<close>.
\<close>

section \<open>State\<close>

type_synonym addr_pair = "in_addr_t \<times> in_addr_t"

record proc_sock_info =
  si_pid :: int
  remote_fd :: int
  local_fd :: int

definition info_less :: "proc_sock_info \<Rightarrow> proc_sock_info \<Rightarrow> bool" where
  "info_less a b \<longleftrightarrow> si_pid a < si_pid b \<or> si_pid a = si_pid b \<and> remote_fd a < remote_fd b"

record fd_sharing_packet =
  pk_ifaces :: addr_pair
  pk_pid :: int
  pk_fd :: int
  pk_remove :: bool

datatype dgram = Packet fd_sharing_packet | Descriptor nat

text \<open>\<open>csock_map\<close> is \<^verbatim>\<open>all_intnw_csockets\<close>, \<open>sharing\<close> says that the thread \<^verbatim>\<open>FDSharingThread\<close> is in its loop,
  \<open>inbox\<close> is what its socket has received.\<close>

record shm_proc =
  csock_map :: "(addr_pair \<times> proc_sock_info list) list"
  fds :: "int \<Rightarrow> nat option"
  ebadf :: nat
  sharing :: bool
  inbox :: "dgram list"

text \<open>\<^verbatim>\<open>fg_data_map\<close> with \<^verbatim>\<open>last_fg_tv_sec\<close>.\<close>

type_synonym fg_map = "(addr_pair \<times> int) list"

record shm =
  fg_data_map :: fg_map
  intnw_pids :: "int list"
  shm_procs :: "int \<Rightarrow> shm_proc option"

section \<open>Times of foreground data\<close>

definition map_lookup :: "addr_pair \<Rightarrow> fg_map \<Rightarrow> int option" where
  "map_lookup i fg = map_of fg i"

definition ipc_last_fg_tv_sec :: "addr_pair \<Rightarrow> fg_map \<Rightarrow> int" where
  "ipc_last_fg_tv_sec i fg = (case map_lookup i fg of None \<Rightarrow> 0 | Some t \<Rightarrow> t)"

definition ipc_set_last_fg_tv_sec :: "addr_pair \<Rightarrow> int \<Rightarrow> fg_map \<Rightarrow> fg_map" where
  "ipc_set_last_fg_tv_sec i secs fg = (if map_lookup i fg = None then fg else AList.update i secs fg)"

definition ipc_update_fg_timestamp :: "int \<Rightarrow> addr_pair \<Rightarrow> fg_map \<Rightarrow> fg_map" where
  "ipc_update_fg_timestamp now i fg = ipc_set_last_fg_tv_sec i now fg"

section \<open>The table of a process\<close>

definition close_local :: "int \<Rightarrow> shm_proc \<Rightarrow> shm_proc" where
  "close_local fd p = (if fds p fd = None then p\<lparr>ebadf := ebadf p + 1\<rparr> else p\<lparr>fds := (fds p)(fd := None)\<rparr>)"

definition sock_set :: "addr_pair \<Rightarrow> shm_proc \<Rightarrow> proc_sock_info list" where
  "sock_set i p = (case map_of (csock_map p) i of None \<Rightarrow> [] | Some es \<Rightarrow> es)"

definition put_set :: "addr_pair \<Rightarrow> proc_sock_info list \<Rightarrow> shm_proc \<Rightarrow> shm_proc" where
  "put_set i es p = p\<lparr>csock_map := AList.update i es (csock_map p)\<rparr>"

definition ipc_add_iface_pair :: "addr_pair \<Rightarrow> fg_map \<times> shm_proc \<Rightarrow> bool \<times> fg_map \<times> shm_proc" where
  "ipc_add_iface_pair i = (\<lambda>(fg, p).
     if map_lookup i fg = None
     then (True, AList.update i 0 fg, if map_of (csock_map p) i = None then put_set i [] p else p)
     else (False, fg, p))"

definition close_dups :: "int \<Rightarrow> proc_sock_info list \<Rightarrow> shm_proc \<Rightarrow> shm_proc" where
  "close_dups me es p = fold (\<lambda>e p. if si_pid e \<noteq> me then close_local (local_fd e) p else p) es p"

definition ipc_remove_iface_pair :: "int \<Rightarrow> addr_pair \<Rightarrow> fg_map \<times> shm_proc \<Rightarrow> bool \<times> fg_map \<times> shm_proc" where
  "ipc_remove_iface_pair me i = (\<lambda>(fg, p).
     if map_lookup i fg = None then (False, fg, p)
     else (True, AList.delete i fg,
           (close_dups me (sock_set i p) p)\<lparr>csock_map := AList.delete i (csock_map p)\<rparr>))"

definition add_or_remove_csocket ::
    "int \<Rightarrow> addr_pair \<Rightarrow> int \<Rightarrow> int \<Rightarrow> int \<Rightarrow> bool \<Rightarrow> fg_map \<times> shm_proc \<Rightarrow> fg_map \<times> shm_proc" where
  "add_or_remove_csocket me i pid rfd lfd remove_fd = (\<lambda>(fg, p).
     let (fg1, p1) = (if map_of (csock_map p) i = None then snd (ipc_add_iface_pair i (fg, p)) else (fg, p));
         info = \<lparr>si_pid = pid, remote_fd = rfd, local_fd = lfd\<rparr>;
         es = sock_set i p1
     in if remove_fd
        then let p2 = (if pid \<noteq> me
                       then case set_find info_less info es of None \<Rightarrow> p1 | Some e \<Rightarrow> close_local (local_fd e) p1
                       else p1)
             in (fg1, put_set i (set_erase info_less info es) p2)
        else (fg1, put_set i (set_insert info_less info es) p1))"

text \<open>The local part of \<^verbatim>\<open>remove_proc\<close>.\<close>

definition drop_proc :: "int \<Rightarrow> int \<Rightarrow> shm_proc \<Rightarrow> shm_proc" where
  "drop_proc me pid p =
     (if pid = me then p
      else (fold (\<lambda>(i, es). close_dups me (filter (\<lambda>e. si_pid e = pid) es)) (csock_map p) p)\<lparr>
             csock_map := map (\<lambda>(i, es). (i, filter (\<lambda>e. si_pid e \<noteq> pid) es)) (csock_map p)\<rparr>)"

text \<open>\<^verbatim>\<open>get_unsent_bytes\<close> is negative for an error; \<open>unsent\<close> gives it for an open file. The sum is a \<^verbatim>\<open>size_t\<close>.\<close>

definition get_unsent_bytes :: "(nat \<Rightarrow> int) \<Rightarrow> int \<Rightarrow> shm_proc \<Rightarrow> int" where
  "get_unsent_bytes unsent fd p = (case fds p fd of None \<Rightarrow> -1 | Some f \<Rightarrow> unsent f)"

definition ipc_total_bytes_inflight :: "(nat \<Rightarrow> int) \<Rightarrow> addr_pair \<Rightarrow> fg_map \<times> shm_proc \<Rightarrow> u_long" where
  "ipc_total_bytes_inflight unsent i = (\<lambda>(fg, p).
     if map_lookup i fg = None then 0
     else fold (\<lambda>e bytes. let n = get_unsent_bytes unsent (local_fd e) p in if n < 0 then bytes else bytes + word_of_int n)
            (sock_set i p) 0)"

section \<open>Passing descriptors\<close>

text \<open>A round of \<^verbatim>\<open>FDSharingThread\<close> that finds a datagram; \<open>lfd\<close> is the free descriptor that the kernel takes
  for one that arrives. After a packet that adds a socket the thread waits for the descriptor; a packet
  in its place is taken for it, since \<^verbatim>\<open>ancil_recv_fd\<close> then finds the -1 it has put into its buffer itself.
  A descriptor in place of a packet has the wrong size and ends the thread.\<close>

definition FDSharing_round :: "int \<Rightarrow> int \<Rightarrow> fg_map \<times> shm_proc \<Rightarrow> fg_map \<times> shm_proc" where
  "FDSharing_round me lfd = (\<lambda>(fg, p).
     if \<not> sharing p then (fg, p)
     else case inbox p of
            [] \<Rightarrow> (fg, p)
          | Descriptor f # ds \<Rightarrow> (fg, p\<lparr>sharing := False, inbox := ds\<rparr>)
          | Packet pk # ds \<Rightarrow>
              if pk_pid pk = -1 then (fg, p\<lparr>sharing := False, inbox := ds\<rparr>)
              else if pk_remove pk
              then add_or_remove_csocket me (pk_ifaces pk) (pk_pid pk) (pk_fd pk) (-1) True (fg, p\<lparr>inbox := ds\<rparr>)
              else (case ds of
                      [] \<Rightarrow> (fg, p)
                    | Descriptor f # ds' \<Rightarrow>
                        add_or_remove_csocket me (pk_ifaces pk) (pk_pid pk) (pk_fd pk) lfd False
                          (fg, p\<lparr>inbox := ds', fds := (fds p)(lfd \<mapsto> f)\<rparr>)
                    | Packet _ # ds' \<Rightarrow>
                        add_or_remove_csocket me (pk_ifaces pk) (pk_pid pk) (pk_fd pk) (-1) False (fg, p\<lparr>inbox := ds'\<rparr>)))"

text \<open>A datagram to a process; it fails when no socket is bound to the name, as when the thread has ended.\<close>

definition send_dgram :: "dgram \<Rightarrow> int \<Rightarrow> shm \<Rightarrow> bool \<times> shm" where
  "send_dgram d target s =
     (case shm_procs s target of
        None \<Rightarrow> (False, s)
      | Some q \<Rightarrow> if sharing q then (True, s\<lparr>shm_procs := (shm_procs s)(target \<mapsto> q\<lparr>inbox := inbox q @ [d]\<rparr>)\<rparr>) else (False, s))"

text \<open>The file of a descriptor of process \<open>me\<close>; a descriptor that is not open cannot be sent.\<close>

definition send_fd_sharing_packet :: "int \<Rightarrow> fd_sharing_packet \<Rightarrow> int \<Rightarrow> shm \<Rightarrow> bool \<times> shm" where
  "send_fd_sharing_packet me pk target s =
     (let (ok, s1) = send_dgram (Packet pk) target s
      in if \<not> ok then (False, s1)
         else if pk_remove pk then (True, s1)
         else case Option.bind (shm_procs s1 me) (\<lambda>p. fds p (pk_fd pk)) of
                None \<Rightarrow> (False, s1)
              | Some f \<Rightarrow> send_dgram (Descriptor f) target s1)"

definition send_local_csocket_fd :: "int \<Rightarrow> addr_pair \<Rightarrow> int \<Rightarrow> int \<Rightarrow> bool \<Rightarrow> shm \<Rightarrow> bool \<times> shm" where
  "send_local_csocket_fd me i target fd remove_fd =
     send_fd_sharing_packet me \<lparr>pk_ifaces = i, pk_pid = me, pk_fd = fd, pk_remove = remove_fd\<rparr> target"

definition on_proc :: "int \<Rightarrow> (fg_map \<times> shm_proc \<Rightarrow> fg_map \<times> shm_proc) \<Rightarrow> shm \<Rightarrow> shm" where
  "on_proc me f s =
     (case shm_procs s me of
        None \<Rightarrow> s
      | Some p \<Rightarrow> let (fg, p1) = f (fg_data_map s, p) in s\<lparr>fg_data_map := fg, shm_procs := (shm_procs s)(me \<mapsto> p1)\<rparr>)"

definition add_proc :: "int \<Rightarrow> shm \<Rightarrow> shm" where
  "add_proc pid s = s\<lparr>intnw_pids := set_insert (<) pid (intnw_pids s)\<rparr>"

definition remove_proc :: "int \<Rightarrow> int \<Rightarrow> shm \<Rightarrow> shm" where
  "remove_proc me pid s =
     (let s1 = on_proc me (\<lambda>(fg, p). (fg, drop_proc me pid p)) s
      in s1\<lparr>intnw_pids := set_erase (<) pid (intnw_pids s1)\<rparr>)"

fun send_to_pids :: "int \<Rightarrow> addr_pair \<Rightarrow> int \<Rightarrow> bool \<Rightarrow> int list \<Rightarrow> shm \<Rightarrow> int list \<times> shm" where
  "send_to_pids me i fd remove_fd [] s = ([], s)"
| "send_to_pids me i fd remove_fd (pid # pids) s =
     (if pid = me then send_to_pids me i fd remove_fd pids s
      else let (ok, s1) = send_local_csocket_fd me i pid fd remove_fd s;
               (failed, s2) = send_to_pids me i fd remove_fd pids s1
           in (if ok then failed else pid # failed, s2))"

definition send_csocket_to_all_pids :: "int \<Rightarrow> addr_pair \<Rightarrow> int \<Rightarrow> bool \<Rightarrow> shm \<Rightarrow> shm" where
  "send_csocket_to_all_pids me i fd remove_fd s =
     (let (failed, s1) = send_to_pids me i fd remove_fd (intnw_pids s) s in fold (remove_proc me) failed s1)"

definition ipc_add_csocket :: "int \<Rightarrow> addr_pair \<Rightarrow> int \<Rightarrow> shm \<Rightarrow> shm" where
  "ipc_add_csocket me i fd s =
     send_csocket_to_all_pids me i fd False (on_proc me (add_or_remove_csocket me i me fd fd False) s)"

definition ipc_remove_csocket :: "int \<Rightarrow> addr_pair \<Rightarrow> int \<Rightarrow> shm \<Rightarrow> shm" where
  "ipc_remove_csocket me i fd s =
     send_csocket_to_all_pids me i fd True (on_proc me (add_or_remove_csocket me i me fd fd True) s)"

section \<open>Start and end of a process\<close>

definition new_shm_proc :: shm_proc where
  "new_shm_proc = \<lparr>csock_map = [], fds = Map.empty, ebadf = 0, sharing = True, inbox = []\<rparr>"

definition ipc_shmem_init :: "bool \<Rightarrow> int \<Rightarrow> shm \<Rightarrow> shm" where
  "ipc_shmem_init creator me s =
     (let s1 = add_proc me (if creator then s\<lparr>fg_data_map := [], intnw_pids := []\<rparr> else s)
      in s1\<lparr>shm_procs := (shm_procs s1)(me \<mapsto> new_shm_proc\<lparr>csock_map := map (\<lambda>(i, _). (i, [])) (fg_data_map s1)\<rparr>)\<rparr>)"

text \<open>The packet that stops the thread is read at last; the descriptors are closed with the process.\<close>

definition ipc_shmem_deinit :: "bool \<Rightarrow> int \<Rightarrow> shm \<Rightarrow> shm" where
  "ipc_shmem_deinit creator me s =
     (let s1 = remove_proc me me s
      in (if creator then s1\<lparr>fg_data_map := [], intnw_pids := []\<rparr> else s1)\<lparr>shm_procs := (shm_procs s1)(me := None)\<rparr>)"

text \<open>The life of a socket of the library (csocket_sender.cpp, csocket.cpp): it is opened and announced; at
  the end it is withdrawn and closed.\<close>

definition open_csocket :: "int \<Rightarrow> addr_pair \<Rightarrow> int \<Rightarrow> nat \<Rightarrow> shm \<Rightarrow> shm" where
  "open_csocket me i fd f s = ipc_add_csocket me i fd (on_proc me (\<lambda>(fg, p). (fg, p\<lparr>fds := (fds p)(fd \<mapsto> f)\<rparr>)) s)"

definition close_csocket :: "int \<Rightarrow> addr_pair \<Rightarrow> int \<Rightarrow> shm \<Rightarrow> shm" where
  "close_csocket me i fd s = on_proc me (\<lambda>(fg, p). (fg, close_local fd p)) (ipc_remove_csocket me i fd s)"

section \<open>The table of one process\<close>

interpretation infos: keyed_order info_less "\<lambda>e. (si_pid e, remote_fd e)" "\<lambda>_. True"
  by unfold_locales (auto simp: info_less_def less_prod_def)

definition entries :: "shm_proc \<Rightarrow> (addr_pair \<times> proc_sock_info) set" where
  "entries p = {(i, e). e \<in> set (sock_set i p)}"

text \<open>The key of a socket: the pair of interfaces, the process, its descriptor there.\<close>

type_synonym sock_key = "addr_pair \<times> int \<times> int"

definition key_of :: "addr_pair \<times> proc_sock_info \<Rightarrow> sock_key" where
  "key_of = (\<lambda>(i, e). (i, si_pid e, remote_fd e))"

text \<open>Every set is ordered; each descriptor that is open belongs to one entry and the other way round, none has
  been closed twice; a process knows its own sockets by their own descriptors.\<close>

definition proc_ok :: "int \<Rightarrow> shm_proc \<Rightarrow> bool" where
  "proc_ok me p \<longleftrightarrow> distinct (map fst (csock_map p)) \<and> (\<forall>i. infos.ordered (sock_set i p)) \<and>
     inj_on (local_fd \<circ> snd) (entries p) \<and> (local_fd \<circ> snd) ` entries p = dom (fds p) \<and>
     (\<forall>(i, e)\<in>entries p. si_pid e = me \<longrightarrow> local_fd e = remote_fd e) \<and> ebadf p = 0"

text \<open>What a process knows: the file behind each socket.\<close>

definition view :: "shm_proc \<Rightarrow> sock_key \<Rightarrow> nat option" where
  "view p = (\<lambda>(i, pid, rfd).
     case set_find info_less \<lparr>si_pid = pid, remote_fd = rfd, local_fd = 0\<rparr> (sock_set i p) of
       None \<Rightarrow> None
     | Some e \<Rightarrow> fds p (local_fd e))"

lemma proc_ordered: "proc_ok me p \<Longrightarrow> infos.ordered (sock_set i p)"
  unfolding proc_ok_def by blast

lemma key_inj_entries: "proc_ok me p \<Longrightarrow> x \<in> entries p \<Longrightarrow> y \<in> entries p \<Longrightarrow> key_of x = key_of y \<Longrightarrow> x = y"
  by (auto simp: entries_def key_of_def split: prod.splits intro: infos.key_inj [OF proc_ordered])

lemma view_entry:
  assumes "proc_ok me p" and "(i, e) \<in> entries p"
  shows "view p (key_of (i, e)) = fds p (local_fd e)" and "fds p (local_fd e) \<noteq> None"
proof -
  have "set_find info_less \<lparr>si_pid = si_pid e, remote_fd = remote_fd e, local_fd = 0\<rparr> (sock_set i p) = Some e"
    using assms infos.set_find_Some [of "sock_set i p" "\<lparr>si_pid = si_pid e, remote_fd = remote_fd e, local_fd = 0\<rparr>" e]
      proc_ordered [OF assms(1)] by (simp add: entries_def)
  then show "view p (key_of (i, e)) = fds p (local_fd e)" by (simp add: view_def key_of_def)
  show "fds p (local_fd e) \<noteq> None" using assms by (force simp: proc_ok_def)
qed

lemma view_none:
  assumes "proc_ok me p"
  shows "view p k = None \<longleftrightarrow> k \<notin> key_of ` entries p"
proof -
  obtain i pid rfd where k: "k = (i, pid, rfd)" by (cases k)
  show ?thesis
  proof (cases "set_find info_less \<lparr>si_pid = pid, remote_fd = rfd, local_fd = 0\<rparr> (sock_set i p)")
    case None
    then have "(pid, rfd) \<notin> (\<lambda>e. (si_pid e, remote_fd e)) ` set (sock_set i p)"
      using assms infos.set_find_None [of "sock_set i p" "\<lparr>si_pid = pid, remote_fd = rfd, local_fd = 0\<rparr>"]
        proc_ordered [OF assms] by simp
    then have "k \<notin> key_of ` entries p" by (force simp: k key_of_def entries_def)
    then show ?thesis using None by (simp add: k view_def)
  next
    case (Some e)
    then have "e \<in> set (sock_set i p)" "(si_pid e, remote_fd e) = (pid, rfd)"
      using assms infos.set_find_Some [of "sock_set i p" "\<lparr>si_pid = pid, remote_fd = rfd, local_fd = 0\<rparr>" e]
        proc_ordered [OF assms] by simp_all
    then have e: "(i, e) \<in> entries p" "key_of (i, e) = k" by (simp_all add: entries_def key_of_def k)
    then show ?thesis using view_entry [OF assms e(1)] by force
  qed
qed

text \<open>A process is known by its entries and its descriptors.\<close>

lemma view_eqI:
  assumes "proc_ok me p" and "proc_ok me p'"
    and "\<And>i e. (i, e) \<in> entries p' \<Longrightarrow> V (key_of (i, e)) = fds p' (local_fd e)"
    and "\<And>k. k \<notin> key_of ` entries p' \<Longrightarrow> V k = None"
  shows "view p' = V"
proof
  fix k
  show "view p' k = V k"
  proof (cases "k \<in> key_of ` entries p'")
    case True
    then show ?thesis using view_entry(1) [OF assms(2)] assms(3) by force
  next
    case False
    then show ?thesis using view_none [OF assms(2), of k] assms(4) by simp
  qed
qed

lemma sock_set_put [simp]: "sock_set j (put_set i es p) = (if j = i then es else sock_set j p)"
  by (auto simp: sock_set_def put_set_def update_conv')

lemma put_set_simps [simp]:
  "fds (put_set i es p) = fds p" "ebadf (put_set i es p) = ebadf p" "sharing (put_set i es p) = sharing p" "inbox (put_set i es p) = inbox p"
  "distinct (map fst (csock_map p)) \<Longrightarrow> distinct (map fst (csock_map (put_set i es p)))"
  by (simp_all add: put_set_def distinct_update)

lemma entries_put: "entries (put_set i es p) = {(j, e) \<in> entries p. j \<noteq> i} \<union> {i} \<times> set es"
  by (auto simp: entries_def split: if_splits)

text \<open>The beginning of \<^verbatim>\<open>add_or_remove_csocket\<close> does not change what is known.\<close>

definition with_pair :: "addr_pair \<Rightarrow> fg_map \<times> shm_proc \<Rightarrow> fg_map \<times> shm_proc" where
  "with_pair i = (\<lambda>(fg, p). if map_of (csock_map p) i = None then snd (ipc_add_iface_pair i (fg, p)) else (fg, p))"

lemma with_pair_keeps:
  "sock_set j (snd (with_pair i (fg, p))) = sock_set j p" "fds (snd (with_pair i (fg, p))) = fds p"
  "ebadf (snd (with_pair i (fg, p))) = ebadf p" "sharing (snd (with_pair i (fg, p))) = sharing p"
  "inbox (snd (with_pair i (fg, p))) = inbox p"
  "distinct (map fst (csock_map p)) \<Longrightarrow> distinct (map fst (csock_map (snd (with_pair i (fg, p)))))"
  by (auto simp: with_pair_def ipc_add_iface_pair_def) (auto simp: sock_set_def)

lemma add_or_remove_eq:
  "add_or_remove_csocket me i pid rfd lfd remove_fd (fg, p) =
     (let p1 = snd (with_pair i (fg, p)); info = \<lparr>si_pid = pid, remote_fd = rfd, local_fd = lfd\<rparr>; es = sock_set i p1
      in (fst (with_pair i (fg, p)),
          if remove_fd
          then put_set i (set_erase info_less info es)
                 (if pid \<noteq> me then case set_find info_less info es of None \<Rightarrow> p1 | Some e \<Rightarrow> close_local (local_fd e) p1 else p1)
          else put_set i (set_insert info_less info es) p1))"
  by (simp add: add_or_remove_csocket_def with_pair_def split_beta Let_def)

text \<open>An entry that comes with a new descriptor, and one that goes with its descriptor.\<close>

lemma new_entry:
  assumes "proc_ok me p" and "fds p (local_fd e) = None" and "view p (key_of (i, e)) = None"
    and "si_pid e = me \<Longrightarrow> local_fd e = remote_fd e"
    and "entries p' = insert (i, e) (entries p)" and "fds p' = (fds p)(local_fd e \<mapsto> f)" and "ebadf p' = ebadf p"
    and "distinct (map fst (csock_map p'))" and "\<And>j. infos.ordered (sock_set j p')"
  shows "proc_ok me p' \<and> view p' = (view p)(key_of (i, e) \<mapsto> f)"
proof -
  have key: "key_of (i, e) \<notin> key_of ` entries p" using view_none [OF assms(1)] assms(3) by blast
  have dom: "(local_fd \<circ> snd) ` entries p = dom (fds p)" using assms(1) by (simp add: proc_ok_def)
  then have new: "local_fd e \<notin> (local_fd \<circ> snd) ` entries p" using assms(2) by auto
  have ok: "proc_ok me p'"
    using assms(1,4) new dom assms(8,9) unfolding proc_ok_def assms(5-7) by auto
  moreover have "view p' = (view p)(key_of (i, e) \<mapsto> f)"
  proof (rule view_eqI [OF assms(1) ok])
    fix j x
    assume "(j, x) \<in> entries p'"
    then consider "(j, x) = (i, e)" | "(j, x) \<in> entries p" using assms(5) by auto
    then show "((view p)(key_of (i, e) \<mapsto> f)) (key_of (j, x)) = fds p' (local_fd x)"
    proof cases
      case 2
      then have "key_of (j, x) \<in> key_of ` entries p" "local_fd x \<in> (local_fd \<circ> snd) ` entries p"
        using imageI [OF 2, of "local_fd \<circ> snd"] by simp_all
      then have "key_of (j, x) \<noteq> key_of (i, e)" "local_fd x \<noteq> local_fd e" using key new by metis+
      then show ?thesis using view_entry(1) [OF assms(1) 2] by (simp add: assms(6))
    qed (simp add: assms(6))
  next
    fix k
    assume "k \<notin> key_of ` entries p'"
    then show "((view p)(key_of (i, e) \<mapsto> f)) k = None" using view_none [OF assms(1)] by (auto simp: assms(5))
  qed
  ultimately show ?thesis by blast
qed

lemma drop_entry:
  assumes "proc_ok me p" and "(i, e) \<in> entries p"
    and "entries p' = entries p - {(i, e)}" and "fds p' = (fds p)(local_fd e := None)" and "ebadf p' = ebadf p"
    and "distinct (map fst (csock_map p'))" and "\<And>j. infos.ordered (sock_set j p')"
  shows "proc_ok me p' \<and> view p' = (view p)(key_of (i, e) := None)"
proof -
  have inj: "inj_on (local_fd \<circ> snd) (entries p)" using assms(1) by (simp add: proc_ok_def)
  have other: "local_fd x \<noteq> local_fd e" if "(j, x) \<in> entries p'" for j x
  proof
    assume "local_fd x = local_fd e"
    moreover have x: "(j, x) \<in> entries p" "(j, x) \<noteq> (i, e)" using that unfolding assms(3) by blast+
    ultimately have "(j, x) = (i, e)" by (intro inj_onD [OF inj _ x(1) assms(2)]) simp
    then show False using x(2) by blast
  qed
  have "(local_fd \<circ> snd) ` entries p' = (local_fd \<circ> snd) ` entries p - {local_fd e}"
  proof -
    have sub: "entries p - {(i, e)} \<subseteq> entries p" "{(i, e)} \<subseteq> entries p" using assms(2) by blast+
    show ?thesis unfolding assms(3) inj_on_image_set_diff [OF inj sub] by simp
  qed
  then have "(local_fd \<circ> snd) ` entries p' = dom (fds p')" using assms(1) by (simp add: proc_ok_def assms(4))
  moreover have "inj_on (local_fd \<circ> snd) (entries p')" by (rule inj_on_subset [OF inj]) (auto simp: assms(3))
  ultimately have ok: "proc_ok me p'"
    using assms(1,6,7) unfolding proc_ok_def assms(5) by (auto simp: assms(3))
  moreover have "view p' = (view p)(key_of (i, e) := None)"
  proof (rule view_eqI [OF assms(1) ok])
    fix j x
    assume x: "(j, x) \<in> entries p'"
    then have "(j, x) \<in> entries p" "(j, x) \<noteq> (i, e)" by (simp_all add: assms(3))
    moreover from this have "key_of (j, x) \<noteq> key_of (i, e)" using key_inj_entries [OF assms(1) _ assms(2)] by blast
    ultimately show "((view p)(key_of (i, e) := None)) (key_of (j, x)) = fds p' (local_fd x)"
      using view_entry(1) [OF assms(1)] other [OF x] by (simp add: assms(4))
  next
    fix k
    assume k: "k \<notin> key_of ` entries p'"
    show "((view p)(key_of (i, e) := None)) k = None"
    proof (cases "k = key_of (i, e)")
      case False
      then have "k \<notin> key_of ` entries p" using k by (auto simp: assms(3))
      then show ?thesis using view_none [OF assms(1)] by simp
    qed simp
  qed
  ultimately show ?thesis by blast
qed

lemma entries_keeps: "(\<And>j. sock_set j p' = sock_set j p) \<Longrightarrow> entries p' = entries p"
  by (simp add: entries_def)

lemma add_effect:
  assumes "proc_ok me p" and "fds p lfd = None" and "view p (i, pid, rfd) = None" and "pid = me \<Longrightarrow> lfd = rfd"
    and "p' = snd (add_or_remove_csocket me i pid rfd lfd False (fg, p\<lparr>inbox := ds, fds := (fds p)(lfd \<mapsto> f)\<rparr>))"
  shows "proc_ok me p' \<and> view p' = (view p)((i, pid, rfd) \<mapsto> f) \<and> sharing p' = sharing p \<and> inbox p' = ds"
proof -
  let ?e = "\<lparr>si_pid = pid, remote_fd = rfd, local_fd = lfd\<rparr>"
  let ?p = "p\<lparr>inbox := ds, fds := (fds p)(lfd \<mapsto> f)\<rparr>"
  have s: "sock_set j ?p = sock_set j p" for j by (simp add: sock_set_def)
  have p': "p' = put_set i (set_insert info_less ?e (sock_set i p)) (snd (with_pair i (fg, ?p)))"
    by (simp add: assms(5) add_or_remove_eq Let_def with_pair_keeps s)
  have ord: "infos.ordered (sock_set j p)" for j by (rule proc_ordered [OF assms(1)])
  have k: "key_of (i, ?e) = (i, pid, rfd)" by (simp add: key_of_def)
  then have "(i, pid, rfd) \<notin> key_of ` entries p" using view_none [OF assms(1)] assms(3) by blast
  then have "(pid, rfd) \<notin> (\<lambda>e. (si_pid e, remote_fd e)) ` set (sock_set i p)" by (force simp: key_of_def entries_def)
  then have "set (set_insert info_less ?e (sock_set i p)) = insert ?e (set (sock_set i p))"
    using infos.set_set_insert [OF ord, of ?e i] by simp
  then have "entries p' = insert (i, ?e) (entries p)"
    by (auto simp: entries_def p' with_pair_keeps s split: if_splits)
  moreover have "distinct (map fst (csock_map p'))" using assms(1) by (simp add: p' with_pair_keeps proc_ok_def)
  moreover have "infos.ordered (sock_set j p')" for j
    using ord infos.ordered_set_insert [OF ord] by (simp add: p' with_pair_keeps s)
  ultimately have "proc_ok me p' \<and> view p' = (view p)(key_of (i, ?e) \<mapsto> f)"
    using assms(1-4) k by (intro new_entry) (simp_all add: p' with_pair_keeps)
  then show ?thesis by (simp add: k p' with_pair_keeps)
qed

lemma erase_entry:
  assumes "proc_ok me p" and "view p (i, pid, rfd) \<noteq> None" and "x = \<lparr>si_pid = pid, remote_fd = rfd, local_fd = l\<rparr>"
  obtains e where "set_find info_less x (sock_set i p) = Some e" "(i, e) \<in> entries p" "key_of (i, e) = (i, pid, rfd)"
    "set (set_erase info_less x (sock_set i p)) = set (sock_set i p) - {e}"
proof -
  have ord: "infos.ordered (sock_set i p)" by (rule proc_ordered [OF assms(1)])
  obtain e where e: "(i, e) \<in> entries p" "key_of (i, e) = (i, pid, rfd)"
    using assms(2) view_none [OF assms(1), of "(i, pid, rfd)"] by (auto simp: key_of_def)
  then have x: "e \<in> set (sock_set i p)" "(si_pid e, remote_fd e) = (pid, rfd)" by (simp_all add: entries_def key_of_def)
  then have "set_find info_less x (sock_set i p) = Some e" using infos.set_find_Some [OF ord, of x e] by (simp add: assms(3))
  moreover have "set (set_erase info_less x (sock_set i p)) = set (sock_set i p) - {e}"
    using infos.set_set_erase [OF ord, of x] infos.key_inj [OF ord] x by (auto simp: assms(3))
  ultimately show ?thesis using that e by blast
qed

lemma sock_set_fds [simp]: "sock_set i (p\<lparr>fds := F\<rparr>) = sock_set i p"
  by (simp add: sock_set_def)

lemma inbox_keeps [simp]:
  "proc_ok me (p\<lparr>inbox := ds\<rparr>) = proc_ok me p" "view (p\<lparr>inbox := ds\<rparr>) = view p" "sock_set i (p\<lparr>inbox := ds\<rparr>) = sock_set i p"
  by (simp_all add: proc_ok_def entries_def sock_set_def view_def cong: option.case_cong)

text \<open>A socket of another process is withdrawn and its descriptor closed; an own one is withdrawn and
  then closed by its owner.\<close>

lemma remove_effect:
  assumes "proc_ok me p" and "view p (i, pid, rfd) \<noteq> None" and "p1 = snd (add_or_remove_csocket me i pid rfd l True (fg, p))"
    and "p' = (if pid = me then close_local rfd p1 else p1)"
  shows "proc_ok me p' \<and> view p' = (view p)((i, pid, rfd) := None) \<and> sharing p' = sharing p \<and> inbox p' = inbox p"
proof -
  let ?x = "\<lparr>si_pid = pid, remote_fd = rfd, local_fd = l\<rparr>"
  obtain e where e: "set_find info_less ?x (sock_set i p) = Some e" "(i, e) \<in> entries p" "key_of (i, e) = (i, pid, rfd)"
    "set (set_erase info_less ?x (sock_set i p)) = set (sock_set i p) - {e}"
    by (rule erase_entry [OF assms(1,2) refl])
  have lfd: "fds p (local_fd e) \<noteq> None" by (rule view_entry(2) [OF assms(1) e(2)])
  have own: "local_fd e = rfd" if "pid = me"
    using assms(1) e(2,3) that by (auto simp: proc_ok_def key_of_def)
  let ?w = "snd (with_pair i (fg, p))"
  have closed: "close_local (local_fd e) q = q\<lparr>fds := (fds p)(local_fd e := None)\<rparr>" if "fds q = fds p" for q
    using lfd that by (auto simp: close_local_def)
  have p': "sock_set j p' = (if j = i then set_erase info_less ?x (sock_set i p) else sock_set j p) \<and> fds p' = (fds p)(local_fd e := None) \<and>
      ebadf p' = ebadf p \<and> sharing p' = sharing p \<and> inbox p' = inbox p \<and> distinct (map fst (csock_map p'))" for j
  proof (cases "pid = me")
    case True
    then have "p' = close_local (local_fd e) (put_set i (set_erase info_less ?x (sock_set i p)) ?w)"
      by (simp add: assms(3,4) add_or_remove_eq Let_def with_pair_keeps own)
    also have "\<dots> = (put_set i (set_erase info_less ?x (sock_set i p)) ?w)\<lparr>fds := (fds p)(local_fd e := None)\<rparr>"
      by (rule closed) (simp add: with_pair_keeps)
    finally show ?thesis using assms(1) put_set_simps(5) [of ?w i "set_erase info_less ?x (sock_set i p)"]
      by (simp add: with_pair_keeps proc_ok_def)
  next
    case False
    then have "p' = put_set i (set_erase info_less ?x (sock_set i p)) (close_local (local_fd e) ?w)"
      by (simp add: assms(3,4) add_or_remove_eq Let_def with_pair_keeps e(1))
    also have "close_local (local_fd e) ?w = ?w\<lparr>fds := (fds p)(local_fd e := None)\<rparr>"
      by (rule closed) (simp add: with_pair_keeps)
    finally have p': "p' = put_set i (set_erase info_less ?x (sock_set i p)) (?w\<lparr>fds := (fds p)(local_fd e := None)\<rparr>)" .
    have "distinct (map fst (csock_map (?w\<lparr>fds := (fds p)(local_fd e := None)\<rparr>)))"
      using assms(1) by (simp add: with_pair_keeps proc_ok_def)
    then show ?thesis by (simp add: p' with_pair_keeps)
  qed
  have ord: "infos.ordered (sock_set j p)" for j by (rule proc_ordered [OF assms(1)])
  have "entries p' = entries p - {(i, e)}" using p' e(4) by (auto simp: entries_def split: if_splits)
  moreover have "infos.ordered (sock_set j p')" for j using p' ord infos.ordered_set_erase [OF ord] by simp
  ultimately have "proc_ok me p' \<and> view p' = (view p)(key_of (i, e) := None)"
    using p' by (intro drop_entry [OF assms(1) e(2)]) blast+
  then show ?thesis using p' e(3) by simp
qed

section \<open>Processes that share their sockets\<close>

text \<open>What a process will know when it has read what is in its inbox; and inboxes in which every packet is
  followed by its descriptor and which add only what is not known and remove what is.\<close>

fun settle :: "dgram list \<Rightarrow> (sock_key \<Rightarrow> nat option) \<Rightarrow> (sock_key \<Rightarrow> nat option)" where
  "settle (Packet pk # Descriptor f # ds) V = settle ds (V((pk_ifaces pk, pk_pid pk, pk_fd pk) \<mapsto> f))"
| "settle (Packet pk # ds) V = settle ds (V((pk_ifaces pk, pk_pid pk, pk_fd pk) := None))"
| "settle ds V = V"

fun inbox_ok :: "int \<Rightarrow> dgram list \<Rightarrow> (sock_key \<Rightarrow> nat option) \<Rightarrow> bool" where
  "inbox_ok me (Packet pk # Descriptor f # ds) V \<longleftrightarrow>
     \<not> pk_remove pk \<and> pk_pid pk \<noteq> -1 \<and> pk_pid pk \<noteq> me \<and> V (pk_ifaces pk, pk_pid pk, pk_fd pk) = None \<and>
     inbox_ok me ds (V((pk_ifaces pk, pk_pid pk, pk_fd pk) \<mapsto> f))"
| "inbox_ok me (Packet pk # ds) V \<longleftrightarrow>
     pk_remove pk \<and> pk_pid pk \<noteq> -1 \<and> pk_pid pk \<noteq> me \<and> V (pk_ifaces pk, pk_pid pk, pk_fd pk) \<noteq> None \<and>
     inbox_ok me ds (V((pk_ifaces pk, pk_pid pk, pk_fd pk) := None))"
| "inbox_ok me [] V \<longleftrightarrow> True"
| "inbox_ok me (Descriptor f # ds) V \<longleftrightarrow> False"

lemma settle_append:
  assumes "inbox_ok me ds V" and "new = [] \<or> (\<exists>pk new'. new = Packet pk # new')"
  shows "settle (ds @ new) V = settle new (settle ds V)" and "inbox_ok me (ds @ new) V = inbox_ok me new (settle ds V)"
  using assms(1)
proof (induction me ds V rule: inbox_ok.induct [case_names shared alone followed empty stray])
  case (alone me pk V)
  { case 1 then show ?case using assms(2) by (auto simp: fun_upd_def) }
  { case 2 then show ?case using assms(2) by (auto simp: fun_upd_def) }
next
  case (followed me pk pk' ds V)
  { case 1 then show ?case using followed.IH by (auto simp: fun_upd_def) }
  { case 2 then show ?case using followed.IH by (auto simp: fun_upd_def) }
qed auto

lemma settle_own:
  assumes "inbox_ok me ds V" and "k = (i, me, fd)"
  shows "settle ds (V(k := x)) = (settle ds V)(k := x) \<and> inbox_ok me ds (V(k := x)) \<and> settle ds V k = V k"
  using assms
proof (induction me ds V rule: inbox_ok.induct [case_names shared alone followed empty stray])
  case (shared me pk f ds V)
  have "(V(k := x))((pk_ifaces pk, pk_pid pk, pk_fd pk) \<mapsto> f) = (V((pk_ifaces pk, pk_pid pk, pk_fd pk) \<mapsto> f))(k := x)"
    using shared.prems by (intro fun_upd_twist) auto
  then show ?case using shared.IH shared.prems by (auto simp: fun_upd_def)
next
  case (followed me pk pk' ds V)
  have "(V(k := x))((pk_ifaces pk, pk_pid pk, pk_fd pk) := None) = (V((pk_ifaces pk, pk_pid pk, pk_fd pk) := None))(k := x)"
    using followed.prems by (intro fun_upd_twist) auto
  then show ?case using followed.IH followed.prems by (auto simp: fun_upd_def)
qed (auto simp: fun_eq_iff)

text \<open>The sockets that are open: those that their own processes know.\<close>

definition truth :: "shm \<Rightarrow> sock_key \<Rightarrow> nat option" where
  "truth s = (\<lambda>(i, pid, fd). case shm_procs s pid of None \<Rightarrow> None | Some p \<Rightarrow> view p (i, pid, fd))"

definition member_ok :: "shm \<Rightarrow> int \<Rightarrow> shm_proc \<Rightarrow> bool" where
  "member_ok s q p \<longleftrightarrow> proc_ok q p \<and> sharing p \<and> inbox_ok q (inbox p) (view p) \<and> settle (inbox p) (view p) = truth s"

definition shm_ok :: "int set \<Rightarrow> shm \<Rightarrow> bool" where
  "shm_ok I s \<longleftrightarrow> dom (shm_procs s) = I \<and> -1 \<notin> I \<and> distinct (intnw_pids s) \<and> set (intnw_pids s) = I \<and>
     (\<forall>q p. shm_procs s q = Some p \<longrightarrow> member_ok s q p)"

inductive shm_run :: "int list \<Rightarrow> shm \<Rightarrow> bool" for I where
  shm_start: "distinct I \<Longrightarrow> \<forall>p\<in>set I. 0 \<le> p \<Longrightarrow> distinct (map fst fg) \<Longrightarrow>
    shm_run I (fold (ipc_shmem_init False) I \<lparr>fg_data_map = fg, intnw_pids = [], shm_procs = Map.empty\<rparr>)"
| shm_open: "shm_run I s \<Longrightarrow> shm_procs s me = Some p \<Longrightarrow> fds p fd = None \<Longrightarrow> shm_run I (open_csocket me i fd f s)"
| shm_close: "shm_run I s \<Longrightarrow> shm_procs s me = Some p \<Longrightarrow> view p (i, me, fd) \<noteq> None \<Longrightarrow> shm_run I (close_csocket me i fd s)"
| shm_round: "shm_run I s \<Longrightarrow> shm_procs s me = Some p \<Longrightarrow> fds p lfd = None \<Longrightarrow> shm_run I (on_proc me (FDSharing_round me lfd) s)"
| shm_pair: "shm_run I s \<Longrightarrow> shm_run I (on_proc me (snd \<circ> ipc_add_iface_pair i) s)"
| shm_time: "shm_run I s \<Longrightarrow> shm_run I (s\<lparr>fg_data_map := ipc_set_last_fg_tv_sec i t (fg_data_map s)\<rparr>)"

lemma send_to_pids_eq:
  assumes "distinct pids" and "\<forall>q\<in>set pids. \<exists>p. shm_procs s q = Some p \<and> sharing p"
    and "remove_fd \<or> (\<exists>p. shm_procs s me = Some p \<and> fds p fd = Some f)"
  shows "send_to_pids me i fd remove_fd pids s =
    ([], s\<lparr>shm_procs := \<lambda>q. if q \<in> set pids - {me}
       then map_option (\<lambda>p. p\<lparr>inbox := inbox p @ Packet \<lparr>pk_ifaces = i, pk_pid = me, pk_fd = fd, pk_remove = remove_fd\<rparr> #
              (if remove_fd then [] else [Descriptor f])\<rparr>) (shm_procs s q)
       else shm_procs s q\<rparr>)"
  using assms
proof (induction pids arbitrary: s)
  case Nil
  then show ?case by simp
next
  case (Cons q pids)
  let ?pk = "\<lparr>pk_ifaces = i, pk_pid = me, pk_fd = fd, pk_remove = remove_fd\<rparr>"
  let ?msgs = "Packet ?pk # (if remove_fd then [] else [Descriptor f])"
  show ?case
  proof (cases "q = me")
    case True
    have "r \<in> set pids \<and> r \<noteq> me \<longleftrightarrow> r \<in> set pids" for r using Cons.prems(1) True by auto
    then show ?thesis using Cons True by simp
  next
    case False
    obtain p where p: "shm_procs s q = Some p" "sharing p" using Cons.prems(2) by auto
    let ?s1 = "s\<lparr>shm_procs := (shm_procs s)(q \<mapsto> p\<lparr>inbox := inbox p @ ?msgs\<rparr>)\<rparr>"
    have send: "send_local_csocket_fd me i q fd remove_fd s = (True, ?s1)"
      using p Cons.prems(3) False by (auto simp: send_local_csocket_fd_def send_fd_sharing_packet_def send_dgram_def)
    have IH: "send_to_pids me i fd remove_fd pids ?s1 = ([], ?s1\<lparr>shm_procs := \<lambda>q. if q \<in> set pids - {me}
       then map_option (\<lambda>p. p\<lparr>inbox := inbox p @ ?msgs\<rparr>) (shm_procs ?s1 q) else shm_procs ?s1 q\<rparr>)"
      by (rule Cons.IH) (use Cons.prems False in auto)
    then show ?thesis using send False p Cons.prems(1) by (auto simp: fun_eq_iff intro!: arg_cong [where f = "\<lambda>f. s\<lparr>shm_procs := f\<rparr>"])
  qed
qed

text \<open>A process opens or closes a socket, and tells all others.\<close>

definition told_all :: "int \<Rightarrow> dgram list \<Rightarrow> shm_proc \<Rightarrow> shm \<Rightarrow> int \<Rightarrow> shm_proc option" where
  "told_all me msgs p' s = (\<lambda>q. if q = me then Some p' else map_option (\<lambda>p. p\<lparr>inbox := inbox p @ msgs\<rparr>) (shm_procs s q))"

lemma send_all_eq:
  assumes "shm_ok I s" and "shm_procs s me = Some p" and "shm_procs s2 = (shm_procs s)(me \<mapsto> p2)" and "intnw_pids s2 = intnw_pids s"
    and "sharing p2" and "remove_fd \<or> fds p2 fd = Some f"
  shows "send_csocket_to_all_pids me i fd remove_fd s2 = s2\<lparr>shm_procs :=
    told_all me (Packet \<lparr>pk_ifaces = i, pk_pid = me, pk_fd = fd, pk_remove = remove_fd\<rparr> # (if remove_fd then [] else [Descriptor f])) p2 s\<rparr>"
proof -
  have pids: "distinct (intnw_pids s2)" "set (intnw_pids s2) = dom (shm_procs s)" using assms(1,4) by (auto simp: shm_ok_def)
  have "\<forall>q\<in>set (intnw_pids s2). \<exists>p. shm_procs s2 q = Some p \<and> sharing p"
    using assms(1,3,5) unfolding pids(2) by (auto simp: shm_ok_def member_ok_def)
  moreover have "remove_fd \<or> (\<exists>p. shm_procs s2 me = Some p \<and> fds p fd = Some f)" using assms(3,6) by auto
  ultimately show ?thesis
    using send_to_pids_eq [OF pids(1), of s2 remove_fd me fd f i]
    by (auto simp: send_csocket_to_all_pids_def told_all_def assms(3) pids(2) fun_eq_iff domIff
        intro!: arg_cong [where f = "\<lambda>f. s2\<lparr>shm_procs := f\<rparr>"])
qed

lemma told_all_ok:
  assumes "shm_ok I s" and "shm_procs s me = Some p" and "shm_procs s' = told_all me msgs p' s" and "intnw_pids s' = intnw_pids s"
    and "proc_ok me p'" and "sharing p'" and "inbox p' = inbox p" and "view p' = (view p)(k := v)" and "k = (i, me, fd)"
    and "msgs = Packet \<lparr>pk_ifaces = i, pk_pid = me, pk_fd = fd, pk_remove = (v = None)\<rparr> # (case v of None \<Rightarrow> [] | Some f \<Rightarrow> [Descriptor f])"
    and "(v = None) = (view p k \<noteq> None)"
  shows "shm_ok I s'"
proof -
  have I: "me \<in> I" "-1 \<notin> I" using assms(1,2) by (auto simp: shm_ok_def)
  have m: "member_ok s q r" if "shm_procs s q = Some r" for q r using assms(1) that by (simp add: shm_ok_def)
  have view: "view (r\<lparr>inbox := x\<rparr>) = view r" for r x by simp
  have truth: "truth s' = (truth s)(k := v)"
  proof
    fix x :: sock_key
    obtain j q d where x: "x = (j, q, d)" by (cases x)
    show "truth s' x = ((truth s)(k := v)) x"
      by (cases "q = me"; cases "shm_procs s q") (auto simp: truth_def x assms(2,3,8,9) told_all_def)
  qed
  have tk: "truth s k = view p k" by (simp add: truth_def assms(2,9))
  have "member_ok s' q r'" if r': "shm_procs s' q = Some r'" for q r'
  proof (cases "q = me")
    case True
    then have "r' = p'" using r' assms(3) by (simp add: told_all_def)
    then show ?thesis using m [OF assms(2)] settle_own [of me "inbox p" "view p" k i fd v] True truth assms(5-9)
      by (simp add: member_ok_def)
  next
    case False
    then obtain r where r: "shm_procs s q = Some r" "r' = r\<lparr>inbox := inbox r @ msgs\<rparr>"
      using r' assms(3) by (auto simp: told_all_def)
    have ok: "inbox_ok q (inbox r) (view r)" "settle (inbox r) (view r) = truth s" "proc_ok q r" "sharing r"
      using m [OF r(1)] by (simp_all add: member_ok_def)
    have new: "msgs = [] \<or> (\<exists>pk new'. msgs = Packet pk # new')" by (simp add: assms(10))
    have "settle msgs (truth s) = (truth s)(k := v)" "inbox_ok q msgs (truth s)"
      using False I assms(11) tk by (auto simp: assms(9,10) split: option.splits)
    then show ?thesis using settle_append [OF ok(1) new] ok truth by (simp add: member_ok_def r(2))
  qed
  moreover have "dom (shm_procs s') = I" using assms(1,2) by (auto simp: shm_ok_def assms(3) told_all_def dom_def)
  ultimately show ?thesis using assms(1,4) by (simp add: shm_ok_def)
qed

lemma own_view: "proc_ok me p \<Longrightarrow> fds p fd = None \<Longrightarrow> view p (i, me, fd) = None"
  using view_entry(2) [of me p] view_none [of me p "(i, me, fd)"] by (force simp: proc_ok_def key_of_def)

lemma member_okD:
  assumes "shm_ok I s" and "shm_procs s q = Some p"
  shows "proc_ok q p" and "sharing p" and "inbox_ok q (inbox p) (view p)" and "settle (inbox p) (view p) = truth s"
  using assms by (simp_all add: shm_ok_def member_ok_def)

lemma open_ok:
  assumes "shm_ok I s" and "shm_procs s me = Some p" and "fds p fd = None"
  shows "shm_ok I (open_csocket me i fd f s)"
proof -
  note ok = member_okD [OF assms(1,2)]
  let ?p = "p\<lparr>fds := (fds p)(fd \<mapsto> f)\<rparr>"
  let ?r = "add_or_remove_csocket me i me fd fd False (fg_data_map s, ?p)"
  let ?p2 = "snd ?r"
  let ?s2 = "s\<lparr>fg_data_map := fst ?r, shm_procs := (shm_procs s)(me \<mapsto> ?p2)\<rparr>"
  have v: "view p (i, me, fd) = None" by (rule own_view [OF ok(1) assms(3)])
  have e: "proc_ok me ?p2 \<and> view ?p2 = (view p)((i, me, fd) \<mapsto> f) \<and> sharing ?p2 = sharing p \<and> inbox ?p2 = inbox p"
    by (rule add_effect [OF ok(1) assms(3) v]) simp_all
  have "fds ?p2 = fds ?p" by (simp add: add_or_remove_eq Let_def with_pair_keeps)
  then have "send_csocket_to_all_pids me i fd False ?s2 = ?s2\<lparr>shm_procs := told_all me
      [Packet \<lparr>pk_ifaces = i, pk_pid = me, pk_fd = fd, pk_remove = False\<rparr>, Descriptor f] ?p2 s\<rparr>"
    using send_all_eq [OF assms(1,2), of ?s2 ?p2 False fd f i] e ok(2) by simp
  then have "open_csocket me i fd f s = ?s2\<lparr>shm_procs := told_all me
      [Packet \<lparr>pk_ifaces = i, pk_pid = me, pk_fd = fd, pk_remove = False\<rparr>, Descriptor f] ?p2 s\<rparr>"
    by (simp add: open_csocket_def ipc_add_csocket_def on_proc_def assms(2) split_beta)
  then show ?thesis using e ok(2) v
    by (intro told_all_ok [OF assms(1,2), where p' = ?p2 and k = "(i, me, fd)" and v = "Some f"]) simp_all
qed

lemma close_ok:
  assumes "shm_ok I s" and "shm_procs s me = Some p" and "view p (i, me, fd) \<noteq> None"
  shows "shm_ok I (close_csocket me i fd s)"
proof -
  note ok = member_okD [OF assms(1,2)]
  obtain fg1 p2 where r: "add_or_remove_csocket me i me fd fd True (fg_data_map s, p) = (fg1, p2)" by fastforce
  let ?p' = "close_local fd p2"
  let ?s2 = "s\<lparr>fg_data_map := fg1, shm_procs := (shm_procs s)(me \<mapsto> p2)\<rparr>"
  let ?msgs = "[Packet \<lparr>pk_ifaces = i, pk_pid = me, pk_fd = fd, pk_remove = True\<rparr>]"
  have e: "proc_ok me ?p' \<and> view ?p' = (view p)((i, me, fd) := None) \<and> sharing ?p' = sharing p \<and> inbox ?p' = inbox p"
    by (rule remove_effect [OF ok(1) assms(3), of p2 fd "fg_data_map s"]) (simp_all add: r)
  have "p2 = snd (add_or_remove_csocket me i me fd fd True (fg_data_map s, p))" by (simp add: r)
  then have "sharing p2" using ok(2) by (simp add: add_or_remove_eq Let_def with_pair_keeps)
  then have send: "send_csocket_to_all_pids me i fd True ?s2 = ?s2\<lparr>shm_procs := told_all me ?msgs p2 s\<rparr>"
    using send_all_eq [OF assms(1,2), of ?s2 p2 True fd 0 i] by simp
  have c: "close_csocket me i fd s = on_proc me (\<lambda>(fg, p). (fg, close_local fd p)) (?s2\<lparr>shm_procs := told_all me ?msgs p2 s\<rparr>)"
    by (simp add: close_csocket_def ipc_remove_csocket_def on_proc_def [of me "add_or_remove_csocket me i me fd fd True"] assms(2) r send)
  have "(told_all me ?msgs p2 s)(me \<mapsto> ?p') = told_all me ?msgs ?p' s" "told_all me ?msgs p2 s me = Some p2"
    by (auto simp: told_all_def)
  then have "shm_procs (close_csocket me i fd s) = told_all me ?msgs ?p' s" "intnw_pids (close_csocket me i fd s) = intnw_pids s"
    unfolding c by (simp_all add: on_proc_def)
  then show ?thesis using e ok(2) assms(3) by (intro told_all_ok [OF assms(1,2), where p' = "close_local fd p2" and k = "(i, me, fd)" and v = None]) simp_all
qed

text \<open>A process that reads its inbox, and changes that do not matter to what is known.\<close>

lemma member_change_ok:
  assumes "shm_ok I s" and "shm_procs s me = Some p" and "shm_procs s' = (shm_procs s)(me \<mapsto> p')" and "intnw_pids s' = intnw_pids s"
    and "proc_ok me p'" and "sharing p'" and "inbox_ok me (inbox p') (view p')" and "settle (inbox p') (view p') = truth s"
    and "\<And>i fd. view p' (i, me, fd) = view p (i, me, fd)"
  shows "shm_ok I s'"
proof -
  have "truth s' = truth s"
    by (auto simp: truth_def assms(2,3,9) fun_eq_iff split: option.splits)
  then have "member_ok s' q r" if "shm_procs s' q = Some r" for q r
    using assms(1,5-8) that by (cases "q = me") (auto simp: assms(3) shm_ok_def member_ok_def)
  moreover have "dom (shm_procs s') = I" using assms(1,2) by (auto simp: shm_ok_def assms(3))
  ultimately show ?thesis using assms(1,4) by (simp add: shm_ok_def)
qed

lemma round_ok:
  assumes "shm_ok I s" and "shm_procs s me = Some p" and "fds p lfd = None"
  shows "shm_ok I (on_proc me (FDSharing_round me lfd) s)"
proof -
  note ok = member_okD [OF assms(1,2)]
  obtain fg1 p' where r: "FDSharing_round me lfd (fg_data_map s, p) = (fg1, p')" by fastforce
  have s': "shm_procs (on_proc me (FDSharing_round me lfd) s) = (shm_procs s)(me \<mapsto> p')"
    "intnw_pids (on_proc me (FDSharing_round me lfd) s) = intnw_pids s"
    by (simp_all add: on_proc_def assms(2) r)
  have p': "p' = snd (FDSharing_round me lfd (fg_data_map s, p))" by (simp add: r)
  consider (none) "inbox p = []"
    | (add) pk f ds where "inbox p = Packet pk # Descriptor f # ds"
    | (remove) pk ds where "inbox p = Packet pk # ds" "ds = [] \<or> (\<exists>pk' ds'. ds = Packet pk' # ds')"
    using ok(3) by (cases "(me, inbox p, view p)" rule: inbox_ok.cases) auto
  then have "proc_ok me p' \<and> sharing p' \<and> inbox_ok me (inbox p') (view p') \<and> settle (inbox p') (view p') = truth s \<and>
    (\<forall>i fd. view p' (i, me, fd) = view p (i, me, fd))"
  proof cases
    case none
    then show ?thesis using ok by (simp add: p' FDSharing_round_def)
  next
    case add
    let ?k = "(pk_ifaces pk, pk_pid pk, pk_fd pk)"
    have pk: "\<not> pk_remove pk" "pk_pid pk \<noteq> -1" "pk_pid pk \<noteq> me" "view p ?k = None"
      "inbox_ok me ds ((view p)(?k \<mapsto> f))" "settle ds ((view p)(?k \<mapsto> f)) = truth s"
      using ok(3,4) by (simp_all add: add)
    have "p' = snd (add_or_remove_csocket me (pk_ifaces pk) (pk_pid pk) (pk_fd pk) lfd False
        (fg_data_map s, p\<lparr>inbox := ds, fds := (fds p)(lfd \<mapsto> f)\<rparr>))"
      using ok(2) pk(1,2) by (simp add: p' FDSharing_round_def add)
    then have "proc_ok me p' \<and> view p' = (view p)(?k \<mapsto> f) \<and> sharing p' = sharing p \<and> inbox p' = ds"
      by (intro add_effect [OF ok(1) assms(3) pk(4)]) (use pk(3) in simp_all)
    then show ?thesis using pk ok(2) by auto
  next
    case remove
    let ?k = "(pk_ifaces pk, pk_pid pk, pk_fd pk)"
    have pk: "pk_remove pk" "pk_pid pk \<noteq> -1" "pk_pid pk \<noteq> me" "view p ?k \<noteq> None"
      "inbox_ok me ds ((view p)(?k := None))" "settle ds ((view p)(?k := None)) = truth s"
      using ok(3,4) remove(2) by (auto simp: remove(1) fun_upd_def)
    let ?p = "p\<lparr>inbox := ds\<rparr>"
    have "p' = snd (add_or_remove_csocket me (pk_ifaces pk) (pk_pid pk) (pk_fd pk) (-1) True (fg_data_map s, ?p))"
      using ok(2) pk(1,2) by (simp add: p' FDSharing_round_def remove(1))
    then have "proc_ok me p' \<and> view p' = (view ?p)(?k := None) \<and> sharing p' = sharing ?p \<and> inbox p' = inbox ?p"
      using pk(3,4) ok(1) by (intro remove_effect [of me ?p]) simp_all
    then show ?thesis using pk ok(2) by auto
  qed
  then show ?thesis using s' by (intro member_change_ok [OF assms(1,2), where p' = p']) auto
qed

lemma pair_ok:
  assumes "shm_ok I s"
  shows "shm_ok I (on_proc me (snd \<circ> ipc_add_iface_pair i) s)"
proof (cases "shm_procs s me")
  case None
  then show ?thesis using assms by (simp add: on_proc_def)
next
  case (Some p)
  note ok = member_okD [OF assms Some]
  obtain fg1 p' where r: "snd (ipc_add_iface_pair i (fg_data_map s, p)) = (fg1, p')" by fastforce
  have s': "shm_procs (on_proc me (snd \<circ> ipc_add_iface_pair i) s) = (shm_procs s)(me \<mapsto> p')"
    "intnw_pids (on_proc me (snd \<circ> ipc_add_iface_pair i) s) = intnw_pids s"
    by (simp_all add: on_proc_def Some r)
  have p': "p' = (if map_lookup i (fg_data_map s) = None \<and> map_of (csock_map p) i = None then put_set i [] p else p)"
    using r by (auto simp: ipc_add_iface_pair_def split: if_splits)
  then have k: "sock_set j p' = sock_set j p" "fds p' = fds p" "ebadf p' = ebadf p" "sharing p' = sharing p" "inbox p' = inbox p" for j
    by (auto simp: sock_set_def [of j p])
  have "distinct (map fst (csock_map p'))" using ok(1) p' by (auto simp: proc_ok_def)
  then have "proc_ok me p'" using ok(1) unfolding proc_ok_def entries_def k by blast
  moreover have "view p' = view p" by (auto simp: view_def k fun_eq_iff cong: option.case_cong)
  ultimately show ?thesis using ok k s' by (intro member_change_ok [OF assms Some, where p' = p']) simp_all
qed

lemma start_state:
  assumes "distinct I"
  shows "fold (ipc_shmem_init False) I \<lparr>fg_data_map = fg, intnw_pids = ps, shm_procs = M\<rparr> =
    \<lparr>fg_data_map = fg, intnw_pids = fold (set_insert (<)) I ps,
     shm_procs = \<lambda>q. if q \<in> set I then Some (new_shm_proc\<lparr>csock_map := map (\<lambda>(i, _). (i, [])) fg\<rparr>) else M q\<rparr>"
  using assms
  by (induction I arbitrary: ps M) (auto simp: ipc_shmem_init_def add_proc_def Let_def fun_eq_iff)

interpretation int_set_order: keyed_order "(<) :: int \<Rightarrow> int \<Rightarrow> bool" "\<lambda>x. x" "\<lambda>_. True"
  by unfold_locales simp

lemma sock_set_empty:
  assumes "csock_map p = map (\<lambda>(i, _). (i, [])) (fg :: fg_map)"
  shows "sock_set i p = []"
proof -
  have "map_of (map (\<lambda>(i, _). (i, [] :: proc_sock_info list)) fg) i \<in> {None, Some []}" by (induction fg) auto
  then show ?thesis by (auto simp: sock_set_def assms)
qed

lemma start_ok:
  assumes "distinct I" and "\<forall>p\<in>set I. 0 \<le> p" and "distinct (map fst fg)"
  shows "shm_ok (set I) (fold (ipc_shmem_init False) I \<lparr>fg_data_map = fg, intnw_pids = [], shm_procs = Map.empty\<rparr>)"
proof -
  let ?p = "new_shm_proc\<lparr>csock_map := map (\<lambda>(i, _). (i, [])) fg\<rparr>"
  have empty: "sock_set i ?p = []" for i by (rule sock_set_empty) simp
  have "map fst (map (\<lambda>(i, _). (i, [] :: proc_sock_info list)) fg) = map fst fg" by (simp add: split_beta o_def)
  then have f: "distinct (map fst (csock_map ?p))"
    using assms(3) by (simp del: map_map)
  have g: "fds ?p = Map.empty" "ebadf ?p = 0" by (simp_all add: new_shm_proc_def)
  have "entries ?p = {}" by (simp add: entries_def empty)
  then have "proc_ok q ?p" for q using f unfolding proc_ok_def empty g by simp
  moreover have "view ?p = Map.empty" by (auto simp: view_def empty set_find_def)
  moreover have "truth (fold (ipc_shmem_init False) I \<lparr>fg_data_map = fg, intnw_pids = [], shm_procs = Map.empty\<rparr>) = Map.empty"
    using \<open>view ?p = Map.empty\<close> by (auto simp: truth_def start_state [OF assms(1)] fun_eq_iff)
  moreover have "distinct (fold (set_insert (<)) I [])" "set (fold (set_insert (<)) I []) = set I"
    using int_set_order.ordered_distinct [OF int_set_order.ordered_fold_insert, of "[]" I] int_set_order.keys_fold_insert [of "[]" I] by simp_all
  ultimately show ?thesis using assms(2)
    by (auto simp: shm_ok_def member_ok_def start_state [OF assms(1)] dom_def) (simp_all add: new_shm_proc_def)
qed

lemma shm_run_ok: "shm_run I s \<Longrightarrow> shm_ok (set I) s"
proof (induction rule: shm_run.induct)
  case (shm_time s i t)
  then show ?case by (simp add: shm_ok_def member_ok_def truth_def)
qed (auto intro: start_ok open_ok close_ok round_ok pair_ok)

section \<open>Properties\<close>

lemma drained_view:
  assumes "shm_run I s" and "shm_procs s q = Some p" and "inbox p = []"
  shows "view p = truth s"
  using member_okD(4) [OF shm_run_ok [OF assms(1)] assms(2)] assms(3) by simp


lemma bytes_fold:
  "fold (\<lambda>e bytes. let n = f e in if n < 0 then bytes else bytes + word_of_int n) es b = b + word_of_int (\<Sum>e\<leftarrow>es. max 0 (f e))"
  by (induction es arbitrary: b) (auto simp: Let_def algebra_simps)


text \<open>
  C38. The packet and the descriptor are two datagrams, and the lock that keeps them together is one of the
  sending process. When two processes send to a third at once, and the second packet comes before the
  first descriptor, the receiver stores -1 for the first socket, takes the descriptor for a packet
  of the wrong size, and ends its thread; from then on every process that sends to it removes it.
\<close>

theorem interleaved_senders_end_the_thread:
  assumes "shm_procs s q = Some p" and "sharing p" and "inbox p = []"
    and "\<not> pk_remove a" and "pk_pid a \<notin> {-1, q}" and "set_find info_less \<lparr>si_pid = pk_pid a, remote_fd = pk_fd a, local_fd = 0\<rparr> (sock_set (pk_ifaces a) p) = None"
    and "s1 = fold (\<lambda>d s. snd (send_dgram d q s)) [Packet a, Packet b, Descriptor fa, Descriptor fb] s"
    and "s2 = on_proc q (FDSharing_round q l2) (on_proc q (FDSharing_round q l1) s1)"
  shows "\<exists>p'. shm_procs s2 q = Some p' \<and> \<not> sharing p' \<and>
    \<lparr>si_pid = pk_pid a, remote_fd = pk_fd a, local_fd = -1\<rparr> \<in> set (sock_set (pk_ifaces a) p') \<and> \<not> fst (send_dgram d q s2)"
proof -
  let ?msgs = "[Packet a, Packet b, Descriptor fa, Descriptor fb]"
  let ?x = "\<lparr>si_pid = pk_pid a, remote_fd = pk_fd a, local_fd = -1\<rparr>"
  have s1: "shm_procs s1 q = Some (p\<lparr>inbox := ?msgs\<rparr>)" by (simp add: assms(1-3,7) send_dgram_def)
  obtain fg1 p1 where r: "add_or_remove_csocket q (pk_ifaces a) (pk_pid a) (pk_fd a) (-1) False
      (fg_data_map s1, p\<lparr>inbox := [Descriptor fa, Descriptor fb]\<rparr>) = (fg1, p1)" by fastforce
  then have "p1 = snd (add_or_remove_csocket q (pk_ifaces a) (pk_pid a) (pk_fd a) (-1) False
      (fg_data_map s1, p\<lparr>inbox := [Descriptor fa, Descriptor fb]\<rparr>))" by simp
  then have p1: "sharing p1" "inbox p1 = [Descriptor fa, Descriptor fb]" "sock_set (pk_ifaces a) p1 = set_insert info_less ?x (sock_set (pk_ifaces a) p)"
    using assms(2) by (simp_all add: add_or_remove_eq Let_def with_pair_keeps)
  have "x \<in> set (set_insert info_less x es)" if "set_find info_less x es = None" for x es
    using that by (induction es) (auto simp: set_find_def split: if_splits)
  moreover have "set_find info_less ?x (sock_set (pk_ifaces a) p) = None"
    using assms(6) by (simp add: set_find_def info_less_def)
  ultimately have "?x \<in> set (sock_set (pk_ifaces a) p1)" by (simp add: p1)
  moreover have "FDSharing_round q l1 (fg_data_map s1, p\<lparr>inbox := ?msgs\<rparr>) = (fg1, p1)"
    using assms(2,4,5) r by (simp add: FDSharing_round_def)
  then have "shm_procs s2 q = Some (p1\<lparr>sharing := False, inbox := [Descriptor fb]\<rparr>)"
    by (simp add: assms(8) on_proc_def s1) (simp add: FDSharing_round_def p1)
  ultimately show ?thesis by (simp add: send_dgram_def sock_set_def)
qed

text \<open>A process that starts later is told nothing about the sockets that exist.\<close>

lemma late_process_knows_nothing:
  "\<exists>p. shm_procs (ipc_shmem_init False q s) q = Some p \<and> inbox p = [] \<and> (\<forall>k. view p k = None)"
proof -
  let ?p = "new_shm_proc\<lparr>csock_map := map (\<lambda>(i, _). (i, [])) (fg_data_map s)\<rparr>"
  have "sock_set i ?p = []" for i by (rule sock_set_empty) simp
  then have "view ?p k = None" for k by (auto simp: view_def set_find_def split: prod.splits)
  moreover have "inbox ?p = []" by (simp add: new_shm_proc_def)
  moreover have "shm_procs (ipc_shmem_init False q s) q = Some ?p" by (simp add: ipc_shmem_init_def add_proc_def Let_def)
  ultimately show ?thesis by blast
qed

text \<open>A descriptor that arrives for a socket that is known already stays open, in no entry.\<close>

lemma repeated_socket_leaks:
  assumes "set_find info_less \<lparr>si_pid = pid, remote_fd = rfd, local_fd = lfd\<rparr> (sock_set i p) \<noteq> None" and "proc_ok me p"
    and "p' = snd (add_or_remove_csocket me i pid rfd lfd False (fg, p\<lparr>fds := (fds p)(lfd \<mapsto> f)\<rparr>))"
  shows "entries p' = entries p \<and> fds p' lfd = Some f"
proof -
  have ord: "infos.ordered (sock_set i p)" by (rule proc_ordered [OF assms(2)])
  have "set_insert info_less \<lparr>si_pid = pid, remote_fd = rfd, local_fd = lfd\<rparr> (sock_set i p) = sock_set i p"
  proof (rule infos.set_insert_present [OF ord TrueI])
    show "(si_pid \<lparr>si_pid = pid, remote_fd = rfd, local_fd = lfd\<rparr>, remote_fd \<lparr>si_pid = pid, remote_fd = rfd, local_fd = lfd\<rparr>)
      \<in> (\<lambda>e. (si_pid e, remote_fd e)) ` set (sock_set i p)"
      using assms(1) unfolding infos.set_find_None [OF ord TrueI] by simp
  qed
  then have "sock_set j p' = sock_set j p" for j by (simp add: assms(3) add_or_remove_eq Let_def with_pair_keeps)
  then show ?thesis by (simp add: entries_def) (simp add: assms(3) add_or_remove_eq Let_def with_pair_keeps)
qed

text \<open>The withdrawal of a socket puts a pair back into the shared table that has been removed from it, where
  the comment says that it is ignored.\<close>

lemma removed_pair_comes_back:
  assumes "map_lookup i fg = None" and "map_of (csock_map p) i = None"
  shows "map_lookup i (fst (add_or_remove_csocket me i pid rfd lfd True (fg, p))) = Some 0"
  using assms by (simp add: add_or_remove_eq Let_def with_pair_def ipc_add_iface_pair_def map_lookup_def update_conv')

section \<open>Examples\<close>

definition demo_pair :: addr_pair where
  "demo_pair = (10, 20)"

definition demo_shm0 :: shm where
  "demo_shm0 = fold (ipc_shmem_init False) [1, 2] \<lparr>fg_data_map = [(demo_pair, 0)], intnw_pids = [], shm_procs = Map.empty\<rparr>"

text \<open>Process 1 opens a socket, and process 2 reads its inbox.\<close>

definition demo_shm :: shm where
  "demo_shm = on_proc 2 (FDSharing_round 2 9) (open_csocket 1 demo_pair 5 7 demo_shm0)"

definition demo_proc :: shm_proc where
  "demo_proc = \<lparr>csock_map = [(demo_pair, [\<lparr>si_pid = 1, remote_fd = 5, local_fd = 9\<rparr>])], fds = [9 \<mapsto> 7], ebadf = 0, sharing = True, inbox = []\<rparr>"

lemmas shm_defs = open_csocket_def ipc_add_csocket_def on_proc_def add_or_remove_csocket_def sock_set_def put_set_def
  send_csocket_to_all_pids_def send_local_csocket_fd_def send_fd_sharing_packet_def send_dgram_def FDSharing_round_def new_shm_proc_def

lemma demo_shm0_eq:
  "demo_shm0 = \<lparr>fg_data_map = [(demo_pair, 0)], intnw_pids = [1, 2],
    shm_procs = \<lambda>q. if q \<in> {1, 2} then Some (new_shm_proc\<lparr>csock_map := [(demo_pair, [])]\<rparr>) else None\<rparr>"
  unfolding demo_shm0_def by (subst start_state) (simp_all add: fun_eq_iff)

lemma demo_shm_procs: "shm_procs demo_shm 2 = Some demo_proc" "fg_data_map demo_shm = [(demo_pair, 0)]"
  by (simp_all add: demo_shm_def demo_shm0_eq shm_defs demo_proc_def)

lemma demo_shm_run: "shm_run [1, 2] demo_shm"
proof -
  have "shm_run [1, 2] demo_shm0" unfolding demo_shm0_def by (rule shm_start) simp_all
  then have "shm_run [1, 2] (open_csocket 1 demo_pair 5 7 demo_shm0)"
    by (rule shm_open [where p = "new_shm_proc\<lparr>csock_map := [(demo_pair, [])]\<rparr>"]) (simp_all add: demo_shm0_eq new_shm_proc_def)
  then show ?thesis
    unfolding demo_shm_def
    by (rule shm_round [where p = "new_shm_proc\<lparr>csock_map := [(demo_pair, [])], inbox := [Packet \<lparr>pk_ifaces = demo_pair, pk_pid = 1,
      pk_fd = 5, pk_remove = False\<rparr>, Descriptor 7]\<rparr>"]) (simp_all add: demo_shm0_eq shm_defs)
qed



definition demo_packet :: "int \<Rightarrow> fd_sharing_packet" where
  "demo_packet pid = \<lparr>pk_ifaces = demo_pair, pk_pid = pid, pk_fd = 5, pk_remove = False\<rparr>"

lemma interleaved_senders_end_the_thread_witness:
  "\<exists>p'. shm_procs (on_proc 2 (FDSharing_round 2 9) (on_proc 2 (FDSharing_round 2 8)
     (fold (\<lambda>d s. snd (send_dgram d 2 s)) [Packet (demo_packet 1), Packet (demo_packet 3), Descriptor 7, Descriptor 6] demo_shm0))) 2 = Some p' \<and>
     \<not> sharing p'"
  using interleaved_senders_end_the_thread [of demo_shm0 2 "new_shm_proc\<lparr>csock_map := [(demo_pair, [])]\<rparr>" "demo_packet 1" _ "demo_packet 3" 7 6 _ 9 8,
      OF _ _ _ _ _ _ refl refl]
  by (simp add: demo_shm0_eq demo_packet_def new_shm_proc_def sock_set_def set_find_def) blast

end
