(* ===== verification/Instruments.thy ===== *)
theory Instruments
  imports Network_Chooser Estimates Timeops
begin

text \<open>
  intnw_instruments_net_stats_wrapper.cpp: what the chooser of the instruments library keeps for a network. The
  library itself is not in the repository: an estimator is the list of the operations that were done on it,
  and what the library makes of it, of a probability distribution and of the energy model is the
  argument \<open>instr_lib\<close>. The configuration is the argument \<open>instr_config\<close>. The wrapper gives up the chooser's lock
  while it adds an observation: the lock is part of the state, as the thread that runs finds it; what other
  threads do meanwhile is not in these steps.
\<close>

section \<open>The library and the configuration\<close>

datatype 'd est_op =
    RangeHints 'd 'd nat
  | Observe 'd 'd
  | AtLeast 'd
  | ClearConditions
  | ResetError

type_synonym 'd external_estimator = "'d est_op list"

text \<open>The value of an estimator in a context, or without one; the probability that a session ends in a range;
  the energy, for wifi or not, of so many bytes at a bandwidth and a round-trip time in milliseconds; the time the last
  evaluation has found for a strategy; and the number that libpowertutor has for wifi.\<close>

record ('c, 'd) instr_lib =
  get_estimator_value :: "'c option \<Rightarrow> 'd external_estimator \<Rightarrow> 'd"
  get_probability_value_is_in_range :: "'d \<Rightarrow> 'd \<Rightarrow> 'd"
  energy_computer :: "bool \<Rightarrow> nat \<Rightarrow> nat \<Rightarrow> nat \<Rightarrow> int"
  get_last_strategy_time :: "nat \<Rightarrow> 'd"
  TYPE_WIFI :: "32 word"

text \<open>The evaluation method only as far as it is asked for.\<close>

record 'd instr_config =
  wifi_failover_delay :: 'd
  trusted_oracle :: bool
  confidence_bounds :: bool
  disable_bandwidth_error :: bool
  has_session_params :: bool
  periodic_reevaluation :: bool
  range_hints_options :: "string \<Rightarrow> string \<Rightarrow> 'd \<times> 'd \<times> nat"

section \<open>The chooser's lock\<close>

text \<open>\<^verbatim>\<open>NetworkChooserImpl::lock\<close> and \<^verbatim>\<open>unlock\<close>: the mutex is that of the \<^verbatim>\<open>NetworkChooser\<close> around it, to which the
  pointer is null until \<^verbatim>\<open>setWrapper\<close> has been called. It is made by \<^verbatim>\<open>MY_PTHREAD_MUTEX_INIT\<close>, with error checking, so that
  unlocking a mutex that the thread does not hold and locking one that it holds fail, and a failure ends
  the process.\<close>

datatype chooser_lock = NoWrapper | LockFree | LockHeld

definition lock_chooser :: "chooser_lock \<Rightarrow> chooser_lock result" where
  "lock_chooser k = (case k of NoWrapper \<Rightarrow> Inl OutOfBounds | LockFree \<Rightarrow> Inr LockHeld | LockHeld \<Rightarrow> Inl AssertFailed)"

definition unlock_chooser :: "chooser_lock \<Rightarrow> chooser_lock result" where
  "unlock_chooser k = (case k of NoWrapper \<Rightarrow> Inl OutOfBounds | LockFree \<Rightarrow> Inl AssertFailed | LockHeld \<Rightarrow> Inr LockFree)"

text \<open>An observation that is added between the two.\<close>

definition lock_released :: "('s \<Rightarrow> 's) \<Rightarrow> chooser_lock \<times> 's \<Rightarrow> (chooser_lock \<times> 's) result" where
  "lock_released f ks =
     (let (k, s) = ks
      in bindE (unlock_chooser k) (\<lambda>k1. bindE (lock_chooser k1) (\<lambda>k2. Inr (k2, f s))))"

lemma lock_released_simps [simp]:
  "lock_released f (LockHeld, s) = Inr (LockHeld, f s)"
  "lock_released f (LockFree, s) = Inl AssertFailed"
  "lock_released f (NoWrapper, s) = Inl OutOfBounds"
  by (simp_all add: lock_released_def lock_chooser_def unlock_chooser_def)

section \<open>The wrapper\<close>

record 'd wrapped_stats =
  bw_up_estimator :: "'d external_estimator"
  rtt_estimator :: "'d external_estimator"
  session_duration :: "'d flipflop"
  session_duration_estimator :: "'d external_estimator"
  use_session_distribution :: bool
  first_update :: bool
  last_bw_estimate :: 'd
  last_RTT_estimate :: 'd
  first_bw_up_estimate :: 'd
  first_RTT_estimate :: 'd

definition get_range_hints :: "'d instr_config \<Rightarrow> string \<Rightarrow> string \<Rightarrow> 'd est_op result" where
  "get_range_hints cfg network t =
     ASSERT (network \<in> {''wifi'', ''cellular''} \<and> t \<in> {''bandwidth'', ''RTT'', ''session-duration''})
       (let (low, high, bins) = range_hints_options cfg network t in Inr (RangeHints low high bins))"

definition new_wrapped_stats :: "'d fp_arith \<Rightarrow> 'd instr_config \<Rightarrow> string \<Rightarrow> 'd wrapped_stats result" where
  "new_wrapped_stats A cfg network =
     bindE (get_range_hints cfg network ''bandwidth'') (\<lambda>bw_hints.
     bindE (get_range_hints cfg network ''RTT'') (\<lambda>rtt_hints.
     bindE (get_range_hints cfg network ''session-duration'') (\<lambda>session_hints.
       Inr \<lparr>bw_up_estimator = [bw_hints], rtt_estimator = [rtt_hints],
            session_duration = new_flipflop A (network @ ''_session_duration''),
            session_duration_estimator = (if has_session_params cfg then [] else [session_hints]),
            use_session_distribution = has_session_params cfg, first_update = True,
            last_bw_estimate = f_dec A 0 1, last_RTT_estimate = f_dec A 0 1,
            first_bw_up_estimate = f_dec A 0 1, first_RTT_estimate = f_dec A 0 1\<rparr>)))"

definition get_bandwidth_up :: "('c, 'd) instr_lib \<Rightarrow> 'c option \<Rightarrow> 'd wrapped_stats \<Rightarrow> 'd" where
  "get_bandwidth_up lib ctx s = get_estimator_value lib ctx (bw_up_estimator s)"

definition get_rtt :: "('c, 'd) instr_lib \<Rightarrow> 'c option \<Rightarrow> 'd wrapped_stats \<Rightarrow> 'd" where
  "get_rtt lib ctx s = get_estimator_value lib ctx (rtt_estimator s)"

definition get_session_duration :: "('c, 'd) instr_lib \<Rightarrow> 'c option \<Rightarrow> 'd wrapped_stats \<Rightarrow> 'd" where
  "get_session_duration lib ctx s = get_estimator_value lib ctx (session_duration_estimator s)"

text \<open>\<^verbatim>\<open>InstrumentsWrappedNetStats::getWifiFailurePenalty\<close>.\<close>

definition stats_failure_penalty ::
    "'d fp_arith \<Rightarrow> ('c, 'd) instr_lib \<Rightarrow> 'd instr_config \<Rightarrow> 'c option \<Rightarrow> 'd \<Rightarrow> 'd \<Rightarrow> 'd \<Rightarrow> 'd wrapped_stats \<Rightarrow> 'd" where
  "stats_failure_penalty A lib cfg ctx transfer_time current_wifi_duration penalty s =
     (if use_session_distribution s
      then let failure_window_end = f_add A (f_add A current_wifi_duration transfer_time) (wifi_failover_delay cfg);
               fail_prob = get_probability_value_is_in_range lib current_wifi_duration failure_window_end
           in f_mul A penalty fail_prob
      else if ctx \<noteq> None \<and> f_le A (f_sub A (get_session_duration lib ctx s) (wifi_failover_delay cfg)) current_wifi_duration
      then penalty
      else f_dec A 0 1)"

text \<open>\<^verbatim>\<open>update\<close>: the body of its loop, and the loop, which runs a second time after the first measurement.\<close>

type_synonym 'd locked_stats = "chooser_lock \<times> 'd wrapped_stats"

definition observe_bw :: "'d fp_arith \<Rightarrow> 'd instr_config \<Rightarrow> 'd \<Rightarrow> 'd \<Rightarrow> 'd locked_stats \<Rightarrow> 'd locked_stats result" where
  "observe_bw A cfg bw_up bw_estimate ks =
     (if f_less A (f_dec A 0 1) bw_up
      then bindE (if \<not> disable_bandwidth_error cfg \<or> \<not> confidence_bounds cfg
                  then bindE (lock_released (\<lambda>s. s\<lparr>bw_up_estimator := bw_up_estimator s @ [Observe bw_up bw_estimate]\<rparr>) ks) (\<lambda>(k, s).
                         Inr (k, if first_update s then s\<lparr>first_bw_up_estimate := bw_estimate\<rparr> else s))
                  else Inr ks)
             (\<lambda>(k, s). Inr (k, s\<lparr>last_bw_estimate := bw_estimate\<rparr>))
      else Inr ks)"

definition observe_RTT :: "'d fp_arith \<Rightarrow> 'd \<Rightarrow> 'd \<Rightarrow> 'd locked_stats \<Rightarrow> 'd locked_stats result" where
  "observe_RTT A RTT_seconds RTT_estimate ks =
     (if f_less A (f_dec A 0 1) RTT_seconds
      then bindE (lock_released (\<lambda>s. s\<lparr>rtt_estimator := rtt_estimator s @ [Observe RTT_seconds RTT_estimate]\<rparr>) ks) (\<lambda>(k, s).
             let s1 = (if first_update s then s\<lparr>first_RTT_estimate := RTT_estimate\<rparr> else s)
             in Inr (k, s1\<lparr>last_RTT_estimate := RTT_estimate\<rparr>))
      else Inr ks)"

definition update_body :: "'d fp_arith \<Rightarrow> 'd instr_config \<Rightarrow> 'd \<Rightarrow> 'd \<Rightarrow> 'd \<Rightarrow> 'd \<Rightarrow> 'd locked_stats \<Rightarrow> 'd locked_stats result" where
  "update_body A cfg b be r re ks = bindE (observe_bw A cfg b be ks) (observe_RTT A r re)"

lemma update_body_first_update:
  assumes "update_body A cfg b be r re (k, s) = Inr (k', s')"
  shows "first_update s' = first_update s"
  using assms by (cases k) (auto simp: update_body_def observe_bw_def observe_RTT_def Let_def split: if_splits)

function update_loop :: "'d fp_arith \<Rightarrow> 'd instr_config \<Rightarrow> 'd \<Rightarrow> 'd \<Rightarrow> 'd \<Rightarrow> 'd \<Rightarrow> chooser_lock \<Rightarrow> 'd wrapped_stats \<Rightarrow> 'd locked_stats result" where
  "update_loop A cfg b be r re k s =
     (case update_body A cfg b be r re (k, s) of
        Inl e \<Rightarrow> Inl e
      | Inr (k1, s1) \<Rightarrow>
          (let s2 = s1\<lparr>first_update := False\<rparr>
           in if first_update s1 then update_loop A cfg b be r re k1 s2 else Inr (k1, s2)))"
  by pat_completeness auto
termination
  by (relation "measure (\<lambda>(A, cfg, b, be, r, re, k, s). of_bool (first_update s))") (auto simp: update_body_first_update)

declare update_loop.simps [simp del]

definition wrapped_update :: "'d fp_arith \<Rightarrow> 'd instr_config \<Rightarrow> 'd \<Rightarrow> 'd \<Rightarrow> 'd \<Rightarrow> 'd \<Rightarrow> 'd locked_stats \<Rightarrow> 'd locked_stats result" where
  "wrapped_update A cfg bw_up bw_estimate RTT_seconds RTT_estimate ks =
     (let (k, s) = ks
      in if f_eq A bw_up (f_int A 0) \<and> f_eq A RTT_seconds (f_int A 0) then Inr (k, s)
         else update_loop A cfg bw_up bw_estimate RTT_seconds RTT_estimate k s)"

text \<open>A time in seconds.\<close>

definition to_seconds :: "'d fp_arith \<Rightarrow> timeval \<Rightarrow> 'd" where
  "to_seconds A t = f_add A (f_int A (tv_sec t)) (f_div A (f_int A (subsec t)) (f_dec A 10000000 1))"

definition addSessionDuration :: "'d fp_arith \<Rightarrow> timeval \<Rightarrow> 'd locked_stats \<Rightarrow> 'd locked_stats result" where
  "addSessionDuration A duration ks =
     (let (k, s) = ks; duration_secs = to_seconds A duration
      in bindE (add_observation A duration_secs (session_duration s)) (\<lambda>e.
           let s1 = s\<lparr>session_duration := e\<rparr>
           in case get_float_estimate e of
                None \<Rightarrow> Inr (k, s1)
              | Some duration_est \<Rightarrow>
                  if use_session_distribution s then Inr (k, s1)
                  else lock_released (\<lambda>s. s\<lparr>session_duration_estimator := session_duration_estimator s @ [Observe duration_secs duration_est]\<rparr>) (k, s1)))"

definition loadSessionLength :: "(string \<Rightarrow> 'd option) \<Rightarrow> string list \<Rightarrow> 'd wrapped_stats \<Rightarrow> (string list \<times> 'd wrapped_stats) result" where
  "loadSessionLength read_double inp s =
     bindE (load read_double inp (session_duration s)) (\<lambda>(rest, e).
       case get_float_estimate e of
         None \<Rightarrow> Inl AssertFailed
       | Some duration_est \<Rightarrow>
           (let s1 = s\<lparr>session_duration := e\<rparr>
            in Inr (rest, if use_session_distribution s then s1
                          else s1\<lparr>session_duration_estimator := session_duration_estimator s @ [Observe duration_est duration_est]\<rparr>)))"

definition saveSessionLength :: "('d \<Rightarrow> string) \<Rightarrow> 'd wrapped_stats \<Rightarrow> string list" where
  "saveSessionLength show_double s = save show_double (session_duration s)"

definition setWifiSessionLengthBound :: "'d \<Rightarrow> 'd wrapped_stats \<Rightarrow> 'd wrapped_stats" where
  "setWifiSessionLengthBound cur_session_length s =
     (if use_session_distribution s then s
      else s\<lparr>session_duration_estimator := session_duration_estimator s @ [AtLeast cur_session_length]\<rparr>)"

definition setRttLowerBound :: "'d \<Rightarrow> 'd wrapped_stats \<Rightarrow> 'd wrapped_stats" where
  "setRttLowerBound min_rtt s = s\<lparr>rtt_estimator := rtt_estimator s @ [AtLeast min_rtt]\<rparr>"

definition clearRttLowerBound :: "'d wrapped_stats \<Rightarrow> 'd wrapped_stats" where
  "clearRttLowerBound s = s\<lparr>rtt_estimator := rtt_estimator s @ [ClearConditions]\<rparr>"

definition resetError :: "'d wrapped_stats \<Rightarrow> 'd wrapped_stats" where
  "resetError s =
     s\<lparr>bw_up_estimator := bw_up_estimator s @ [Observe (first_bw_up_estimate s) (first_bw_up_estimate s), ResetError],
       rtt_estimator := rtt_estimator s @ [Observe (first_RTT_estimate s) (first_RTT_estimate s), ResetError]\<rparr>"

section \<open>What reaches the library\<close>

text \<open>The body of the loop without the lock.\<close>

definition bw_seen :: "'d fp_arith \<Rightarrow> 'd instr_config \<Rightarrow> 'd \<Rightarrow> 'd \<Rightarrow> 'd wrapped_stats \<Rightarrow> 'd wrapped_stats" where
  "bw_seen A cfg bw_up bw_estimate s =
     (if f_less A (f_dec A 0 1) bw_up
      then let s1 = (if \<not> disable_bandwidth_error cfg \<or> \<not> confidence_bounds cfg
                     then s\<lparr>bw_up_estimator := bw_up_estimator s @ [Observe bw_up bw_estimate],
                            first_bw_up_estimate := (if first_update s then bw_estimate else first_bw_up_estimate s)\<rparr>
                     else s)
           in s1\<lparr>last_bw_estimate := bw_estimate\<rparr>
      else s)"

definition RTT_seen :: "'d fp_arith \<Rightarrow> 'd \<Rightarrow> 'd \<Rightarrow> 'd wrapped_stats \<Rightarrow> 'd wrapped_stats" where
  "RTT_seen A RTT_seconds RTT_estimate s =
     (if f_less A (f_dec A 0 1) RTT_seconds
      then s\<lparr>rtt_estimator := rtt_estimator s @ [Observe RTT_seconds RTT_estimate],
             first_RTT_estimate := (if first_update s then RTT_estimate else first_RTT_estimate s),
             last_RTT_estimate := RTT_estimate\<rparr>
      else s)"

definition measured :: "'d fp_arith \<Rightarrow> 'd instr_config \<Rightarrow> 'd \<Rightarrow> 'd \<Rightarrow> 'd \<Rightarrow> 'd \<Rightarrow> 'd wrapped_stats \<Rightarrow> 'd wrapped_stats" where
  "measured A cfg b be r re s = RTT_seen A r re (bw_seen A cfg b be s)"

lemma first_update_measured [simp]: "first_update (measured A cfg b be r re s) = first_update s"
  by (simp add: measured_def RTT_seen_def bw_seen_def Let_def)

lemma update_body_held: "update_body A cfg b be r re (LockHeld, s) = Inr (LockHeld, measured A cfg b be r re s)"
proof -
  have "observe_bw A cfg b be (LockHeld, s) = Inr (LockHeld, bw_seen A cfg b be s)"
    by (simp add: observe_bw_def bw_seen_def Let_def)
  moreover have "observe_RTT A r re (LockHeld, t) = Inr (LockHeld, RTT_seen A r re t)" for t
    by (simp add: observe_RTT_def RTT_seen_def Let_def)
  ultimately show ?thesis by (simp add: update_body_def measured_def)
qed

definition updated :: "'d fp_arith \<Rightarrow> 'd instr_config \<Rightarrow> 'd \<Rightarrow> 'd \<Rightarrow> 'd \<Rightarrow> 'd \<Rightarrow> 'd wrapped_stats \<Rightarrow> 'd wrapped_stats" where
  "updated A cfg b be r re s =
     (if f_eq A b (f_int A 0) \<and> f_eq A r (f_int A 0) then s
      else let s1 = (measured A cfg b be r re s)\<lparr>first_update := False\<rparr>
           in if first_update s then (measured A cfg b be r re s1)\<lparr>first_update := False\<rparr> else s1)"

text \<open>With the lock held an update keeps it held and fails nowhere.\<close>

lemma wrapped_update_held: "wrapped_update A cfg b be r re (LockHeld, s) = Inr (LockHeld, updated A cfg b be r re s)"
proof -
  have again: "update_loop A cfg b be r re LockHeld s = Inr (LockHeld, (measured A cfg b be r re s)\<lparr>first_update := False\<rparr>)"
    if "\<not> first_update s" for s
    using that by (simp add: update_loop.simps update_body_held Let_def)
  show ?thesis
  proof (cases "first_update s")
    case True
    have "update_loop A cfg b be r re LockHeld s = update_loop A cfg b be r re LockHeld ((measured A cfg b be r re s)\<lparr>first_update := False\<rparr>)"
      using True by (subst update_loop.simps) (simp add: update_body_held Let_def)
    then show ?thesis using True by (simp add: wrapped_update_def updated_def again Let_def)
  next
    case False
    then show ?thesis by (simp add: wrapped_update_def updated_def again Let_def)
  qed
qed

text \<open>A measurement: bandwidth and its estimate, round-trip time and its estimate. One without either is none.\<close>

type_synonym 'd net_measurement = "'d \<times> 'd \<times> 'd \<times> 'd"

definition report_all :: "'d fp_arith \<Rightarrow> 'd instr_config \<Rightarrow> 'd net_measurement list \<Rightarrow> 'd locked_stats \<Rightarrow> 'd locked_stats result" where
  "report_all A cfg = foldE (\<lambda>(b, be, r, re). wrapped_update A cfg b be r re)"

definition all_seen :: "'d fp_arith \<Rightarrow> 'd instr_config \<Rightarrow> 'd net_measurement list \<Rightarrow> 'd wrapped_stats \<Rightarrow> 'd wrapped_stats" where
  "all_seen A cfg = fold (\<lambda>(b, be, r, re). updated A cfg b be r re)"

lemma report_all_held: "report_all A cfg ms (LockHeld, s) = Inr (LockHeld, all_seen A cfg ms s)"
  by (induction ms arbitrary: s) (auto simp: report_all_def all_seen_def wrapped_update_held)

definition real_measurement :: "'d fp_arith \<Rightarrow> 'd net_measurement \<Rightarrow> bool" where
  "real_measurement A = (\<lambda>(b, be, r, re). \<not> (f_eq A b (f_int A 0) \<and> f_eq A r (f_int A 0)))"

text \<open>The observations that measurements amount to; a bandwidth is left out with some methods.\<close>

definition bw_observations :: "'d fp_arith \<Rightarrow> 'd instr_config \<Rightarrow> 'd net_measurement list \<Rightarrow> 'd est_op list" where
  "bw_observations A cfg ms =
     (if disable_bandwidth_error cfg \<and> confidence_bounds cfg then []
      else map (\<lambda>(b, be, r, re). Observe b be) (filter (\<lambda>(b, be, r, re). f_less A (f_dec A 0 1) b) ms))"

definition RTT_observations :: "'d fp_arith \<Rightarrow> 'd net_measurement list \<Rightarrow> 'd est_op list" where
  "RTT_observations A ms = map (\<lambda>(b, be, r, re). Observe r re) (filter (\<lambda>(b, be, r, re). f_less A (f_dec A 0 1) r) ms)"

lemma observations_simps [simp]:
  "bw_observations A cfg (xs @ ys) = bw_observations A cfg xs @ bw_observations A cfg ys"
  "RTT_observations A (xs @ ys) = RTT_observations A xs @ RTT_observations A ys"
  "bw_observations A cfg [] = []" "RTT_observations A [] = []"
  by (simp_all add: bw_observations_def RTT_observations_def)

lemma measured_fields:
  "bw_up_estimator (measured A cfg b be r re s) = bw_up_estimator s @ bw_observations A cfg [(b, be, r, re)]"
  "rtt_estimator (measured A cfg b be r re s) = rtt_estimator s @ RTT_observations A [(b, be, r, re)]"
  "first_RTT_estimate (measured A cfg b be r re s) =
     (if first_update s \<and> f_less A (f_dec A 0 1) r then re else first_RTT_estimate s)"
  "first_bw_up_estimate (measured A cfg b be r re s) =
     (if first_update s \<and> bw_observations A cfg [(b, be, r, re)] \<noteq> [] then be else first_bw_up_estimate s)"
  by (auto simp: measured_def RTT_seen_def bw_seen_def bw_observations_def RTT_observations_def Let_def)

lemma report_later:
  assumes "\<not> first_update s"
  shows "\<not> first_update (all_seen A cfg ms s) \<and>
    bw_up_estimator (all_seen A cfg ms s) = bw_up_estimator s @ bw_observations A cfg (filter (real_measurement A) ms) \<and>
    rtt_estimator (all_seen A cfg ms s) = rtt_estimator s @ RTT_observations A (filter (real_measurement A) ms) \<and>
    first_bw_up_estimate (all_seen A cfg ms s) = first_bw_up_estimate s \<and>
    first_RTT_estimate (all_seen A cfg ms s) = first_RTT_estimate s"
  using assms
proof (induction ms arbitrary: s)
  case Nil
  then show ?case by (simp add: all_seen_def)
next
  case (Cons m ms)
  obtain b be r re where m: "m = (b, be, r, re)" by (cases m)
  let ?s = "updated A cfg b be r re s"
  have s: "\<not> first_update ?s" "bw_up_estimator ?s = bw_up_estimator s @ bw_observations A cfg (filter (real_measurement A) [m])"
    "rtt_estimator ?s = rtt_estimator s @ RTT_observations A (filter (real_measurement A) [m])"
    "first_bw_up_estimate ?s = first_bw_up_estimate s" "first_RTT_estimate ?s = first_RTT_estimate s"
    using Cons.prems by (simp_all add: updated_def measured_fields real_measurement_def m)
  have "all_seen A cfg (m # ms) s = all_seen A cfg ms ?s" by (simp add: all_seen_def m)
  moreover have "bw_observations A cfg (filter (real_measurement A) [m]) @ bw_observations A cfg (filter (real_measurement A) ms) =
      bw_observations A cfg (filter (real_measurement A) (m # ms))"
    "RTT_observations A (filter (real_measurement A) [m]) @ RTT_observations A (filter (real_measurement A) ms) =
      RTT_observations A (filter (real_measurement A) (m # ms))"
    by (simp_all only: observations_simps(1,2) [symmetric] filter_append [symmetric] append_Cons append_Nil)
  ultimately show ?case using Cons.IH [OF s(1)] s(2-5) by (metis append.assoc)
qed

lemma report_fresh:
  assumes "first_update s"
  shows "all_seen A cfg ms s =
    (case filter (real_measurement A) ms of
       [] \<Rightarrow> s
     | (b, be, r, re) # rest \<Rightarrow>
         all_seen A cfg ((b, be, r, re) # rest) ((measured A cfg b be r re s)\<lparr>first_update := False\<rparr>))"
proof (induction ms)
  case Nil
  then show ?case by (simp add: all_seen_def)
next
  case (Cons m ms)
  obtain b be r re where m: "m = (b, be, r, re)" by (cases m)
  let ?s1 = "(measured A cfg b be r re s)\<lparr>first_update := False\<rparr>"
  show ?case
  proof (cases "real_measurement A m")
    case False
    then show ?thesis using Cons.IH by (simp add: all_seen_def m real_measurement_def updated_def)
  next
    case True
    have "updated A cfg b be r re s = updated A cfg b be r re ?s1"
    proof -
      have "\<not> (f_eq A b (f_int A 0) \<and> f_eq A r (f_int A 0))" using True by (simp add: m real_measurement_def)
      note ne = if_not_P [OF this]
      show ?thesis unfolding updated_def ne using assms by (simp add: Let_def)
    qed
    moreover have skip: "all_seen A cfg (filter (real_measurement A) xs) t = all_seen A cfg xs t" for xs t
      by (induction xs arbitrary: t) (auto simp: all_seen_def real_measurement_def updated_def)
    moreover have "all_seen A cfg (m # ms) s = all_seen A cfg ms (updated A cfg b be r re s)"
      "all_seen A cfg (m # filter (real_measurement A) ms) ?s1 =
        all_seen A cfg (filter (real_measurement A) ms) (updated A cfg b be r re ?s1)"
      using True by (auto simp: all_seen_def m real_measurement_def updated_def)
    ultimately show ?thesis using True skip [of ms] by (simp add: m)
  qed
qed


text \<open>A library whose estimators answer 100 and whose sessions end with probability 1/2, and a configuration.\<close>

definition demo_lib :: "(unit, real) instr_lib" where
  "demo_lib = \<lparr>get_estimator_value = (\<lambda>_ _. 100), get_probability_value_is_in_range = (\<lambda>_ _. 1 / 2),
     energy_computer = (\<lambda>_ n _ _. int n), get_last_strategy_time = (\<lambda>_. 3), TYPE_WIFI = 1\<rparr>"

definition demo_config :: "real instr_config" where
  "demo_config = \<lparr>wifi_failover_delay = 2, trusted_oracle = False, confidence_bounds = False, disable_bandwidth_error = False,
     has_session_params = True, periodic_reevaluation = True, range_hints_options = (\<lambda>_ _. (1, 100, 10))\<rparr>"


end
