(* ===== verification/Instruments_Chooser.thy ===== *)
theory Instruments_Chooser
  imports Instruments Bootstrap
begin

text \<open>
  intnw_instruments_network_chooser.cpp: the chooser for INTNW_REDUNDANT. It keeps one pair of interfaces of each
  network type and lets the instruments library choose between wifi, cellular and both, by functions for the
  time, the energy and the data that a transfer costs. Whether data is to be sent on both networks is
  evaluated by the library in the background, and its answer comes back through a callback at any later time; the
  evaluations under way are part of the state. Which strategy the library chooses is an argument.
\<close>

section \<open>State\<close>

definition NETWORK_CHOICE_WIFI :: int where "NETWORK_CHOICE_WIFI = 0"
definition NETWORK_CHOICE_CELLULAR :: int where "NETWORK_CHOICE_CELLULAR = 1"
definition NETWORK_CHOICE_BOTH :: int where "NETWORK_CHOICE_BOTH = 2"
definition NUM_STRATEGIES :: int where "NUM_STRATEGIES = 3"

lemmas choice_defs = NETWORK_CHOICE_WIFI_def NETWORK_CHOICE_CELLULAR_def NETWORK_CHOICE_BOTH_def NUM_STRATEGIES_def

record labeled_data =
  send_label :: u_long
  bytelen :: int

definition chooser_arg_less :: "labeled_data \<Rightarrow> labeled_data \<Rightarrow> bool" where
  "chooser_arg_less l r \<longleftrightarrow> send_label l < send_label r \<or> send_label l = send_label r \<and> bytelen l < bytelen r"

text \<open>The \<^verbatim>\<open>void *\<close> that the library hands back to the cost functions: nothing, data, or a number that was
  cast to a pointer.\<close>

datatype chooser_arg = NullArg | DataArg labeled_data | NumberArg nat

definition deref_arg :: "chooser_arg \<Rightarrow> labeled_data option result" where
  "deref_arg arg =
     (case arg of
        NullArg \<Rightarrow> Inr None
      | DataArg d \<Rightarrow> Inr (Some d)
      | NumberArg n \<Rightarrow> if n = 0 then Inr None else Inl OutOfBounds)"

text \<open>The strategies are their indices. The pairs are meaningful where the flags say so.\<close>

record 'd inst_chooser =
  ic_has_match :: bool
  wifi_present :: bool
  cellular_present :: bool
  wifi_begin :: timeval
  needs_reevaluation :: bool
  chosen_strategy_type :: int
  chosen_singular_strategy_type :: int
  ic_wifi :: iface_pair
  ic_cellular :: iface_pair
  ic_matcher :: label_matcher
  wifi_stats :: "'d wrapped_stats"
  cellular_stats :: "'d wrapped_stats"

definition getStrategyIndex :: "int \<Rightarrow> int result" where
  "getStrategyIndex s = ASSERT (0 \<le> s \<and> s < NUM_STRATEGIES) (Inr s)"

definition ic_reset :: "'d inst_chooser \<Rightarrow> 'd inst_chooser" where
  "ic_reset c =
     c\<lparr>ic_has_match := False, wifi_present := False, cellular_present := False, needs_reevaluation := True,
       chosen_strategy_type := -1, chosen_singular_strategy_type := -1, ic_matcher := lm_reset (ic_matcher c)\<rparr>"

definition ic_consider :: "stats_cache \<Rightarrow> iface_pair \<Rightarrow> 'd inst_chooser \<Rightarrow> 'd inst_chooser result" where
  "ic_consider cache p c =
     (let c1 = c\<lparr>ic_matcher := lm_consider cache p (ic_matcher c), ic_has_match := True\<rparr>
      in if matches_type NET_TYPE_WIFI (fst p) (snd p) then Inr (c1\<lparr>wifi_present := True, ic_wifi := p\<rparr>)
         else ASSERT (matches_type NET_TYPE_THREEG (fst p) (snd p)) (Inr (c1\<lparr>cellular_present := True, ic_cellular := p\<rparr>)))"

section \<open>What a transfer costs\<close>

definition f_max :: "'d fp_arith \<Rightarrow> 'd \<Rightarrow> 'd \<Rightarrow> 'd" where
  "f_max A a b = (if f_less A a b then b else a)"

definition stats_for :: "bool \<Rightarrow> 'd inst_chooser \<Rightarrow> 'd wrapped_stats" where
  "stats_for wifi c = (if wifi then wifi_stats c else cellular_stats c)"

definition getBandwidthUp :: "'d fp_arith \<Rightarrow> ('c, 'd) instr_lib \<Rightarrow> 'c option \<Rightarrow> 'd wrapped_stats \<Rightarrow> 'd" where
  "getBandwidthUp A lib ctx s = f_max A (f_dec A 10 1) (get_bandwidth_up lib ctx s)"

definition getRttSeconds :: "'d fp_arith \<Rightarrow> ('c, 'd) instr_lib \<Rightarrow> 'c option \<Rightarrow> 'd wrapped_stats \<Rightarrow> 'd" where
  "getRttSeconds A lib ctx s = f_max A (f_dec A 0 1) (get_rtt lib ctx s)"

definition getCurrentWifiDuration :: "'d fp_arith \<Rightarrow> timeval \<Rightarrow> 'd inst_chooser \<Rightarrow> 'd result" where
  "getCurrentWifiDuration A now c =
     (if tv_sec (wifi_begin c) \<noteq> 0 then bindE (TIMEDIFF MAX_USECS (wifi_begin c) now) (\<lambda>d. Inr (to_seconds A d))
      else Inr (f_dec A 0 1))"

definition getWifiFailurePenalty ::
    "'d fp_arith \<Rightarrow> ('c, 'd) instr_lib \<Rightarrow> 'd instr_config \<Rightarrow> timeval \<Rightarrow> 'c option \<Rightarrow> bool \<Rightarrow> 'd \<Rightarrow> 'd \<Rightarrow> 'd inst_chooser \<Rightarrow> 'd result" where
  "getWifiFailurePenalty A lib cfg now ctx wifi transfer_time penalty c =
     (if wifi
      then bindE (getCurrentWifiDuration A now c) (\<lambda>d.
             Inr (stats_failure_penalty A lib cfg ctx transfer_time d penalty (wifi_stats c)))
      else Inr (f_dec A 0 1))"

definition averageWifiFailoverPenalty :: "'d fp_arith \<Rightarrow> 'd instr_config \<Rightarrow> 'd" where
  "averageWifiFailoverPenalty A cfg = f_div A (wifi_failover_delay cfg) (f_dec A 20 1)"

definition data_fields :: "labeled_data option \<Rightarrow> u_long \<times> int" where
  "data_fields ld = (case ld of None \<Rightarrow> (0, 0) | Some d \<Rightarrow> (send_label d, bytelen d))"

definition tx_time :: "'d fp_arith \<Rightarrow> ('c, 'd) instr_lib \<Rightarrow> 'c option \<Rightarrow> bool \<Rightarrow> int \<Rightarrow> 'd inst_chooser \<Rightarrow> 'd" where
  "tx_time A lib ctx wifi n c =
     (let s = stats_for wifi c in f_add A (f_div A (f_int A n) (getBandwidthUp A lib ctx s)) (getRttSeconds A lib ctx s))"

definition calculateTransferTime ::
    "'d fp_arith \<Rightarrow> ('c, 'd) instr_lib \<Rightarrow> 'd instr_config \<Rightarrow> timeval \<Rightarrow> 'c option \<Rightarrow> bool \<Rightarrow> labeled_data option \<Rightarrow> 'd inst_chooser \<Rightarrow> 'd result" where
  "calculateTransferTime A lib cfg now ctx wifi ld c =
     (let (labels, n) = data_fields ld; t = tx_time A lib ctx wifi n c
      in bindE (if \<not> has_label labels CMM_LABEL_WIFI_ONLY
                then getWifiFailurePenalty A lib cfg now ctx wifi t (averageWifiFailoverPenalty A cfg) c
                else Inr (f_dec A 0 1))
           (\<lambda>penalty. Inr (f_add A t penalty)))"

text \<open>The energy model takes \<^verbatim>\<open>size_t\<close>s; the round-trip time is passed in milliseconds.\<close>

definition estimate_energy_cost :: "'d fp_arith \<Rightarrow> ('c, 'd) instr_lib \<Rightarrow> bool \<Rightarrow> int \<Rightarrow> 'd \<Rightarrow> 'd \<Rightarrow> 'd" where
  "estimate_energy_cost A lib wifi n bw rtt_seconds =
     f_int A (energy_computer lib wifi (nat (n mod 2 ^ 64)) (nat (f_trunc A bw)) (nat (f_trunc A (f_mul A rtt_seconds (f_dec A 10000 1)))))"

definition calculateTransferEnergy ::
    "'d fp_arith \<Rightarrow> ('c, 'd) instr_lib \<Rightarrow> 'd instr_config \<Rightarrow> timeval \<Rightarrow> 'c option \<Rightarrow> bool \<Rightarrow> labeled_data option \<Rightarrow> 'd inst_chooser \<Rightarrow> 'd result" where
  "calculateTransferEnergy A lib cfg now ctx wifi ld c =
     ASSERT (ctx \<noteq> None)
       (let (labels, n) = data_fields ld; s = stats_for wifi c;
            bw = getBandwidthUp A lib ctx s; rtt_seconds = getRttSeconds A lib ctx s; t = tx_time A lib ctx wifi n c
        in bindE (if wifi \<and> \<not> has_label labels CMM_LABEL_WIFI_ONLY
                  then let fallback = estimate_energy_cost A lib False n (get_bandwidth_up lib None (cellular_stats c)) (get_rtt lib None (cellular_stats c))
                       in getWifiFailurePenalty A lib cfg now ctx wifi t fallback c
                  else Inr (f_dec A 0 1))
             (\<lambda>penalty. Inr (f_add A (estimate_energy_cost A lib wifi n bw rtt_seconds) penalty)))"

definition calculateTransferMobileData ::
    "'d fp_arith \<Rightarrow> ('c, 'd) instr_lib \<Rightarrow> 'd instr_config \<Rightarrow> timeval \<Rightarrow> 'c option \<Rightarrow> bool \<Rightarrow> labeled_data option \<Rightarrow> 'd inst_chooser \<Rightarrow> 'd result" where
  "calculateTransferMobileData A lib cfg now ctx wifi ld c =
     (let (labels, n) = data_fields ld
      in if wifi
         then if has_label labels CMM_LABEL_WIFI_ONLY then Inr (f_dec A 0 1)
              else getWifiFailurePenalty A lib cfg now ctx wifi (tx_time A lib ctx wifi n c) (f_int A n) c
         else Inr (f_int A n))"

text \<open>The functions that are registered with the library.\<close>

definition network_transfer_time ::
    "'d fp_arith \<Rightarrow> ('c, 'd) instr_lib \<Rightarrow> 'd instr_config \<Rightarrow> timeval \<Rightarrow> 'c option \<Rightarrow> bool \<Rightarrow> chooser_arg \<Rightarrow> 'd inst_chooser \<Rightarrow> 'd result" where
  "network_transfer_time A lib cfg now ctx wifi arg c =
     bindE (deref_arg arg) (\<lambda>ld. calculateTransferTime A lib cfg now ctx wifi ld c)"

definition network_transfer_energy_cost ::
    "'d fp_arith \<Rightarrow> ('c, 'd) instr_lib \<Rightarrow> 'd instr_config \<Rightarrow> timeval \<Rightarrow> 'c option \<Rightarrow> bool \<Rightarrow> chooser_arg \<Rightarrow> 'd inst_chooser \<Rightarrow> 'd result" where
  "network_transfer_energy_cost A lib cfg now ctx wifi arg c =
     bindE (deref_arg arg) (\<lambda>ld. calculateTransferEnergy A lib cfg now ctx wifi ld c)"

definition network_transfer_data_cost ::
    "'d fp_arith \<Rightarrow> ('c, 'd) instr_lib \<Rightarrow> 'd instr_config \<Rightarrow> timeval \<Rightarrow> 'c option \<Rightarrow> bool \<Rightarrow> chooser_arg \<Rightarrow> 'd inst_chooser \<Rightarrow> 'd result" where
  "network_transfer_data_cost A lib cfg now ctx wifi arg c =
     bindE (deref_arg arg) (\<lambda>ld. calculateTransferMobileData A lib cfg now ctx wifi ld c)"

section \<open>Choosing\<close>

text \<open>\<open>pick\<close> is \<^verbatim>\<open>choose_nonredundant_strategy\<close>: what the library chooses for data, from what the chooser keeps.\<close>

definition chooseNetwork ::
    "'d fp_arith \<Rightarrow> timeval \<Rightarrow> ('d inst_chooser \<Rightarrow> labeled_data \<Rightarrow> int) \<Rightarrow> u_long \<Rightarrow> int \<Rightarrow> 'd inst_chooser \<Rightarrow> (int \<times> 'd inst_chooser) result" where
  "chooseNetwork A now pick labels n c =
     bindE (getCurrentWifiDuration A now c) (\<lambda>d.
       let c1 = c\<lparr>wifi_stats := setWifiSessionLengthBound d (wifi_stats c)\<rparr>
       in bindE (getStrategyIndex (pick c1 \<lparr>send_label = labels, bytelen = n\<rparr>)) (\<lambda>i. Inr (i, c1)))"

text \<open>Every round before a choice begins with a reset, so that \<^verbatim>\<open>needs_reevaluation\<close> holds then. \<open>None\<close>: the
  function returns false.\<close>

definition ic_choose_networks ::
    "'d fp_arith \<Rightarrow> timeval \<Rightarrow> ('d inst_chooser \<Rightarrow> labeled_data \<Rightarrow> int) \<Rightarrow> u_long \<Rightarrow> nat \<Rightarrow> 'd inst_chooser \<Rightarrow>
       (iface_pair option \<times> 'd inst_chooser) result" where
  "ic_choose_networks A now pick labels nbytes c =
     (if nbytes = 0 then Inr (lm_choose_networks labels (ic_matcher c), c)
      else ASSERT (ic_has_match c) (ASSERT (wifi_present c \<or> cellular_present c)
        (if \<not> wifi_present c \<or> \<not> cellular_present c \<or> has_network_restriction labels
         then let found = lm_choose_networks labels (ic_matcher c)
              in Inr (found,
                   if found = None then c
                   else if \<not> wifi_present c \<or> has_label labels CMM_LABEL_THREEG_ONLY
                   then c\<lparr>chosen_singular_strategy_type := NETWORK_CHOICE_CELLULAR, chosen_strategy_type := NETWORK_CHOICE_CELLULAR\<rparr>
                   else if \<not> cellular_present c \<or> has_label labels CMM_LABEL_WIFI_ONLY
                   then c\<lparr>chosen_singular_strategy_type := NETWORK_CHOICE_WIFI, chosen_strategy_type := NETWORK_CHOICE_WIFI\<rparr>
                   else c)
         else bindE (if needs_reevaluation c
                     then bindE (bindE (getCurrentWifiDuration A now c) (\<lambda>_. chooseNetwork A now pick labels (to_int (int nbytes)) c))
                            (\<lambda>(i, c1). Inr (c1\<lparr>chosen_singular_strategy_type := i, needs_reevaluation := False\<rparr>))
                     else Inr c)
                (\<lambda>c1. if chosen_singular_strategy_type c1 = NETWORK_CHOICE_WIFI then Inr (Some (ic_wifi c1), c1)
                      else ASSERT (chosen_singular_strategy_type c1 = NETWORK_CHOICE_CELLULAR) (Inr (Some (ic_cellular c1), c1))))))"

definition ic_round ::
    "'d fp_arith \<Rightarrow> timeval \<Rightarrow> ('d inst_chooser \<Rightarrow> labeled_data \<Rightarrow> int) \<Rightarrow> stats_cache \<Rightarrow> iface_pair list \<Rightarrow> u_long \<Rightarrow> nat \<Rightarrow> 'd inst_chooser \<Rightarrow>
       (iface_pair option \<times> 'd inst_chooser) result" where
  "ic_round A now pick cache ps labels nbytes c =
     bindE (foldE (ic_consider cache) ps (ic_reset c)) (ic_choose_networks A now pick labels nbytes)"

definition getChosenStrategy :: "u_long \<Rightarrow> 'd inst_chooser \<Rightarrow> int result" where
  "getChosenStrategy labels c =
     ASSERT (\<not> has_label labels CMM_LABEL_WIFI_ONLY \<or> \<not> has_label labels CMM_LABEL_THREEG_ONLY)
       (if has_label labels CMM_LABEL_WIFI_ONLY then Inr NETWORK_CHOICE_WIFI
        else if has_label labels CMM_LABEL_THREEG_ONLY then Inr NETWORK_CHOICE_CELLULAR
        else if chosen_strategy_type c \<noteq> -1 then Inr (chosen_strategy_type c)
        else if chosen_singular_strategy_type c \<noteq> -1 then Inr (chosen_singular_strategy_type c)
        else Inl AssertFailed)"

definition get_rtt_estimator :: "u_long \<Rightarrow> 'd inst_chooser \<Rightarrow> 'd external_estimator option" where
  "get_rtt_estimator labels c =
     (if has_label labels CMM_LABEL_WIFI_ONLY then Some (rtt_estimator (wifi_stats c))
      else if has_label labels CMM_LABEL_THREEG_ONLY then Some (rtt_estimator (cellular_stats c))
      else None)"

section \<open>Redundancy\<close>

definition is_redundant :: "int \<Rightarrow> int \<Rightarrow> bool" where
  "is_redundant singular chosen \<longleftrightarrow> chosen \<noteq> -1 \<and> (chosen = NETWORK_CHOICE_BOTH \<or> singular \<noteq> chosen)"

text \<open>The name of the strategy is looked up for the log.\<close>

definition ic_shouldTransmitRedundantly :: "'d instr_config \<Rightarrow> 'd inst_chooser \<Rightarrow> bool result" where
  "ic_shouldTransmitRedundantly cfg c =
     (if trusted_oracle cfg then Inr False
      else ASSERT (ic_has_match c) (Inr (is_redundant (chosen_singular_strategy_type c) (chosen_strategy_type c))))"

text \<open>An evaluation under way: its callback knows the request and the network chosen when it was started. A
  scheduled one knows the argument that was passed to the library, the network whose round-trip time it
  supposes to be long, and its delay.\<close>

record evaluation =
  ev_data :: scheduling_data
  ev_singular :: int

record 'd reevaluation =
  re_data :: scheduling_data
  re_arg :: chooser_arg
  re_wifi :: bool
  re_delay :: 'd

definition checkRedundancyAsync ::
    "'d fp_arith \<Rightarrow> 'd instr_config \<Rightarrow> timeval \<Rightarrow> scheduling_data \<Rightarrow> 'd inst_chooser \<Rightarrow> (evaluation option \<times> 'd inst_chooser) result" where
  "checkRedundancyAsync A cfg now req c =
     (if trusted_oracle cfg then Inr (None, c)
      else bindE (getCurrentWifiDuration A now c) (\<lambda>d.
             Inr (Some \<lparr>ev_data = req, ev_singular = chosen_singular_strategy_type c\<rparr>,
                  c\<lparr>wifi_stats := setWifiSessionLengthBound d (wifi_stats c)\<rparr>)))"

text \<open>The callback: it notes the decision, without the chooser's lock, and tells the mapping, which asks
  \<open>is_redundant\<close> when the decision is not -1.\<close>

definition note_decision :: "int \<Rightarrow> 'd inst_chooser \<Rightarrow> 'd inst_chooser result" where
  "note_decision strategy c = bindE (getStrategyIndex strategy) (\<lambda>i. Inr (c\<lparr>chosen_strategy_type := i\<rparr>))"

definition tell_mapping :: "evaluation \<Rightarrow> int \<Rightarrow> msocket \<Rightarrow> msocket result" where
  "tell_mapping ev strategy sk =
     bindE (getStrategyIndex strategy) (\<lambda>i.
       onRedundancyDecision (ev_data ev) (if i \<noteq> -1 then Some (is_redundant (ev_singular ev) i) else None) sk)"

definition getReevaluationDelay ::
    "'d fp_arith \<Rightarrow> ('c, 'd) instr_lib \<Rightarrow> 'd instr_config \<Rightarrow> timeval \<Rightarrow> bool \<Rightarrow> 'd inst_chooser \<Rightarrow> 'd result" where
  "getReevaluationDelay A lib cfg now alreadyReevaluated c =
     bindE (if alreadyReevaluated then Inr (f_dec A 200 3)
            else let best = get_last_strategy_time lib (nat (chosen_strategy_type c))
                 in bindE (if chosen_strategy_type c = NETWORK_CHOICE_WIFI
                           then bindE (getWifiFailurePenalty A lib cfg now None True (f_dec A 0 1) (averageWifiFailoverPenalty A cfg) c)
                                  (\<lambda>p. Inr (f_sub A best p))
                           else Inr best)
                      (\<lambda>delay. Inr (f_mul A delay (f_dec A 20 1))))
       (\<lambda>delay. Inr (f_max A (f_dec A 0 1) delay))"

text \<open>\<^verbatim>\<open>strategy_names\<close> and \<^verbatim>\<open>strategies\<close> are indexed with the choice as it is at that time. The number of
  bytes is what is passed for the data.\<close>

definition scheduleReevaluation ::
    "'d fp_arith \<Rightarrow> ('c, 'd) instr_lib \<Rightarrow> 'd instr_config \<Rightarrow> timeval \<Rightarrow> nat option \<Rightarrow> scheduling_data \<Rightarrow> sender_irob \<Rightarrow> 'd inst_chooser \<Rightarrow>
       ('d reevaluation \<times> sender_irob) result" where
  "scheduleReevaluation A lib cfg now handle req p c =
     ASSERT (chosen_strategy_type c \<noteq> NETWORK_CHOICE_BOTH)
       (if chosen_strategy_type c \<notin> {0..<NUM_STRATEGIES} then Inl OutOfBounds
        else bindE (getReevaluationDelay A lib cfg now (reevaluated p) c) (\<lambda>delay.
               Inr (\<lparr>re_data = req, re_arg = NumberArg (expected_bytes_sender p),
                     re_wifi = (chosen_strategy_type c = NETWORK_CHOICE_WIFI), re_delay = delay\<rparr>,
                    setScheduledReevaluation handle p)))"

text \<open>When its time has come: the bound on the round-trip time is set before the evaluation and taken away after
  the decision has been noted, which goes on with a callback as above.\<close>

definition change_stats :: "bool \<Rightarrow> ('d wrapped_stats \<Rightarrow> 'd wrapped_stats) \<Rightarrow> 'd inst_chooser \<Rightarrow> 'd inst_chooser" where
  "change_stats wifi f c = (if wifi then c\<lparr>wifi_stats := f (wifi_stats c)\<rparr> else c\<lparr>cellular_stats := f (cellular_stats c)\<rparr>)"

definition before_reevaluation :: "'d reevaluation \<Rightarrow> 'd \<Rightarrow> 'd inst_chooser \<Rightarrow> 'd inst_chooser" where
  "before_reevaluation re min_rtt = change_stats (re_wifi re) (setRttLowerBound min_rtt)"

definition after_reevaluation :: "'d reevaluation \<Rightarrow> int \<Rightarrow> 'd inst_chooser \<Rightarrow> (evaluation \<times> 'd inst_chooser) result" where
  "after_reevaluation re strategy c =
     bindE (note_decision strategy c) (\<lambda>c1.
       Inr (\<lparr>ev_data = re_data re, ev_singular = chosen_singular_strategy_type c\<rparr>, change_stats (re_wifi re) clearRttLowerBound c1))"

text \<open>\<^verbatim>\<open>CSockMapping::shouldReevaluate\<close>, and a decision from its arrival on: the callback with \<^verbatim>\<open>onRedundancyDecision\<close>,
  which schedules a re-evaluation when the IROB is not to be sent on all networks.\<close>

definition shouldReevaluate :: "'d instr_config \<Rightarrow> msocket \<Rightarrow> sender_irob \<Rightarrow> bool" where
  "shouldReevaluate cfg sk p \<longleftrightarrow>
     can_be_redundant p \<and> count_connected sk > 1 \<and> periodic_reevaluation cfg \<and> \<not> trusted_oracle cfg"

definition decision_arrives ::
    "'d fp_arith \<Rightarrow> ('c, 'd) instr_lib \<Rightarrow> 'd instr_config \<Rightarrow> timeval \<Rightarrow> nat option \<Rightarrow> evaluation \<Rightarrow> int \<Rightarrow> 'd inst_chooser \<Rightarrow> msocket \<Rightarrow>
       ('d reevaluation option \<times> 'd inst_chooser \<times> msocket) result" where
  "decision_arrives A lib cfg now handle ev strategy c sk =
     bindE (note_decision strategy c) (\<lambda>c1.
     bindE (tell_mapping ev strategy sk) (\<lambda>sk1.
       case find_locked (outgoing_irobs sk1) (sd_id (ev_data ev)) of
         None \<Rightarrow> Inr (None, c1, sk1)
       | Some p \<Rightarrow>
           if send_on_all_networks p \<or> \<not> shouldReevaluate cfg sk1 p then Inr (None, c1, sk1)
           else bindE (scheduleReevaluation A lib cfg now handle (ev_data ev) p c1) (\<lambda>(re, p1).
                  Inr (Some re, c1, sk1\<lparr>outgoing_irobs := lat_update (sd_id (ev_data ev)) (\<lambda>_. p1) (outgoing_irobs sk1)\<rparr>))))"

section \<open>Reports\<close>

type_synonym 'd locked_chooser = "chooser_lock \<times> 'd inst_chooser"

definition ic_reportNetStats ::
    "'d fp_arith \<Rightarrow> 'd instr_config \<Rightarrow> 32 word \<Rightarrow> 'd \<Rightarrow> 'd \<Rightarrow> 'd \<Rightarrow> 'd \<Rightarrow> 'd locked_chooser \<Rightarrow> 'd locked_chooser result" where
  "ic_reportNetStats A cfg network_type new_bw new_bw_estimate new_latency_seconds new_latency_estimate kc =
     (let (k, c) = kc; wifi = (network_type = NET_TYPE_WIFI)
      in ASSERT (wifi \<or> network_type = NET_TYPE_THREEG)
           (bindE (wrapped_update A cfg new_bw new_bw_estimate new_latency_seconds new_latency_estimate (k, stats_for wifi c)) (\<lambda>(k1, s).
              Inr (k1, (change_stats wifi (\<lambda>_. s) c)\<lparr>needs_reevaluation := True\<rparr>))))"

definition ic_reportNetworkSetup :: "('c, 'd) instr_lib \<Rightarrow> timeval \<Rightarrow> 32 word \<Rightarrow> 'd inst_chooser \<Rightarrow> 'd inst_chooser" where
  "ic_reportNetworkSetup lib now network_type c =
     (if network_type = TYPE_WIFI lib \<and> tv_sec (wifi_begin c) = 0 then c\<lparr>wifi_begin := now\<rparr> else c)"

definition ic_reportNetworkTeardown ::
    "'d fp_arith \<Rightarrow> ('c, 'd) instr_lib \<Rightarrow> timeval \<Rightarrow> 32 word \<Rightarrow> 'd locked_chooser \<Rightarrow> 'd locked_chooser result" where
  "ic_reportNetworkTeardown A lib now network_type kc =
     (let (k, c) = kc
      in if network_type = TYPE_WIFI lib \<and> tv_sec (wifi_begin c) \<noteq> 0
         then bindE (TIMEDIFF MAX_USECS (wifi_begin c) now) (\<lambda>diff.
              bindE (unlock_chooser k) (\<lambda>k1.
              bindE (addSessionDuration A diff (k1, wifi_stats c)) (\<lambda>(k2, s).
              bindE (lock_chooser k2) (\<lambda>k3.
                Inr (k3, c\<lparr>wifi_begin := tv 0 0, wifi_stats := resetError s\<rparr>)))))
         else Inr (k, c))"

text \<open>The calls come through \<^verbatim>\<open>NetworkChooser\<close>, which locks around each.\<close>

definition with_guard :: "('d locked_chooser \<Rightarrow> 'd locked_chooser result) \<Rightarrow> 'd locked_chooser \<Rightarrow> 'd locked_chooser result" where
  "with_guard op kc =
     (let (k, c) = kc
      in bindE (lock_chooser k) (\<lambda>k1. bindE (op (k1, c)) (\<lambda>(k2, c1). bindE (unlock_chooser k2) (\<lambda>k3. Inr (k3, c1)))))"

section \<open>Construction and files\<close>

definition SESSION_LENGTH_FIELD_NAME :: string where "SESSION_LENGTH_FIELD_NAME = ''wifi_session_length''"

definition saveStats :: "('d \<Rightarrow> string) \<Rightarrow> 'd inst_chooser \<Rightarrow> string list" where
  "saveStats show_double c = SESSION_LENGTH_FIELD_NAME # saveSessionLength show_double (wifi_stats c)"

definition loadStats :: "(string \<Rightarrow> 'd option) \<Rightarrow> string list \<Rightarrow> 'd inst_chooser \<Rightarrow> 'd inst_chooser result" where
  "loadStats read_double inp c =
     (case inp of
        [] \<Rightarrow> Inl RuntimeError
      | name # rest \<Rightarrow>
          if name \<noteq> SESSION_LENGTH_FIELD_NAME then Inl RuntimeError
          else bindE (loadSessionLength read_double rest (wifi_stats c)) (\<lambda>(_, s). Inr (c\<lparr>wifi_stats := s\<rparr>)))"

text \<open>\<open>file\<close> is the content of the configured file with the statistics, if there is one. Without it the first session
  has the length of the failover delay, cut to seconds. \<^verbatim>\<open>NetworkChooser::create\<close> calls \<^verbatim>\<open>setWrapper\<close> after the
  constructor and the reset.\<close>

definition new_inst_chooser ::
    "'d fp_arith \<Rightarrow> 'd instr_config \<Rightarrow> (string \<Rightarrow> 'd option) \<Rightarrow> string list option \<Rightarrow> 'd inst_chooser result" where
  "new_inst_chooser A cfg read_double file =
     bindE (new_wrapped_stats A cfg ''cellular'') (\<lambda>cs.
     bindE (new_wrapped_stats A cfg ''wifi'') (\<lambda>ws.
       let c = \<lparr>ic_has_match = False, wifi_present = False, cellular_present = False, wifi_begin = tv 0 0, needs_reevaluation = True,
                chosen_strategy_type = -1, chosen_singular_strategy_type = -1, ic_wifi = (zero_iface, zero_iface),
                ic_cellular = (zero_iface, zero_iface), ic_matcher = new_label_matcher, wifi_stats = ws, cellular_stats = cs\<rparr>
       in case file of
            Some inp \<Rightarrow> loadStats read_double inp c
          | None \<Rightarrow> bindE (addSessionDuration A (tv (f_trunc A (wifi_failover_delay cfg)) 0) (NoWrapper, ws)) (\<lambda>(_, s). Inr (c\<lparr>wifi_stats := s\<rparr>))))"

definition create_inst_chooser ::
    "'d fp_arith \<Rightarrow> 'd instr_config \<Rightarrow> (string \<Rightarrow> 'd option) \<Rightarrow> string list option \<Rightarrow> 'd locked_chooser result" where
  "create_inst_chooser A cfg read_double file =
     bindE (new_inst_chooser A cfg read_double file) (\<lambda>c. Inr (LockFree, ic_reset c))"

section \<open>A round\<close>

definition last_of :: "('p \<Rightarrow> bool) \<Rightarrow> 'p list \<Rightarrow> 'p \<Rightarrow> 'p" where
  "last_of P ps d = fold (\<lambda>p q. if P p then p else q) ps d"

lemma last_of_in: "p \<in> set ps \<Longrightarrow> P p \<Longrightarrow> last_of P ps d \<in> set ps \<and> P (last_of P ps d)"
  by (induction ps arbitrary: p rule: rev_induct) (auto simp: last_of_def)

text \<open>Every pair is of exactly one network type.\<close>

definition typed_pairs :: "iface_pair list \<Rightarrow> bool" where
  "typed_pairs ps \<longleftrightarrow> (\<forall>p\<in>set ps. is_wifi p \<noteq> is_threeg p)"

lemma typed_pairs_snoc: "typed_pairs (ps @ [p]) \<longleftrightarrow> typed_pairs ps \<and> is_wifi p \<noteq> is_threeg p"
  by (auto simp: typed_pairs_def)

definition considered_all :: "stats_cache \<Rightarrow> iface_pair list \<Rightarrow> 'd inst_chooser \<Rightarrow> 'd inst_chooser" where
  "considered_all cache ps c =
     (ic_reset c)\<lparr>ic_has_match := ps \<noteq> [], wifi_present := \<exists>p\<in>set ps. is_wifi p, cellular_present := \<exists>p\<in>set ps. is_threeg p,
       ic_wifi := last_of is_wifi ps (ic_wifi c), ic_cellular := last_of is_threeg ps (ic_cellular c),
       ic_matcher := lm_round cache ps (ic_matcher c)\<rparr>"

lemma considered_all_fields [simp]:
  "ic_has_match (considered_all cache ps c) \<longleftrightarrow> ps \<noteq> []"
  "wifi_present (considered_all cache ps c) \<longleftrightarrow> (\<exists>p\<in>set ps. is_wifi p)"
  "cellular_present (considered_all cache ps c) \<longleftrightarrow> (\<exists>p\<in>set ps. is_threeg p)"
  "wifi_begin (considered_all cache ps c) = wifi_begin c"
  "needs_reevaluation (considered_all cache ps c)"
  "chosen_strategy_type (considered_all cache ps c) = -1"
  "chosen_singular_strategy_type (considered_all cache ps c) = -1"
  "ic_wifi (considered_all cache ps c) = last_of is_wifi ps (ic_wifi c)"
  "ic_cellular (considered_all cache ps c) = last_of is_threeg ps (ic_cellular c)"
  "ic_matcher (considered_all cache ps c) = lm_round cache ps (ic_matcher c)"
  by (simp_all add: considered_all_def ic_reset_def)

lemma considered_pairs: "typed_pairs ps \<Longrightarrow> foldE (ic_consider cache) ps (ic_reset c) = Inr (considered_all cache ps c)"
proof (induction ps rule: rev_induct)
  case Nil
  then show ?case by (simp add: considered_all_def ic_reset_def last_of_def)
next
  case (snoc p ps)
  then show ?case
    by (auto simp: typed_pairs_snoc foldE_append ic_consider_def Let_def last_of_def considered_all_def)
qed

text \<open>The network of a pair.\<close>

definition net_of :: "iface_pair \<Rightarrow> int" where
  "net_of p = (if is_wifi p then NETWORK_CHOICE_WIFI else NETWORK_CHOICE_CELLULAR)"

text \<open>The network that the labels ask for.\<close>

definition right_type :: "u_long \<Rightarrow> iface_pair \<Rightarrow> bool" where
  "right_type labels p \<longleftrightarrow>
     (if has_label labels CMM_LABEL_WIFI_ONLY then is_wifi p else if has_label labels CMM_LABEL_THREEG_ONLY then is_threeg p else True)"

lemma duration_cong: "wifi_begin c = wifi_begin c0 \<Longrightarrow> getCurrentWifiDuration A now c = getCurrentWifiDuration A now c0"
  by (simp add: getCurrentWifiDuration_def)

lemma evaluated_round:
  assumes "typed_pairs ps" and "\<exists>p\<in>set ps. is_wifi p" and "\<exists>p\<in>set ps. is_threeg p" and "\<not> has_network_restriction labels"
    and "n \<noteq> 0" and "getCurrentWifiDuration A now c = Inr d" and "\<forall>c d. pick c d \<in> {NETWORK_CHOICE_WIFI, NETWORK_CHOICE_CELLULAR}"
  shows "\<exists>p c'. ic_round A now pick cache ps labels n c = Inr (Some p, c') \<and> p \<in> set ps \<and> net_of p = chosen_singular_strategy_type c' \<and>
    (\<exists>c1. chosen_singular_strategy_type c' = pick c1 \<lparr>send_label = labels, bytelen = to_int (int n)\<rparr>) \<and>
    chosen_strategy_type c' = -1 \<and> ic_has_match c'"
proof -
  let ?c = "considered_all cache ps c"
  let ?c1 = "?c\<lparr>wifi_stats := setWifiSessionLengthBound d (wifi_stats ?c)\<rparr>"
  let ?ld = "\<lparr>send_label = labels, bytelen = to_int (int n)\<rparr>"
  have dur: "getCurrentWifiDuration A now ?c = Inr d" using assms(6) duration_cong [of ?c c A now] by simp
  obtain w g where w: "w \<in> set ps" "is_wifi w" and g: "g \<in> set ps" "is_threeg g" using assms(2,3) by blast
  note lw = last_of_in [of w ps is_wifi "ic_wifi c", OF w] and lg = last_of_in [of g ps is_threeg "ic_cellular c", OF g]
  have ne: "ps \<noteq> []" using w by auto
  have idx: "getStrategyIndex (pick ?c1 ?ld) = Inr (pick ?c1 ?ld)"
    using spec [OF spec [OF assms(7)], of ?c1 ?ld] by (auto simp: getStrategyIndex_def choice_defs)
  have nw: "\<not> is_wifi (last_of is_threeg ps (ic_cellular c))" using lg assms(1) by (auto simp: typed_pairs_def)
  let ?i = "pick ?c1 ?ld"
  let ?c2 = "?c1\<lparr>chosen_singular_strategy_type := ?i, needs_reevaluation := False\<rparr>"
  have i: "?i = NETWORK_CHOICE_WIFI \<or> ?i = NETWORK_CHOICE_CELLULAR" using assms(7) by blast
  have "chooseNetwork A now pick labels (to_int (int n)) ?c = Inr (?i, ?c1)"
    by (simp add: chooseNetwork_def dur idx Let_def)
  then have "ic_round A now pick cache ps labels n c =
      Inr (Some (if ?i = NETWORK_CHOICE_WIFI then last_of is_wifi ps (ic_wifi c) else last_of is_threeg ps (ic_cellular c)), ?c2)"
    using assms(2-5) ne i by (auto simp: ic_round_def considered_pairs [OF assms(1)] ic_choose_networks_def dur choice_defs)
  then show ?thesis using lw lg nw ne i by (intro exI conjI) (auto simp: net_of_def choice_defs)
qed

lemma labelled_round:
  assumes "typed_pairs ps" and "ps \<noteq> []" and "n \<noteq> 0"
    and "(\<forall>p\<in>set ps. \<not> is_wifi p) \<or> (\<forall>p\<in>set ps. \<not> is_threeg p) \<or> has_network_restriction labels"
  shows "\<exists>c'. ic_round A now pick cache ps labels n c = Inr (lm_choose_networks labels (lm_round cache ps (ic_matcher c)), c') \<and>
    ic_has_match c' \<and> chosen_strategy_type c' = chosen_singular_strategy_type c' \<and> chosen_strategy_type c' \<noteq> NETWORK_CHOICE_BOTH \<and>
    (\<forall>p\<in>set ps. lm_choose_networks labels (lm_round cache ps (ic_matcher c)) = Some p \<and> (has_label labels CMM_LABEL_THREEG_ONLY \<longrightarrow> is_threeg p) \<and>
       (has_label labels CMM_LABEL_WIFI_ONLY \<longrightarrow> is_wifi p) \<longrightarrow> chosen_singular_strategy_type c' = net_of p)"
proof -
  obtain q where q: "q \<in> set ps" using assms(2) by (cases ps) auto
  have one: "is_wifi p \<noteq> is_threeg p" if "p \<in> set ps" for p using assms(1) that by (auto simp: typed_pairs_def)
  have bits: "has_network_restriction labels \<Longrightarrow> has_label labels CMM_LABEL_WIFI_ONLY \<or> has_label labels CMM_LABEL_THREEG_ONLY"
    by (auto simp: has_network_restriction_bits label_bits)
  let ?f = "lm_choose_networks labels (lm_round cache ps (ic_matcher c))" and ?c = "considered_all cache ps c"
  let ?set = "\<lambda>t. ?c\<lparr>chosen_singular_strategy_type := t, chosen_strategy_type := t\<rparr>"
  let ?c' = "if ?f = None then ?c
    else if (\<forall>p\<in>set ps. \<not> is_wifi p) \<or> has_label labels CMM_LABEL_THREEG_ONLY then ?set NETWORK_CHOICE_CELLULAR
    else if (\<forall>p\<in>set ps. \<not> is_threeg p) \<or> has_label labels CMM_LABEL_WIFI_ONLY then ?set NETWORK_CHOICE_WIFI else ?c"
  have "\<not> (\<exists>p\<in>set ps. is_wifi p) \<or> \<not> (\<exists>p\<in>set ps. is_threeg p) \<or> has_network_restriction labels" using assms(4) by blast
  moreover have "(\<exists>p\<in>set ps. is_wifi p) \<or> (\<exists>p\<in>set ps. is_threeg p)" using q one by blast
  ultimately have eq: "ic_round A now pick cache ps labels n c = Inr (?f, ?c')"
    using assms(2,3) by (simp add: ic_round_def considered_pairs [OF assms(1)] ic_choose_networks_def Let_def)
  have "chosen_singular_strategy_type ?c' = net_of p"
    if "p \<in> set ps" "?f = Some p" "has_label labels CMM_LABEL_THREEG_ONLY \<longrightarrow> is_threeg p" "has_label labels CMM_LABEL_WIFI_ONLY \<longrightarrow> is_wifi p" for p
    using that one [OF that(1)] bits assms(4) by (auto simp: net_of_def)
  moreover have "ic_has_match ?c'" "chosen_strategy_type ?c' = chosen_singular_strategy_type ?c'"
    "chosen_strategy_type ?c' \<noteq> NETWORK_CHOICE_BOTH" using assms(2) by (simp_all add: choice_defs)
  ultimately show ?thesis using eq by blast
qed

section \<open>Properties\<close>


text \<open>
  C19. What the cost functions answer, in arithmetic without rounding, if probabilities are between 0 and 1 and the
  clock has not gone backwards: they return; the time is at least that of the transfer at the estimated bandwidth, taken as
  at least one byte per second, and more than that by at most the average failover delay, and by nothing over cellular or
  for data that must stay on wifi; the mobile data is never more than the bytes, all of them over cellular, and none
  for data that must stay on wifi.
\<close>

theorem transfer_costs_bounded:
  fixes lib :: "('c, real) instr_lib"
  assumes "\<forall>a b. 0 \<le> get_probability_value_is_in_range lib a b \<and> get_probability_value_is_in_range lib a b \<le> 1"
    and "0 \<le> wifi_failover_delay cfg" and "0 \<le> bytelen ld"
    and "tv_sec (wifi_begin c) \<noteq> 0 \<longrightarrow> timer_le (wifi_begin c) now"
    and "base = bytelen ld / max 1 (get_bandwidth_up lib ctx (stats_for wifi c)) + max 0 (get_rtt lib ctx (stats_for wifi c))"
  shows "\<exists>t (m::real). calculateTransferTime exact lib cfg now ctx wifi (Some ld) c = Inr t \<and>
    calculateTransferMobileData exact lib cfg now ctx wifi (Some ld) c = Inr m \<and>
    base \<le> t \<and> t \<le> base + wifi_failover_delay cfg / 2 \<and> 0 \<le> m \<and> m \<le> bytelen ld \<and>
    (has_label (send_label ld) CMM_LABEL_WIFI_ONLY \<longrightarrow> t = base) \<and>
    (if \<not> wifi then t = base \<and> m = bytelen ld else has_label (send_label ld) CMM_LABEL_WIFI_ONLY \<longrightarrow> m = 0)"
proof -
  have tx: "tx_time exact lib ctx wifi (bytelen ld) c = base"
    by (simp add: tx_time_def getBandwidthUp_def getRttSeconds_def f_max_def assms(5) max_def Let_def)
  obtain d where d: "getCurrentWifiDuration exact now c = Inr d"
    using assms(4) by (cases "tv_sec (wifi_begin c) = 0") (auto simp: getCurrentWifiDuration_def timer_le_def TIMEDIFF_def split: if_splits)
  let ?pen = "\<lambda>x. stats_failure_penalty exact lib cfg ctx base d x (wifi_stats c)"
  have pen: "0 \<le> ?pen x \<and> ?pen x \<le> x" if "0 \<le> x" for x
    using assms(1) that by (simp add: stats_failure_penalty_def Let_def mult_left_le)
  have "0 \<le> wifi_failover_delay cfg / 2" "0 \<le> real_of_int (bytelen ld)" using assms(2,3) by simp_all
  note p = pen [OF this(1)] pen [OF this(2)]
  note defs = calculateTransferTime_def calculateTransferMobileData_def data_fields_def getWifiFailurePenalty_def
    averageWifiFailoverPenalty_def Let_def
  show ?thesis
  proof (cases wifi)
    case True
    then show ?thesis using p assms(2,3) tx by (simp add: defs d)
  next
    case False
    then show ?thesis using assms(2,3) tx by (simp add: defs)
  qed
qed

text \<open>In a round no decision for redundancy survives.\<close>

lemma considered_decision:
  "foldE (ic_consider cache) ps c0 = Inr c1 \<Longrightarrow> chosen_strategy_type c1 = chosen_strategy_type c0"
  by (induction ps arbitrary: c0) (auto simp: bindE_eq_Inr ic_consider_def Let_def ASSERT_eq_Inr split: if_splits)

lemma round_not_redundant:
  assumes "ic_round A now pick cache ps labels n c = Inr (found, c')"
  shows "\<not> is_redundant (chosen_singular_strategy_type c') (chosen_strategy_type c')"
proof -
  obtain c1 where c1: "foldE (ic_consider cache) ps (ic_reset c) = Inr c1" "ic_choose_networks A now pick labels n c1 = Inr (found, c')"
    using assms by (auto simp: ic_round_def bindE_eq_Inr)
  have "chosen_strategy_type c1 = -1" using considered_decision [OF c1(1)] by (simp add: ic_reset_def)
  then show ?thesis
    using c1(2)
    by (auto simp: ic_choose_networks_def chooseNetwork_def Let_def ASSERT_eq_Inr bindE_eq_Inr is_redundant_def choice_defs split: if_splits)
qed

section \<open>Decisions\<close>

lemma pass_request_outgoing:
  assumes "pass_request_to_all_senders d p sk = (p', sk')"
  shows "outgoing_irobs sk' = outgoing_irobs sk" and "send_on_all_networks p' = send_on_all_networks p"
    and "placeholder p' = placeholder p"
proof -
  let ?same = "\<lambda>a b. outgoing_irobs (snd a) = outgoing_irobs (snd b) \<and> send_on_all_networks (fst a) = send_on_all_networks (fst b) \<and>
    placeholder (fst a) = placeholder (fst b)"
  have one: "?same (AddRequestIfNotSent d c (q, s)) (q, s)" for c q s
    by (auto simp: AddRequestIfNotSent_def num_ready_bytes_def get_irob_offset_def update_csock_def Let_def
        split: option.splits if_splits prod.splits)
  have "?same (fold (AddRequestIfNotSent d) cs (q, s)) (q, s)" for cs q s
  proof (induction cs arbitrary: q s)
    case (Cons c cs)
    obtain q1 s1 where "AddRequestIfNotSent d c (q, s) = (q1, s1)" by fastforce
    then show ?case using one [of c q s] Cons [of q1 s1] by simp
  qed simp
  from this [of "available_csocks sk" p sk] assms
  show "outgoing_irobs sk' = outgoing_irobs sk" "send_on_all_networks p' = send_on_all_networks p" "placeholder p' = placeholder p"
    by (auto simp: pass_request_to_all_senders_def split: if_splits)
qed

text \<open>What the mapping does with a decision for an IROB that is still there.\<close>

lemma onRedundancyDecision_present:
  assumes "find_locked (outgoing_irobs sk) (sd_id d) = Some p" and "\<not> placeholder p"
    and "all = (send_on_all_networks p \<or> count_connected sk > 1 \<and> can_be_redundant p \<and> b)"
  shows "\<exists>sk' p'. onRedundancyDecision d (Some b) sk = Inr sk' \<and> find_locked (outgoing_irobs sk') (sd_id d) = Some p' \<and>
    send_on_all_networks p' = all \<and> (if all then reeval_handle p' = None else p' = p \<and> available_csocks sk' = available_csocks sk \<and> csock_heap sk' = csock_heap sk)"
proof -
  let ?p1 = "check_redundancy (Some b) sk p"
  have p1: "send_on_all_networks ?p1 = all" "\<not> all \<Longrightarrow> ?p1 = p"
    using assms(3) by (auto simp: check_redundancy_def mark_send_on_all_networks_def)
  show ?thesis
  proof (cases all)
    case True
    obtain p2 sk1 where ps: "pass_request_to_all_senders d ?p1 sk = (p2, sk1)" by fastforce
    note o = pass_request_outgoing [OF ps]
    have "find_locked (lat_update (sd_id d) (\<lambda>_. onReevaluationDone p2) (outgoing_irobs sk)) (sd_id d) = Some (onReevaluationDone p2)"
      by (rule find_lat_update [OF assms(1)])
    then show ?thesis
      using assms(1,2) True p1 o by (simp add: onRedundancyDecision_def ps onReevaluationDone_def freeReevaluation_def)
  next
    case False
    then show ?thesis
      using assms(1,2) p1 find_lat_update [OF assms(1), of "\<lambda>_. p"] by (simp add: onRedundancyDecision_def)
  qed
qed

lemma reevaluation_delay:
  assumes "getCurrentWifiDuration exact now c = Inr d"
  shows "\<exists>delay. getReevaluationDelay exact lib cfg now again c = Inr delay \<and> 0 \<le> delay \<and> (again \<longrightarrow> delay = 1 / 5)"
proof (cases again)
  case True
  then show ?thesis by (intro exI [of _ "1 / 5"]) (simp add: getReevaluationDelay_def f_max_def)
next
  case False
  then show ?thesis
    using assms by (cases "chosen_strategy_type c = NETWORK_CHOICE_WIFI")
      (simp_all add: getReevaluationDelay_def getWifiFailurePenalty_def f_max_def Let_def)
qed

text \<open>
  C18. What becomes of an IROB, still there, when the decision about its redundancy arrives: if the strategy is both
  networks, or a network other than the one chosen when the evaluation was started, and the IROB may be
  redundant and more than one connection is up, it is to be sent on all networks and holds no scheduled
  re-evaluation; if not, and re-evaluations are wanted, one is scheduled for the network that has been decided
  on, with a delay that is not negative; otherwise the IROB is as before. The decision becomes that of the chooser.
  The cost functions cannot be called with the argument of the re-evaluation if the IROB has data.
\<close>

theorem redundancy_decision:
  assumes "find_locked (outgoing_irobs sk) (sd_id (ev_data ev)) = Some p" and "\<not> placeholder p"
    and "strategy \<in> {0..<NUM_STRATEGIES}" and "ev_singular ev \<noteq> NETWORK_CHOICE_BOTH"
    and "tv_sec (wifi_begin c) \<noteq> 0 \<longrightarrow> timer_le (wifi_begin c) now"
    and "all = (send_on_all_networks p \<or> count_connected sk > 1 \<and> can_be_redundant p \<and> strategy \<noteq> ev_singular ev)"
    and "all \<or> strategy \<noteq> NETWORK_CHOICE_BOTH \<or> \<not> shouldReevaluate cfg sk p"
  shows "\<exists>re sk' p'. decision_arrives exact lib cfg now handle ev strategy c sk = Inr (re, c\<lparr>chosen_strategy_type := strategy\<rparr>, sk') \<and>
    find_locked (outgoing_irobs sk') (sd_id (ev_data ev)) = Some p' \<and> send_on_all_networks p' = all \<and>
    (case re of
       None \<Rightarrow> if all then reeval_handle p' = None else p' = p \<and> \<not> shouldReevaluate cfg sk p
     | Some r \<Rightarrow> \<not> all \<and> shouldReevaluate cfg sk p \<and> p' = setScheduledReevaluation handle p \<and> 0 \<le> re_delay r \<and>
         re_wifi r = (strategy = NETWORK_CHOICE_WIFI) \<and> re_data r = ev_data ev \<and> (reevaluated p \<longrightarrow> re_delay r = 1 / 5) \<and>
         (expected_bytes_sender p \<noteq> 0 \<longrightarrow> network_transfer_time exact lib cfg now ctx wifi (re_arg r) c = Inl OutOfBounds))"
proof -
  let ?c = "c\<lparr>chosen_strategy_type := strategy\<rparr>" and ?b = "is_redundant (ev_singular ev) strategy"
  have b: "?b \<longleftrightarrow> strategy \<noteq> ev_singular ev" using assms(3,4) by (auto simp: is_redundant_def choice_defs)
  obtain sk1 p1 where d: "onRedundancyDecision (ev_data ev) (Some ?b) sk = Inr sk1"
    "find_locked (outgoing_irobs sk1) (sd_id (ev_data ev)) = Some p1" "send_on_all_networks p1 = all"
    "if all then reeval_handle p1 = None else p1 = p \<and> available_csocks sk1 = available_csocks sk \<and> csock_heap sk1 = csock_heap sk"
    using onRedundancyDecision_present [OF assms(1,2) assms(6) [folded b]] by blast
  have idx: "getStrategyIndex strategy = Inr strategy" "strategy \<noteq> -1" using assms(3) by (auto simp: getStrategyIndex_def)
  have arrives: "decision_arrives exact lib cfg now handle ev strategy c sk =
      (if all \<or> \<not> shouldReevaluate cfg sk1 p1 then Inr (None, ?c, sk1)
       else bindE (scheduleReevaluation exact lib cfg now handle (ev_data ev) p1 ?c) (\<lambda>(re, p2).
         Inr (Some re, ?c, sk1\<lparr>outgoing_irobs := lat_update (sd_id (ev_data ev)) (\<lambda>_. p2) (outgoing_irobs sk1)\<rparr>)))"
    using idx d by (simp add: decision_arrives_def note_decision_def tell_mapping_def)
  have same: "shouldReevaluate cfg sk1 p1 = shouldReevaluate cfg sk p" if "\<not> all"
  proof -
    have "p1 = p" "available_csocks sk1 = available_csocks sk" "csock_connected sk1 = csock_connected sk"
      using d(4) that by (auto simp: csock_connected_def fun_eq_iff)
    then show ?thesis by (simp add: shouldReevaluate_def count_connected_def)
  qed
  show ?thesis
  proof (cases "all \<or> \<not> shouldReevaluate cfg sk1 p1")
    case True
    then show ?thesis using arrives d(2-4) same by (intro exI [of _ None] exI [of _ sk1] exI [of _ p1]) auto
  next
    case False
    have p1: "p1 = p" "shouldReevaluate cfg sk p"
      using d(4) False same by auto
    have nb: "strategy \<noteq> NETWORK_CHOICE_BOTH" using assms(7) False p1 by blast
    obtain du where du: "getCurrentWifiDuration exact now ?c = Inr du"
      using assms(5) by (cases "tv_sec (wifi_begin c) = 0") (auto simp: getCurrentWifiDuration_def timer_le_def TIMEDIFF_def split: if_splits)
    obtain delay where delay: "getReevaluationDelay exact lib cfg now (reevaluated p) ?c = Inr delay" "0 \<le> delay" "reevaluated p \<longrightarrow> delay = 1 / 5"
      using reevaluation_delay [OF du] by blast
    let ?re = "\<lparr>re_data = ev_data ev, re_arg = NumberArg (expected_bytes_sender p), re_wifi = (strategy = NETWORK_CHOICE_WIFI), re_delay = delay\<rparr>"
    have "scheduleReevaluation exact lib cfg now handle (ev_data ev) p1 ?c = Inr (?re, setScheduledReevaluation handle p)"
      using nb assms(3) delay(1) by (simp add: scheduleReevaluation_def p1)
    moreover have "send_on_all_networks (setScheduledReevaluation handle p) = all" using d(3) p1 by (simp add: setScheduledReevaluation_def)
    moreover have "find_locked (lat_update (sd_id (ev_data ev)) (\<lambda>_. setScheduledReevaluation handle p) (outgoing_irobs sk1)) (sd_id (ev_data ev)) =
        Some (setScheduledReevaluation handle p)" by (rule find_lat_update [OF d(2)])
    ultimately show ?thesis
      using arrives False p1 delay(2,3)
      by (intro exI [of _ "Some ?re"] exI [of _ "setScheduledReevaluation handle p"] exI
          [of _ "sk1\<lparr>outgoing_irobs := lat_update (sd_id (ev_data ev)) (\<lambda>_. setScheduledReevaluation handle p) (outgoing_irobs sk1)\<rparr>"])
        (simp add: network_transfer_time_def deref_arg_def)
  qed
qed

text \<open>
  C40. A decision that comes late: an evaluation was started when the network \<open>s\<close> was chosen, another round has chosen
  the other network since, and the library decides for \<open>s\<close>. The mapping is told that this is not redundant, and
  before the decision nothing was to be sent redundantly; after it the chooser answers that everything is.
\<close>

theorem late_decision_is_taken_for_redundancy:
  assumes "ic_round A now pick cache ps labels n c0 = Inr (found, c1)" and "n \<noteq> 0" and "\<not> trusted_oracle cfg"
    and "ev_singular ev = s" and "s \<in> {NETWORK_CHOICE_WIFI, NETWORK_CHOICE_CELLULAR}" and "chosen_singular_strategy_type c1 \<noteq> s"
  shows "ic_shouldTransmitRedundantly cfg c1 = Inr False \<and> \<not> is_redundant (ev_singular ev) s \<and>
    (\<exists>c2. note_decision s c1 = Inr c2 \<and> ic_shouldTransmitRedundantly cfg c2 = Inr True)"
proof -
  obtain cc where cc: "foldE (ic_consider cache) ps (ic_reset c0) = Inr cc" "ic_choose_networks A now pick labels n cc = Inr (found, c1)"
    using assms(1) by (auto simp: ic_round_def bindE_eq_Inr)
  have "ic_has_match c1"
    using cc(2) assms(2)
    by (auto simp: ic_choose_networks_def chooseNetwork_def Let_def ASSERT_eq_Inr bindE_eq_Inr split: if_splits)
  then show ?thesis
    using round_not_redundant [OF assms(1)] assms(3-6)
    by (auto simp: ic_shouldTransmitRedundantly_def note_decision_def getStrategyIndex_def is_redundant_def choice_defs)
qed

section \<open>Sessions\<close>

lemma session_added:
  "addSessionDuration A duration (k, s) =
     (let s1 = s\<lparr>session_duration := observe A (to_seconds A duration) (session_duration s)\<rparr>
      in if use_session_distribution s then Inr (k, s1)
         else lock_released (\<lambda>s. s\<lparr>session_duration_estimator := session_duration_estimator s @
           [Observe (to_seconds A duration) (the (get_float_estimate (session_duration s1)))]\<rparr>) (k, s1))"
proof -
  obtain y where "get_float_estimate (observe A (to_seconds A duration) (session_duration s)) = Some y"
    by (simp add: get_float_estimate_def)
  then show ?thesis by (simp add: addSessionDuration_def add_observation_observe Let_def)
qed

lemma new_stats:
  assumes "network \<in> {''wifi'', ''cellular''}"
  shows "\<exists>s. new_wrapped_stats A cfg network = Inr s \<and> use_session_distribution s = has_session_params cfg"
proof -
  have "\<exists>h. get_range_hints cfg network t = Inr h" if "t \<in> {''bandwidth'', ''RTT'', ''session-duration''}" for t
    using assms that by (simp add: get_range_hints_def split: prod.split)
  then obtain h1 h2 h3 where "get_range_hints cfg network ''bandwidth'' = Inr h1" "get_range_hints cfg network ''RTT'' = Inr h2"
    "get_range_hints cfg network ''session-duration'' = Inr h3" by (metis insertCI)
  then show ?thesis by (simp add: new_wrapped_stats_def)
qed

lemma session_end:
  assumes "tv_sec (wifi_begin c) \<noteq> 0" and "TIMEDIFF MAX_USECS (wifi_begin c) now = Inr d"
  shows "with_guard (ic_reportNetworkTeardown A lib now (TYPE_WIFI lib)) (LockFree, c) =
    (if use_session_distribution (wifi_stats c)
     then Inr (LockFree, c\<lparr>wifi_begin := tv 0 0,
            wifi_stats := resetError ((wifi_stats c)\<lparr>session_duration := observe A (to_seconds A d) (session_duration (wifi_stats c))\<rparr>)\<rparr>)
     else Inl AssertFailed)"
proof (cases "use_session_distribution (wifi_stats c)")
  case True
  then have "addSessionDuration A d (LockFree, wifi_stats c) =
      Inr (LockFree, (wifi_stats c)\<lparr>session_duration := observe A (to_seconds A d) (session_duration (wifi_stats c))\<rparr>)"
    by (simp add: session_added)
  then show ?thesis
    using assms True by (simp add: with_guard_def ic_reportNetworkTeardown_def lock_chooser_def unlock_chooser_def)
next
  case False
  then have "addSessionDuration A d (LockFree, wifi_stats c) = Inl AssertFailed" by (simp add: session_added Let_def)
  then show ?thesis
    using assms False by (simp add: with_guard_def ic_reportNetworkTeardown_def lock_chooser_def unlock_chooser_def)
qed

text \<open>
  C39. The lengths of the wifi sessions. If the configuration does not give their distribution, and there is no file
  to load, the chooser cannot be created, because the constructor releases the lock of a wrapper that has not been
  set; and when a wifi session ends for a chooser that estimates them, the process ends, because the lock is released twice.
  With a distribution the chooser is created, the end of a session leaves the lock free, the observed length is
  added, and the errors of the wifi estimators are reset.
\<close>

theorem sessions_need_a_distribution:
  assumes "tv_sec (wifi_begin c) \<noteq> 0" and "timer_le (wifi_begin c) now"
  shows "(\<exists>kc. create_inst_chooser A cfg read_double None = Inr kc) = has_session_params cfg \<and>
    (\<not> has_session_params cfg \<longrightarrow> create_inst_chooser A cfg read_double None = Inl OutOfBounds) \<and>
    (\<exists>d. TIMEDIFF MAX_USECS (wifi_begin c) now = Inr d \<and>
      with_guard (ic_reportNetworkTeardown A lib now (TYPE_WIFI lib)) (LockFree, c) =
        (if use_session_distribution (wifi_stats c)
         then Inr (LockFree, c\<lparr>wifi_begin := tv 0 0,
                wifi_stats := resetError ((wifi_stats c)\<lparr>session_duration := observe A (to_seconds A d) (session_duration (wifi_stats c))\<rparr>)\<rparr>)
         else Inl AssertFailed))"
proof -
  obtain ws cs where st: "new_wrapped_stats A cfg ''wifi'' = Inr ws" "use_session_distribution ws = has_session_params cfg"
    "new_wrapped_stats A cfg ''cellular'' = Inr cs" using new_stats [of "''wifi''" A cfg] new_stats [of "''cellular''" A cfg] by auto
  have create: "\<exists>kc. create_inst_chooser A cfg read_double None = Inr kc" if "has_session_params cfg"
    using st that by (simp add: create_inst_chooser_def new_inst_chooser_def session_added Let_def)
  have trap: "create_inst_chooser A cfg read_double None = Inl OutOfBounds" if "\<not> has_session_params cfg"
    using st that by (simp add: create_inst_chooser_def new_inst_chooser_def session_added Let_def)
  obtain d where d: "TIMEDIFF MAX_USECS (wifi_begin c) now = Inr d"
    using assms(2) by (auto simp: TIMEDIFF_def timer_le_def split: if_splits)
  show ?thesis using create trap d session_end [OF assms(1) d] by (cases "has_session_params cfg") auto
qed

section \<open>Witnesses\<close>

definition demo_wifi_stats :: "real wrapped_stats" where
  "demo_wifi_stats = \<lparr>bw_up_estimator = [], rtt_estimator = [], session_duration = new_flipflop exact ''wifi'',
     session_duration_estimator = [], use_session_distribution = True, first_update = True, last_bw_estimate = 0,
     last_RTT_estimate = 0, first_bw_up_estimate = 0, first_RTT_estimate = 0\<rparr>"

definition demo_chooser :: "real inst_chooser" where
  "demo_chooser = \<lparr>ic_has_match = False, wifi_present = False, cellular_present = False, wifi_begin = tv 0 0,
     needs_reevaluation = True, chosen_strategy_type = -1, chosen_singular_strategy_type = -1,
     ic_wifi = (zero_iface, zero_iface), ic_cellular = (zero_iface, zero_iface), ic_matcher = new_label_matcher,
     wifi_stats = demo_wifi_stats, cellular_stats = demo_wifi_stats\<rparr>"

definition demo_wifi_pair :: iface_pair where
  "demo_wifi_pair = (wifi_iface 1 10 5, wifi_iface 2 10 5)"

definition demo_cellular_pair :: iface_pair where
  "demo_cellular_pair = (zero_iface\<lparr>type := NET_TYPE_THREEG\<rparr>, zero_iface)"

lemma demo_pairs:
  "typed_pairs [demo_wifi_pair, demo_cellular_pair]" "is_wifi demo_wifi_pair" "is_threeg demo_cellular_pair"
  "\<not> is_wifi demo_cellular_pair" "\<not> is_threeg demo_wifi_pair" "\<not> has_network_restriction 0"
  "usable_round Map.empty [demo_wifi_pair, demo_cellular_pair] (LabelMatcher (ic_matcher demo_chooser))"
  by code_simp+

lemma demo_duration: "getCurrentWifiDuration exact now demo_chooser = Inr 0"
  by (simp add: getCurrentWifiDuration_def demo_chooser_def)


theorem sessions_need_a_distribution_witness:
  "with_guard (ic_reportNetworkTeardown exact demo_lib (tv 5 0) 1)
     (LockFree, demo_chooser\<lparr>wifi_begin := tv 2 0, wifi_stats := demo_wifi_stats\<lparr>use_session_distribution := False\<rparr>\<rparr>) = Inl AssertFailed"
  using sessions_need_a_distribution
    [of "demo_chooser\<lparr>wifi_begin := tv 2 0, wifi_stats := demo_wifi_stats\<lparr>use_session_distribution := False\<rparr>\<rparr>" "tv 5 0" exact demo_config "\<lambda>_. None" demo_lib]
  by (simp add: timer_le_def demo_lib_def)

theorem transfer_costs_bounded_witness:
  "\<exists>t. calculateTransferTime exact demo_lib demo_config (tv 5 0) None True (Some \<lparr>send_label = 0, bytelen = 1000\<rparr>)
     (demo_chooser\<lparr>wifi_begin := tv 2 0\<rparr>) = Inr t \<and> 110 \<le> t \<and> t \<le> 111"
  using transfer_costs_bounded [of demo_lib demo_config "\<lparr>send_label = 0, bytelen = 1000\<rparr>" "demo_chooser\<lparr>wifi_begin := tv 2 0\<rparr>" "tv 5 0" 110 None True]
  by (auto simp: demo_lib_def demo_config_def timer_le_def get_bandwidth_up_def get_rtt_def)

theorem late_decision_is_taken_for_redundancy_witness:
  "\<exists>c1 c2. ic_round exact (tv 5 0) (\<lambda>_ _. NETWORK_CHOICE_CELLULAR) Map.empty [demo_wifi_pair, demo_cellular_pair] 0 100 demo_chooser =
      Inr (Some demo_cellular_pair, c1) \<and> ic_shouldTransmitRedundantly demo_config c1 = Inr False \<and>
    note_decision NETWORK_CHOICE_WIFI c1 = Inr c2 \<and> ic_shouldTransmitRedundantly demo_config c2 = Inr True"
proof -
  let ?pick = "\<lambda>_ _. NETWORK_CHOICE_CELLULAR" and ?ps = "[demo_wifi_pair, demo_cellular_pair]"
  let ?d = "\<lparr>sd_id = 0, chunks_ready = True, resend_request = 0, completion_time = tv 0 0, data_check = False, sd_labels = 0\<rparr>"
  have pick: "\<forall>(c :: real inst_chooser) d. ?pick c d \<in> {NETWORK_CHOICE_WIFI, NETWORK_CHOICE_CELLULAR}" by simp
  have types: "\<exists>q\<in>set ?ps. is_wifi q" "\<exists>q\<in>set ?ps. is_threeg q" using demo_pairs by simp_all
  have n: "(100::nat) \<noteq> 0" by simp
  obtain p c1 where c1: "ic_round exact (tv 5 0) ?pick Map.empty ?ps 0 100 demo_chooser = Inr (Some p, c1)" "p \<in> set ?ps"
    "net_of p = NETWORK_CHOICE_CELLULAR" "chosen_singular_strategy_type c1 = NETWORK_CHOICE_CELLULAR"
    using evaluated_round [OF demo_pairs(1) types demo_pairs(6) n demo_duration pick, where cache = Map.empty] by metis
  have "p = demo_cellular_pair" using c1(2,3) demo_pairs by (auto simp: net_of_def choice_defs)
  moreover have "\<not> trusted_oracle demo_config" by (simp add: demo_config_def)
  ultimately show ?thesis
    using c1 late_decision_is_taken_for_redundancy [OF c1(1), of demo_config "\<lparr>ev_data = ?d, ev_singular = NETWORK_CHOICE_WIFI\<rparr>" NETWORK_CHOICE_WIFI]
    by (auto simp: choice_defs)
qed

definition demo_small_irob :: sender_irob where
  "demo_small_irob =
     (sender_placeholder 0)\<lparr>placeholder := False, complete := True, send_labels := CMM_LABEL_ONDEMAND OR CMM_LABEL_SMALL, reevaluated := True,
       chunks := [empty_chunk\<lparr>datalen := 3, data := Some [1, 2, 3]\<rparr>]\<rparr>"

definition demo_two_networks :: msocket where
  "demo_two_networks =
     (new_msocket 3 Map.empty [])\<lparr>available_csocks := [1, 2],
       csock_heap := [1 \<mapsto> (new_csocket zero_iface zero_iface 4)\<lparr>connected := True\<rparr>, 2 \<mapsto> (new_csocket zero_iface zero_iface 5)\<lparr>connected := True\<rparr>],
       outgoing_irobs := new_lattice\<lparr>pending_irobs := [Some demo_small_irob]\<rparr>\<rparr>"

theorem redundancy_decision_witness:
  "let d = \<lparr>sd_id = 0, chunks_ready = True, resend_request = 0, completion_time = tv 0 0, data_check = False, sd_labels = 0\<rparr>
   in \<exists>r sk'. decision_arrives exact demo_lib demo_config (tv 5 0) (Some 9) \<lparr>ev_data = d, ev_singular = NETWORK_CHOICE_WIFI\<rparr>
      NETWORK_CHOICE_WIFI demo_chooser demo_two_networks = Inr (Some r, demo_chooser\<lparr>chosen_strategy_type := NETWORK_CHOICE_WIFI\<rparr>, sk') \<and>
    re_delay r = 1 / 5 \<and> find_locked (outgoing_irobs sk') 0 = Some (setScheduledReevaluation (Some 9) demo_small_irob)"
proof -
  let ?d = "\<lparr>sd_id = 0, chunks_ready = True, resend_request = 0, completion_time = tv 0 0, data_check = False, sd_labels = 0\<rparr>"
  let ?ev = "\<lparr>ev_data = ?d, ev_singular = NETWORK_CHOICE_WIFI\<rparr>"
  have p: "find_locked (outgoing_irobs demo_two_networks) 0 = Some demo_small_irob" "\<not> placeholder demo_small_irob"
    "\<not> send_on_all_networks demo_small_irob" "reevaluated demo_small_irob"
    by (simp_all add: find_locked_def lat_index_def demo_two_networks_def demo_small_irob_def new_lattice_def Let_def
        to_int_def sender_placeholder_def extend_sender_def sender_irob.fields_def pending_irob.extend_def placeholder_irob_def)
  have re: "can_be_redundant demo_small_irob" "count_connected demo_two_networks = 2" by code_simp+
  have "shouldReevaluate demo_config demo_two_networks demo_small_irob" using re by (simp add: shouldReevaluate_def demo_config_def)
  then show ?thesis
    using p redundancy_decision [of demo_two_networks ?ev demo_small_irob NETWORK_CHOICE_WIFI demo_chooser "tv 5 0" False demo_config demo_lib "Some 9" None True]
    by (auto simp: choice_defs NUM_STRATEGIES_def demo_chooser_def Let_def split: option.splits)
qed

end
