(* ===== verification/Spec2Isabelle.thy ===== *)
theory Spec2Isabelle
  imports End_To_End Net_Stats Scout_Client Locking_Map Shared_Memory Instruments_Chooser
begin

text \<open>
  A verification of libcmm, a library that gives an application one multisocket over several networks.

  \<^bold>\<open>The program.\<close> A multisocket (\<^verbatim>\<open>CMMSocketImpl\<close>) keeps one TCP connection (\<^verbatim>\<open>CSocket\<close>) per pair of a local and
  a remote interface. The application puts its data into IROBs, each with labels and with dependencies on
  earlier IROBs. A sending thread per connection (\<^verbatim>\<open>CSocketSender\<close>) takes scheduling requests, cuts IROBs into
  chunks and writes control messages; a receiving thread per connection (\<^verbatim>\<open>CSocketReceiver\<close>) reads them, puts
  IROBs together and schedules acknowledgements; \<^verbatim>\<open>recv\<close> hands out complete IROBs in the order of their
  dependencies. A chooser decides from the labels and from measured bandwidth and latency which pair of
  interfaces is used. A bootstrapper and a listener thread bring the first and further connections up, and
  interfaces come and go while all this happens: a process of its own, the scout, knows them and tells every
  application that has subscribed, and the applications share their sockets to know how much waits on each network.

  \<^bold>\<open>The theories, from the bottom.\<close>
  \<^item> \<open>CMM_Prelude\<close>: machine types, results that may be a failed assertion, an exception or an access out of
    bounds, narrowing to \<^verbatim>\<open>int\<close>, loops over containers. \<open>Ordered_Set\<close>: \<^verbatim>\<open>std::set\<close> with a comparison, its laws in
    the locale \<open>keyed_order\<close>, interpreted for requests, chunks and interfaces. \<open>Int_Set\<close> (intset.cpp), a set of
    ids as two bit vectors, which refines finite sets (locale \<open>id_set\<close>). \<open>Timeops\<close> (timeops.h, timeops.cpp): exactness
    of the time macros on normal values. \<open>Labels\<close> (libcmm.h, libcmm_net_restriction.cpp, net_interface.cpp, common.cpp).
  \<^item> \<open>Control_Msg\<close> (cmm_socket_control.h): headers as they lie on the wire, with the byte order of each field.
    \<open>Scheduling\<close> (irob_scheduling.cpp): requests, their order and the sets of them. \<open>Thunks\<close> (thunks.cpp).
  \<^item> \<open>Pending_IROB\<close> (pending_irob.cpp): IROBs and the lattice that holds them. \<open>Lattice_Inv\<close>: what the lattice needs of the
    two classes of IROBs (locale \<open>irob_class\<close>) and the invariant that every operation keeps. \<open>Sender_IROB\<close>, \<open>Sender_Inv\<close>
    (pending_sender_irob.cpp) and \<open>Receiver_IROB\<close>, \<open>Receiver_Inv\<close>, \<open>Receiver_Lattice\<close> (pending_receiver_irob.cpp): the two
    classes, each an interpretation of \<open>irob_class\<close>; \<open>Chunks\<close> holds what they share. \<open>Dependency_Order\<close>: the order
    that \<^verbatim>\<open>correct_deps\<close> imposes, over all runs of the sender's lattice.
  \<^item> \<open>Network_Chooser\<close> (network_chooser.cpp, network_chooser_impl.cpp, redundancy_strategy.cpp): the choosers, with their
    contract in the locale \<open>chooser_contract\<close>. \<open>Multisocket\<close> (csocket.h, cmm_socket.private.h): the state of connections
    and multisockets. \<open>CSock_Mapping\<close>, \<open>CSock_Mapping_Inv\<close> (csocket_mapping.cpp): the set of connections.
  \<^item> \<open>Estimates\<close> (flipflop_estimate.cpp) and \<open>Net_Stats\<close> (net_stats.cpp): the flip-flop filter and the passive
    measurement of a network, with the cache that the choosers read. \<open>Instruments\<close>
    (intnw_instruments_net_stats_wrapper.cpp) and \<open>Instruments_Chooser\<close> (intnw_instruments_network_chooser.cpp): the chooser
    that asks an external library which networks to use, and the decisions about redundancy that come back later.
  \<^item> \<open>App_Operations\<close> (cmm_socket_impl.cpp): what the calls of the application end in. \<open>Multisocket_Order\<close>: under any
    sequence of such calls, answers of the peer and changes of the networks the outgoing lattice is in a state that a
    run of the lattice reaches.
  \<^item> \<open>CSocket_Sender\<close>, \<open>Sender_Run\<close> (csocket_sender.cpp): the sending thread, with the contract of its actions in the
    locale \<open>sender_thread\<close>. \<open>CSocket_Receiver\<close>, \<open>Receiver_Dispatch\<close> (csocket_receiver.cpp): the handlers of the messages
    and their table. \<open>Delivery_Inv\<close>, \<open>Recv_Inv\<close>, \<open>Delivery\<close>, \<open>Delivery_Run\<close>: the receiving side as a state machine.
    \<open>End_To_End\<close>: what one end writes, the other delivers.
  \<^item> \<open>Bootstrap\<close> (cmm_conn_bootstrapper.cpp, cmm_internal_listener.cpp and the greetings of cmm_socket_impl.cpp),
    \<open>Select_Poll\<close> (\<^verbatim>\<open>mc_select\<close> and \<^verbatim>\<open>mc_poll\<close>) and \<open>Socket_API\<close> (libcmm.cpp, libcmm_irob.cpp, cmm_socket_passthrough.cpp
    and the tables of the process): how multisockets are made, connected, waited for, used and closed.
  \<^item> \<open>Locking_Map\<close> (pthread_util.h): the containers that threads share, \<^verbatim>\<open>LockingMap\<close> by the interleavings of its users.
    \<open>Scout\<close> (scout/libcmm_scout.cpp): the table of interfaces, its changes, the replay of traces, the listener.
    \<open>Scout_Client\<close> (libcmm_ipc.cpp, libcmm_external_ipc.cpp): the application's end. \<open>Shared_Memory\<close> (libcmm_shmem.cpp):
    what the processes share and how they pass each other their sockets.

  \<^bold>\<open>How code becomes definitions.\<close> A class is a record, a method a function with the same name, where that is free, on
  the record; a failed \<^verbatim>\<open>ASSERT\<close>, an exception and an access out of bounds are values of the result. Pointers to
  connections are references into a heap, because threads share the connections. \<^verbatim>\<open>u_long\<close> and addresses are words;
  ids are integers and \<^verbatim>\<open>size_t\<close>s natural numbers, with the narrowing of the source written out where a value crosses to
  \<^verbatim>\<open>int\<close> or to the wire. What is not in the repository, or happens outside, is an argument: the answers of the
  system (\<open>sys_env\<close>, \<open>boot_env\<close>, \<open>phys_env\<close>, \<open>os\<close>, \<open>select_call\<close>, the results of \<^verbatim>\<open>poll\<close>), the clock, the arithmetic of
  doubles (\<open>fp_arith\<close>), the external library of estimators (\<open>instr_lib\<close>), the configuration (\<open>instr_config\<close>), and, in \<open>sender_env\<close>, whether a write succeeds and what the other threads do to the multisocket
  while a thread has given up the lock (\<open>others\<close>). The hypothesis \<open>others_run\<close> says of the latter that it is again a run
  of the modelled operations; it is met by the identity, by which its witnesses instantiate it.

  \<^bold>\<open>What is shown.\<close>
  \<^item> From end to end: the receiving application reads whole IROBs of the sender, each at most once and after those
    it depends on; everything that has arrived with its dependencies is delivered; no well-formed message of an IROB fails
    an assertion; acknowledgements are only for what has arrived; messages are read exactly up to their end.
  \<^item> At the sender: anonymous IROBs are barriers, over all runs of the lattice and over all runs of the calls and of the
    sending threads; the chunks handed out are slices of the data and all of it is handed out; dropping removes exactly the
    dependents; what is written about an IROB is true of it.
  \<^item> Around them: one connection per pair of addresses, connections that respect labels, choices of the chooser, order of
    requests and thunks; the greeting reaches the peer and its loop ends; \<^verbatim>\<open>select\<close> means what the system call means; the
    calls keep multisockets apart; measurements never fail an assertion, come from whole IROBs only, and follow a queue
    served in order. The chooser of the library picks considered pairs of the right network, its estimated costs are
    bounded, its estimators see the measurements in order, and a decision about redundancy has one of three outcomes.
  \<^item> Between processes: an application that has read what the scout wrote knows the scout's table, and single requests
    are answered from it; processes that read their packets know the open sockets of all the others, under descriptors
    that are closed once, and count their bytes once; in every interleaving a write accessor is alone at its node.
  \<^item> Where the code does something else than it means to, a theorem says what: when a subscriber of the scout is
    dead, packets that come between a packet and its descriptor, an acknowledgement that is lost with its chunk, the lock
    of the library's chooser at its creation and at the end of a wifi session, and late decisions about
    redundancy. Further theorems, beside the definitions they are about, cover the scout's listener that meets its own
    socket, the bound of \<^verbatim>\<open>mark_not_received\<close>, the status of a failed handshake, \<^verbatim>\<open>poll\<close> for both events, acknowledgements without a record, the sign in the
    bandwidth, thunks that are not cancelled, two orderings that are none, stale choices, ignored restrictions, the
    subscription that a change overtakes, and first handlers that are registered at once.

  \<^bold>\<open>Bounds.\<close> \<^verbatim>\<open>recv\<close> runs its loop with fuel for one round per byte of room, which is enough because each
  round adds a byte, as \<open>Delivery_Run\<close> shows. The loop that reads the interfaces of the peer has a guard that is
  never taken, as \<open>Bootstrap\<close> shows. The loops \<open>more_chunks\<close> and \<open>data_checks\<close> of the sending thread take work that
  other threads may add for ever; their number of rounds is an argument and running out is the error \<open>OutOfFuel\<close>, about
  which nothing is claimed. A bootstrapper makes as many attempts as there are environments in its list.

  \<^bold>\<open>Not modelled.\<close> Of the scout: its command line, sleeping, looking up addresses, opening
  sockets; of the shared memory: its allocation and the child of a fork. The instruments library, which is not in the
  repository, is an argument; its chooser is modelled by itself, and a multisocket with that strategy is outside the
  model of multisockets (\<open>Instruments\<close>, \<open>None\<close>), whose choosers do not look at their argument \<^verbatim>\<open>num_bytes\<close>. Of that
  chooser, the resource weights and the files of errors. Configuration files, logging, bindings, test programs. The locks
  themselves, but for those of \<open>Locking_Map\<close> and of the library's chooser: each operation is one step, and where the
  source gives up a lock in the middle, the model has the argument \<open>others\<close>. The loop of the receiving thread around the
  dispatch, because headers are not laid out as bytes; timed waiting; socket options and peer names; the destruction of
  multisockets. In the handler of acknowledgements, the statistics are the argument \<open>measured\<close>: that a report to them
  may fail an assertion is a theorem of \<open>Net_Stats\<close>, not of the handler.
\<close>

end
